(* ===== verification/Nexus_Prelude.thy ===== *)
theory Nexus_Prelude
  imports Main "HOL-Library.Word"
begin

text \<open>
  Shared vocabulary of the development: the machine integers of the C sources, the byte
  layouts that \<^verbatim>\<open>memcpy\<close> and packed structs give them on a little-endian host, copies into
  byte buffers, and the generic facts about words and lists the components build on.
\<close>

unbundle bit_operations_syntax

section \<open>Machine integers\<close>

type_synonym u8 = "8 word"
type_synonym u16 = "16 word"
type_synonym u32 = "32 word"
type_synonym u64 = "64 word"
type_synonym bytes = "u8 list"

named_theorems byte_layout \<open>lengths and round trips of little-endian byte layouts\<close>
named_theorems unat_simps \<open>unsigned readings of word operations\<close>

text \<open>\<^verbatim>\<open>UINT8_MAX\<close>, \<^verbatim>\<open>UINT16_MAX\<close> and \<^verbatim>\<open>UINT32_MAX\<close> of \<^verbatim>\<open>stdint.h\<close>.\<close>

abbreviation (input) UINT8_MAX :: u8 where "UINT8_MAX \<equiv> 255"
abbreviation (input) UINT16_MAX :: u16 where "UINT16_MAX \<equiv> 65535"
abbreviation (input) UINT32_MAX :: u32 where "UINT32_MAX \<equiv> 4294967295"

section \<open>Little-endian byte layouts\<close>

definition u16_le :: "u16 \<Rightarrow> bytes" where
  "u16_le w = [ucast w, ucast (drop_bit 8 w)]"

definition u32_le :: "u32 \<Rightarrow> bytes" where
  "u32_le w = [ucast w, ucast (drop_bit 8 w), ucast (drop_bit 16 w), ucast (drop_bit 24 w)]"

definition le_u16 :: "bytes \<Rightarrow> u16" where
  "le_u16 p = ucast (p ! 0) OR push_bit 8 (ucast (p ! 1))"

definition le_u32 :: "bytes \<Rightarrow> u32" where
  "le_u32 p = ucast (p ! 0) OR push_bit 8 (ucast (p ! 1)) OR
     push_bit 16 (ucast (p ! 2)) OR push_bit 24 (ucast (p ! 3))"

lemma length_u16_le [simp, byte_layout]: "length (u16_le w) = 2"
  by (simp add: u16_le_def)

lemma length_u32_le [simp, byte_layout]: "length (u32_le w) = 4"
  by (simp add: u32_le_def)

lemma le_u16_u16_le [byte_layout]: "le_u16 (u16_le w @ xs) = w"
  by (rule bit_word_eqI) (auto simp: le_u16_def u16_le_def bit_simps)

lemma le_u32_u32_le [byte_layout]: "le_u32 (u32_le w @ xs) = w"
proof (rule bit_word_eqI)
  fix n assume n: "n < LENGTH(32)"
  show "bit (le_u32 (u32_le w @ xs)) n = bit w n"
    using n by (cases "n < 16"; cases "n < 24") (auto simp: le_u32_def u32_le_def bit_simps)
qed

lemma u32_le_le_u32: "u32_le (le_u32 (a # b # c # d # xs)) = [a, b, c, d]"
proof -
  let ?w = "le_u32 (a # b # c # d # xs)"
  have "ucast ?w = a" "ucast (drop_bit 8 ?w) = b" "ucast (drop_bit 16 ?w) = c" "ucast (drop_bit 24 ?w) = d"
    by (rule bit_word_eqI; auto simp: le_u32_def bit_simps dest: bit_imp_le_length)+
  then show ?thesis by (simp add: u32_le_def)
qed

lemma u16_le_inject [byte_layout]: "u16_le v = u16_le w \<longleftrightarrow> v = w"
  by (metis le_u16_u16_le)

lemma u32_le_inject [byte_layout]: "u32_le v = u32_le w \<longleftrightarrow> v = w"
  by (metis le_u32_u32_le)

section \<open>Copies into byte buffers\<close>

text \<open>
  \<open>memcpy_at off src buf\<close> is \<^verbatim>\<open>memcpy(buf + off, src, length src)\<close> for a copy that stays
  inside the buffer; \<open>memset0 n buf\<close> clears its first \<open>n\<close> bytes.
\<close>

definition memcpy_at :: "nat \<Rightarrow> 'a list \<Rightarrow> 'a list \<Rightarrow> 'a list" where
  "memcpy_at off src buf = take off buf @ src @ drop (off + length src) buf"

definition memset0 :: "nat \<Rightarrow> 'a::zero list \<Rightarrow> 'a list" where
  "memset0 n buf = memcpy_at 0 (replicate n 0) buf"

lemma length_memcpy_at [simp]:
  "off + length src \<le> length buf \<Longrightarrow> length (memcpy_at off src buf) = length buf"
  by (simp add: memcpy_at_def)

lemma length_memset0 [simp]: "n \<le> length buf \<Longrightarrow> length (memset0 n buf) = length buf"
  by (simp add: memset0_def)

lemma memset0_nth: "n \<le> length buf \<Longrightarrow> memset0 n buf ! i = (if i < n then 0 else buf ! i)"
  by (auto simp: memset0_def memcpy_at_def nth_append)

lemma memcpy_at_0_nth:
  "length src \<le> length buf \<Longrightarrow>
   memcpy_at 0 src buf ! i = (if i < length src then src ! i else buf ! i)"
  by (auto simp: memcpy_at_def nth_append)

section \<open>Words\<close>

lemma unat_ucast_le [unat_simps]:
  "LENGTH('a::len) \<le> LENGTH('b::len) \<Longrightarrow> unat (ucast (x :: 'a word) :: 'b word) = unat x"
proof -
  assume le: "LENGTH('a) \<le> LENGTH('b)"
  have "unat x < 2 ^ LENGTH('a)" by (rule unsigned_less)
  also have "\<dots> \<le> 2 ^ LENGTH('b)" using le by (rule power_increasing) simp
  finally show ?thesis by (simp add: unsigned_ucast_eq take_bit_nat_eq_self)
qed

lemma unat_u8_less: "unat (w :: u8) < 256"
  using unsigned_less [of w, where ?'a = nat] by simp

lemma unat_u16_less: "unat (w :: u16) < 65536"
  using unsigned_less [of w, where ?'a = nat] by simp

lemma unat_u32_less: "unat (w :: u32) < 4294967296"
  using unsigned_less [of w, where ?'a = nat] by simp

lemma uint_word_of_int_small:
  "0 \<le> k \<Longrightarrow> k < 2 ^ LENGTH('a) \<Longrightarrow> uint (word_of_int k :: 'a::len word) = k"
  by (simp add: unsigned_of_int take_bit_int_eq_self)

lemma unat_word_of_nat_small:
  "n < 2 ^ LENGTH('a) \<Longrightarrow> unat (word_of_nat n :: 'a::len word) = n"
  by (simp add: unsigned_of_nat take_bit_nat_eq_self)

lemma unat_ucast_small:
  "unat x < 2 ^ LENGTH('b) \<Longrightarrow> unat (ucast (x :: 'a::len word) :: 'b::len word) = unat x"
  by (simp add: unsigned_ucast_eq take_bit_nat_eq_self)

lemma unat_add_1: "unat w < 2 ^ LENGTH('a) - 1 \<Longrightarrow> unat (w + 1 :: 'a::len word) = Suc (unat w)"
  by (simp add: unat_word_ariths)

lemma drop_bit_and_1_iff: "drop_bit k w AND 1 \<noteq> 0 \<longleftrightarrow> bit w k" for w :: "'a::len word"
  by (simp add: and_one_eq bit_iff_odd_drop_bit odd_iff_mod_2_eq_one)

lemma unat_drop_bit [unat_simps]: "unat (drop_bit n w) = unat w div 2 ^ n"
  by (simp only: unsigned_drop_bit_eq) (simp add: drop_bit_eq_div take_bit_nat_eq_self)

lemma uint_drop_bit [unat_simps]: "uint (drop_bit n w) = uint w div 2 ^ n"
  by (simp only: unsigned_drop_bit_eq) (simp add: drop_bit_eq_div take_bit_int_eq_self)

lemma unat_and_mask: "unat (w AND mask n :: 'a::len word) = unat w mod 2 ^ n"
  by (simp only: take_bit_eq_mask [symmetric] unsigned_take_bit_eq) (simp add: take_bit_eq_mod)

lemma unat_and_7 [unat_simps]: "unat (w AND 7 :: 'a::len word) = unat w mod 8" if "3 < LENGTH('a)"
  using unat_and_mask [of w 3] by (simp add: mask_eq_exp_minus_1)

lemma xor_left_cancel: "x XOR y = x XOR z \<longleftrightarrow> y = z" for x y z :: "'a::len word"
  by (metis xor.assoc xor.left_neutral xor_self_eq)

lemma xor_right_cancel: "y XOR x = z XOR x \<longleftrightarrow> y = z" for x y z :: "'a::len word"
  by (metis xor.commute xor_left_cancel)

lemma word_take_bit_Suc:
  fixes x :: "'a::len word"
  assumes "n < LENGTH('a)"
  shows "take_bit (Suc n) x = take_bit n x XOR (if bit x n then push_bit n 1 else 0)"
  using assms by (intro bit_word_eqI) (auto simp: bit_simps less_Suc_eq)

text \<open>
  A map between words that respects \<open>XOR\<close> is determined by its values on single bits.
\<close>

lemma xor_linear_zero:
  fixes f :: "'a::len word \<Rightarrow> 'b::len word"
  assumes "\<And>x y. f (x XOR y) = f x XOR f y"
  shows "f 0 = 0"
  using assms [of 0 0] by simp

lemma xor_linear_eqI:
  fixes f g :: "'a::len word \<Rightarrow> 'b::len word"
  assumes f: "\<And>x y. f (x XOR y) = f x XOR f y"
    and g: "\<And>x y. g (x XOR y) = g x XOR g y"
    and basis: "\<And>i. i < LENGTH('a) \<Longrightarrow> f (push_bit i 1) = g (push_bit i 1)"
  shows "f x = g x"
proof -
  have "f (take_bit n x) = g (take_bit n x)" if "n \<le> LENGTH('a)" for n
    using that
  proof (induction n)
    case 0
    then show ?case using xor_linear_zero [of f] xor_linear_zero [of g] f g by simp
  next
    case (Suc n)
    then show ?case
      using xor_linear_zero [of f] xor_linear_zero [of g] f g basis [of n]
      by (simp add: word_take_bit_Suc)
  qed
  from this [of "LENGTH('a)"] show ?thesis by simp
qed

section \<open>Small index ranges\<close>

lemma less_8_cases: "(n::nat) < 8 \<Longrightarrow> n \<in> {7, 6, 5, 4, 3, 2, 1, 0}"
  by (simp only: insert_iff empty_iff) arith

lemma less_16_cases: "(n::nat) < 16 \<Longrightarrow> n \<in> {15, 14, 13, 12, 11, 10, 9, 8, 7, 6, 5, 4, 3, 2, 1, 0}"
  by (simp only: insert_iff empty_iff) arith

end
