(* ===== verification/Nexus_Crc.thy ===== *)
theory Nexus_Crc
  imports Nexus_Prelude
begin

text \<open>
  The CRC-CCITT routine of \<^verbatim>\<open>nexus/utils/crc_ccitt.c\<close>, which protects every nonvolatile
  block. The byte-wise update of the code is shown equal to the bit-serial shift register of
  the polynomial \<open>x^16 + x^12 + x^5 + 1\<close>, and from that the CRC is shown to tell apart any two
  byte strings that differ in one byte.
\<close>

section \<open>The code\<close>

text \<open>\<^verbatim>\<open>_crc_ccitt_update\<close>: the intermediate value is 32 bits wide, the result its low half.\<close>

definition crc_ccitt_update :: "u8 \<Rightarrow> u16 \<Rightarrow> u16" where
  "crc_ccitt_update byte cur_crc =
     (let crc0 = (ucast (ucast (drop_bit 8 cur_crc) :: u8) :: u32) OR push_bit 8 (ucast cur_crc);
          crc1 = crc0 XOR ucast byte;
          crc2 = crc1 XOR drop_bit 4 (ucast (ucast (crc1 AND 0xff) :: u8));
          crc3 = crc2 XOR push_bit 12 crc2;
          crc4 = crc3 XOR push_bit 5 (crc3 AND 0xff)
      in ucast crc4)"

text \<open>
  The \<^verbatim>\<open>while (bytes_length--)\<close> loop of \<^verbatim>\<open>compute_crc_ccitt\<close>, over the bytes that
  \<^verbatim>\<open>byte_ptr\<close> walks through.
\<close>

fun crc_ccitt_loop :: "bytes \<Rightarrow> u16 \<Rightarrow> u16" where
  "crc_ccitt_loop [] crc = crc"
| "crc_ccitt_loop (b # bs) crc = crc_ccitt_loop bs (crc_ccitt_update b crc)"

definition compute_crc_ccitt :: "bytes \<Rightarrow> u8 \<Rightarrow> u16" where
  "compute_crc_ccitt data bytes_length = crc_ccitt_loop (take (unat bytes_length) data) 0xffff"

section \<open>The reference shift register\<close>

definition crc_bit :: "u16 \<Rightarrow> u16" where
  "crc_bit c = (if bit c 15 then push_bit 1 c XOR 0x1021 else push_bit 1 c)"

definition crc_reference :: "bytes \<Rightarrow> u16 \<Rightarrow> u16" where
  "crc_reference = fold (\<lambda>b c. (crc_bit ^^ 8) (c XOR push_bit 8 (ucast b)))"

text \<open>One step of the register run backwards.\<close>

definition crc_unbit :: "u16 \<Rightarrow> u16" where
  "crc_unbit c = (if bit c 0 then drop_bit 1 (c XOR 0x1021) XOR 0x8000 else drop_bit 1 c)"

lemma crc_bit_xor: "crc_bit (x XOR y) = crc_bit x XOR crc_bit y"
  by (cases "bit x 15"; cases "bit y 15")
    (simp_all add: crc_bit_def bit_xor_iff push_bit_xor ac_simps del: push_bit_Suc)

lemma crc_unbit_xor: "crc_unbit (x XOR y) = crc_unbit x XOR crc_unbit y"
  by (cases "bit x 0"; cases "bit y 0")
    (simp_all add: crc_unbit_def bit_xor_iff drop_bit_xor ac_simps)

lemma crc_unbit_crc_bit: "crc_unbit (crc_bit c) = c"
proof -
  have "(\<lambda>c. crc_unbit (crc_bit c)) c = (\<lambda>c. c) c"
  proof (rule xor_linear_eqI)
    fix i :: nat assume "i < LENGTH(16)"
    then have "i \<in> set [0..<16]" by simp
    then show "crc_unbit (crc_bit (push_bit i 1)) = push_bit i 1"
      by (simp add: crc_unbit_def crc_bit_def upt_rec) auto
  qed (simp_all add: crc_bit_xor crc_unbit_xor)
  then show ?thesis by simp
qed

lemma crc_bit_inject: "crc_bit x = crc_bit y \<longleftrightarrow> x = y"
  by (metis crc_unbit_crc_bit)

lemma crc_bit_pow_inject: "(crc_bit ^^ n) x = (crc_bit ^^ n) y \<longleftrightarrow> x = y"
  by (induction n) (simp_all add: crc_bit_inject)

lemma crc_bit_pow_xor: "(crc_bit ^^ n) (x XOR y) = (crc_bit ^^ n) x XOR (crc_bit ^^ n) y"
  by (induction n) (simp_all add: crc_bit_xor)

section \<open>The byte-wise update is the shift register\<close>

lemma crc_ccitt_update_xor:
  "crc_ccitt_update (a XOR b) (x XOR y) = crc_ccitt_update a x XOR crc_ccitt_update b y"
proof -
  have swap: "(ucast (ucast (drop_bit 8 c) :: u8) :: u32) OR push_bit 8 (ucast c) =
      ucast (ucast (drop_bit 8 c) :: u8) XOR push_bit 8 (ucast c)" for c :: u16
    by (rule bit_word_eqI) (auto simp: bit_simps)
  show ?thesis
    unfolding crc_ccitt_update_def Let_def swap
    by (simp add: unsigned_xor_eq bit.conj_xor_distrib bit.conj_xor_distrib2 ac_simps)
qed

lemma crc_bit_pow8:
  "(crc_bit ^^ 8) c =
   crc_bit (crc_bit (crc_bit (crc_bit (crc_bit (crc_bit (crc_bit (crc_bit c)))))))"
  by (simp add: numeral_eq_Suc)

lemma crc_ccitt_update_crc: "crc_ccitt_update 0 x = (crc_bit ^^ 8) x"
proof (rule xor_linear_eqI [where f = "crc_ccitt_update 0"])
  fix i :: nat assume "i < LENGTH(16)"
  from less_16_cases [OF this [simplified]] show "crc_ccitt_update 0 (push_bit i 1) = (crc_bit ^^ 8) (push_bit i 1)"
    by (elim insertE emptyE) (simp_all add: crc_ccitt_update_def crc_bit_pow8 crc_bit_def)
qed (use crc_ccitt_update_xor [of 0 0] in \<open>simp_all add: crc_bit_pow_xor\<close>)

lemma crc_ccitt_update_byte: "crc_ccitt_update b 0 = (crc_bit ^^ 8) (push_bit 8 (ucast b))"
proof (rule xor_linear_eqI [where f = "\<lambda>b. crc_ccitt_update b 0"])
  fix i :: nat assume "i < LENGTH(8)"
  from less_8_cases [OF this [simplified]] show "crc_ccitt_update (push_bit i 1) 0 =
      (crc_bit ^^ 8) (push_bit 8 (ucast (push_bit i 1 :: u8)))"
    by (elim insertE emptyE) (simp_all add: crc_ccitt_update_def crc_bit_pow8 crc_bit_def)
qed (use crc_ccitt_update_xor [of _ _ 0 0] in
  \<open>simp_all add: crc_bit_pow_xor unsigned_xor_eq\<close>)

lemma crc_ccitt_update_register:
  "crc_ccitt_update b c = (crc_bit ^^ 8) (c XOR push_bit 8 (ucast b))"
  using crc_ccitt_update_xor [of 0 b c 0]
  by (simp add: crc_ccitt_update_crc crc_ccitt_update_byte crc_bit_pow_xor)

lemma crc_ccitt_loop_reference: "crc_ccitt_loop bs crc = crc_reference bs crc"
  by (induction bs arbitrary: crc) (simp_all add: crc_reference_def crc_ccitt_update_register)

section \<open>Error detection\<close>

lemma push_bit_ucast_inject: "push_bit 8 (ucast a :: u16) = push_bit 8 (ucast b) \<longleftrightarrow> a = (b :: u8)"
proof -
  have "ucast (drop_bit 8 (push_bit 8 (ucast c :: u16))) = (c :: u8)" for c
    by (rule bit_word_eqI) (simp add: bit_simps)
  then show ?thesis by metis
qed

lemma crc_ccitt_update_inject_crc: "crc_ccitt_update b c = crc_ccitt_update b d \<longleftrightarrow> c = d"
  by (simp add: crc_ccitt_update_register crc_bit_pow_inject xor_right_cancel)

lemma crc_ccitt_update_inject_byte: "crc_ccitt_update a c = crc_ccitt_update b c \<longleftrightarrow> a = b"
  by (simp add: crc_ccitt_update_register crc_bit_pow_inject xor_left_cancel push_bit_ucast_inject)

lemma crc_ccitt_loop_inject: "crc_ccitt_loop bs c = crc_ccitt_loop bs d \<longleftrightarrow> c = d"
  by (induction bs arbitrary: c d) (simp_all add: crc_ccitt_update_inject_crc)

lemma crc_ccitt_loop_append: "crc_ccitt_loop (xs @ ys) c = crc_ccitt_loop ys (crc_ccitt_loop xs c)"
  by (induction xs arbitrary: c) simp_all

lemma crc_ccitt_loop_one_byte:
  "crc_ccitt_loop (xs @ a # ys) c = crc_ccitt_loop (xs @ b # ys) c \<longleftrightarrow> a = b"
  by (simp add: crc_ccitt_loop_append crc_ccitt_loop_inject crc_ccitt_update_inject_byte)

lemma compute_crc_ccitt_update:
  assumes "i < unat bytes_length" and "i < length data" and "data ! i \<noteq> b"
  shows "compute_crc_ccitt (data[i := b]) bytes_length \<noteq> compute_crc_ccitt data bytes_length"
proof -
  let ?d = "take (unat bytes_length) data"
  have i: "i < length ?d" using assms(1,2) by simp
  have "?d = take i ?d @ ?d ! i # drop (Suc i) ?d" using i by (rule id_take_nth_drop)
  moreover have "take (unat bytes_length) (data[i := b]) = take i ?d @ b # drop (Suc i) ?d"
    by (simp only: take_update_swap upd_conv_take_nth_drop [OF i])
  ultimately show ?thesis
    using assms(1,3) crc_ccitt_loop_one_byte [where xs = "take i ?d" and a = b and ys = "drop (Suc i) ?d"]
    by (metis compute_crc_ccitt_def nth_take)
qed

section \<open>Properties\<close>

text \<open>C32. The byte-wise CRC routine computes, over the first \<open>bytes_length\<close> bytes of the buffer,
  the bit-serial CRC register with polynomial \<open>0x1021\<close> and initial value \<open>0xffff\<close>.\<close>

theorem compute_crc_ccitt_is_register:
  "compute_crc_ccitt data bytes_length = crc_reference (take (unat bytes_length) data) 0xffff"
  by (simp add: compute_crc_ccitt_def crc_ccitt_loop_reference)

text \<open>Two buffers that differ in exactly one of the covered bytes have different CRCs.\<close>

theorem compute_crc_ccitt_detects_byte:
  assumes "i < unat bytes_length" and "i < length data" and "data ! i \<noteq> b"
  shows "compute_crc_ccitt (data[i := b]) bytes_length \<noteq> compute_crc_ccitt data bytes_length"
  using assms by (rule compute_crc_ccitt_update)

theorem compute_crc_ccitt_detects_byte_witness:
  "compute_crc_ccitt [1, 7, 3] 3 \<noteq> compute_crc_ccitt [1, 2, 3] 3"
  using compute_crc_ccitt_detects_byte [of 1 3 "[1, 2, 3]" 7] by simp

end
