(* ===== verification/Nexus_Siphash.thy ===== *)
theory Nexus_Siphash
  imports Nexus_Prelude
begin

text \<open>
  SipHash-2-4 as \<^verbatim>\<open>nexus/utils/siphash_24.c\<close> computes it: the message authentication code of
  keycodes and of the channel. The four static words \<^verbatim>\<open>v0\<close> to \<^verbatim>\<open>v3\<close> are a record that each
  step returns updated. The code handles the last partial block by a fall-through
  \<^verbatim>\<open>switch\<close>; the reference definition below pads the message as the SipHash paper does, and
  the two are shown equal.
\<close>

section \<open>The code\<close>

record sip =
  v0 :: u64
  v1 :: u64
  v2 :: u64
  v3 :: u64

definition ROTL :: "u64 \<Rightarrow> nat \<Rightarrow> u64" where
  "ROTL x b = push_bit b x OR drop_bit (64 - b) x"

definition U8TO64_LE :: "bytes \<Rightarrow> u64" where
  "U8TO64_LE p = ucast (p ! 0) OR push_bit 8 (ucast (p ! 1)) OR push_bit 16 (ucast (p ! 2)) OR
     push_bit 24 (ucast (p ! 3)) OR push_bit 32 (ucast (p ! 4)) OR push_bit 40 (ucast (p ! 5)) OR
     push_bit 48 (ucast (p ! 6)) OR push_bit 56 (ucast (p ! 7))"

definition U64TO8_LE :: "u64 \<Rightarrow> bytes" where
  "U64TO8_LE v = u32_le (ucast v) @ u32_le (ucast (drop_bit 32 v))"

definition SIPROUND :: "sip \<Rightarrow> sip" where
  "SIPROUND s =
     (let s = s\<lparr>v0 := v0 s + v1 s\<rparr>;
          s = s\<lparr>v1 := ROTL (v1 s) 13\<rparr>;
          s = s\<lparr>v1 := v1 s XOR v0 s\<rparr>;
          s = s\<lparr>v0 := ROTL (v0 s) 32\<rparr>;
          s = s\<lparr>v2 := v2 s + v3 s\<rparr>;
          s = s\<lparr>v3 := ROTL (v3 s) 16\<rparr>;
          s = s\<lparr>v3 := v3 s XOR v2 s\<rparr>;
          s = s\<lparr>v0 := v0 s + v3 s\<rparr>;
          s = s\<lparr>v3 := ROTL (v3 s) 21\<rparr>;
          s = s\<lparr>v3 := v3 s XOR v0 s\<rparr>;
          s = s\<lparr>v2 := v2 s + v1 s\<rparr>;
          s = s\<lparr>v1 := ROTL (v1 s) 17\<rparr>;
          s = s\<lparr>v1 := v1 s XOR v2 s\<rparr>
      in s\<lparr>v2 := ROTL (v2 s) 32\<rparr>)"

text \<open>The setup of the four words from the 16-byte key.\<close>

definition sip_init :: "bytes \<Rightarrow> sip" where
  "sip_init k =
     (let k0 = U8TO64_LE k; k1 = U8TO64_LE (drop 8 k)
      in \<lparr>v0 = 0x736f6d6570736575 XOR k0, v1 = 0x646f72616e646f6d XOR k1,
          v2 = 0x6c7967656e657261 XOR k0, v3 = 0x7465646279746573 XOR k1\<rparr>)"

text \<open>One pass of the \<^verbatim>\<open>for (; in != end; in += 8)\<close> loop, and the loop itself.\<close>

definition sip_block :: "u64 \<Rightarrow> sip \<Rightarrow> sip" where
  "sip_block m s =
     (let s = SIPROUND (SIPROUND (s\<lparr>v3 := v3 s XOR m\<rparr>))
      in s\<lparr>v0 := v0 s XOR m\<rparr>)"

fun sip_blocks :: "nat \<Rightarrow> bytes \<Rightarrow> sip \<Rightarrow> sip" where
  "sip_blocks 0 inp s = s"
| "sip_blocks (Suc n) inp s = sip_blocks n (drop 8 inp) (sip_block (U8TO64_LE inp) s)"

text \<open>The fall-through \<^verbatim>\<open>switch (left)\<close>: case \<open>left\<close> and every case below it.\<close>

fun sip_left :: "nat \<Rightarrow> bytes \<Rightarrow> u64 \<Rightarrow> u64" where
  "sip_left 0 inp b = b"
| "sip_left (Suc i) inp b = sip_left i inp (b OR push_bit (8 * i) (ucast (inp ! i)))"

text \<open>
  \<^verbatim>\<open>siphash24_compute\<close> for an input buffer of \<open>inlen\<close> bytes; the result is the 8 bytes written
  to \<^verbatim>\<open>out\<close>.
\<close>

definition siphash24_compute :: "bytes \<Rightarrow> u32 \<Rightarrow> bytes \<Rightarrow> bytes" where
  "siphash24_compute inp inlen k =
     (let n = unat inlen div 8;
          s = sip_blocks n inp (sip_init k);
          b = sip_left (unat (inlen AND 7)) (drop (8 * n) inp) (push_bit 56 (ucast inlen));
          s = SIPROUND (SIPROUND (s\<lparr>v3 := v3 s XOR b\<rparr>));
          s = s\<lparr>v0 := v0 s XOR b\<rparr>;
          s = s\<lparr>v2 := v2 s XOR 0xff\<rparr>;
          s = SIPROUND (SIPROUND (SIPROUND (SIPROUND s)))
      in U64TO8_LE (v0 s XOR v1 s XOR v2 s XOR v3 s))"

section \<open>The reference definition\<close>

text \<open>SipRound in the order of the SipHash paper, where both halves run side by side.\<close>

definition sip_round_reference :: "sip \<Rightarrow> sip" where
  "sip_round_reference s =
     (let a0 = v0 s + v1 s; a2 = v2 s + v3 s;
          a1 = ROTL (v1 s) 13 XOR a0; a3 = ROTL (v3 s) 16 XOR a2;
          b0 = ROTL a0 32;
          b2 = a2 + a1; c0 = b0 + a3;
          b1 = ROTL a1 17 XOR b2; b3 = ROTL a3 21 XOR c0
      in \<lparr>v0 = c0, v1 = b1, v2 = ROTL b2 32, v3 = b3\<rparr>)"

text \<open>
  The message is padded with zero bytes and closed with its length modulo 256 to whole
  8-byte blocks, each compressed with two rounds; four rounds finish.
\<close>

definition sip_pad :: "bytes \<Rightarrow> bytes" where
  "sip_pad msg = msg @ replicate (7 - length msg mod 8) 0 @ [word_of_nat (length msg)]"

fun sip_words :: "nat \<Rightarrow> bytes \<Rightarrow> u64 list" where
  "sip_words 0 xs = []"
| "sip_words (Suc n) xs = U8TO64_LE xs # sip_words n (drop 8 xs)"

definition sip_compress_reference :: "u64 \<Rightarrow> sip \<Rightarrow> sip" where
  "sip_compress_reference m s =
     (let s = sip_round_reference (sip_round_reference (s\<lparr>v3 := v3 s XOR m\<rparr>))
      in s\<lparr>v0 := v0 s XOR m\<rparr>)"

definition siphash_reference :: "bytes \<Rightarrow> bytes \<Rightarrow> u64" where
  "siphash_reference k msg =
     (let s = fold sip_compress_reference (sip_words (Suc (length msg div 8)) (sip_pad msg)) (sip_init k);
          s = (sip_round_reference ^^ 4) (s\<lparr>v2 := v2 s XOR 0xff\<rparr>)
      in v0 s XOR v1 s XOR v2 s XOR v3 s)"

section \<open>The code computes the reference\<close>

lemma SIPROUND_reference: "SIPROUND s = sip_round_reference s"
  by (cases s) (simp add: SIPROUND_def sip_round_reference_def Let_def)

lemma sip_block_reference: "sip_block m s = sip_compress_reference m s"
  by (simp add: sip_block_def sip_compress_reference_def SIPROUND_reference)

lemma sip_blocks_reference: "sip_blocks n inp s = fold sip_compress_reference (sip_words n inp) s"
  by (induction n arbitrary: inp s) (simp_all add: sip_block_reference)

lemma sip_words_Suc: "sip_words (Suc n) xs = sip_words n xs @ [U8TO64_LE (drop (8 * n) xs)]"
proof (induction n arbitrary: xs)
  case (Suc n)
  have "sip_words (Suc (Suc n)) xs = U8TO64_LE xs # sip_words (Suc n) (drop 8 xs)" by simp
  also have "\<dots> = U8TO64_LE xs # sip_words n (drop 8 xs) @ [U8TO64_LE (drop (8 * n) (drop 8 xs))]"
    by (simp only: Suc.IH)
  finally show ?case by (simp add: add.commute)
qed simp

lemma U8TO64_LE_append: "8 \<le> length xs \<Longrightarrow> U8TO64_LE (xs @ ys) = U8TO64_LE xs"
  by (auto simp: U8TO64_LE_def nth_append)

lemma sip_words_append: "8 * n \<le> length xs \<Longrightarrow> sip_words n (xs @ ys) = sip_words n xs"
  by (induction n arbitrary: xs) (simp_all add: U8TO64_LE_append)

lemma sip_left_pad:
  assumes "length xs < 8"
  shows "sip_left (length xs) xs (push_bit 56 (ucast l)) =
    U8TO64_LE (xs @ replicate (7 - length xs) 0 @ [l])"
  using less_8_cases [OF assms]
  by (elim insertE emptyE) (auto simp: length_Suc_conv numeral_eq_Suc U8TO64_LE_def ac_simps)

lemma push_bit_56_ucast: "push_bit 56 (ucast (n :: u32)) = (push_bit 56 (ucast (ucast n :: u8)) :: u64)"
  by (rule bit_word_eqI) (auto simp: bit_simps)

lemma sip_left_append: "n \<le> length xs \<Longrightarrow> sip_left n (xs @ ys) b = sip_left n xs b"
  by (induction n arbitrary: b) (simp_all add: nth_append)

lemma sip_blocks_append: "8 * n \<le> length xs \<Longrightarrow> sip_blocks n (xs @ ys) s = sip_blocks n xs s"
  by (induction n arbitrary: xs s) (simp_all add: U8TO64_LE_append)

text \<open>The last block the code assembles is the last block of the padded message.\<close>

lemma sip_last_block:
  fixes inlen :: u32
  assumes "unat inlen = length msg"
  shows "sip_left (length msg mod 8) (drop (8 * (length msg div 8)) (msg @ rest)) (push_bit 56 (ucast inlen))
    = U8TO64_LE (drop (8 * (length msg div 8)) (sip_pad msg))"
proof -
  let ?t = "drop (8 * (length msg div 8)) msg"
  have t: "length ?t = length msg mod 8" by (simp add: minus_mult_div_eq_mod)
  have le: "8 * (length msg div 8) \<le> length msg" by (rule times_div_less_eq_dividend)
  have l: "(ucast inlen :: u8) = word_of_nat (length msg)"
    by (simp add: assms [symmetric])
  have t8: "length ?t < 8" using t by simp
  have "sip_left (length ?t) (?t @ rest) (push_bit 56 (ucast inlen)) =
      U8TO64_LE (?t @ replicate (7 - length ?t) 0 @ [word_of_nat (length msg)])"
    by (simp only: sip_left_append [OF order_refl] push_bit_56_ucast l sip_left_pad [OF t8])
  then show ?thesis using le by (simp only: t sip_pad_def drop_append) simp
qed

lemma siphash24_compute_reference:
  assumes "unat inlen = length msg"
  shows "siphash24_compute (msg @ rest) inlen k = U64TO8_LE (siphash_reference k msg)"
proof -
  have le: "8 * (length msg div 8) \<le> length msg" by (rule times_div_less_eq_dividend)
  have m: "unat (inlen AND 7) = length msg mod 8"
    using assms by (simp add: unat_and_7)
  have w: "sip_words (length msg div 8) (sip_pad msg) = sip_words (length msg div 8) msg"
    by (simp only: sip_pad_def sip_words_append [OF le])
  have pow4: "(f ^^ 4) x = f (f (f (f x)))" for f :: "sip \<Rightarrow> sip" and x
    by (simp add: numeral_eq_Suc)
  show ?thesis
    unfolding siphash24_compute_def siphash_reference_def Let_def assms m
      sip_last_block [OF assms] sip_words_Suc w sip_words_append [OF le] sip_blocks_reference
      SIPROUND_reference pow4
    by (simp only: fold_append fold.simps comp_apply id_apply sip_compress_reference_def Let_def)
qed

section \<open>Properties\<close>

text \<open>C31. For a message of any length that fits the length argument, and whatever follows it in
  the buffer, \<^verbatim>\<open>siphash24_compute\<close> writes the SipHash-2-4 of the message as the paper defines it.\<close>

theorem siphash24_compute_is_siphash:
  assumes "unat inlen = length msg"
  shows "siphash24_compute (msg @ rest) inlen k = U64TO8_LE (siphash_reference k msg)"
  using assms by (rule siphash24_compute_reference)

theorem siphash24_compute_is_siphash_witness:
  "siphash24_compute ([1, 2, 3] @ [9]) 3 (replicate 16 0) =
     U64TO8_LE (siphash_reference (replicate 16 0) [1, 2, 3])"
  using siphash24_compute_is_siphash [of 3 "[1, 2, 3]" "[9]" "replicate 16 0"] by simp

end
