(* ===== verification/Nexus_Bitstream.thy ===== *)
theory Nexus_Bitstream
  imports Nexus_Prelude
begin

text \<open>
  The bit stream of \<^verbatim>\<open>nexus/src/nexus_util.c\<close> (section BITSTREAM): bits are packed into bytes
  with the most significant bit first. The stream record is the C struct with the bytes it
  points to. The abstract value of a stream is the list of its bits; pushing at the end
  appends, pulling reads at the position. \<^verbatim>\<open>NEXUS_ASSERT\<close> compiles to nothing in production;
  what it checks is the invariant \<open>bitstream_ok\<close> and the preconditions of the lemmas.
\<close>

section \<open>The code\<close>

record nexus_bitstream =
  bs_data :: bytes
  bs_capacity :: u16
  bs_length :: u16
  bs_position :: u16

definition nexus_bitstream_init :: "bytes \<Rightarrow> u16 \<Rightarrow> u16 \<Rightarrow> nexus_bitstream" where
  "nexus_bitstream_init data capacity len =
     \<lparr>bs_data = data, bs_capacity = capacity, bs_length = len, bs_position = 0\<rparr>"

definition nexus_bitstream_length_in_bits :: "nexus_bitstream \<Rightarrow> u16" where
  "nexus_bitstream_length_in_bits s = bs_length s"

definition nexus_bitstream_set_bit_position :: "nexus_bitstream \<Rightarrow> u16 \<Rightarrow> nexus_bitstream" where
  "nexus_bitstream_set_bit_position s position = s\<lparr>bs_position := position\<rparr>"

text \<open>
  The byte and the shift of the current position: \<^verbatim>\<open>position >> 3\<close> and
  \<^verbatim>\<open>(uint8_t)((byte_position + 1) * 8 - position - 1)\<close>, the latter computed in \<^verbatim>\<open>int\<close>.
\<close>

definition bs_byte_position :: "nexus_bitstream \<Rightarrow> u16" where
  "bs_byte_position s = drop_bit 3 (bs_position s)"

definition bs_shift :: "nexus_bitstream \<Rightarrow> u8" where
  "bs_shift s = word_of_int ((uint (bs_byte_position s) + 1) * 8 - uint (bs_position s) - 1)"

definition nexus_bitstream_push_bit :: "nexus_bitstream \<Rightarrow> bool \<Rightarrow> nexus_bitstream" where
  "nexus_bitstream_push_bit s pushed =
     (let byte_position = unat (bs_byte_position s);
          shift = unat (bs_shift s);
          byte = bs_data s ! byte_position;
          new_byte = ucast (push_bit shift (drop_bit shift (ucast byte :: u32) AND 0xfe OR of_bool pushed));
          s = s\<lparr>bs_data := (bs_data s)[byte_position := new_byte]\<rparr>;
          s = s\<lparr>bs_position := bs_position s + 1\<rparr>
      in if bs_position s > bs_length s then s\<lparr>bs_length := bs_length s + 1\<rparr> else s)"

text \<open>The \<^verbatim>\<open>for\<close> loop of \<^verbatim>\<open>nexus_bitstream_push_uint8\<close>, for the remaining \<open>n\<close> rounds.\<close>

fun push_uint8_loop :: "nat \<Rightarrow> u8 \<Rightarrow> u8 \<Rightarrow> nexus_bitstream \<Rightarrow> nexus_bitstream" where
  "push_uint8_loop 0 pushed bits s = s"
| "push_uint8_loop (Suc n) pushed bits s =
     push_uint8_loop n (push_bit 1 pushed) bits
       (nexus_bitstream_push_bit s (drop_bit (unat bits - 1) pushed AND 1 \<noteq> 0))"

definition nexus_bitstream_push_uint8 :: "nexus_bitstream \<Rightarrow> u8 \<Rightarrow> u8 \<Rightarrow> nexus_bitstream" where
  "nexus_bitstream_push_uint8 s pushed bits = push_uint8_loop (unat bits) pushed bits s"

definition nexus_bitstream_pull_bit :: "nexus_bitstream \<Rightarrow> bool \<times> nexus_bitstream" where
  "nexus_bitstream_pull_bit s =
     (let byte = bs_data s ! unat (bs_byte_position s)
      in (drop_bit (unat (bs_shift s)) (ucast byte :: u32) AND 1 \<noteq> 0,
          s\<lparr>bs_position := bs_position s + 1\<rparr>))"

fun pull_uint8_loop :: "nat \<Rightarrow> u8 \<Rightarrow> nexus_bitstream \<Rightarrow> u8 \<times> nexus_bitstream" where
  "pull_uint8_loop 0 pulled s = (pulled, s)"
| "pull_uint8_loop (Suc n) pulled s =
     (case nexus_bitstream_pull_bit s of (b, s') \<Rightarrow>
        pull_uint8_loop n (push_bit 1 pulled OR of_bool b) s')"

definition nexus_bitstream_pull_uint8 :: "nexus_bitstream \<Rightarrow> u8 \<Rightarrow> u8 \<times> nexus_bitstream" where
  "nexus_bitstream_pull_uint8 s bits = pull_uint8_loop (unat bits) 0 s"

definition nexus_bitstream_pull_uint16_be :: "nexus_bitstream \<Rightarrow> u16 \<Rightarrow> u16 \<times> nexus_bitstream" where
  "nexus_bitstream_pull_uint16_be s bits =
     (let msbyte_bits = (if bits > 8 then 8 else ucast bits :: u8);
          lsbyte_bits = (if bits > 8 then ucast (bits - 8) else 0 :: u8)
      in case nexus_bitstream_pull_uint8 s msbyte_bits of (hi, s1) \<Rightarrow>
         case nexus_bitstream_pull_uint8 s1 lsbyte_bits of (lo, s2) \<Rightarrow>
           (push_bit (unat lsbyte_bits) (ucast hi) OR ucast lo, s2))"

section \<open>The abstract value\<close>

definition bitstream_ok :: "nexus_bitstream \<Rightarrow> bool" where
  "bitstream_ok s \<longleftrightarrow> unat (bs_capacity s) \<le> 8 * length (bs_data s) \<and>
     unat (bs_length s) \<le> unat (bs_capacity s) \<and> unat (bs_position s) \<le> unat (bs_length s)"

definition byte_bit :: "bytes \<Rightarrow> nat \<Rightarrow> bool" where
  "byte_bit data i = bit (data ! (i div 8)) (7 - i mod 8)"

definition bs_bits :: "nexus_bitstream \<Rightarrow> bool list" where
  "bs_bits s = map (byte_bit (bs_data s)) [0..<unat (bs_length s)]"

text \<open>A stream whose next push appends, and one that still has a bit to pull.\<close>

definition bs_at_end :: "nexus_bitstream \<Rightarrow> bool" where
  "bs_at_end s \<longleftrightarrow> bitstream_ok s \<and> bs_position s = bs_length s"

lemma length_bs_bits [simp]: "length (bs_bits s) = unat (bs_length s)"
  by (simp add: bs_bits_def)

lemma bs_bits_nth: "i < unat (bs_length s) \<Longrightarrow> bs_bits s ! i = byte_bit (bs_data s) i"
  by (simp add: bs_bits_def)

lemma unat_bs_byte_position: "unat (bs_byte_position s) = unat (bs_position s) div 8"
  by (simp add: bs_byte_position_def unat_simps)

lemma unat_bs_shift: "unat (bs_shift s) = 7 - unat (bs_position s) mod 8"
proof -
  let ?p = "uint (bs_position s)"
  have bp: "uint (bs_byte_position s) = ?p div 8"
    by (simp add: bs_byte_position_def unat_simps)
  have "(?p div 8 + 1) * 8 - ?p - 1 = 7 - ?p mod 8" by presburger
  then have "bs_shift s = word_of_int (7 - ?p mod 8)" by (simp only: bs_shift_def bp)
  moreover have "0 \<le> 7 - ?p mod 8" using pos_mod_bound [of 8 ?p] by linarith
  moreover have "7 - ?p mod 8 < 2 ^ LENGTH(8)" using pos_mod_sign [of 8 ?p] by simp
  ultimately have "uint (bs_shift s) = 7 - ?p mod 8" by (simp only: uint_word_of_int_small)
  moreover have "?p mod 8 = int (unat (bs_position s) mod 8)" by (simp add: zmod_int)
  ultimately have "int (unat (bs_shift s)) = 7 - int (unat (bs_position s) mod 8)" by simp
  then show ?thesis by linarith
qed

lemmas bs_index_simps = unat_bs_byte_position unat_bs_shift

section \<open>Pushing and pulling one bit\<close>

lemma bit_push_low:
  "bit (ucast (push_bit k (drop_bit k (ucast (b :: u8) :: u32) AND 0xfe OR of_bool v)) :: u8) n \<longleftrightarrow>
     n < 8 \<and> (k < n \<and> bit b n \<or> n = k \<and> v)"
proof -
  have m: "bit (254 :: u32) i \<longleftrightarrow> 0 < i \<and> i < 8" for i
  proof -
    have "(254 :: u32) = push_bit 1 (mask 7)" by (simp add: mask_eq_exp_minus_1)
    then show ?thesis by (simp only: bit_simps) auto
  qed
  show ?thesis
    by (simp only: bit_unsigned_iff bit_push_bit_iff bit_or_iff bit_and_iff bit_drop_bit_eq m
        bit_of_bool_iff comp_apply) auto
qed

lemma bit_order:
  fixes i p :: nat
  assumes "i div 8 = p div 8"
  shows "7 - p mod 8 < 7 - i mod 8 \<longleftrightarrow> i < p" and "7 - i mod 8 = 7 - p mod 8 \<longleftrightarrow> i = p"
proof -
  have "i = 8 * (p div 8) + i mod 8" "p = 8 * (p div 8) + p mod 8"
    using assms by (metis mult_div_mod_eq)+
  moreover have "i mod 8 < 8" "p mod 8 < 8" by simp_all
  ultimately show "7 - p mod 8 < 7 - i mod 8 \<longleftrightarrow> i < p" "7 - i mod 8 = 7 - p mod 8 \<longleftrightarrow> i = p"
    by linarith+
qed

lemma order_cases:
  "c \<Longrightarrow> (c \<and> ((i::nat) < p \<and> x \<or> i = p \<and> v)) =
     (if d = d \<and> p < i then False else if i = p then v else x)"
  by auto

lemma byte_bit_push:
  assumes "unat (bs_position s) div 8 < length (bs_data s)"
  shows "byte_bit (bs_data (nexus_bitstream_push_bit s v)) i =
    (if i div 8 = unat (bs_position s) div 8 \<and> unat (bs_position s) < i then False
     else if i = unat (bs_position s) then v else byte_bit (bs_data s) i)"
proof -
  let ?p = "unat (bs_position s)"
  have d: "bs_data (nexus_bitstream_push_bit s v) =
      (bs_data s)[?p div 8 := ucast (push_bit (7 - ?p mod 8)
        (drop_bit (7 - ?p mod 8) (ucast (bs_data s ! (?p div 8)) :: u32) AND 0xfe OR of_bool v))]"
    by (simp add: nexus_bitstream_push_bit_def Let_def bs_index_simps)
  show ?thesis
  proof (cases "i div 8 = ?p div 8")
    case True
    have C: "7 - i mod 8 < 8" by simp
    show ?thesis
      unfolding byte_bit_def d True nth_list_update_eq [OF assms] bit_push_low bit_order [OF True]
      by (rule order_cases [OF C])
  next
    case False
    then show ?thesis by (auto simp: byte_bit_def d)
  qed
qed

lemma nexus_bitstream_push_bit_end:
  assumes "bs_at_end s" and "unat (bs_length s) < unat (bs_capacity s)"
  shows "bs_bits (nexus_bitstream_push_bit s v) = bs_bits s @ [v]"
    and "bs_at_end (nexus_bitstream_push_bit s v)"
    and "bs_capacity (nexus_bitstream_push_bit s v) = bs_capacity s"
    and "length (bs_data (nexus_bitstream_push_bit s v)) = length (bs_data s)"
proof -
  let ?t = "nexus_bitstream_push_bit s v" and ?n = "unat (bs_length s)"
  from assms(1) have ok: "unat (bs_capacity s) \<le> 8 * length (bs_data s)" "?n \<le> unat (bs_capacity s)"
    and pos: "bs_position s = bs_length s"
    by (auto simp: bs_at_end_def bitstream_ok_def)
  have lt: "?n < 65535" using assms(2) unat_u16_less [of "bs_capacity s"] by simp
  then have inc: "unat (bs_length s + 1) = Suc ?n" by (simp add: unat_word_ariths)
  have gt: "bs_length s + 1 > bs_length s" using inc by (simp add: word_less_nat_alt)
  then have t: "bs_length ?t = bs_length s + 1" "bs_position ?t = bs_length s + 1"
    by (simp_all add: nexus_bitstream_push_bit_def Let_def pos)
  show cap: "bs_capacity ?t = bs_capacity s" and len: "length (bs_data ?t) = length (bs_data s)"
    by (simp_all add: nexus_bitstream_push_bit_def Let_def)
  show "bs_at_end ?t"
    using ok assms(2) by (simp add: bs_at_end_def bitstream_ok_def t cap len inc)
  have "unat (bs_position s) div 8 < length (bs_data s)" using ok(1) assms(2) pos by simp
  note b = byte_bit_push [OF this, of v, unfolded pos]
  show "bs_bits ?t = bs_bits s @ [v]"
    by (rule nth_equalityI) (auto simp: t inc bs_bits_nth nth_append b less_Suc_eq)
qed

lemma nexus_bitstream_pull_bit_nth:
  assumes "bitstream_ok s" and "unat (bs_position s) < unat (bs_length s)"
  shows "nexus_bitstream_pull_bit s =
      (bs_bits s ! unat (bs_position s), s\<lparr>bs_position := bs_position s + 1\<rparr>)"
    and "unat (bs_position s + 1) = Suc (unat (bs_position s))"
    and "bitstream_ok (s\<lparr>bs_position := bs_position s + 1\<rparr>)"
proof -
  have "unat (bs_position s) < 65535" using assms(2) unat_u16_less [of "bs_length s"] by simp
  then show inc: "unat (bs_position s + 1) = Suc (unat (bs_position s))"
    by (simp add: unat_word_ariths)
  show "bitstream_ok (s\<lparr>bs_position := bs_position s + 1\<rparr>)"
    using assms by (simp add: bitstream_ok_def inc)
  show "nexus_bitstream_pull_bit s =
      (bs_bits s ! unat (bs_position s), s\<lparr>bs_position := bs_position s + 1\<rparr>)"
    using assms(2)
    by (simp add: nexus_bitstream_pull_bit_def Let_def bs_bits_nth byte_bit_def bs_index_simps
        drop_bit_and_1_iff bit_unsigned_iff) (simp add: less_imp_diff_less)
qed

section \<open>A first-in first-out store of bits\<close>

text \<open>
  What the keycode protocols rely on: bits pushed at the end are pulled back in order. The
  contract is a locale; the lemmas on runs of bits are proved in it once.
\<close>

locale bit_fifo =
  fixes push :: "'s \<Rightarrow> bool \<Rightarrow> 's" and pull :: "'s \<Rightarrow> bool \<times> 's"
    and bits :: "'s \<Rightarrow> bool list" and pos :: "'s \<Rightarrow> nat" and cap :: "'s \<Rightarrow> nat" and inv :: "'s \<Rightarrow> bool"
  assumes push_end: "inv s \<Longrightarrow> pos s = length (bits s) \<Longrightarrow> length (bits s) < cap s \<Longrightarrow>
      inv (push s b) \<and> bits (push s b) = bits s @ [b] \<and> pos (push s b) = Suc (pos s) \<and>
      cap (push s b) = cap s"
    and pull_pos: "inv s \<Longrightarrow> pos s < length (bits s) \<Longrightarrow>
      fst (pull s) = bits s ! pos s \<and> inv (snd (pull s)) \<and> bits (snd (pull s)) = bits s \<and>
      pos (snd (pull s)) = Suc (pos s) \<and> cap (snd (pull s)) = cap s"
begin

fun pull_bits :: "nat \<Rightarrow> 's \<Rightarrow> bool list \<times> 's" where
  "pull_bits 0 s = ([], s)"
| "pull_bits (Suc n) s =
     (case pull s of (b, s') \<Rightarrow> case pull_bits n s' of (bs, s'') \<Rightarrow> (b # bs, s''))"

lemma push_bits_end:
  assumes "inv s" "pos s = length (bits s)" "length (bits s) + length bs \<le> cap s"
  shows "inv (foldl push s bs) \<and> bits (foldl push s bs) = bits s @ bs \<and>
    pos (foldl push s bs) = length (bits (foldl push s bs)) \<and> cap (foldl push s bs) = cap s"
  using assms
proof (induction bs arbitrary: s)
  case (Cons b bs)
  from Cons.prems push_end [of s b] show ?case using Cons.IH [of "push s b"] by simp
qed simp

lemma pull_bits_pos:
  assumes "inv s" "pos s + n \<le> length (bits s)"
  shows "fst (pull_bits n s) = take n (drop (pos s) (bits s)) \<and> inv (snd (pull_bits n s)) \<and>
    bits (snd (pull_bits n s)) = bits s \<and> pos (snd (pull_bits n s)) = pos s + n \<and>
    cap (snd (pull_bits n s)) = cap s"
  using assms
proof (induction n arbitrary: s)
  case (Suc n)
  then show ?case using pull_pos [of s] Suc.IH [of "snd (pull s)"]
    by (simp add: split_beta Cons_nth_drop_Suc [symmetric])
qed simp

end

interpretation bs: bit_fifo nexus_bitstream_push_bit nexus_bitstream_pull_bit bs_bits
  "\<lambda>s. unat (bs_position s)" "\<lambda>s. unat (bs_capacity s)" bitstream_ok
proof
  fix s b
  assume "bitstream_ok s" "unat (bs_position s) = length (bs_bits s)"
    and room: "length (bs_bits s) < unat (bs_capacity s)"
  then have e: "bs_at_end s" by (simp add: bs_at_end_def word_unat_eq_iff)
  note p = nexus_bitstream_push_bit_end [OF e room [simplified], of b]
  from arg_cong [OF p(1), of length] e p(2)
  show "bitstream_ok (nexus_bitstream_push_bit s b) \<and>
      bs_bits (nexus_bitstream_push_bit s b) = bs_bits s @ [b] \<and>
      unat (bs_position (nexus_bitstream_push_bit s b)) = Suc (unat (bs_position s)) \<and>
      unat (bs_capacity (nexus_bitstream_push_bit s b)) = unat (bs_capacity s)"
    by (simp add: bs_at_end_def p(3)) (simp add: p(1))
next
  fix s
  assume "bitstream_ok s" "unat (bs_position s) < length (bs_bits s)"
  note p = nexus_bitstream_pull_bit_nth [OF this(1) this(2) [simplified]]
  show "fst (nexus_bitstream_pull_bit s) = bs_bits s ! unat (bs_position s) \<and>
      bitstream_ok (snd (nexus_bitstream_pull_bit s)) \<and>
      bs_bits (snd (nexus_bitstream_pull_bit s)) = bs_bits s \<and>
      unat (bs_position (snd (nexus_bitstream_pull_bit s))) = Suc (unat (bs_position s)) \<and>
      unat (bs_capacity (snd (nexus_bitstream_pull_bit s))) = unat (bs_capacity s)"
    using p(2,3) by (simp add: p(1) bs_bits_def)
qed

section \<open>Whole numbers\<close>

text \<open>The low \<open>n\<close> bits of a word, most significant first, and the number such bits spell.\<close>

definition word_bits :: "nat \<Rightarrow> 'a::len word \<Rightarrow> bool list" where
  "word_bits n w = map (\<lambda>i. bit w (n - Suc i)) [0..<n]"

definition bits_word :: "bool list \<Rightarrow> 'a::len word \<Rightarrow> 'a word" where
  "bits_word bs w = foldl (\<lambda>w b. push_bit 1 w OR of_bool b) w bs"

lemma length_word_bits [simp]: "length (word_bits n w) = n"
  by (simp add: word_bits_def)

lemma word_bits_Suc: "word_bits (Suc n) w = bit w n # word_bits n w"
  by (simp add: word_bits_def upt_conv_Cons map_Suc_upt [symmetric] comp_def del: upt_Suc map_Suc_upt)

lemma word_bits_cong: "(\<And>i. i < n \<Longrightarrow> bit v i = bit w i) \<Longrightarrow> word_bits n v = word_bits n w"
  by (simp add: word_bits_def)

lemma bits_word_append: "bits_word (xs @ ys) w = bits_word ys (bits_word xs w)"
  by (simp add: bits_word_def)

lemma bit_bits_word:
  "bit (bits_word bs w) i \<longleftrightarrow> i < LENGTH('a) \<and>
     (if i < length bs then bs ! (length bs - Suc i) else bit w (i - length bs))"
  for w :: "'a::len word"
proof (induction bs arbitrary: i rule: rev_induct)
  case Nil
  then show ?case using bit_imp_le_length [of w i] by (auto simp: bits_word_def)
next
  case (snoc b bs)
  have e: "bits_word (bs @ [b]) w = push_bit 1 (bits_word bs w) OR of_bool b"
    by (simp only: bits_word_append) (simp add: bits_word_def)
  show ?case
    by (cases i) (auto simp: e bit_or_iff bit_push_bit_iff bit_of_bool_iff snoc.IH nth_append
        simp del: push_bit_of_1 push_bit_Suc)
qed

lemma bits_word_word_bits:
  fixes w :: "'a::len word"
  assumes "n \<le> LENGTH('a)"
  shows "bits_word (word_bits n w) 0 = take_bit n w"
  using assms
  by (intro bit_word_eqI) (auto simp: bit_bits_word bit_take_bit_iff word_bits_def)

lemma push_uint8_loop_bits:
  "n \<le> unat bits \<Longrightarrow> unat bits \<le> 8 \<Longrightarrow>
   push_uint8_loop n (push_bit (unat bits - n) v) bits s =
   foldl nexus_bitstream_push_bit s (word_bits n v)"
proof (induction n arbitrary: s)
  case (Suc n)
  have p: "push_bit 1 (push_bit (unat bits - Suc n) v) = push_bit (unat bits - n) v"
    using Suc.prems by (simp only: push_bit_push_bit plus_1_eq_Suc Suc_diff_le Suc_diff_Suc Suc_le_lessD)
  have b: "bit (push_bit (unat bits - Suc n) v) (unat bits - 1) = bit v n"
    using Suc.prems by (auto simp: bit_push_bit_iff)
  show ?case
    using Suc by (simp only: push_uint8_loop.simps drop_bit_and_1_iff p b word_bits_Suc foldl.simps Suc_leD)
qed (simp add: word_bits_def)

lemma nexus_bitstream_push_uint8_bits:
  "unat bits \<le> 8 \<Longrightarrow> nexus_bitstream_push_uint8 s v bits =
     foldl nexus_bitstream_push_bit s (word_bits (unat bits) v)"
  using push_uint8_loop_bits [of "unat bits" bits v s] by (simp add: nexus_bitstream_push_uint8_def)

lemma pull_uint8_loop_bits:
  "pull_uint8_loop n w s = (bits_word (fst (bs.pull_bits n s)) w, snd (bs.pull_bits n s))"
  by (induction n arbitrary: w s) (simp_all add: split_beta bits_word_def)

lemma nexus_bitstream_pull_uint8_bits:
  "nexus_bitstream_pull_uint8 s bits =
     (bits_word (fst (bs.pull_bits (unat bits) s)) 0, snd (bs.pull_bits (unat bits) s))"
  by (simp add: nexus_bitstream_pull_uint8_def pull_uint8_loop_bits)


text \<open>A sound stream that holds given bits and stands at a given position.\<close>

definition bs_holds :: "nexus_bitstream \<Rightarrow> bool list \<Rightarrow> nat \<Rightarrow> bool" where
  "bs_holds s bits p \<longleftrightarrow> bitstream_ok s \<and> bs_bits s = bits \<and> unat (bs_position s) = p"

lemma bs_holds_init:
  "unat cap \<le> 8 * length data \<Longrightarrow> unat n \<le> unat cap \<Longrightarrow>
   bs_holds (nexus_bitstream_init data cap n) (map (byte_bit data) [0..<unat n]) 0"
  by (simp add: bs_holds_def nexus_bitstream_init_def bitstream_ok_def bs_bits_def)

lemma bs_holds_set_position:
  "bs_holds s bits p \<Longrightarrow> unat q \<le> length bits \<Longrightarrow>
   bs_holds (nexus_bitstream_set_bit_position s q) bits (unat q)"
  by (auto simp: bs_holds_def nexus_bitstream_set_bit_position_def bitstream_ok_def bs_bits_def)

lemma bs_holds_push_bit:
  assumes "bs_holds s bits (length bits)" and "length bits < unat (bs_capacity s)"
  shows "bs_holds (nexus_bitstream_push_bit s v) (bits @ [v]) (Suc (length bits)) \<and>
    bs_capacity (nexus_bitstream_push_bit s v) = bs_capacity s"
  using assms bs.push_end [of s v] by (auto simp: bs_holds_def word_unat_eq_iff)

lemma bs_holds_push_uint8:
  assumes "bs_holds s bits (length bits)" and "unat n \<le> 8"
    and "length bits + unat n \<le> unat (bs_capacity s)"
  shows "bs_holds (nexus_bitstream_push_uint8 s v n) (bits @ word_bits (unat n) v) (length bits + unat n) \<and>
    bs_capacity (nexus_bitstream_push_uint8 s v n) = bs_capacity s"
  using assms bs.push_bits_end [of s "word_bits (unat n) v"]
  by (auto simp: bs_holds_def nexus_bitstream_push_uint8_bits word_unat_eq_iff simp del: length_bs_bits)

lemma bs_holds_pull_bit:
  assumes "bs_holds s bits p" and "p < length bits"
  shows "fst (nexus_bitstream_pull_bit s) = bits ! p"
    and "bs_holds (snd (nexus_bitstream_pull_bit s)) bits (Suc p)"
  using assms bs.pull_pos [of s] by (auto simp: bs_holds_def)

lemma bs_holds_pull_uint8:
  assumes "bs_holds s bits p" and "p + unat n \<le> length bits"
  shows "fst (nexus_bitstream_pull_uint8 s n) = bits_word (take (unat n) (drop p bits)) 0"
    and "bs_holds (snd (nexus_bitstream_pull_uint8 s n)) bits (p + unat n)"
  using assms bs.pull_bits_pos [of s "unat n"]
  by (auto simp: bs_holds_def nexus_bitstream_pull_uint8_bits)

lemma bits_word_ucast:
  "length bs \<le> 8 \<Longrightarrow> ucast (bits_word bs 0 :: u8) = (bits_word bs 0 :: u16)"
  by (rule bit_word_eqI) (auto simp: bit_simps bit_bits_word)

lemma bits_word_join:
  "bits_word (xs @ ys) (0 :: 'a::len word) = push_bit (length ys) (bits_word xs 0) OR bits_word ys 0"
  by (rule bit_word_eqI) (auto simp: bit_simps bit_bits_word nth_append)

lemma bs_holds_pull_uint16_be:
  assumes h: "bs_holds s bits p" and p: "p + unat n \<le> length bits" and n: "8 < unat n" "unat n \<le> 16"
  shows "fst (nexus_bitstream_pull_uint16_be s n) = bits_word (take (unat n) (drop p bits)) 0"
    and "bs_holds (snd (nexus_bitstream_pull_uint16_be s n)) bits (p + unat n)"
proof -
  have gt: "n > 8" using n(1) by (simp add: word_less_nat_alt)
  have lo: "unat (ucast (n - 8) :: u8) = unat n - 8"
  proof -
    have "unat (n - 8) = unat n - 8" using gt by (simp add: unat_sub)
    then show ?thesis using n by (simp add: unsigned_ucast_eq take_bit_eq_mod)
  qed
  let ?s1 = "snd (nexus_bitstream_pull_uint8 s 8)"
  note a = bs_holds_pull_uint8 [OF h, of 8]
  have a1: "fst (nexus_bitstream_pull_uint8 s 8) = bits_word (take 8 (drop p bits)) 0"
    and a2: "bs_holds ?s1 bits (p + 8)" using a p n by simp_all
  note b = bs_holds_pull_uint8 [OF a2, of "ucast (n - 8)", unfolded lo]
  have b1: "fst (nexus_bitstream_pull_uint8 ?s1 (ucast (n - 8))) =
      bits_word (take (unat n - 8) (drop (p + 8) bits)) 0"
    and b2: "bs_holds (snd (nexus_bitstream_pull_uint8 ?s1 (ucast (n - 8)))) bits (p + unat n)"
    using b p n by simp_all
  have split: "take (unat n) (drop p bits) = take 8 (drop p bits) @ take (unat n - 8) (drop (p + 8) bits)"
    using n take_add [of 8 "unat n - 8" "drop p bits"] by (simp add: add.commute)
  have len: "length (take (unat n - 8) (drop (p + 8) bits)) = unat n - 8" using p by simp
  show "fst (nexus_bitstream_pull_uint16_be s n) = bits_word (take (unat n) (drop p bits)) 0"
    unfolding split bits_word_join len nexus_bitstream_pull_uint16_be_def Let_def
    using gt a1 b1 n by (simp add: split_beta lo bits_word_ucast)
  show "bs_holds (snd (nexus_bitstream_pull_uint16_be s n)) bits (p + unat n)"
    unfolding nexus_bitstream_pull_uint16_be_def Let_def using gt b2 by (simp add: split_beta)
qed

text \<open>Round trip: what is pushed at the end is pulled from there, whatever bytes the buffer held.\<close>

lemma bs_push_pull_uint8:
  assumes "bs_holds s bits (length bits)" and "unat n \<le> 8"
    and "length bits + unat n \<le> unat (bs_capacity s)" and "unat q = length bits"
  shows "fst (nexus_bitstream_pull_uint8
      (nexus_bitstream_set_bit_position (nexus_bitstream_push_uint8 s v n) q) n) = take_bit (unat n) v"
proof -
  have h: "bs_holds (nexus_bitstream_push_uint8 s v n) (bits @ word_bits (unat n) v) (length bits + unat n)"
    using bs_holds_push_uint8 [OF assms(1,2,3)] by simp
  have "bs_holds (nexus_bitstream_set_bit_position (nexus_bitstream_push_uint8 s v n) q)
      (bits @ word_bits (unat n) v) (length bits)"
    using bs_holds_set_position [OF h, of q] assms(4) by simp
  from bs_holds_pull_uint8(1) [OF this, of n] assms(2) show ?thesis
    by (simp add: bits_word_word_bits)
qed

section \<open>Properties\<close>

text \<open>Pulling back after pushing: for any stream at its end with room left, whatever the
  buffer held before, the \<open>n\<close> bits pushed from a byte are the low \<open>n\<close> bits pulled from there.\<close>

theorem bitstream_push_pull:
  assumes "bs_at_end s" and "unat n \<le> 8" and "unat (bs_length s) + unat n \<le> unat (bs_capacity s)"
  shows "fst (nexus_bitstream_pull_uint8
    (nexus_bitstream_set_bit_position (nexus_bitstream_push_uint8 s v n) (bs_length s)) n) =
    take_bit (unat n) v"
proof -
  from assms(1) have "bs_holds s (bs_bits s) (length (bs_bits s))"
    by (simp add: bs_holds_def bs_at_end_def)
  then show ?thesis
    by (rule bs_push_pull_uint8) (simp_all only: assms length_bs_bits)
qed

theorem bitstream_push_pull_witness:
  "fst (nexus_bitstream_pull_uint8 (nexus_bitstream_set_bit_position
     (nexus_bitstream_push_uint8 (nexus_bitstream_init [0xA5, 0xFF] 16 0) 0xF3 6) 0) 6) = 0x33"
proof -
  let ?s = "nexus_bitstream_init [0xA5, 0xFF] 16 0"
  have "bs_at_end ?s" "bs_length ?s = 0" "bs_capacity ?s = 16"
    by (simp_all add: bs_at_end_def bitstream_ok_def nexus_bitstream_init_def)
  with bitstream_push_pull [where s = ?s and n = 6 and v = "0xF3"] show ?thesis by simp
qed

end
