(* ===== verification/Nexus_Digits.thy ===== *)
theory Nexus_Digits
  imports Nexus_Prelude
begin

text \<open>
  The digit stream of \<^verbatim>\<open>nexus/src/nexus_util.c\<close> (section DIGIT STREAM), from which the full
  keycode protocol reads decimal fields. Characters are bytes, \<^verbatim>\<open>'0'\<close> is 48. Pulling is
  related to the number a digit string denotes, and to a decimal printer.
\<close>

section \<open>The code\<close>

record nexus_digits =
  dg_chars :: bytes
  dg_length :: u16
  dg_position :: u16

text \<open>
  The loop of \<^verbatim>\<open>_chars_to_uint32\<close>: \<^verbatim>\<open>uint32_t\<close> arithmetic, which wraps. A character is read
  as an unsigned byte.
\<close>

fun chars_to_uint32_loop :: "nat \<Rightarrow> bytes \<Rightarrow> u32 \<Rightarrow> u32" where
  "chars_to_uint32_loop 0 chars value = value"
| "chars_to_uint32_loop (Suc n) chars value =
     chars_to_uint32_loop n (tl chars) (value * 10 + (ucast (hd chars) - 48))"

definition chars_to_uint32 :: "bytes \<Rightarrow> u8 \<Rightarrow> u32" where
  "chars_to_uint32 chars count = chars_to_uint32_loop (unat count) chars 0"

definition nexus_digits_init :: "bytes \<Rightarrow> u16 \<Rightarrow> nexus_digits" where
  "nexus_digits_init chars len = \<lparr>dg_chars = chars, dg_length = len, dg_position = 0\<rparr>"

definition nexus_digits_remaining :: "nexus_digits \<Rightarrow> u16" where
  "nexus_digits_remaining d = dg_length d - dg_position d"

definition nexus_digits_pull_uint32 :: "nexus_digits \<Rightarrow> u8 \<Rightarrow> u32 \<times> nexus_digits" where
  "nexus_digits_pull_uint32 d count =
     (chars_to_uint32 (drop (unat (dg_position d)) (dg_chars d)) count,
      d\<lparr>dg_position := ucast count + dg_position d\<rparr>)"

text \<open>The flag \<^verbatim>\<open>*underrun\<close> is passed in and returned.\<close>

definition nexus_digits_try_pull_uint32 ::
    "nexus_digits \<Rightarrow> u8 \<Rightarrow> bool \<Rightarrow> u32 \<times> nexus_digits \<times> bool" where
  "nexus_digits_try_pull_uint32 d count underrun =
     (if underrun \<or> nexus_digits_remaining d < ucast count then (UINT32_MAX, d, True)
      else case nexus_digits_pull_uint32 d count of (v, d') \<Rightarrow> (v, d', False))"

definition nexus_digits_pull_uint8 :: "nexus_digits \<Rightarrow> u8 \<Rightarrow> u8 \<times> nexus_digits" where
  "nexus_digits_pull_uint8 d count =
     (if nexus_digits_remaining d < ucast count then (UINT8_MAX, d)
      else case nexus_digits_pull_uint32 d count of (result, d') \<Rightarrow>
        if result > ucast UINT8_MAX then (UINT8_MAX, d') else (ucast result, d'))"

definition nexus_digits_pull_uint16 :: "nexus_digits \<Rightarrow> u8 \<Rightarrow> u16 \<times> nexus_digits" where
  "nexus_digits_pull_uint16 d count =
     (if nexus_digits_remaining d < ucast count then (UINT16_MAX, d)
      else case nexus_digits_pull_uint32 d count of (result, d') \<Rightarrow>
        if result > ucast UINT16_MAX then (UINT16_MAX, d') else (ucast result, d'))"

section \<open>The number a digit string denotes\<close>

definition is_digit :: "u8 \<Rightarrow> bool" where
  "is_digit c \<longleftrightarrow> 48 \<le> c \<and> c \<le> 57"

definition digit_value :: "u8 \<Rightarrow> nat" where
  "digit_value c = unat c - 48"

definition digits_value :: "bytes \<Rightarrow> nat" where
  "digits_value = foldl (\<lambda>v c. v * 10 + digit_value c) 0"

text \<open>The \<open>n\<close> low decimal digits of a number, most significant first.\<close>

fun decimal :: "nat \<Rightarrow> nat \<Rightarrow> bytes" where
  "decimal 0 v = []"
| "decimal (Suc n) v = decimal n (v div 10) @ [word_of_nat (48 + v mod 10)]"

lemma digit_value_less: "is_digit c \<Longrightarrow> digit_value c < 10"
  by (auto simp: is_digit_def digit_value_def word_le_nat_alt)

lemma unat_digit: "is_digit c \<Longrightarrow> unat (ucast c - 48 :: u32) = digit_value c"
proof -
  assume "is_digit c"
  then have "(48 :: u32) \<le> ucast c"
    by (simp add: is_digit_def word_le_nat_alt unat_ucast_le)
  then show ?thesis by (simp add: unat_sub digit_value_def unat_ucast_le)
qed

lemma digits_value_snoc: "digits_value (xs @ [c]) = digits_value xs * 10 + digit_value c"
  by (simp add: digits_value_def)

lemma digits_value_less: "list_all is_digit xs \<Longrightarrow> digits_value xs < 10 ^ length xs"
proof (induction xs rule: rev_induct)
  case (snoc c xs)
  then have "digits_value xs < 10 ^ length xs" "digit_value c < 10"
    by (auto intro: digit_value_less)
  then have "digits_value xs * 10 + digit_value c < 10 ^ length xs * 10" by linarith
  then show ?case by (simp add: digits_value_snoc)
qed (simp add: digits_value_def)

lemma length_decimal [simp]: "length (decimal n v) = n"
  by (induction n arbitrary: v) simp_all

lemma decimal_digit:
  "is_digit (word_of_nat (48 + v mod 10))" "digit_value (word_of_nat (48 + v mod 10)) = v mod 10"
proof -
  have "unat (word_of_nat (48 + v mod 10) :: u8) = 48 + v mod 10"
    by (rule unat_word_of_nat_small) (use mod_less_divisor [of 10 v] in simp)
  then show "is_digit (word_of_nat (48 + v mod 10))" "digit_value (word_of_nat (48 + v mod 10)) = v mod 10"
    using mod_less_divisor [of 10 v] by (simp_all only: is_digit_def digit_value_def word_le_nat_alt) simp_all
qed

lemma list_all_decimal: "list_all is_digit (decimal n v)"
  by (induction n arbitrary: v) (simp_all add: decimal_digit [simplified])

lemma digits_value_decimal: "digits_value (decimal n v) = v mod 10 ^ n"
proof (induction n arbitrary: v)
  case (Suc n)
  then show ?case
    by (simp add: digits_value_snoc decimal_digit [simplified])
      (metis add.commute mod_mult2_eq mult.commute)
qed (simp add: digits_value_def)

lemma chars_to_uint32_loop_foldl:
  "n \<le> length cs \<Longrightarrow> chars_to_uint32_loop n cs v =
     foldl (\<lambda>v c. v * 10 + (ucast c - 48)) v (take n cs)"
  by (induction n cs v rule: chars_to_uint32_loop.induct) (auto simp: Suc_le_length_iff)

lemma chars_to_uint32_digits:
  assumes "unat count \<le> length cs" and "list_all is_digit (take (unat count) cs)" and "unat count \<le> 9"
  shows "unat (chars_to_uint32 cs count) = digits_value (take (unat count) cs)"
proof -
  have "unat (foldl (\<lambda>v c. v * 10 + (ucast c - 48)) (0 :: u32) ds) = digits_value ds"
    if "list_all is_digit ds" "length ds \<le> 9" for ds
    using that
  proof (induction ds rule: rev_induct)
    case (snoc c ds)
    let ?v = "foldl (\<lambda>v c. v * 10 + (ucast c - 48)) (0 :: u32) ds"
    have IH: "unat ?v = digits_value ds" and c: "is_digit c" using snoc by simp_all
    have "digits_value (ds @ [c]) < 10 ^ length (ds @ [c])"
      using snoc.prems(1) by (rule digits_value_less)
    also have "\<dots> \<le> 10 ^ 9" using snoc.prems(2) by (intro power_increasing) simp_all
    finally have b: "digits_value ds * 10 + digit_value c < 1000000000"
      by (simp add: digits_value_snoc)
    then show ?case
      by (simp add: digits_value_snoc unat_word_ariths IH unat_digit [OF c])
  qed (simp add: digits_value_def)
  from this [OF assms(2)] assms(1,3) show ?thesis
    by (simp add: chars_to_uint32_def chars_to_uint32_loop_foldl)
qed

section \<open>Pulling\<close>

definition digits_ok :: "nexus_digits \<Rightarrow> bool" where
  "digits_ok d \<longleftrightarrow> unat (dg_length d) \<le> length (dg_chars d) \<and>
     unat (dg_position d) \<le> unat (dg_length d) \<and>
     list_all is_digit (take (unat (dg_length d)) (dg_chars d))"

text \<open>The digits still to be read.\<close>

definition digits_left :: "nexus_digits \<Rightarrow> bytes" where
  "digits_left d = drop (unat (dg_position d)) (take (unat (dg_length d)) (dg_chars d))"

lemma unat_digits_remaining:
  "digits_ok d \<Longrightarrow> unat (nexus_digits_remaining d) = length (digits_left d)"
  by (simp add: digits_ok_def digits_left_def nexus_digits_remaining_def unat_sub word_le_nat_alt)

lemma digits_left_init:
  "unat n \<le> length cs \<Longrightarrow> list_all is_digit (take (unat n) cs) \<Longrightarrow>
   digits_ok (nexus_digits_init cs n) \<and> digits_left (nexus_digits_init cs n) = take (unat n) cs"
  by (simp add: digits_ok_def digits_left_def nexus_digits_init_def)

lemma nexus_digits_pull_uint32_ok:
  assumes ok: "digits_ok d" and n: "unat count \<le> length (digits_left d)" "unat count \<le> 9"
  shows "unat (fst (nexus_digits_pull_uint32 d count)) = digits_value (take (unat count) (digits_left d))"
    and "digits_ok (snd (nexus_digits_pull_uint32 d count))"
    and "digits_left (snd (nexus_digits_pull_uint32 d count)) = drop (unat count) (digits_left d)"
    and "dg_length (snd (nexus_digits_pull_uint32 d count)) = dg_length d"
proof -
  let ?p = "unat (dg_position d)" and ?n = "unat count" and ?l = "unat (dg_length d)"
  have le: "?p + ?n \<le> ?l" "?l \<le> length (dg_chars d)"
    using ok n by (auto simp: digits_ok_def digits_left_def)
  have t: "take ?n (digits_left d) = take ?n (drop ?p (dg_chars d))"
    using le by (simp add: digits_left_def drop_take min_def)
  have "list_all is_digit (take ?n (digits_left d))"
    using ok set_take_subset [of ?n "digits_left d"] set_drop_subset [of ?p "take ?l (dg_chars d)"]
    by (auto simp: digits_ok_def digits_left_def list_all_iff)
  then have "unat (chars_to_uint32 (drop ?p (dg_chars d)) count) =
      digits_value (take ?n (drop ?p (dg_chars d)))"
    using le n by (intro chars_to_uint32_digits) (simp_all add: t)
  then show "unat (fst (nexus_digits_pull_uint32 d count)) = digits_value (take ?n (digits_left d))"
    by (simp add: t nexus_digits_pull_uint32_def)
  have pos: "unat (ucast count + dg_position d) = ?n + ?p"
    using le unat_u16_less [of "dg_length d"]
    by (simp add: unat_word_ariths unat_ucast_le)
  show "digits_ok (snd (nexus_digits_pull_uint32 d count))"
    and "digits_left (snd (nexus_digits_pull_uint32 d count)) = drop ?n (digits_left d)"
    and "dg_length (snd (nexus_digits_pull_uint32 d count)) = dg_length d"
    using ok le by (simp_all add: nexus_digits_pull_uint32_def digits_ok_def digits_left_def pos)
qed

lemma nexus_digits_try_pull_uint32_ok:
  assumes "digits_ok d" "unat count \<le> 9"
  shows "nexus_digits_try_pull_uint32 d count False =
    (if length (digits_left d) < unat count then (UINT32_MAX, d, True)
     else case nexus_digits_pull_uint32 d count of (v, d') \<Rightarrow> (v, d', False))"
  using assms
  by (simp add: nexus_digits_try_pull_uint32_def word_less_nat_alt unat_digits_remaining unat_ucast_le)

text \<open>Digits printed into the buffer are read back.\<close>

lemma nexus_digits_pull_decimal:
  assumes "unat count \<le> 9" "unat len = length (decimal (unat count) v @ rest)"
    "list_all is_digit rest" "v < 10 ^ unat count"
  shows "unat (fst (nexus_digits_pull_uint32
    (nexus_digits_init (decimal (unat count) v @ rest) len) count)) = v"
  using assms nexus_digits_pull_uint32_ok(1)
    [of "nexus_digits_init (decimal (unat count) v @ rest) len" count]
    digits_left_init [of len "decimal (unat count) v @ rest"]
  by (simp add: list_all_decimal digits_value_decimal)

end
