(* ===== verification/Nexus_Bitset.thy ===== *)
theory Nexus_Bitset
  imports Nexus_Prelude
begin

text \<open>
  Bit sets over byte arrays and the sliding window of identifiers built on them
  (\<^verbatim>\<open>nexus/src/nexus_util.c\<close>, section BITSET). The abstract value of a bit set is a set of
  numbers, that of a window the set of identifiers marked as received. The contract of a
  window, that a marked identifier stays marked until the window has moved past it, is the
  locale \<open>id_window\<close>.
\<close>

section \<open>Bit sets: the code\<close>

record nexus_bitset =
  bt_bytes :: bytes
  bt_bytes_count :: u8

text \<open>\<^verbatim>\<open>struct _bitset_indices\<close>: byte index and bit index of an element.\<close>

definition bitset_get_indices :: "u16 \<Rightarrow> u8 \<times> u8" where
  "bitset_get_indices element =
     (let byte_index = ucast (drop_bit 3 element) :: u8
      in (byte_index, ucast (element - ucast byte_index * 8)))"

definition nexus_bitset_init :: "bytes \<Rightarrow> u8 \<Rightarrow> nexus_bitset" where
  "nexus_bitset_init bytes bytes_count = \<lparr>bt_bytes = bytes, bt_bytes_count = bytes_count\<rparr>"

definition nexus_bitset_add :: "nexus_bitset \<Rightarrow> u16 \<Rightarrow> nexus_bitset" where
  "nexus_bitset_add bitset element =
     (case bitset_get_indices element of (byte_index, bit_index) \<Rightarrow>
        bitset\<lparr>bt_bytes := (bt_bytes bitset)[unat byte_index :=
          bt_bytes bitset ! unat byte_index OR push_bit (unat bit_index) 1]\<rparr>)"

definition nexus_bitset_remove :: "nexus_bitset \<Rightarrow> u16 \<Rightarrow> nexus_bitset" where
  "nexus_bitset_remove bitset element =
     (case bitset_get_indices element of (byte_index, bit_index) \<Rightarrow>
        bitset\<lparr>bt_bytes := (bt_bytes bitset)[unat byte_index :=
          bt_bytes bitset ! unat byte_index AND NOT (push_bit (unat bit_index) 1)]\<rparr>)"

definition nexus_bitset_contains :: "nexus_bitset \<Rightarrow> u16 \<Rightarrow> bool" where
  "nexus_bitset_contains bitset element =
     (case bitset_get_indices element of (byte_index, bit_index) \<Rightarrow>
        bt_bytes bitset ! unat byte_index AND push_bit (unat bit_index) 1 \<noteq> 0)"

definition nexus_bitset_clear :: "nexus_bitset \<Rightarrow> nexus_bitset" where
  "nexus_bitset_clear bitset =
     bitset\<lparr>bt_bytes := memset0 (unat (bt_bytes_count bitset)) (bt_bytes bitset)\<rparr>"

section \<open>Bit sets: sets of numbers\<close>

definition bitset_ok :: "nexus_bitset \<Rightarrow> bool" where
  "bitset_ok b \<longleftrightarrow> unat (bt_bytes_count b) = length (bt_bytes b)"

text \<open>Element \<open>e\<close> is bit \<open>e mod 8\<close> of byte \<open>e div 8\<close>.\<close>

definition flags_set :: "bytes \<Rightarrow> nat set" where
  "flags_set bs = {e. e < 8 * length bs \<and> bit (bs ! (e div 8)) (e mod 8)}"

definition bitset_abs :: "nexus_bitset \<Rightarrow> nat set" where
  "bitset_abs b = flags_set (bt_bytes b)"

lemma flags_set_less: "e \<in> flags_set bs \<Longrightarrow> e < 8 * length bs"
  by (simp add: flags_set_def)

lemma flags_set_update:
  "f \<in> flags_set (bs[i := w]) \<longleftrightarrow> f < 8 * length bs \<and>
     (if f div 8 = i then bit w (f mod 8) else bit (bs ! (f div 8)) (f mod 8))"
  by (auto simp: flags_set_def nth_list_update)

lemma flags_set_replicate_0 [simp]: "flags_set (replicate n 0) = {}"
  by (auto simp: flags_set_def)

lemma bitset_get_indices_eq:
  assumes "unat e < 2040"
  shows "unat (fst (bitset_get_indices e)) = unat e div 8"
    and "unat (snd (bitset_get_indices e)) = unat e mod 8"
proof -
  have b: "unat (ucast (drop_bit 3 e) :: u8) = unat e div 8"
    using assms by (simp add: unsigned_ucast_eq take_bit_nat_eq_self unat_drop_bit less_mult_imp_div_less)
  then show "unat (fst (bitset_get_indices e)) = unat e div 8"
    by (simp add: bitset_get_indices_def Let_def)
  have m: "unat (ucast (ucast (drop_bit 3 e) :: u8) * 8 :: u16) = unat e div 8 * 8"
    using assms by (simp add: unat_word_ariths unat_ucast_le b)
  have "unat (e - ucast (ucast (drop_bit 3 e) :: u8) * 8) = unat e mod 8"
    by (subst unat_sub) (simp_all add: word_le_nat_alt m minus_div_mult_eq_mod)
  then show "unat (snd (bitset_get_indices e)) = unat e mod 8"
    by (simp add: bitset_get_indices_def Let_def unsigned_ucast_eq take_bit_nat_eq_self)
qed

lemma div_mod_8_eq: "f div 8 = e div 8 \<Longrightarrow> f mod 8 = e mod 8 \<longleftrightarrow> f = (e::nat)"
  by (metis mult_div_mod_eq)

lemma bitset_ops:
  assumes lt: "unat e < 8 * length (bt_bytes b)" and small: "unat e < 2040"
  shows nexus_bitset_add_abs: "bitset_abs (nexus_bitset_add b e) = insert (unat e) (bitset_abs b)"
    and nexus_bitset_remove_abs: "bitset_abs (nexus_bitset_remove b e) = bitset_abs b - {unat e}"
    and nexus_bitset_contains_abs: "nexus_bitset_contains b e \<longleftrightarrow> unat e \<in> bitset_abs b"
proof -
  note i = bitset_get_indices_eq [OF small]
  have m: "f div 8 = unat e div 8 \<Longrightarrow> f mod 8 = unat e mod 8 \<longleftrightarrow> f = unat e" for f
    by (rule div_mod_8_eq)
  have p: "bit (push_bit (unat e mod 8) (1 :: u8)) k \<longleftrightarrow> k = unat e mod 8" if "k < 8" for k
    using that by (auto simp: bit_simps simp del: push_bit_of_1)
  show "bitset_abs (nexus_bitset_add b e) = insert (unat e) (bitset_abs b)"
    using lt by (intro set_eqI)
      (auto simp: bitset_abs_def nexus_bitset_add_def split_beta i flags_set_update bit_or_iff p m
        simp del: push_bit_of_1, auto simp: flags_set_def)
  show "bitset_abs (nexus_bitset_remove b e) = bitset_abs b - {unat e}"
    using lt by (intro set_eqI)
      (auto simp: bitset_abs_def nexus_bitset_remove_def split_beta i flags_set_update bit_and_iff
        bit_not_iff p m simp del: push_bit_of_1, auto simp: flags_set_def p m simp del: push_bit_of_1)
  have "w AND push_bit k 1 \<noteq> 0 \<longleftrightarrow> bit w k" for w :: u8 and k
    by (metis and_exp_eq_0_iff_not_bit push_bit_of_1)
  then show "nexus_bitset_contains b e \<longleftrightarrow> unat e \<in> bitset_abs b"
    using lt by (simp add: bitset_abs_def nexus_bitset_contains_def split_beta i flags_set_def
        del: push_bit_of_1)
qed

lemma nexus_bitset_clear_abs: "bitset_ok b \<Longrightarrow> bitset_abs (nexus_bitset_clear b) = {}"
  by (auto simp: bitset_abs_def nexus_bitset_clear_def bitset_ok_def memset0_def memcpy_at_def)

section \<open>Windows: the code\<close>

record nexus_window =
  wn_center_index :: u32
  wn_flags :: nexus_bitset
  wn_flags_below :: u8
  wn_flags_above :: u8

abbreviation NEXUS_UTIL_MAX_WINDOW_BITSET_SIZE_BYTES :: u8 where
  "NEXUS_UTIL_MAX_WINDOW_BITSET_SIZE_BYTES \<equiv> 5"

definition nexus_util_window_init :: "bytes \<Rightarrow> u8 \<Rightarrow> u32 \<Rightarrow> u8 \<Rightarrow> u8 \<Rightarrow> nexus_window" where
  "nexus_util_window_init flag_array flag_array_bytes center_index flags_below flags_above =
     \<lparr>wn_center_index = center_index, wn_flags = nexus_bitset_init flag_array flag_array_bytes,
      wn_flags_below = flags_below, wn_flags_above = flags_above\<rparr>"

definition nexus_util_window_id_within_window :: "nexus_window \<Rightarrow> u32 \<Rightarrow> bool" where
  "nexus_util_window_id_within_window window ident =
     (let window_min = wn_center_index window - ucast (wn_flags_below window);
          window_max = wn_center_index window + ucast (wn_flags_above window)
      in ident \<ge> window_min \<and> ident \<le> window_max)"

text \<open>\<^verbatim>\<open>_nexus_util_window_mask_idx_from_id\<close>: \<open>None\<close> is the return value \<^verbatim>\<open>false\<close>.\<close>

definition nexus_util_window_mask_idx_from_id :: "nexus_window \<Rightarrow> u32 \<Rightarrow> u8 option" where
  "nexus_util_window_mask_idx_from_id window ident =
     (if \<not> nexus_util_window_id_within_window window ident then None
      else let center_idx = wn_center_index window
        in if center_idx \<ge> ident
           then Some (ucast (ucast (wn_flags_below window) - (center_idx - ident)))
           else Some (ucast (ucast (wn_flags_below window) + (ident - center_idx))))"

definition nexus_util_window_id_flag_already_set :: "nexus_window \<Rightarrow> u32 \<Rightarrow> bool" where
  "nexus_util_window_id_flag_already_set window ident =
     (if ident > wn_center_index window \<or> \<not> nexus_util_window_id_within_window window ident then False
      else case nexus_util_window_mask_idx_from_id window ident of
          None \<Rightarrow> False
        | Some mask_id_index \<Rightarrow> nexus_bitset_contains (wn_flags window) (ucast mask_id_index))"

text \<open>The copy loop over \<^verbatim>\<open>i = center_increment .. flags_below\<close> that fills the moved mask.\<close>

definition window_shift_step :: "nexus_bitset \<Rightarrow> u32 \<Rightarrow> nexus_bitset \<Rightarrow> nat \<Rightarrow> nexus_bitset" where
  "window_shift_step old center_increment new_mask i =
     (if nexus_bitset_contains old (word_of_nat i)
      then nexus_bitset_add new_mask (ucast (word_of_nat i - center_increment))
      else new_mask)"

definition window_shift :: "nexus_bitset \<Rightarrow> u32 \<Rightarrow> nat \<Rightarrow> nexus_bitset \<Rightarrow> nexus_bitset" where
  "window_shift old center_increment flags_below new_mask =
     foldl (window_shift_step old center_increment) new_mask [unat center_increment ..< Suc flags_below]"

definition nexus_util_window_set_id_flag :: "nexus_window \<Rightarrow> u32 \<Rightarrow> bool \<times> nexus_window" where
  "nexus_util_window_set_id_flag window ident =
     (let old_center = wn_center_index window; flags = wn_flags window
      in if ident > old_center + ucast (wn_flags_above window) then (False, window)
         else if ident < old_center - ucast (wn_flags_below window) then (False, window)
         else case nexus_util_window_mask_idx_from_id window ident of
             None \<Rightarrow> (False, window)
           | Some mask_id_index \<Rightarrow>
             if ident \<le> wn_center_index window
             then (True, window\<lparr>wn_flags := nexus_bitset_add flags (ucast mask_id_index)\<rparr>)
             else
               let center_increment = ident - old_center;
                   flags = (if center_increment > ucast (wn_flags_below window)
                     then nexus_bitset_clear flags
                     else
                       let new_mask = replicate (unat NEXUS_UTIL_MAX_WINDOW_BITSET_SIZE_BYTES) 0;
                           new_mask_bitset = nexus_bitset_init new_mask NEXUS_UTIL_MAX_WINDOW_BITSET_SIZE_BYTES;
                           new_mask_bitset = window_shift flags center_increment
                             (unat (wn_flags_below window)) new_mask_bitset
                       in flags\<lparr>bt_bytes := memcpy_at 0
                            (take (unat (bt_bytes_count flags)) (bt_bytes new_mask_bitset))
                            (bt_bytes flags)\<rparr>)
               in (True, window\<lparr>wn_center_index := ident,
                     wn_flags := nexus_bitset_add flags (ucast (wn_flags_below window))\<rparr>))"

section \<open>Windows: sets of received identifiers\<close>

definition window_ok :: "nexus_window \<Rightarrow> bool" where
  "window_ok w \<longleftrightarrow> bitset_ok (wn_flags w) \<and>
     unat (bt_bytes_count (wn_flags w)) * 8 = unat (wn_flags_below w) + 1 \<and>
     bt_bytes_count (wn_flags w) \<le> NEXUS_UTIL_MAX_WINDOW_BITSET_SIZE_BYTES \<and>
     unat (wn_flags_below w) \<le> unat (wn_center_index w) \<and>
     unat (wn_center_index w) + unat (wn_flags_above w) < 2 ^ 32"

text \<open>
  The identifiers that \<open>n\<close> flags mark, when the last flag stands for \<open>center\<close>.
\<close>

definition ids_of :: "nat \<Rightarrow> nat \<Rightarrow> nat set \<Rightarrow> nat set" where
  "ids_of center n flags =
     {ident. ident \<le> center \<and> center < ident + n \<and> ident + n - Suc center \<in> flags}"

definition window_ids :: "nexus_window \<Rightarrow> nat set" where
  "window_ids w = ids_of (unat (wn_center_index w)) (Suc (unat (wn_flags_below w)))
     (bitset_abs (wn_flags w))"

lemma ids_of_mark:
  "ident \<le> center \<Longrightarrow> center < ident + n \<Longrightarrow>
   ids_of center n (insert (ident + n - Suc center) flags) = insert ident (ids_of center n flags)"
  by (auto simp: ids_of_def)

lemma ids_of_move:
  assumes "0 < n" "center < ident" "{j. j + (ident - center) \<in> flags \<and> j + (ident - center) < n} = moved"
  shows "ids_of ident n (insert (n - 1) moved) =
    insert ident {i \<in> ids_of center n flags. ident < i + n}"
  using assms(1,2) unfolding assms(3) [symmetric]
  by (auto simp: ids_of_def)

lemma flags_set_take: "flags_set (take k bs) = {e \<in> flags_set bs. e < 8 * k}"
  by (auto simp: flags_set_def)

lemma length_nexus_bitset_add [simp]:
  "length (bt_bytes (nexus_bitset_add b e)) = length (bt_bytes b)"
  "bt_bytes_count (nexus_bitset_add b e) = bt_bytes_count b"
  by (simp_all add: nexus_bitset_add_def split_beta)

lemma length_window_shift_step [simp]:
  "length (bt_bytes (foldl (window_shift_step old inc) new xs)) = length (bt_bytes new)"
  by (induction xs arbitrary: new) (simp_all add: window_shift_step_def)

lemma window_shift_steps:
  assumes "\<And>i. i \<in> set xs \<Longrightarrow> i < 8 * length (bt_bytes old) \<and> unat inc \<le> i \<and>
      i < 8 * length (bt_bytes new) \<and> i < 2040"
  shows "bitset_abs (foldl (window_shift_step old inc) new xs) =
    bitset_abs new \<union> {i - unat inc | i. i \<in> set xs \<and> i \<in> bitset_abs old}"
  using assms
proof (induction xs arbitrary: new)
  case (Cons i xs)
  have i: "i < 8 * length (bt_bytes old)" "unat inc \<le> i" "i < 8 * length (bt_bytes new)" "i < 2040"
    using Cons.prems [of i] by auto
  have u16: "unat (word_of_nat i :: u16) = i" using i(4) by (simp add: unat_word_of_nat_small)
  have u32: "unat (word_of_nat i :: u32) = i" using i(4) by (simp add: unat_word_of_nat_small)
  have "unat (word_of_nat i - inc) = i - unat inc"
    using i(2) u32 by (simp add: unat_sub word_le_nat_alt)
  then have e: "unat (ucast (word_of_nat i - inc :: u32) :: u16) = i - unat inc"
    using i(4) by (simp add: unsigned_ucast_eq take_bit_nat_eq_self)
  have c: "nexus_bitset_contains old (word_of_nat i) \<longleftrightarrow> i \<in> bitset_abs old"
    using i by (simp add: nexus_bitset_contains_abs u16)
  have step: "bitset_abs (window_shift_step old inc new i) =
      (if i \<in> bitset_abs old then insert (i - unat inc) (bitset_abs new) else bitset_abs new)"
    using i by (simp add: window_shift_step_def c nexus_bitset_add_abs e)
  have len: "length (bt_bytes (window_shift_step old inc new i)) = length (bt_bytes new)"
    by (simp add: window_shift_step_def)
  have "bitset_abs (foldl (window_shift_step old inc) (window_shift_step old inc new i) xs) =
      bitset_abs (window_shift_step old inc new i) \<union> {i - unat inc | i. i \<in> set xs \<and> i \<in> bitset_abs old}"
    by (rule Cons.IH) (use Cons.prems len in auto)
  then show ?case by (auto simp: step)
qed simp

lemma window_shift_abs:
  assumes "flags_below < 8 * length (bt_bytes old)" "flags_below < 8 * length (bt_bytes new)"
    "flags_below < 2040"
  shows "bitset_abs (window_shift old inc flags_below new) =
    bitset_abs new \<union> {j. j + unat inc \<in> bitset_abs old \<and> j + unat inc < Suc flags_below}"
proof -
  have "{i - unat inc | i. i \<in> set [unat inc ..< Suc flags_below] \<and> i \<in> bitset_abs old} =
      {j. j + unat inc \<in> bitset_abs old \<and> j + unat inc < Suc flags_below}" (is "?L = ?R")
  proof (intro set_eqI iffI)
    fix j assume "j \<in> ?R"
    then show "j \<in> ?L" by (intro CollectI exI [of _ "j + unat inc"]) auto
  qed auto
  then show ?thesis
    unfolding window_shift_def using assms by (subst window_shift_steps) (auto simp del: upt_Suc)
qed

text \<open>Where an identifier inside the window keeps its flag.\<close>

lemma window_bounds:
  assumes "window_ok w"
  shows "unat (wn_center_index w - ucast (wn_flags_below w)) = unat (wn_center_index w) - unat (wn_flags_below w)"
    and "unat (wn_center_index w + ucast (wn_flags_above w)) = unat (wn_center_index w) + unat (wn_flags_above w)"
    and "unat (wn_flags_below w) < 40"
    and "length (bt_bytes (wn_flags w)) * 8 = Suc (unat (wn_flags_below w))"
    and "length (bt_bytes (wn_flags w)) \<le> 5"
  using assms
  by (auto simp: window_ok_def bitset_ok_def unat_sub word_le_nat_alt unat_ucast_le unat_word_ariths)

lemma window_id_within:
  assumes "window_ok w"
  shows "nexus_util_window_id_within_window w ident \<longleftrightarrow>
    unat (wn_center_index w) \<le> unat ident + unat (wn_flags_below w) \<and>
    unat ident \<le> unat (wn_center_index w) + unat (wn_flags_above w)"
  using window_bounds [OF assms]
  by (auto simp: nexus_util_window_id_within_window_def word_le_nat_alt)

lemma window_mask_idx:
  assumes ok: "window_ok w" and inw: "nexus_util_window_id_within_window w ident"
    and le: "ident \<le> wn_center_index w"
  shows "\<exists>i. nexus_util_window_mask_idx_from_id w ident = Some i \<and>
    unat (ucast i :: u16) = unat ident + Suc (unat (wn_flags_below w)) - Suc (unat (wn_center_index w))"
proof -
  have c: "unat ident \<le> unat (wn_center_index w)"
      "unat (wn_center_index w) - unat ident \<le> unat (wn_flags_below w)"
    using le inw window_id_within [OF ok] by (auto simp: word_le_nat_alt)
  have "unat (wn_center_index w - ident) = unat (wn_center_index w) - unat ident"
    using c(1) by (simp add: unat_sub word_le_nat_alt)
  then have "unat (ucast (wn_flags_below w) - (wn_center_index w - ident)) =
      unat (wn_flags_below w) - (unat (wn_center_index w) - unat ident)"
    using c(2) by (simp add: unat_sub word_le_nat_alt unat_ucast_le)
  moreover from this have "unat (ucast (ucast (wn_flags_below w) - (wn_center_index w - ident) :: u32) :: u8) =
      unat (ucast (wn_flags_below w) - (wn_center_index w - ident))"
    using window_bounds(3) [OF ok] by (intro unat_ucast_small) simp
  ultimately have "unat (ucast (ucast (ucast (wn_flags_below w) - (wn_center_index w - ident) :: u32) :: u8) :: u16) =
      unat ident + Suc (unat (wn_flags_below w)) - Suc (unat (wn_center_index w))"
    using c by (subst unat_ucast_le) simp_all
  then show ?thesis using inw le by (simp add: nexus_util_window_mask_idx_from_id_def)
qed

lemma nexus_util_window_id_flag_already_set_ids:
  assumes ok: "window_ok w"
  shows "nexus_util_window_id_flag_already_set w ident \<longleftrightarrow> unat ident \<in> window_ids w"
proof (cases "ident \<le> wn_center_index w \<and> nexus_util_window_id_within_window w ident")
  case True
  then obtain i where i: "nexus_util_window_mask_idx_from_id w ident = Some i"
      "unat (ucast i :: u16) = unat ident + Suc (unat (wn_flags_below w)) - Suc (unat (wn_center_index w))"
    using window_mask_idx [OF ok] by blast
  have b: "unat ident \<le> unat (wn_center_index w)" "unat (wn_center_index w) \<le> unat ident + unat (wn_flags_below w)"
    using True window_id_within [OF ok] by (auto simp: word_le_nat_alt)
  have lt: "unat (ucast i :: u16) < 8 * length (bt_bytes (wn_flags w))" "unat (ucast i :: u16) < 2040"
    using window_bounds(3,4) [OF ok] b i(2) by linarith+
  from nexus_bitset_contains_abs [OF lt] True b i show ?thesis
    by (auto simp: nexus_util_window_id_flag_already_set_def window_ids_def ids_of_def)
next
  case False
  then show ?thesis using window_id_within [OF ok, of ident]
    by (auto simp: nexus_util_window_id_flag_already_set_def window_ids_def ids_of_def word_le_nat_alt
        word_less_nat_alt)
qed

lemma bitset_ok_add [simp]: "bitset_ok (nexus_bitset_add b e) = bitset_ok b"
  by (simp add: bitset_ok_def)

lemma bitset_clear_simps [simp]:
  "bitset_ok b \<Longrightarrow> bitset_ok (nexus_bitset_clear b)"
  "bt_bytes_count (nexus_bitset_clear b) = bt_bytes_count b"
  by (simp_all add: nexus_bitset_clear_def bitset_ok_def)

text \<open>The moved mask: clear when the move is longer than the mask, shifted down otherwise.\<close>

definition window_moved :: "nexus_window \<Rightarrow> u32 \<Rightarrow> nexus_bitset" where
  "window_moved w inc =
     (if inc > ucast (wn_flags_below w) then nexus_bitset_clear (wn_flags w)
      else (wn_flags w)\<lparr>bt_bytes := memcpy_at 0
        (take (unat (bt_bytes_count (wn_flags w))) (bt_bytes (window_shift (wn_flags w) inc
          (unat (wn_flags_below w)) (nexus_bitset_init (replicate 5 0) 5)))) (bt_bytes (wn_flags w))\<rparr>)"

lemma window_moved_abs:
  assumes ok: "window_ok w"
  shows "bitset_ok (window_moved w inc)"
    and "length (bt_bytes (window_moved w inc)) = length (bt_bytes (wn_flags w))"
    and "bt_bytes_count (window_moved w inc) = bt_bytes_count (wn_flags w)"
    and "bitset_abs (window_moved w inc) =
      {j. j + unat inc \<in> bitset_abs (wn_flags w) \<and> j + unat inc < Suc (unat (wn_flags_below w))}"
proof -
  have cnt: "unat (bt_bytes_count (wn_flags w)) = length (bt_bytes (wn_flags w))"
    using ok by (simp add: window_ok_def bitset_ok_def)
  note b = window_bounds(3-5) [OF ok]
  let ?new = "window_shift (wn_flags w) inc (unat (wn_flags_below w)) (nexus_bitset_init (replicate 5 0) 5)"
  have len: "length (bt_bytes ?new) = 5"
    by (simp add: window_shift_def nexus_bitset_init_def del: upt_Suc)
  have abs: "bitset_abs ?new =
      {j. j + unat inc \<in> bitset_abs (wn_flags w) \<and> j + unat inc < Suc (unat (wn_flags_below w))}"
  proof (subst window_shift_abs)
    show "unat (wn_flags_below w) < 8 * length (bt_bytes (wn_flags w))"
      and "unat (wn_flags_below w) < 8 * length (bt_bytes (nexus_bitset_init (replicate 5 0) 5))"
      and "unat (wn_flags_below w) < 2040"
      using b by (simp_all add: nexus_bitset_init_def)
    have "bitset_abs (nexus_bitset_init (replicate 5 0) 5) = {}"
      by (simp only: nexus_bitset_init_def bitset_abs_def nexus_bitset.simps flags_set_replicate_0)
    then show "bitset_abs (nexus_bitset_init (replicate 5 0) 5) \<union>
        {j. j + unat inc \<in> bitset_abs (wn_flags w) \<and> j + unat inc < Suc (unat (wn_flags_below w))} =
        {j. j + unat inc \<in> bitset_abs (wn_flags w) \<and> j + unat inc < Suc (unat (wn_flags_below w))}"
      by simp
  qed
  have cp5: "length (bt_bytes (wn_flags w)) \<le> 5" by (rule b(3))
  have cp: "memcpy_at 0 (take (length (bt_bytes (wn_flags w))) (bt_bytes ?new)) (bt_bytes (wn_flags w)) =
      take (length (bt_bytes (wn_flags w))) (bt_bytes ?new)"
    using cp5 len by (simp add: memcpy_at_def)
  show "bitset_ok (window_moved w inc)"
    and "length (bt_bytes (window_moved w inc)) = length (bt_bytes (wn_flags w))"
    and "bt_bytes_count (window_moved w inc) = bt_bytes_count (wn_flags w)"
    using cp5 len cnt
    by (simp_all add: window_moved_def cp bitset_ok_def nexus_bitset_clear_def)
  show "bitset_abs (window_moved w inc) =
      {j. j + unat inc \<in> bitset_abs (wn_flags w) \<and> j + unat inc < Suc (unat (wn_flags_below w))}"
  proof (cases "inc > ucast (wn_flags_below w)")
    case True
    then have "unat inc > unat (wn_flags_below w)" by (simp add: word_less_nat_alt unat_ucast_le)
    then show ?thesis using True ok by (auto simp: window_moved_def nexus_bitset_clear_abs window_ok_def)
  next
    case False
    then have "bitset_abs (window_moved w inc) = {e \<in> bitset_abs ?new. e < 8 * length (bt_bytes (wn_flags w))}"
      by (simp add: window_moved_def cnt cp bitset_abs_def flags_set_take)
    moreover have "8 * length (bt_bytes (wn_flags w)) = Suc (unat (wn_flags_below w))" using b(2) by simp
    ultimately show ?thesis unfolding abs by (simp only:) (auto simp only: Collect_conj_eq [symmetric]
        mem_Collect_eq intro: add_lessD1)
  qed
qed

lemma nexus_util_window_set_id_flag_ids:
  assumes ok: "window_ok w" and ident: "unat ident + unat (wn_flags_above w) < 2 ^ 32"
  shows "nexus_util_window_id_within_window w ident \<Longrightarrow>
      \<exists>w'. nexus_util_window_set_id_flag w ident = (True, w') \<and> window_ok w' \<and>
        wn_center_index w' = max (wn_center_index w) ident \<and>
        wn_flags_below w' = wn_flags_below w \<and> wn_flags_above w' = wn_flags_above w \<and>
        window_ids w' = insert (unat ident)
          {i \<in> window_ids w. unat (max (wn_center_index w) ident) \<le> i + unat (wn_flags_below w)}"
    and "\<not> nexus_util_window_id_within_window w ident \<Longrightarrow>
      nexus_util_window_set_id_flag w ident = (False, w)"
proof -
  let ?c = "wn_center_index w" and ?b = "unat (wn_flags_below w)"
  note b = window_bounds [OF ok]
  assume inw: "nexus_util_window_id_within_window w ident"
  then have guards: "\<not> ident > ?c + ucast (wn_flags_above w)" "\<not> ident < ?c - ucast (wn_flags_below w)"
    by (auto simp: nexus_util_window_id_within_window_def Let_def)
  show "\<exists>w'. nexus_util_window_set_id_flag w ident = (True, w') \<and> window_ok w' \<and>
        wn_center_index w' = max ?c ident \<and>
        wn_flags_below w' = wn_flags_below w \<and> wn_flags_above w' = wn_flags_above w \<and>
        window_ids w' = insert (unat ident) {i \<in> window_ids w. unat (max ?c ident) \<le> i + ?b}"
  proof (cases "ident \<le> ?c")
    case True
    then obtain i where i: "nexus_util_window_mask_idx_from_id w ident = Some i"
        "unat (ucast i :: u16) = unat ident + Suc ?b - Suc (unat ?c)"
      using window_mask_idx [OF ok inw] by blast
    have d: "unat ident \<le> unat ?c" "unat ?c \<le> unat ident + ?b"
      using True inw window_id_within [OF ok] by (auto simp: word_le_nat_alt)
    have lt: "unat (ucast i :: u16) < 8 * length (bt_bytes (wn_flags w))" "unat (ucast i :: u16) < 2040"
      using b d i(2) by linarith+
    have "ids_of (unat ?c) (Suc ?b) (insert (unat ident + Suc ?b - Suc (unat ?c)) (bitset_abs (wn_flags w)))
        = insert (unat ident) (ids_of (unat ?c) (Suc ?b) (bitset_abs (wn_flags w)))"
      using d by (intro ids_of_mark) simp_all
    then show ?thesis
      using True guards i(1) ok
      by (auto simp: nexus_util_window_set_id_flag_def Let_def window_ids_def max_absorb1
          nexus_bitset_add_abs [OF lt, unfolded i(2)] window_ok_def ids_of_def)
  next
    case False
    then have gt: "unat ?c < unat ident" by (simp add: word_le_nat_alt)
    have inc: "unat (ident - ?c) = unat ident - unat ?c" using gt by (simp add: unat_sub word_le_nat_alt)
    let ?m = "window_moved w (ident - ?c)"
    let ?w = "w\<lparr>wn_center_index := ident, wn_flags := nexus_bitset_add ?m (ucast (wn_flags_below w))\<rparr>"
    obtain j where "nexus_util_window_mask_idx_from_id w ident = Some j"
      using False inw by (auto simp: nexus_util_window_mask_idx_from_id_def Let_def)
    then have w: "nexus_util_window_set_id_flag w ident = (True, ?w)"
      using False guards by (simp add: nexus_util_window_set_id_flag_def Let_def window_moved_def)
    have u: "unat (ucast (wn_flags_below w) :: u16) = ?b" by (simp add: unat_ucast_le)
    have "bitset_abs (nexus_bitset_add ?m (ucast (wn_flags_below w))) = insert ?b (bitset_abs ?m)"
      using b by (subst nexus_bitset_add_abs) (simp_all add: u window_moved_abs(2) [OF ok])
    moreover have "ids_of (unat ident) (Suc ?b) (insert (Suc ?b - 1) (bitset_abs ?m)) =
        insert (unat ident) {i \<in> ids_of (unat ?c) (Suc ?b) (bitset_abs (wn_flags w)). unat ident < i + Suc ?b}"
      by (rule ids_of_move) (simp_all add: gt window_moved_abs(4) [OF ok] inc)
    ultimately have "window_ids ?w = insert (unat ident) {i \<in> window_ids w. unat ident \<le> i + ?b}"
      by (auto simp: window_ids_def)
    moreover have "window_ok ?w"
      using ok gt ident window_moved_abs [OF ok] by (auto simp: window_ok_def)
    ultimately show ?thesis using w False by (auto simp: max_absorb2)
  qed
next
  assume "\<not> nexus_util_window_id_within_window w ident"
  then show "nexus_util_window_set_id_flag w ident = (False, w)"
    by (auto simp: nexus_util_window_set_id_flag_def nexus_util_window_id_within_window_def Let_def not_le)
qed

section \<open>The contract of an identifier window\<close>

text \<open>
  A component that keeps a window of received identifiers: everything it has marked lies
  between \<open>center - below\<close> and \<open>center\<close>, and marking an identifier in range moves the centre up
  to it and forgets only what falls out at the bottom. Replay protection follows from these
  laws alone: identifiers that are accepted only when in range and unmarked, and are marked
  on acceptance, are never accepted twice.
\<close>

locale id_window =
  fixes center :: "'w \<Rightarrow> nat" and below :: "'w \<Rightarrow> nat" and above :: "'w \<Rightarrow> nat"
    and seen :: "'w \<Rightarrow> nat set" and mark :: "'w \<Rightarrow> nat \<Rightarrow> 'w"
    and inv :: "'w \<Rightarrow> bool" and limit :: nat
  assumes seen_bounds: "inv w \<Longrightarrow> i \<in> seen w \<Longrightarrow> i \<le> center w \<and> center w \<le> i + below w"
    and mark_in_range: "inv w \<Longrightarrow> center w \<le> i + below w \<Longrightarrow> i \<le> center w + above w \<Longrightarrow> i \<le> limit \<Longrightarrow>
      inv (mark w i) \<and> center (mark w i) = max (center w) i \<and>
      below (mark w i) = below w \<and> above (mark w i) = above w \<and>
      seen (mark w i) = insert i {j \<in> seen w. max (center w) i \<le> j + below w}"
begin

definition accept :: "'w \<Rightarrow> nat \<Rightarrow> bool \<times> 'w" where
  "accept w i = (if center w \<le> i + below w \<and> i \<le> center w + above w \<and> i \<le> limit \<and> i \<notin> seen w
     then (True, mark w i) else (False, w))"

fun accepted :: "'w \<Rightarrow> nat list \<Rightarrow> nat list" where
  "accepted w [] = []"
| "accepted w (i # is) = (case accept w i of (ok, w') \<Rightarrow>
     if ok then i # accepted w' is else accepted w' is)"

text \<open>Identifiers that can no longer be accepted: marked ones and ones below the window.\<close>

definition spent :: "'w \<Rightarrow> nat \<Rightarrow> bool" where
  "spent w i \<longleftrightarrow> i \<in> seen w \<or> i + below w < center w"

lemma spent_not_accepted: "spent w i \<Longrightarrow> accept w i = (False, w)"
  by (auto simp: spent_def accept_def)

lemma accept_mark: "fst (accept w i) \<Longrightarrow> accept w i = (True, mark w i) \<and> center w \<le> i + below w \<and>
    i \<le> center w + above w \<and> i \<le> limit \<and> i \<notin> seen w"
  by (simp add: accept_def split: if_splits)

lemma accept_refuse: "\<not> fst (accept w i) \<Longrightarrow> accept w i = (False, w)"
  by (simp add: accept_def split: if_splits)

lemma accept_keeps:
  assumes "inv w"
  shows "inv (snd (accept w i))" and "fst (accept w i) \<Longrightarrow> spent (snd (accept w i)) i"
    and "spent w j \<Longrightarrow> spent (snd (accept w i)) j"
proof -
  have "inv (snd (accept w i)) \<and> (fst (accept w i) \<longrightarrow> spent (snd (accept w i)) i) \<and>
      (spent w j \<longrightarrow> spent (snd (accept w i)) j)"
  proof (cases "fst (accept w i)")
    case True
    note a = accept_mark [OF True]
    with mark_in_range [OF assms, of i] have m: "inv (mark w i)" "center (mark w i) = max (center w) i"
      "below (mark w i) = below w" "seen (mark w i) = insert i {j \<in> seen w. max (center w) i \<le> j + below w}"
      by blast+
    have "spent (mark w i) i" by (simp only: spent_def m insertI1 simp_thms)
    moreover have "spent (mark w i) j" if "spent w j"
    proof (cases "max (center w) i \<le> j + below w")
      case True
      then have "j \<in> seen w" using that by (simp add: spent_def not_less)
      with True show ?thesis by (simp only: spent_def m insert_iff mem_Collect_eq simp_thms)
    next
      case False
      then show ?thesis by (simp only: spent_def m not_le simp_thms)
    qed
    ultimately show ?thesis using a m(1) by simp
  next
    case False
    from accept_refuse [OF False] assms show ?thesis by simp
  qed
  then show "inv (snd (accept w i))" "fst (accept w i) \<Longrightarrow> spent (snd (accept w i)) i"
    "spent w j \<Longrightarrow> spent (snd (accept w i)) j" by blast+
qed

lemma accepted_distinct:
  "inv w \<Longrightarrow> distinct (accepted w is) \<and> (\<forall>i \<in> set (accepted w is). \<not> spent w i)"
proof (induction "is" arbitrary: w)
  case (Cons i js)
  obtain ok w' where a: "accept w i = (ok, w')" by fastforce
  have IH: "distinct (accepted w' js)" "\<forall>j \<in> set (accepted w' js). \<not> spent w' j"
    using Cons.IH [of w'] accept_keeps(1) [OF Cons.prems, of i] by (simp_all add: a)
  have "spent w j \<Longrightarrow> spent w' j" for j using accept_keeps(3) [OF Cons.prems, of j i] a by simp
  moreover have "ok \<Longrightarrow> spent w' i \<and> \<not> spent w i"
    using accept_keeps(2) [OF Cons.prems, of i] spent_not_accepted [of w i] a by auto
  ultimately show ?case using a IH by auto
qed simp

end

interpretation win: id_window "\<lambda>w. unat (wn_center_index w)" "\<lambda>w. unat (wn_flags_below w)"
  "\<lambda>w. unat (wn_flags_above w)" window_ids
  "\<lambda>w i. snd (nexus_util_window_set_id_flag w (word_of_nat i))" window_ok "4294967040"
proof
  fix w i
  assume "window_ok w" "i \<in> window_ids w"
  then show "i \<le> unat (wn_center_index w) \<and> unat (wn_center_index w) \<le> i + unat (wn_flags_below w)"
    by (auto simp: window_ids_def ids_of_def)
next
  fix w :: nexus_window and i :: nat
  assume ok: "window_ok w" and r: "unat (wn_center_index w) \<le> i + unat (wn_flags_below w)"
    "i \<le> unat (wn_center_index w) + unat (wn_flags_above w)" and lim: "i \<le> 4294967040"
  have u: "unat (word_of_nat i :: u32) = i" using lim by (simp add: unat_word_of_nat_small)
  have mx: "unat (max c (word_of_nat i :: u32)) = max (unat c) i" for c
    by (simp add: max_def u word_le_nat_alt)
  have "unat (word_of_nat i :: u32) + unat (wn_flags_above w) < 2 ^ 32"
    using lim u unat_u8_less [of "wn_flags_above w"] by simp
  moreover have "nexus_util_window_id_within_window w (word_of_nat i)"
    using window_id_within [OF ok] r u by simp
  ultimately obtain w' where "nexus_util_window_set_id_flag w (word_of_nat i) = (True, w')" and w':
      "window_ok w'" "wn_center_index w' = max (wn_center_index w) (word_of_nat i)"
      "wn_flags_below w' = wn_flags_below w" "wn_flags_above w' = wn_flags_above w"
      "window_ids w' = insert (unat (word_of_nat i :: u32))
        {j \<in> window_ids w. unat (max (wn_center_index w) (word_of_nat i)) \<le> j + unat (wn_flags_below w)}"
    using nexus_util_window_set_id_flag_ids(1) [OF ok, of "word_of_nat i"] by blast
  then show "window_ok (snd (nexus_util_window_set_id_flag w (word_of_nat i))) \<and>
      unat (wn_center_index (snd (nexus_util_window_set_id_flag w (word_of_nat i)))) =
        max (unat (wn_center_index w)) i \<and>
      unat (wn_flags_below (snd (nexus_util_window_set_id_flag w (word_of_nat i)))) = unat (wn_flags_below w) \<and>
      unat (wn_flags_above (snd (nexus_util_window_set_id_flag w (word_of_nat i)))) = unat (wn_flags_above w) \<and>
      window_ids (snd (nexus_util_window_set_id_flag w (word_of_nat i))) = insert i
        {j \<in> window_ids w. max (unat (wn_center_index w)) i \<le> j + unat (wn_flags_below w)}"
    by (simp only: snd_conv w' u mx simp_thms)
qed

section \<open>Properties\<close>

text \<open>
  Receiving a sequence of identifiers through a window: an identifier that lies in the window
  and is not marked is taken and marked, all others are dropped.
\<close>

fun window_receive :: "nexus_window \<Rightarrow> u32 list \<Rightarrow> u32 list" where
  "window_receive w [] = []"
| "window_receive w (ident # rest) =
     (if nexus_util_window_id_within_window w ident \<and>
         \<not> nexus_util_window_id_flag_already_set w ident \<and> unat ident \<le> 4294967040
      then ident # window_receive (snd (nexus_util_window_set_id_flag w ident)) rest
      else window_receive w rest)"

lemma window_receive_accepted:
  "window_ok w \<Longrightarrow> map unat (window_receive w ids) = win.accepted w (map unat ids)"
proof (induction ids arbitrary: w)
  case (Cons ident rest)
  note ok = Cons.prems
  have g: "nexus_util_window_id_within_window w ident \<and>
      \<not> nexus_util_window_id_flag_already_set w ident \<and> unat ident \<le> 4294967040 \<longleftrightarrow>
      fst (win.accept w (unat ident))"
    by (auto simp: win.accept_def window_id_within [OF ok] nexus_util_window_id_flag_already_set_ids [OF ok])
  show ?case
  proof (cases "fst (win.accept w (unat ident))")
    case True
    have a: "win.accept w (unat ident) = (True, snd (nexus_util_window_set_id_flag w ident))"
      using win.accept_mark [OF True] by simp
    then have "window_ok (snd (nexus_util_window_set_id_flag w ident))"
      using win.accept_keeps(1) [OF ok, of "unat ident"] by simp
    from Cons.IH [OF this] show ?thesis using g True by (simp add: a)
  next
    case False
    then show ?thesis using g Cons.IH [OF ok] win.accept_refuse [OF False] by auto
  qed
qed simp

text \<open>C30. Replay protection of the identifier window: over any sequence of identifiers, in any
  order and with any repetitions, no identifier is taken twice, and none that was already
  marked in the window is taken.\<close>

theorem window_receive_once:
  assumes "window_ok w"
  shows "distinct (window_receive w ids) \<and>
    (\<forall>ident \<in> set (window_receive w ids). \<not> nexus_util_window_id_flag_already_set w ident)"
proof -
  have "distinct (map unat (window_receive w ids)) \<and>
      (\<forall>i \<in> set (map unat (window_receive w ids)). \<not> win.spent w i)"
    using win.accepted_distinct [OF assms] by (simp add: window_receive_accepted [OF assms])
  then show ?thesis
    by (auto simp: distinct_map win.spent_def nexus_util_window_id_flag_already_set_ids [OF assms])
qed

theorem window_receive_once_witness:
  "window_ok (nexus_util_window_init [0, 0, 0] 3 23 23 40) \<and>
   distinct (window_receive (nexus_util_window_init [0, 0, 0] 3 23 23 40) [25, 25, 20])"
proof -
  have "window_ok (nexus_util_window_init [0, 0, 0] 3 23 23 40)"
    by (simp add: window_ok_def nexus_util_window_init_def nexus_bitset_init_def bitset_ok_def)
  from window_receive_once [OF this] this show ?thesis by blast
qed

text \<open>Marking an identifier in the window succeeds, keeps the window well formed, makes the
  identifier the centre if it lies above, and turns the set of marked identifiers into that
  set with the identifier added and what fell out at the bottom removed; an identifier outside
  is refused and nothing changes.\<close>

theorem nexus_util_window_set_id_flag_spec:
  assumes "window_ok w" and "unat ident + unat (wn_flags_above w) < 2 ^ 32"
  shows "if nexus_util_window_id_within_window w ident
    then \<exists>w'. nexus_util_window_set_id_flag w ident = (True, w') \<and> window_ok w' \<and>
        wn_center_index w' = max (wn_center_index w) ident \<and>
        window_ids w' = insert (unat ident)
          {i \<in> window_ids w. unat (max (wn_center_index w) ident) \<le> i + unat (wn_flags_below w)}
    else nexus_util_window_set_id_flag w ident = (False, w)"
proof (cases "nexus_util_window_id_within_window w ident")
  case True
  from nexus_util_window_set_id_flag_ids(1) [OF assms True] True show ?thesis by auto
next
  case False
  from nexus_util_window_set_id_flag_ids(2) [OF assms False] False show ?thesis by simp
qed

theorem nexus_util_window_set_id_flag_spec_witness:
  "\<exists>w'. nexus_util_window_set_id_flag (nexus_util_window_init [0, 0, 0] 3 23 23 40) 25 = (True, w') \<and>
     window_ok w' \<and> wn_center_index w' = 25"
proof -
  let ?w = "nexus_util_window_init [0, 0, 0] 3 23 23 40"
  have ok: "window_ok ?w"
    by (simp add: window_ok_def nexus_util_window_init_def nexus_bitset_init_def bitset_ok_def)
  have c: "wn_center_index ?w = 23" "wn_flags_above ?w = 40"
    by (simp_all add: nexus_util_window_init_def)
  have "nexus_util_window_id_within_window ?w 25"
    by (simp add: nexus_util_window_id_within_window_def nexus_util_window_init_def)
  with nexus_util_window_set_id_flag_spec [OF ok, of 25] show ?thesis by (auto simp: c max_def)
qed

end
