(* ===== verification/Nexus_State.thy ===== *)
theory Nexus_State
  imports Nexus_Prelude
begin

text \<open>
  The static data of the keycode half of the library: the build configuration, the product
  port (the \<^verbatim>\<open>nxp_*\<close> functions the product implements) and the module-level \<^verbatim>\<open>_this\<close>
  structs of \<^verbatim>\<open>nexus_common_internal.c\<close>, \<^verbatim>\<open>nexus_keycode_core.c\<close>, \<^verbatim>\<open>nexus_keycode_pro.c\<close>
  and \<^verbatim>\<open>nexus_keycode_mas.c\<close>, gathered in one record \<open>nexus\<close> that every operation takes and
  returns. Function pointers held in these structs are data types with one constructor per
  function the code ever stores there.
\<close>

section \<open>Build configuration\<close>

text \<open>
  The compile-time switches of \<^verbatim>\<open>internal_keycode_config.h\<close>. \<open>config_wf\<close> is what its
  \<^verbatim>\<open>#error\<close> directives and the static assertions of \<^verbatim>\<open>nexus_keycode_mas.c\<close> enforce.
\<close>

datatype keycode_protocol = NEXUS_KEYCODE_PROTOCOL_FULL | NEXUS_KEYCODE_PROTOCOL_SMALL

record keycode_config =
  PROTOCOL :: keycode_protocol
  QC_LONG_LIFETIME_MAX :: u8
  QC_SHORT_LIFETIME_MAX :: u8
  RATE_LIMIT_BUCKET_MAX :: u32
  RATE_LIMIT_BUCKET_INITIAL_COUNT :: u32
  RATE_LIMIT_REFILL_SECONDS_PER_ATTEMPT :: u32
  ENTRY_TIMEOUT_SECONDS :: u32

definition config_wf :: "keycode_config \<Rightarrow> bool" where
  "config_wf c \<longleftrightarrow>
     QC_LONG_LIFETIME_MAX c \<le> 15 \<and> QC_SHORT_LIFETIME_MAX c \<le> 15 \<and>
     RATE_LIMIT_BUCKET_MAX c \<le> 255 \<and> RATE_LIMIT_BUCKET_INITIAL_COUNT c \<le> 255 \<and>
     RATE_LIMIT_REFILL_SECONDS_PER_ATTEMPT c \<le> 3600 \<and>
     (RATE_LIMIT_BUCKET_MAX c \<noteq> 0 \<longrightarrow> RATE_LIMIT_REFILL_SECONDS_PER_ATTEMPT c \<noteq> 0)"

text \<open>The configuration shipped in \<^verbatim>\<open>include/user_config.h\<close>.\<close>

definition user_config :: keycode_config where
  "user_config = \<lparr>PROTOCOL = NEXUS_KEYCODE_PROTOCOL_FULL,
     QC_LONG_LIFETIME_MAX = 5, QC_SHORT_LIFETIME_MAX = 5,
     RATE_LIMIT_BUCKET_MAX = 128, RATE_LIMIT_BUCKET_INITIAL_COUNT = 6,
     RATE_LIMIT_REFILL_SECONDS_PER_ATTEMPT = 720, ENTRY_TIMEOUT_SECONDS = 16\<rparr>"

lemma config_wf_user_config: "config_wf user_config"
  by (simp add: config_wf_def user_config_def)

text \<open>Start and end keys, stop length and alphabet of the two protocols, as characters.\<close>

definition NEXUS_KEYCODE_PROTOCOL_NO_STOP_LENGTH :: u8 where
  "NEXUS_KEYCODE_PROTOCOL_NO_STOP_LENGTH = UINT8_MAX"

definition NEXUS_KEYCODE_PROTOCOL_STOP_LENGTH :: "keycode_protocol \<Rightarrow> u8" where
  "NEXUS_KEYCODE_PROTOCOL_STOP_LENGTH p = (case p of
       NEXUS_KEYCODE_PROTOCOL_FULL \<Rightarrow> NEXUS_KEYCODE_PROTOCOL_NO_STOP_LENGTH
     | NEXUS_KEYCODE_PROTOCOL_SMALL \<Rightarrow> 14)"

text \<open>\<^verbatim>\<open>'*'\<close> is 42, \<^verbatim>\<open>'#'\<close> 35, \<^verbatim>\<open>'1'\<close> 49, \<^verbatim>\<open>'?'\<close> 63.\<close>

definition NEXUS_KEYCODE_START_CHAR :: "keycode_protocol \<Rightarrow> u8" where
  "NEXUS_KEYCODE_START_CHAR p = (case p of
     NEXUS_KEYCODE_PROTOCOL_FULL \<Rightarrow> 42 | NEXUS_KEYCODE_PROTOCOL_SMALL \<Rightarrow> 49)"

definition NEXUS_KEYCODE_END_CHAR :: "keycode_protocol \<Rightarrow> u8" where
  "NEXUS_KEYCODE_END_CHAR p = (case p of
     NEXUS_KEYCODE_PROTOCOL_FULL \<Rightarrow> 35 | NEXUS_KEYCODE_PROTOCOL_SMALL \<Rightarrow> 63)"

definition NEXUS_KEYCODE_ALPHABET :: "keycode_protocol \<Rightarrow> bytes" where
  "NEXUS_KEYCODE_ALPHABET p = (case p of
       NEXUS_KEYCODE_PROTOCOL_FULL \<Rightarrow> [48, 49, 50, 51, 52, 53, 54, 55, 56, 57]
     | NEXUS_KEYCODE_PROTOCOL_SMALL \<Rightarrow> [50, 51, 52, 53])"

section \<open>The product port\<close>

datatype nxp_common_payg_state =
  NXP_COMMON_PAYG_STATE_DISABLED | NXP_COMMON_PAYG_STATE_ENABLED | NXP_COMMON_PAYG_STATE_UNLOCKED

datatype nxp_keycode_feedback_type =
    FEEDBACK_TYPE_NONE | FEEDBACK_TYPE_MESSAGE_INVALID | FEEDBACK_TYPE_MESSAGE_VALID
  | FEEDBACK_TYPE_RESERVED | FEEDBACK_TYPE_MESSAGE_APPLIED | FEEDBACK_TYPE_KEY_ACCEPTED
  | FEEDBACK_TYPE_KEY_REJECTED | FEEDBACK_TYPE_DISPLAY_SERIAL_ID

datatype nx_keycode_custom_flag = NX_KEYCODE_CUSTOM_FLAG_RESTRICTED

definition custom_flag_value :: "nx_keycode_custom_flag \<Rightarrow> u8" where
  "custom_flag_value flag = (case flag of NX_KEYCODE_CUSTOM_FLAG_RESTRICTED \<Rightarrow> 1)"

datatype nxp_keycode_passthrough_error =
    PASSTHROUGH_ERROR_NONE | PASSTHROUGH_ERROR_DATA_UNRECOGNIZED
  | PASSTHROUGH_ERROR_DATA_INVALID_VALUE_OR_SIZE | PASSTHROUGH_ERROR_UNKNOWN

record nx_common_nv_block_meta =
  block_id :: u16
  block_length :: u8

text \<open>
  The functions the product supplies, over a product state \<open>'p\<close> the library never looks into.
  A read fills the buffer it is given; what it leaves there when it fails is its own business.
  \<open>uninit\<close> stands for the contents of automatic variables that the code does not initialise.
\<close>

record 'p nexus_env =
  config :: keycode_config
  nxp_common_nv_read :: "nx_common_nv_block_meta \<Rightarrow> bytes \<Rightarrow> 'p \<Rightarrow> bool \<times> bytes"
  nxp_common_nv_write :: "nx_common_nv_block_meta \<Rightarrow> bytes \<Rightarrow> 'p \<Rightarrow> bool \<times> 'p"
  nxp_common_request_processing :: "'p \<Rightarrow> 'p"
  nxp_common_payg_state_get_current :: "'p \<Rightarrow> nxp_common_payg_state"
  nxp_keycode_feedback_start :: "nxp_keycode_feedback_type \<Rightarrow> 'p \<Rightarrow> bool \<times> 'p"
  nxp_keycode_payg_credit_add :: "u32 \<Rightarrow> 'p \<Rightarrow> bool \<times> 'p"
  nxp_keycode_payg_credit_set :: "u32 \<Rightarrow> 'p \<Rightarrow> bool \<times> 'p"
  nxp_keycode_payg_credit_unlock :: "'p \<Rightarrow> bool \<times> 'p"
  nxp_keycode_get_secret_key :: "'p \<Rightarrow> bytes"
  nxp_keycode_get_user_facing_id :: "'p \<Rightarrow> u32"
  nxp_keycode_notify_custom_flag_changed :: "nx_keycode_custom_flag \<Rightarrow> bool \<Rightarrow> 'p \<Rightarrow> 'p"
  nxp_keycode_passthrough_keycode :: "bytes \<Rightarrow> u8 \<Rightarrow> 'p \<Rightarrow> nxp_keycode_passthrough_error \<times> 'p"
  uninit :: "nat \<Rightarrow> u8"

section \<open>Module state\<close>

abbreviation NEXUS_KEYCODE_MAX_MESSAGE_LENGTH :: nat where
  "NEXUS_KEYCODE_MAX_MESSAGE_LENGTH \<equiv> 30"

record nexus_keycode_frame =
  fr_keys :: bytes
  fr_length :: u8

text \<open>\<^verbatim>\<open>_this\<close> of \<^verbatim>\<open>nexus_common_internal.c\<close>.\<close>

record common_this =
  uptime_s :: u32
  init_completed :: bool
  pending_init :: bool

datatype nexus_keycode_pro_parse_and_apply =
  FULL_PARSE_AND_APPLY | SMALL_PARSE_AND_APPLY

text \<open>\<^verbatim>\<open>_this_core\<close> and \<^verbatim>\<open>_this_protocol\<close> of \<^verbatim>\<open>nexus_keycode_pro.c\<close>.\<close>

record pro_core =
  frame :: nexus_keycode_frame
  pending :: bool
  parse_and_apply :: "nexus_keycode_pro_parse_and_apply option"
  alphabet :: bytes

text \<open>\<^verbatim>\<open>_nexus_keycode_stored\<close>, the part of the protocol state that is kept in nonvolatile memory.\<close>

record keycode_pro_stored =
  received_flags :: bytes
  qc_test_codes_received :: u8
  pd_index :: u32
  custom_flags_bitmask :: u8
  padding :: u8

datatype nexus_keycode_mas_message_handler = PRO_ENQUEUE

text \<open>\<^verbatim>\<open>_this_core\<close> and \<^verbatim>\<open>_this_bookend\<close> of \<^verbatim>\<open>nexus_keycode_mas.c\<close>.\<close>

record mas_core =
  graceperiod_keycodes :: u8
  mas_pad :: bytes
  handler :: "nexus_keycode_mas_message_handler option"
  partial :: nexus_keycode_frame
  max_length_exceeded :: bool
  rl_bucket :: u32

record mas_bookend =
  start_key :: u8
  end_key :: u8
  stop_length :: u8
  start_seen :: bool
  latest_uptime :: u32

record 'p nexus =
  plat :: 'p
  common :: common_this
  core_init_completed :: bool
  pro :: pro_core
  stored :: keycode_pro_stored
  mas :: mas_core
  bookend :: mas_bookend

text \<open>Static storage before any call, all zero, on top of a product state.\<close>

definition zero_stored :: keycode_pro_stored where
  "zero_stored = \<lparr>received_flags = replicate 5 0, qc_test_codes_received = 0, pd_index = 0,
     custom_flags_bitmask = 0, padding = 0\<rparr>"

definition zero_frame :: nexus_keycode_frame where
  "zero_frame = \<lparr>fr_keys = replicate NEXUS_KEYCODE_MAX_MESSAGE_LENGTH 0, fr_length = 0\<rparr>"

definition nexus_zero :: "'p \<Rightarrow> 'p nexus" where
  "nexus_zero p = \<lparr>plat = p,
     common = \<lparr>uptime_s = 0, init_completed = False, pending_init = False\<rparr>,
     core_init_completed = False,
     pro = \<lparr>frame = zero_frame, pending = False, parse_and_apply = None, alphabet = []\<rparr>,
     stored = zero_stored,
     mas = \<lparr>graceperiod_keycodes = 0, mas_pad = replicate 3 0, handler = None, partial = zero_frame,
            max_length_exceeded = False, rl_bucket = 0\<rparr>,
     bookend = \<lparr>start_key = 0, end_key = 0, stop_length = 0, start_seen = False, latest_uptime = 0\<rparr>\<rparr>"

section \<open>Calls into the product\<close>

definition do_request_processing :: "'p nexus_env \<Rightarrow> 'p nexus \<Rightarrow> 'p nexus" where
  "do_request_processing e s = s\<lparr>plat := nxp_common_request_processing e (plat s)\<rparr>"

definition do_feedback :: "'p nexus_env \<Rightarrow> nxp_keycode_feedback_type \<Rightarrow> 'p nexus \<Rightarrow> 'p nexus" where
  "do_feedback e f s = s\<lparr>plat := snd (nxp_keycode_feedback_start e f (plat s))\<rparr>"

definition do_credit_add :: "'p nexus_env \<Rightarrow> u32 \<Rightarrow> 'p nexus \<Rightarrow> 'p nexus" where
  "do_credit_add e c s = s\<lparr>plat := snd (nxp_keycode_payg_credit_add e c (plat s))\<rparr>"

definition do_credit_set :: "'p nexus_env \<Rightarrow> u32 \<Rightarrow> 'p nexus \<Rightarrow> 'p nexus" where
  "do_credit_set e c s = s\<lparr>plat := snd (nxp_keycode_payg_credit_set e c (plat s))\<rparr>"

definition do_credit_unlock :: "'p nexus_env \<Rightarrow> 'p nexus \<Rightarrow> 'p nexus" where
  "do_credit_unlock e s = s\<lparr>plat := snd (nxp_keycode_payg_credit_unlock e (plat s))\<rparr>"

definition get_secret_key :: "'p nexus_env \<Rightarrow> 'p nexus \<Rightarrow> bytes" where
  "get_secret_key e s = nxp_keycode_get_secret_key e (plat s)"

definition get_payg_state :: "'p nexus_env \<Rightarrow> 'p nexus \<Rightarrow> nxp_common_payg_state" where
  "get_payg_state e s = nxp_common_payg_state_get_current e (plat s)"

text \<open>Bytes of automatic arrays that the code leaves uninitialised.\<close>

definition junk_bytes :: "'p nexus_env \<Rightarrow> nat \<Rightarrow> nat \<Rightarrow> bytes" where
  "junk_bytes e off n = map (\<lambda>i. uninit e (off + i)) [0..<n]"

lemma length_junk_bytes [simp]: "length (junk_bytes e off n) = n"
  by (simp add: junk_bytes_def)

text \<open>Updates of a part of the state.\<close>

definition on_stored :: "(keycode_pro_stored \<Rightarrow> keycode_pro_stored) \<Rightarrow> 'p nexus \<Rightarrow> 'p nexus" where
  "on_stored f s = s\<lparr>stored := f (stored s)\<rparr>"

definition on_mas :: "(mas_core \<Rightarrow> mas_core) \<Rightarrow> 'p nexus \<Rightarrow> 'p nexus" where
  "on_mas f s = s\<lparr>mas := f (mas s)\<rparr>"

definition on_bookend :: "(mas_bookend \<Rightarrow> mas_bookend) \<Rightarrow> 'p nexus \<Rightarrow> 'p nexus" where
  "on_bookend f s = s\<lparr>bookend := f (bookend s)\<rparr>"

definition on_pro :: "(pro_core \<Rightarrow> pro_core) \<Rightarrow> 'p nexus \<Rightarrow> 'p nexus" where
  "on_pro f s = s\<lparr>pro := f (pro s)\<rparr>"

named_theorems nexus_updates \<open>reading the state after an update of one part of it\<close>

lemma on_stored_simps [simp, nexus_updates]:
  "plat (on_stored f s) = plat s" "stored (on_stored f s) = f (stored s)" "pro (on_stored f s) = pro s"
  "mas (on_stored f s) = mas s" "bookend (on_stored f s) = bookend s" "common (on_stored f s) = common s"
  "core_init_completed (on_stored f s) = core_init_completed s"
  by (simp_all add: on_stored_def)

lemma on_mas_simps [simp, nexus_updates]:
  "plat (on_mas f s) = plat s" "stored (on_mas f s) = stored s" "pro (on_mas f s) = pro s"
  "mas (on_mas f s) = f (mas s)" "bookend (on_mas f s) = bookend s" "common (on_mas f s) = common s"
  "core_init_completed (on_mas f s) = core_init_completed s"
  by (simp_all add: on_mas_def)

lemma on_bookend_simps [simp, nexus_updates]:
  "plat (on_bookend f s) = plat s" "stored (on_bookend f s) = stored s" "pro (on_bookend f s) = pro s"
  "mas (on_bookend f s) = mas s" "bookend (on_bookend f s) = f (bookend s)" "common (on_bookend f s) = common s"
  "core_init_completed (on_bookend f s) = core_init_completed s"
  by (simp_all add: on_bookend_def)

lemma on_pro_simps [simp, nexus_updates]:
  "plat (on_pro f s) = plat s" "stored (on_pro f s) = stored s" "pro (on_pro f s) = f (pro s)"
  "mas (on_pro f s) = mas s" "bookend (on_pro f s) = bookend s" "common (on_pro f s) = common s"
  "core_init_completed (on_pro f s) = core_init_completed s"
  by (simp_all add: on_pro_def)

lemma do_request_processing_simps [simp, nexus_updates]:
  "stored (do_request_processing e s) = stored s" "pro (do_request_processing e s) = pro s"
  "mas (do_request_processing e s) = mas s" "bookend (do_request_processing e s) = bookend s"
  "common (do_request_processing e s) = common s"
  "core_init_completed (do_request_processing e s) = core_init_completed s"
  by (simp_all add: do_request_processing_def)

lemma do_feedback_simps [simp, nexus_updates]:
  "stored (do_feedback e f s) = stored s" "pro (do_feedback e f s) = pro s"
  "mas (do_feedback e f s) = mas s" "bookend (do_feedback e f s) = bookend s"
  "common (do_feedback e f s) = common s"
  "core_init_completed (do_feedback e f s) = core_init_completed s"
  by (simp_all add: do_feedback_def)

lemma do_credit_simps [simp, nexus_updates]:
  "stored (do_credit_add e c s) = stored s" "pro (do_credit_add e c s) = pro s"
  "mas (do_credit_add e c s) = mas s" "bookend (do_credit_add e c s) = bookend s"
  "common (do_credit_add e c s) = common s" "core_init_completed (do_credit_add e c s) = core_init_completed s"
  "stored (do_credit_set e c s) = stored s" "pro (do_credit_set e c s) = pro s"
  "mas (do_credit_set e c s) = mas s" "bookend (do_credit_set e c s) = bookend s"
  "common (do_credit_set e c s) = common s" "core_init_completed (do_credit_set e c s) = core_init_completed s"
  "stored (do_credit_unlock e s) = stored s" "pro (do_credit_unlock e s) = pro s"
  "mas (do_credit_unlock e s) = mas s" "bookend (do_credit_unlock e s) = bookend s"
  "common (do_credit_unlock e s) = common s" "core_init_completed (do_credit_unlock e s) = core_init_completed s"
  by (simp_all add: do_credit_add_def do_credit_set_def do_credit_unlock_def)

end
