(* ===== verification/Nexus_Nv.thy ===== *)
theory Nexus_Nv
  imports Nexus_State Nexus_Crc
begin

text \<open>
  Nonvolatile blocks (\<^verbatim>\<open>nexus/src/nexus_nv.c\<close>): a block is a two-byte identifier, the inner
  data and a two-byte CRC. What the product's storage promises is the locale \<open>nv_medium\<close>, and \<open>nv_checked\<close> if it checks what it reads;
  that data written with \<^verbatim>\<open>nexus_nv_update\<close> come back from \<^verbatim>\<open>nexus_nv_read\<close> is proved in it.
\<close>

section \<open>The code\<close>

abbreviation (input) NEXUS_NV_BLOCK_ID_WIDTH :: nat where "NEXUS_NV_BLOCK_ID_WIDTH \<equiv> 2"
abbreviation (input) NEXUS_NV_BLOCK_CRC_WIDTH :: nat where "NEXUS_NV_BLOCK_CRC_WIDTH \<equiv> 2"
abbreviation (input) NEXUS_NV_BLOCK_WRAPPER_SIZE_BYTES :: nat where "NEXUS_NV_BLOCK_WRAPPER_SIZE_BYTES \<equiv> 4"
abbreviation (input) NX_COMMON_NV_MAX_BLOCK_LENGTH :: nat where "NX_COMMON_NV_MAX_BLOCK_LENGTH \<equiv> 40"

definition NX_NV_BLOCK_KEYCODE_MAS :: nx_common_nv_block_meta where
  "NX_NV_BLOCK_KEYCODE_MAS = \<lparr>block_id = 0, block_length = 8\<rparr>"

definition NX_NV_BLOCK_KEYCODE_PRO :: nx_common_nv_block_meta where
  "NX_NV_BLOCK_KEYCODE_PRO = \<lparr>block_id = 1, block_length = 16\<rparr>"

definition nexus_nv_compute_crc :: "nx_common_nv_block_meta \<Rightarrow> bytes \<Rightarrow> u16" where
  "nexus_nv_compute_crc block_meta full_block_data =
     compute_crc_ccitt full_block_data (block_length block_meta - 2)"

definition nx_common_nv_block_valid :: "nx_common_nv_block_meta \<Rightarrow> bytes \<Rightarrow> bool" where
  "nx_common_nv_block_valid block_meta full_block_data =
     (if u16_le (block_id block_meta) \<noteq> take NEXUS_NV_BLOCK_ID_WIDTH full_block_data then False
      else
        let crc_start = drop (unat (block_length block_meta) - NEXUS_NV_BLOCK_CRC_WIDTH) full_block_data;
            computed_crc = nexus_nv_compute_crc block_meta full_block_data
        in u16_le computed_crc = take NEXUS_NV_BLOCK_CRC_WIDTH crc_start)"

definition nexus_nv_update ::
    "'p nexus_env \<Rightarrow> nx_common_nv_block_meta \<Rightarrow> bytes \<Rightarrow> 'p \<Rightarrow> bool \<times> 'p" where
  "nexus_nv_update e block_meta inner_data p =
     (let existing_block = replicate NX_COMMON_NV_MAX_BLOCK_LENGTH 0;
          inner_data_size = unat (block_length block_meta - 4)
      in case nxp_common_nv_read e block_meta existing_block p of (found, existing_block) \<Rightarrow>
         if found \<and> take inner_data_size (drop NEXUS_NV_BLOCK_ID_WIDTH existing_block) =
                    take inner_data_size inner_data
         then (True, p)
         else
           let new_block = replicate NX_COMMON_NV_MAX_BLOCK_LENGTH 0;
               new_block = memcpy_at 0 (u16_le (block_id block_meta)) new_block;
               new_block = memcpy_at NEXUS_NV_BLOCK_ID_WIDTH (take inner_data_size inner_data) new_block;
               new_crc = compute_crc_ccitt new_block (block_length block_meta - 2);
               new_block = memcpy_at (NEXUS_NV_BLOCK_ID_WIDTH + inner_data_size) (u16_le new_crc) new_block
           in nxp_common_nv_write e block_meta new_block p)"

text \<open>The new contents of \<^verbatim>\<open>inner_data\<close> are returned with the result.\<close>

definition nexus_nv_read ::
    "'p nexus_env \<Rightarrow> nx_common_nv_block_meta \<Rightarrow> bytes \<Rightarrow> 'p \<Rightarrow> bool \<times> bytes" where
  "nexus_nv_read e block_meta inner_data p =
     (case nxp_common_nv_read e block_meta (replicate NX_COMMON_NV_MAX_BLOCK_LENGTH 0) p of (_, block) \<Rightarrow>
        if nx_common_nv_block_valid block_meta block
        then (True, memcpy_at 0 (take (unat (block_length block_meta - 4))
                      (drop NEXUS_NV_BLOCK_ID_WIDTH block)) inner_data)
        else (False, inner_data))"

section \<open>Blocks\<close>

definition meta_wf :: "nx_common_nv_block_meta \<Rightarrow> bool" where
  "meta_wf m \<longleftrightarrow> 4 < unat (block_length m) \<and> unat (block_length m) \<le> NX_COMMON_NV_MAX_BLOCK_LENGTH"

definition nv_inner_size :: "nx_common_nv_block_meta \<Rightarrow> nat" where
  "nv_inner_size m = unat (block_length m) - 4"

text \<open>The block that wraps given inner data.\<close>

definition nv_body :: "nx_common_nv_block_meta \<Rightarrow> bytes \<Rightarrow> bytes" where
  "nv_body m inner = u16_le (block_id m) @ take (nv_inner_size m) inner"

definition nv_block :: "nx_common_nv_block_meta \<Rightarrow> bytes \<Rightarrow> bytes" where
  "nv_block m inner = nv_body m inner @ u16_le (crc_ccitt_loop (nv_body m inner) 0xffff)"

lemma meta_wf_keycode [simp]: "meta_wf NX_NV_BLOCK_KEYCODE_MAS" "meta_wf NX_NV_BLOCK_KEYCODE_PRO"
  by (simp_all add: meta_wf_def NX_NV_BLOCK_KEYCODE_MAS_def NX_NV_BLOCK_KEYCODE_PRO_def)

lemma nv_inner_size_keycode [simp]:
  "nv_inner_size NX_NV_BLOCK_KEYCODE_MAS = 4" "nv_inner_size NX_NV_BLOCK_KEYCODE_PRO = 12"
  by (simp_all add: nv_inner_size_def NX_NV_BLOCK_KEYCODE_MAS_def NX_NV_BLOCK_KEYCODE_PRO_def)

lemma meta_wf_length:
  "meta_wf m \<Longrightarrow> unat (block_length m) = nv_inner_size m + 4" "meta_wf m \<Longrightarrow> nv_inner_size m \<le> 36"
  by (auto simp: meta_wf_def nv_inner_size_def)

lemma unat_block_length_minus:
  assumes "meta_wf m"
  shows "unat (block_length m - 4) = nv_inner_size m" "unat (block_length m - 2) = nv_inner_size m + 2"
  using meta_wf_length [OF assms] by (simp_all add: unat_sub word_le_nat_alt)

lemma length_nv_body:
  "nv_inner_size m \<le> length inner \<Longrightarrow> length (nv_body m inner) = nv_inner_size m + 2"
  by (simp add: nv_body_def)

lemma length_nv_block:
  "meta_wf m \<Longrightarrow> nv_inner_size m \<le> length inner \<Longrightarrow> length (nv_block m inner) = unat (block_length m)"
  by (simp add: nv_block_def length_nv_body meta_wf_length)

lemma nv_block_valid:
  assumes "meta_wf m" "nv_inner_size m \<le> length inner"
  shows "nx_common_nv_block_valid m (nv_block m inner @ rest)"
proof -
  have "unat (block_length m) - 2 = nv_inner_size m + 2"
    using meta_wf_length(1) [OF assms(1)] by simp
  then show ?thesis
    using assms length_nv_body [OF assms(2)]
    by (simp add: nx_common_nv_block_valid_def nexus_nv_compute_crc_def compute_crc_ccitt_def
        unat_block_length_minus nv_block_def) (simp add: nv_body_def)
qed

lemma nv_block_inner:
  assumes "meta_wf m" "nv_inner_size m \<le> length inner"
  shows "take (nv_inner_size m) (drop 2 (nv_block m inner @ rest)) = take (nv_inner_size m) inner"
  using assms by (simp add: nv_block_def nv_body_def)

text \<open>A valid block is the one its inner data determine.\<close>

lemma nv_valid_block_eq:
  assumes wf: "meta_wf m" and len: "unat (block_length m) \<le> length b"
    and v: "nx_common_nv_block_valid m b"
  shows "take (unat (block_length m)) b = nv_block m (drop 2 b)"
proof -
  let ?n = "nv_inner_size m"
  have L: "unat (block_length m) = ?n + 4" using wf by (rule meta_wf_length)
  have idb: "u16_le (block_id m) = take 2 b"
    and crc: "u16_le (compute_crc_ccitt b (block_length m - 2)) = take 2 (drop (?n + 2) b)"
    using v by (auto simp: nx_common_nv_block_valid_def nexus_nv_compute_crc_def Let_def L split: if_splits)
  have body: "nv_body m (drop 2 b) = take (?n + 2) b"
    using take_add [of 2 ?n b] by (simp add: nv_body_def idb add.commute)
  have "take (?n + 4) b = take (?n + 2) b @ take 2 (drop (?n + 2) b)"
    using take_add [of "?n + 2" 2 b] by (simp only: add.assoc) simp
  moreover have "compute_crc_ccitt b (block_length m - 2) = crc_ccitt_loop (take (?n + 2) b) 0xffff"
    using wf by (simp add: compute_crc_ccitt_def unat_block_length_minus)
  ultimately show ?thesis using crc by (simp add: L nv_block_def body)
qed

text \<open>\<^verbatim>\<open>nexus_nv_update\<close> writes the block of its data, zero padded.\<close>

lemma nexus_nv_update_writes:
  assumes wf: "meta_wf m" and inner: "nv_inner_size m \<le> length inner"
  shows "nexus_nv_update e m inner p =
    (case nxp_common_nv_read e m (replicate 40 0) p of (found, b) \<Rightarrow>
      if found \<and> take (nv_inner_size m) (drop 2 b) = take (nv_inner_size m) inner then (True, p)
      else nxp_common_nv_write e m (nv_block m inner @ replicate (40 - unat (block_length m)) 0) p)"
proof -
  let ?n = "nv_inner_size m"
  have L: "unat (block_length m) = ?n + 4" and n: "?n \<le> 36"
    using wf by (simp_all only: meta_wf_length)
  have b0: "memcpy_at 0 (u16_le (block_id m)) (replicate 40 0) = u16_le (block_id m) @ replicate 38 0"
    by (simp add: memcpy_at_def drop_replicate)
  have b1: "memcpy_at 2 (take ?n inner) (u16_le (block_id m) @ replicate 38 0) =
      nv_body m inner @ replicate (38 - ?n) 0"
    using inner by (simp add: memcpy_at_def nv_body_def drop_replicate)
  have c: "compute_crc_ccitt (nv_body m inner @ replicate (38 - ?n) 0) (block_length m - 2) =
      crc_ccitt_loop (nv_body m inner) 0xffff"
    using inner by (simp add: compute_crc_ccitt_def unat_block_length_minus [OF wf] length_nv_body)
  have b2: "memcpy_at (2 + ?n) (u16_le w) (nv_body m inner @ replicate (38 - ?n) 0) =
      nv_body m inner @ u16_le w @ replicate (40 - unat (block_length m)) 0" for w
    using inner n by (simp add: memcpy_at_def length_nv_body drop_replicate L numeral_eq_Suc)
  show ?thesis
    unfolding nexus_nv_update_def Let_def unat_block_length_minus [OF wf] b0 b1 c b2 nv_block_def append_assoc
    by (rule refl)
qed

section \<open>What the storage promises\<close>

text \<open>
  Documented behaviour of the product's storage functions: a read leaves the buffer's length
  alone, it returns the block last written, and writing one block leaves blocks
  with another identifier alone. \<open>ok\<close> is the storage's own invariant. What a read returns of a block that
  was damaged after it was written is left open.
\<close>

text \<open>
  The storage holds a damaged block whose data are the ones to be written. An update compares the data only, and leaves the block as it is.
\<close>

definition nv_damaged_copy :: "'p nexus_env \<Rightarrow> nx_common_nv_block_meta \<Rightarrow> bytes \<Rightarrow> 'p \<Rightarrow> bool" where
  "nv_damaged_copy e m inner p = (case nxp_common_nv_read e m (replicate 40 0) p of (found, b) \<Rightarrow>
     found \<and> take (nv_inner_size m) (drop 2 b) = inner \<and> \<not> nx_common_nv_block_valid m b)"

locale nv_medium =
  fixes e :: "'p nexus_env" and ok :: "'p \<Rightarrow> bool"
  assumes read_length: "ok p \<Longrightarrow> meta_wf m \<Longrightarrow> length buf = 40 \<Longrightarrow>
      length (snd (nxp_common_nv_read e m buf p)) = 40"
    and write_read: "ok p \<Longrightarrow> meta_wf m \<Longrightarrow> nx_common_nv_block_valid m blk \<Longrightarrow> length blk = 40 \<Longrightarrow>
      length buf = 40 \<Longrightarrow> nxp_common_nv_write e m blk p = (True, p') \<Longrightarrow>
      nxp_common_nv_read e m buf p' = (True, memcpy_at 0 (take (unat (block_length m)) blk) buf)"
    and write_other: "ok p \<Longrightarrow> meta_wf m \<Longrightarrow> meta_wf m' \<Longrightarrow> block_id m' \<noteq> block_id m \<Longrightarrow> length blk = 40 \<Longrightarrow>
      nxp_common_nv_read e m' buf (snd (nxp_common_nv_write e m blk p)) = nxp_common_nv_read e m' buf p"
    and write_ok: "ok p \<Longrightarrow> meta_wf m \<Longrightarrow> length blk = 40 \<Longrightarrow> ok (snd (nxp_common_nv_write e m blk p))"
begin

lemma update_ok:
  "ok p \<Longrightarrow> meta_wf m \<Longrightarrow> nv_inner_size m \<le> length inner \<Longrightarrow> ok (snd (nexus_nv_update e m inner p))"
  using write_ok [of p m] length_nv_block [of m inner]
  by (auto simp: nexus_nv_update_writes meta_wf_def split: prod.splits)

text \<open>After an update that reports success, reading gives back the data, except in the one case above, in which nothing is read.\<close>

lemma update_read:
  assumes ok: "ok p" and wf: "meta_wf m" and len: "length inner = nv_inner_size m" "length buf = nv_inner_size m"
    and upd: "nexus_nv_update e m inner p = (True, p')"
  shows "nexus_nv_read e m buf p' = (if nv_damaged_copy e m inner p then (False, buf) else (True, inner))"
proof -
  let ?z = "replicate 40 0" and ?n = "nv_inner_size m"
  obtain found b where r: "nxp_common_nv_read e m ?z p = (found, b)" by fastforce
  have cp: "memcpy_at 0 inner buf = inner" using len by (simp add: memcpy_at_def)
  show ?thesis
  proof (cases "found \<and> take ?n (drop 2 b) = inner")
    case True
    then have "p' = p" using upd len by (simp add: nexus_nv_update_writes [OF wf] r)
    then show ?thesis
      using True r cp by (simp add: nexus_nv_read_def nv_damaged_copy_def unat_block_length_minus [OF wf])
  next
    case False
    let ?blk = "nv_block m inner @ replicate (40 - unat (block_length m)) 0"
    have w: "nxp_common_nv_write e m ?blk p = (True, p')"
      using upd False len by (simp add: nexus_nv_update_writes [OF wf] r split: if_splits)
    have L: "length (nv_block m inner) = unat (block_length m)" using length_nv_block [OF wf] len by simp
    then have L40: "length ?blk = 40" using wf by (simp add: meta_wf_def)
    have "nxp_common_nv_read e m ?z p' = (True, memcpy_at 0 (take (unat (block_length m)) ?blk) ?z)"
      using write_read [OF ok wf nv_block_valid [OF wf] L40 _ w] len by simp
    moreover have "memcpy_at 0 (take (unat (block_length m)) ?blk) ?z = ?blk"
      using L wf by (simp add: memcpy_at_def meta_wf_def drop_replicate)
    ultimately have "nexus_nv_read e m buf p' = (True, inner)"
      using nv_block_valid [OF wf, of inner] nv_block_inner [OF wf, of inner] len cp
      by (simp only: nexus_nv_read_def unat_block_length_minus [OF wf] prod.case order_refl if_True
          take_all)
    moreover have "\<not> nv_damaged_copy e m inner p" using False by (auto simp: nv_damaged_copy_def r)
    ultimately show ?thesis by simp
  qed
qed

lemma update_read_other:
  assumes "ok p" "meta_wf m" "meta_wf m'" "block_id m' \<noteq> block_id m" "nv_inner_size m \<le> length inner"
  shows "nexus_nv_read e m' buf (snd (nexus_nv_update e m inner p)) = nexus_nv_read e m' buf p"
  using assms write_other [of p m m' "nv_block m inner @ replicate (40 - unat (block_length m)) 0"]
    length_nv_block [of m inner]
  by (auto simp: nexus_nv_read_def nexus_nv_update_writes meta_wf_def split: prod.splits)

text \<open>A successful read fills the buffer, a failed one leaves it alone.\<close>

lemma nv_read_cases:
  assumes "ok p" "meta_wf m" "length buf = nv_inner_size m" "length buf' = nv_inner_size m"
  shows "(\<exists>b. length b = nv_inner_size m \<and> nexus_nv_read e m buf p = (True, b) \<and> nexus_nv_read e m buf' p = (True, b)) \<or>
    nexus_nv_read e m buf p = (False, buf) \<and> nexus_nv_read e m buf' p = (False, buf')"
proof -
  obtain found b where r: "nxp_common_nv_read e m (replicate 40 0) p = (found, b)" by fastforce
  have l: "length b = 40" using read_length [OF assms(1,2), of "replicate 40 0"] r by simp
  have "nv_inner_size m \<le> 36" using meta_wf_length [OF assms(2)] by simp
  then show ?thesis
    using assms l by (simp add: nexus_nv_read_def r unat_block_length_minus memcpy_at_def)
qed

end

text \<open>
  Storage that checks what it returns with \<^verbatim>\<open>nx_common_nv_block_valid\<close>, which the library offers to products for that, as the
  desktop sample program does.
\<close>

locale nv_checked = nv_medium +
  assumes read_valid: "ok p \<Longrightarrow> meta_wf m \<Longrightarrow> nxp_common_nv_read e m buf p = (True, b) \<Longrightarrow>
      length buf = 40 \<Longrightarrow> nx_common_nv_block_valid m b"
begin

lemma update_read_back:
  assumes "ok p" "meta_wf m" "length inner = nv_inner_size m" "length buf = nv_inner_size m"
    and "nexus_nv_update e m inner p = (True, p')"
  shows "nexus_nv_read e m buf p' = (True, inner)"
proof -
  have "\<not> nv_damaged_copy e m inner p"
    using read_valid [OF assms(1,2), of "replicate 40 0"] by (auto simp: nv_damaged_copy_def)
  then show ?thesis using update_read [OF assms] by simp
qed

end

text \<open>Storage on which writes succeed, and product callbacks that leave library blocks alone.\<close>

locale nv_reliable = nv_checked +
  assumes write_succeeds: "ok p \<Longrightarrow> meta_wf m \<Longrightarrow> length blk = 40 \<Longrightarrow> fst (nxp_common_nv_write e m blk p)"
begin

lemma update_succeeds:
  "ok p \<Longrightarrow> meta_wf m \<Longrightarrow> nv_inner_size m \<le> length inner \<Longrightarrow> fst (nexus_nv_update e m inner p)"
  using write_succeeds [of p m] length_nv_block [of m inner]
  by (auto simp: nexus_nv_update_writes meta_wf_def split: prod.splits)

lemma update_then_read:
  assumes "ok p" "meta_wf m" "length inner = nv_inner_size m" "length buf = nv_inner_size m"
  shows "nexus_nv_read e m buf (snd (nexus_nv_update e m inner p)) = (True, inner)"
proof (rule update_read_back [OF assms])
  show "nexus_nv_update e m inner p = (True, snd (nexus_nv_update e m inner p))"
    by (rule prod_eqI) (simp_all add: update_succeeds assms)
qed

end

definition nv_transparent :: "'p nexus_env \<Rightarrow> ('p \<Rightarrow> bool) \<Rightarrow> ('p \<Rightarrow> 'p) \<Rightarrow> bool" where
  "nv_transparent e ok f \<longleftrightarrow> (\<forall>p. ok p \<longrightarrow> ok (f p) \<and>
     (\<forall>m buf. meta_wf m \<longrightarrow> nexus_nv_read e m buf (f p) = nexus_nv_read e m buf p))"

locale product_port = nv_reliable +
  assumes callbacks_transparent:
    "nv_transparent e ok (nxp_common_request_processing e)"
    "nv_transparent e ok (\<lambda>p. snd (nxp_keycode_feedback_start e t p))"
    "nv_transparent e ok (\<lambda>p. snd (nxp_keycode_payg_credit_add e c p))"
    "nv_transparent e ok (\<lambda>p. snd (nxp_keycode_payg_credit_set e c p))"
    "nv_transparent e ok (\<lambda>p. snd (nxp_keycode_payg_credit_unlock e p))"
    "nv_transparent e ok (nxp_keycode_notify_custom_flag_changed e flag v)"
    "nv_transparent e ok (\<lambda>p. snd (nxp_keycode_passthrough_keycode e keys len p))"

section \<open>Properties\<close>

text \<open>C28. A nonvolatile block that differs from a valid one in a single byte, be it of the
  identifier, the data or the CRC, is rejected.\<close>

theorem nv_corrupted_byte_rejected:
  assumes "meta_wf m" and "unat (block_length m) \<le> length b" and "nx_common_nv_block_valid m b"
    and "i < unat (block_length m)" and "b ! i \<noteq> v"
  shows "\<not> nx_common_nv_block_valid m (b[i := v])"
proof
  assume v': "nx_common_nv_block_valid m (b[i := v])"
  let ?n = "nv_inner_size m" and ?L = "unat (block_length m)"
  let ?b = "b[i := v]"
  have L: "?L = ?n + 4" using assms(1) by (rule meta_wf_length)
  have crc: "u16_le (compute_crc_ccitt d (block_length m - 2)) = take 2 (drop (?n + 2) d)"
    if "nx_common_nv_block_valid m d" for d
    using that by (auto simp: nx_common_nv_block_valid_def nexus_nv_compute_crc_def Let_def L split: if_splits)
  show False
  proof (cases "i < ?n + 2")
    case True
    then have "take 2 (drop (?n + 2) ?b) = take 2 (drop (?n + 2) b)" by simp
    then have "compute_crc_ccitt ?b (block_length m - 2) = compute_crc_ccitt b (block_length m - 2)"
      using crc [OF assms(3)] crc [OF v'] by (metis u16_le_inject)
    moreover have "i < unat (block_length m - 2)" using True by (simp add: unat_block_length_minus [OF assms(1)])
    moreover have "i < length b" using assms(2,4) by simp
    ultimately show False using compute_crc_ccitt_update [of i "block_length m - 2" b v] assms(5) by simp
  next
    case False
    then have "take (?n + 2) ?b = take (?n + 2) b" by simp
    then have "compute_crc_ccitt ?b (block_length m - 2) = compute_crc_ccitt b (block_length m - 2)"
      by (simp add: compute_crc_ccitt_def unat_block_length_minus [OF assms(1)])
    then have "take 2 (drop (?n + 2) ?b) = take 2 (drop (?n + 2) b)"
      using crc [OF assms(3)] crc [OF v'] by simp
    then have "take 2 (drop (?n + 2) ?b) ! (i - (?n + 2)) = take 2 (drop (?n + 2) b) ! (i - (?n + 2))" by simp
    moreover have "?n + 2 + (i - (?n + 2)) = i" using False by simp
    ultimately show False using False assms(2,4,5) by (simp add: L del: add_2_eq_Suc')
  qed
qed

theorem nv_corrupted_byte_rejected_witness:
  "\<not> nx_common_nv_block_valid NX_NV_BLOCK_KEYCODE_MAS
     ((nv_block NX_NV_BLOCK_KEYCODE_MAS [6, 0, 0, 0])[2 := 7])"
proof (rule nv_corrupted_byte_rejected)
  let ?m = NX_NV_BLOCK_KEYCODE_MAS and ?b = "nv_block NX_NV_BLOCK_KEYCODE_MAS [6, 0, 0, 0]"
  show "meta_wf ?m" by simp
  have len: "length ?b = unat (block_length ?m)" by (rule length_nv_block) simp_all
  then show "unat (block_length ?m) \<le> length ?b" by simp
  show "nx_common_nv_block_valid ?m ?b" using nv_block_valid [of ?m "[6, 0, 0, 0]" "[]"] by simp
  show "2 < unat (block_length ?m)" by (simp add: NX_NV_BLOCK_KEYCODE_MAS_def)
  show "?b ! 2 \<noteq> 7" by (simp add: nv_block_def nv_body_def u16_le_def)
qed

end
