(* ===== verification/Sample_Product.thy ===== *)
theory Sample_Product
  imports Nexus_Nv
begin

text \<open>
  The product side of the library as the desktop sample program implements it
  (\<^verbatim>\<open>nexus/examples/desktop_sample_program/src\<close>): nonvolatile storage as a log file to which
  blocks are appended (\<^verbatim>\<open>nonvol.c\<close>), PAYG credit (\<^verbatim>\<open>payg_state.c\<close>), identity and keycode
  callbacks. The log is shown to keep the promises of the locales \<open>nv_medium\<close> and \<open>nv_checked\<close>. Of POSIX files
  the model has the bytes of the file and whether it can be opened; console output is left out.
\<close>

section \<open>Nonvolatile storage: \<^verbatim>\<open>nonvol.c\<close>\<close>

record product =
  nv_file :: bytes
  nv_file_opens :: bool
  payg_credit :: u32
  payg_is_unlocked :: u16
  last_payg_state :: bool
  stored_serial_id :: u32
  stored_secret_key :: bytes
  nx_processing_requested :: bool

abbreviation (input) BLOCK_SENTINEL_NX :: u8 where "BLOCK_SENTINEL_NX \<equiv> 110"
abbreviation (input) BLOCK_SENTINEL_PROD :: u8 where "BLOCK_SENTINEL_PROD \<equiv> 112"
abbreviation (input) PROD_PAYG_STATE_BLOCK_ID :: u16 where "PROD_PAYG_STATE_BLOCK_ID \<equiv> 0"
abbreviation (input) PROD_IDENTITY_BLOCK_ID :: u16 where "PROD_IDENTITY_BLOCK_ID \<equiv> 1"

text \<open>\<open>nv_write sentinel id length buffer\<close>; a file that opens takes the whole record.\<close>

definition nv_write :: "u8 \<Rightarrow> u16 \<Rightarrow> u8 \<Rightarrow> bytes \<Rightarrow> product \<Rightarrow> bool \<times> product" where
  "nv_write block_sentinel bid blen write_buffer p =
     (if \<not> nv_file_opens p then (False, p)
      else (True, p\<lparr>nv_file := nv_file p @ [block_sentinel] @ u16_le bid @ [blen] @
                     take (unat blen) write_buffer\<rparr>))"

text \<open>
  The reading loop: it goes through the records in the file, keeps the data of the last one
  that matches and leaves at the end of the file or at an incomplete record.
\<close>

function (sequential) nv_read_loop :: "u8 \<Rightarrow> u16 \<Rightarrow> u8 \<Rightarrow> bytes \<Rightarrow> bool \<times> bytes \<Rightarrow> bool \<times> bytes" where
  "nv_read_loop block_sentinel bid blen [] acc = acc"
| "nv_read_loop block_sentinel bid blen (cur_block_sentinel # f) (success, read_buffer) =
     (if length f < 2 then (success, read_buffer)
      else let cur_block_id = le_u16 f; f = drop 2 f
        in if f = [] then (success, read_buffer)
           else let cur_block_length = hd f; f = tl f
             in if length f < unat cur_block_length then (success, read_buffer)
                else let block = take (unat cur_block_length) f; f = drop (unat cur_block_length) f
                  in if cur_block_sentinel = block_sentinel \<and> cur_block_id = bid \<and> cur_block_length = blen
                     then nv_read_loop block_sentinel bid blen f (True, memcpy_at 0 block read_buffer)
                     else nv_read_loop block_sentinel bid blen f (success, read_buffer))"
  by pat_completeness auto
termination
  by (relation "measure (\<lambda>(_, _, _, f, _). length f)") auto

definition nv_read :: "u8 \<Rightarrow> u16 \<Rightarrow> u8 \<Rightarrow> bytes \<Rightarrow> product \<Rightarrow> bool \<times> bytes" where
  "nv_read block_sentinel bid blen read_buffer p =
     (if \<not> nv_file_opens p then (False, read_buffer)
      else nv_read_loop block_sentinel bid blen (nv_file p) (False, read_buffer))"

definition sample_nv_write :: "nx_common_nv_block_meta \<Rightarrow> bytes \<Rightarrow> product \<Rightarrow> bool \<times> product" where
  "sample_nv_write m write_buffer p =
     nv_write BLOCK_SENTINEL_NX (block_id m) (block_length m) write_buffer p"

text \<open>\<open>junk\<close> is what the uninitialised intermediate buffer of \<^verbatim>\<open>nxp_common_nv_read\<close> holds.\<close>

definition sample_nv_read ::
    "(nat \<Rightarrow> u8) \<Rightarrow> nx_common_nv_block_meta \<Rightarrow> bytes \<Rightarrow> product \<Rightarrow> bool \<times> bytes" where
  "sample_nv_read junk m read_buffer p =
     (let intermediate_read_buffer = map junk [0..<NX_COMMON_NV_MAX_BLOCK_LENGTH]
      in case nv_read BLOCK_SENTINEL_NX (block_id m) (block_length m) intermediate_read_buffer p of
        (found, intermediate_read_buffer) \<Rightarrow>
          if found \<and> nx_common_nv_block_valid m intermediate_read_buffer
          then (True, memcpy_at 0 (take (unat (block_length m)) intermediate_read_buffer) read_buffer)
          else (False, read_buffer))"

section \<open>PAYG state: \<^verbatim>\<open>payg_state.c\<close>\<close>

text \<open>\<^verbatim>\<open>struct payg_state_struct\<close> is packed: four bytes of credit, two of the unlock flag.\<close>

definition payg_state_bytes :: "product \<Rightarrow> bytes" where
  "payg_state_bytes p = u32_le (payg_credit p) @ u16_le (payg_is_unlocked p)"

definition prod_nv_read_payg_state :: "u8 \<Rightarrow> bytes \<Rightarrow> product \<Rightarrow> bool \<times> bytes" where
  "prod_nv_read_payg_state len read_buffer p =
     nv_read BLOCK_SENTINEL_PROD PROD_PAYG_STATE_BLOCK_ID len read_buffer p"

definition prod_nv_write_payg_state :: "u8 \<Rightarrow> bytes \<Rightarrow> product \<Rightarrow> bool \<times> product" where
  "prod_nv_write_payg_state len write_buffer p =
     nv_write BLOCK_SENTINEL_PROD PROD_PAYG_STATE_BLOCK_ID len write_buffer p"

definition payg_state_update_nv :: "product \<Rightarrow> product" where
  "payg_state_update_nv p = snd (prod_nv_write_payg_state 6 (payg_state_bytes p) p)"

definition payg_state_init :: "product \<Rightarrow> product" where
  "payg_state_init p =
     (case prod_nv_read_payg_state 6 (payg_state_bytes p) p of (valid_payg_state, b) \<Rightarrow>
        let p = p\<lparr>payg_credit := le_u32 b, payg_is_unlocked := le_u16 (drop 4 b)\<rparr>
        in if valid_payg_state then p
           else let p = p\<lparr>payg_credit := 0, payg_is_unlocked := 0\<rparr>
             in snd (prod_nv_write_payg_state 6 (payg_state_bytes p) p))"

definition sample_payg_state_get_current :: "product \<Rightarrow> nxp_common_payg_state" where
  "sample_payg_state_get_current p =
     (if payg_is_unlocked p \<noteq> 0 then NXP_COMMON_PAYG_STATE_UNLOCKED
      else if payg_credit p > 0 then NXP_COMMON_PAYG_STATE_ENABLED
      else NXP_COMMON_PAYG_STATE_DISABLED)"

definition payg_state_value :: "nxp_common_payg_state \<Rightarrow> nat" where
  "payg_state_value st = (case st of NXP_COMMON_PAYG_STATE_DISABLED \<Rightarrow> 0
     | NXP_COMMON_PAYG_STATE_ENABLED \<Rightarrow> 1 | NXP_COMMON_PAYG_STATE_UNLOCKED \<Rightarrow> 2)"

definition sample_request_processing :: "product \<Rightarrow> product" where
  "sample_request_processing p = p\<lparr>nx_processing_requested := True\<rparr>"

text \<open>\<^verbatim>\<open>last_payg_state\<close> is a \<^verbatim>\<open>bool\<close>, compared with and assigned from the enumeration.\<close>

definition update_payg_state :: "bool \<Rightarrow> u32 \<Rightarrow> product \<Rightarrow> bool \<times> product" where
  "update_payg_state is_unlocked credit p =
     (let p = p\<lparr>payg_is_unlocked := of_bool is_unlocked, payg_credit := credit\<rparr>;
          current_payg_state = sample_payg_state_get_current p;
          p = (if of_bool (last_payg_state p) \<noteq> payg_state_value current_payg_state
               then (sample_request_processing p)\<lparr>last_payg_state := payg_state_value current_payg_state \<noteq> 0\<rparr>
               else p)
      in (True, payg_state_update_nv p))"

definition sample_payg_credit_add :: "u32 \<Rightarrow> product \<Rightarrow> bool \<times> product" where
  "sample_payg_credit_add credit p =
     update_payg_state (payg_is_unlocked p \<noteq> 0) (payg_credit p + credit) p"

definition sample_payg_credit_set :: "u32 \<Rightarrow> product \<Rightarrow> bool \<times> product" where
  "sample_payg_credit_set credit p = update_payg_state False credit p"

definition sample_payg_credit_unlock :: "product \<Rightarrow> bool \<times> product" where
  "sample_payg_credit_unlock p = update_payg_state True 0 p"

definition payg_state_consume_credit :: "u32 \<Rightarrow> product \<Rightarrow> product" where
  "payg_state_consume_credit amount p =
     (let credit = (if amount \<le> payg_credit p then payg_credit p - amount else 0)
      in snd (update_payg_state (payg_is_unlocked p \<noteq> 0) credit p))"

section \<open>Callbacks: \<^verbatim>\<open>identity.c\<close>, \<^verbatim>\<open>feedback.c\<close>, \<^verbatim>\<open>keycode.c\<close>\<close>

text \<open>The verdict of \<^verbatim>\<open>nxp_keycode_feedback_start\<close>; what it prints is left out.\<close>

definition sample_feedback_start :: "nxp_keycode_feedback_type \<Rightarrow> product \<Rightarrow> bool \<times> product" where
  "sample_feedback_start f p =
     (f \<in> {FEEDBACK_TYPE_MESSAGE_INVALID, FEEDBACK_TYPE_MESSAGE_APPLIED, FEEDBACK_TYPE_MESSAGE_VALID,
           FEEDBACK_TYPE_KEY_REJECTED, FEEDBACK_TYPE_DISPLAY_SERIAL_ID}, p)"

text \<open>
  \<open>origin_command\<close> is \<^verbatim>\<open>nx_channel_handle_origin_command\<close> for ASCII digits, whose result the
  sample ignores.
\<close>

definition sample_passthrough_keycode ::
    "(bytes \<Rightarrow> u8 \<Rightarrow> product \<Rightarrow> product) \<Rightarrow> bytes \<Rightarrow> u8 \<Rightarrow> product \<Rightarrow>
     nxp_keycode_passthrough_error \<times> product" where
  "sample_passthrough_keycode origin_command keys len p =
     (let subtype_id = keys ! 0 - 0x30; l = len - 1
      in if subtype_id = 1 then (PASSTHROUGH_ERROR_NONE, origin_command (tl keys) l p)
         else (PASSTHROUGH_ERROR_DATA_UNRECOGNIZED, p))"

definition sample_env ::
    "keycode_config \<Rightarrow> (nat \<Rightarrow> u8) \<Rightarrow> (bytes \<Rightarrow> u8 \<Rightarrow> product \<Rightarrow> product) \<Rightarrow> product nexus_env" where
  "sample_env c junk origin_command = \<lparr>config = c,
     nxp_common_nv_read = sample_nv_read junk, nxp_common_nv_write = sample_nv_write,
     nxp_common_request_processing = sample_request_processing,
     nxp_common_payg_state_get_current = sample_payg_state_get_current,
     nxp_keycode_feedback_start = sample_feedback_start,
     nxp_keycode_payg_credit_add = sample_payg_credit_add,
     nxp_keycode_payg_credit_set = sample_payg_credit_set,
     nxp_keycode_payg_credit_unlock = sample_payg_credit_unlock,
     nxp_keycode_get_secret_key = stored_secret_key,
     nxp_keycode_get_user_facing_id = stored_serial_id,
     nxp_keycode_notify_custom_flag_changed = (\<lambda>flag value p. p),
     nxp_keycode_passthrough_keycode = sample_passthrough_keycode origin_command,
     uninit = junk\<rparr>"

section \<open>The log keeps its records\<close>

definition nv_record :: "u8 \<Rightarrow> u16 \<Rightarrow> bytes \<Rightarrow> bytes" where
  "nv_record snt bid data = [snt] @ u16_le bid @ [word_of_nat (length data)] @ data"

definition nv_log :: "(u8 \<times> u16 \<times> bytes) list \<Rightarrow> bytes" where
  "nv_log rs = concat (map (\<lambda>(snt, bid, data). nv_record snt bid data) rs)"

definition nv_log_ok :: "product \<Rightarrow> bool" where
  "nv_log_ok p \<longleftrightarrow> nv_file_opens p \<and>
     (\<exists>rs. nv_file p = nv_log rs \<and> (\<forall>(snt, bid, data) \<in> set rs. length data < 256))"

text \<open>What one record does to the result of a search.\<close>

definition nv_hit :: "u8 \<Rightarrow> u16 \<Rightarrow> u8 \<Rightarrow> u8 \<times> u16 \<times> bytes \<Rightarrow> bool \<times> bytes \<Rightarrow> bool \<times> bytes" where
  "nv_hit snt bid blen r acc = (case r of (snt', bid', data) \<Rightarrow>
     if snt' = snt \<and> bid' = bid \<and> word_of_nat (length data) = blen
     then (True, memcpy_at 0 data (snd acc)) else acc)"

lemma nv_read_loop_record:
  assumes "length data < 256"
  shows "nv_read_loop snt bid blen (nv_record snt' bid' data @ f) acc =
    nv_read_loop snt bid blen f (nv_hit snt bid blen (snt', bid', data) acc)"
proof -
  have n: "unat (word_of_nat (length data) :: u8) = length data"
    using assms by (simp add: unat_word_of_nat_small)
  show ?thesis
    by (cases acc) (simp add: nv_record_def nv_hit_def Let_def n le_u16_u16_le)
qed

lemma nv_read_loop_log:
  "\<forall>(snt, bid, data) \<in> set rs. length data < 256 \<Longrightarrow>
   nv_read_loop snt bid blen (nv_log rs @ f) acc =
   nv_read_loop snt bid blen f (fold (nv_hit snt bid blen) rs acc)"
proof (induction rs arbitrary: acc)
  case (Cons r rs)
  obtain a b d where r: "r = (a, b, d)" by (cases r)
  have "length d < 256" using Cons.prems by (simp add: r)
  from nv_read_loop_record [OF this] Cons show ?case by (simp add: r nv_log_def)
qed (simp add: nv_log_def)

lemma nv_read_log:
  assumes "nv_file_opens p" "nv_file p = nv_log rs" "\<forall>(snt, bid, data) \<in> set rs. length data < 256"
  shows "nv_read snt bid blen buf p = fold (nv_hit snt bid blen) rs (False, buf)"
  using nv_read_loop_log [OF assms(3), of snt bid blen "[]"] assms(1,2)
  by (simp add: nv_read_def)

lemma nv_write_log:
  assumes "nv_file_opens p" "nv_file p = nv_log rs" "unat blen \<le> length buf"
  shows "nv_write snt bid blen buf p =
    (True, p\<lparr>nv_file := nv_log (rs @ [(snt, bid, take (unat blen) buf)])\<rparr>)"
  using assms by (simp add: nv_write_def nv_log_def nv_record_def)

text \<open>Reading after writing: the new record hides older ones of its kind and no others.\<close>

lemma nv_write_read:
  assumes "nv_log_ok p" "unat blen \<le> length buf"
  shows "fst (nv_write snt bid blen buf p)" and "nv_log_ok (snd (nv_write snt bid blen buf p))"
    and "nv_read snt' bid' blen' buf' (snd (nv_write snt bid blen buf p)) =
      (if snt' = snt \<and> bid' = bid \<and> blen' = blen
       then (True, memcpy_at 0 (take (unat blen) buf) (snd (nv_read snt' bid' blen' buf' p)))
       else nv_read snt' bid' blen' buf' p)"
proof -
  obtain rs where rs: "nv_file_opens p" "nv_file p = nv_log rs" "\<forall>(snt, bid, data) \<in> set rs. length data < 256"
    using assms(1) by (auto simp: nv_log_ok_def)
  let ?r = "(snt, bid, take (unat blen) buf)"
  have len: "length (take (unat blen) buf) < 256" using assms(2) unat_u8_less [of blen] by simp
  have ok: "\<forall>(snt, bid, data) \<in> set (rs @ [?r]). length data < 256" using rs(3) len by auto
  note w = nv_write_log [OF rs(1,2) assms(2)]
  show "fst (nv_write snt bid blen buf p)" by (simp add: w)
  show "nv_log_ok (snd (nv_write snt bid blen buf p))"
    unfolding nv_log_ok_def w snd_conv using rs(1) ok
    by (intro conjI exI [of _ "rs @ [?r]"]) simp_all
  have "nv_read snt' bid' blen' buf' (p\<lparr>nv_file := nv_log (rs @ [?r])\<rparr>) =
      fold (nv_hit snt' bid' blen') (rs @ [?r]) (False, buf')"
    by (rule nv_read_log) (use rs(1) ok in simp_all)
  then have "nv_read snt' bid' blen' buf' (snd (nv_write snt bid blen buf p)) =
      nv_hit snt' bid' blen' ?r (nv_read snt' bid' blen' buf' p)"
    by (simp only: w snd_conv nv_read_log [OF rs] fold_append fold_simps comp_apply id_apply)
  moreover have "word_of_nat (length (take (unat blen) buf)) = blen" using assms(2) by simp
  ultimately show "nv_read snt' bid' blen' buf' (snd (nv_write snt bid blen buf p)) =
      (if snt' = snt \<and> bid' = bid \<and> blen' = blen
       then (True, memcpy_at 0 (take (unat blen) buf) (snd (nv_read snt' bid' blen' buf' p)))
       else nv_read snt' bid' blen' buf' p)"
    by (auto simp: nv_hit_def)
qed

lemma length_nv_read:
  assumes "nv_log_ok p" "unat blen \<le> length buf"
  shows "length (snd (nv_read snt bid blen buf p)) = length buf"
proof -
  obtain rs where rs: "nv_file_opens p" "nv_file p = nv_log rs" "\<forall>(snt, bid, data) \<in> set rs. length data < 256"
    using assms(1) by (auto simp: nv_log_ok_def)
  have "length (snd (fold (nv_hit snt bid blen) rs acc)) = length buf"
    if "length (snd acc) = length buf" "\<forall>(snt, bid, data) \<in> set rs. length data < 256" for acc
    using that
  proof (induction rs arbitrary: acc)
    case (Cons r rs)
    obtain a b d where r: "r = (a, b, d)" by (cases r)
    have "length d < 256" using Cons.prems by (simp add: r)
    then have "word_of_nat (length d) = blen \<Longrightarrow> length d \<le> length buf"
      using assms(2) unat_word_of_nat_small [of "length d", where 'a = 8] by auto
    then have "length (snd (nv_hit snt bid blen r acc)) = length buf"
      using Cons.prems(1) by (simp add: nv_hit_def r)
    then show ?case using Cons by simp
  qed simp
  then show ?thesis using rs by (simp add: nv_read_log)
qed

text \<open>A block's validity depends on its own bytes only.\<close>

lemma nv_block_valid_prefix:
  assumes "meta_wf m" "take (unat (block_length m)) b = take (unat (block_length m)) b'"
  shows "nx_common_nv_block_valid m b = nx_common_nv_block_valid m b'"
proof -
  note L = meta_wf_length(1) [OF assms(1)]
  have t: "take k b = take k b'" if "k \<le> nv_inner_size m + 4" for k
    using arg_cong [OF assms(2) [unfolded L], of "take k"] that by (simp add: min_def)
  have "take 2 (drop (nv_inner_size m + 2) b) = take 2 (drop (nv_inner_size m + 2) b')"
    using arg_cong [OF t [of "nv_inner_size m + 4"], of "drop (nv_inner_size m + 2)"]
    by (simp add: drop_take numeral_eq_Suc)
  then show ?thesis
    using t [of 2] t [of "nv_inner_size m + 2"]
    by (simp add: nx_common_nv_block_valid_def nexus_nv_compute_crc_def compute_crc_ccitt_def L
        unat_block_length_minus [OF assms(1)])
qed

lemma take_memcpy_at_0: "length src \<le> length buf \<Longrightarrow> take (length src) (memcpy_at 0 src buf) = src"
  by (simp add: memcpy_at_def)

lemma sample_nv_read_cases:
  assumes "nv_log_ok p" "meta_wf m"
  shows "length (snd (nv_read BLOCK_SENTINEL_NX (block_id m) (block_length m) (map junk [0..<40]) p)) = 40"
    and "unat (block_length m) \<le> 40"
  using length_nv_read [OF assms(1), of "block_length m" "map junk [0..<40]"] assms(2)
  by (auto simp: meta_wf_def)

interpretation sample: nv_medium "sample_env c junk origin_command" nv_log_ok
proof
  fix p m and buf :: bytes
  assume "nv_log_ok p" "meta_wf m" "length buf = 40"
  then show "length (snd (nxp_common_nv_read (sample_env c junk origin_command) m buf p)) = 40"
    using sample_nv_read_cases(1) [of p m junk]
    by (simp add: sample_env_def sample_nv_read_def Let_def split_beta)
next
  fix p m and blk buf :: bytes and p'
  assume ok: "nv_log_ok p" and wf: "meta_wf m" and v: "nx_common_nv_block_valid m blk" and len: "length blk = 40"
    and w: "nxp_common_nv_write (sample_env c junk origin_command) m blk p = (True, p')"
  let ?L = "unat (block_length m)" and ?j = "map junk [0..<40]"
  let ?i = "snd (nv_read BLOCK_SENTINEL_NX (block_id m) (block_length m) ?j p)"
  note c = sample_nv_read_cases(1) [OF ok wf, of junk] sample_nv_read_cases(2) [OF ok wf]
  have p': "p' = snd (nv_write BLOCK_SENTINEL_NX (block_id m) (block_length m) blk p)"
    using w by (simp add: sample_env_def sample_nv_write_def)
  have r: "nv_read BLOCK_SENTINEL_NX (block_id m) (block_length m) ?j p' = (True, memcpy_at 0 (take ?L blk) ?i)"
    using nv_write_read(3) [OF ok, of "block_length m" blk] c(2) len by (simp add: p')
  have t: "take ?L (memcpy_at 0 (take ?L blk) ?i) = take ?L blk"
    using c len by (simp add: memcpy_at_def)
  have "nx_common_nv_block_valid m (memcpy_at 0 (take ?L blk) ?i)"
    using nv_block_valid_prefix [OF wf t] v by simp
  then show "nxp_common_nv_read (sample_env c junk origin_command) m buf p' = (True, memcpy_at 0 (take ?L blk) buf)"
    using r t by (simp add: sample_env_def sample_nv_read_def Let_def)
next
  fix p m m' and blk buf :: bytes
  assume ok: "nv_log_ok p" and wf: "meta_wf m" "meta_wf m'" and ne: "block_id m' \<noteq> block_id m"
    and len: "length blk = 40"
  have "nv_read BLOCK_SENTINEL_NX (block_id m') (block_length m') b
      (snd (nv_write BLOCK_SENTINEL_NX (block_id m) (block_length m) blk p)) =
      nv_read BLOCK_SENTINEL_NX (block_id m') (block_length m') b p" for b
    using nv_write_read(3) [OF ok, of "block_length m" blk] wf(1) ne len by (simp add: meta_wf_def)
  then show "nxp_common_nv_read (sample_env c junk origin_command) m' buf
      (snd (nxp_common_nv_write (sample_env c junk origin_command) m blk p)) =
      nxp_common_nv_read (sample_env c junk origin_command) m' buf p"
    by (simp add: sample_env_def sample_nv_read_def sample_nv_write_def Let_def)
next
  fix p m and blk :: bytes
  assume "nv_log_ok p" "meta_wf m" "length blk = 40"
  then show "nv_log_ok (snd (nxp_common_nv_write (sample_env c junk origin_command) m blk p))"
    using nv_write_read(2) [of p "block_length m" blk] by (simp add: sample_env_def sample_nv_write_def meta_wf_def)
qed

interpretation sample_checked: nv_checked "sample_env c junk origin_command" nv_log_ok
proof
  fix p m and buf b :: bytes
  assume ok: "nv_log_ok p" and wf: "meta_wf m" and len: "length buf = 40"
    and r: "nxp_common_nv_read (sample_env c junk origin_command) m buf p = (True, b)"
  let ?i = "snd (nv_read BLOCK_SENTINEL_NX (block_id m) (block_length m) (map junk [0..<40]) p)"
  have v: "nx_common_nv_block_valid m ?i" and b: "b = memcpy_at 0 (take (unat (block_length m)) ?i) buf"
    using r by (auto simp: sample_env_def sample_nv_read_def Let_def split_beta split: if_splits)
  have "take (unat (block_length m)) b = take (unat (block_length m)) ?i"
    using sample_nv_read_cases(1) [OF ok wf, of junk] sample_nv_read_cases(2) [OF ok wf] len by (simp add: b memcpy_at_def)
  from nv_block_valid_prefix [OF wf this] v show "nx_common_nv_block_valid m b" by simp
qed

text \<open>Writing works while the file opens, and the sample's callbacks only add blocks of their own.\<close>

interpretation sample_reliable: nv_reliable "sample_env c junk origin_command" nv_log_ok
  by unfold_locales (auto simp: sample_env_def sample_nv_write_def nv_log_ok_def nv_write_def)

lemma sample_nv_read_cong:
  assumes "nv_file p = nv_file q" "nv_file_opens p = nv_file_opens q"
  shows "nexus_nv_read (sample_env c junk oc) m buf p = nexus_nv_read (sample_env c junk oc) m buf q"
    and "nv_log_ok p = nv_log_ok q"
proof -
  have "nv_read snt bid blen b p = nv_read snt bid blen b q" for snt bid blen b
    using assms by (simp add: nv_read_def)
  then show "nexus_nv_read (sample_env c junk oc) m buf p = nexus_nv_read (sample_env c junk oc) m buf q"
    by (simp add: nexus_nv_read_def sample_env_def sample_nv_read_def)
  show "nv_log_ok p = nv_log_ok q" using assms by (simp add: nv_log_ok_def)
qed

lemma sample_payg_write_transparent:
  assumes "nv_log_ok p"
  shows "nv_log_ok (payg_state_update_nv p)"
    and "nexus_nv_read (sample_env c junk oc) m buf (payg_state_update_nv p) =
      nexus_nv_read (sample_env c junk oc) m buf p"
proof -
  note w = nv_write_read [OF assms, where blen = 6 and buf = "payg_state_bytes p" and
      snt = BLOCK_SENTINEL_PROD and bid = PROD_PAYG_STATE_BLOCK_ID]
  have l: "length (payg_state_bytes p) = 6" by (simp add: payg_state_bytes_def)
  show "nv_log_ok (payg_state_update_nv p)"
    using w(2) l by (simp add: payg_state_update_nv_def prod_nv_write_payg_state_def)
  have "nv_read BLOCK_SENTINEL_NX bid blen b (payg_state_update_nv p) = nv_read BLOCK_SENTINEL_NX bid blen b p"
    for bid blen b
    using w(3) [where snt' = BLOCK_SENTINEL_NX and bid' = bid and blen' = blen and buf' = b] l
    by (simp add: payg_state_update_nv_def prod_nv_write_payg_state_def)
  then show "nexus_nv_read (sample_env c junk oc) m buf (payg_state_update_nv p) =
      nexus_nv_read (sample_env c junk oc) m buf p"
    by (simp add: nexus_nv_read_def sample_env_def sample_nv_read_def)
qed

lemma sample_update_transparent:
  "nv_log_ok p \<Longrightarrow> nv_log_ok (snd (update_payg_state u c p)) \<and>
    nexus_nv_read (sample_env cfg junk oc) m buf (snd (update_payg_state u c p)) =
    nexus_nv_read (sample_env cfg junk oc) m buf p"
proof -
  assume ok: "nv_log_ok p"
  obtain q where q: "snd (update_payg_state u c p) = payg_state_update_nv q"
      "nv_file q = nv_file p" "nv_file_opens q = nv_file_opens p"
    by (auto simp: update_payg_state_def Let_def sample_request_processing_def split: if_splits)
  note cong = sample_nv_read_cong [OF q(2,3)]
  have "nv_log_ok q" using ok by (simp add: cong(2))
  from sample_payg_write_transparent [OF this] show ?thesis by (simp add: q(1) cong(1))
qed

interpretation sample_port: product_port "sample_env c junk (\<lambda>_ _ p. p)" nv_log_ok
proof
  let ?e = "sample_env c junk (\<lambda>_ _ p. p)"
  note t = nv_transparent_def
  show "nv_transparent ?e nv_log_ok (nxp_common_request_processing ?e)"
    unfolding t using sample_nv_read_cong [of "sample_request_processing p" p for p]
    by (simp add: sample_env_def sample_request_processing_def)
  show "nv_transparent ?e nv_log_ok (\<lambda>p. snd (nxp_keycode_feedback_start ?e x p))" for x
    by (simp add: t sample_env_def sample_feedback_start_def)
  show "nv_transparent ?e nv_log_ok (\<lambda>p. snd (nxp_keycode_payg_credit_add ?e x p))" for x
    using sample_update_transparent by (simp add: t sample_env_def sample_payg_credit_add_def)
  show "nv_transparent ?e nv_log_ok (\<lambda>p. snd (nxp_keycode_payg_credit_set ?e x p))" for x
    using sample_update_transparent by (simp add: t sample_env_def sample_payg_credit_set_def)
  show "nv_transparent ?e nv_log_ok (\<lambda>p. snd (nxp_keycode_payg_credit_unlock ?e p))"
    using sample_update_transparent by (simp add: t sample_env_def sample_payg_credit_unlock_def)
  show "nv_transparent ?e nv_log_ok (nxp_keycode_notify_custom_flag_changed ?e x y)" for x y
    by (simp add: t sample_env_def)
  show "nv_transparent ?e nv_log_ok (\<lambda>p. snd (nxp_keycode_passthrough_keycode ?e x y p))" for x y
    by (simp add: t sample_env_def sample_passthrough_keycode_def Let_def)
qed

section \<open>Properties\<close>

text \<open>C27. On storage that returns what was last written, data that \<^verbatim>\<open>nexus_nv_update\<close> reports as stored are
  what \<^verbatim>\<open>nexus_nv_read\<close> returns afterwards, with one exception: when the storage held a damaged block with the very same
  data, the update leaves it and reports success all the same, and nothing is read back. Reading any other block is unaffected in either
  case.\<close>

theorem nv_update_then_read:
  assumes "nv_medium e ok" and "ok p" and "meta_wf m" and "length inner = nv_inner_size m"
    and "nexus_nv_update e m inner p = (True, p')"
  shows "(length buf = nv_inner_size m \<longrightarrow>
      nexus_nv_read e m buf p' = (if nv_damaged_copy e m inner p then (False, buf) else (True, inner))) \<and>
    (\<forall>m' buf'. meta_wf m' \<longrightarrow> block_id m' \<noteq> block_id m \<longrightarrow>
      nexus_nv_read e m' buf' p' = nexus_nv_read e m' buf' p)"
  using nv_medium.update_read [OF assms(1-4) _ assms(5)]
    nv_medium.update_read_other [OF assms(1-3), of _ inner] assms(4,5) by auto

definition blank_product :: product where
  "blank_product = \<lparr>nv_file = [], nv_file_opens = True, payg_credit = 0, payg_is_unlocked = 0,
     last_payg_state = False, stored_serial_id = 12345678, stored_secret_key = replicate 16 0,
     nx_processing_requested = False\<rparr>"

definition blank_env :: "product nexus_env" where
  "blank_env = sample_env user_config (\<lambda>_. 0) (\<lambda>_ _ p. p)"

lemma nv_log_ok_blank: "nv_log_ok blank_product"
  unfolding nv_log_ok_def by (intro conjI exI [of _ "[]"]) (simp_all add: blank_product_def nv_log_def)

theorem nv_update_then_read_witness:
  "nexus_nv_read blank_env NX_NV_BLOCK_KEYCODE_MAS [9, 9, 9, 9]
     (snd (nexus_nv_update blank_env NX_NV_BLOCK_KEYCODE_MAS [5, 0, 0, 0] blank_product)) = (True, [5, 0, 0, 0])"
proof -
  have r: "nxp_common_nv_read blank_env m b blank_product = (False, b)" for m b
    by (simp add: blank_env_def sample_env_def sample_nv_read_def nv_read_def blank_product_def Let_def)
  have w: "fst (nxp_common_nv_write blank_env m b blank_product)" for m b
    by (simp add: blank_env_def sample_env_def sample_nv_write_def nv_write_def blank_product_def)
  have u: "nexus_nv_update blank_env NX_NV_BLOCK_KEYCODE_MAS [5, 0, 0, 0] blank_product =
      (True, snd (nexus_nv_update blank_env NX_NV_BLOCK_KEYCODE_MAS [5, 0, 0, 0] blank_product))"
    by (rule prod_eqI) (simp_all add: nexus_nv_update_writes r w)
  have "nv_medium blank_env nv_log_ok" unfolding blank_env_def by (rule sample.nv_medium_axioms)
  from nv_update_then_read [OF this nv_log_ok_blank _ _ u, of "[9, 9, 9, 9]"] show ?thesis by (simp add: nv_damaged_copy_def r)
qed

text \<open>C29. The sample product's PAYG state survives a restart: after any credit operation, whatever
  library blocks are written afterwards and whatever the RAM holds on restart,
  \<^verbatim>\<open>payg_state_init\<close> recovers the credit and the lock state that were set last.\<close>

theorem payg_state_survives_restart:
  assumes "nv_log_ok p" and "update_payg_state unlocked credit p = (r, p1)"
    and "meta_wf m" and "length blk = 40" and "p2 = snd (sample_nv_write m blk p1)"
    and "restarted = p2\<lparr>payg_credit := x, payg_is_unlocked := y\<rparr>"
  shows "payg_credit (payg_state_init restarted) = credit \<and>
    payg_is_unlocked (payg_state_init restarted) = of_bool unlocked \<and>
    nv_file (payg_state_init restarted) = nv_file p2"
proof -
  let ?q = "p\<lparr>payg_is_unlocked := of_bool unlocked, payg_credit := credit\<rparr>"
  obtain q where p1: "p1 = payg_state_update_nv q" and q: "nv_file q = nv_file p" "nv_file_opens q = nv_file_opens p"
      "payg_credit q = credit" "payg_is_unlocked q = of_bool unlocked"
    using assms(2) by (auto simp: update_payg_state_def Let_def sample_request_processing_def split: if_splits)
  let ?b = "u32_le credit @ u16_le (of_bool unlocked)"
  have okq: "nv_log_ok q" using assms(1) q by (simp add: nv_log_ok_def)
  have p1': "p1 = snd (nv_write BLOCK_SENTINEL_PROD PROD_PAYG_STATE_BLOCK_ID 6 ?b q)"
    by (simp add: p1 payg_state_update_nv_def prod_nv_write_payg_state_def payg_state_bytes_def q)
  have ok1: "nv_log_ok p1" unfolding p1' by (rule nv_write_read(2) [OF okq]) simp
  have r1: "nv_read BLOCK_SENTINEL_PROD PROD_PAYG_STATE_BLOCK_ID 6 buf p1 = (True, ?b)"
    if "length buf = 6" for buf
    using nv_write_read(3) [OF okq, of 6 ?b] length_nv_read [OF okq, of 6 buf] that
    by (simp add: p1' memcpy_at_def)
  have r2: "nv_read BLOCK_SENTINEL_PROD PROD_PAYG_STATE_BLOCK_ID 6 buf p2 = (True, ?b)"
    if "length buf = 6" for buf
    using nv_write_read(3) [OF ok1, of "block_length m" blk] assms(3,4) r1 [OF that]
    by (simp add: assms(5) sample_nv_write_def meta_wf_def)
  have "nv_read snt bid blen buf restarted = nv_read snt bid blen buf p2" for snt bid blen buf
    by (simp add: nv_read_def assms(6))
  moreover have "length (payg_state_bytes restarted) = 6" by (simp add: payg_state_bytes_def)
  ultimately have "nv_read BLOCK_SENTINEL_PROD PROD_PAYG_STATE_BLOCK_ID 6 (payg_state_bytes restarted) restarted = (True, ?b)"
    by (simp only: r2)
  then show ?thesis
    by (simp add: payg_state_init_def prod_nv_read_payg_state_def Let_def le_u32_u32_le
        le_u16_u16_le [of _ "[]", simplified] assms(6))
qed

theorem payg_state_survives_restart_witness:
  "payg_credit (payg_state_init (snd (sample_nv_write NX_NV_BLOCK_KEYCODE_PRO (replicate 40 0)
     (snd (update_payg_state False 3600 blank_product))))) = 3600"
proof -
  let ?p2 = "snd (sample_nv_write NX_NV_BLOCK_KEYCODE_PRO (replicate 40 0)
     (snd (update_payg_state False 3600 blank_product)))"
  have "?p2 = ?p2\<lparr>payg_credit := payg_credit ?p2, payg_is_unlocked := payg_is_unlocked ?p2\<rparr>" by simp
  from payg_state_survives_restart [OF nv_log_ok_blank prod.collapse [symmetric] meta_wf_keycode(2) _ refl this]
  show ?thesis by simp
qed

end
