(* ===== verification/Keycode_Window.thy ===== *)
theory Keycode_Window
  imports Sample_Product Nexus_Bitset
begin

text \<open>
  The persistent state of the keycode protocols (\<^verbatim>\<open>nexus/src/nexus_keycode_pro.c\<close>): the window
  of received message identifiers around \<open>Pd\<close>, the counts of factory test codes and the custom
  flags. Every reading of the window first reloads the state from nonvolatile memory, every
  change writes it back. With storage that works the operations are shown to act on the stored
  record as a sliding identifier window, and to be an instance of the locale \<open>id_window\<close>.
\<close>

section \<open>The code\<close>

abbreviation (input) NEXUS_KEYCODE_PRO_MAX_MESSAGE_ID_BYTE :: nat where
  "NEXUS_KEYCODE_PRO_MAX_MESSAGE_ID_BYTE \<equiv> 3"
abbreviation (input) NEXUS_KEYCODE_PRO_RECEIVE_WINDOW_BEFORE_PD :: "'a::numeral" where
  "NEXUS_KEYCODE_PRO_RECEIVE_WINDOW_BEFORE_PD \<equiv> 23"
abbreviation (input) NEXUS_KEYCODE_PRO_RECEIVE_WINDOW_AFTER_PD :: "'a::numeral" where
  "NEXUS_KEYCODE_PRO_RECEIVE_WINDOW_AFTER_PD \<equiv> 40"

text \<open>The packed layout of \<^verbatim>\<open>_nexus_keycode_stored\<close>, twelve bytes.\<close>

definition stored_bytes :: "keycode_pro_stored \<Rightarrow> bytes" where
  "stored_bytes st = received_flags st @ [qc_test_codes_received st] @ u32_le (pd_index st) @
     [custom_flags_bitmask st] @ [padding st]"

definition stored_of_bytes :: "bytes \<Rightarrow> keycode_pro_stored" where
  "stored_of_bytes b = \<lparr>received_flags = take 5 b, qc_test_codes_received = b ! 5,
     pd_index = le_u32 (drop 6 b), custom_flags_bitmask = b ! 10, padding = b ! 11\<rparr>"

definition update_keycode_pro_nv_blocks :: "'p nexus_env \<Rightarrow> 'p nexus \<Rightarrow> 'p nexus" where
  "update_keycode_pro_nv_blocks e s =
     s\<lparr>plat := snd (nexus_nv_update e NX_NV_BLOCK_KEYCODE_PRO (stored_bytes (stored s)) (plat s))\<rparr>"

definition read_keycode_pro_nv_blocks :: "'p nexus_env \<Rightarrow> 'p nexus \<Rightarrow> 'p nexus" where
  "read_keycode_pro_nv_blocks e s =
     s\<lparr>stored := stored_of_bytes
         (snd (nexus_nv_read e NX_NV_BLOCK_KEYCODE_PRO (stored_bytes (stored s)) (plat s)))\<rparr>"

definition nexus_keycode_pro_get_current_pd_index :: "'p nexus \<Rightarrow> u32" where
  "nexus_keycode_pro_get_current_pd_index s = pd_index (stored s)"

text \<open>
  A bit set over the first three flag bytes, and writing its bytes back: the struct
  \<^verbatim>\<open>nexus_bitset\<close> points into the stored flags.
\<close>

definition received_ids :: "keycode_pro_stored \<Rightarrow> nexus_bitset" where
  "received_ids st = nexus_bitset_init (received_flags st) 3"

definition set_received_ids :: "nexus_bitset \<Rightarrow> keycode_pro_stored \<Rightarrow> keycode_pro_stored" where
  "set_received_ids b st = st\<lparr>received_flags := bt_bytes b\<rparr>"

definition nexus_keycode_pro_wipe_message_ids_in_window :: "'p nexus_env \<Rightarrow> 'p nexus \<Rightarrow> 'p nexus" where
  "nexus_keycode_pro_wipe_message_ids_in_window e s =
     update_keycode_pro_nv_blocks e
       (on_stored (\<lambda>st. set_received_ids (nexus_bitset_clear (received_ids st)) st) s)"

definition nexus_keycode_pro_reset_pd_index :: "'p nexus \<Rightarrow> 'p nexus" where
  "nexus_keycode_pro_reset_pd_index s =
     on_stored (\<lambda>st. st\<lparr>pd_index := NEXUS_KEYCODE_PRO_RECEIVE_WINDOW_BEFORE_PD\<rparr>) s"

definition nexus_keycode_pro_reset_test_code_count :: "'p nexus \<Rightarrow> 'p nexus" where
  "nexus_keycode_pro_reset_test_code_count s = on_stored (\<lambda>st. st\<lparr>qc_test_codes_received := 0\<rparr>) s"

text \<open>The window sees the first three of the five flag bytes; its users only read it.\<close>

definition nexus_keycode_pro_get_current_message_id_window :: "'p nexus \<Rightarrow> nexus_window" where
  "nexus_keycode_pro_get_current_message_id_window s =
     nexus_util_window_init (take 3 (received_flags (stored s))) 3 (pd_index (stored s)) 23 40"

text \<open>The mask moved down by the increment, in a three-byte array, copied over the flags.\<close>

definition pd_shifted_mask :: "u32 \<Rightarrow> keycode_pro_stored \<Rightarrow> keycode_pro_stored" where
  "pd_shifted_mask pd_increment st =
     (let new_mask = replicate NEXUS_KEYCODE_PRO_MAX_MESSAGE_ID_BYTE 0;
          new_mask_bitset = nexus_bitset_init new_mask 3;
          old_mask_bitset = nexus_bitset_init (received_flags st) 3;
          new_mask_bitset = window_shift old_mask_bitset pd_increment
            NEXUS_KEYCODE_PRO_RECEIVE_WINDOW_BEFORE_PD new_mask_bitset
      in st\<lparr>received_flags := memcpy_at 0 (bt_bytes new_mask_bitset) (received_flags st)\<rparr>)"

definition nexus_keycode_pro_increase_pd_and_shift_window_right ::
    "'p nexus_env \<Rightarrow> u32 \<Rightarrow> 'p nexus \<Rightarrow> 'p nexus" where
  "nexus_keycode_pro_increase_pd_and_shift_window_right e pd_increment s =
     (let s = (if pd_increment > NEXUS_KEYCODE_PRO_RECEIVE_WINDOW_BEFORE_PD
               then nexus_keycode_pro_wipe_message_ids_in_window e s
               else on_stored (pd_shifted_mask pd_increment) s);
          s = on_stored (\<lambda>st. st\<lparr>pd_index := pd_index st + pd_increment\<rparr>) s
      in update_keycode_pro_nv_blocks e s)"

definition nexus_keycode_pro_is_message_id_within_window :: "'p nexus \<Rightarrow> u16 \<Rightarrow> bool" where
  "nexus_keycode_pro_is_message_id_within_window s full_message_id =
     (let cur_pd = nexus_keycode_pro_get_current_pd_index s
      in cur_pd - NEXUS_KEYCODE_PRO_RECEIVE_WINDOW_BEFORE_PD \<le> ucast full_message_id \<and>
         cur_pd + NEXUS_KEYCODE_PRO_RECEIVE_WINDOW_AFTER_PD \<ge> ucast full_message_id)"

definition nexus_keycode_pro_mask_idx_from_message_id :: "'p nexus \<Rightarrow> u16 \<Rightarrow> u8 option" where
  "nexus_keycode_pro_mask_idx_from_message_id s full_message_id =
     (if \<not> nexus_keycode_pro_is_message_id_within_window s full_message_id then None
      else let cur_pd = nexus_keycode_pro_get_current_pd_index s
        in if cur_pd \<ge> ucast full_message_id
           then Some (ucast (NEXUS_KEYCODE_PRO_RECEIVE_WINDOW_BEFORE_PD - (cur_pd - ucast full_message_id)))
           else Some (ucast (NEXUS_KEYCODE_PRO_RECEIVE_WINDOW_BEFORE_PD + (ucast full_message_id - cur_pd))))"

text \<open>Returns whether \<open>Pd\<close> increased, the mask index and the new state.\<close>

definition nexus_keycode_pro_update_window_and_message_mask_id ::
    "'p nexus_env \<Rightarrow> u16 \<Rightarrow> 'p nexus \<Rightarrow> bool \<times> u8 \<times> 'p nexus" where
  "nexus_keycode_pro_update_window_and_message_mask_id e full_message_id s =
     (let cur_pd = nexus_keycode_pro_get_current_pd_index s;
          mask_id_index = NEXUS_KEYCODE_PRO_RECEIVE_WINDOW_BEFORE_PD :: u8
      in if ucast full_message_id > cur_pd
         then (True, mask_id_index,
           nexus_keycode_pro_increase_pd_and_shift_window_right e (ucast full_message_id - cur_pd) s)
         else if ucast full_message_id \<ge> cur_pd - NEXUS_KEYCODE_PRO_RECEIVE_WINDOW_BEFORE_PD
         then
           let mask_id_index = ucast (NEXUS_KEYCODE_PRO_RECEIVE_WINDOW_BEFORE_PD - (cur_pd - ucast full_message_id));
               mask_id_index = (if mask_id_index > NEXUS_KEYCODE_PRO_RECEIVE_WINDOW_BEFORE_PD
                 then NEXUS_KEYCODE_PRO_RECEIVE_WINDOW_BEFORE_PD else mask_id_index)
           in (False, mask_id_index, s)
         else (False, mask_id_index, s))"

definition nexus_keycode_pro_get_full_message_id_flag ::
    "'p nexus_env \<Rightarrow> u16 \<Rightarrow> 'p nexus \<Rightarrow> bool \<times> 'p nexus" where
  "nexus_keycode_pro_get_full_message_id_flag e full_message_id s =
     (let s = read_keycode_pro_nv_blocks e s
      in if ucast full_message_id > nexus_keycode_pro_get_current_pd_index s then (False, s)
         else case nexus_keycode_pro_mask_idx_from_message_id s full_message_id of
             None \<Rightarrow> (False, s)
           | Some mask_id_index \<Rightarrow>
               (nexus_bitset_contains (nexus_bitset_init (received_flags (stored s)) 12) (ucast mask_id_index), s))"

definition nexus_keycode_pro_set_full_message_id_flag ::
    "'p nexus_env \<Rightarrow> u16 \<Rightarrow> 'p nexus \<Rightarrow> 'p nexus" where
  "nexus_keycode_pro_set_full_message_id_flag e full_message_id s =
     (case nexus_keycode_pro_get_full_message_id_flag e full_message_id s of (already_set, s) \<Rightarrow>
        if already_set then s
        else case nexus_keycode_pro_update_window_and_message_mask_id e full_message_id s of
          (_, mask_id_index, s) \<Rightarrow>
            update_keycode_pro_nv_blocks e (on_stored (\<lambda>st.
              set_received_ids (nexus_bitset_add (received_ids st) (ucast mask_id_index)) st) s))"

definition mask_all_up_to :: "u8 \<Rightarrow> keycode_pro_stored \<Rightarrow> keycode_pro_stored" where
  "mask_all_up_to mask_id_index st =
     set_received_ids (foldl (\<lambda>b i. nexus_bitset_add b (word_of_nat i)) (received_ids st)
       [0..<Suc (unat mask_id_index)]) st"

definition nexus_keycode_pro_mask_below_message_id :: "'p nexus_env \<Rightarrow> u16 \<Rightarrow> 'p nexus \<Rightarrow> 'p nexus" where
  "nexus_keycode_pro_mask_below_message_id e full_message_id s =
     (if full_message_id = 0 then s
      else
        let max_full_id_to_mask = full_message_id - 1
        in if ucast full_message_id <
              nexus_keycode_pro_get_current_pd_index s - NEXUS_KEYCODE_PRO_RECEIVE_WINDOW_BEFORE_PD
           then s
           else case nexus_keycode_pro_update_window_and_message_mask_id e max_full_id_to_mask s of
             (_, mask_id_index, s) \<Rightarrow>
               update_keycode_pro_nv_blocks e (on_stored (mask_all_up_to mask_id_index) s))"

section \<open>Factory test code counts and custom flags: the code\<close>

abbreviation (input) NEXUS_KEYCODE_PRO_QC_LONG_TEST_MESSAGE_SECONDS :: u32 where
  "NEXUS_KEYCODE_PRO_QC_LONG_TEST_MESSAGE_SECONDS \<equiv> 3600"
abbreviation (input) NEXUS_KEYCODE_PRO_QC_SHORT_TEST_MESSAGE_SECONDS :: u32 where
  "NEXUS_KEYCODE_PRO_QC_SHORT_TEST_MESSAGE_SECONDS \<equiv> 600"

definition nexus_keycode_pro_get_long_qc_code_count :: "'p nexus \<Rightarrow> u8" where
  "nexus_keycode_pro_get_long_qc_code_count s =
     ucast (drop_bit 4 ((ucast (qc_test_codes_received (stored s)) :: u32) AND 0xF0))"

definition nexus_keycode_pro_get_short_qc_code_count :: "'p nexus \<Rightarrow> u8" where
  "nexus_keycode_pro_get_short_qc_code_count s = qc_test_codes_received (stored s) AND 0x0F"

definition nexus_keycode_pro_can_unit_accept_qc_code :: "'p nexus_env \<Rightarrow> u32 \<Rightarrow> 'p nexus \<Rightarrow> bool" where
  "nexus_keycode_pro_can_unit_accept_qc_code e qc_credit_seconds s =
     (let short_code_count = nexus_keycode_pro_get_short_qc_code_count s;
          long_code_count = nexus_keycode_pro_get_long_qc_code_count s;
          is_short_code = qc_credit_seconds \<le> NEXUS_KEYCODE_PRO_QC_SHORT_TEST_MESSAGE_SECONDS;
          payg_state_before = get_payg_state e s
      in if payg_state_before = NXP_COMMON_PAYG_STATE_UNLOCKED then False
         else if qc_credit_seconds \<noteq> NEXUS_KEYCODE_PRO_QC_LONG_TEST_MESSAGE_SECONDS \<and>
           payg_state_before \<noteq> NXP_COMMON_PAYG_STATE_DISABLED then False
         else if is_short_code then
           QC_SHORT_LIFETIME_MAX (config e) > 0 \<and> short_code_count < QC_SHORT_LIFETIME_MAX (config e)
         else QC_LONG_LIFETIME_MAX (config e) > 0 \<and> long_code_count < QC_LONG_LIFETIME_MAX (config e))"

definition nexus_keycode_pro_increment_long_qc_test_message_count ::
    "'p nexus_env \<Rightarrow> 'p nexus \<Rightarrow> 'p nexus" where
  "nexus_keycode_pro_increment_long_qc_test_message_count e s =
     (let new_long_code_count = nexus_keycode_pro_get_long_qc_code_count s + 1
      in if new_long_code_count > 15 \<or> new_long_code_count > QC_LONG_LIFETIME_MAX (config e) then s
         else update_keycode_pro_nv_blocks e (on_stored (\<lambda>st. st\<lparr>qc_test_codes_received :=
           (qc_test_codes_received st AND 0x0F) OR push_bit 4 new_long_code_count\<rparr>) s))"

definition nexus_keycode_pro_increment_short_qc_test_message_count ::
    "'p nexus_env \<Rightarrow> 'p nexus \<Rightarrow> 'p nexus" where
  "nexus_keycode_pro_increment_short_qc_test_message_count e s =
     (let new_short_code_count = nexus_keycode_pro_get_short_qc_code_count s + 1
      in if new_short_code_count > 15 \<or> new_short_code_count > QC_SHORT_LIFETIME_MAX (config e) then s
         else update_keycode_pro_nv_blocks e (on_stored (\<lambda>st. st\<lparr>qc_test_codes_received :=
           (qc_test_codes_received st AND 0xF0) OR new_short_code_count\<rparr>) s))"

definition do_notify_custom_flag ::
    "'p nexus_env \<Rightarrow> nx_keycode_custom_flag \<Rightarrow> bool \<Rightarrow> 'p nexus \<Rightarrow> 'p nexus" where
  "do_notify_custom_flag e flag v s =
     s\<lparr>plat := nxp_keycode_notify_custom_flag_changed e flag v (plat s)\<rparr>"

definition nx_keycode_set_custom_flag :: "'p nexus_env \<Rightarrow> nx_keycode_custom_flag \<Rightarrow> 'p nexus \<Rightarrow> 'p nexus" where
  "nx_keycode_set_custom_flag e flag s =
     do_notify_custom_flag e flag True (update_keycode_pro_nv_blocks e
       (on_stored (\<lambda>st. st\<lparr>custom_flags_bitmask := custom_flags_bitmask st OR custom_flag_value flag\<rparr>) s))"

definition nexus_keycode_pro_reset_custom_flag ::
    "'p nexus_env \<Rightarrow> nx_keycode_custom_flag \<Rightarrow> 'p nexus \<Rightarrow> 'p nexus" where
  "nexus_keycode_pro_reset_custom_flag e flag s =
     do_notify_custom_flag e flag False (update_keycode_pro_nv_blocks e
       (on_stored (\<lambda>st. st\<lparr>custom_flags_bitmask := custom_flags_bitmask st AND NOT (custom_flag_value flag)\<rparr>) s))"

definition nx_keycode_get_custom_flag :: "nx_keycode_custom_flag \<Rightarrow> 'p nexus \<Rightarrow> bool" where
  "nx_keycode_get_custom_flag flag s = (custom_flags_bitmask (stored s) AND custom_flag_value flag \<noteq> 0)"

section \<open>Layout and frame lemmas\<close>

definition stored_ok :: "keycode_pro_stored \<Rightarrow> bool" where
  "stored_ok st \<longleftrightarrow> length (received_flags st) = 5 \<and> 23 \<le> unat (pd_index st) \<and> unat (pd_index st) \<le> 65535"

lemma length_stored_bytes [simp]: "length (received_flags st) = 5 \<Longrightarrow> length (stored_bytes st) = 12"
  by (simp add: stored_bytes_def)

lemma stored_of_bytes_stored_bytes:
  "length (received_flags st) = 5 \<Longrightarrow> stored_of_bytes (stored_bytes st) = st"
proof -
  assume l: "length (received_flags st) = 5"
  have "drop 6 (stored_bytes st) = u32_le (pd_index st) @ [custom_flags_bitmask st] @ [padding st]"
    using l by (simp add: stored_bytes_def)
  moreover have "take 5 (stored_bytes st) = received_flags st" "stored_bytes st ! 5 = qc_test_codes_received st"
    "stored_bytes st ! 10 = custom_flags_bitmask st" "stored_bytes st ! 11 = padding st"
    using l by (simp_all add: stored_bytes_def nth_append)
  ultimately show ?thesis by (simp add: stored_of_bytes_def le_u32_u32_le)
qed

lemma stored_bytes_stored_of_bytes:
  assumes "length b = 12"
  shows "stored_bytes (stored_of_bytes b) = b"
  using assms
  by (auto simp: length_Suc_conv numeral_eq_Suc stored_bytes_def stored_of_bytes_def u32_le_le_u32)

lemma update_nv_simps [simp, nexus_updates]:
  "stored (update_keycode_pro_nv_blocks e s) = stored s" "pro (update_keycode_pro_nv_blocks e s) = pro s"
  "mas (update_keycode_pro_nv_blocks e s) = mas s" "bookend (update_keycode_pro_nv_blocks e s) = bookend s"
  "common (update_keycode_pro_nv_blocks e s) = common s"
  "core_init_completed (update_keycode_pro_nv_blocks e s) = core_init_completed s"
  by (simp_all add: update_keycode_pro_nv_blocks_def)

lemma notify_simps [simp, nexus_updates]:
  "stored (do_notify_custom_flag e f v s) = stored s" "pro (do_notify_custom_flag e f v s) = pro s"
  "mas (do_notify_custom_flag e f v s) = mas s" "bookend (do_notify_custom_flag e f v s) = bookend s"
  "common (do_notify_custom_flag e f v s) = common s"
  "core_init_completed (do_notify_custom_flag e f v s) = core_init_completed s"
  by (simp_all add: do_notify_custom_flag_def)

section \<open>The received identifiers as a set\<close>

definition flags24 :: "keycode_pro_stored \<Rightarrow> nat set" where
  "flags24 st = {f \<in> flags_set (received_flags st). f < 24}"

text \<open>The identifiers marked as received in the stored record.\<close>

definition recd :: "keycode_pro_stored \<Rightarrow> nat set" where
  "recd st = ids_of (unat (pd_index st)) 24 (flags24 st)"

lemma received_ids_abs: "bitset_abs (received_ids st) = flags_set (received_flags st)"
  "bt_bytes (received_ids st) = received_flags st"
  by (simp_all add: received_ids_def nexus_bitset_init_def bitset_abs_def)

lemma set_received_ids_simps [simp]:
  "pd_index (set_received_ids b st) = pd_index st"
  "received_flags (set_received_ids b st) = bt_bytes b"
  "qc_test_codes_received (set_received_ids b st) = qc_test_codes_received st"
  "custom_flags_bitmask (set_received_ids b st) = custom_flags_bitmask st"
  by (simp_all add: set_received_ids_def)

lemma flags24_clear:
  assumes "length (received_flags st) = 5"
  shows "flags24 (set_received_ids (nexus_bitset_clear (received_ids st)) st) = {}"
    and "length (bt_bytes (nexus_bitset_clear (received_ids st))) = 5"
  using assms
  by (auto simp: flags24_def flags_set_def nexus_bitset_clear_def received_ids_def nexus_bitset_init_def
      memset0_nth)

lemma flags24_add:
  assumes "length (received_flags st) = 5" "unat w < 24"
  shows "flags24 (set_received_ids (nexus_bitset_add (received_ids st) w) st) = insert (unat w) (flags24 st)"
  using assms nexus_bitset_add_abs [of w "received_ids st"]
  by (auto simp: flags24_def received_ids_abs bitset_abs_def)

lemma foldl_bitset_add:
  assumes "\<And>i. i \<in> set is \<Longrightarrow> i < 8 * length (bt_bytes b) \<and> i < 2040"
  shows "bitset_abs (foldl (\<lambda>b i. nexus_bitset_add b (word_of_nat i)) b is) = bitset_abs b \<union> set is \<and>
    length (bt_bytes (foldl (\<lambda>b i. nexus_bitset_add b (word_of_nat i)) b is)) = length (bt_bytes b)"
  using assms
proof (induction "is" arbitrary: b)
  case (Cons i js)
  have "unat (word_of_nat i :: u16) = i" using Cons.prems [of i] by (simp add: unat_word_of_nat_small)
  moreover from this have "bitset_abs (nexus_bitset_add b (word_of_nat i)) = insert i (bitset_abs b)"
    using Cons.prems [of i] nexus_bitset_add_abs [of "word_of_nat i" b] by simp
  ultimately show ?case using Cons.IH [of "nexus_bitset_add b (word_of_nat i)"] Cons.prems by simp
qed simp

lemma flags24_mask_all:
  assumes "length (received_flags st) = 5" "unat k < 24"
  shows "flags24 (mask_all_up_to k st) = flags24 st \<union> {..unat k}"
    and "length (received_flags (mask_all_up_to k st)) = 5" and "pd_index (mask_all_up_to k st) = pd_index st"
proof -
  let ?b = "foldl (\<lambda>b i. nexus_bitset_add b (word_of_nat i)) (received_ids st) [0..<Suc (unat k)]"
  have f: "bitset_abs ?b = flags_set (received_flags st) \<union> {0..<Suc (unat k)} \<and> length (bt_bytes ?b) = 5"
    using foldl_bitset_add [of "[0..<Suc (unat k)]" "received_ids st"] assms
    by (simp add: received_ids_abs del: upt_Suc)
  then show "flags24 (mask_all_up_to k st) = flags24 st \<union> {..unat k}"
    using assms(2) by (auto simp: mask_all_up_to_def flags24_def bitset_abs_def simp del: upt_Suc foldl_Cons)
  show "length (received_flags (mask_all_up_to k st)) = 5" "pd_index (mask_all_up_to k st) = pd_index st"
    using f by (simp_all add: mask_all_up_to_def del: upt_Suc)
qed

lemma flags24_shifted:
  assumes "length (received_flags st) = 5"
  shows "flags24 (pd_shifted_mask inc st) = {j. j + unat inc \<in> flags24 st}"
    and "length (received_flags (pd_shifted_mask inc st)) = 5"
    and "pd_index (pd_shifted_mask inc st) = pd_index st"
proof -
  let ?new = "window_shift (nexus_bitset_init (received_flags st) 3) inc 23 (nexus_bitset_init (replicate 3 0) 3)"
  have len: "length (bt_bytes ?new) = 3"
    by (simp add: window_shift_def nexus_bitset_init_def del: upt_Suc)
  have "bitset_abs ?new = bitset_abs (nexus_bitset_init (replicate 3 0) 3) \<union>
      {j. j + unat inc \<in> bitset_abs (nexus_bitset_init (received_flags st) 3) \<and> j + unat inc < Suc 23}"
    by (rule window_shift_abs) (simp_all add: nexus_bitset_init_def assms)
  moreover have "bitset_abs (nexus_bitset_init (replicate 3 0) 3) = {}"
    by (simp only: nexus_bitset_init_def bitset_abs_def nexus_bitset.simps flags_set_replicate_0)
  ultimately have abs: "flags_set (bt_bytes ?new) = {j. j + unat inc \<in> flags24 st}"
    by (simp only: bitset_abs_def nexus_bitset_init_def nexus_bitset.simps flags24_def) auto
  have r: "received_flags (pd_shifted_mask inc st) = bt_bytes ?new @ drop 3 (received_flags st)"
    by (simp only: pd_shifted_mask_def Let_def memcpy_at_def) (simp add: len)
  show "length (received_flags (pd_shifted_mask inc st)) = 5" by (simp add: r len assms)
  show "pd_index (pd_shifted_mask inc st) = pd_index st" by (simp add: pd_shifted_mask_def Let_def)
  have "flags_set (take 3 (received_flags (pd_shifted_mask inc st))) = flags_set (bt_bytes ?new)"
    by (simp add: r len)
  moreover have "flags24 (pd_shifted_mask inc st) = flags_set (take 3 (received_flags (pd_shifted_mask inc st)))"
    by (simp add: flags24_def flags_set_take)
  ultimately show "flags24 (pd_shifted_mask inc st) = {j. j + unat inc \<in> flags24 st}" by (simp only: abs)
qed

lemma recd_bounds: "i \<in> recd st \<Longrightarrow> i \<le> unat (pd_index st) \<and> unat (pd_index st) \<le> i + 23"
  by (auto simp: recd_def ids_of_def)

lemma ids_of_shift:
  assumes "center < ident"
  shows "ids_of ident n {j. j + (ident - center) \<in> flags \<and> j + (ident - center) < n} =
    {i \<in> ids_of center n flags. ident < i + n}"
  using assms by (auto simp: ids_of_def)

section \<open>Behaviour on working storage\<close>

text \<open>Reloading the stored record changes nothing: memory and storage agree.\<close>

definition nv_agrees :: "'p nexus_env \<Rightarrow> 'p nexus \<Rightarrow> bool" where
  "nv_agrees e s \<longleftrightarrow> snd (nexus_nv_read e NX_NV_BLOCK_KEYCODE_PRO (stored_bytes (stored s)) (plat s)) =
     stored_bytes (stored s)"

definition keycode_inv :: "'p nexus_env \<Rightarrow> ('p \<Rightarrow> bool) \<Rightarrow> 'p nexus \<Rightarrow> bool" where
  "keycode_inv e ok s \<longleftrightarrow> ok (plat s) \<and> stored_ok (stored s) \<and> nv_agrees e s"

lemma keycode_invD:
  assumes "keycode_inv e ok s"
  shows "ok (plat s)" "stored_ok (stored s)" "length (received_flags (stored s)) = 5"
    "23 \<le> unat (pd_index (stored s))" "unat (pd_index (stored s)) \<le> 65535"
  using assms by (auto simp: keycode_inv_def stored_ok_def)

lemma read_keycode_pro_nv_blocks_same:
  assumes "keycode_inv e ok s"
  shows "read_keycode_pro_nv_blocks e s = s"
  using assms keycode_invD(3) [OF assms]
  by (simp add: read_keycode_pro_nv_blocks_def keycode_inv_def nv_agrees_def stored_of_bytes_stored_bytes)

lemma keycode_inv_cong:
  "plat s = plat t \<Longrightarrow> stored s = stored t \<Longrightarrow> keycode_inv e ok s = keycode_inv e ok t"
  by (simp add: keycode_inv_def nv_agrees_def)

lemma nexus_keycode_pro_is_message_id_within_window_iff:
  assumes "stored_ok (stored s)"
  shows "nexus_keycode_pro_is_message_id_within_window s i \<longleftrightarrow>
    unat (pd_index (stored s)) \<le> unat i + 23 \<and> unat i \<le> unat (pd_index (stored s)) + 40"
proof -
  let ?pd = "pd_index (stored s)"
  have b: "23 \<le> unat ?pd" "unat ?pd \<le> 65535" using assms by (simp_all add: stored_ok_def)
  have "unat (?pd - 23) = unat ?pd - 23" "unat (?pd + 40) = unat ?pd + 40"
    using b by (simp_all add: unat_sub word_le_nat_alt unat_word_ariths)
  then show ?thesis
    using b by (auto simp: nexus_keycode_pro_is_message_id_within_window_def Let_def word_le_nat_alt
        unat_ucast_le nexus_keycode_pro_get_current_pd_index_def)
qed

lemma pd_mask_idx:
  fixes i :: u16
  assumes "stored_ok (stored s)" "unat i \<le> unat (pd_index (stored s))" "unat (pd_index (stored s)) \<le> unat i + 23"
  shows "unat (ucast (23 - (pd_index (stored s) - ucast i)) :: u8) = unat i + 23 - unat (pd_index (stored s))"
proof -
  let ?pd = "pd_index (stored s)"
  have a: "unat (?pd - ucast i) = unat ?pd - unat i"
    using assms(2) by (simp add: unat_sub word_le_nat_alt unat_ucast_le)
  have "unat (23 - (?pd - ucast i)) = 23 - (unat ?pd - unat i)"
    using assms(3) by (subst unat_sub) (simp_all add: word_le_nat_alt a)
  then show ?thesis using assms by (subst unat_ucast_small) simp_all
qed

lemma get_full_message_id_flag_recd:
  assumes inv: "keycode_inv e ok s"
  shows "nexus_keycode_pro_get_full_message_id_flag e i s = (unat i \<in> recd (stored s), s)"
proof -
  let ?pd = "unat (pd_index (stored s))"
  note d = keycode_invD [OF inv]
  note r = read_keycode_pro_nv_blocks_same [OF inv]
  consider "?pd < unat i" | "unat i \<le> ?pd" "\<not> ?pd \<le> unat i + 23" | "unat i \<le> ?pd" "?pd \<le> unat i + 23"
    by linarith
  then show ?thesis
  proof cases
    case 1
    then have "ucast i > pd_index (stored s)" by (simp add: word_less_nat_alt unat_ucast_le)
    then show ?thesis using 1 recd_bounds [of "unat i" "stored s"]
      by (auto simp: nexus_keycode_pro_get_full_message_id_flag_def Let_def r nexus_keycode_pro_get_current_pd_index_def)
  next
    case 2
    then have "\<not> ucast i > pd_index (stored s)" by (simp add: word_less_nat_alt unat_ucast_le)
    moreover have "\<not> nexus_keycode_pro_is_message_id_within_window s i"
      using 2 nexus_keycode_pro_is_message_id_within_window_iff [OF d(2)] by simp
    ultimately show ?thesis using 2 recd_bounds [of "unat i" "stored s"]
      by (auto simp: nexus_keycode_pro_get_full_message_id_flag_def Let_def r
          nexus_keycode_pro_get_current_pd_index_def nexus_keycode_pro_mask_idx_from_message_id_def)
  next
    case 3
    then have le: "ucast i \<le> pd_index (stored s)" by (simp add: word_le_nat_alt unat_ucast_le)
    have w: "nexus_keycode_pro_is_message_id_within_window s i"
      using 3 nexus_keycode_pro_is_message_id_within_window_iff [OF d(2)] by simp
    let ?k = "ucast (23 - (pd_index (stored s) - ucast i)) :: u8"
    have k: "unat (ucast ?k :: u16) = unat i + 23 - ?pd"
      using pd_mask_idx [OF d(2) 3] by (subst unat_ucast_le) simp_all
    have "nexus_bitset_contains (nexus_bitset_init (received_flags (stored s)) 12) (ucast ?k) \<longleftrightarrow>
        unat i + 23 - ?pd \<in> flags_set (received_flags (stored s))"
      using nexus_bitset_contains_abs [of "ucast ?k" "nexus_bitset_init (received_flags (stored s)) 12"] 3 d
      by (simp only: k) (simp add: nexus_bitset_init_def bitset_abs_def)
    moreover have "unat i \<in> recd (stored s) \<longleftrightarrow> unat i + 23 - ?pd \<in> flags_set (received_flags (stored s))"
      using 3 by (auto simp: recd_def ids_of_def flags24_def add.commute)
    moreover have "\<not> ucast i > pd_index (stored s)" using le by simp
    ultimately show ?thesis using le w
      by (simp add: nexus_keycode_pro_get_full_message_id_flag_def Let_def r
          nexus_keycode_pro_get_current_pd_index_def nexus_keycode_pro_mask_idx_from_message_id_def)
  qed
qed

lemma update_window_cases:
  assumes inv: "keycode_inv e ok s"
  shows "unat (pd_index (stored s)) < unat i \<Longrightarrow>
      nexus_keycode_pro_update_window_and_message_mask_id e i s =
        (True, 23, nexus_keycode_pro_increase_pd_and_shift_window_right e (ucast i - pd_index (stored s)) s)"
    and "unat i \<le> unat (pd_index (stored s)) \<Longrightarrow> unat (pd_index (stored s)) \<le> unat i + 23 \<Longrightarrow>
      \<exists>k. nexus_keycode_pro_update_window_and_message_mask_id e i s = (False, k, s) \<and>
        unat k = unat i + 23 - unat (pd_index (stored s))"
    and "unat i + 23 < unat (pd_index (stored s)) \<Longrightarrow>
      nexus_keycode_pro_update_window_and_message_mask_id e i s = (False, 23, s)"
proof -
  let ?pd = "pd_index (stored s)"
  note d = keycode_invD [OF inv]
  have m: "unat (?pd - 23) = unat ?pd - 23" using d by (simp add: unat_sub word_le_nat_alt)
  note defs = nexus_keycode_pro_update_window_and_message_mask_id_def Let_def
    nexus_keycode_pro_get_current_pd_index_def
  show "unat ?pd < unat i \<Longrightarrow> nexus_keycode_pro_update_window_and_message_mask_id e i s =
      (True, 23, nexus_keycode_pro_increase_pd_and_shift_window_right e (ucast i - ?pd) s)"
    by (simp add: defs word_less_nat_alt unat_ucast_le)
  have "\<not> ucast i > ?pd \<and> \<not> ucast i \<ge> ?pd - 23" if "unat i + 23 < unat ?pd"
    using that by (simp add: word_less_nat_alt word_le_nat_alt unat_ucast_le m)
  then show "unat i + 23 < unat ?pd \<Longrightarrow> nexus_keycode_pro_update_window_and_message_mask_id e i s = (False, 23, s)"
    by (simp add: defs)
  assume a: "unat i \<le> unat ?pd" "unat ?pd \<le> unat i + 23"
  note k = pd_mask_idx [OF d(2) a]
  have "\<not> ucast i > ?pd" "ucast i \<ge> ?pd - 23"
    using a by (simp_all add: word_less_nat_alt word_le_nat_alt unat_ucast_le m)
  moreover have "\<not> (ucast (23 - (?pd - ucast i)) :: u8) > 23"
    using k a by (simp add: word_less_nat_alt)
  ultimately show "\<exists>k. nexus_keycode_pro_update_window_and_message_mask_id e i s = (False, k, s) \<and>
      unat k = unat i + 23 - unat ?pd"
    using k by (simp add: defs)
qed

context product_port
begin

lemma keycode_inv_update_nv:
  assumes "ok (plat s)" "stored_ok (stored s)"
  shows "keycode_inv e ok (update_keycode_pro_nv_blocks e s)"
proof -
  have l: "length (stored_bytes (stored s)) = 12" using assms(2) by (simp add: stored_ok_def)
  let ?p = "snd (nexus_nv_update e NX_NV_BLOCK_KEYCODE_PRO (stored_bytes (stored s)) (plat s))"
  have "nexus_nv_read e NX_NV_BLOCK_KEYCODE_PRO (stored_bytes (stored s)) ?p = (True, stored_bytes (stored s))"
    by (rule update_then_read) (simp_all add: assms l)
  moreover have "ok ?p" by (rule update_ok) (simp_all add: assms l)
  ultimately show ?thesis
    using assms(2) by (simp add: keycode_inv_def nv_agrees_def update_keycode_pro_nv_blocks_def)
qed

lemma keycode_inv_transparent:
  assumes "keycode_inv e ok s" "nv_transparent e ok f"
  shows "keycode_inv e ok (s\<lparr>plat := f (plat s)\<rparr>)"
  using assms by (auto simp: keycode_inv_def nv_agrees_def nv_transparent_def)

lemmas keycode_inv_callbacks =
  keycode_inv_transparent [OF _ callbacks_transparent(1)] keycode_inv_transparent [OF _ callbacks_transparent(2)]
  keycode_inv_transparent [OF _ callbacks_transparent(3)] keycode_inv_transparent [OF _ callbacks_transparent(4)]
  keycode_inv_transparent [OF _ callbacks_transparent(5)] keycode_inv_transparent [OF _ callbacks_transparent(6)]
  keycode_inv_transparent [OF _ callbacks_transparent(7)]

lemma keycode_inv_do:
  assumes "keycode_inv e ok s"
  shows "keycode_inv e ok (do_request_processing e s)" "keycode_inv e ok (do_feedback e t s)"
    "keycode_inv e ok (do_notify_custom_flag e flag v s)" "keycode_inv e ok (do_credit_add e c s)"
    "keycode_inv e ok (do_credit_set e c s)" "keycode_inv e ok (do_credit_unlock e s)"
  using keycode_inv_callbacks [OF assms]
  by (simp_all add: do_request_processing_def do_feedback_def do_notify_custom_flag_def
      do_credit_add_def do_credit_set_def do_credit_unlock_def)

text \<open>Changing the stored record and writing it back.\<close>

lemma keycode_inv_on_stored:
  assumes "ok (plat s)" "stored_ok (f (stored s))"
  shows "keycode_inv e ok (update_keycode_pro_nv_blocks e (on_stored f s))"
  by (rule keycode_inv_update_nv) (simp_all add: assms)

lemma wipe_spec:
  assumes "ok (plat s)" "stored_ok (stored s)"
  shows "keycode_inv e ok (nexus_keycode_pro_wipe_message_ids_in_window e s)"
    and "recd (stored (nexus_keycode_pro_wipe_message_ids_in_window e s)) = {}"
    and "pd_index (stored (nexus_keycode_pro_wipe_message_ids_in_window e s)) = pd_index (stored s)"
proof -
  have l: "length (received_flags (stored s)) = 5" using assms(2) by (simp add: stored_ok_def)
  show "keycode_inv e ok (nexus_keycode_pro_wipe_message_ids_in_window e s)"
    unfolding nexus_keycode_pro_wipe_message_ids_in_window_def
    by (rule keycode_inv_on_stored) (use assms flags24_clear(2) [OF l] in \<open>simp_all add: stored_ok_def\<close>)
  show "recd (stored (nexus_keycode_pro_wipe_message_ids_in_window e s)) = {}"
    using flags24_clear(1) [OF l]
    by (simp add: nexus_keycode_pro_wipe_message_ids_in_window_def recd_def ids_of_def)
  show "pd_index (stored (nexus_keycode_pro_wipe_message_ids_in_window e s)) = pd_index (stored s)"
    by (simp add: nexus_keycode_pro_wipe_message_ids_in_window_def)
qed

lemma increase_pd_spec:
  fixes i :: u16
  assumes inv: "keycode_inv e ok s" and gt: "unat (pd_index (stored s)) < unat i"
  defines "t \<equiv> nexus_keycode_pro_increase_pd_and_shift_window_right e (ucast i - pd_index (stored s)) s"
  shows "keycode_inv e ok t" and "pd_index (stored t) = ucast i"
    and "recd (stored t) = {j \<in> recd (stored s). unat i \<le> j + 23}"
proof -
  let ?pd = "pd_index (stored s)" and ?inc = "ucast i - pd_index (stored s)"
  note d = keycode_invD [OF inv]
  have inc: "unat ?inc = unat i - unat ?pd" using gt by (simp add: unat_sub word_le_nat_alt unat_ucast_le)
  have ui: "unat (ucast i :: u32) = unat i" by (simp add: unat_ucast_le)
  define u where "u = (if ?inc > 23 then nexus_keycode_pro_wipe_message_ids_in_window e s
    else on_stored (pd_shifted_mask ?inc) s)"
  have t: "t = update_keycode_pro_nv_blocks e (on_stored (\<lambda>st. st\<lparr>pd_index := pd_index st + ?inc\<rparr>) u)"
    by (simp only: t_def nexus_keycode_pro_increase_pd_and_shift_window_right_def Let_def u_def)
  have u: "ok (plat u)" "length (received_flags (stored u)) = 5" "pd_index (stored u) = ?pd"
    using wipe_spec [OF d(1,2)] keycode_invD [of e ok "nexus_keycode_pro_wipe_message_ids_in_window e s"]
      flags24_shifted(2,3) [OF d(3)] d
    by (auto simp: u_def)
  have pd: "pd_index (stored t) = ucast i" by (simp add: t u(3))
  then show "pd_index (stored t) = ucast i" .
  show "keycode_inv e ok t"
    unfolding t by (rule keycode_inv_on_stored)
      (use u d gt unat_u16_less [of i] in \<open>simp_all add: stored_ok_def ui\<close>)
  have f: "flags24 (stored t) = flags24 (stored u)" by (simp add: t flags24_def)
  show "recd (stored t) = {j \<in> recd (stored s). unat i \<le> j + 23}"
  proof (cases "?inc > 23")
    case True
    then have far: "unat ?pd + 23 < unat i" using inc by (simp add: word_less_nat_alt)
    have "recd (stored u) = {}" using True wipe_spec(2) [OF d(1,2)] by (simp add: u_def)
    moreover have "flags24 (stored u) = {}"
      using True flags24_clear(1) [OF d(3)] by (simp add: u_def nexus_keycode_pro_wipe_message_ids_in_window_def)
    ultimately show ?thesis using far recd_bounds [of _ "stored s"] by (fastforce simp: recd_def ids_of_def f)
  next
    case False
    then have "flags24 (stored t) = {j. j + (unat i - unat ?pd) \<in> flags24 (stored s)}"
      using flags24_shifted(1) [OF d(3), of ?inc] by (simp add: f u_def inc)
    also have "\<dots> = {j. j + (unat i - unat ?pd) \<in> flags24 (stored s) \<and> j + (unat i - unat ?pd) < 24}"
      by (auto simp: flags24_def)
    finally show ?thesis
      using ids_of_shift [OF gt, of 24 "flags24 (stored s)"] by (auto simp: recd_def pd ui)
  qed
qed

text \<open>The parts of the stored record that are not about message identifiers.\<close>

lemma window_ops_rest:
  "qc_test_codes_received (stored (nexus_keycode_pro_increase_pd_and_shift_window_right e inc s)) =
     qc_test_codes_received (stored s)"
  "custom_flags_bitmask (stored (nexus_keycode_pro_increase_pd_and_shift_window_right e inc s)) =
     custom_flags_bitmask (stored s)"
  "qc_test_codes_received (mask_all_up_to k st) = qc_test_codes_received st"
  "custom_flags_bitmask (mask_all_up_to k st) = custom_flags_bitmask st"
  by (simp_all add: nexus_keycode_pro_increase_pd_and_shift_window_right_def Let_def pd_shifted_mask_def
      nexus_keycode_pro_wipe_message_ids_in_window_def mask_all_up_to_def)

lemma update_window_spec:
  assumes inv: "keycode_inv e ok s" and in_or_above: "unat (pd_index (stored s)) \<le> unat i + 23"
  obtains b k u where "nexus_keycode_pro_update_window_and_message_mask_id e i s = (b, k, u)"
    and "keycode_inv e ok u" and "unat (pd_index (stored u)) = max (unat (pd_index (stored s))) (unat i)"
    and "unat k = unat i + 23 - max (unat (pd_index (stored s))) (unat i)" and "unat k < 24"
    and "recd (stored u) = {j \<in> recd (stored s). max (unat (pd_index (stored s))) (unat i) \<le> j + 23}"
proof (cases "unat (pd_index (stored s)) < unat i")
  case True
  with increase_pd_spec [OF inv True] show ?thesis
    by (intro that [OF update_window_cases(1) [OF inv True]]) (simp_all add: max_def unat_ucast_le)
next
  case False
  then have le: "unat i \<le> unat (pd_index (stored s))" by simp
  then have mx: "max (unat (pd_index (stored s))) (unat i) = unat (pd_index (stored s))" by simp
  obtain k where k: "nexus_keycode_pro_update_window_and_message_mask_id e i s = (False, k, s)"
      "unat k = unat i + 23 - unat (pd_index (stored s))"
    using update_window_cases(2) [OF inv le in_or_above] by blast
  have "unat k < 24" using k(2) le in_or_above by linarith
  moreover have "recd (stored s) = {j \<in> recd (stored s). unat (pd_index (stored s)) \<le> j + 23}"
    using recd_bounds [of _ "stored s"] by blast
  ultimately show ?thesis using that [OF k(1) inv] k(2) by (simp only: mx)
qed

lemma set_full_message_id_flag_spec:
  assumes inv: "keycode_inv e ok s" and in_or_above: "unat (pd_index (stored s)) \<le> unat i + 23"
  defines "t \<equiv> nexus_keycode_pro_set_full_message_id_flag e i s"
  shows "keycode_inv e ok t"
    and "unat (pd_index (stored t)) = max (unat (pd_index (stored s))) (unat i)"
    and "recd (stored t) = insert (unat i)
      {j \<in> recd (stored s). max (unat (pd_index (stored s))) (unat i) \<le> j + 23}"
proof -
  let ?pd = "unat (pd_index (stored s))"
  note d = keycode_invD [OF inv]
  have ui: "unat (ucast i :: u32) = unat i" by (simp add: unat_ucast_le)
  have t: "t = (if unat i \<in> recd (stored s) then s
      else case nexus_keycode_pro_update_window_and_message_mask_id e i s of (_, k, u) \<Rightarrow>
        update_keycode_pro_nv_blocks e (on_stored (\<lambda>st.
          set_received_ids (nexus_bitset_add (received_ids st) (ucast k)) st) u))"
    by (simp add: t_def nexus_keycode_pro_set_full_message_id_flag_def get_full_message_id_flag_recd [OF inv])
  have "keycode_inv e ok t \<and> unat (pd_index (stored t)) = max ?pd (unat i) \<and>
      recd (stored t) = insert (unat i) {j \<in> recd (stored s). max ?pd (unat i) \<le> j + 23}"
  proof (cases "unat i \<in> recd (stored s)")
    case True
    then have "max ?pd (unat i) = ?pd" using recd_bounds by (simp add: max_absorb1)
    moreover have "recd (stored s) = {j \<in> recd (stored s). ?pd \<le> j + 23}"
      using recd_bounds [of _ "stored s"] by blast
    ultimately show ?thesis using inv True by (simp only: t if_True insert_absorb simp_thms)
  next
    case False
    obtain b k u where w: "nexus_keycode_pro_update_window_and_message_mask_id e i s = (b, k, u)"
      and u: "keycode_inv e ok u" "unat (pd_index (stored u)) = max ?pd (unat i)"
        "unat k = unat i + 23 - max ?pd (unat i)" "unat k < 24"
        "recd (stored u) = {j \<in> recd (stored s). max ?pd (unat i) \<le> j + 23}"
      by (rule update_window_spec [OF inv in_or_above])
    have k: "unat k < 24" "unat (ucast k :: u16) = unat k" using u(4) by (auto simp: unat_ucast_le)
    note du = keycode_invD [of e ok u]
    let ?f = "\<lambda>st. set_received_ids (nexus_bitset_add (received_ids st) (ucast k)) st"
    have t': "t = update_keycode_pro_nv_blocks e (on_stored ?f u)" using False by (simp add: t w)
    have fl: "flags24 (?f (stored u)) = insert (unat k) (flags24 (stored u))"
      using flags24_add [of "stored u" "ucast k"] k du u by simp
    have st: "stored_ok (?f (stored u))"
      using u du by (simp add: stored_ok_def received_ids_abs)
    have le: "unat i \<le> unat (pd_index (stored u))" "unat (pd_index (stored u)) < unat i + 24"
      and k': "unat k = unat i + 24 - Suc (unat (pd_index (stored u)))"
      using u(2,3) in_or_above by auto
    have "recd (stored t) = insert (unat i) (recd (stored u))"
      using ids_of_mark [OF le, of "flags24 (stored u)"] by (simp add: t' recd_def fl k')
    then show ?thesis using u st keycode_inv_on_stored [of u ?f] du by (simp add: t')
  qed
  then show "keycode_inv e ok t" "unat (pd_index (stored t)) = max ?pd (unat i)"
    "recd (stored t) = insert (unat i) {j \<in> recd (stored s). max ?pd (unat i) \<le> j + 23}" by blast+
qed

lemma mask_below_message_id_spec:
  assumes inv: "keycode_inv e ok s" and in_or_above: "unat (pd_index (stored s)) \<le> unat i + 23"
    and no_wrap: "unat i < 65535"
  defines "t \<equiv> nexus_keycode_pro_mask_below_message_id e (i + 1) s"
  shows "keycode_inv e ok t"
    and "unat (pd_index (stored t)) = max (unat (pd_index (stored s))) (unat i)"
    and "recd (stored t) = {j \<in> recd (stored s) \<union> {..unat i}. max (unat (pd_index (stored s))) (unat i) \<le> j + 23}"
proof -
  let ?pd = "unat (pd_index (stored s))"
  note d = keycode_invD [OF inv]
  have ui: "unat (ucast i :: u32) = unat i" by (simp add: unat_ucast_le)
  have i1: "unat (i + 1) = Suc (unat i)" using no_wrap by (simp add: unat_add_1)
  obtain b k u where w: "nexus_keycode_pro_update_window_and_message_mask_id e i s = (b, k, u)"
    and u: "keycode_inv e ok u" "unat (pd_index (stored u)) = max ?pd (unat i)"
      "unat k = unat i + 23 - max ?pd (unat i)"
      "recd (stored u) = {j \<in> recd (stored s). max ?pd (unat i) \<le> j + 23}" and k: "unat k < 24"
    by (rule update_window_spec [OF inv in_or_above])
  note du = keycode_invD [OF u(1)]
  have "i + 1 \<noteq> 0" using i1 by (metis nat.distinct(1) unsigned_0)
  moreover have "\<not> ucast (i + 1) < pd_index (stored s) - 23"
    using in_or_above d(4) i1 by (simp add: word_less_nat_alt unat_ucast_le unat_sub word_le_nat_alt)
  ultimately have t: "t = update_keycode_pro_nv_blocks e (on_stored (mask_all_up_to k) u)"
    by (simp add: t_def nexus_keycode_pro_mask_below_message_id_def w nexus_keycode_pro_get_current_pd_index_def)
  note m = flags24_mask_all [OF du(3) k]
  show "unat (pd_index (stored t)) = max ?pd (unat i)" by (simp add: t m u)
  show "keycode_inv e ok t"
    unfolding t by (rule keycode_inv_on_stored) (use du m in \<open>simp_all add: stored_ok_def\<close>)
  show "recd (stored t) = {j \<in> recd (stored s) \<union> {..unat i}. max ?pd (unat i) \<le> j + 23}"
  proof -
    have "recd (stored t) = ids_of (max ?pd (unat i)) 24 (flags24 (stored u) \<union> {..unat k})"
      by (simp add: t recd_def m u(2))
    also have "\<dots> = recd (stored u) \<union> ids_of (max ?pd (unat i)) 24 {..unat k}"
      by (auto simp: recd_def u(2) ids_of_def)
    also have "ids_of (max ?pd (unat i)) 24 {..unat k} = {j \<in> {..unat i}. max ?pd (unat i) \<le> j + 23}"
      using in_or_above by (auto simp: ids_of_def u(3))
    finally show ?thesis by (auto simp: u(4))
  qed
qed

end

text \<open>The keycode window is an identifier window in the sense of the contract.\<close>

sublocale product_port \<subseteq> kw: id_window "\<lambda>s. unat (pd_index (stored s))" "\<lambda>_. 23" "\<lambda>_. 40"
  "\<lambda>s. recd (stored s)" "\<lambda>s i. nexus_keycode_pro_set_full_message_id_flag e (word_of_nat i) s"
  "keycode_inv e ok" 65535
proof
  fix s i assume "keycode_inv e ok s" "i \<in> recd (stored s)"
  then show "i \<le> unat (pd_index (stored s)) \<and> unat (pd_index (stored s)) \<le> i + 23" by (simp add: recd_bounds)
next
  fix s :: "'a nexus" and i :: nat
  assume inv: "keycode_inv e ok s" and r: "unat (pd_index (stored s)) \<le> i + 23" and lim: "i \<le> 65535"
  have u: "unat (word_of_nat i :: u16) = i" using lim by (simp add: unat_word_of_nat_small)
  from r have "unat (pd_index (stored s)) \<le> unat (word_of_nat i :: u16) + 23" by (simp only: u)
  note sp = set_full_message_id_flag_spec [OF inv this, unfolded u]
  show "keycode_inv e ok (nexus_keycode_pro_set_full_message_id_flag e (word_of_nat i) s) \<and>
      unat (pd_index (stored (nexus_keycode_pro_set_full_message_id_flag e (word_of_nat i) s))) =
        max (unat (pd_index (stored s))) i \<and> 23 = (23::nat) \<and> 40 = (40::nat) \<and>
      recd (stored (nexus_keycode_pro_set_full_message_id_flag e (word_of_nat i) s)) =
        insert i {j \<in> recd (stored s). max (unat (pd_index (stored s))) i \<le> j + 23}"
    using sp by blast
qed

section \<open>Factory test code counts and custom flags\<close>

lemma bit_nibbles:
  "bit (0xF0 :: u32) n \<longleftrightarrow> 4 \<le> n \<and> n < 8" "bit (0xF0 :: u8) n \<longleftrightarrow> 4 \<le> n \<and> n < 8"
  "bit (0x0F :: u8) n \<longleftrightarrow> n < 4"
proof -
  have "(0xF0 :: u32) = push_bit 4 (mask 4)" "(0xF0 :: u8) = push_bit 4 (mask 4)" "(0x0F :: u8) = mask 4"
    by (simp_all add: mask_eq_exp_minus_1)
  then show "bit (0xF0 :: u32) n \<longleftrightarrow> 4 \<le> n \<and> n < 8" "bit (0xF0 :: u8) n \<longleftrightarrow> 4 \<le> n \<and> n < 8"
    "bit (0x0F :: u8) n \<longleftrightarrow> n < 4"
    by (simp_all only: bit_push_bit_iff bit_mask_iff) auto
qed

lemma qc_nibbles:
  fixes q c :: u8
  shows "unat (ucast (drop_bit 4 ((ucast q :: u32) AND 0xF0)) :: u8) = unat q div 16"
    and "unat (q AND 0x0F) = unat q mod 16"
proof -
  have "ucast (drop_bit 4 ((ucast q :: u32) AND 0xF0)) = drop_bit 4 q"
    by (rule bit_word_eqI) (simp only: bit_unsigned_iff bit_drop_bit_eq comp_apply bit_and_iff bit_nibbles,
        auto dest: bit_imp_le_length)
  then show "unat (ucast (drop_bit 4 ((ucast q :: u32) AND 0xF0)) :: u8) = unat q div 16"
    by (simp add: unat_drop_bit)
  show "unat (q AND 0x0F) = unat q mod 16"
    using unat_and_mask [of q 4] by (simp add: mask_eq_exp_minus_1)
qed

lemma qc_pack:
  fixes q c :: u8
  assumes "unat c \<le> 15"
  shows "unat ((q AND 0x0F) OR push_bit 4 c) = 16 * unat c + unat q mod 16"
    and "unat ((q AND 0xF0) OR c) = 16 * (unat q div 16) + unat c"
proof -
  have small: "\<not> bit c n" if "4 \<le> n" for n
  proof -
    have "unat (take_bit 4 c) = unat c" using assms by (simp add: take_bit_eq_mask unat_and_mask)
    then have "take_bit 4 c = c" by (simp only: word_unat_eq_iff)
    then show ?thesis using that by (metis bit_take_bit_iff not_less)
  qed
  have disj: "x OR y = x + y" if "x AND y = 0" for x y :: u8 using that by (simp add: disjunctive_add_eq_or)
  have "(q AND 0x0F) AND push_bit 4 c = 0"
    by (rule bit_word_eqI) (simp only: bit_and_iff bit_push_bit_iff bit_nibbles bit_0_eq bot_apply, auto)
  then have "unat ((q AND 0x0F) OR push_bit 4 c) = (unat (q AND 0x0F) + unat (push_bit 4 c)) mod 256"
    by (simp add: disj unat_word_ariths)
  moreover have "unat (push_bit 4 c) = 16 * unat c"
    using assms by (simp add: push_bit_eq_mult unat_word_ariths)
  ultimately show "unat ((q AND 0x0F) OR push_bit 4 c) = 16 * unat c + unat q mod 16"
    using assms mod_less_divisor [of 16 "unat q"] by (simp add: qc_nibbles(2))
  have "q AND 0xF0 = push_bit 4 (drop_bit 4 q)"
    by (rule bit_word_eqI) (simp only: bit_and_iff bit_push_bit_iff bit_drop_bit_eq comp_apply bit_nibbles,
        auto dest: bit_imp_le_length)
  then have h: "unat (q AND 0xF0) = 16 * (unat q div 16)"
    using unat_u8_less [of q] by (simp add: push_bit_eq_mult unat_word_ariths unat_drop_bit)
  have "(q AND 0xF0) AND c = 0"
    by (rule bit_word_eqI) (use small in \<open>simp only: bit_and_iff bit_nibbles bit_0_eq bot_apply, auto\<close>)
  then have "unat ((q AND 0xF0) OR c) = (unat (q AND 0xF0) + unat c) mod 256"
    by (simp add: disj unat_word_ariths)
  then show "unat ((q AND 0xF0) OR c) = 16 * (unat q div 16) + unat c"
    using assms less_mult_imp_div_less [of "unat q" 16 16] unat_u8_less [of q] by (simp add: h)
qed

lemma nibble_div_mod: "(16 * a + r mod 16) div 16 = a" "(16 * a + r mod 16) mod 16 = r mod (16::nat)"
  by simp_all

lemma nibble_div_mod':
  "c < Suc 15 \<Longrightarrow> (16 * a + c) div 16 = a" "c < Suc 15 \<Longrightarrow> (16 * a + c) mod 16 = (c::nat)"
  by simp_all

lemma qc_count_unat:
  "unat (nexus_keycode_pro_get_long_qc_code_count s) = unat (qc_test_codes_received (stored s)) div 16"
  "unat (nexus_keycode_pro_get_short_qc_code_count s) = unat (qc_test_codes_received (stored s)) mod 16"
  by (simp_all only: nexus_keycode_pro_get_long_qc_code_count_def nexus_keycode_pro_get_short_qc_code_count_def
      qc_nibbles)

text \<open>An increment adds one to its own count while the lifetime maximum allows, and leaves the other.\<close>

lemma increment_long_qc:
  fixes e :: "'p nexus_env" and s :: "'p nexus"
  assumes "config_wf (config e)"
  defines "t \<equiv> nexus_keycode_pro_increment_long_qc_test_message_count e s"
  shows "unat (nexus_keycode_pro_get_long_qc_code_count t) =
      (if unat (nexus_keycode_pro_get_long_qc_code_count s) < unat (QC_LONG_LIFETIME_MAX (config e))
       then Suc (unat (nexus_keycode_pro_get_long_qc_code_count s))
       else unat (nexus_keycode_pro_get_long_qc_code_count s))"
    and "nexus_keycode_pro_get_short_qc_code_count t = nexus_keycode_pro_get_short_qc_code_count s"
proof -
  let ?l = "nexus_keycode_pro_get_long_qc_code_count s" and ?q = "qc_test_codes_received (stored s)"
  have m: "unat (QC_LONG_LIFETIME_MAX (config e)) \<le> 15"
    using assms(1) by (simp add: config_wf_def word_le_nat_alt)
  have l: "unat ?l \<le> 15" using unat_u8_less [of ?q] by (simp add: qc_count_unat)
  then have l1: "unat (?l + 1) = Suc (unat ?l)" by (simp add: unat_add_1)
  have g: "(?l + 1 > 15 \<or> ?l + 1 > QC_LONG_LIFETIME_MAX (config e)) \<longleftrightarrow>
      \<not> unat ?l < unat (QC_LONG_LIFETIME_MAX (config e))"
    using m by (auto simp: word_less_nat_alt l1)
  have "unat (nexus_keycode_pro_get_long_qc_code_count t) =
      (if unat ?l < unat (QC_LONG_LIFETIME_MAX (config e)) then Suc (unat ?l) else unat ?l) \<and>
      unat (nexus_keycode_pro_get_short_qc_code_count t) = unat (nexus_keycode_pro_get_short_qc_code_count s)"
  proof (cases "unat ?l < unat (QC_LONG_LIFETIME_MAX (config e))")
    case True
    then have c: "unat (?l + 1) \<le> 15" using m l1 by simp
    have "unat (qc_test_codes_received (stored t)) = 16 * unat (?l + 1) + unat ?q mod 16"
      using True g qc_pack(1) [OF c, of ?q]
      by (simp add: t_def nexus_keycode_pro_increment_long_qc_test_message_count_def Let_def)
    then show ?thesis using True by (simp only: qc_count_unat(1) [of t] qc_count_unat(2) nibble_div_mod l1 if_True)
  next
    case False
    then show ?thesis
      using g by (simp add: t_def nexus_keycode_pro_increment_long_qc_test_message_count_def Let_def)
  qed
  then show "unat (nexus_keycode_pro_get_long_qc_code_count t) =
      (if unat ?l < unat (QC_LONG_LIFETIME_MAX (config e)) then Suc (unat ?l) else unat ?l)"
    and "nexus_keycode_pro_get_short_qc_code_count t = nexus_keycode_pro_get_short_qc_code_count s"
    by (simp_all add: word_unat_eq_iff)
qed

lemma increment_short_qc:
  fixes e :: "'p nexus_env" and s :: "'p nexus"
  assumes "config_wf (config e)"
  defines "t \<equiv> nexus_keycode_pro_increment_short_qc_test_message_count e s"
  shows "unat (nexus_keycode_pro_get_short_qc_code_count t) =
      (if unat (nexus_keycode_pro_get_short_qc_code_count s) < unat (QC_SHORT_LIFETIME_MAX (config e))
       then Suc (unat (nexus_keycode_pro_get_short_qc_code_count s))
       else unat (nexus_keycode_pro_get_short_qc_code_count s))"
    and "nexus_keycode_pro_get_long_qc_code_count t = nexus_keycode_pro_get_long_qc_code_count s"
proof -
  let ?l = "nexus_keycode_pro_get_short_qc_code_count s" and ?q = "qc_test_codes_received (stored s)"
  have m: "unat (QC_SHORT_LIFETIME_MAX (config e)) \<le> 15"
    using assms(1) by (simp add: config_wf_def word_le_nat_alt)
  have l: "unat ?l \<le> 15" using mod_less_divisor [of 16 "unat ?q"] by (simp add: qc_count_unat)
  then have l1: "unat (?l + 1) = Suc (unat ?l)" by (simp add: unat_add_1)
  have g: "(?l + 1 > 15 \<or> ?l + 1 > QC_SHORT_LIFETIME_MAX (config e)) \<longleftrightarrow>
      \<not> unat ?l < unat (QC_SHORT_LIFETIME_MAX (config e))"
    using m by (auto simp: word_less_nat_alt l1)
  have "unat (nexus_keycode_pro_get_short_qc_code_count t) =
      (if unat ?l < unat (QC_SHORT_LIFETIME_MAX (config e)) then Suc (unat ?l) else unat ?l) \<and>
      unat (nexus_keycode_pro_get_long_qc_code_count t) = unat (nexus_keycode_pro_get_long_qc_code_count s)"
  proof (cases "unat ?l < unat (QC_SHORT_LIFETIME_MAX (config e))")
    case True
    then have c: "unat (?l + 1) \<le> 15" using m l1 by simp
    have "unat (qc_test_codes_received (stored t)) = 16 * (unat ?q div 16) + unat (?l + 1)"
      using True g qc_pack(2) [OF c, of ?q]
      by (simp add: t_def nexus_keycode_pro_increment_short_qc_test_message_count_def Let_def)
    then show ?thesis using True nibble_div_mod' [OF c [unfolded less_Suc_eq_le [symmetric]]]
      by (simp only: qc_count_unat(2) [of t] qc_count_unat(1) l1 if_True)
  next
    case False
    then show ?thesis
      using g by (simp add: t_def nexus_keycode_pro_increment_short_qc_test_message_count_def Let_def)
  qed
  then show "unat (nexus_keycode_pro_get_short_qc_code_count t) =
      (if unat ?l < unat (QC_SHORT_LIFETIME_MAX (config e)) then Suc (unat ?l) else unat ?l)"
    and "nexus_keycode_pro_get_long_qc_code_count t = nexus_keycode_pro_get_long_qc_code_count s"
    by (simp_all add: word_unat_eq_iff)
qed

context product_port
begin

text \<open>The invariant survives every window operation, for any sixteen-bit identifier.\<close>

lemma keycode_inv_update_window:
  assumes inv: "keycode_inv e ok s"
  obtains b k u where "nexus_keycode_pro_update_window_and_message_mask_id e i s = (b, k, u)"
    and "keycode_inv e ok u" and "unat k < 24"
proof (cases "unat (pd_index (stored s)) \<le> unat i + 23")
  case True
  show ?thesis by (rule update_window_spec [OF inv True]) (rule that)
next
  case False
  then show ?thesis using that [OF update_window_cases(3) [OF inv]] inv by simp
qed

lemma keycode_inv_set_full_message_id_flag:
  assumes inv: "keycode_inv e ok s"
  shows "keycode_inv e ok (nexus_keycode_pro_set_full_message_id_flag e i s)"
proof (cases "unat i \<in> recd (stored s)")
  case True
  then show ?thesis
    using inv by (simp add: nexus_keycode_pro_set_full_message_id_flag_def get_full_message_id_flag_recd [OF inv])
next
  case False
  obtain b k u where w: "nexus_keycode_pro_update_window_and_message_mask_id e i s = (b, k, u)"
    and u: "keycode_inv e ok u" "unat k < 24"
    by (rule keycode_inv_update_window [OF inv])
  show ?thesis
    using False keycode_inv_on_stored [of u] keycode_invD [OF u(1)]
    by (simp add: nexus_keycode_pro_set_full_message_id_flag_def get_full_message_id_flag_recd [OF inv] w
        stored_ok_def received_ids_abs)
qed

lemma keycode_inv_mask_below_message_id:
  assumes inv: "keycode_inv e ok s"
  shows "keycode_inv e ok (nexus_keycode_pro_mask_below_message_id e i s)"
proof -
  obtain b k u where w: "nexus_keycode_pro_update_window_and_message_mask_id e (i - 1) s = (b, k, u)"
    and u: "keycode_inv e ok u" "unat k < 24"
    by (rule keycode_inv_update_window [OF inv])
  note m = flags24_mask_all [OF keycode_invD(3) [OF u(1)] u(2)]
  have "keycode_inv e ok (update_keycode_pro_nv_blocks e (on_stored (mask_all_up_to k) u))"
    by (rule keycode_inv_on_stored) (use keycode_invD [OF u(1)] m in \<open>simp_all add: stored_ok_def\<close>)
  then show ?thesis using inv by (simp add: nexus_keycode_pro_mask_below_message_id_def Let_def w)
qed

lemma keycode_inv_on_stored':
  assumes "keycode_inv e ok s" "\<And>st. received_flags (f st) = received_flags st" "\<And>st. pd_index (f st) = pd_index st"
  shows "keycode_inv e ok (update_keycode_pro_nv_blocks e (on_stored f s))"
  by (rule keycode_inv_on_stored) (use keycode_invD [OF assms(1)] assms(2,3) in \<open>simp_all add: stored_ok_def\<close>)

lemma keycode_inv_qc_flags:
  assumes inv: "keycode_inv e ok s"
  shows "keycode_inv e ok (nexus_keycode_pro_increment_long_qc_test_message_count e s)"
    "keycode_inv e ok (nexus_keycode_pro_increment_short_qc_test_message_count e s)"
    "keycode_inv e ok (nx_keycode_set_custom_flag e flag s)"
    "keycode_inv e ok (nexus_keycode_pro_reset_custom_flag e flag s)"
  using inv keycode_inv_on_stored' [OF inv]
  by (simp_all add: nexus_keycode_pro_increment_long_qc_test_message_count_def
      nexus_keycode_pro_increment_short_qc_test_message_count_def nx_keycode_set_custom_flag_def
      nexus_keycode_pro_reset_custom_flag_def keycode_inv_do Let_def)

lemma keycode_inv_wipe_ids:
  "keycode_inv e ok s \<Longrightarrow> keycode_inv e ok (nexus_keycode_pro_wipe_message_ids_in_window e s)"
  using wipe_spec(1) [of s] keycode_invD by blast

lemmas keycode_inv_ops = keycode_inv_do keycode_inv_set_full_message_id_flag keycode_inv_mask_below_message_id
  keycode_inv_qc_flags keycode_inv_wipe_ids

end

section \<open>Properties of the receive window\<close>

text \<open>The library on the sample product before its first keycode; it serves as concrete state.\<close>

definition blank_state :: "product nexus" where
  "blank_state = (nexus_zero blank_product)\<lparr>stored := zero_stored\<lparr>pd_index := 23\<rparr>\<rparr>"

lemma product_port_blank: "product_port blank_env nv_log_ok"
  unfolding blank_env_def by (rule sample_port.product_port_axioms)

lemma nxp_read_blank: "nxp_common_nv_read blank_env m buf blank_product = (False, buf)"
  by (simp add: blank_env_def sample_env_def sample_nv_read_def nv_read_def blank_product_def)

lemma nexus_nv_read_blank:
  "nexus_nv_read blank_env NX_NV_BLOCK_KEYCODE_PRO buf blank_product = (False, buf)"
  "nexus_nv_read blank_env NX_NV_BLOCK_KEYCODE_MAS buf blank_product = (False, buf)"
proof -
  have "\<not> nx_common_nv_block_valid NX_NV_BLOCK_KEYCODE_PRO (replicate 40 0)" by code_simp
  then show "nexus_nv_read blank_env NX_NV_BLOCK_KEYCODE_PRO buf blank_product = (False, buf)"
    by (simp add: nexus_nv_read_def nxp_read_blank)
  have "\<not> nx_common_nv_block_valid NX_NV_BLOCK_KEYCODE_MAS (replicate 40 0)" by code_simp
  then show "nexus_nv_read blank_env NX_NV_BLOCK_KEYCODE_MAS buf blank_product = (False, buf)"
    by (simp add: nexus_nv_read_def nxp_read_blank)
qed

lemma blank_state_simps:
  "stored blank_state = zero_stored\<lparr>pd_index := 23\<rparr>" "plat blank_state = blank_product"
  by (simp_all add: blank_state_def nexus_zero_def)

lemma pd_blank: "pd_index (stored blank_state) = 23"
  by (simp add: blank_state_simps)

lemma keycode_inv_blank: "keycode_inv blank_env nv_log_ok blank_state"
  by (simp add: keycode_inv_def nv_log_ok_blank nv_agrees_def nexus_nv_read_blank blank_state_simps
      stored_ok_def zero_stored_def)

lemma recd_blank: "recd (stored blank_state) = {}"
proof -
  have "flags_set (replicate 5 0) = {}" by (rule flags_set_replicate_0)
  then show ?thesis by (simp add: recd_def flags24_def ids_of_def blank_state_simps zero_stored_def)
qed

text \<open>C11. Marking a keycode identifier in or above the receive window, on storage that works, is
  insertion into the set of received identifiers: \<open>Pd\<close> becomes the larger of the two, identifiers
  more than 23 below it are forgotten, and the state written back is the state in memory.\<close>

theorem set_full_message_id_flag_refines:
  assumes "product_port e ok" and "keycode_inv e ok s" and "unat (pd_index (stored s)) \<le> unat i + 23"
  shows "(let t = nexus_keycode_pro_set_full_message_id_flag e i s;
              pd = max (unat (pd_index (stored s))) (unat i)
          in keycode_inv e ok t \<and> unat (pd_index (stored t)) = pd \<and>
             recd (stored t) = insert (unat i) {j \<in> recd (stored s). pd \<le> j + 23})"
  using product_port.set_full_message_id_flag_spec [OF assms] by (simp add: Let_def)

theorem set_full_message_id_flag_refines_witness:
  "recd (stored (nexus_keycode_pro_set_full_message_id_flag blank_env 30 blank_state)) = {30}"
  using set_full_message_id_flag_refines [OF product_port_blank keycode_inv_blank, of 30]
  by (simp add: Let_def recd_blank pd_blank)

text \<open>A set-credit or wipe message with identifier \<open>i\<close> masks exactly the identifiers up to
  \<open>i\<close> that the moved window still covers.\<close>

theorem mask_below_message_id_refines:
  assumes "product_port e ok" and "keycode_inv e ok s" and "unat (pd_index (stored s)) \<le> unat i + 23"
    and "unat i < 65535"
  shows "(let t = nexus_keycode_pro_mask_below_message_id e (i + 1) s;
              pd = max (unat (pd_index (stored s))) (unat i)
          in keycode_inv e ok t \<and> unat (pd_index (stored t)) = pd \<and>
             recd (stored t) = {j \<in> recd (stored s) \<union> {..unat i}. pd \<le> j + 23})"
  using product_port.mask_below_message_id_spec [OF assms] by (simp add: Let_def)

theorem mask_below_message_id_refines_witness:
  "recd (stored (nexus_keycode_pro_mask_below_message_id blank_env 31 blank_state)) = {7..30}"
proof -
  have "recd (stored (nexus_keycode_pro_mask_below_message_id blank_env 31 blank_state)) =
      {j. j \<le> 30 \<and> 30 \<le> j + 23}"
    using mask_below_message_id_refines [OF product_port_blank keycode_inv_blank, of 30]
    by (simp add: Let_def recd_blank pd_blank)
  moreover have "{j. j \<le> 30 \<and> 30 \<le> j + 23} = {7..(30::nat)}"
    by (rule set_eqI) (simp only: mem_Collect_eq atLeastAtMost_iff, linarith)
  ultimately show ?thesis by (rule trans)
qed

section \<open>The invariant of the protocol state\<close>

text \<open>Test code counts never exceed their lifetime maximum.\<close>

definition qc_ok :: "'p nexus_env \<Rightarrow> 'p nexus \<Rightarrow> bool" where
  "qc_ok e s \<longleftrightarrow>
     nexus_keycode_pro_get_long_qc_code_count s \<le> QC_LONG_LIFETIME_MAX (config e) \<and>
     nexus_keycode_pro_get_short_qc_code_count s \<le> QC_SHORT_LIFETIME_MAX (config e)"

definition pro_inv :: "'p nexus_env \<Rightarrow> ('p \<Rightarrow> bool) \<Rightarrow> 'p nexus \<Rightarrow> bool" where
  "pro_inv e ok s \<longleftrightarrow> keycode_inv e ok s \<and> qc_ok e s"

text \<open>An operation of the protocol layer touches the product and the stored record only.\<close>

definition only_nv :: "'p nexus \<Rightarrow> 'p nexus \<Rightarrow> bool" where
  "only_nv s t \<longleftrightarrow> pro t = pro s \<and> mas t = mas s \<and> bookend t = bookend s \<and> common t = common s \<and>
     core_init_completed t = core_init_completed s"

lemma only_nv_refl [simp, intro]: "only_nv s s" by (simp add: only_nv_def)

lemma only_nv_trans [trans]: "only_nv s t \<Longrightarrow> only_nv t u \<Longrightarrow> only_nv s u" by (simp add: only_nv_def)

named_theorems only_nv_intros \<open>operations that touch the product and the stored record only\<close>

lemma only_nv_basic [only_nv_intros]:
  "only_nv s t \<Longrightarrow> only_nv s (on_stored f t)" "only_nv s t \<Longrightarrow> only_nv s (do_request_processing e t)"
  "only_nv s t \<Longrightarrow> only_nv s (do_feedback e fb t)" "only_nv s t \<Longrightarrow> only_nv s (do_credit_add e c t)"
  "only_nv s t \<Longrightarrow> only_nv s (do_credit_set e c t)" "only_nv s t \<Longrightarrow> only_nv s (do_credit_unlock e t)"
  "only_nv s t \<Longrightarrow> only_nv s (update_keycode_pro_nv_blocks e t)"
  "only_nv s t \<Longrightarrow> only_nv s (read_keycode_pro_nv_blocks e t)"
  "only_nv s t \<Longrightarrow> only_nv s (do_notify_custom_flag e flag v t)"
  "only_nv s t \<Longrightarrow> only_nv s (t\<lparr>plat := p\<rparr>)"
  by (simp_all add: only_nv_def read_keycode_pro_nv_blocks_def)

lemma only_nv_if [only_nv_intros]: "only_nv s t \<Longrightarrow> only_nv s u \<Longrightarrow> only_nv s (if b then t else u)"
  by simp

lemma only_nv_window [only_nv_intros]:
  assumes "only_nv s t"
  shows "only_nv s (nexus_keycode_pro_wipe_message_ids_in_window e t)"
    and "only_nv s (nexus_keycode_pro_reset_pd_index t)"
    and "only_nv s (nexus_keycode_pro_reset_test_code_count t)"
    and "only_nv s (nexus_keycode_pro_increase_pd_and_shift_window_right e inc t)"
    and "only_nv s (nexus_keycode_pro_increment_long_qc_test_message_count e t)"
    and "only_nv s (nexus_keycode_pro_increment_short_qc_test_message_count e t)"
    and "only_nv s (nx_keycode_set_custom_flag e flag t)"
    and "only_nv s (nexus_keycode_pro_reset_custom_flag e flag t)"
  unfolding nexus_keycode_pro_wipe_message_ids_in_window_def nexus_keycode_pro_reset_pd_index_def
    nexus_keycode_pro_reset_test_code_count_def nexus_keycode_pro_increase_pd_and_shift_window_right_def
    nexus_keycode_pro_increment_long_qc_test_message_count_def Let_def
    nexus_keycode_pro_increment_short_qc_test_message_count_def nx_keycode_set_custom_flag_def
    nexus_keycode_pro_reset_custom_flag_def
  by (intro only_nv_intros assms)+

lemma only_nv_flags [only_nv_intros]:
  assumes "only_nv s t"
  shows "only_nv s (snd (nexus_keycode_pro_get_full_message_id_flag e i t))"
    and "only_nv s (snd (snd (nexus_keycode_pro_update_window_and_message_mask_id e i t)))"
    and "only_nv s (nexus_keycode_pro_set_full_message_id_flag e i t)"
    and "only_nv s (nexus_keycode_pro_mask_below_message_id e i t)"
proof -
  show g: "only_nv s (snd (nexus_keycode_pro_get_full_message_id_flag e i t))"
    using only_nv_basic(8) [OF assms, of e]
    by (auto simp: nexus_keycode_pro_get_full_message_id_flag_def Let_def split: option.splits)
  have w: "only_nv s (snd (snd (nexus_keycode_pro_update_window_and_message_mask_id e i u)))"
    if "only_nv s u" for u i
    using only_nv_window(4) [OF that] that
    by (simp add: nexus_keycode_pro_update_window_and_message_mask_id_def Let_def)
  then show "only_nv s (snd (snd (nexus_keycode_pro_update_window_and_message_mask_id e i t)))"
    using assms .
  show "only_nv s (nexus_keycode_pro_set_full_message_id_flag e i t)"
    using g w [OF g, of i]
    by (auto simp: nexus_keycode_pro_set_full_message_id_flag_def split: prod.splits intro!: only_nv_basic(1,7))
  show "only_nv s (nexus_keycode_pro_mask_below_message_id e i t)"
    using assms w [OF assms, of "i - 1"]
    by (auto simp: nexus_keycode_pro_mask_below_message_id_def Let_def split: prod.splits intro!: only_nv_basic(1,7))
qed

lemma qc_ok_cong:
  "qc_test_codes_received (stored t) = qc_test_codes_received (stored s) \<Longrightarrow> qc_ok e t = qc_ok e s"
  by (simp add: qc_ok_def nexus_keycode_pro_get_long_qc_code_count_def
      nexus_keycode_pro_get_short_qc_code_count_def)

lemma qc_ok_zero: "qc_test_codes_received (stored t) = 0 \<Longrightarrow> qc_ok e t"
  by (simp add: qc_ok_def nexus_keycode_pro_get_long_qc_code_count_def
      nexus_keycode_pro_get_short_qc_code_count_def)

lemma qc_ok_increment:
  assumes "config_wf (config e)" "qc_ok e s"
  shows "qc_ok e (nexus_keycode_pro_increment_long_qc_test_message_count e s)"
    and "qc_ok e (nexus_keycode_pro_increment_short_qc_test_message_count e s)"
  using increment_long_qc [OF assms(1), of s] increment_short_qc [OF assms(1), of s] assms(2)
  by (auto simp: qc_ok_def word_le_nat_alt)

lemma qc_update_window:
  "qc_test_codes_received (stored (snd (snd (nexus_keycode_pro_update_window_and_message_mask_id e i s)))) =
     qc_test_codes_received (stored s)"
  by (simp add: nexus_keycode_pro_update_window_and_message_mask_id_def Let_def
      nexus_keycode_pro_increase_pd_and_shift_window_right_def pd_shifted_mask_def
      nexus_keycode_pro_wipe_message_ids_in_window_def)

lemma qc_mask_below:
  "qc_test_codes_received (stored (nexus_keycode_pro_mask_below_message_id e i s)) =
     qc_test_codes_received (stored s)"
  using qc_update_window [of e "i - 1" s]
  by (auto simp: nexus_keycode_pro_mask_below_message_id_def Let_def mask_all_up_to_def split: prod.splits)

lemma qc_set_full_message_id_flag:
  assumes "keycode_inv e ok s"
  shows "qc_test_codes_received (stored (nexus_keycode_pro_set_full_message_id_flag e i s)) =
     qc_test_codes_received (stored s)"
  using qc_update_window [of e i s]
  by (auto simp: nexus_keycode_pro_set_full_message_id_flag_def get_full_message_id_flag_recd [OF assms]
      split: prod.splits)

lemma pro_inv_cong:
  assumes "pro_inv e ok s" "keycode_inv e ok t" "qc_test_codes_received (stored t) = qc_test_codes_received (stored s)"
  shows "pro_inv e ok t"
  using assms qc_ok_cong [of t s e] by (simp add: pro_inv_def)

lemma pro_invD: "pro_inv e ok s \<Longrightarrow> keycode_inv e ok s"
  by (simp add: pro_inv_def)

context product_port
begin

lemma pro_inv_do:
  assumes "pro_inv e ok s"
  shows "pro_inv e ok (do_request_processing e s)" "pro_inv e ok (do_feedback e t s)"
    "pro_inv e ok (do_credit_add e c s)" "pro_inv e ok (do_credit_set e c s)" "pro_inv e ok (do_credit_unlock e s)"
  by (rule pro_inv_cong [OF assms]; simp add: keycode_inv_do pro_invD [OF assms])+

lemma pro_inv_window:
  assumes "pro_inv e ok s"
  shows "pro_inv e ok (nexus_keycode_pro_set_full_message_id_flag e i s)"
    "pro_inv e ok (nexus_keycode_pro_mask_below_message_id e i s)"
    "pro_inv e ok (nexus_keycode_pro_wipe_message_ids_in_window e s)"
    "pro_inv e ok (nx_keycode_set_custom_flag e flag s)"
    "pro_inv e ok (nexus_keycode_pro_reset_custom_flag e flag s)"
proof -
  note inv = keycode_inv_ops [OF pro_invD [OF assms]]
  show "pro_inv e ok (nexus_keycode_pro_set_full_message_id_flag e i s)"
    "pro_inv e ok (nexus_keycode_pro_mask_below_message_id e i s)"
    by (rule pro_inv_cong [OF assms inv(7)] pro_inv_cong [OF assms inv(8)];
        simp only: qc_mask_below qc_set_full_message_id_flag [OF pro_invD [OF assms]])+
  show "pro_inv e ok (nexus_keycode_pro_wipe_message_ids_in_window e s)"
    "pro_inv e ok (nx_keycode_set_custom_flag e flag s)"
    "pro_inv e ok (nexus_keycode_pro_reset_custom_flag e flag s)"
    by (rule pro_inv_cong [OF assms inv(13)] pro_inv_cong [OF assms inv(11)] pro_inv_cong [OF assms inv(12)];
        simp add: nx_keycode_set_custom_flag_def nexus_keycode_pro_reset_custom_flag_def
          nexus_keycode_pro_wipe_message_ids_in_window_def)+
qed

lemma pro_inv_increment:
  assumes "pro_inv e ok s" "config_wf (config e)"
  shows "pro_inv e ok (nexus_keycode_pro_increment_long_qc_test_message_count e s)"
    "pro_inv e ok (nexus_keycode_pro_increment_short_qc_test_message_count e s)"
  using assms keycode_inv_qc_flags [of s] qc_ok_increment [of e s] by (auto simp: pro_inv_def)

lemmas pro_inv_ops = pro_inv_do pro_inv_window pro_inv_increment

end

section \<open>Properties that the protocol layer keeps\<close>

text \<open>
  The contract between the window, credit and feedback operations and the code that processes
  frames: a state property that each operation keeps is kept by the processing of a whole frame.
\<close>

locale pro_closed =
  fixes e :: "'p nexus_env" and P :: "'p nexus \<Rightarrow> bool"
  assumes closed_feedback: "P s \<Longrightarrow> P (do_feedback e t s)"
    and closed_credit: "P s \<Longrightarrow> P (do_credit_add e c s)" "P s \<Longrightarrow> P (do_credit_set e c s)"
      "P s \<Longrightarrow> P (do_credit_unlock e s)"
    and closed_get: "P s \<Longrightarrow> P (snd (nexus_keycode_pro_get_full_message_id_flag e i s))"
    and closed_set: "P s \<Longrightarrow> P (nexus_keycode_pro_set_full_message_id_flag e i s)"
    and closed_mask: "P s \<Longrightarrow> P (nexus_keycode_pro_mask_below_message_id e i s)"
    and closed_wipe: "P s \<Longrightarrow> P (nexus_keycode_pro_wipe_message_ids_in_window e
      (nexus_keycode_pro_reset_test_code_count (nexus_keycode_pro_reset_pd_index s)))"
    and closed_flag: "P s \<Longrightarrow> P (nexus_keycode_pro_reset_custom_flag e flag s)"
    and closed_increment: "P s \<Longrightarrow> P (nexus_keycode_pro_increment_long_qc_test_message_count e s)"
      "P s \<Longrightarrow> P (nexus_keycode_pro_increment_short_qc_test_message_count e s)"
    and closed_passthrough: "P s \<Longrightarrow> P (s\<lparr>plat := snd (nxp_keycode_passthrough_keycode e keys len (plat s))\<rparr>)"
begin

lemmas closed_ops = closed_feedback closed_credit closed_set closed_mask closed_wipe closed_flag closed_increment

end

interpretation nv_frame: pro_closed e "only_nv s" for e :: "'p nexus_env" and s :: "'p nexus"
  by unfold_locales (intro only_nv_intros; assumption)+

text \<open>A product port in a build whose configuration passes the checks.\<close>

locale nexus_product = product_port +
  assumes config_checks: "config_wf (config e)"

sublocale nexus_product \<subseteq> kept: pro_closed e "pro_inv e ok"
proof
  fix s assume inv: "pro_inv e ok s"
  note d = keycode_invD [OF pro_invD [OF inv]]
  show "pro_inv e ok (snd (nexus_keycode_pro_get_full_message_id_flag e i s))" for i
    using inv by (simp add: get_full_message_id_flag_recd [OF pro_invD [OF inv]])
  let ?t = "nexus_keycode_pro_reset_test_code_count (nexus_keycode_pro_reset_pd_index s)"
  have "ok (plat ?t)" "stored_ok (stored ?t)"
    using d by (simp_all add: nexus_keycode_pro_reset_test_code_count_def nexus_keycode_pro_reset_pd_index_def
        stored_ok_def)
  then have "keycode_inv e ok (nexus_keycode_pro_wipe_message_ids_in_window e ?t)" by (rule wipe_spec(1))
  moreover have "qc_ok e (nexus_keycode_pro_wipe_message_ids_in_window e ?t)"
    by (rule qc_ok_zero) (simp add: nexus_keycode_pro_wipe_message_ids_in_window_def
        nexus_keycode_pro_reset_test_code_count_def)
  ultimately show "pro_inv e ok (nexus_keycode_pro_wipe_message_ids_in_window e ?t)" by (simp add: pro_inv_def)
  show "pro_inv e ok (s\<lparr>plat := snd (nxp_keycode_passthrough_keycode e keys len (plat s))\<rparr>)" for keys len
    by (rule pro_inv_cong [OF inv keycode_inv_callbacks(7) [OF pro_invD [OF inv]]]) simp
qed (rule pro_inv_ops; (assumption | rule config_checks))+

interpretation sample_nexus: nexus_product "sample_env user_config junk (\<lambda>_ _ p. p)" nv_log_ok
  by unfold_locales (simp add: sample_env_def config_wf_user_config)

lemma nexus_product_blank: "nexus_product blank_env nv_log_ok"
  unfolding blank_env_def by (rule sample_nexus.nexus_product_axioms)

end
