(* ===== verification/Nexus_Check.thy ===== *)
theory Nexus_Check
  imports Nexus_Siphash
begin

text \<open>
  Check values and pseudorandom bytes of \<^verbatim>\<open>nexus/src/nexus_util.c\<close>, and the byte order
  helpers of \<^verbatim>\<open>nexus_util.h\<close> on a little-endian host.
\<close>

section \<open>The code\<close>

definition NEXUS_INTEGRITY_CHECK_FIXED_00_KEY :: bytes where
  "NEXUS_INTEGRITY_CHECK_FIXED_00_KEY = replicate 16 0x00"

definition NEXUS_INTEGRITY_CHECK_FIXED_FF_KEY :: bytes where
  "NEXUS_INTEGRITY_CHECK_FIXED_FF_KEY = replicate 16 0xFF"

definition nexus_check_compute :: "bytes \<Rightarrow> bytes \<Rightarrow> u16 \<Rightarrow> bytes" where
  "nexus_check_compute key data data_size = siphash24_compute data (ucast data_size) key"

text \<open>The \<open>output_size\<close> bytes that are copied to the output.\<close>

definition nexus_check_compute_pseudorandom_bytes :: "bytes \<Rightarrow> bytes \<Rightarrow> u16 \<Rightarrow> u16 \<Rightarrow> bytes" where
  "nexus_check_compute_pseudorandom_bytes key seed seed_size output_size =
     (let seed_bytes = memcpy_at 1 (take (unat seed_size) seed) (replicate 5 0x00);
          chunk = nexus_check_compute key seed_bytes (seed_size + 1)
      in take (unat output_size) chunk)"

definition nexus_check_value_as_uint64 :: "bytes \<Rightarrow> u64" where
  "nexus_check_value_as_uint64 value = U8TO64_LE value"

definition nexus_endian_htobe16 :: "u16 \<Rightarrow> u16" where
  "nexus_endian_htobe16 host = ucast (drop_bit 8 (ucast host :: u32) OR push_bit 8 (ucast host))"

definition nexus_endian_htobe32 :: "u32 \<Rightarrow> u32" where
  "nexus_endian_htobe32 host =
     le_u32 [ucast (drop_bit 24 host), ucast (drop_bit 16 (host AND 0x00FF0000)),
             ucast (drop_bit 8 (host AND 0x0000FF00)), ucast (host AND 0xFF)]"

definition nexus_endian_be16toh :: "u16 \<Rightarrow> u16" where
  "nexus_endian_be16toh big_endian =
     (let bytes = u16_le big_endian
      in push_bit 8 (ucast (bytes ! 0)) OR ucast (bytes ! 1))"

definition nexus_endian_htole16 :: "u16 \<Rightarrow> u16" where
  "nexus_endian_htole16 host =
     le_u16 [ucast (host AND 0xFF), ucast (drop_bit 8 (host AND 0xFF00))]"

definition nexus_endian_htole32 :: "u32 \<Rightarrow> u32" where
  "nexus_endian_htole32 host =
     le_u32 [ucast (host AND 0xFF), ucast (drop_bit 8 (host AND 0x0000FF00)),
             ucast (drop_bit 16 (host AND 0x00FF0000)), ucast (drop_bit 24 host)]"

definition u32min :: "u32 \<Rightarrow> u32 \<Rightarrow> u32" where
  "u32min lhs rhs = (if lhs < rhs then lhs else rhs)"

section \<open>Lemmas\<close>

lemma u32min_min: "u32min a b = min a b"
  by (auto simp: u32min_def min_def)

lemma length_U64TO8_LE [simp]: "length (U64TO8_LE v) = 8"
  by (simp add: U64TO8_LE_def)

lemma length_nexus_check_compute [simp]: "length (nexus_check_compute k d n) = 8"
  by (simp add: nexus_check_compute_def siphash24_compute_def Let_def)

lemma u8_no_bit: "8 \<le> n \<Longrightarrow> \<not> bit (w :: u8) n"
  using bit_imp_le_length [of w n] by auto

lemma bit_U8TO64_LE_index:
  assumes "r < 8" "q \<in> {7, 6, 5, 4, 3, 2, 1, 0}"
  shows "bit (U8TO64_LE p) (8 * q + r) \<longleftrightarrow> bit (p ! q) r"
  using assms(2,1)
  by (elim insertE emptyE) (simp_all add: U8TO64_LE_def bit_simps u8_no_bit)

lemma bit_U64TO8_LE_index:
  assumes "r < 8" "q \<in> {7, 6, 5, 4, 3, 2, 1, 0}"
  shows "bit (U64TO8_LE v ! q) r \<longleftrightarrow> bit v (8 * q + r)"
  using assms(2,1)
  by (elim insertE emptyE) (simp_all add: U64TO8_LE_def u32_le_def bit_simps add.commute)

lemma U8TO64_LE_U64TO8_LE: "U8TO64_LE (U64TO8_LE v) = v"
proof (rule bit_word_eqI)
  fix n assume "n < LENGTH(64)"
  then have q: "n div 8 \<in> {7, 6, 5, 4, 3, 2, 1, 0}" by (intro less_8_cases) simp
  have r: "n mod 8 < 8" by simp
  have n: "8 * (n div 8) + n mod 8 = n" by (rule mult_div_mod_eq)
  show "bit (U8TO64_LE (U64TO8_LE v)) n = bit v n"
    using bit_U8TO64_LE_index [OF r q, of "U64TO8_LE v"] bit_U64TO8_LE_index [OF r q, of v]
    by (simp only: n)
qed

lemma nexus_check_compute_message:
  "length msg < 65536 \<Longrightarrow> unat data_size = length msg \<Longrightarrow>
   nexus_check_compute key (msg @ rest) data_size = U64TO8_LE (siphash_reference key msg)"
  unfolding nexus_check_compute_def
  by (rule siphash24_compute_reference) (simp add: unat_ucast_le)

lemma nexus_endian_htobe16_twice: "nexus_endian_be16toh (nexus_endian_htobe16 w) = w"
  by (rule bit_word_eqI)
    (auto simp: nexus_endian_be16toh_def nexus_endian_htobe16_def u16_le_def bit_simps
      dest: bit_imp_le_length)

end
