(* ===== verification/Keycode_Small.thy ===== *)
theory Keycode_Small
  imports Keycode_Window Nexus_Bitstream Nexus_Check
begin

text \<open>
  The small-alphabet keycode protocol of \<^verbatim>\<open>nexus/src/nexus_keycode_pro.c\<close> and its extended
  messages (\<^verbatim>\<open>nexus_keycode_pro_extended.c\<close>): 14 keys of a four-letter alphabet carry 28
  bits, 16 of them obfuscated with a pseudorandom stream seeded by the 12 check bits.
\<close>

section \<open>Message identifiers\<close>

text \<open>
  The search of \<^verbatim>\<open>nexus_keycode_pro_infer_full_message_id\<close>. The loop leaves the window after at
  most \<open>below + above + 1\<close> rounds, which is the fuel; \<open>infer_loop_leaves\<close> below shows that it
  ends on the loop's own exit conditions.
\<close>

fun infer_full_message_id_loop :: "nat \<Rightarrow> u32 \<Rightarrow> u8 \<Rightarrow> u32 \<Rightarrow> u32" where
  "infer_full_message_id_loop 0 max_id compressed_message_id cur_id = cur_id"
| "infer_full_message_id_loop (Suc n) max_id compressed_message_id cur_id =
     (if cur_id \<le> max_id
      then if cur_id AND 0x3F = ucast compressed_message_id then cur_id
           else infer_full_message_id_loop n max_id compressed_message_id (cur_id + 1)
      else cur_id)"

definition nexus_keycode_pro_infer_full_message_id :: "u8 \<Rightarrow> u32 \<Rightarrow> u8 \<Rightarrow> u8 \<Rightarrow> u32" where
  "nexus_keycode_pro_infer_full_message_id compressed_message_id current_pd_index
      valid_id_count_below valid_id_count_above =
     infer_full_message_id_loop (unat valid_id_count_below + unat valid_id_count_above + 1)
       (current_pd_index + ucast valid_id_count_above) compressed_message_id
       (current_pd_index - ucast valid_id_count_below)"

section \<open>Responses and constants\<close>

datatype nexus_keycode_pro_response =
    RESPONSE_INVALID | RESPONSE_VALID_DUPLICATE | RESPONSE_VALID_APPLIED
  | RESPONSE_DISPLAY_DEVICE_ID | RESPONSE_NONE

abbreviation (input) NEXUS_KEYCODE_PRO_SECONDS_IN_DAY :: u32 where "NEXUS_KEYCODE_PRO_SECONDS_IN_DAY \<equiv> 86400"
abbreviation (input) NEXUS_KEYCODE_PRO_UNIVERSAL_SHORT_TEST_SECONDS :: u32 where
  "NEXUS_KEYCODE_PRO_UNIVERSAL_SHORT_TEST_SECONDS \<equiv> 127"
abbreviation (input) NEXUS_KEYCODE_PRO_SMALL_UNLOCK_INCREMENT :: u16 where
  "NEXUS_KEYCODE_PRO_SMALL_UNLOCK_INCREMENT \<equiv> UINT16_MAX"
abbreviation (input) SMALL_ACTIVATION_ADD_CREDIT_TYPE :: u8 where "SMALL_ACTIVATION_ADD_CREDIT_TYPE \<equiv> 0"
abbreviation (input) SMALL_TYPE_PASSTHROUGH :: u8 where "SMALL_TYPE_PASSTHROUGH \<equiv> 1"
abbreviation (input) SMALL_ACTIVATION_SET_CREDIT_TYPE :: u8 where "SMALL_ACTIVATION_SET_CREDIT_TYPE \<equiv> 2"
abbreviation (input) SMALL_MAINTENANCE_OR_TEST_TYPE :: u8 where "SMALL_MAINTENANCE_OR_TEST_TYPE \<equiv> 3"

text \<open>The body is a union of two one-byte structs: increment and function identifier.\<close>

record small_message =
  sm_full_message_id :: u32
  sm_type_code :: u8
  sm_body :: u8
  sm_check :: u16

definition small_message_bytes :: "small_message \<Rightarrow> bytes" where
  "small_message_bytes m = u32_le (sm_full_message_id m) @ [sm_type_code m, sm_body m] @ u16_le (sm_check m)"

definition nexus_keycode_pro_small_compute_check :: "small_message \<Rightarrow> bytes \<Rightarrow> u16" where
  "nexus_keycode_pro_small_compute_check message key =
     (let v = nexus_check_compute key (small_message_bytes message) 6
      in ucast (push_bit 4 (ucast (v ! 7) :: u32) OR drop_bit 4 (ucast (v ! 6))))"

definition nexus_keycode_pro_small_get_add_credit_increment_days :: "u8 \<Rightarrow> u16" where
  "nexus_keycode_pro_small_get_add_credit_increment_days increment_id =
     (if increment_id = 255 then NEXUS_KEYCODE_PRO_SMALL_UNLOCK_INCREMENT
      else if increment_id < 180 then word_of_int (uint increment_id + 1)
      else word_of_int ((uint increment_id - 179) * 3 + 180))"

definition nexus_keycode_pro_small_get_set_credit_increment_days :: "u8 \<Rightarrow> u16" where
  "nexus_keycode_pro_small_get_set_credit_increment_days increment_id =
     (if increment_id < 90 then word_of_int (uint increment_id + 1)
      else if increment_id < 135 then word_of_int ((uint increment_id - 89) * 2 + 90)
      else if increment_id < 180 then word_of_int ((uint increment_id - 134) * 4 + 180)
      else if increment_id < 225 then word_of_int ((uint increment_id - 179) * 8 + 360)
      else if increment_id < 240 then word_of_int ((uint increment_id - 224) * 16 + 720)
      else if increment_id = 254 then 0
      else if increment_id = 255 then NEXUS_KEYCODE_PRO_SMALL_UNLOCK_INCREMENT
      else 0)"

section \<open>Extended messages: \<^verbatim>\<open>nexus_keycode_pro_extended.c\<close>\<close>

record extended_small_message =
  ex_inferred_message_id :: u32
  ex_type_code :: u8
  ex_truncated_message_id :: u8
  ex_increment_id :: u8
  ex_check :: u16

abbreviation (input) EXTENDED_SMALL_TYPE_SET_CREDIT_AND_WIPE_FLAG :: u8 where
  "EXTENDED_SMALL_TYPE_SET_CREDIT_AND_WIPE_FLAG \<equiv> 0"

text \<open>\<open>None\<close> is the return value \<^verbatim>\<open>false\<close>. The message starts out uninitialised.\<close>

definition nexus_keycode_pro_extended_small_parse ::
    "nexus_bitstream \<Rightarrow> extended_small_message \<Rightarrow> extended_small_message option" where
  "nexus_keycode_pro_extended_small_parse command_bitstream m =
     (case nexus_bitstream_pull_uint8 command_bitstream 3 of (type_code, bs) \<Rightarrow>
        if type_code \<noteq> EXTENDED_SMALL_TYPE_SET_CREDIT_AND_WIPE_FLAG then None
        else case nexus_bitstream_pull_uint8 bs 2 of (truncated, bs) \<Rightarrow>
          case nexus_bitstream_pull_uint8 bs 8 of (increment, bs) \<Rightarrow>
          case nexus_bitstream_pull_uint16_be bs 12 of (check, bs) \<Rightarrow>
            Some (m\<lparr>ex_type_code := type_code, ex_truncated_message_id := truncated,
                    ex_increment_id := increment, ex_check := check\<rparr>))"

definition extended_small_auth_arbitrary_bytes :: "bytes \<Rightarrow> u8 \<Rightarrow> bytes \<Rightarrow> u16" where
  "extended_small_auth_arbitrary_bytes bytes bytes_count key =
     ucast (drop_bit 52 (nexus_check_value_as_uint64 (nexus_check_compute key bytes (ucast bytes_count))))"

definition extended_small_message_infer_inner_compute_auth ::
    "extended_small_message \<Rightarrow> bytes \<Rightarrow> bool" where
  "extended_small_message_infer_inner_compute_auth m secret_key =
     (let compute_bytes = memcpy_at 0 (u32_le (nexus_endian_htole32 (ex_inferred_message_id m))) (replicate 10 0);
          compute_bytes = compute_bytes[4 := ex_type_code m]
      in if ex_type_code m = EXTENDED_SMALL_TYPE_SET_CREDIT_AND_WIPE_FLAG
         then
           let compute_bytes = compute_bytes[5 := ex_increment_id m, 6 := ex_truncated_message_id m];
               computed_check = extended_small_auth_arbitrary_bytes compute_bytes 7 secret_key
           in computed_check = ex_check m
         else False)"

text \<open>
  The search through the window; the fuel is the number of identifiers in it and one round
  for the exit.
\<close>

fun infer_windowed_loop ::
    "nat \<Rightarrow> nexus_window \<Rightarrow> bytes \<Rightarrow> extended_small_message \<Rightarrow> bool \<times> extended_small_message" where
  "infer_windowed_loop 0 window secret_key m = (False, m)"
| "infer_windowed_loop (Suc n) window secret_key m =
     (if \<not> nexus_util_window_id_within_window window (ex_inferred_message_id m) then (False, m)
      else if ex_inferred_message_id m AND 0x03 = ucast (ex_truncated_message_id m) \<and>
          \<not> nexus_util_window_id_flag_already_set window (ex_inferred_message_id m) \<and>
          extended_small_message_infer_inner_compute_auth m secret_key
        then (True, m)
      else infer_windowed_loop n window secret_key
        (m\<lparr>ex_inferred_message_id := ex_inferred_message_id m + 1\<rparr>))"

definition nexus_keycode_pro_extended_small_infer_windowed_message_id ::
    "extended_small_message \<Rightarrow> nexus_window \<Rightarrow> bytes \<Rightarrow> bool \<times> extended_small_message" where
  "nexus_keycode_pro_extended_small_infer_windowed_message_id m window secret_key =
     (let m = m\<lparr>ex_inferred_message_id := wn_center_index window - ucast (wn_flags_below window)\<rparr>
      in if ex_type_code m \<noteq> EXTENDED_SMALL_TYPE_SET_CREDIT_AND_WIPE_FLAG then (False, m)
         else infer_windowed_loop (unat (wn_flags_below window) + unat (wn_flags_above window) + 2)
           window secret_key m)"

definition nexus_keycode_pro_extended_small_apply ::
    "'p nexus_env \<Rightarrow> extended_small_message \<Rightarrow> 'p nexus \<Rightarrow> nexus_keycode_pro_response \<times> 'p nexus" where
  "nexus_keycode_pro_extended_small_apply e m s =
     (let window = nexus_keycode_pro_get_current_message_id_window s;
          secret_key = get_secret_key e s
      in case nexus_keycode_pro_extended_small_infer_windowed_message_id m window secret_key of
        (validated, m) \<Rightarrow>
          if \<not> validated then (RESPONSE_INVALID, do_feedback e FEEDBACK_TYPE_MESSAGE_INVALID s)
          else
            let increment_days = nexus_keycode_pro_small_get_set_credit_increment_days (ex_increment_id m);
                s = (if increment_days \<noteq> NEXUS_KEYCODE_PRO_SMALL_UNLOCK_INCREMENT
                     then do_credit_set e (ucast increment_days * NEXUS_KEYCODE_PRO_SECONDS_IN_DAY) s
                     else do_credit_unlock e s);
                s = nexus_keycode_pro_mask_below_message_id e (ucast (ex_inferred_message_id m) + 1) s;
                s = nexus_keycode_pro_reset_custom_flag e NX_KEYCODE_CUSTOM_FLAG_RESTRICTED s
            in (RESPONSE_VALID_APPLIED, do_feedback e FEEDBACK_TYPE_MESSAGE_APPLIED s))"

text \<open>The uninitialised message of the caller; its field \<^verbatim>\<open>raw_body_bits\<close>, which no code uses, is left out.\<close>

definition junk_extended_message :: "'p nexus_env \<Rightarrow> extended_small_message" where
  "junk_extended_message e = \<lparr>ex_inferred_message_id = le_u32 (junk_bytes e 64 4),
     ex_type_code = uninit e 68, ex_truncated_message_id = uninit e 69, ex_increment_id = uninit e 70,
     ex_check = le_u16 (junk_bytes e 71 2)\<rparr>"

definition nexus_keycode_pro_extended_small_parse_and_apply_keycode ::
    "'p nexus_env \<Rightarrow> nexus_bitstream \<Rightarrow> 'p nexus \<Rightarrow> bool \<times> 'p nexus" where
  "nexus_keycode_pro_extended_small_parse_and_apply_keycode e passthrough_command_bitstream s =
     (case nexus_keycode_pro_extended_small_parse passthrough_command_bitstream (junk_extended_message e) of
        None \<Rightarrow> (False, do_feedback e FEEDBACK_TYPE_MESSAGE_INVALID s)
      | Some message \<Rightarrow>
          case nexus_keycode_pro_extended_small_apply e message s of (response, s) \<Rightarrow>
            (response = RESPONSE_VALID_APPLIED, s))"

section \<open>Parsing\<close>

definition nexus_keycode_pro_small_internal_bitstream_passthrough ::
    "'p nexus_env \<Rightarrow> nexus_bitstream \<Rightarrow> 'p nexus \<Rightarrow> nxp_keycode_passthrough_error \<times> 'p nexus" where
  "nexus_keycode_pro_small_internal_bitstream_passthrough e passthrough_bitstream s =
     (case nexus_bitstream_pull_bit passthrough_bitstream of (b, bs) \<Rightarrow>
        if \<not> b then (PASSTHROUGH_ERROR_DATA_UNRECOGNIZED, s)
        else case nexus_keycode_pro_extended_small_parse_and_apply_keycode e bs s of (_, s) \<Rightarrow>
          (PASSTHROUGH_ERROR_NONE, s))"

text \<open>The two loops of the obfuscation: XOR with the pseudorandom stream, then plain copy.\<close>

fun obfuscate_loop :: "nat \<Rightarrow> nexus_bitstream \<Rightarrow> nexus_bitstream \<Rightarrow> nexus_bitstream \<Rightarrow>
    nexus_bitstream \<times> nexus_bitstream \<times> nexus_bitstream" where
  "obfuscate_loop 0 inp out prng = (inp, out, prng)"
| "obfuscate_loop (Suc n) inp out prng =
     (case nexus_bitstream_pull_bit inp of (a, inp) \<Rightarrow>
      case nexus_bitstream_pull_bit prng of (b, prng) \<Rightarrow>
        obfuscate_loop n inp (nexus_bitstream_push_bit out (a \<noteq> b)) prng)"

fun copy_bits_loop :: "nat \<Rightarrow> nexus_bitstream \<Rightarrow> nexus_bitstream \<Rightarrow> nexus_bitstream \<times> nexus_bitstream" where
  "copy_bits_loop 0 inp out = (inp, out)"
| "copy_bits_loop (Suc n) inp out =
     (case nexus_bitstream_pull_bit inp of (a, inp) \<Rightarrow>
        copy_bits_loop n inp (nexus_bitstream_push_bit out a))"

definition nexus_keycode_pro_small_reversibly_obfuscate ::
    "nexus_bitstream \<Rightarrow> nexus_bitstream \<Rightarrow> nexus_bitstream \<Rightarrow> u8 \<Rightarrow> nexus_bitstream \<times> nexus_bitstream" where
  "nexus_keycode_pro_small_reversibly_obfuscate inp out prng obfuscation_bit_count =
     (let out = nexus_bitstream_set_bit_position out 0;
          inp = nexus_bitstream_set_bit_position inp 0;
          prng = nexus_bitstream_set_bit_position prng 0
      in case obfuscate_loop (unat obfuscation_bit_count) inp out prng of (inp, out, prng) \<Rightarrow>
        copy_bits_loop (unat (bs_length inp) - unat (bs_position inp)) inp out)"

definition nexus_keycode_pro_small_internal_extract_passthrough_message ::
    "nexus_bitstream \<Rightarrow> nexus_bitstream \<Rightarrow> nexus_bitstream \<times> nexus_bitstream" where
  "nexus_keycode_pro_small_internal_extract_passthrough_message passthrough deobscured =
     (let deobscured = nexus_bitstream_set_bit_position deobscured 0;
          passthrough = nexus_bitstream_set_bit_position passthrough 0
      in case copy_bits_loop 6 deobscured passthrough of (deobscured, passthrough) \<Rightarrow>
         case copy_bits_loop 20 (nexus_bitstream_set_bit_position deobscured 8) passthrough of
           (deobscured, passthrough) \<Rightarrow> (passthrough, deobscured))"

text \<open>The position of a key in the alphabet, for the search over \<^verbatim>\<open>_this_protocol.alphabet\<close>.\<close>

fun alphabet_index :: "bytes \<Rightarrow> u8 \<Rightarrow> u8 \<Rightarrow> u8 option" where
  "alphabet_index [] key j = None"
| "alphabet_index (c # cs) key j = (if key = c then Some j else alphabet_index cs key (j + 1))"

text \<open>The keys of the frame pushed as two bits each; \<open>None\<close> rejects a key outside the alphabet.\<close>

fun small_push_keys :: "bytes \<Rightarrow> bytes \<Rightarrow> nat \<Rightarrow> nexus_bitstream \<Rightarrow> nexus_bitstream option" where
  "small_push_keys alph [] i bs = Some bs"
| "small_push_keys alph (key # keys) i bs =
     (let bs = (case alphabet_index alph key 0 of None \<Rightarrow> bs | Some j \<Rightarrow> nexus_bitstream_push_uint8 bs j 2)
      in if unat (nexus_bitstream_length_in_bits bs) \<noteq> (i + 1) * 2 then None
         else small_push_keys alph keys (i + 1) bs)"

text \<open>
  \<^verbatim>\<open>nexus_keycode_pro_small_parse\<close>: the verdict, the message and the state, which changes when
  the message is a passthrough message that is handled on the spot.
\<close>

definition nexus_keycode_pro_small_parse ::
    "'p nexus_env \<Rightarrow> nexus_keycode_frame \<Rightarrow> small_message \<Rightarrow> 'p nexus \<Rightarrow> bool \<times> small_message \<times> 'p nexus" where
  "nexus_keycode_pro_small_parse e fr message s =
     (if fr_length fr \<noteq> 14 then (False, message, s)
      else
        case small_push_keys (alphabet (pro s)) (take 14 (fr_keys fr)) 0
            (nexus_bitstream_init (junk_bytes e 0 4) 32 0) of
          None \<Rightarrow> (False, message, s)
        | Some message_bitstream \<Rightarrow>
          case nexus_bitstream_pull_uint16_be (nexus_bitstream_set_bit_position message_bitstream 16) 12 of
            (check, message_bitstream) \<Rightarrow>
          let check = nexus_endian_htobe16 check;
              prng_bytes = nexus_check_compute_pseudorandom_bytes NEXUS_INTEGRITY_CHECK_FIXED_00_KEY
                (u16_le check) 2 4;
              check = nexus_endian_be16toh check;
              prng_bitstream = nexus_bitstream_init prng_bytes 32 32;
              deobfuscated_bitstream = nexus_bitstream_init (junk_bytes e 4 4) 32 0
          in case nexus_keycode_pro_small_reversibly_obfuscate message_bitstream deobfuscated_bitstream
              prng_bitstream 16 of (_, deobfuscated_bitstream) \<Rightarrow>
          let deobfuscated_bitstream = nexus_bitstream_set_bit_position deobfuscated_bitstream 0
          in case nexus_bitstream_pull_uint8 deobfuscated_bitstream 6 of (received_message_id, bs) \<Rightarrow>
             case nexus_bitstream_pull_uint8 bs 2 of (type_code, bs) \<Rightarrow>
             case nexus_bitstream_pull_uint8 bs 8 of (increment_id, bs) \<Rightarrow>
          let full_message_id = (if type_code = SMALL_ACTIVATION_ADD_CREDIT_TYPE \<or>
                  type_code = SMALL_ACTIVATION_SET_CREDIT_TYPE
                then nexus_keycode_pro_infer_full_message_id received_message_id (pd_index (stored s))
                  NEXUS_KEYCODE_PRO_RECEIVE_WINDOW_BEFORE_PD NEXUS_KEYCODE_PRO_RECEIVE_WINDOW_AFTER_PD
                else ucast received_message_id);
              message = message\<lparr>sm_full_message_id := full_message_id, sm_type_code := type_code,
                sm_body := increment_id, sm_check := check\<rparr>
          in if type_code = SMALL_TYPE_PASSTHROUGH
             then
               let passthrough_bitstream = nexus_bitstream_init (junk_bytes e 8 4) 32 0
               in case nexus_keycode_pro_small_internal_extract_passthrough_message passthrough_bitstream bs of
                 (passthrough_bitstream, _) \<Rightarrow>
                  case nexus_keycode_pro_small_internal_bitstream_passthrough e
                      (nexus_bitstream_set_bit_position passthrough_bitstream 0) s of
                    (result, s) \<Rightarrow> (result = PASSTHROUGH_ERROR_NONE, message, s)
             else (True, message, s))"

section \<open>Applying\<close>

text \<open>The effects of a valid set-credit message after the identifiers are masked.\<close>

definition small_apply_set_credit :: "'p nexus_env \<Rightarrow> u8 \<Rightarrow> 'p nexus \<Rightarrow> 'p nexus" where
  "small_apply_set_credit e increment_id s =
     (if increment_id = 255 then do_credit_unlock e s
      else if increment_id = 254 then do_credit_set e 0 s
      else if increment_id = 253 then nexus_keycode_pro_reset_custom_flag e NX_KEYCODE_CUSTOM_FLAG_RESTRICTED s
      else do_credit_set e (ucast (nexus_keycode_pro_small_get_set_credit_increment_days increment_id) *
        NEXUS_KEYCODE_PRO_SECONDS_IN_DAY) s)"

definition wipe_mask :: "'p nexus_env \<Rightarrow> 'p nexus \<Rightarrow> 'p nexus" where
  "wipe_mask e s =
     nexus_keycode_pro_wipe_message_ids_in_window e
       (nexus_keycode_pro_reset_test_code_count (nexus_keycode_pro_reset_pd_index s))"

definition small_apply_activation ::
    "'p nexus_env \<Rightarrow> small_message \<Rightarrow> 'p nexus \<Rightarrow> nexus_keycode_pro_response \<times> 'p nexus" where
  "small_apply_activation e m s =
     (case nexus_keycode_pro_get_full_message_id_flag e (ucast (sm_full_message_id m)) s of (already_set, s) \<Rightarrow>
        if already_set then (RESPONSE_VALID_DUPLICATE, s)
        else if sm_type_code m = SMALL_ACTIVATION_SET_CREDIT_TYPE then
          (RESPONSE_VALID_APPLIED, small_apply_set_credit e (sm_body m)
            (nexus_keycode_pro_mask_below_message_id e (ucast (sm_full_message_id m + 1)) s))
        else if sm_type_code m = SMALL_ACTIVATION_ADD_CREDIT_TYPE then
          let s = nexus_keycode_pro_set_full_message_id_flag e (ucast (sm_full_message_id m)) s
          in if get_payg_state e s \<noteq> NXP_COMMON_PAYG_STATE_UNLOCKED then
               let increment_days = nexus_keycode_pro_small_get_add_credit_increment_days (sm_body m)
               in (RESPONSE_VALID_APPLIED,
                   if increment_days = NEXUS_KEYCODE_PRO_SMALL_UNLOCK_INCREMENT then do_credit_unlock e s
                   else do_credit_add e (ucast increment_days * NEXUS_KEYCODE_PRO_SECONDS_IN_DAY) s)
             else (RESPONSE_VALID_DUPLICATE, s)
        else (RESPONSE_INVALID, s))"

definition small_apply_maintenance ::
    "'p nexus_env \<Rightarrow> small_message \<Rightarrow> 'p nexus \<Rightarrow> nexus_keycode_pro_response \<times> 'p nexus" where
  "small_apply_maintenance e m s =
     (let fn = sm_body m AND 0x7F
      in if fn = 1 then (RESPONSE_VALID_APPLIED, do_credit_set e 0 (wipe_mask e s))
         else if fn = 0 then (RESPONSE_VALID_APPLIED, do_credit_set e 0 s)
         else if fn = 2 then (RESPONSE_VALID_APPLIED, wipe_mask e s)
         else (RESPONSE_INVALID, s))"

definition small_apply_test ::
    "'p nexus_env \<Rightarrow> small_message \<Rightarrow> 'p nexus \<Rightarrow> nexus_keycode_pro_response \<times> 'p nexus" where
  "small_apply_test e m s =
     (if sm_body m = 0 then
        if get_payg_state e s = NXP_COMMON_PAYG_STATE_DISABLED
        then (RESPONSE_VALID_APPLIED, do_credit_add e NEXUS_KEYCODE_PRO_UNIVERSAL_SHORT_TEST_SECONDS s)
        else (RESPONSE_VALID_DUPLICATE, s)
      else if sm_body m = 1 then
        if QC_LONG_LIFETIME_MAX (config e) > 0 \<and>
           nexus_keycode_pro_get_long_qc_code_count s < QC_LONG_LIFETIME_MAX (config e) \<and>
           get_payg_state e s \<noteq> NXP_COMMON_PAYG_STATE_UNLOCKED
        then (RESPONSE_VALID_APPLIED, nexus_keycode_pro_increment_long_qc_test_message_count e
               (do_credit_add e NEXUS_KEYCODE_PRO_QC_LONG_TEST_MESSAGE_SECONDS s))
        else (RESPONSE_VALID_DUPLICATE, s)
      else (RESPONSE_INVALID, s))"

definition nexus_keycode_pro_small_apply ::
    "'p nexus_env \<Rightarrow> small_message \<Rightarrow> 'p nexus \<Rightarrow> nexus_keycode_pro_response \<times> 'p nexus" where
  "nexus_keycode_pro_small_apply e m s =
     (let secret_key = get_secret_key e s;
          check_expected = (if sm_type_code m = SMALL_MAINTENANCE_OR_TEST_TYPE \<and> sm_body m \<le> 127
            then nexus_keycode_pro_small_compute_check m NEXUS_INTEGRITY_CHECK_FIXED_FF_KEY
            else nexus_keycode_pro_small_compute_check m secret_key)
      in if sm_check m \<noteq> check_expected then (RESPONSE_INVALID, s)
         else if sm_type_code m < SMALL_MAINTENANCE_OR_TEST_TYPE then small_apply_activation e m s
         else if sm_body m > 127 then small_apply_maintenance e m s
         else small_apply_test e m s)"

definition zero_small_message :: small_message where
  "zero_small_message = \<lparr>sm_full_message_id = 0, sm_type_code = 0, sm_body = 0, sm_check = 0\<rparr>"

definition nexus_keycode_pro_small_parse_and_apply ::
    "'p nexus_env \<Rightarrow> nexus_keycode_frame \<Rightarrow> 'p nexus \<Rightarrow> nexus_keycode_pro_response \<times> 'p nexus" where
  "nexus_keycode_pro_small_parse_and_apply e fr s =
     (case nexus_keycode_pro_small_parse e fr zero_small_message s of (parsed, m, s) \<Rightarrow>
        if \<not> parsed then (RESPONSE_INVALID, s)
        else if sm_type_code m = SMALL_TYPE_PASSTHROUGH then (RESPONSE_NONE, s)
        else nexus_keycode_pro_small_apply e m s)"

definition nexus_keycode_pro_small_init :: "bytes \<Rightarrow> 'p nexus \<Rightarrow> 'p nexus" where
  "nexus_keycode_pro_small_init alph s = on_pro (\<lambda>p. p\<lparr>alphabet := alph\<rparr>) s"

section \<open>Inference of message identifiers\<close>

lemma low_six_bits: "(w AND 0x3F = (ucast (c::u8) :: u32)) \<longleftrightarrow> unat w mod 64 = unat c"
proof -
  have "unat (w AND 0x3F) = unat w mod 64" using unat_and_mask [of w 6] by (simp add: mask_eq_exp_minus_1)
  then show ?thesis by (simp add: word_unat_eq_iff unat_ucast_le)
qed

lemma infer_loop_leaves:
  assumes "unat max_id < unat cur_id + n" "unat max_id < 4294967295"
  shows "let r = infer_full_message_id_loop n max_id c cur_id in max_id < r \<or> r AND 0x3F = ucast c"
  using assms
proof (induction n arbitrary: cur_id)
  case 0
  then show ?case by (simp add: word_less_nat_alt)
next
  case (Suc n)
  show ?case
  proof (cases "cur_id \<le> max_id")
    case True
    then have "unat (cur_id + 1) = Suc (unat cur_id)" using Suc.prems by (simp add: unat_add_1 word_le_nat_alt)
    then show ?thesis using True Suc.IH [of "cur_id + 1"] Suc.prems by (simp add: Let_def)
  next
    case False
    then show ?thesis by (auto simp: Let_def)
  qed
qed

lemma infer_loop_finds:
  assumes "k < n" "unat cur_id + k \<le> unat max_id" "unat max_id < 4294967295"
    and "(unat cur_id + k) mod 64 = unat c" "\<And>j. j < k \<Longrightarrow> (unat cur_id + j) mod 64 \<noteq> unat c"
  shows "infer_full_message_id_loop n max_id c cur_id = cur_id + word_of_nat k"
  using assms
proof (induction k arbitrary: n cur_id)
  case 0
  then show ?case by (cases n) (simp_all add: word_le_nat_alt low_six_bits)
next
  case (Suc k)
  obtain m where n: "n = Suc m" using Suc.prems(1) by (cases n) simp_all
  have u: "unat (cur_id + 1) = Suc (unat cur_id)" using Suc.prems(2,3) by (simp add: unat_add_1)
  have "infer_full_message_id_loop m max_id c (cur_id + 1) = cur_id + 1 + word_of_nat k"
    by (rule Suc.IH) (use Suc.prems u n in \<open>auto simp: dest: Suc.prems(5) [of "Suc _", simplified]\<close>)
  moreover have "\<not> cur_id AND 0x3F = ucast c" using Suc.prems(5) [of 0] by (simp add: low_six_bits)
  moreover have "cur_id \<le> max_id" using Suc.prems(2) by (simp add: word_le_nat_alt)
  ultimately show ?case by (simp add: n algebra_simps)
qed

lemma mod_64_offset: "c < 64 \<Longrightarrow> \<exists>k<64. (a + k) mod 64 = (c::nat)"
proof -
  assume c: "c < 64"
  define r where "r = a mod 64"
  have r: "r < 64" by (simp add: r_def)
  have "(a + k) mod 64 = (r + k) mod 64" for k by (simp add: r_def mod_add_left_eq)
  then show ?thesis
    using c r by (cases "r \<le> c") (auto intro: exI [of _ "c - r"] exI [of _ "c + 64 - r"])
qed

lemma mod_64_inject:
  assumes "(a + j) mod 64 = (a + k) mod (64::nat)" "j < 64" "k < 64"
  shows "j = k"
proof -
  have "(int a + int j) mod 64 = (int a + int k) mod 64"
    using assms(1) by (metis of_nat_add of_nat_numeral zmod_int)
  then have "64 dvd (int j - int k)" by (simp add: mod_eq_dvd_iff)
  then show ?thesis using assms(2,3) dvd_imp_le_int [of "int j - int k" 64] by linarith
qed

lemma infer_full_message_id_iff:
  fixes c :: u8 and pd :: u32
  assumes "unat c < 64" "23 \<le> unat pd" "unat pd < 4294967255"
  shows "\<forall>i. (unat pd \<le> unat i + 23 \<and> unat i \<le> unat pd + 40 \<and> unat i mod 64 = unat c) \<longleftrightarrow>
    i = nexus_keycode_pro_infer_full_message_id c pd 23 40"
proof -
  let ?lo = "pd - 23"
  have lo: "unat ?lo = unat pd - 23" using assms(2) by (simp add: unat_sub word_le_nat_alt)
  have hi: "unat (pd + 40) = unat pd + 40" using assms(3) by (simp add: unat_word_ariths)
  define k where "k = (LEAST k. (unat ?lo + k) mod 64 = unat c)"
  obtain k0 where k0: "k0 < 64" "(unat ?lo + k0) mod 64 = unat c" using mod_64_offset [OF assms(1)] by blast
  have k: "(unat ?lo + k) mod 64 = unat c" unfolding k_def by (rule LeastI [of _ k0]) (rule k0(2))
  have "k \<le> k0" unfolding k_def by (rule Least_le) (rule k0(2))
  with k0 have k64: "k < 64" by simp
  have less: "(unat ?lo + j) mod 64 \<noteq> unat c" if "j < k" for j
    using not_less_Least [OF that [unfolded k_def]] .
  have r: "nexus_keycode_pro_infer_full_message_id c pd 23 40 = ?lo + word_of_nat k"
    unfolding nexus_keycode_pro_infer_full_message_id_def
  proof (rule trans [OF infer_loop_finds])
    show "\<And>j. j < k \<Longrightarrow> (unat (pd - ucast (23::u8)) + j) mod 64 \<noteq> unat c" using less by simp
  qed (use k k64 lo hi assms in simp_all)
  have ur: "unat (?lo + word_of_nat k) = unat pd - 23 + k"
    using lo k64 assms(3) by (simp add: unat_word_ariths unat_word_of_nat_small)
  have "x = unat pd - 23 + k" if "unat pd \<le> x + 23" "x \<le> unat pd + 40" "x mod 64 = unat c" for x
  proof -
    have x: "x = unat ?lo + (x - unat ?lo)" "x - unat ?lo < 64" using that assms(2) lo by auto
    then have "(unat ?lo + (x - unat ?lo)) mod 64 = (unat ?lo + k) mod 64" using that k by simp
    then have "x - unat ?lo = k" using x(2) k64 by (rule mod_64_inject)
    then show ?thesis using x(1) lo by simp
  qed
  then show ?thesis using k k64 lo assms(2) unfolding r by (auto simp: ur word_unat_eq_iff)
qed

text \<open>C22. The inferred identifier is the only one in the receive window, 23 below to 40 above \<open>Pd\<close>,
  that agrees with the six transmitted bits.\<close>

theorem infer_full_message_id_unique:
  fixes c :: u8 and pd :: u32
  assumes "unat c < 64" "23 \<le> unat pd" "unat pd < 4294967255"
  shows "\<forall>i. (unat pd \<le> unat i + 23 \<and> unat i \<le> unat pd + 40 \<and> unat i mod 64 = unat c) \<longleftrightarrow>
    i = nexus_keycode_pro_infer_full_message_id c pd 23 40"
  by (rule infer_full_message_id_iff [OF assms])

theorem infer_full_message_id_unique_witness:
  "unat (nexus_keycode_pro_infer_full_message_id 5 100 23 40) = 133"
  using infer_full_message_id_unique [of 5 100] spec [of _ "133::u32"] by (auto dest: spec [of _ "133::u32"])

section \<open>What processing a small-protocol frame keeps\<close>

context pro_closed
begin

lemma closed_wipe_mask: "P s \<Longrightarrow> P (wipe_mask e s)"
  unfolding wipe_mask_def by (rule closed_wipe)

lemma closed_extended_apply: "P s \<Longrightarrow> P (snd (nexus_keycode_pro_extended_small_apply e m s))"
  by (auto simp: nexus_keycode_pro_extended_small_apply_def Let_def split: prod.split intro!: closed_ops)

lemma closed_extended:
  assumes "P s"
  shows "P (snd (nexus_keycode_pro_extended_small_parse_and_apply_keycode e bs s))"
  using closed_extended_apply [OF assms] closed_feedback [OF assms]
  by (simp add: nexus_keycode_pro_extended_small_parse_and_apply_keycode_def case_prod_beta split: option.split)

lemma closed_bitstream_passthrough:
  assumes "P s"
  shows "P (snd (nexus_keycode_pro_small_internal_bitstream_passthrough e bs s))"
  using closed_extended [OF assms] assms
  by (simp add: nexus_keycode_pro_small_internal_bitstream_passthrough_def case_prod_beta)

lemma closed_small_parse:
  assumes "P s"
  shows "P (snd (snd (nexus_keycode_pro_small_parse e fr m s)))"
  using closed_bitstream_passthrough [OF assms] assms
  by (simp add: nexus_keycode_pro_small_parse_def case_prod_beta Let_def split: option.split)

lemma closed_small_apply:
  assumes "P s"
  shows "P (snd (nexus_keycode_pro_small_apply e m s))"
proof -
  have "P (snd (small_apply_activation e m s))"
    using closed_get [OF assms, of "ucast (sm_full_message_id m)"]
    by (auto simp: small_apply_activation_def small_apply_set_credit_def case_prod_beta Let_def
        intro!: closed_ops)
  moreover have "P (snd (small_apply_maintenance e m s))" "P (snd (small_apply_test e m s))"
    using assms by (auto simp: small_apply_maintenance_def small_apply_test_def Let_def
        intro!: closed_ops closed_wipe_mask)
  ultimately show ?thesis using assms by (simp add: nexus_keycode_pro_small_apply_def Let_def)
qed

lemma closed_small_parse_and_apply:
  "P s \<Longrightarrow> P (snd (nexus_keycode_pro_small_parse_and_apply e fr s))"
  using closed_small_parse closed_small_apply
  by (simp add: nexus_keycode_pro_small_parse_and_apply_def case_prod_beta)

end

end
