(* ===== verification/Keycode_Full.thy ===== *)
theory Keycode_Full
  imports Keycode_Small Nexus_Digits
begin

text \<open>
  The full-keypad keycode protocol of \<^verbatim>\<open>nexus/src/nexus_keycode_pro.c\<close>: decimal messages,
  14 digits for activation messages, whose eight body digits are perturbed by a stream seeded
  with the check value, and other lengths for factory and passthrough messages.
\<close>

section \<open>Messages\<close>

abbreviation (input) NEXUS_KEYCODE_PRO_SECONDS_IN_HOUR :: u32 where "NEXUS_KEYCODE_PRO_SECONDS_IN_HOUR \<equiv> 3600"
abbreviation (input) NEXUS_KEYCODE_PRO_FULL_UNLOCK_INCREMENT :: u32 where
  "NEXUS_KEYCODE_PRO_FULL_UNLOCK_INCREMENT \<equiv> 99999"
abbreviation (input) NEXUS_KEYCODE_MESSAGE_LENGTH_MAX_DIGITS_FULL :: nat where
  "NEXUS_KEYCODE_MESSAGE_LENGTH_MAX_DIGITS_FULL \<equiv> 30"
abbreviation (input) FULL_ACTIVATION_ADD_CREDIT :: u8 where "FULL_ACTIVATION_ADD_CREDIT \<equiv> 0"
abbreviation (input) FULL_ACTIVATION_SET_CREDIT :: u8 where "FULL_ACTIVATION_SET_CREDIT \<equiv> 1"
abbreviation (input) FULL_ACTIVATION_WIPE_STATE :: u8 where "FULL_ACTIVATION_WIPE_STATE \<equiv> 2"
abbreviation (input) FULL_ACTIVATION_DEMO_CODE :: u8 where "FULL_ACTIVATION_DEMO_CODE \<equiv> 3"
abbreviation (input) FULL_FACTORY_ALLOW_TEST :: u8 where "FULL_FACTORY_ALLOW_TEST \<equiv> 4"
abbreviation (input) FULL_FACTORY_QC_TEST :: u8 where "FULL_FACTORY_QC_TEST \<equiv> 5"
abbreviation (input) FULL_FACTORY_DEVICE_ID_DISPLAY :: u8 where "FULL_FACTORY_DEVICE_ID_DISPLAY \<equiv> 6"
abbreviation (input) FULL_FACTORY_NOMAC_DEVICE_ID_CONFIRMATION :: u8 where
  "FULL_FACTORY_NOMAC_DEVICE_ID_CONFIRMATION \<equiv> 7"
abbreviation (input) FULL_PASSTHROUGH_COMMAND :: u8 where "FULL_PASSTHROUGH_COMMAND \<equiv> 8"

text \<open>The body is a union of one-word structs: hours, target, minutes or device identifier.\<close>

record full_message =
  fm_full_message_id :: u32
  fm_type_code :: u8
  fm_body :: u32
  fm_check :: u32

definition zero_full_message :: full_message where
  "zero_full_message = \<lparr>fm_full_message_id = 0, fm_type_code = 0, fm_body = 0, fm_check = 0\<rparr>"

definition full_message_bytes :: "full_message \<Rightarrow> bytes" where
  "full_message_bytes m = u32_le (fm_full_message_id m) @ [fm_type_code m] @ u32_le (fm_body m) @
     u32_le (fm_check m)"

definition nexus_keycode_pro_full_compute_check :: "full_message \<Rightarrow> bytes \<Rightarrow> u32" where
  "nexus_keycode_pro_full_compute_check message key =
     (let check_val = nexus_check_compute key (full_message_bytes message) 9;
          lower_check = ucast (nexus_check_value_as_uint64 check_val AND 0xffffffff) :: u32
      in lower_check mod 1000000)"

section \<open>Parsing\<close>

text \<open>\<^verbatim>\<open>_mathmod10\<close>: the loop adds 10 until the number is not negative.\<close>

function mathmod10 :: "int \<Rightarrow> u8" where
  "mathmod10 x = (if x < 0 then mathmod10 (x + 10) else word_of_int (x mod 10))"
  by auto
termination by (relation "measure (\<lambda>x. nat (- x))") auto

declare mathmod10.simps [simp del]

definition deinterleave_key :: "u8 \<Rightarrow> u8 \<Rightarrow> u8" where
  "deinterleave_key body_char perturbation =
     (let body_digit = body_char - 48;
          out_digit = mathmod10 (uint body_digit - uint perturbation)
      in out_digit + 48)"

definition nexus_keycode_pro_full_deinterleave :: "nexus_keycode_frame \<Rightarrow> u32 \<Rightarrow> nexus_keycode_frame" where
  "nexus_keycode_pro_full_deinterleave fr check_value =
     (let prng_bytes = nexus_check_compute_pseudorandom_bytes NEXUS_INTEGRITY_CHECK_FIXED_00_KEY
            (u32_le check_value) 4 8
      in fr\<lparr>fr_keys := foldl (\<lambda>keys i. keys[i := deinterleave_key (keys ! i) (prng_bytes ! i)])
             (fr_keys fr) [0..<8]\<rparr>)"

text \<open>\<^verbatim>\<open>char digit_chars[n]\<close> after the keys of the frame are copied into it.\<close>

definition digit_chars :: "'p nexus_env \<Rightarrow> nat \<Rightarrow> nexus_keycode_frame \<Rightarrow> bytes" where
  "digit_chars e n fr = memcpy_at 0 (take (unat (fr_length fr)) (fr_keys fr)) (junk_bytes e 0 n)"

fun skip_digits :: "nat \<Rightarrow> nexus_digits \<Rightarrow> nexus_digits" where
  "skip_digits 0 d = d"
| "skip_digits (Suc n) d = skip_digits n (snd (nexus_digits_pull_uint8 d 1))"

definition nexus_keycode_pro_full_check_field_from_frame ::
    "'p nexus_env \<Rightarrow> nexus_keycode_frame \<Rightarrow> u32" where
  "nexus_keycode_pro_full_check_field_from_frame e fr =
     (let digits = nexus_digits_init (digit_chars e NEXUS_KEYCODE_MESSAGE_LENGTH_MAX_DIGITS_FULL fr)
            (ucast (fr_length fr));
          non_check_char_count = (word_of_int (uint (fr_length fr) - 6) :: u8)
      in if sint non_check_char_count < 0 then 0
         else fst (nexus_digits_pull_uint32 (skip_digits (nat (sint non_check_char_count)) digits) 6))"

text \<open>Returns the verdict and the parsed message.\<close>

definition nexus_keycode_pro_full_parse_activation ::
    "'p nexus_env \<Rightarrow> nexus_keycode_frame \<Rightarrow> full_message \<Rightarrow> 'p nexus \<Rightarrow> bool \<times> full_message" where
  "nexus_keycode_pro_full_parse_activation e fr parsed s =
     (let parsed = parsed\<lparr>fm_check := nexus_keycode_pro_full_check_field_from_frame e fr\<rparr>;
          fr = nexus_keycode_pro_full_deinterleave fr (fm_check parsed);
          digits = nexus_digits_init (digit_chars e 14 fr) (ucast (fr_length fr))
      in case nexus_digits_pull_uint8 digits 1 of (type_code, digits) \<Rightarrow>
        let parsed = parsed\<lparr>fm_type_code := type_code\<rparr>
        in case nexus_digits_pull_uint8 digits 2 of (received_message_id, digits) \<Rightarrow>
          if received_message_id > NEXUS_KEYCODE_PRO_RECEIVE_WINDOW_AFTER_PD + NEXUS_KEYCODE_PRO_RECEIVE_WINDOW_BEFORE_PD
          then (False, parsed)
          else
            let parsed = parsed\<lparr>fm_full_message_id := nexus_keycode_pro_infer_full_message_id
                  received_message_id (pd_index (stored s))
                  NEXUS_KEYCODE_PRO_RECEIVE_WINDOW_BEFORE_PD NEXUS_KEYCODE_PRO_RECEIVE_WINDOW_AFTER_PD\<rparr>
            in if type_code = FULL_ACTIVATION_ADD_CREDIT \<or> type_code = FULL_ACTIVATION_DEMO_CODE \<or>
                  type_code = FULL_ACTIVATION_SET_CREDIT
               then case nexus_digits_pull_uint32 digits 5 of (hours, digits) \<Rightarrow>
                 case nexus_digits_pull_uint32 digits 6 of (_, digits) \<Rightarrow>
                   (dg_length digits = dg_position digits, parsed\<lparr>fm_body := hours\<rparr>)
               else if type_code = FULL_ACTIVATION_WIPE_STATE
               then case nexus_digits_pull_uint32 digits 4 of (_, digits) \<Rightarrow>
                 case nexus_digits_pull_uint8 digits 1 of (target, digits) \<Rightarrow>
                 case nexus_digits_pull_uint32 digits 6 of (_, digits) \<Rightarrow>
                   (dg_length digits = dg_position digits, parsed\<lparr>fm_body := ucast target\<rparr>)
               else (False, parsed))"

definition do_passthrough :: "'p nexus_env \<Rightarrow> bytes \<Rightarrow> u8 \<Rightarrow> 'p nexus \<Rightarrow>
    nxp_keycode_passthrough_error \<times> 'p nexus" where
  "do_passthrough e keys len s =
     (case nxp_keycode_passthrough_keycode e keys len (plat s) of (err, p) \<Rightarrow> (err, s\<lparr>plat := p\<rparr>))"

definition nexus_keycode_pro_full_parse_factory_and_passthrough ::
    "'p nexus_env \<Rightarrow> nexus_keycode_frame \<Rightarrow> full_message \<Rightarrow> 'p nexus \<Rightarrow> bool \<times> full_message \<times> 'p nexus" where
  "nexus_keycode_pro_full_parse_factory_and_passthrough e fr parsed s =
     (if unat (fr_length fr) > NEXUS_KEYCODE_MESSAGE_LENGTH_MAX_DIGITS_FULL then (False, parsed, s)
      else
        let digits = nexus_digits_init (digit_chars e NEXUS_KEYCODE_MESSAGE_LENGTH_MAX_DIGITS_FULL fr)
              (ucast (fr_length fr))
        in case nexus_digits_try_pull_uint32 digits 1 False of (type_code_u32, digits, underrun) \<Rightarrow>
        let parsed = parsed\<lparr>fm_type_code := ucast type_code_u32\<rparr>; type_code = fm_type_code parsed
        in if type_code < FULL_FACTORY_NOMAC_DEVICE_ID_CONFIRMATION then
             (case (if type_code = FULL_FACTORY_QC_TEST
                    then (case nexus_digits_pull_uint32 digits 3 of (_, digits) \<Rightarrow>
                          case nexus_digits_pull_uint8 digits 2 of (minutes, digits) \<Rightarrow>
                            (parsed\<lparr>fm_body := ucast minutes\<rparr>, digits))
                    else (parsed, digits)) of (parsed, digits) \<Rightarrow>
              case nexus_digits_try_pull_uint32 digits 6 underrun of (check, digits, underrun) \<Rightarrow>
                (\<not> underrun \<and> dg_length digits = dg_position digits, parsed\<lparr>fm_check := check\<rparr>, s))
           else if type_code = FULL_FACTORY_NOMAC_DEVICE_ID_CONFIRMATION then
             (let serial_id_length = fr_length fr - 1
              in if serial_id_length < 8 \<or> serial_id_length > 10 then (False, parsed, s)
                 else case nexus_digits_try_pull_uint32 digits serial_id_length underrun of
                   (device_id, digits, underrun) \<Rightarrow>
                     (\<not> underrun \<and> dg_length digits = dg_position digits, parsed\<lparr>fm_body := device_id\<rparr>, s))
           else if type_code = FULL_PASSTHROUGH_COMMAND then
             (if dg_length digits > 2 \<and> dg_length digits \<noteq> 14
              then case do_passthrough e (drop (unat (dg_position digits)) (dg_chars digits))
                  (ucast (dg_length digits - dg_position digits)) s of
                (result, s) \<Rightarrow> (result = PASSTHROUGH_ERROR_NONE, parsed, s)
              else (False, parsed, s))
           else (\<not> underrun \<and> dg_length digits = dg_position digits, parsed, s))"

definition nexus_keycode_pro_full_parse ::
    "'p nexus_env \<Rightarrow> nexus_keycode_frame \<Rightarrow> 'p nexus \<Rightarrow> bool \<times> full_message \<times> 'p nexus" where
  "nexus_keycode_pro_full_parse e fr s =
     (let parsed = zero_full_message
      in if fr_length fr = 14
         then (case nexus_keycode_pro_full_parse_activation e fr parsed s of (success, m) \<Rightarrow> (success, m, s))
         else nexus_keycode_pro_full_parse_factory_and_passthrough e fr parsed s)"

section \<open>Applying\<close>

definition full_apply_wipe_state ::
    "'p nexus_env \<Rightarrow> u32 \<Rightarrow> 'p nexus \<Rightarrow> nexus_keycode_pro_response \<times> 'p nexus" where
  "full_apply_wipe_state e target s =
     (if target = 1 then (RESPONSE_VALID_APPLIED, do_credit_set e 0 (wipe_mask e s))
      else if target = 0 then (RESPONSE_VALID_APPLIED, do_credit_set e 0 s)
      else if target = 2 then (RESPONSE_VALID_APPLIED, wipe_mask e s)
      else if target = 3 then
        (RESPONSE_VALID_APPLIED, nexus_keycode_pro_reset_custom_flag e NX_KEYCODE_CUSTOM_FLAG_RESTRICTED s)
      else (RESPONSE_INVALID, s))"

definition nexus_keycode_pro_full_apply_activation ::
    "'p nexus_env \<Rightarrow> full_message \<Rightarrow> 'p nexus \<Rightarrow> nexus_keycode_pro_response \<times> 'p nexus" where
  "nexus_keycode_pro_full_apply_activation e m s =
     (case nexus_keycode_pro_get_full_message_id_flag e (ucast (fm_full_message_id m)) s of (already_set, s) \<Rightarrow>
        if already_set then (RESPONSE_VALID_DUPLICATE, s)
        else
          let credit_increment_seconds = fm_body m * NEXUS_KEYCODE_PRO_SECONDS_IN_HOUR
          in if fm_type_code m = FULL_ACTIVATION_ADD_CREDIT then
               let s = nexus_keycode_pro_set_full_message_id_flag e (ucast (fm_full_message_id m)) s
               in if get_payg_state e s \<noteq> NXP_COMMON_PAYG_STATE_UNLOCKED
                  then (RESPONSE_VALID_APPLIED, do_credit_add e credit_increment_seconds s)
                  else (RESPONSE_VALID_DUPLICATE, s)
             else if fm_type_code m = FULL_ACTIVATION_DEMO_CODE then
               (RESPONSE_VALID_APPLIED,
                if get_payg_state e s \<noteq> NXP_COMMON_PAYG_STATE_UNLOCKED
                then do_credit_add e (fm_body m * 60) s else s)
             else if fm_type_code m = FULL_ACTIVATION_SET_CREDIT then
               let s = nexus_keycode_pro_mask_below_message_id e (ucast (fm_full_message_id m + 1)) s
               in (RESPONSE_VALID_APPLIED,
                   if fm_body m = NEXUS_KEYCODE_PRO_FULL_UNLOCK_INCREMENT then do_credit_unlock e s
                   else do_credit_set e credit_increment_seconds s)
             else if fm_type_code m = FULL_ACTIVATION_WIPE_STATE then
               full_apply_wipe_state e (fm_body m)
                 (nexus_keycode_pro_mask_below_message_id e (ucast (fm_full_message_id m + 1)) s)
             else (RESPONSE_INVALID, s))"

definition nexus_keycode_pro_full_apply_factory ::
    "'p nexus_env \<Rightarrow> full_message \<Rightarrow> 'p nexus \<Rightarrow> nexus_keycode_pro_response \<times> 'p nexus" where
  "nexus_keycode_pro_full_apply_factory e m s =
     (if fm_type_code m = FULL_FACTORY_ALLOW_TEST then
        if get_payg_state e s = NXP_COMMON_PAYG_STATE_DISABLED
        then (RESPONSE_VALID_APPLIED, do_credit_add e NEXUS_KEYCODE_PRO_UNIVERSAL_SHORT_TEST_SECONDS s)
        else (RESPONSE_VALID_DUPLICATE, s)
      else if fm_type_code m = FULL_FACTORY_QC_TEST then
        let qc_credit_seconds = fm_body m * 60
        in if nexus_keycode_pro_can_unit_accept_qc_code e qc_credit_seconds s
           then
             let s = do_credit_add e qc_credit_seconds s
             in (RESPONSE_VALID_APPLIED,
                 if qc_credit_seconds \<le> NEXUS_KEYCODE_PRO_QC_SHORT_TEST_MESSAGE_SECONDS
                 then nexus_keycode_pro_increment_short_qc_test_message_count e s
                 else nexus_keycode_pro_increment_long_qc_test_message_count e s)
           else (RESPONSE_VALID_DUPLICATE, s)
      else if fm_type_code m = FULL_FACTORY_DEVICE_ID_DISPLAY then (RESPONSE_DISPLAY_DEVICE_ID, s)
      else if fm_type_code m = FULL_FACTORY_NOMAC_DEVICE_ID_CONFIRMATION then
        if fm_body m = nxp_keycode_get_user_facing_id e (plat s) then (RESPONSE_VALID_APPLIED, s)
        else (RESPONSE_VALID_DUPLICATE, s)
      else (RESPONSE_INVALID, s))"

definition nexus_keycode_pro_full_apply ::
    "'p nexus_env \<Rightarrow> full_message \<Rightarrow> 'p nexus \<Rightarrow> nexus_keycode_pro_response \<times> 'p nexus" where
  "nexus_keycode_pro_full_apply e m s =
     (let key = (if fm_type_code m < FULL_FACTORY_ALLOW_TEST then get_secret_key e s
                 else NEXUS_INTEGRITY_CHECK_FIXED_00_KEY);
          check_expected = nexus_keycode_pro_full_compute_check m key
      in if fm_check m \<noteq> check_expected \<and> fm_type_code m < FULL_FACTORY_NOMAC_DEVICE_ID_CONFIRMATION
         then (RESPONSE_INVALID, s)
         else if fm_type_code m < FULL_FACTORY_ALLOW_TEST then nexus_keycode_pro_full_apply_activation e m s
         else nexus_keycode_pro_full_apply_factory e m s)"

definition nexus_keycode_pro_full_parse_and_apply ::
    "'p nexus_env \<Rightarrow> nexus_keycode_frame \<Rightarrow> 'p nexus \<Rightarrow> nexus_keycode_pro_response \<times> 'p nexus" where
  "nexus_keycode_pro_full_parse_and_apply e raw_frame s =
     (case nexus_keycode_pro_full_parse e raw_frame s of (parsed, message, s) \<Rightarrow>
        if \<not> parsed then (RESPONSE_INVALID, s)
        else if fm_type_code message = FULL_PASSTHROUGH_COMMAND then (RESPONSE_NONE, s)
        else nexus_keycode_pro_full_apply e message s)"

definition nexus_keycode_pro_full_init :: "bytes \<Rightarrow> 'p nexus \<Rightarrow> 'p nexus" where
  "nexus_keycode_pro_full_init alph s = on_pro (\<lambda>p. p\<lparr>alphabet := alph\<rparr>) s"

section \<open>What processing a full-protocol frame keeps\<close>

context pro_closed
begin

lemma closed_full_parse:
  assumes "P s"
  shows "P (snd (snd (nexus_keycode_pro_full_parse e fr s)))"
proof -
  have "P (snd (snd (nexus_keycode_pro_full_parse_factory_and_passthrough e fr m s)))" for m
    using assms closed_passthrough [OF assms]
    by (simp add: nexus_keycode_pro_full_parse_factory_and_passthrough_def do_passthrough_def case_prod_beta Let_def)
  then show ?thesis using assms by (simp add: nexus_keycode_pro_full_parse_def case_prod_beta Let_def)
qed

lemma closed_full_apply:
  assumes "P s"
  shows "P (snd (nexus_keycode_pro_full_apply e m s))"
proof -
  have "P (snd (full_apply_wipe_state e target t))" if "P t" for target t
    using that by (auto simp: full_apply_wipe_state_def intro!: closed_ops closed_wipe_mask)
  then have "P (snd (nexus_keycode_pro_full_apply_activation e m s))"
    using closed_get [OF assms, of "ucast (fm_full_message_id m)"]
    by (auto simp: nexus_keycode_pro_full_apply_activation_def case_prod_beta Let_def intro!: closed_ops)
  moreover have "P (snd (nexus_keycode_pro_full_apply_factory e m s))"
    using assms by (auto simp: nexus_keycode_pro_full_apply_factory_def Let_def intro!: closed_ops)
  ultimately show ?thesis using assms by (simp add: nexus_keycode_pro_full_apply_def Let_def)
qed

lemma closed_full_parse_and_apply:
  "P s \<Longrightarrow> P (snd (nexus_keycode_pro_full_parse_and_apply e fr s))"
  using closed_full_parse closed_full_apply
  by (simp add: nexus_keycode_pro_full_parse_and_apply_def case_prod_beta)

end

end
