(* ===== verification/Keycode_Pro.thy ===== *)
theory Keycode_Pro
  imports Keycode_Full
begin

text \<open>
  The protocol layer's entry points (\<^verbatim>\<open>nexus/src/nexus_keycode_pro.c\<close>): initialisation, the
  one-place queue for a completed frame and the processing of a queued frame with its feedback.
\<close>

section \<open>The code\<close>

text \<open>The protocol initialiser is the one that the handling configuration pairs with the protocol.\<close>

definition nexus_keycode_pro_init :: "'p nexus_env \<Rightarrow> nexus_keycode_pro_parse_and_apply \<Rightarrow>
    (bytes \<Rightarrow> 'p nexus \<Rightarrow> 'p nexus) \<Rightarrow> bytes \<Rightarrow> 'p nexus \<Rightarrow> 'p nexus" where
  "nexus_keycode_pro_init e paa protocol_init alph s =
     (let s = on_pro (\<lambda>p. p\<lparr>pending := False, parse_and_apply := Some paa\<rparr>) s;
          s = on_pro (\<lambda>p. p\<lparr>alphabet := []\<rparr>) s;
          s = s\<lparr>stored := zero_stored\<rparr>;
          s = protocol_init alph s;
          s = nexus_keycode_pro_reset_pd_index s
      in snd (nexus_keycode_pro_get_full_message_id_flag e 0 s))"

definition nexus_keycode_pro_deinit :: "'p nexus \<Rightarrow> 'p nexus" where
  "nexus_keycode_pro_deinit s = s"

definition nexus_keycode_pro_enqueue :: "'p nexus_env \<Rightarrow> nexus_keycode_frame \<Rightarrow> 'p nexus \<Rightarrow> 'p nexus" where
  "nexus_keycode_pro_enqueue e mas_message s =
     do_request_processing e
       (if \<not> pending (pro s) then on_pro (\<lambda>p. p\<lparr>frame := mas_message, pending := True\<rparr>) s else s)"

definition run_parse_and_apply :: "'p nexus_env \<Rightarrow> nexus_keycode_pro_parse_and_apply \<Rightarrow>
    nexus_keycode_frame \<Rightarrow> 'p nexus \<Rightarrow> nexus_keycode_pro_response \<times> 'p nexus" where
  "run_parse_and_apply e f = (case f of FULL_PARSE_AND_APPLY \<Rightarrow> nexus_keycode_pro_full_parse_and_apply e
     | SMALL_PARSE_AND_APPLY \<Rightarrow> nexus_keycode_pro_small_parse_and_apply e)"

definition response_feedback :: "nexus_keycode_pro_response \<Rightarrow> nxp_keycode_feedback_type" where
  "response_feedback response = (case response of
       RESPONSE_INVALID \<Rightarrow> FEEDBACK_TYPE_MESSAGE_INVALID
     | RESPONSE_VALID_DUPLICATE \<Rightarrow> FEEDBACK_TYPE_MESSAGE_VALID
     | RESPONSE_VALID_APPLIED \<Rightarrow> FEEDBACK_TYPE_MESSAGE_APPLIED
     | RESPONSE_DISPLAY_DEVICE_ID \<Rightarrow> FEEDBACK_TYPE_DISPLAY_SERIAL_ID
     | RESPONSE_NONE \<Rightarrow> FEEDBACK_TYPE_NONE)"

abbreviation (input) NEXUS_COMMON_IDLE_TIME_BETWEEN_PROCESS_CALL_SECONDS :: u32 where
  "NEXUS_COMMON_IDLE_TIME_BETWEEN_PROCESS_CALL_SECONDS \<equiv> 240"

text \<open>
  A frame is only ever pending after initialisation, when the function pointer is set;
  calling it before (a null call in C) is the branch \<open>None\<close>, which leaves the state alone.
\<close>

definition nexus_keycode_pro_process :: "'p nexus_env \<Rightarrow> 'p nexus \<Rightarrow> u32 \<times> 'p nexus" where
  "nexus_keycode_pro_process e s =
     (if \<not> pending (pro s) then (NEXUS_COMMON_IDLE_TIME_BETWEEN_PROCESS_CALL_SECONDS, s)
      else
        let (response, s) = (case parse_and_apply (pro s) of
              None \<Rightarrow> (RESPONSE_NONE, s) | Some f \<Rightarrow> run_parse_and_apply e f (frame (pro s)) s);
            feedback = response_feedback response;
            s = (if feedback \<noteq> FEEDBACK_TYPE_NONE then do_feedback e feedback s else s);
            s = on_pro (\<lambda>p. p\<lparr>pending := False\<rparr>) s
        in (drop_bit 1 (ENTRY_TIMEOUT_SECONDS (config e)), s))"

end
