(* ===== verification/Keycode_Mas.thy ===== *)
theory Keycode_Mas
  imports Keycode_Pro
begin

text \<open>
  Message assembly (\<^verbatim>\<open>nexus/src/nexus_keycode_mas.c\<close>): keys are collected between a start and an
  end key (or up to a stop length) into a frame that is handed to the protocol layer, under a
  leaky-bucket rate limit whose remaining grace attempts are kept in nonvolatile memory.
\<close>

section \<open>Rate limiting: the code\<close>

definition max_rate_limit_seconds :: "'p nexus_env \<Rightarrow> u32" where
  "max_rate_limit_seconds e = RATE_LIMIT_BUCKET_MAX (config e) * RATE_LIMIT_REFILL_SECONDS_PER_ATTEMPT (config e)"

definition nexus_keycode_rate_limit_add_time :: "'p nexus_env \<Rightarrow> u32 \<Rightarrow> 'p nexus \<Rightarrow> 'p nexus" where
  "nexus_keycode_rate_limit_add_time e seconds_elapsed s =
     on_mas (\<lambda>m. if seconds_elapsed > UINT32_MAX - rl_bucket m \<or>
                    rl_bucket m + seconds_elapsed \<ge> max_rate_limit_seconds e
                 then m\<lparr>rl_bucket := max_rate_limit_seconds e\<rparr>
                 else m\<lparr>rl_bucket := rl_bucket m + seconds_elapsed\<rparr>) s"

definition nx_keycode_is_rate_limited :: "'p nexus_env \<Rightarrow> 'p nexus \<Rightarrow> bool" where
  "nx_keycode_is_rate_limited e s =
     (if RATE_LIMIT_BUCKET_MAX (config e) = 0 then False
      else rl_bucket (mas s) < RATE_LIMIT_REFILL_SECONDS_PER_ATTEMPT (config e))"

text \<open>
  The counting loop. Every round takes at least one second off, since the configuration checks
  rule out a refill period of zero, so the seconds in the bucket are enough fuel
  (\<open>attempts_loop_div\<close> below).
\<close>

fun attempts_loop :: "nat \<Rightarrow> u32 \<Rightarrow> u32 \<Rightarrow> u32 \<Rightarrow> u32" where
  "attempts_loop 0 refill seconds_remaining attempts_remaining = attempts_remaining"
| "attempts_loop (Suc n) refill seconds_remaining attempts_remaining =
     (if seconds_remaining \<ge> refill
      then attempts_loop n refill (seconds_remaining - refill) (attempts_remaining + 1)
      else attempts_remaining)"

definition nexus_keycode_rate_limit_attempts_remaining :: "'p nexus_env \<Rightarrow> 'p nexus \<Rightarrow> u32" where
  "nexus_keycode_rate_limit_attempts_remaining e s =
     (if RATE_LIMIT_BUCKET_MAX (config e) > 0
      then attempts_loop (unat (rl_bucket (mas s)) + 1) (RATE_LIMIT_REFILL_SECONDS_PER_ATTEMPT (config e))
        (rl_bucket (mas s)) 0
      else 0)"

definition nexus_keycode_rate_limit_deduct_msg :: "'p nexus_env \<Rightarrow> 'p nexus \<Rightarrow> 'p nexus" where
  "nexus_keycode_rate_limit_deduct_msg e s =
     (if RATE_LIMIT_BUCKET_MAX (config e) > 0
      then on_mas (\<lambda>m. if rl_bucket m \<ge> RATE_LIMIT_REFILL_SECONDS_PER_ATTEMPT (config e)
             then m\<lparr>rl_bucket := rl_bucket m - RATE_LIMIT_REFILL_SECONDS_PER_ATTEMPT (config e)\<rparr> else m) s
      else s)"

definition nexus_keycode_mas_remaining_graceperiod_keycodes :: "'p nexus_env \<Rightarrow> u32 \<Rightarrow> 'p nexus \<Rightarrow> u8" where
  "nexus_keycode_mas_remaining_graceperiod_keycodes e cur_rl_bucket_seconds s =
     (if RATE_LIMIT_BUCKET_MAX (config e) > 0
      then if cur_rl_bucket_seconds \<ge>
             RATE_LIMIT_BUCKET_INITIAL_COUNT (config e) * RATE_LIMIT_REFILL_SECONDS_PER_ATTEMPT (config e)
           then ucast (RATE_LIMIT_BUCKET_INITIAL_COUNT (config e))
           else ucast (nexus_keycode_rate_limit_attempts_remaining e s)
      else 0)"

text \<open>The packed struct \<^verbatim>\<open>_this_core.stored\<close>: the count and three bytes of padding.\<close>

definition mas_stored_bytes :: "mas_core \<Rightarrow> bytes" where
  "mas_stored_bytes m = graceperiod_keycodes m # mas_pad m"

definition nexus_keycode_mas_graceperiod_keycodes_update_nv ::
    "'p nexus_env \<Rightarrow> u8 \<Rightarrow> 'p nexus \<Rightarrow> bool \<times> 'p nexus" where
  "nexus_keycode_mas_graceperiod_keycodes_update_nv e new_graceperiod_keycodes s =
     (if new_graceperiod_keycodes = graceperiod_keycodes (mas s) then (False, s)
      else
        let s = on_mas (\<lambda>m. m\<lparr>graceperiod_keycodes := new_graceperiod_keycodes\<rparr>) s
        in (True, s\<lparr>plat := snd (nexus_nv_update e NX_NV_BLOCK_KEYCODE_MAS (mas_stored_bytes (mas s)) (plat s))\<rparr>))"

section \<open>Message assembly core: the code\<close>

definition nexus_keycode_mas_reset :: "'p nexus \<Rightarrow> 'p nexus" where
  "nexus_keycode_mas_reset s =
     on_mas (\<lambda>m. m\<lparr>partial := (partial m)\<lparr>fr_length := 0\<rparr>, max_length_exceeded := False\<rparr>) s"

definition nexus_keycode_mas_init ::
    "'p nexus_env \<Rightarrow> nexus_keycode_mas_message_handler \<Rightarrow> 'p nexus \<Rightarrow> 'p nexus" where
  "nexus_keycode_mas_init e hdl s =
     (let s = on_mas (\<lambda>m. m\<lparr>graceperiod_keycodes := ucast (RATE_LIMIT_BUCKET_INITIAL_COUNT (config e))\<rparr>) s;
          b = snd (nexus_nv_read e NX_NV_BLOCK_KEYCODE_MAS (mas_stored_bytes (mas s)) (plat s));
          s = on_mas (\<lambda>m. m\<lparr>graceperiod_keycodes := hd b, mas_pad := tl b\<rparr>) s;
          s = on_mas (\<lambda>m. m\<lparr>rl_bucket := ucast (graceperiod_keycodes m) *
                RATE_LIMIT_REFILL_SECONDS_PER_ATTEMPT (config e), handler := Some hdl\<rparr>) s
      in nexus_keycode_mas_reset s)"

definition nexus_keycode_mas_deinit :: "'p nexus \<Rightarrow> 'p nexus" where
  "nexus_keycode_mas_deinit s = nexus_keycode_mas_reset s"

definition nexus_keycode_mas_push :: "u8 \<Rightarrow> 'p nexus \<Rightarrow> 'p nexus" where
  "nexus_keycode_mas_push key s =
     on_mas (\<lambda>m. if unat (fr_length (partial m)) < NEXUS_KEYCODE_MAX_MESSAGE_LENGTH
       then m\<lparr>partial := \<lparr>fr_keys = (fr_keys (partial m))[unat (fr_length (partial m)) := key],
                            fr_length = fr_length (partial m) + 1\<rparr>\<rparr>
       else m\<lparr>max_length_exceeded := True\<rparr>) s"

text \<open>The handler is \<^verbatim>\<open>nexus_keycode_pro_enqueue\<close> from initialisation on.\<close>

definition run_handler :: "'p nexus_env \<Rightarrow> 'p nexus \<Rightarrow> 'p nexus" where
  "run_handler e s = (case handler (mas s) of None \<Rightarrow> s
     | Some PRO_ENQUEUE \<Rightarrow> nexus_keycode_pro_enqueue e (partial (mas s)) s)"

definition nexus_keycode_mas_finish :: "'p nexus_env \<Rightarrow> 'p nexus \<Rightarrow> 'p nexus" where
  "nexus_keycode_mas_finish e s =
     (let s = (if fr_length (partial (mas s)) > 0 \<and> \<not> max_length_exceeded (mas s)
               then run_handler e s
               else do_feedback e FEEDBACK_TYPE_MESSAGE_INVALID s);
          s = nexus_keycode_rate_limit_deduct_msg e s
      in nexus_keycode_mas_reset s)"

section \<open>Bookend scheme: the code\<close>

definition nexus_keycode_mas_bookend_reset :: "'p nexus \<Rightarrow> 'p nexus" where
  "nexus_keycode_mas_bookend_reset s = on_bookend (\<lambda>b. b\<lparr>start_seen := False\<rparr>) s"

definition nexus_keycode_mas_bookend_init :: "u8 \<Rightarrow> u8 \<Rightarrow> u8 \<Rightarrow> 'p nexus \<Rightarrow> 'p nexus" where
  "nexus_keycode_mas_bookend_init start end_char stop s =
     nexus_keycode_mas_bookend_reset
       (on_bookend (\<lambda>b. b\<lparr>start_key := start, end_key := end_char, stop_length := stop\<rparr>) s)"

definition nexus_keycode_has_reached_stop_length :: "'p nexus \<Rightarrow> bool" where
  "nexus_keycode_has_reached_stop_length s =
     (if stop_length (bookend s) = NEXUS_KEYCODE_PROTOCOL_NO_STOP_LENGTH then False
      else fr_length (partial (mas s)) \<ge> stop_length (bookend s))"

definition nexus_common_uptime :: "'p nexus \<Rightarrow> u32" where
  "nexus_common_uptime s = uptime_s (common s)"

definition nexus_keycode_mas_bookend_process :: "'p nexus_env \<Rightarrow> 'p nexus \<Rightarrow> u32 \<times> 'p nexus" where
  "nexus_keycode_mas_bookend_process e s =
     (let s = (if start_seen (bookend s)
               then
                 let s = (if latest_uptime (bookend s) = UINT32_MAX
                          then on_bookend (\<lambda>b. b\<lparr>latest_uptime := nexus_common_uptime s\<rparr>) s else s);
                     elapsed = nexus_common_uptime s - latest_uptime (bookend s)
                 in if elapsed > ENTRY_TIMEOUT_SECONDS (config e)
                    then nexus_keycode_mas_reset (nexus_keycode_mas_bookend_reset s) else s
               else s)
      in (if start_seen (bookend s) then 1 else NEXUS_COMMON_IDLE_TIME_BETWEEN_PROCESS_CALL_SECONDS, s))"

definition nexus_keycode_mas_process :: "'p nexus_env \<Rightarrow> u32 \<Rightarrow> 'p nexus \<Rightarrow> u32 \<times> 'p nexus" where
  "nexus_keycode_mas_process e seconds_elapsed s =
     (let s = nexus_keycode_rate_limit_add_time e seconds_elapsed s;
          graceperiod_count = nexus_keycode_mas_remaining_graceperiod_keycodes e (rl_bucket (mas s)) s;
          s = snd (nexus_keycode_mas_graceperiod_keycodes_update_nv e graceperiod_count s)
      in nexus_keycode_mas_bookend_process e s)"

definition nexus_keycode_mas_bookend_push :: "'p nexus_env \<Rightarrow> u8 \<Rightarrow> 'p nexus \<Rightarrow> 'p nexus" where
  "nexus_keycode_mas_bookend_push e key s =
     (let s = on_bookend (\<lambda>b. b\<lparr>latest_uptime := UINT32_MAX\<rparr>) s;
          s = do_request_processing e s
      in if nx_keycode_is_rate_limited e s then do_feedback e FEEDBACK_TYPE_KEY_REJECTED s
         else if key = start_key (bookend s) then
           nexus_keycode_mas_reset (on_bookend (\<lambda>b. b\<lparr>start_seen := True\<rparr>)
             (do_feedback e FEEDBACK_TYPE_KEY_ACCEPTED s))
         else if start_seen (bookend s) then
           if key = end_key (bookend s)
           then nexus_keycode_mas_finish e (nexus_keycode_mas_bookend_reset s)
           else
             let s = nexus_keycode_mas_push key s
             in if nexus_keycode_has_reached_stop_length s
                then nexus_keycode_mas_finish e (nexus_keycode_mas_bookend_reset s)
                else do_feedback e FEEDBACK_TYPE_KEY_ACCEPTED s
         else do_feedback e FEEDBACK_TYPE_KEY_REJECTED s)"

section \<open>Interrupts: the code\<close>

definition nexus_keycode_core_init_completed :: "'p nexus \<Rightarrow> bool" where
  "nexus_keycode_core_init_completed s = core_init_completed s"

definition nx_keycode_handle_single_key :: "'p nexus_env \<Rightarrow> u8 \<Rightarrow> 'p nexus \<Rightarrow> bool \<times> 'p nexus" where
  "nx_keycode_handle_single_key e key s =
     (if \<not> nexus_keycode_core_init_completed s then (False, s)
      else (True, nexus_keycode_mas_bookend_push e key s))"

record nx_keycode_complete_code =
  cc_keys :: bytes
  cc_length :: u8

text \<open>\<^verbatim>\<open>keycode->keys[i]\<close>; past the end of the array the contents of memory are not known.\<close>

definition key_at :: "'p nexus_env \<Rightarrow> nx_keycode_complete_code \<Rightarrow> nat \<Rightarrow> u8" where
  "key_at e keycode i = (if i < length (cc_keys keycode) then cc_keys keycode ! i else uninit e i)"

text \<open>The loop over the keys; \<^verbatim>\<open>i\<close> stays below an eight-bit bound, so it does not wrap.\<close>

fun complete_keycode_loop :: "bytes \<Rightarrow> 'p nexus \<Rightarrow> 'p nexus" where
  "complete_keycode_loop [] s = s"
| "complete_keycode_loop (key # keys) s =
     (let s = nexus_keycode_mas_push key s
      in if nexus_keycode_has_reached_stop_length s then s else complete_keycode_loop keys s)"

definition last_keycode_char :: "'p nexus_env \<Rightarrow> nx_keycode_complete_code \<Rightarrow> u8" where
  "last_keycode_char e keycode = (case PROTOCOL (config e) of
       NEXUS_KEYCODE_PROTOCOL_SMALL \<Rightarrow> cc_length keycode
     | NEXUS_KEYCODE_PROTOCOL_FULL \<Rightarrow> cc_length keycode - 1)"

definition nx_keycode_handle_complete_keycode ::
    "'p nexus_env \<Rightarrow> nx_keycode_complete_code \<Rightarrow> 'p nexus \<Rightarrow> bool \<times> 'p nexus" where
  "nx_keycode_handle_complete_keycode e keycode s =
     (if \<not> nexus_keycode_core_init_completed s then (False, s)
      else if nx_keycode_is_rate_limited e s then (True, do_feedback e FEEDBACK_TYPE_MESSAGE_INVALID s)
      else if key_at e keycode 0 \<noteq> start_key (bookend s)
      then (True, do_feedback e FEEDBACK_TYPE_MESSAGE_INVALID s)
      else
        let s = nexus_keycode_mas_reset (on_bookend (\<lambda>b. b\<lparr>start_seen := True\<rparr>) s);
            s = complete_keycode_loop (map (key_at e keycode) [1..<unat (last_keycode_char e keycode)]) s
        in (True, nexus_keycode_mas_finish e (nexus_keycode_mas_bookend_reset s)))"

section \<open>The rate limit\<close>

lemma attempts_loop_div:
  assumes "unat refill \<noteq> 0" "unat secs < n" "unat attempts + unat secs < 4294967296"
  shows "unat (attempts_loop n refill secs attempts) = unat attempts + unat secs div unat refill"
  using assms
proof (induction n arbitrary: secs attempts)
  case (Suc n)
  show ?case
  proof (cases "refill \<le> secs")
    case True
    then have le: "unat refill \<le> unat secs" by (simp add: word_le_nat_alt)
    have u: "unat (secs - refill) = unat secs - unat refill" using True by (simp add: unat_sub)
    have a: "unat (attempts + 1) = Suc (unat attempts)" using Suc.prems le by (simp add: unat_add_1)
    have "unat secs div unat refill = Suc ((unat secs - unat refill) div unat refill)"
      using le Suc.prems(1) by (simp add: le_div_geq)
    then show ?thesis using True Suc.IH [of "secs - refill" "attempts + 1"] Suc.prems le by (simp add: u a)
  next
    case False
    then show ?thesis by (simp add: word_le_nat_alt not_le)
  qed
qed simp

text \<open>The configuration's products do not overflow.\<close>

lemma unat_rate_product:
  fixes a b :: u32
  assumes "unat a \<le> 255" "unat b \<le> 3600"
  shows "unat (a * b) = unat a * unat b"
proof -
  have "unat a * unat b \<le> 255 * 3600" using assms by (rule mult_le_mono)
  then show ?thesis by (simp add: unat_word_ariths)
qed

lemma config_wf_unat:
  assumes "config_wf (config e)"
  shows "unat (RATE_LIMIT_BUCKET_MAX (config e)) \<le> 255"
    "unat (RATE_LIMIT_BUCKET_INITIAL_COUNT (config e)) \<le> 255"
    "unat (RATE_LIMIT_REFILL_SECONDS_PER_ATTEMPT (config e)) \<le> 3600"
    "RATE_LIMIT_BUCKET_MAX (config e) \<noteq> 0 \<Longrightarrow> unat (RATE_LIMIT_REFILL_SECONDS_PER_ATTEMPT (config e)) \<noteq> 0"
  using assms by (auto simp: config_wf_def word_le_nat_alt unat_eq_0)

lemma unat_max_rate_limit_seconds:
  assumes "config_wf (config e)"
  shows "unat (max_rate_limit_seconds e) =
    unat (RATE_LIMIT_BUCKET_MAX (config e)) * unat (RATE_LIMIT_REFILL_SECONDS_PER_ATTEMPT (config e))"
  using config_wf_unat [OF assms] unat_rate_product by (simp add: max_rate_limit_seconds_def)

lemma attempts_remaining_unat:
  assumes "config_wf (config e)" "RATE_LIMIT_BUCKET_MAX (config e) \<noteq> 0" "unat (rl_bucket (mas s)) < 4294967295"
  shows "unat (nexus_keycode_rate_limit_attempts_remaining e s) =
    unat (rl_bucket (mas s)) div unat (RATE_LIMIT_REFILL_SECONDS_PER_ATTEMPT (config e))"
  using attempts_loop_div [of "RATE_LIMIT_REFILL_SECONDS_PER_ATTEMPT (config e)" "rl_bucket (mas s)"
      "unat (rl_bucket (mas s)) + 1" 0] config_wf_unat(4) [OF assms(1,2)] assms(2,3)
  by (simp add: nexus_keycode_rate_limit_attempts_remaining_def word_neq_0_conv)

text \<open>The bucket after some time: no more than the seconds that passed are added, up to the maximum.\<close>

lemma add_time_bucket:
  "unat (rl_bucket (mas (nexus_keycode_rate_limit_add_time e secs s))) =
     min (unat (max_rate_limit_seconds e)) (unat (rl_bucket (mas s)) + unat secs)"
proof -
  let ?b = "rl_bucket (mas s)"
  have "unat (UINT32_MAX - ?b) = 4294967295 - unat ?b"
    using unat_u32_less [of ?b] by (subst unat_sub) (simp_all add: word_le_nat_alt)
  then have o: "secs > UINT32_MAX - ?b \<longleftrightarrow> 4294967295 < unat ?b + unat secs"
    using unat_u32_less [of ?b] by (auto simp: word_less_nat_alt)
  show ?thesis
  proof (cases "4294967295 < unat ?b + unat secs")
    case True
    then show ?thesis using o unat_u32_less [of "max_rate_limit_seconds e"]
      by (simp add: nexus_keycode_rate_limit_add_time_def)
  next
    case False
    then have "unat (?b + secs) = unat ?b + unat secs" by (simp add: unat_word_ariths)
    then show ?thesis using False o
      by (auto simp: nexus_keycode_rate_limit_add_time_def word_le_nat_alt)
  qed
qed

lemma add_time_rest [simp]:
  "plat (nexus_keycode_rate_limit_add_time e secs s) = plat s"
  "stored (nexus_keycode_rate_limit_add_time e secs s) = stored s"
  "pro (nexus_keycode_rate_limit_add_time e secs s) = pro s"
  "bookend (nexus_keycode_rate_limit_add_time e secs s) = bookend s"
  "common (nexus_keycode_rate_limit_add_time e secs s) = common s"
  "core_init_completed (nexus_keycode_rate_limit_add_time e secs s) = core_init_completed s"
  by (simp_all add: nexus_keycode_rate_limit_add_time_def)

section \<open>Properties of the rate limit\<close>

text \<open>C23. The counting loop ends, and the attempts it counts are the seconds in the bucket divided by
  the refill period. The grace attempts written to storage are those, capped by the initial count,
  as the function's contract says.\<close>

theorem remaining_attempts:
  assumes "config_wf (config e)" and "RATE_LIMIT_BUCKET_MAX (config e) \<noteq> 0"
    and "unat (rl_bucket (mas s)) < 4294967295"
  shows "unat (nexus_keycode_rate_limit_attempts_remaining e s) =
      unat (rl_bucket (mas s)) div unat (RATE_LIMIT_REFILL_SECONDS_PER_ATTEMPT (config e)) \<and>
    unat (nexus_keycode_mas_remaining_graceperiod_keycodes e (rl_bucket (mas s)) s) =
      min (unat (RATE_LIMIT_BUCKET_INITIAL_COUNT (config e)))
        (unat (rl_bucket (mas s)) div unat (RATE_LIMIT_REFILL_SECONDS_PER_ATTEMPT (config e)))"
proof -
  let ?r = "unat (RATE_LIMIT_REFILL_SECONDS_PER_ATTEMPT (config e))" and ?b = "unat (rl_bucket (mas s))"
  let ?i = "RATE_LIMIT_BUCKET_INITIAL_COUNT (config e)" and ?a = "nexus_keycode_rate_limit_attempts_remaining e s"
  have a: "unat ?a = ?b div ?r" using assms by (rule attempts_remaining_unat)
  note c = config_wf_unat [OF assms(1)] config_wf_unat(4) [OF assms(1,2)]
  have prod: "unat (?i * RATE_LIMIT_REFILL_SECONDS_PER_ATTEMPT (config e)) = unat ?i * ?r"
    using unat_rate_product [OF c(2,3)] .
  have le: "?b \<ge> unat ?i * ?r \<longleftrightarrow> unat ?i \<le> ?b div ?r" using c(5) by (simp add: less_eq_div_iff_mult_less_eq)
  have ui: "unat (ucast ?i :: u8) = unat ?i" using c(2) by (simp add: unat_ucast_small)
  have "unat (nexus_keycode_mas_remaining_graceperiod_keycodes e (rl_bucket (mas s)) s) = min (unat ?i) (?b div ?r)"
  proof (cases "unat ?i \<le> ?b div ?r")
    case True
    then show ?thesis
      using le ui assms(2) by (simp add: nexus_keycode_mas_remaining_graceperiod_keycodes_def word_le_nat_alt prod
          word_neq_0_conv)
  next
    case False
    then have "unat (ucast ?a :: u8) = ?b div ?r" using a c(2) by (simp add: unat_ucast_small)
    then show ?thesis
      using False le assms(2) by (simp add: nexus_keycode_mas_remaining_graceperiod_keycodes_def word_le_nat_alt prod
          word_neq_0_conv)
  qed
  with a show ?thesis ..
qed

theorem remaining_attempts_witness:
  "(let s = blank_state\<lparr>mas := (mas blank_state)\<lparr>rl_bucket := 4000\<rparr>\<rparr>
    in unat (nexus_keycode_rate_limit_attempts_remaining blank_env s) = 5 \<and>
       unat (nexus_keycode_mas_remaining_graceperiod_keycodes blank_env (rl_bucket (mas s)) s) = 5)"
proof -
  have c: "config blank_env = user_config" by (simp add: blank_env_def sample_env_def)
  then show ?thesis
    using remaining_attempts [of blank_env "blank_state\<lparr>mas := (mas blank_state)\<lparr>rl_bucket := 4000\<rparr>\<rparr>"]
      config_wf_user_config by (simp add: Let_def user_config_def)
qed

text \<open>C24. Adding time never overflows the bucket: it takes the seconds that passed, up to the configured
  number of attempts.\<close>

theorem add_time_saturates:
  assumes "config_wf (config e)"
  shows "unat (rl_bucket (mas (nexus_keycode_rate_limit_add_time e secs s))) =
    min (unat (RATE_LIMIT_BUCKET_MAX (config e)) * unat (RATE_LIMIT_REFILL_SECONDS_PER_ATTEMPT (config e)))
      (unat (rl_bucket (mas s)) + unat secs)"
  using add_time_bucket [of e secs s] unat_max_rate_limit_seconds [OF assms] by simp

theorem add_time_saturates_witness:
  "unat (rl_bucket (mas (nexus_keycode_rate_limit_add_time blank_env 4294967295 blank_state))) = 92160"
proof -
  have c: "config blank_env = user_config" by (simp add: blank_env_def sample_env_def)
  have "rl_bucket (mas blank_state) = 0" by (simp add: blank_state_def nexus_zero_def)
  then show ?thesis
    using add_time_saturates [of blank_env 4294967295 blank_state] config_wf_user_config c by (simp add: user_config_def)
qed

end
