(* ===== verification/Keycode_Core.thy ===== *)
theory Keycode_Core
  imports Keycode_Mas
begin

text \<open>
  The keycode core (\<^verbatim>\<open>nexus/src/nexus_keycode_core.c\<close>) and the library's entry points
  (\<^verbatim>\<open>nexus/src/nexus_common_internal.c\<close>) in a build with keycodes and without Nexus Channel.
\<close>

section \<open>The code\<close>

text \<open>\<^verbatim>\<open>struct nexus_keycode_handling_config\<close> and the value the build selects.\<close>

record 'p nexus_keycode_handling_config =
  hc_parse_and_apply :: nexus_keycode_pro_parse_and_apply
  hc_protocol_init :: "bytes \<Rightarrow> 'p nexus \<Rightarrow> 'p nexus"
  hc_stop_length :: u8
  hc_start_char :: u8
  hc_end_char :: u8
  hc_alphabet :: bytes

definition NEXUS_KEYCODE_HANDLING_CONFIG_DEFAULT :: "keycode_protocol \<Rightarrow> 'p nexus_keycode_handling_config" where
  "NEXUS_KEYCODE_HANDLING_CONFIG_DEFAULT p =
     \<lparr>hc_parse_and_apply = (case p of NEXUS_KEYCODE_PROTOCOL_FULL \<Rightarrow> FULL_PARSE_AND_APPLY
        | NEXUS_KEYCODE_PROTOCOL_SMALL \<Rightarrow> SMALL_PARSE_AND_APPLY),
      hc_protocol_init = (case p of NEXUS_KEYCODE_PROTOCOL_FULL \<Rightarrow> nexus_keycode_pro_full_init
        | NEXUS_KEYCODE_PROTOCOL_SMALL \<Rightarrow> nexus_keycode_pro_small_init),
      hc_stop_length = NEXUS_KEYCODE_PROTOCOL_STOP_LENGTH p,
      hc_start_char = NEXUS_KEYCODE_START_CHAR p,
      hc_end_char = NEXUS_KEYCODE_END_CHAR p,
      hc_alphabet = NEXUS_KEYCODE_ALPHABET p\<rparr>"

definition nexus_keycode_core_internal_init ::
    "'p nexus_env \<Rightarrow> 'p nexus_keycode_handling_config \<Rightarrow> 'p nexus \<Rightarrow> 'p nexus" where
  "nexus_keycode_core_internal_init e c s =
     (let s = s\<lparr>core_init_completed := False\<rparr>;
          s = nexus_keycode_pro_init e (hc_parse_and_apply c) (hc_protocol_init c) (hc_alphabet c) s;
          s = nexus_keycode_mas_init e PRO_ENQUEUE s;
          s = nexus_keycode_mas_bookend_init (hc_start_char c) (hc_end_char c) (hc_stop_length c) s
      in s\<lparr>core_init_completed := True\<rparr>)"

definition nexus_keycode_core_init :: "'p nexus_env \<Rightarrow> 'p nexus \<Rightarrow> 'p nexus" where
  "nexus_keycode_core_init e s =
     nexus_keycode_core_internal_init e (NEXUS_KEYCODE_HANDLING_CONFIG_DEFAULT (PROTOCOL (config e))) s"

definition nexus_keycode_core_process :: "'p nexus_env \<Rightarrow> u32 \<Rightarrow> 'p nexus \<Rightarrow> u32 \<times> 'p nexus" where
  "nexus_keycode_core_process e seconds_elapsed s =
     (let min_sleep = NEXUS_COMMON_IDLE_TIME_BETWEEN_PROCESS_CALL_SECONDS;
          (sleep, s) = nexus_keycode_mas_process e seconds_elapsed s;
          min_sleep = u32min min_sleep sleep;
          (sleep, s) = nexus_keycode_pro_process e s;
          min_sleep = u32min min_sleep sleep
      in (min_sleep, s))"

definition nx_common_init :: "'p nexus_env \<Rightarrow> u32 \<Rightarrow> 'p nexus \<Rightarrow> 'p nexus" where
  "nx_common_init e initial_uptime_s s =
     (let s = s\<lparr>common := \<lparr>uptime_s = initial_uptime_s, init_completed = False, pending_init = True\<rparr>\<rparr>;
          s = nexus_keycode_core_init e s
      in do_request_processing e s)"

text \<open>Debug assertions are off, as in a release build.\<close>

definition nx_common_process :: "'p nexus_env \<Rightarrow> u32 \<Rightarrow> 'p nexus \<Rightarrow> u32 \<times> 'p nexus" where
  "nx_common_process e uptime_seconds s =
     (if uptime_seconds < uptime_s (common s) then (0, s)
      else
        let seconds_elapsed = uptime_seconds - uptime_s (common s);
            s = s\<lparr>common := (common s)\<lparr>uptime_s := uptime_seconds\<rparr>\<rparr>;
            min_sleep = NEXUS_COMMON_IDLE_TIME_BETWEEN_PROCESS_CALL_SECONDS;
            (sleep, s) = nexus_keycode_core_process e seconds_elapsed s;
            min_sleep = u32min min_sleep sleep;
            s = (if pending_init (common s)
                 then s\<lparr>common := (common s)\<lparr>pending_init := False, init_completed := True\<rparr>\<rparr> else s)
        in (min_sleep, s))"

definition nexus_common_init_completed :: "'p nexus \<Rightarrow> bool" where
  "nexus_common_init_completed s = init_completed (common s)"

text \<open>Without Nexus Channel there is nothing to shut down.\<close>

definition nx_common_shutdown :: "'p nexus \<Rightarrow> 'p nexus" where
  "nx_common_shutdown s = s"

end
