(* ===== verification/Keycode_Once.thy ===== *)
theory Keycode_Once
  imports Keycode_Full
begin

text \<open>
  Replay protection of the keycode protocols: over any sequence of frames that does not erase
  the record of received identifiers, no identifier is applied twice to add or set credit.
\<close>

section \<open>Spent identifiers\<close>

text \<open>An identifier is spent when it is marked as received or has fallen below the window.\<close>

definition id_spent :: "'p nexus \<Rightarrow> nat \<Rightarrow> bool" where
  "id_spent s i \<longleftrightarrow> i \<in> recd (stored s) \<or> i + 23 < unat (pd_index (stored s))"

lemma spent_mono:
  assumes "unat (pd_index (stored s)) \<le> unat (pd_index (stored t))"
    and "{j \<in> recd (stored s). unat (pd_index (stored t)) \<le> j + 23} \<subseteq> recd (stored t)" and "id_spent s i"
  shows "id_spent t i"
  using assms by (auto simp: id_spent_def)

lemma spent_cong: "stored t = stored s \<Longrightarrow> id_spent t = id_spent s"
  by (simp add: id_spent_def fun_eq_iff)

context product_port
begin

lemma set_flag_spent:
  fixes i :: u16 and j :: nat
  assumes inv: "keycode_inv e ok s"
  defines "t \<equiv> nexus_keycode_pro_set_full_message_id_flag e i s"
  shows "unat (pd_index (stored t)) = max (unat (pd_index (stored s))) (unat i)"
    and "id_spent s j \<Longrightarrow> id_spent t j" and "id_spent t (unat i)"
proof -
  let ?pd = "unat (pd_index (stored s))"
  have "unat (pd_index (stored t)) = max ?pd (unat i) \<and> (id_spent s j \<longrightarrow> id_spent t j) \<and> id_spent t (unat i)"
  proof (cases "?pd \<le> unat i + 23")
    case True
    note sp = set_full_message_id_flag_spec [OF inv True, folded t_def]
    have "id_spent s j \<Longrightarrow> id_spent t j" by (rule spent_mono) (auto simp: sp)
    then show ?thesis using sp by (simp add: id_spent_def)
  next
    case False
    note d = keycode_invD [OF inv]
    have "unat i \<notin> recd (stored s)" using False recd_bounds by fastforce
    then have t: "t = update_keycode_pro_nv_blocks e (on_stored (\<lambda>st.
        set_received_ids (nexus_bitset_add (received_ids st) 23) st) s)"
      using False update_window_cases(3) [OF inv, of i]
      by (simp add: t_def nexus_keycode_pro_set_full_message_id_flag_def get_full_message_id_flag_recd [OF inv])
    have pd: "pd_index (stored t) = pd_index (stored s)" by (simp add: t)
    have "flags24 (stored t) = insert 23 (flags24 (stored s))"
      using flags24_add [OF d(3), of 23] by (simp add: t)
    then have "recd (stored s) \<subseteq> recd (stored t)" by (auto simp: recd_def ids_of_def pd)
    then show ?thesis using False by (auto simp: id_spent_def pd)
  qed
  then show "unat (pd_index (stored t)) = max ?pd (unat i)" "id_spent s j \<Longrightarrow> id_spent t j" "id_spent t (unat i)"
    by blast+
qed

lemma mask_below_spent:
  fixes i :: u16 and j :: nat
  assumes inv: "keycode_inv e ok s"
  defines "t \<equiv> nexus_keycode_pro_mask_below_message_id e i s"
  shows "unat (pd_index (stored s)) \<le> unat (pd_index (stored t))"
    and "unat (pd_index (stored t)) \<le> max (unat (pd_index (stored s))) (unat i - 1)"
    and "id_spent s j \<Longrightarrow> id_spent t j" and "i \<noteq> 0 \<Longrightarrow> id_spent t (unat (i - 1))"
proof -
  let ?pd = "unat (pd_index (stored s))"
  note d = keycode_invD [OF inv]
  have "?pd \<le> unat (pd_index (stored t)) \<and> unat (pd_index (stored t)) \<le> max ?pd (unat i - 1) \<and>
    (id_spent s j \<longrightarrow> id_spent t j) \<and> (i \<noteq> 0 \<longrightarrow> id_spent t (unat (i - 1)))"
  proof (cases "i = 0")
    case True
    then show ?thesis by (simp add: t_def nexus_keycode_pro_mask_below_message_id_def)
  next
    case False
    then have i1: "unat i = Suc (unat (i - 1))" using unat_add_1 [of "i - 1"] unat_u16_less [of i]
      by (metis Suc_pred' unat_gt_0 unat_minus_one)
    show ?thesis
    proof (cases "?pd \<le> unat (i - 1) + 23")
      case True
      have "unat (i - 1) < 65535" using i1 unat_u16_less [of i] by simp
      note sp = mask_below_message_id_spec [OF inv True this, simplified, folded t_def]
      have "id_spent s j \<Longrightarrow> id_spent t j" by (rule spent_mono) (auto simp: sp)
      then show ?thesis using sp True i1 by (auto simp: id_spent_def)
    next
      case False
      show ?thesis
      proof (cases "ucast i < pd_index (stored s) - 23")
        case True
        then have "t = s"
          by (simp add: t_def nexus_keycode_pro_mask_below_message_id_def nexus_keycode_pro_get_current_pd_index_def)
        then show ?thesis using False by (auto simp: id_spent_def)
      next
        case in_w: False
        then have t: "t = update_keycode_pro_nv_blocks e (on_stored (mask_all_up_to 23) s)"
          using False update_window_cases(3) [OF inv, of "i - 1"] \<open>i \<noteq> 0\<close>
          by (simp add: t_def nexus_keycode_pro_mask_below_message_id_def nexus_keycode_pro_get_current_pd_index_def)
        note m = flags24_mask_all [OF d(3), of 23]
        have pd: "pd_index (stored t) = pd_index (stored s)" using m by (simp add: t)
        have "flags24 (stored s) \<subseteq> flags24 (stored t)" using m(1) by (simp add: t)
        then have "recd (stored s) \<subseteq> recd (stored t)" by (auto simp: recd_def ids_of_def pd)
        then show ?thesis using False by (auto simp: id_spent_def pd)
      qed
    qed
  qed
  then show "?pd \<le> unat (pd_index (stored t))" "unat (pd_index (stored t)) \<le> max ?pd (unat i - 1)"
    "id_spent s j \<Longrightarrow> id_spent t j" "i \<noteq> 0 \<Longrightarrow> id_spent t (unat (i - 1))" by blast+
qed

end

text \<open>The window moves up, to \<open>k\<close> at most, and spent identifiers stay spent.\<close>

definition advances :: "nat \<Rightarrow> 'p nexus \<Rightarrow> 'p nexus \<Rightarrow> bool" where
  "advances k s t \<longleftrightarrow> unat (pd_index (stored s)) \<le> unat (pd_index (stored t)) \<and>
     unat (pd_index (stored t)) \<le> max (unat (pd_index (stored s))) k \<and> (\<forall>j. id_spent s j \<longrightarrow> id_spent t j)"

lemma advances_same:
  "pd_index (stored t) = pd_index (stored s) \<Longrightarrow> received_flags (stored t) = received_flags (stored s) \<Longrightarrow>
    advances k s t"
  by (simp add: advances_def id_spent_def recd_def flags24_def)

lemma advances_trans: "advances k s t \<Longrightarrow> advances k t u \<Longrightarrow> advances k s u"
  by (auto simp: advances_def)

lemma advances_then:
  "advances k s t \<Longrightarrow> pd_index (stored u) = pd_index (stored t) \<Longrightarrow>
    received_flags (stored u) = received_flags (stored t) \<Longrightarrow> advances k s u"
  using advances_trans advances_same by blast

lemma advances_do:
  assumes "advances k s t"
  shows "advances k s (do_credit_add e c t)" "advances k s (do_credit_set e c t)" "advances k s (do_credit_unlock e t)"
    "advances k s (do_feedback e fb t)" "advances k s (nexus_keycode_pro_reset_custom_flag e flag t)"
    "advances k s (nexus_keycode_pro_increment_long_qc_test_message_count e t)"
    "advances k s (nexus_keycode_pro_increment_short_qc_test_message_count e t)"
  by (rule advances_then [OF assms]; simp add: nexus_keycode_pro_reset_custom_flag_def Let_def
      nexus_keycode_pro_increment_long_qc_test_message_count_def
      nexus_keycode_pro_increment_short_qc_test_message_count_def)+

context product_port
begin

lemma advances_set_flag:
  assumes "keycode_inv e ok s"
  shows "advances (unat i) s (nexus_keycode_pro_set_full_message_id_flag e i s)"
  using set_flag_spent [OF assms, where i = i] by (simp add: advances_def)

text \<open>The code passes the identifier plus one, computed in 32 bits and cut to 16.\<close>

lemma advances_mask_below:
  assumes inv: "keycode_inv e ok s" and i: "unat (i::u32) < 65535"
  shows "advances (unat i) s (nexus_keycode_pro_mask_below_message_id e (ucast (i + 1)) s)"
    and "id_spent (nexus_keycode_pro_mask_below_message_id e (ucast (i + 1)) s) (unat i)"
proof -
  have "unat (i + 1) = Suc (unat i)" using i by (simp add: unat_add_1)
  then have u: "unat (ucast (i + 1) :: u16) = Suc (unat i)" using i by (simp add: unat_ucast_small)
  then have nz: "(ucast (i + 1) :: u16) \<noteq> 0" by (metis nat.distinct(1) unsigned_0)
  then have "unat (ucast (i + 1) - 1 :: u16) = unat i" using u by (simp add: unat_minus_one)
  then show "advances (unat i) s (nexus_keycode_pro_mask_below_message_id e (ucast (i + 1)) s)"
    "id_spent (nexus_keycode_pro_mask_below_message_id e (ucast (i + 1)) s) (unat i)"
    using mask_below_spent [OF inv, where i = "ucast (i + 1)"] nz u by (simp_all add: advances_def)
qed

end

section \<open>Credit is granted once per identifier\<close>

text \<open>The identifiers that a run of a protocol over a sequence of frames grants credit for.\<close>

fun credited_ids :: "('f \<Rightarrow> 's \<Rightarrow> 's) \<Rightarrow> ('f \<Rightarrow> 's \<Rightarrow> nat option) \<Rightarrow> 'f list \<Rightarrow> 's \<Rightarrow> nat list" where
  "credited_ids step credited [] s = []"
| "credited_ids step credited (f # fs) s =
     (case credited f s of None \<Rightarrow> [] | Some i \<Rightarrow> [i]) @ credited_ids step credited fs (step f s)"

text \<open>No frame of the sequence breaks off the record of received identifiers, in the state it is applied to.\<close>

fun keeps_ids :: "('f \<Rightarrow> 's \<Rightarrow> 's) \<Rightarrow> ('f \<Rightarrow> 's \<Rightarrow> bool) \<Rightarrow> 'f list \<Rightarrow> 's \<Rightarrow> bool" where
  "keeps_ids step breaks [] s = True"
| "keeps_ids step breaks (f # fs) s = (\<not> breaks f s \<and> keeps_ids step breaks fs (step f s))"

text \<open>The contract of a keycode protocol.\<close>

locale credit_protocol =
  fixes step :: "'f \<Rightarrow> 's \<Rightarrow> 's" and credited :: "'f \<Rightarrow> 's \<Rightarrow> nat option" and breaks :: "'f \<Rightarrow> 's \<Rightarrow> bool"
    and inv :: "'s \<Rightarrow> bool" and used :: "'s \<Rightarrow> nat \<Rightarrow> bool"
  assumes step_inv: "inv s \<Longrightarrow> inv (step f s)"
    and step_used: "inv s \<Longrightarrow> \<not> breaks f s \<Longrightarrow> used s i \<Longrightarrow> used (step f s) i"
    and credited_fresh: "inv s \<Longrightarrow> \<not> breaks f s \<Longrightarrow> credited f s = Some i \<Longrightarrow> \<not> used s i"
    and credited_used: "inv s \<Longrightarrow> \<not> breaks f s \<Longrightarrow> credited f s = Some i \<Longrightarrow> used (step f s) i"
begin

lemma credited_ids_unused:
  assumes "inv s" "keeps_ids step breaks fs s"
  shows "distinct (credited_ids step credited fs s) \<and> (\<forall>i \<in> set (credited_ids step credited fs s). \<not> used s i)"
  using assms
proof (induction fs arbitrary: s)
  case (Cons f fs)
  let ?t = "step f s"
  have IH: "distinct (credited_ids step credited fs ?t)"
      "\<And>i. i \<in> set (credited_ids step credited fs ?t) \<Longrightarrow> \<not> used ?t i"
    using Cons.IH [of ?t] Cons.prems step_inv by auto
  then have late: "\<not> used s i" if "i \<in> set (credited_ids step credited fs ?t)" for i
    using that step_used [of s f i] Cons.prems by auto
  show ?case
  proof (cases "credited f s")
    case None
    then show ?thesis using IH late by simp
  next
    case (Some i)
    then have "\<not> used s i" "used ?t i"
      using credited_fresh [of s f i] credited_used [of s f i] Cons.prems by auto
    then show ?thesis using Some IH late by auto
  qed
qed simp

end

section \<open>The full protocol\<close>

text \<open>
  The identifier for which an add-credit or set-credit frame is applied, and whether a frame wipes the identifiers. Demo frames are made to
  be used again and again, and factory frames carry no identifier.
\<close>

definition full_credited :: "'p nexus_env \<Rightarrow> nexus_keycode_frame \<Rightarrow> 'p nexus \<Rightarrow> nat option" where
  "full_credited e fr s = (case nexus_keycode_pro_full_parse e fr s of (parsed, m, t) \<Rightarrow>
     if parsed \<and> fr_length fr = 14 \<and>
        (fm_type_code m = FULL_ACTIVATION_ADD_CREDIT \<or> fm_type_code m = FULL_ACTIVATION_SET_CREDIT) \<and>
        fst (nexus_keycode_pro_full_apply e m t) = RESPONSE_VALID_APPLIED
     then Some (unat (fm_full_message_id m)) else None)"

definition full_wipes :: "'p nexus_env \<Rightarrow> nexus_keycode_frame \<Rightarrow> 'p nexus \<Rightarrow> bool" where
  "full_wipes e fr s = (case nexus_keycode_pro_full_parse e fr s of (parsed, m, t) \<Rightarrow>
     parsed \<and> fm_type_code m = FULL_ACTIVATION_WIPE_STATE \<and> (fm_body m = 1 \<or> fm_body m = 2) \<and>
     fst (nexus_keycode_pro_full_apply e m t) = RESPONSE_VALID_APPLIED)"

definition full_step :: "'p nexus_env \<Rightarrow> nexus_keycode_frame \<Rightarrow> 'p nexus \<Rightarrow> 'p nexus" where
  "full_step e fr s = snd (nexus_keycode_pro_full_parse_and_apply e fr s)"

text \<open>A frame also ends the record when its identifier is the largest of 16 bits or above: the identifier plus one is then cut to 0.\<close>

definition full_breaks :: "'p nexus_env \<Rightarrow> nexus_keycode_frame \<Rightarrow> 'p nexus \<Rightarrow> bool" where
  "full_breaks e fr s \<longleftrightarrow> full_wipes e fr s \<or>
     (case nexus_keycode_pro_full_parse e fr s of (parsed, m, t) \<Rightarrow> parsed \<and> 65535 \<le> unat (fm_full_message_id m))"

lemma mask_below_at_limit: "fm_full_message_id m = 65535 \<Longrightarrow>
  nexus_keycode_pro_mask_below_message_id e (ucast (fm_full_message_id m + 1)) s = s"
  by (simp add: nexus_keycode_pro_mask_below_message_id_def)

lemma full_parse_factory_id:
  assumes "nexus_keycode_pro_full_parse_factory_and_passthrough e fr zero_full_message s = (True, m, t)"
  shows "fm_full_message_id m = 0 \<and> (t = s \<or> fm_type_code m = FULL_PASSTHROUGH_COMMAND)"
  using assms
  by (auto simp: nexus_keycode_pro_full_parse_factory_and_passthrough_def Let_def zero_full_message_def
      split: prod.splits if_splits)

lemma full_parse_activation_id:
  assumes "nexus_keycode_pro_full_parse_activation e fr m0 s = (True, m)" "stored_ok (stored s)"
  shows "unat (pd_index (stored s)) \<le> unat (fm_full_message_id m) + 23"
    and "unat (fm_full_message_id m) \<le> unat (pd_index (stored s)) + 40"
proof -
  have "\<exists>c :: u8. \<not> 63 < unat c \<and>
      fm_full_message_id m = nexus_keycode_pro_infer_full_message_id c (pd_index (stored s)) 23 40"
    using assms(1)
    by (auto simp: nexus_keycode_pro_full_parse_activation_def Let_def word_less_nat_alt
        split: prod.splits if_splits)
  then obtain c :: u8 where "unat c \<le> 63"
    and m: "fm_full_message_id m = nexus_keycode_pro_infer_full_message_id c (pd_index (stored s)) 23 40"
    unfolding not_less by blast
  then show "unat (pd_index (stored s)) \<le> unat (fm_full_message_id m) + 23"
    "unat (fm_full_message_id m) \<le> unat (pd_index (stored s)) + 40"
    using infer_full_message_id_iff [of c "pd_index (stored s)"] assms(2) by (auto simp: stored_ok_def)
qed

text \<open>A parsed full frame carries an identifier at most 40 above \<open>Pd\<close>, 14-digit ones in the window.\<close>

lemma full_parse_id:
  assumes p: "nexus_keycode_pro_full_parse e fr s = (True, m, t)" and st: "stored_ok (stored s)"
  shows "unat (fm_full_message_id m) \<le> unat (pd_index (stored s)) + 40"
    and "fr_length fr = 14 \<Longrightarrow> unat (pd_index (stored s)) \<le> unat (fm_full_message_id m) + 23"
    and "t = s \<or> fm_type_code m = FULL_PASSTHROUGH_COMMAND"
  using p full_parse_factory_id [of e fr s m t] full_parse_activation_id [of e fr zero_full_message s m, OF _ st]
  by (auto simp: nexus_keycode_pro_full_parse_def split: if_splits prod.splits)

context product_port
begin

lemma full_apply_once:
  assumes inv: "keycode_inv e ok s" and i: "unat (fm_full_message_id m) < 65535"
    and nw: "\<not> (fm_type_code m = 2 \<and> (fm_body m = 1 \<or> fm_body m = 2) \<and>
      fst (nexus_keycode_pro_full_apply e m s) = RESPONSE_VALID_APPLIED)"
  shows "advances (unat (fm_full_message_id m)) s (snd (nexus_keycode_pro_full_apply e m s))"
    and "fm_type_code m = 0 \<or> fm_type_code m = 1 \<Longrightarrow>
      fst (nexus_keycode_pro_full_apply e m s) = RESPONSE_VALID_APPLIED \<Longrightarrow>
      unat (fm_full_message_id m) \<notin> recd (stored s) \<and>
      id_spent (snd (nexus_keycode_pro_full_apply e m s)) (unat (fm_full_message_id m))"
proof -
  let ?i = "fm_full_message_id m" and ?A = "nexus_keycode_pro_full_apply_activation e m s"
  have u: "unat (ucast ?i :: u16) = unat ?i" using i by (simp add: unat_ucast_small)
  note g = get_full_message_id_flag_recd [OF inv, of "ucast ?i", unfolded u]
  note s = advances_set_flag [OF inv, of "ucast ?i", unfolded u] set_flag_spent(3) [OF inv, of "ucast ?i", unfolded u]
    advances_mask_below [OF inv i]
  have refl: "advances k s s" for k by (simp add: advances_same)
  have same: "id_spent (do_credit_add e c t) = id_spent t" "id_spent (do_credit_set e c t) = id_spent t"
    "id_spent (do_credit_unlock e t) = id_spent t" for c and t :: "'a nexus"
    by (rule spent_cong, simp)+
  have f: "advances (unat ?i) s (snd (nexus_keycode_pro_full_apply_factory e m s))"
    by (auto simp: nexus_keycode_pro_full_apply_factory_def Let_def intro!: advances_do refl)
  have nwA: "\<not> (fm_type_code m = 2 \<and> (fm_body m = 1 \<or> fm_body m = 2) \<and> fst ?A = RESPONSE_VALID_APPLIED) \<or>
      nexus_keycode_pro_full_apply e m s = (RESPONSE_INVALID, s)"
    using nw by (auto simp: nexus_keycode_pro_full_apply_def Let_def split: if_splits)
  have a: "advances (unat ?i) s (snd ?A)" if "\<not> (fm_type_code m = 2 \<and> (fm_body m = 1 \<or> fm_body m = 2) \<and>
      fst ?A = RESPONSE_VALID_APPLIED)"
    using that s(1,3) refl
    by (auto simp: nexus_keycode_pro_full_apply_activation_def g Let_def full_apply_wipe_state_def
        intro!: advances_do)
  show "advances (unat ?i) s (snd (nexus_keycode_pro_full_apply e m s))"
  proof (cases "nexus_keycode_pro_full_apply e m s = (RESPONSE_INVALID, s)")
    case False
    then have "advances (unat ?i) s (snd ?A)" using nwA by (intro a) blast
    then show ?thesis using f refl by (auto simp: nexus_keycode_pro_full_apply_def Let_def)
  qed (simp add: refl)
  have b: "unat ?i \<notin> recd (stored s) \<and> id_spent (snd ?A) (unat ?i)"
    if "fm_type_code m = 0 \<or> fm_type_code m = 1" "fst ?A = RESPONSE_VALID_APPLIED"
    using that s(2,4) by (auto simp: nexus_keycode_pro_full_apply_activation_def g Let_def same split: if_splits)
  show "unat ?i \<notin> recd (stored s) \<and> id_spent (snd (nexus_keycode_pro_full_apply e m s)) (unat ?i)"
    if "fm_type_code m = 0 \<or> fm_type_code m = 1"
      "fst (nexus_keycode_pro_full_apply e m s) = RESPONSE_VALID_APPLIED"
    using that b by (auto simp: nexus_keycode_pro_full_apply_def Let_def split: if_splits)
qed

end

sublocale nexus_product \<subseteq> full: credit_protocol "full_step e" "full_credited e" "full_breaks e" "pro_inv e ok" id_spent
proof
  fix s fr
  assume inv: "pro_inv e ok s"
  then have kinv: "keycode_inv e ok s" and st: "stored_ok (stored s)"
    using pro_invD [of e ok s] keycode_invD(2) [of e ok s] by auto
  show "pro_inv e ok (full_step e fr s)"
    using kept.closed_full_parse_and_apply [OF inv, of fr] by (simp add: full_step_def)
  obtain parsed m t where p: "nexus_keycode_pro_full_parse e fr s = (parsed, m, t)" by (metis prod_cases3)
  assume nb: "\<not> full_breaks e fr s"
  then have nw: "\<not> full_wipes e fr s" and lt: "parsed \<Longrightarrow> unat (fm_full_message_id m) < 65535" using p by (auto simp: full_breaks_def)
  have ts: "t = s" if parsed "fm_type_code m \<noteq> 8" using full_parse_id(3) [OF _ st, of e fr m t] p that by auto
  have bad: "stored (snd (snd (nexus_keycode_pro_full_parse e fr s))) = stored s"
    by (simp add: nexus_keycode_pro_full_parse_def nexus_keycode_pro_full_parse_factory_and_passthrough_def
        do_passthrough_def case_prod_beta Let_def)
  show "id_spent (full_step e fr s) i" if "id_spent s i" for i
  proof (cases "parsed \<and> fm_type_code m \<noteq> 8")
    case True
    then have "advances (unat (fm_full_message_id m)) s (full_step e fr s)"
      using full_apply_once(1) [OF kinv lt] nw ts p
      by (simp add: full_step_def nexus_keycode_pro_full_parse_and_apply_def full_wipes_def)
    then show ?thesis using that by (simp add: advances_def)
  next
    case False
    then have "stored (full_step e fr s) = stored s"
      using bad p by (auto simp: full_step_def nexus_keycode_pro_full_parse_and_apply_def)
    then show ?thesis using that spent_cong by metis
  qed
  fix i assume c: "full_credited e fr s = Some i"
  then have q: parsed "fr_length fr = 14" "fm_type_code m = 0 \<or> fm_type_code m = 1"
      "fst (nexus_keycode_pro_full_apply e m t) = RESPONSE_VALID_APPLIED" "i = unat (fm_full_message_id m)"
    by (auto simp: full_credited_def p split: if_splits)
  then have "t = s" using ts by auto
  note o = full_apply_once(2) [OF kinv lt [OF q(1)] _ q(3), unfolded \<open>t = s\<close> [symmetric], OF _ q(4)]
  have nr: "i \<notin> recd (stored s)" and sp: "id_spent (snd (nexus_keycode_pro_full_apply e m s)) i"
    using o q \<open>t = s\<close> by auto
  show "\<not> id_spent s i"
    using nr full_parse_id(2) [OF _ st q(2), of e m t] p q by (simp add: id_spent_def)
  show "id_spent (full_step e fr s) i"
    using sp p q \<open>t = s\<close> by (auto simp: full_step_def nexus_keycode_pro_full_parse_and_apply_def)
qed

section \<open>Replay protection of the full protocol\<close>

text \<open>A frame from the repository's tests: 168 hours of credit under identifier 16, all-zero key.\<close>

definition add_frame :: nexus_keycode_frame where
  "add_frame = \<lparr>fr_keys = [49, 51, 55, 55, 55, 55, 57, 52, 49, 54, 48, 54, 57, 50] @ replicate 16 0, fr_length = 14\<rparr>"

definition add_message :: full_message where
  "add_message = \<lparr>fm_full_message_id = 16, fm_type_code = 0, fm_body = 168, fm_check = 160692\<rparr>"

lemma full_parse_activation_cong:
  assumes "pd_index (stored s) = pd_index (stored t)"
  shows "nexus_keycode_pro_full_parse_activation e fr m s = nexus_keycode_pro_full_parse_activation e fr m t"
  unfolding nexus_keycode_pro_full_parse_activation_def assms by (rule refl)

lemma full_parse_add_frame:
  assumes "pd_index (stored s) = 23"
  shows "nexus_keycode_pro_full_parse blank_env add_frame s = (True, add_message, s)"
proof -
  have "nexus_keycode_pro_full_parse_activation blank_env add_frame zero_full_message blank_state = (True, add_message)"
    by code_simp
  then show ?thesis
    using full_parse_activation_cong [of s blank_state] assms
    by (simp add: nexus_keycode_pro_full_parse_def pd_blank) (simp add: add_frame_def)
qed

lemma full_apply_add_frame:
  "nexus_keycode_pro_full_apply blank_env add_message blank_state =
    (RESPONSE_VALID_APPLIED, do_credit_add blank_env 604800
      (nexus_keycode_pro_set_full_message_id_flag blank_env 16 blank_state))"
proof -
  have c: "nexus_keycode_pro_full_compute_check add_message (replicate 16 0) = fm_check add_message" by code_simp
  have k: "get_secret_key blank_env blank_state = replicate 16 0"
    by (simp add: get_secret_key_def blank_env_def sample_env_def blank_state_simps blank_product_def)
  let ?t = "nexus_keycode_pro_set_full_message_id_flag blank_env 16 blank_state"
  obtain k where w: "nexus_keycode_pro_update_window_and_message_mask_id blank_env 16 blank_state = (False, k, blank_state)"
    using update_window_cases(2) [OF keycode_inv_blank, of 16] by (auto simp: pd_blank)
  have "payg_is_unlocked (snd (nexus_nv_update blank_env m b p)) = payg_is_unlocked p" for m b p
    by (simp add: nexus_nv_update_def blank_env_def sample_env_def sample_nv_write_def nv_write_def Let_def
        split: prod.split)
  then have "payg_is_unlocked (plat ?t) = 0"
    using get_full_message_id_flag_recd [OF keycode_inv_blank, of 16]
    by (simp add: nexus_keycode_pro_set_full_message_id_flag_def w recd_blank update_keycode_pro_nv_blocks_def
        blank_state_simps blank_product_def)
  then have "get_payg_state blank_env ?t \<noteq> NXP_COMMON_PAYG_STATE_UNLOCKED"
    by (simp add: get_payg_state_def blank_env_def sample_env_def sample_payg_state_get_current_def)
  then show ?thesis
    using c get_full_message_id_flag_recd [OF keycode_inv_blank, of 16] recd_blank
    by (simp add: nexus_keycode_pro_full_apply_def k nexus_keycode_pro_full_apply_activation_def)
      (simp add: add_message_def)
qed

context nexus_product
begin

lemma full_credited_distinct:
  assumes "pro_inv e ok s" "keeps_ids (full_step e) (full_breaks e) frs s"
  shows "distinct (credited_ids (full_step e) (full_credited e) frs s)"
  using full.credited_ids_unused [OF assms] by blast

end



end
