(* ===== verification/Keycode_System.thy ===== *)
theory Keycode_System
  imports Keycode_Core
begin

text \<open>
  The keycode library as a whole: the calls a product makes, sequences of calls, the states
  reachable from a factory-fresh product, restarts included, and what holds in all of them.
\<close>

section \<open>Calls\<close>

datatype nexus_call =
    Handle_single_key u8
  | Handle_complete_keycode nx_keycode_complete_code
  | Process u32
  | Set_custom_flag nx_keycode_custom_flag

definition nexus_call :: "'p nexus_env \<Rightarrow> nexus_call \<Rightarrow> 'p nexus \<Rightarrow> 'p nexus" where
  "nexus_call e c s = (case c of
       Handle_single_key key \<Rightarrow> snd (nx_keycode_handle_single_key e key s)
     | Handle_complete_keycode code \<Rightarrow> snd (nx_keycode_handle_complete_keycode e code s)
     | Process t \<Rightarrow> snd (nx_common_process e t s)
     | Set_custom_flag flag \<Rightarrow> nx_keycode_set_custom_flag e flag s)"

fun nexus_run :: "'p nexus_env \<Rightarrow> nexus_call list \<Rightarrow> 'p nexus \<Rightarrow> 'p nexus" where
  "nexus_run e [] s = s"
| "nexus_run e (c # cs) s = nexus_run e cs (nexus_call e c s)"

text \<open>A call interprets a frame when it is an accepted process call with a frame pending.\<close>

definition interprets :: "nexus_call \<Rightarrow> 'p nexus \<Rightarrow> bool" where
  "interprets c s = (case c of Process t \<Rightarrow> uptime_s (common s) \<le> t \<and> pending (pro s) | _ \<Rightarrow> False)"

fun interpreted :: "'p nexus_env \<Rightarrow> nexus_call list \<Rightarrow> 'p nexus \<Rightarrow> nat" where
  "interpreted e [] s = 0"
| "interpreted e (c # cs) s = of_bool (interprets c s) + interpreted e cs (nexus_call e c s)"

section \<open>The rate limit over a sequence of calls\<close>

text \<open>Seconds of entry attempts at hand, the attempt of a pending frame included.\<close>

definition attempt_seconds :: "'p nexus_env \<Rightarrow> 'p nexus \<Rightarrow> nat" where
  "attempt_seconds e s = unat (rl_bucket (mas s)) +
     unat (RATE_LIMIT_REFILL_SECONDS_PER_ATTEMPT (config e)) * of_bool (pending (pro s))"

lemma mas_reset_simps [simp]:
  "rl_bucket (mas (nexus_keycode_mas_reset s)) = rl_bucket (mas s)" "pro (nexus_keycode_mas_reset s) = pro s"
  "common (nexus_keycode_mas_reset s) = common s" "bookend (nexus_keycode_mas_reset s) = bookend s"
  "stored (nexus_keycode_mas_reset s) = stored s" "plat (nexus_keycode_mas_reset s) = plat s"
  "core_init_completed (nexus_keycode_mas_reset s) = core_init_completed s"
  by (simp_all add: nexus_keycode_mas_reset_def)

lemma mas_push_simps [simp]:
  "rl_bucket (mas (nexus_keycode_mas_push key s)) = rl_bucket (mas s)" "pro (nexus_keycode_mas_push key s) = pro s"
  "common (nexus_keycode_mas_push key s) = common s" "bookend (nexus_keycode_mas_push key s) = bookend s"
  "stored (nexus_keycode_mas_push key s) = stored s" "plat (nexus_keycode_mas_push key s) = plat s"
  "core_init_completed (nexus_keycode_mas_push key s) = core_init_completed s"
  "handler (mas (nexus_keycode_mas_push key s)) = handler (mas s)"
  by (simp_all add: nexus_keycode_mas_push_def)

lemma bookend_reset_simps [simp]:
  "mas (nexus_keycode_mas_bookend_reset s) = mas s" "pro (nexus_keycode_mas_bookend_reset s) = pro s"
  "common (nexus_keycode_mas_bookend_reset s) = common s" "stored (nexus_keycode_mas_bookend_reset s) = stored s"
  "plat (nexus_keycode_mas_bookend_reset s) = plat s"
  "core_init_completed (nexus_keycode_mas_bookend_reset s) = core_init_completed s"
  by (simp_all add: nexus_keycode_mas_bookend_reset_def)

lemma enqueue_simps [simp]:
  "mas (nexus_keycode_pro_enqueue e fr s) = mas s" "common (nexus_keycode_pro_enqueue e fr s) = common s"
  "bookend (nexus_keycode_pro_enqueue e fr s) = bookend s" "stored (nexus_keycode_pro_enqueue e fr s) = stored s"
  "core_init_completed (nexus_keycode_pro_enqueue e fr s) = core_init_completed s"
  by (simp_all add: nexus_keycode_pro_enqueue_def)

lemma run_handler_simps [simp]:
  "mas (run_handler e s) = mas s" "common (run_handler e s) = common s" "bookend (run_handler e s) = bookend s"
  "stored (run_handler e s) = stored s" "core_init_completed (run_handler e s) = core_init_completed s"
  by (simp_all add: run_handler_def split: option.split nexus_keycode_mas_message_handler.split)

lemma deduct_simps [simp]:
  "pro (nexus_keycode_rate_limit_deduct_msg e s) = pro s" "common (nexus_keycode_rate_limit_deduct_msg e s) = common s"
  "bookend (nexus_keycode_rate_limit_deduct_msg e s) = bookend s"
  "stored (nexus_keycode_rate_limit_deduct_msg e s) = stored s" "plat (nexus_keycode_rate_limit_deduct_msg e s) = plat s"
  "core_init_completed (nexus_keycode_rate_limit_deduct_msg e s) = core_init_completed s"
  by (simp_all add: nexus_keycode_rate_limit_deduct_msg_def)

lemma finish_simps [simp]:
  "common (nexus_keycode_mas_finish e s) = common s" "bookend (nexus_keycode_mas_finish e s) = bookend s"
  "stored (nexus_keycode_mas_finish e s) = stored s"
  "core_init_completed (nexus_keycode_mas_finish e s) = core_init_completed s"
  by (simp_all add: nexus_keycode_mas_finish_def Let_def)

lemma finish_attempt_seconds:
  assumes "RATE_LIMIT_BUCKET_MAX (config e) \<noteq> 0"
    and "RATE_LIMIT_REFILL_SECONDS_PER_ATTEMPT (config e) \<le> rl_bucket (mas s)"
  shows "attempt_seconds e (nexus_keycode_mas_finish e s) \<le> unat (rl_bucket (mas s))"
proof -
  let ?r = "RATE_LIMIT_REFILL_SECONDS_PER_ATTEMPT (config e)"
  have "unat (rl_bucket (mas s) - ?r) = unat (rl_bucket (mas s)) - unat ?r" using assms(2) by (simp add: unat_sub)
  moreover have "unat ?r \<le> unat (rl_bucket (mas s))" using assms(2) by (simp add: word_le_nat_alt)
  ultimately show ?thesis
    using assms by (simp add: attempt_seconds_def nexus_keycode_mas_finish_def Let_def
        nexus_keycode_rate_limit_deduct_msg_def word_neq_0_conv of_bool_def)
qed

lemma complete_keycode_loop_simps [simp]:
  "rl_bucket (mas (complete_keycode_loop keys s)) = rl_bucket (mas s)"
  "pro (complete_keycode_loop keys s) = pro s" "common (complete_keycode_loop keys s) = common s"
  "stored (complete_keycode_loop keys s) = stored s" "plat (complete_keycode_loop keys s) = plat s"
  "bookend (complete_keycode_loop keys s) = bookend s"
  "core_init_completed (complete_keycode_loop keys s) = core_init_completed s"
  "handler (mas (complete_keycode_loop keys s)) = handler (mas s)"
  by (induction keys s rule: complete_keycode_loop.induct) (simp_all add: Let_def)

lemma not_rate_limitedD:
  "\<not> nx_keycode_is_rate_limited e s \<Longrightarrow> RATE_LIMIT_BUCKET_MAX (config e) \<noteq> 0 \<Longrightarrow>
    RATE_LIMIT_REFILL_SECONDS_PER_ATTEMPT (config e) \<le> rl_bucket (mas s)"
  by (simp add: nx_keycode_is_rate_limited_def not_less)

lemma rate_limited_cong:
  "rl_bucket (mas s) = rl_bucket (mas t) \<Longrightarrow> nx_keycode_is_rate_limited e s = nx_keycode_is_rate_limited e t"
  by (simp add: nx_keycode_is_rate_limited_def)

lemma attempt_seconds_simps [simp]:
  "attempt_seconds e (do_feedback e' f s) = attempt_seconds e s"
  "attempt_seconds e (do_request_processing e' s) = attempt_seconds e s"
  "attempt_seconds e (on_bookend g s) = attempt_seconds e s"
  "attempt_seconds e (nexus_keycode_mas_reset s) = attempt_seconds e s"
  "attempt_seconds e (nexus_keycode_mas_push key s) = attempt_seconds e s"
  by (simp_all add: attempt_seconds_def)

lemma key_entry_attempt_seconds:
  assumes "RATE_LIMIT_BUCKET_MAX (config e) \<noteq> 0"
  shows "attempt_seconds e (snd (nx_keycode_handle_single_key e key s)) \<le> attempt_seconds e s"
    and "attempt_seconds e (snd (nx_keycode_handle_complete_keycode e code s)) \<le> attempt_seconds e s"
proof -
  have fin: "attempt_seconds e (nexus_keycode_mas_finish e (nexus_keycode_mas_bookend_reset t)) \<le> attempt_seconds e s"
    if "\<not> nx_keycode_is_rate_limited e s" "rl_bucket (mas t) = rl_bucket (mas s)" for t
    using finish_attempt_seconds [OF assms, of "nexus_keycode_mas_bookend_reset t"]
      not_rate_limitedD [OF that(1) assms] that(2) by (simp add: attempt_seconds_def)
  let ?u = "do_request_processing e (on_bookend (\<lambda>b. b\<lparr>latest_uptime := UINT32_MAX\<rparr>) s)"
  have rl: "nx_keycode_is_rate_limited e ?u = nx_keycode_is_rate_limited e s" by (rule rate_limited_cong) simp
  have "attempt_seconds e (nexus_keycode_mas_bookend_push e key s) \<le> attempt_seconds e s"
    unfolding nexus_keycode_mas_bookend_push_def Let_def rl by (simp add: fin)
  then show "attempt_seconds e (snd (nx_keycode_handle_single_key e key s)) \<le> attempt_seconds e s"
    by (simp add: nx_keycode_handle_single_key_def)
  show "attempt_seconds e (snd (nx_keycode_handle_complete_keycode e code s)) \<le> attempt_seconds e s"
    unfolding nx_keycode_handle_complete_keycode_def Let_def by (simp add: fin)
qed

lemma pro_process_simps [simp]:
  fixes e :: "'p nexus_env" and s :: "'p nexus"
  shows "mas (snd (nexus_keycode_pro_process e s)) = mas s"
    "bookend (snd (nexus_keycode_pro_process e s)) = bookend s"
    "common (snd (nexus_keycode_pro_process e s)) = common s"
    "core_init_completed (snd (nexus_keycode_pro_process e s)) = core_init_completed s"
    "\<not> pending (pro (snd (nexus_keycode_pro_process e s)))"
proof -
  have "only_nv s (snd (run_parse_and_apply e f fr s))" for f fr
    using nv_frame.closed_full_parse_and_apply [OF only_nv_refl] nv_frame.closed_small_parse_and_apply [OF only_nv_refl]
    by (cases f) (simp_all add: run_parse_and_apply_def)
  then show "mas (snd (nexus_keycode_pro_process e s)) = mas s"
    "bookend (snd (nexus_keycode_pro_process e s)) = bookend s"
    "common (snd (nexus_keycode_pro_process e s)) = common s"
    "core_init_completed (snd (nexus_keycode_pro_process e s)) = core_init_completed s"
    "\<not> pending (pro (snd (nexus_keycode_pro_process e s)))"
    by (auto simp: nexus_keycode_pro_process_def only_nv_def case_prod_beta Let_def split: option.split)
qed

lemma graceperiod_update_nv_simps [simp]:
  "rl_bucket (mas (snd (nexus_keycode_mas_graceperiod_keycodes_update_nv e n s))) = rl_bucket (mas s)"
  "partial (mas (snd (nexus_keycode_mas_graceperiod_keycodes_update_nv e n s))) = partial (mas s)"
  "handler (mas (snd (nexus_keycode_mas_graceperiod_keycodes_update_nv e n s))) = handler (mas s)"
  "pro (snd (nexus_keycode_mas_graceperiod_keycodes_update_nv e n s)) = pro s"
  "common (snd (nexus_keycode_mas_graceperiod_keycodes_update_nv e n s)) = common s"
  "bookend (snd (nexus_keycode_mas_graceperiod_keycodes_update_nv e n s)) = bookend s"
  "stored (snd (nexus_keycode_mas_graceperiod_keycodes_update_nv e n s)) = stored s"
  "core_init_completed (snd (nexus_keycode_mas_graceperiod_keycodes_update_nv e n s)) = core_init_completed s"
  by (simp_all add: nexus_keycode_mas_graceperiod_keycodes_update_nv_def Let_def)

lemma bookend_process_simps [simp]:
  "rl_bucket (mas (snd (nexus_keycode_mas_bookend_process e s))) = rl_bucket (mas s)"
  "handler (mas (snd (nexus_keycode_mas_bookend_process e s))) = handler (mas s)"
  "pro (snd (nexus_keycode_mas_bookend_process e s)) = pro s"
  "common (snd (nexus_keycode_mas_bookend_process e s)) = common s"
  "stored (snd (nexus_keycode_mas_bookend_process e s)) = stored s"
  "plat (snd (nexus_keycode_mas_bookend_process e s)) = plat s"
  "core_init_completed (snd (nexus_keycode_mas_bookend_process e s)) = core_init_completed s"
  by (simp_all add: nexus_keycode_mas_bookend_process_def Let_def nexus_keycode_mas_reset_def)

lemma mas_process_simps [simp]:
  "pro (snd (nexus_keycode_mas_process e d s)) = pro s"
  "common (snd (nexus_keycode_mas_process e d s)) = common s"
  "stored (snd (nexus_keycode_mas_process e d s)) = stored s"
  "handler (mas (snd (nexus_keycode_mas_process e d s))) = handler (mas s)"
  "core_init_completed (snd (nexus_keycode_mas_process e d s)) = core_init_completed s"
  "unat (rl_bucket (mas (snd (nexus_keycode_mas_process e d s)))) =
     min (unat (max_rate_limit_seconds e)) (unat (rl_bucket (mas s)) + unat d)"
  by (simp_all add: nexus_keycode_mas_process_def Let_def add_time_bucket)
    (simp add: nexus_keycode_rate_limit_add_time_def)

text \<open>An accepted process call, as one composition.\<close>

lemma snd_nx_common_process:
  "snd (nx_common_process e t s) =
     (if t < uptime_s (common s) then s
      else (\<lambda>u. if pending_init (common u)
                 then u\<lparr>common := (common u)\<lparr>pending_init := False, init_completed := True\<rparr>\<rparr> else u)
        (snd (nexus_keycode_pro_process e (snd (nexus_keycode_mas_process e (t - uptime_s (common s))
          (s\<lparr>common := (common s)\<lparr>uptime_s := t\<rparr>\<rparr>))))))"
  by (simp add: nx_common_process_def nexus_keycode_core_process_def Let_def case_prod_beta)

lemma process_attempt_seconds:
  assumes "uptime_s (common s) \<le> t"
  shows "unat (RATE_LIMIT_REFILL_SECONDS_PER_ATTEMPT (config e)) * of_bool (pending (pro s)) +
      attempt_seconds e (snd (nx_common_process e t s)) \<le>
    attempt_seconds e s + (unat (uptime_s (common (snd (nx_common_process e t s)))) - unat (uptime_s (common s)))"
proof -
  have "unat (t - uptime_s (common s)) = unat t - unat (uptime_s (common s))" using assms by (simp add: unat_sub)
  moreover have "\<not> t < uptime_s (common s)" using assms by simp
  ultimately show ?thesis by (simp add: snd_nx_common_process attempt_seconds_def)
qed

text \<open>Up-time never decreases.\<close>

lemma nexus_call_uptime: "uptime_s (common s) \<le> uptime_s (common (nexus_call e c s))"
proof (cases c)
  case (Process t)
  then show ?thesis by (simp add: nexus_call_def snd_nx_common_process not_less)
qed (simp_all add: nexus_call_def nx_keycode_handle_single_key_def nexus_keycode_mas_bookend_push_def Let_def
    nx_keycode_handle_complete_keycode_def nx_keycode_set_custom_flag_def)

lemma nexus_call_attempt_seconds:
  assumes "RATE_LIMIT_BUCKET_MAX (config e) \<noteq> 0"
  shows "unat (RATE_LIMIT_REFILL_SECONDS_PER_ATTEMPT (config e)) * of_bool (interprets c s) +
      attempt_seconds e (nexus_call e c s) \<le>
    attempt_seconds e s + (unat (uptime_s (common (nexus_call e c s))) - unat (uptime_s (common s)))"
proof (cases c)
  case (Process t)
  then show ?thesis
    using process_attempt_seconds [of s t e]
    by (cases "uptime_s (common s) \<le> t") (simp_all add: nexus_call_def interprets_def snd_nx_common_process not_le)
next
  case (Set_custom_flag flag)
  then show ?thesis by (simp add: nexus_call_def interprets_def attempt_seconds_def nx_keycode_set_custom_flag_def)
qed (use key_entry_attempt_seconds [OF assms] in \<open>simp_all add: nexus_call_def interprets_def le_add1 trans_le_add1\<close>)

lemma nexus_run_attempt_seconds:
  assumes "RATE_LIMIT_BUCKET_MAX (config e) \<noteq> 0"
  shows "unat (RATE_LIMIT_REFILL_SECONDS_PER_ATTEMPT (config e)) * interpreted e cs s +
      attempt_seconds e (nexus_run e cs s) \<le>
    attempt_seconds e s + (unat (uptime_s (common (nexus_run e cs s))) - unat (uptime_s (common s))) \<and>
    uptime_s (common s) \<le> uptime_s (common (nexus_run e cs s))"
proof (induction cs arbitrary: s)
  case (Cons c cs)
  show ?case
    using Cons.IH [of "nexus_call e c s"] nexus_call_attempt_seconds [OF assms, of c s] nexus_call_uptime [of s e c]
    by (auto simp: word_le_nat_alt distrib_left)
qed simp

text \<open>C2. Rate limiting bounds guessing: whatever keys and complete codes are entered and whenever the
  library is processed, every frame that the protocol layer interprets costs one refill period, paid
  from the attempts at hand at the start and the seconds of up-time that passed.\<close>

theorem interpreted_frames_rate_limited:
  assumes "RATE_LIMIT_BUCKET_MAX (config e) \<noteq> 0"
  shows "unat (RATE_LIMIT_REFILL_SECONDS_PER_ATTEMPT (config e)) * interpreted e cs s \<le>
    attempt_seconds e s + (unat (uptime_s (common (nexus_run e cs s))) - unat (uptime_s (common s)))"
  using nexus_run_attempt_seconds [OF assms, of cs s] by linarith

theorem interpreted_frames_rate_limited_witness:
  "720 * interpreted blank_env [Handle_single_key 42, Handle_single_key 35, Process 5] blank_state \<le>
     attempt_seconds blank_env blank_state + (unat (uptime_s (common (nexus_run blank_env
       [Handle_single_key 42, Handle_single_key 35, Process 5] blank_state))) - unat (uptime_s (common blank_state)))"
proof -
  have "config blank_env = user_config" by (simp add: blank_env_def sample_env_def)
  then show ?thesis
    using interpreted_frames_rate_limited [of blank_env
        "[Handle_single_key 42, Handle_single_key 35, Process 5]" blank_state]
    by (simp only: user_config_def) simp
qed

section \<open>The invariant of the library\<close>

definition frame_ok :: "nexus_keycode_frame \<Rightarrow> bool" where
  "frame_ok fr \<longleftrightarrow> length (fr_keys fr) = NEXUS_KEYCODE_MAX_MESSAGE_LENGTH \<and>
     unat (fr_length fr) \<le> NEXUS_KEYCODE_MAX_MESSAGE_LENGTH"

text \<open>
  Storage and memory agree on a well-formed window, test code counts are within their limits,
  frames fit their buffers, a pending frame is not empty, and the function pointers are set.
\<close>

definition mas_inv :: "'p nexus \<Rightarrow> bool" where
  "mas_inv s \<longleftrightarrow> frame_ok (partial (mas s)) \<and> length (mas_pad (mas s)) = 3 \<and> handler (mas s) = Some PRO_ENQUEUE"

definition queue_inv :: "'p nexus \<Rightarrow> bool" where
  "queue_inv s \<longleftrightarrow> frame_ok (frame (pro s)) \<and> (pending (pro s) \<longrightarrow> 0 < fr_length (frame (pro s))) \<and>
     parse_and_apply (pro s) \<noteq> None"

definition lib_inv :: "'p nexus_env \<Rightarrow> ('p \<Rightarrow> bool) \<Rightarrow> 'p nexus \<Rightarrow> bool" where
  "lib_inv e ok s \<longleftrightarrow> pro_inv e ok s \<and> mas_inv s \<and> queue_inv s \<and> core_init_completed s"

lemma pro_inv_same:
  "plat s = plat t \<Longrightarrow> stored s = stored t \<Longrightarrow> pro_inv e ok s = pro_inv e ok t"
  using keycode_inv_cong [of s t e ok] qc_ok_cong [of s t e] by (simp add: pro_inv_def)

lemma frame_ok_zero [simp]: "frame_ok zero_frame"
  by (simp add: frame_ok_def zero_frame_def)

lemma mas_inv_reset [simp]: "mas_inv s \<Longrightarrow> mas_inv (nexus_keycode_mas_reset s)"
  by (simp add: mas_inv_def nexus_keycode_mas_reset_def frame_ok_def)

lemma mas_inv_push [simp]:
  assumes "mas_inv s"
  shows "mas_inv (nexus_keycode_mas_push key s)"
proof -
  have "unat (fr_length (partial (mas s)) + 1) = Suc (unat (fr_length (partial (mas s))))"
    if "unat (fr_length (partial (mas s))) < 30"
    using that by (simp add: unat_add_1)
  then show ?thesis using assms by (simp add: mas_inv_def nexus_keycode_mas_push_def frame_ok_def)
qed

lemma mas_inv_loop [simp]: "mas_inv s \<Longrightarrow> mas_inv (complete_keycode_loop keys s)"
  by (induction keys s rule: complete_keycode_loop.induct) (simp_all add: Let_def)

lemma mas_inv_cong: "mas s = mas t \<Longrightarrow> mas_inv s = mas_inv t"
  by (simp add: mas_inv_def)

lemma queue_inv_cong: "pro s = pro t \<Longrightarrow> queue_inv s = queue_inv t"
  by (simp add: queue_inv_def)

lemma mas_inv_deduct [simp]: "mas_inv (nexus_keycode_rate_limit_deduct_msg e s) = mas_inv s"
  by (simp add: mas_inv_def nexus_keycode_rate_limit_deduct_msg_def)

lemma queue_inv_handler:
  assumes "queue_inv s" "mas_inv s" "0 < fr_length (partial (mas s))"
  shows "queue_inv (run_handler e s)"
  using assms
  by (simp add: queue_inv_def mas_inv_def run_handler_def nexus_keycode_pro_enqueue_def
      split: nexus_keycode_mas_message_handler.split)

lemma finish_inv:
  assumes "mas_inv s" "queue_inv s"
  shows "mas_inv (nexus_keycode_mas_finish e s)" "queue_inv (nexus_keycode_mas_finish e s)"
proof -
  let ?t = "if fr_length (partial (mas s)) > 0 \<and> \<not> max_length_exceeded (mas s)
    then run_handler e s else do_feedback e FEEDBACK_TYPE_MESSAGE_INVALID s"
  have "mas_inv ?t" "queue_inv ?t"
    using assms queue_inv_handler [of s e] mas_inv_cong [of ?t s] queue_inv_cong [of "do_feedback e FEEDBACK_TYPE_MESSAGE_INVALID s" s]
    by auto
  then show "mas_inv (nexus_keycode_mas_finish e s)" "queue_inv (nexus_keycode_mas_finish e s)"
    using queue_inv_cong [of "nexus_keycode_mas_finish e s" ?t]
    by (simp_all add: nexus_keycode_mas_finish_def Let_def)
qed

lemma mas_inv_simps [simp]:
  "mas_inv (do_feedback e f s) = mas_inv s" "mas_inv (do_request_processing e s) = mas_inv s"
  "mas_inv (on_bookend g s) = mas_inv s" "mas_inv (nexus_keycode_mas_bookend_reset s) = mas_inv s"
  "mas_inv (s\<lparr>common := c\<rparr>) = mas_inv s" "mas_inv (snd (nexus_keycode_pro_process e s)) = mas_inv s"
  by (simp_all add: mas_inv_def)

lemma queue_inv_simps [simp]:
  "queue_inv (do_feedback e f s) = queue_inv s" "queue_inv (do_request_processing e s) = queue_inv s"
  "queue_inv (on_bookend g s) = queue_inv s" "queue_inv (nexus_keycode_mas_bookend_reset s) = queue_inv s"
  "queue_inv (nexus_keycode_mas_reset s) = queue_inv s" "queue_inv (nexus_keycode_mas_push key s) = queue_inv s"
  "queue_inv (complete_keycode_loop keys s) = queue_inv s"
  "queue_inv (snd (nexus_keycode_mas_process e d s)) = queue_inv s"
  "queue_inv (s\<lparr>common := c\<rparr>) = queue_inv s"
  by (simp_all add: queue_inv_def)

lemma pro_inv_simps [simp]:
  "pro_inv e ok (on_pro f s) = pro_inv e ok s" "pro_inv e ok (on_bookend g s) = pro_inv e ok s"
  "pro_inv e ok (nexus_keycode_mas_bookend_reset s) = pro_inv e ok s"
  "pro_inv e ok (nexus_keycode_mas_reset s) = pro_inv e ok s"
  "pro_inv e ok (nexus_keycode_mas_push key s) = pro_inv e ok s"
  "pro_inv e ok (complete_keycode_loop keys s) = pro_inv e ok s"
  "pro_inv e ok (nexus_keycode_rate_limit_deduct_msg e' s) = pro_inv e ok s"
  "pro_inv e ok (nexus_keycode_rate_limit_add_time e' d s) = pro_inv e ok s"
  "pro_inv e ok (snd (nexus_keycode_mas_bookend_process e' s)) = pro_inv e ok s"
  "pro_inv e ok (s\<lparr>common := c\<rparr>) = pro_inv e ok s"
  by (rule pro_inv_same; simp)+

text \<open>Every part of the invariant survives the entry of a key or a code.\<close>

lemma key_entry_inv:
  assumes "mas_inv s" "queue_inv s"
  shows "mas_inv (snd (nx_keycode_handle_single_key e key s)) \<and> queue_inv (snd (nx_keycode_handle_single_key e key s))"
    "mas_inv (snd (nx_keycode_handle_complete_keycode e code s)) \<and>
     queue_inv (snd (nx_keycode_handle_complete_keycode e code s))"
  using assms
  by (simp_all add: nx_keycode_handle_single_key_def nexus_keycode_mas_bookend_push_def Let_def
      nx_keycode_handle_complete_keycode_def finish_inv)

lemma mas_inv_process [simp]:
  assumes "mas_inv s"
  shows "mas_inv (snd (nexus_keycode_mas_process e d s))"
proof -
  let ?t = "nexus_keycode_rate_limit_add_time e d s"
  have 1: "mas_inv ?t" using assms by (simp add: mas_inv_def nexus_keycode_rate_limit_add_time_def)
  have 2: "mas_inv (snd (nexus_keycode_mas_graceperiod_keycodes_update_nv e n ?t))" for n
    using 1 by (simp add: mas_inv_def nexus_keycode_mas_graceperiod_keycodes_update_nv_def Let_def)
  show ?thesis
    using 2 by (simp add: nexus_keycode_mas_process_def Let_def nexus_keycode_mas_bookend_process_def)
qed

lemma queue_inv_process: "queue_inv s \<Longrightarrow> queue_inv (snd (nexus_keycode_pro_process e s))"
proof -
  assume "queue_inv s"
  moreover have "only_nv s (snd (run_parse_and_apply e f fr s))" for f fr
    using nv_frame.closed_full_parse_and_apply [OF only_nv_refl] nv_frame.closed_small_parse_and_apply [OF only_nv_refl]
    by (cases f) (simp_all add: run_parse_and_apply_def)
  ultimately show ?thesis
    by (auto simp: queue_inv_def nexus_keycode_pro_process_def only_nv_def case_prod_beta Let_def split: option.split)
qed

context nexus_product
begin

lemma pro_inv_run_handler: "pro_inv e ok s \<Longrightarrow> pro_inv e ok (run_handler e s)"
  using pro_inv_do(1)
  by (simp add: run_handler_def nexus_keycode_pro_enqueue_def
      split: option.split nexus_keycode_mas_message_handler.split)

lemma pro_inv_finish: "pro_inv e ok s \<Longrightarrow> pro_inv e ok (nexus_keycode_mas_finish e s)"
  using pro_inv_run_handler pro_inv_do(2) by (simp add: nexus_keycode_mas_finish_def Let_def)

lemma pro_inv_key_entry:
  assumes "pro_inv e ok s"
  shows "pro_inv e ok (snd (nx_keycode_handle_single_key e key s))"
    "pro_inv e ok (snd (nx_keycode_handle_complete_keycode e code s))"
  using assms
  by (simp_all add: nx_keycode_handle_single_key_def nexus_keycode_mas_bookend_push_def Let_def
      nx_keycode_handle_complete_keycode_def pro_inv_finish pro_inv_do)

text \<open>Writing the grace attempts to their own block leaves the protocol's block alone.\<close>

lemma pro_inv_graceperiod_update:
  assumes inv: "pro_inv e ok s" and len: "length (mas_pad (mas s)) = 3"
  shows "pro_inv e ok (snd (nexus_keycode_mas_graceperiod_keycodes_update_nv e n s))"
proof -
  let ?b = "mas_stored_bytes ((mas s)\<lparr>graceperiod_keycodes := n\<rparr>)"
  let ?p = "snd (nexus_nv_update e NX_NV_BLOCK_KEYCODE_MAS ?b (plat s))"
  note d = keycode_invD [OF pro_invD [OF inv]]
  have l: "nv_inner_size NX_NV_BLOCK_KEYCODE_MAS \<le> length ?b" using len by (simp add: mas_stored_bytes_def)
  have "block_id NX_NV_BLOCK_KEYCODE_PRO \<noteq> block_id NX_NV_BLOCK_KEYCODE_MAS"
    by (simp add: NX_NV_BLOCK_KEYCODE_PRO_def NX_NV_BLOCK_KEYCODE_MAS_def)
  then have r: "nexus_nv_read e NX_NV_BLOCK_KEYCODE_PRO buf ?p = nexus_nv_read e NX_NV_BLOCK_KEYCODE_PRO buf (plat s)" for buf
    using update_read_other [OF d(1) meta_wf_keycode _ l] by simp
  have "ok ?p" using update_ok [OF d(1) meta_wf_keycode(1) l] .
  then have "keycode_inv e ok (s\<lparr>plat := ?p\<rparr>)"
    using pro_invD [OF inv] r by (simp add: keycode_inv_def nv_agrees_def)
  then have "pro_inv e ok (s\<lparr>plat := ?p\<rparr>)" by (rule pro_inv_cong [OF inv]) simp
  then show ?thesis
    using inv pro_inv_same [of "on_mas f s\<lparr>plat := ?p\<rparr>" "s\<lparr>plat := ?p\<rparr>" e ok for f]
    by (simp add: nexus_keycode_mas_graceperiod_keycodes_update_nv_def Let_def)
qed

lemma pro_inv_mas_process:
  assumes "pro_inv e ok s" "mas_inv s"
  shows "pro_inv e ok (snd (nexus_keycode_mas_process e d s))"
proof -
  have "length (mas_pad (mas (nexus_keycode_rate_limit_add_time e d s))) = 3"
    using assms(2) by (simp add: mas_inv_def nexus_keycode_rate_limit_add_time_def)
  then show ?thesis
    using pro_inv_graceperiod_update [of "nexus_keycode_rate_limit_add_time e d s"] assms(1)
    by (simp add: nexus_keycode_mas_process_def Let_def)
qed

lemma pro_inv_pro_process: "pro_inv e ok s \<Longrightarrow> pro_inv e ok (snd (nexus_keycode_pro_process e s))"
  using kept.closed_full_parse_and_apply [of s "frame (pro s)"] kept.closed_small_parse_and_apply [of s "frame (pro s)"]
  by (auto simp: nexus_keycode_pro_process_def case_prod_beta Let_def run_parse_and_apply_def pro_inv_do
      split: option.split nexus_keycode_pro_parse_and_apply.split)

lemma lib_inv_process:
  assumes "lib_inv e ok s"
  shows "lib_inv e ok (snd (nx_common_process e t s))"
proof -
  let ?s = "s\<lparr>common := (common s)\<lparr>uptime_s := t\<rparr>\<rparr>" and ?d = "t - uptime_s (common s)"
  have inv: "pro_inv e ok ?s" "mas_inv ?s" "queue_inv ?s" using assms by (simp_all add: lib_inv_def)
  let ?u = "snd (nexus_keycode_pro_process e (snd (nexus_keycode_mas_process e ?d ?s)))"
  have "lib_inv e ok ?u"
    using assms pro_inv_pro_process [OF pro_inv_mas_process [OF inv(1,2)]] inv(2)
      queue_inv_process [of "snd (nexus_keycode_mas_process e ?d ?s)" e] inv(3)
    by (simp add: lib_inv_def)
  then show ?thesis using assms by (auto simp: snd_nx_common_process lib_inv_def)
qed

lemma lib_inv_call:
  assumes "lib_inv e ok s"
  shows "lib_inv e ok (nexus_call e c s)"
proof (cases c)
  case (Handle_single_key key)
  then show ?thesis using assms pro_inv_key_entry(1) [of s key] key_entry_inv(1) [of s e key]
    by (auto simp: lib_inv_def nexus_call_def nx_keycode_handle_single_key_def
        nexus_keycode_mas_bookend_push_def Let_def)
next
  case (Handle_complete_keycode code)
  then show ?thesis using assms pro_inv_key_entry(2) [of s code] key_entry_inv(2) [of s e code]
    by (auto simp: lib_inv_def nexus_call_def nx_keycode_handle_complete_keycode_def Let_def)
next
  case (Process t)
  then show ?thesis using lib_inv_process [OF assms] by (simp add: nexus_call_def)
next
  case (Set_custom_flag flag)
  then show ?thesis using assms pro_inv_window(4) [of s flag]
    by (simp add: nexus_call_def lib_inv_def mas_inv_def queue_inv_def nx_keycode_set_custom_flag_def)
qed

end

section \<open>Initialisation\<close>

text \<open>What storage has to hold for initialisation to establish the invariant.\<close>

definition nv_sound :: "'p nexus_env \<Rightarrow> ('p \<Rightarrow> bool) \<Rightarrow> 'p \<Rightarrow> bool" where
  "nv_sound e ok p \<longleftrightarrow> ok p \<and> (\<forall>buf b s. length buf = 12 \<longrightarrow>
     nexus_nv_read e NX_NV_BLOCK_KEYCODE_PRO buf p = (True, b) \<longrightarrow>
     stored s = stored_of_bytes b \<longrightarrow> stored_ok (stored s) \<and> qc_ok e s)"

lemma stored_of_bytes_length [simp]: "5 \<le> length b \<Longrightarrow> length (received_flags (stored_of_bytes b)) = 5"
  by (simp add: stored_of_bytes_def)

context nexus_product
begin

lemma nv_sound_restart: "pro_inv e ok s \<Longrightarrow> nv_sound e ok (plat s)"
proof -
  assume inv: "pro_inv e ok s"
  note k = pro_invD [OF inv] and d = keycode_invD [OF pro_invD [OF inv]]
  have "stored_ok (stored t) \<and> qc_ok e t"
    if "length buf = 12" "nexus_nv_read e NX_NV_BLOCK_KEYCODE_PRO buf (plat s) = (True, b)" "stored t = stored_of_bytes b"
    for buf b and t :: "'a nexus"
  proof -
    have "snd (nexus_nv_read e NX_NV_BLOCK_KEYCODE_PRO (stored_bytes (stored s)) (plat s)) = stored_bytes (stored s)"
      using k by (simp add: keycode_inv_def nv_agrees_def)
    moreover have "length (stored_bytes (stored s)) = 12" using d by simp
    ultimately have "b = stored_bytes (stored s)"
      using nv_read_cases [OF d(1) meta_wf_keycode(2), of buf "stored_bytes (stored s)"] that(1,2) by auto
    then have "stored t = stored s" using that(3) d by (simp add: stored_of_bytes_stored_bytes)
    then show ?thesis using inv d qc_ok_cong [of t s e] by (simp add: pro_inv_def)
  qed
  then show ?thesis using d(1) by (auto simp: nv_sound_def)
qed

text \<open>Reading the stored record in an initialisation.\<close>

lemma pro_inv_reload:
  assumes "nv_sound e ok (plat s)" "stored s = zero_stored\<lparr>pd_index := 23\<rparr>"
  shows "pro_inv e ok (read_keycode_pro_nv_blocks e s)"
proof -
  let ?z = "stored_bytes (stored s)" and ?m = NX_NV_BLOCK_KEYCODE_PRO
  have z: "length ?z = 12" "stored_of_bytes ?z = stored s"
    using assms(2) by (simp_all add: zero_stored_def stored_of_bytes_stored_bytes)
  have ok: "ok (plat s)" using assms(1) by (simp add: nv_sound_def)
  let ?t = "read_keycode_pro_nv_blocks e s"
  have t: "stored ?t = stored_of_bytes (snd (nexus_nv_read e ?m ?z (plat s)))" "plat ?t = plat s"
    by (simp_all add: read_keycode_pro_nv_blocks_def)
  have b12: "length (snd (nexus_nv_read e ?m ?z (plat s))) = 12"
    using nv_read_cases [OF ok meta_wf_keycode(2), of ?z ?z] z by auto
  then have st: "stored_bytes (stored ?t) = snd (nexus_nv_read e ?m ?z (plat s))"
    by (simp add: t stored_bytes_stored_of_bytes)
  then have "nv_agrees e ?t"
    using nv_read_cases [OF ok meta_wf_keycode(2), of ?z "stored_bytes (stored ?t)"] z(1) b12
    by (auto simp: nv_agrees_def t(2))
  moreover have "stored_ok (stored ?t) \<and> qc_ok e ?t"
  proof (cases "fst (nexus_nv_read e ?m ?z (plat s))")
    case True
    then have "nexus_nv_read e ?m ?z (plat s) = (True, snd (nexus_nv_read e ?m ?z (plat s)))"
      by (metis prod.collapse)
    then show ?thesis using assms(1) z(1) t(1) unfolding nv_sound_def by blast
  next
    case False
    then have "stored ?t = stored s"
      using nv_read_cases [OF ok meta_wf_keycode(2), of ?z ?z] z t by auto
    then show ?thesis using assms(2) by (simp add: stored_ok_def zero_stored_def qc_ok_zero)
  qed
  ultimately show ?thesis using ok t(2) by (simp add: pro_inv_def keycode_inv_def)
qed

end

lemma pro_init_simps [simp]:
  "mas (nexus_keycode_pro_init e f (nexus_keycode_pro_full_init :: bytes \<Rightarrow> 'p nexus \<Rightarrow> 'p nexus) a s) = mas s"
  "plat (nexus_keycode_pro_init e f (nexus_keycode_pro_full_init :: bytes \<Rightarrow> 'p nexus \<Rightarrow> 'p nexus) a s) = plat s"
  "pro (nexus_keycode_pro_init e f (nexus_keycode_pro_full_init :: bytes \<Rightarrow> 'p nexus \<Rightarrow> 'p nexus) a s) =
     (pro s)\<lparr>pending := False, parse_and_apply := Some f, alphabet := a\<rparr>"
  for s :: "'p nexus"
  by (simp_all add: nexus_keycode_pro_init_def Let_def nexus_keycode_pro_get_full_message_id_flag_def
      nexus_keycode_pro_full_init_def nexus_keycode_pro_reset_pd_index_def read_keycode_pro_nv_blocks_def
      split: option.split)

lemma small_init_is_full_init: "nexus_keycode_pro_small_init = nexus_keycode_pro_full_init"
  by (simp add: fun_eq_iff nexus_keycode_pro_small_init_def nexus_keycode_pro_full_init_def)

lemma snd_get_flag: "snd (nexus_keycode_pro_get_full_message_id_flag e i s) = read_keycode_pro_nv_blocks e s"
  by (simp add: nexus_keycode_pro_get_full_message_id_flag_def Let_def split: option.split)

context nexus_product
begin

lemma pro_inv_pro_init:
  assumes "nv_sound e ok (plat s)"
  shows "pro_inv e ok (nexus_keycode_pro_init e f nexus_keycode_pro_full_init a s)"
  using pro_inv_reload assms
  by (simp add: nexus_keycode_pro_init_def Let_def snd_get_flag nexus_keycode_pro_full_init_def
      nexus_keycode_pro_reset_pd_index_def)

lemma mas_inv_mas_init:
  assumes "frame_ok (partial (mas s))" "length (mas_pad (mas s)) = 3" "ok (plat s)"
  shows "mas_inv (nexus_keycode_mas_init e PRO_ENQUEUE s)"
proof -
  let ?b = "mas_stored_bytes ((mas s)\<lparr>graceperiod_keycodes := ucast (RATE_LIMIT_BUCKET_INITIAL_COUNT (config e))\<rparr>)"
  have "length ?b = 4" using assms(2) by (simp add: mas_stored_bytes_def)
  then have "length (snd (nexus_nv_read e NX_NV_BLOCK_KEYCODE_MAS ?b (plat s))) = 4"
    using nv_read_cases [OF assms(3) meta_wf_keycode(1), of ?b ?b] by auto
  then show ?thesis
    using assms(1) by (simp add: nexus_keycode_mas_init_def Let_def mas_inv_def nexus_keycode_mas_reset_def frame_ok_def)
qed

lemma mas_init_simps [simp]:
  "pro (nexus_keycode_mas_init e h s) = pro s" "plat (nexus_keycode_mas_init e h s) = plat s"
  "stored (nexus_keycode_mas_init e h s) = stored s"
  by (simp_all add: nexus_keycode_mas_init_def Let_def)

lemma lib_inv_init:
  assumes nv: "nv_sound e ok (plat s)" and fr: "frame_ok (partial (mas s))" "length (mas_pad (mas s)) = 3"
    "frame_ok (frame (pro s))"
  shows "lib_inv e ok (nx_common_init e t s)"
proof -
  obtain f a st en sp where c: "nexus_keycode_core_internal_init e
      (NEXUS_KEYCODE_HANDLING_CONFIG_DEFAULT (PROTOCOL (config e))) u =
    (nexus_keycode_mas_bookend_init st en sp (nexus_keycode_mas_init e PRO_ENQUEUE
      (nexus_keycode_pro_init e f nexus_keycode_pro_full_init a (u\<lparr>core_init_completed := False\<rparr>))))
      \<lparr>core_init_completed := True\<rparr>" for u :: "'a nexus"
    by (cases "PROTOCOL (config e)")
      (auto simp: nexus_keycode_core_internal_init_def NEXUS_KEYCODE_HANDLING_CONFIG_DEFAULT_def Let_def
        small_init_is_full_init)
  let ?u = "s\<lparr>common := \<lparr>uptime_s = t, init_completed = False, pending_init = True\<rparr>, core_init_completed := False\<rparr>"
  let ?v = "nexus_keycode_pro_init e f nexus_keycode_pro_full_init a ?u"
  let ?w = "nexus_keycode_mas_init e PRO_ENQUEUE ?v"
  have ok: "ok (plat s)" using nv by (simp add: nv_sound_def)
  have "pro_inv e ok ?v" using pro_inv_pro_init [of ?u] nv by simp
  then have "pro_inv e ok ?w" using pro_inv_same [of ?w ?v e ok] by simp
  moreover have "mas_inv ?w" using mas_inv_mas_init [of ?v] fr ok by simp
  moreover have "queue_inv ?w" using fr(3) by (simp add: queue_inv_def)
  ultimately have "pro_inv e ok (nexus_keycode_mas_bookend_init st en sp ?w\<lparr>core_init_completed := True\<rparr>) \<and>
      mas_inv (nexus_keycode_mas_bookend_init st en sp ?w) \<and> queue_inv (nexus_keycode_mas_bookend_init st en sp ?w)"
    using pro_inv_same [of "nexus_keycode_mas_bookend_init st en sp ?w\<lparr>core_init_completed := True\<rparr>" ?w e ok]
    by (simp add: nexus_keycode_mas_bookend_init_def)
  then show ?thesis
    using pro_inv_do(1) [of "nexus_keycode_mas_bookend_init st en sp ?w\<lparr>core_init_completed := True\<rparr>"]
    by (simp add: nx_common_init_def nexus_keycode_core_init_def c Let_def lib_inv_def)
      (simp add: mas_inv_def queue_inv_def)
qed

end

section \<open>Reachable states\<close>

text \<open>
  States of the library on a given product: it starts on factory-fresh storage, the product makes
  calls and uses its own state without touching library blocks, and power may fail at any moment
  between calls, which leaves the product and a library with cleared memory that is initialised again.
\<close>

inductive reachable :: "'p nexus_env \<Rightarrow> ('p \<Rightarrow> bool) \<Rightarrow> 'p nexus \<Rightarrow> bool" for e ok where
  reach_first: "ok p \<Longrightarrow> (\<And>buf. nexus_nv_read e NX_NV_BLOCK_KEYCODE_PRO buf p = (False, buf)) \<Longrightarrow>
    reachable e ok (nx_common_init e t (nexus_zero p))"
| reach_call: "reachable e ok s \<Longrightarrow> reachable e ok (nexus_call e c s)"
| reach_product: "reachable e ok s \<Longrightarrow> nv_transparent e ok f \<Longrightarrow> reachable e ok (s\<lparr>plat := f (plat s)\<rparr>)"
| reach_restart: "reachable e ok s \<Longrightarrow> reachable e ok (nx_common_init e t (nexus_zero (plat s)))"
| reach_reinit: "reachable e ok s \<Longrightarrow> reachable e ok (nx_common_init e t s)"

context nexus_product
begin

lemma lib_inv_zero: "nv_sound e ok p \<Longrightarrow> lib_inv e ok (nx_common_init e t (nexus_zero p))"
  by (rule lib_inv_init) (simp_all add: nexus_zero_def)

lemma reachable_lib_inv: "reachable e ok s \<Longrightarrow> lib_inv e ok s"
proof (induction rule: reachable.induct)
  case (reach_first p t)
  then show ?case by (intro lib_inv_zero) (simp add: nv_sound_def)
next
  case (reach_call s c)
  then show ?case by (simp add: lib_inv_call)
next
  case (reach_product s f)
  then have "keycode_inv e ok (s\<lparr>plat := f (plat s)\<rparr>)"
    using keycode_inv_transparent [of s f] pro_invD by (auto simp: lib_inv_def)
  then have "pro_inv e ok (s\<lparr>plat := f (plat s)\<rparr>)"
    using reach_product pro_inv_cong [of e ok s] by (simp add: lib_inv_def)
  then show ?case using reach_product by (simp add: lib_inv_def mas_inv_def queue_inv_def)
next
  case (reach_restart s t)
  then show ?case by (intro lib_inv_zero nv_sound_restart) (simp add: lib_inv_def)
next
  case (reach_reinit s t)
  then show ?case by (intro lib_inv_init nv_sound_restart) (simp_all add: lib_inv_def mas_inv_def queue_inv_def)
qed

end

text \<open>C6. In every state the library can reach on a product that keeps the port's promises, restarts
  and power failures between calls included: memory and storage agree on the received identifiers,
  \<open>Pd\<close> is in its range, the factory test counts are within their lifetime limits, frames fit their
  buffers, a pending frame is never empty and its handlers are set. (The bucket of the rate limit and the grace count are not part of
  this: a first start takes over what the storage holds for them.)\<close>

theorem reachable_invariant:
  assumes "nexus_product e ok" and "reachable e ok s"
  shows "lib_inv e ok s"
  using assms by (rule nexus_product.reachable_lib_inv)

theorem reachable_invariant_witness:
  "lib_inv blank_env nv_log_ok (nexus_call blank_env (Process 5)
     (nx_common_init blank_env 0 (nexus_zero blank_product)))"
  by (rule reachable_invariant [OF nexus_product_blank])
    (intro reach_call reach_first nv_log_ok_blank nexus_nv_read_blank)

section \<open>Restarts, time-outs and sleep\<close>

context nexus_product
begin

lemma restart_stored:
  assumes inv: "pro_inv e ok s" and found: "fst (nexus_nv_read e NX_NV_BLOCK_KEYCODE_PRO (replicate 12 0) (plat s))"
  shows "stored (nx_common_init e t (nexus_zero (plat s))) = stored s"
proof -
  note d = keycode_invD [OF pro_invD [OF inv]]
  have l: "length (stored_bytes (stored s)) = 12" using d by simp
  have rd: "snd (nexus_nv_read e NX_NV_BLOCK_KEYCODE_PRO buf (plat s)) = stored_bytes (stored s)"
    if "length buf = 12" for buf
    using nv_read_cases [OF d(1) meta_wf_keycode(2), of buf "replicate 12 0"]
      nv_read_cases [OF d(1) meta_wf_keycode(2), of buf "stored_bytes (stored s)"] that l found
      pro_invD [OF inv] by (auto simp: keycode_inv_def nv_agrees_def)
  have "length (stored_bytes (zero_stored\<lparr>pd_index := 23\<rparr>)) = 12" by (simp add: zero_stored_def)
  then have "stored_of_bytes (snd (nexus_nv_read e NX_NV_BLOCK_KEYCODE_PRO
      (stored_bytes (zero_stored\<lparr>pd_index := 23\<rparr>)) (plat s))) = stored s"
    using rd stored_of_bytes_stored_bytes [OF d(3)] by simp
  then show ?thesis
    by (cases "PROTOCOL (config e)")
      (simp_all add: nx_common_init_def nexus_keycode_core_init_def nexus_keycode_core_internal_init_def Let_def
        NEXUS_KEYCODE_HANDLING_CONFIG_DEFAULT_def small_init_is_full_init nexus_keycode_mas_bookend_init_def
        nexus_keycode_pro_init_def snd_get_flag nexus_keycode_pro_full_init_def nexus_keycode_pro_reset_pd_index_def
        read_keycode_pro_nv_blocks_def nexus_zero_def)
qed

end

text \<open>C10. A restart keeps the protocol state: once the state has been written, clearing memory and
  initialising the library recovers the received identifiers, \<open>Pd\<close>, the test code counts and the
  custom flags, so that a keycode used before a power failure is not accepted after it.\<close>

theorem restart_keeps_stored:
  assumes "nexus_product e ok" and "reachable e ok s"
    and "fst (nexus_nv_read e NX_NV_BLOCK_KEYCODE_PRO (replicate 12 0) (plat s))"
  shows "stored (nx_common_init e t (nexus_zero (plat s))) = stored s"
  using nexus_product.restart_stored [OF assms(1) _ assms(3)] nexus_product.reachable_lib_inv [OF assms(1,2)]
  by (simp add: lib_inv_def)

theorem restart_keeps_stored_witness:
  "(let s = nexus_call blank_env (Set_custom_flag NX_KEYCODE_CUSTOM_FLAG_RESTRICTED)
        (nx_common_init blank_env 0 (nexus_zero blank_product))
    in custom_flags_bitmask (stored (nx_common_init blank_env 9 (nexus_zero (plat s)))) = custom_flags_bitmask (stored s))"
proof -
  let ?i = "nx_common_init blank_env 0 (nexus_zero blank_product)"
  let ?s = "nexus_call blank_env (Set_custom_flag NX_KEYCODE_CUSTOM_FLAG_RESTRICTED) ?i"
  have ri: "reachable blank_env nv_log_ok ?i" by (intro reach_first nv_log_ok_blank nexus_nv_read_blank)
  then have r: "reachable blank_env nv_log_ok ?s" by (rule reach_call)
  have "pro_inv blank_env nv_log_ok ?i"
    using nexus_product.reachable_lib_inv [OF nexus_product_blank ri] by (simp add: lib_inv_def)
  then have d: "nv_log_ok (plat ?i)" "length (received_flags (stored ?i)) = 5"
    using keycode_invD pro_invD by blast+
  have p: "plat ?s = snd (nexus_nv_update blank_env NX_NV_BLOCK_KEYCODE_PRO (stored_bytes (stored ?s)) (plat ?i))"
    by (simp add: nexus_call_def nx_keycode_set_custom_flag_def do_notify_custom_flag_def blank_env_def sample_env_def
        update_keycode_pro_nv_blocks_def)
  have l: "length (stored_bytes (stored ?s)) = 12"
    using d(2) by (simp add: nexus_call_def nx_keycode_set_custom_flag_def)
  have "nexus_nv_read blank_env NX_NV_BLOCK_KEYCODE_PRO (replicate 12 0) (plat ?s) = (True, stored_bytes (stored ?s))"
    unfolding p using l d(1)
    by (intro nv_reliable.update_then_read [where ok = nv_log_ok])
      (simp_all add: product_port.axioms(1) [OF product_port_blank])
  then show ?thesis
    using restart_keeps_stored [OF nexus_product_blank r, of 9] by (simp add: Let_def)
qed

text \<open>C25. A process call asks to be called again within 240 seconds, within one second while a keycode
  is being entered, and at once without any effect when up-time went backwards.\<close>

theorem process_sleep_bounds:
  "fst (nx_common_process e t s) \<le> 240 \<and>
   (uptime_s (common s) \<le> t \<and> start_seen (bookend (snd (nx_common_process e t s))) \<longrightarrow>
      fst (nx_common_process e t s) \<le> 1) \<and>
   (t < uptime_s (common s) \<longrightarrow> nx_common_process e t s = (0, s))"
proof -
  have m: "u32min a b \<le> a" "u32min a b \<le> b" for a b by (auto simp: u32min_def)
  let ?c = "nexus_keycode_core_process e (t - uptime_s (common s)) (s\<lparr>common := (common s)\<lparr>uptime_s := t\<rparr>\<rparr>)"
  have c: "fst ?c \<le> fst (nexus_keycode_mas_process e (t - uptime_s (common s)) (s\<lparr>common := (common s)\<lparr>uptime_s := t\<rparr>\<rparr>))"
    using m order.trans by (simp add: nexus_keycode_core_process_def Let_def case_prod_beta) blast
  have "start_seen (bookend (snd (nexus_keycode_mas_process e d u))) \<Longrightarrow> fst (nexus_keycode_mas_process e d u) = 1" for d and u :: "'a nexus"
    by (auto simp: nexus_keycode_mas_process_def nexus_keycode_mas_bookend_process_def Let_def)
  then have "start_seen (bookend (snd ?c)) \<Longrightarrow> fst ?c \<le> 1"
    using c by (auto simp: nexus_keycode_core_process_def Let_def case_prod_beta)
  moreover have "\<not> t < uptime_s (common s) \<Longrightarrow> fst (nx_common_process e t s) = u32min 240 (fst ?c)"
    "\<not> t < uptime_s (common s) \<Longrightarrow> bookend (snd (nx_common_process e t s)) = bookend (snd ?c)"
    by (simp_all add: nx_common_process_def Let_def case_prod_beta)
  moreover have "t < uptime_s (common s) \<Longrightarrow> nx_common_process e t s = (0, s)" by (simp add: nx_common_process_def)
  ultimately show ?thesis using m order.trans by (cases "t < uptime_s (common s)") (auto, blast)
qed

theorem process_sleep_bounds_witness:
  "(let s = blank_state\<lparr>common := \<lparr>uptime_s = 5, init_completed = True, pending_init = False\<rparr>\<rparr>
    in nx_common_process blank_env 3 s = (0, s))"
  using process_sleep_bounds [of blank_env 3
      "blank_state\<lparr>common := \<lparr>uptime_s = 5, init_completed = True, pending_init = False\<rparr>\<rparr>"]
  by (simp add: Let_def)

text \<open>C26. Key entry times out: a process call more than the time-out after the last processed key
  abandons the entry and empties the partial frame.\<close>

theorem entry_times_out:
  assumes "start_seen (bookend s)" and "latest_uptime (bookend s) \<noteq> UINT32_MAX" and "uptime_s (common s) \<le> t"
    and "ENTRY_TIMEOUT_SECONDS (config e) < t - latest_uptime (bookend s)"
  shows "(let u = snd (nx_common_process e t s)
          in \<not> start_seen (bookend u) \<and> fr_length (partial (mas u)) = 0 \<and> \<not> max_length_exceeded (mas u))"
  using assms
  by (simp add: snd_nx_common_process Let_def nexus_keycode_mas_process_def nexus_keycode_mas_bookend_process_def
      nexus_common_uptime_def nexus_keycode_mas_reset_def nexus_keycode_mas_bookend_reset_def not_less [symmetric])

theorem entry_times_out_witness:
  "(let s = blank_state\<lparr>bookend := \<lparr>start_key = 42, end_key = 35, stop_length = 255, start_seen = True, latest_uptime = 3\<rparr>\<rparr>
    in \<not> start_seen (bookend (snd (nx_common_process blank_env 20 s))))"
proof -
  let ?s = "blank_state\<lparr>bookend := \<lparr>start_key = 42, end_key = 35, stop_length = 255, start_seen = True, latest_uptime = 3\<rparr>\<rparr>"
  have "uptime_s (common ?s) \<le> 20" by (simp add: blank_state_def nexus_zero_def)
  moreover have "ENTRY_TIMEOUT_SECONDS (config blank_env) < 20 - latest_uptime (bookend ?s)"
    by (simp add: blank_env_def sample_env_def user_config_def)
  ultimately show ?thesis using entry_times_out [of ?s 20 blank_env] by (simp add: Let_def)
qed

end
