(* ===== verification/Channel_State.thy ===== *)
theory Channel_State
  imports Nexus_Nv Nexus_Bitset Nexus_Check Nexus_Digits
begin

text \<open>
  The static data of the Nexus Channel half of the library: the build configuration, the port
  (product functions and the IoTivity stack the modules call) and the module-level \<^verbatim>\<open>_this\<close>
  structs of \<^verbatim>\<open>nexus_channel_res_lm.c\<close>, \<^verbatim>\<open>nexus_channel_res_link_hs.c\<close>,
  \<^verbatim>\<open>nexus_channel_om.c\<close>, \<^verbatim>\<open>nexus_channel_res_payg_credit.c\<close> and \<^verbatim>\<open>nexus_channel_sm.c\<close>.
\<close>

section \<open>Identities and links\<close>

record nx_id =
  authority_id :: u16
  device_id :: u32

definition nx_id_bytes :: "nx_id \<Rightarrow> bytes" where
  "nx_id_bytes i = u16_le (authority_id i) @ u32_le (device_id i)"

abbreviation NULL_NEXUS_ID :: nx_id where
  "NULL_NEXUS_ID \<equiv> \<lparr>authority_id = 0, device_id = 0\<rparr>"

text \<open>\<^verbatim>\<open>enum nexus_channel_link_operating_mode\<close>, stored in one byte of a link.\<close>

abbreviation (input) CHANNEL_LINK_OPERATING_MODE_ACCESSORY :: u8 where
  "CHANNEL_LINK_OPERATING_MODE_ACCESSORY \<equiv> 0"
abbreviation (input) CHANNEL_LINK_OPERATING_MODE_CONTROLLER :: u8 where
  "CHANNEL_LINK_OPERATING_MODE_CONTROLLER \<equiv> 1"
abbreviation (input) CHANNEL_LINK_OPERATING_MODE_DUAL_MODE_ACTIVE :: u8 where
  "CHANNEL_LINK_OPERATING_MODE_DUAL_MODE_ACTIVE \<equiv> 2"
abbreviation (input) CHANNEL_LINK_OPERATING_MODE_DUAL_MODE_IDLE :: u8 where
  "CHANNEL_LINK_OPERATING_MODE_DUAL_MODE_IDLE \<equiv> 3"
abbreviation (input) LINK_SECURITY_MODE_KEY128SYM_COSE_MAC0_AUTH_SIPHASH24 :: u8 where
  "LINK_SECURITY_MODE_KEY128SYM_COSE_MAC0_AUTH_SIPHASH24 \<equiv> 0"

text \<open>\<^verbatim>\<open>struct nexus_channel_link_security_mode0_data\<close>, the only member of its union.\<close>

record security_mode0_data =
  sym_key :: bytes
  nonce :: u32

record nexus_channel_link =
  linked_device_id :: nx_id
  operating_mode :: u8
  security_mode :: u8
  seconds_since_init :: u32
  seconds_since_active :: u32
  security_data :: security_mode0_data

definition zero_link :: nexus_channel_link where
  "zero_link = \<lparr>linked_device_id = NULL_NEXUS_ID, operating_mode = 0, security_mode = 0,
     seconds_since_init = 0, seconds_since_active = 0,
     security_data = \<lparr>sym_key = replicate 16 0, nonce = 0\<rparr>\<rparr>"

text \<open>\<^verbatim>\<open>_this\<close> of the link manager. \<open>links\<close> is the part that is kept in nonvolatile memory.\<close>

record lm_this =
  links :: "nexus_channel_link list"
  pending_link_to_create :: nexus_channel_link
  link_count :: u8
  link_idx_in_use :: "bool list"
  link_idx_should_persist_nonce :: "bool list"
  pending_add_link :: bool
  pending_clear_all_links :: bool

section \<open>Handshakes, origin commands and credit\<close>

datatype link_handshake_state = LINK_HANDSHAKE_STATE_IDLE | LINK_HANDSHAKE_STATE_ACTIVE

record nexus_link_hs_accessory =
  chal_data :: bytes
  resp_data :: bytes
  chal_data_len :: u8
  resp_data_len :: u8
  chal_mode :: u8
  hs_seconds_since_init :: u16
  link_security_mode :: u8
  hs_state :: link_handshake_state

record nexus_link_hs_controller =
  link_key :: bytes
  send_chal_data :: bytes
  send_chal_data_len :: u8
  salt_mac :: bytes
  salt :: bytes
  cl_seconds_since_init :: u16
  last_post_seconds :: u16
  requested_security_mode :: u8
  requested_chal_mode :: u8
  cl_state :: link_handshake_state

record stored_accessory =
  handshake_index :: u32
  hs_received_ids :: bytes

record hs_this =
  clients :: "nexus_link_hs_controller list"
  server :: nexus_link_hs_accessory
  stored_acc :: stored_accessory

definition zero_server :: nexus_link_hs_accessory where
  "zero_server = \<lparr>chal_data = replicate 16 0, resp_data = replicate 16 0, chal_data_len = 0, resp_data_len = 0,
     chal_mode = 0, hs_seconds_since_init = 0, link_security_mode = 0, hs_state = LINK_HANDSHAKE_STATE_IDLE\<rparr>"

definition zero_client :: nexus_link_hs_controller where
  "zero_client = \<lparr>link_key = replicate 16 0, send_chal_data = replicate 16 0, send_chal_data_len = 0,
     salt_mac = replicate 8 0, salt = replicate 8 0, cl_seconds_since_init = 0, last_post_seconds = 0,
     requested_security_mode = 0, requested_chal_mode = 0, cl_state = LINK_HANDSHAKE_STATE_IDLE\<rparr>"

text \<open>\<^verbatim>\<open>_nexus_om_stored\<close>.\<close>

record om_stored =
  command_index :: u32
  om_received_ids :: bytes

datatype payg_credit_operating_mode =
  CREDIT_MODE_INDEPENDENT | CREDIT_MODE_LEADING | CREDIT_MODE_FOLLOWING | CREDIT_MODE_RELAYING

record credit_this =
  remaining :: u32
  credit_mode :: payg_credit_operating_mode
  follower_mode_seconds_since_credit_updated :: u32
  cr_last_payg_state :: nxp_common_payg_state
  last_updated_nexus_id :: nx_id
  seconds_since_last_post :: u32
  cycle_first_nexus_id :: nx_id
  seconds_since_last_cycle_start :: u32

text \<open>
  The response handlers of the requests under way, \<^verbatim>\<open>_active_client_get_handler\<close> and
  \<^verbatim>\<open>_active_client_post_handler\<close>. A product's handlers carry a number.
\<close>

datatype nx_channel_response_handler =
  PAYG_CREDIT_GET_RESPONSE | PAYG_CREDIT_POST_RESPONSE | PRODUCT_RESPONSE nat

record wrapper_this =
  active_client_get_handler :: "nx_channel_response_handler option"
  active_client_post_handler :: "nx_channel_response_handler option"

section \<open>Resources\<close>

text \<open>
  The handlers that the library installs; a product's own resources carry a number. Resources are
  drawn from a pool and never returned to it (\<open>res_pool\<close>); \<open>app_resources\<close> lists the registered
  ones, \<open>sec_res_methods\<close> the methods secured by the security manager, as references into the pool.
\<close>

datatype oc_method = OC_GET | OC_POST | OC_PUT | OC_DELETE

datatype oc_request_callback =
  LM_SERVER_GET | LINK_HS_SERVER_GET | LINK_HS_SERVER_POST | PAYG_CREDIT_GET | PAYG_CREDIT_POST | PRODUCT_HANDLER nat

record oc_resource =
  res_uri :: string
  res_interfaces :: u32
  res_default_interface :: u32
  get_handler :: "oc_request_callback option"
  post_handler :: "oc_request_callback option"

record registry =
  res_pool :: "oc_resource list"
  app_resources :: "nat list"
  sec_res_methods :: "(nat \<times> oc_method) list"

text \<open>Payloads in OCF representation: named values.\<close>

datatype oc_rep_value =
    OC_REP_NIL
  | OC_REP_INT int
  | OC_REP_BOOL bool
  | OC_REP_BYTE_STRING bytes
  | OC_REP_STRING bytes
  | OC_REP_OBJECT "(string \<times> oc_rep_value) list"
  | OC_REP_INT_ARRAY "int list"
  | OC_REP_BOOL_ARRAY "bool list"
  | OC_REP_BYTE_STRING_ARRAY "bytes list"
  | OC_REP_STRING_ARRAY "bytes list"
  | OC_REP_OBJECT_ARRAY "(string \<times> oc_rep_value) list list"

type_synonym oc_rep = "(string \<times> oc_rep_value) list"

datatype oc_status =
    OC_STATUS_OK | OC_STATUS_CREATED | OC_STATUS_CHANGED | OC_STATUS_DELETED | OC_STATUS_NOT_MODIFIED | OC_STATUS_BAD_REQUEST
  | OC_STATUS_UNAUTHORIZED | OC_STATUS_BAD_OPTION | OC_STATUS_FORBIDDEN | OC_STATUS_NOT_FOUND | OC_STATUS_METHOD_NOT_ALLOWED
  | OC_STATUS_NOT_ACCEPTABLE | OC_STATUS_REQUEST_ENTITY_TOO_LARGE | OC_STATUS_UNSUPPORTED_MEDIA_TYPE | OC_STATUS_INTERNAL_SERVER_ERROR
  | OC_STATUS_NOT_IMPLEMENTED | OC_STATUS_BAD_GATEWAY | OC_STATUS_SERVICE_UNAVAILABLE | OC_STATUS_GATEWAY_TIMEOUT
  | OC_STATUS_PROXYING_NOT_SUPPORTED

text \<open>\<^verbatim>\<open>oc_endpoint_t\<close>, as far as it is used here.\<close>

record oc_endpoint =
  ep_flags :: u32
  ep_address :: bytes
  ep_port :: u16
  ep_scope :: u8
  ep_version :: u32

section \<open>The port\<close>

datatype nxp_channel_event_type =
    NXP_CHANNEL_EVENT_LINK_ESTABLISHED_AS_ACCESSORY | NXP_CHANNEL_EVENT_LINK_ESTABLISHED_AS_CONTROLLER
  | NXP_CHANNEL_EVENT_LINK_DELETED | NXP_CHANNEL_EVENT_LINK_HANDSHAKE_STARTED
  | NXP_CHANNEL_EVENT_LINK_HANDSHAKE_TIMED_OUT

datatype nx_channel_error =
    NX_CHANNEL_ERROR_NONE | NX_CHANNEL_ERROR_UNSPECIFIED | NX_CHANNEL_ERROR_ACTION_REJECTED
  | NX_CHANNEL_ERROR_METHOD_UNSUPPORTED | NX_CHANNEL_ERROR_MESSAGE_TOO_LARGE

text \<open>
  \<open>nx\<close> is the product's storage and processing port of the common part. The IoTivity functions act
  on the same product state; what they encode or send is their argument.
\<close>

record 'p channel_env =
  nx :: "'p nexus_env"
  MAX_SIMULTANEOUS_LINKS :: nat
  SUPPORT_CONTROLLER_MODE :: bool
  SUPPORT_ACCESSORY_MODE :: bool
  nxp_channel_notify_event :: "nxp_channel_event_type \<Rightarrow> 'p \<Rightarrow> 'p"
  nxp_channel_symmetric_origin_key :: "'p \<Rightarrow> bytes"
  nxp_channel_random_value :: "'p \<Rightarrow> u32 \<times> 'p"
  nxp_channel_payg_credit_set :: "u32 \<Rightarrow> 'p \<Rightarrow> 'p"
  nxp_channel_payg_credit_unlock :: "'p \<Rightarrow> 'p"
  nxp_common_payg_credit_get_remaining :: "'p \<Rightarrow> u32"
  oc_baseline_interface :: "oc_request_callback \<Rightarrow> oc_rep"
  oc_drop_client_cb :: "string \<Rightarrow> 'p \<Rightarrow> 'p"
  oc_init_post :: "string \<Rightarrow> nx_id \<Rightarrow> 'p \<Rightarrow> bool \<times> 'p"
  oc_do_post :: "bool \<Rightarrow> oc_rep \<Rightarrow> 'p \<Rightarrow> bool \<times> 'p"
  oc_do_get :: "string \<Rightarrow> bool \<Rightarrow> nx_id \<Rightarrow> 'p \<Rightarrow> bool \<times> 'p"
  oc_allocate_message :: "'p \<Rightarrow> bool \<times> 'p"
  oc_network_event :: "bytes \<Rightarrow> oc_endpoint \<Rightarrow> 'p \<Rightarrow> 'p"
  nxp_channel_get_nexus_id :: "'p \<Rightarrow> nx_id"
  nxp_channel_network_send :: "bytes \<Rightarrow> nx_id \<Rightarrow> nx_id \<Rightarrow> bool \<Rightarrow> 'p \<Rightarrow> 'p"

text \<open>The links a build may have (\<^verbatim>\<open>nx_common.h\<close>) and its modes.\<close>

definition channel_config_wf :: "'p channel_env \<Rightarrow> bool" where
  "channel_config_wf e \<longleftrightarrow> 1 \<le> MAX_SIMULTANEOUS_LINKS e \<and> MAX_SIMULTANEOUS_LINKS e \<le> 10 \<and>
     (SUPPORT_CONTROLLER_MODE e \<or> SUPPORT_ACCESSORY_MODE e)"

record 'p channel =
  cplat :: 'p
  lm :: lm_this
  hs :: hs_this
  om :: om_stored
  credit :: credit_this
  reg :: registry
  wrapper :: wrapper_this
  answer :: "(oc_status \<times> oc_rep) option"

section \<open>Updates and calls into the port\<close>

definition on_plat :: "('p \<Rightarrow> 'p) \<Rightarrow> 'p channel \<Rightarrow> 'p channel" where
  "on_plat f s = s\<lparr>cplat := f (cplat s)\<rparr>"

definition on_lm :: "(lm_this \<Rightarrow> lm_this) \<Rightarrow> 'p channel \<Rightarrow> 'p channel" where
  "on_lm f s = s\<lparr>lm := f (lm s)\<rparr>"

definition on_hs :: "(hs_this \<Rightarrow> hs_this) \<Rightarrow> 'p channel \<Rightarrow> 'p channel" where
  "on_hs f s = s\<lparr>hs := f (hs s)\<rparr>"

definition on_om :: "(om_stored \<Rightarrow> om_stored) \<Rightarrow> 'p channel \<Rightarrow> 'p channel" where
  "on_om f s = s\<lparr>om := f (om s)\<rparr>"

definition on_credit :: "(credit_this \<Rightarrow> credit_this) \<Rightarrow> 'p channel \<Rightarrow> 'p channel" where
  "on_credit f s = s\<lparr>credit := f (credit s)\<rparr>"

definition on_reg :: "(registry \<Rightarrow> registry) \<Rightarrow> 'p channel \<Rightarrow> 'p channel" where
  "on_reg f s = s\<lparr>reg := f (reg s)\<rparr>"

definition on_wrapper :: "(wrapper_this \<Rightarrow> wrapper_this) \<Rightarrow> 'p channel \<Rightarrow> 'p channel" where
  "on_wrapper f s = s\<lparr>wrapper := f (wrapper s)\<rparr>"

text \<open>
  \<^verbatim>\<open>oc_send_response\<close>: a handler leaves its status and what it has encoded in the request, for the caller that
  serves the request.
\<close>

definition oc_send_response :: "oc_status \<Rightarrow> oc_rep \<Rightarrow> 'p channel \<Rightarrow> 'p channel" where
  "oc_send_response response_code rep s = s\<lparr>answer := Some (response_code, rep)\<rparr>"

definition notify_event :: "'p channel_env \<Rightarrow> nxp_channel_event_type \<Rightarrow> 'p channel \<Rightarrow> 'p channel" where
  "notify_event e ev = on_plat (nxp_channel_notify_event e ev)"

definition request_processing :: "'p channel_env \<Rightarrow> 'p channel \<Rightarrow> 'p channel" where
  "request_processing e = on_plat (nxp_common_request_processing (nx e))"

definition nv_update :: "'p channel_env \<Rightarrow> nx_common_nv_block_meta \<Rightarrow> bytes \<Rightarrow> 'p channel \<Rightarrow> 'p channel" where
  "nv_update e m inner = on_plat (\<lambda>p. snd (nexus_nv_update (nx e) m inner p))"

named_theorems channel_updates \<open>reading the state after an update of one part of it\<close>

lemma send_response_simps [simp, channel_updates]:
  "cplat (oc_send_response st rep s) = cplat s" "lm (oc_send_response st rep s) = lm s" "hs (oc_send_response st rep s) = hs s"
  "om (oc_send_response st rep s) = om s" "credit (oc_send_response st rep s) = credit s" "reg (oc_send_response st rep s) = reg s"
  "wrapper (oc_send_response st rep s) = wrapper s" "answer (oc_send_response st rep s) = Some (st, rep)"
  by (simp_all add: oc_send_response_def)

lemma on_channel_simps [simp, channel_updates]:
  "cplat (on_plat f s) = f (cplat s)" "lm (on_plat f s) = lm s" "hs (on_plat f s) = hs s"
  "om (on_plat f s) = om s" "credit (on_plat f s) = credit s" "reg (on_plat f s) = reg s"
  "cplat (on_lm g s) = cplat s" "lm (on_lm g s) = g (lm s)" "hs (on_lm g s) = hs s"
  "om (on_lm g s) = om s" "credit (on_lm g s) = credit s" "reg (on_lm g s) = reg s"
  "cplat (on_hs h s) = cplat s" "lm (on_hs h s) = lm s" "hs (on_hs h s) = h (hs s)"
  "om (on_hs h s) = om s" "credit (on_hs h s) = credit s" "reg (on_hs h s) = reg s"
  "cplat (on_om k s) = cplat s" "lm (on_om k s) = lm s" "hs (on_om k s) = hs s"
  "om (on_om k s) = k (om s)" "credit (on_om k s) = credit s" "reg (on_om k s) = reg s"
  by (simp_all add: on_plat_def on_lm_def on_hs_def on_om_def)

lemma on_channel_simps' [simp, channel_updates]:
  "cplat (on_credit f s) = cplat s" "lm (on_credit f s) = lm s" "hs (on_credit f s) = hs s"
  "om (on_credit f s) = om s" "credit (on_credit f s) = f (credit s)" "reg (on_credit f s) = reg s"
  "cplat (on_reg g s) = cplat s" "lm (on_reg g s) = lm s" "hs (on_reg g s) = hs s"
  "om (on_reg g s) = om s" "credit (on_reg g s) = credit s" "reg (on_reg g s) = g (reg s)"
  by (simp_all add: on_credit_def on_reg_def)

lemma on_wrapper_simps [simp, channel_updates]:
  "cplat (on_wrapper f s) = cplat s" "lm (on_wrapper f s) = lm s" "hs (on_wrapper f s) = hs s"
  "om (on_wrapper f s) = om s" "credit (on_wrapper f s) = credit s" "reg (on_wrapper f s) = reg s"
  "wrapper (on_wrapper f s) = f (wrapper s)"
  by (simp_all add: on_wrapper_def)

lemma wrapper_simps [simp, channel_updates]:
  "wrapper (on_plat f s) = wrapper s" "wrapper (on_lm g s) = wrapper s" "wrapper (on_hs h s) = wrapper s"
  "wrapper (on_om k s) = wrapper s" "wrapper (on_credit c s) = wrapper s" "wrapper (on_reg r s) = wrapper s"
  "wrapper (notify_event e ev s) = wrapper s" "wrapper (request_processing e s) = wrapper s"
  "wrapper (nv_update e m inner s) = wrapper s"
  by (simp_all add: on_plat_def on_lm_def on_hs_def on_om_def on_credit_def on_reg_def notify_event_def
      request_processing_def nv_update_def)

lemma port_call_simps [simp, channel_updates]:
  "lm (notify_event e ev s) = lm s" "hs (notify_event e ev s) = hs s" "om (notify_event e ev s) = om s"
  "credit (notify_event e ev s) = credit s" "reg (notify_event e ev s) = reg s"
  "lm (request_processing e s) = lm s" "hs (request_processing e s) = hs s" "om (request_processing e s) = om s"
  "credit (request_processing e s) = credit s" "reg (request_processing e s) = reg s"
  "lm (nv_update e m inner s) = lm s" "hs (nv_update e m inner s) = hs s" "om (nv_update e m inner s) = om s"
  "credit (nv_update e m inner s) = credit s" "reg (nv_update e m inner s) = reg s"
  by (simp_all add: notify_event_def request_processing_def nv_update_def)

end
