(* ===== verification/Channel_Resource.thy ===== *)
theory Channel_Resource
  imports Channel_State
begin

text \<open>
  Resource registration (\<^verbatim>\<open>nexus_channel_core.c\<close>, \<^verbatim>\<open>nexus_oc_wrapper.c\<close>) and the list of secured
  resource methods kept by the security manager (\<^verbatim>\<open>nexus_channel_sm.c\<close>), with what they use of
  the resource list of \<^verbatim>\<open>oc/api/oc_ri.c\<close>. A reference to a resource is its position in the pool;
  string memory is taken to suffice.
\<close>

section \<open>The resource list\<close>

abbreviation (input) OC_MAX_APP_RESOURCES :: nat where "OC_MAX_APP_RESOURCES \<equiv> 4"

abbreviation (input) OC_IF_BASELINE_MASK :: u32 where "OC_IF_BASELINE_MASK \<equiv> 2"
abbreviation (input) OC_IF_LL_MASK :: u32 where "OC_IF_LL_MASK \<equiv> 4"
abbreviation (input) OC_IF_B_MASK :: u32 where "OC_IF_B_MASK \<equiv> 8"
abbreviation (input) OC_IF_R_MASK :: u32 where "OC_IF_R_MASK \<equiv> 16"
abbreviation (input) OC_IF_RW_MASK :: u32 where "OC_IF_RW_MASK \<equiv> 32"
abbreviation (input) OC_IF_A_MASK :: u32 where "OC_IF_A_MASK \<equiv> 64"
abbreviation (input) OC_IF_S_MASK :: u32 where "OC_IF_S_MASK \<equiv> 128"
abbreviation (input) OC_IF_CREATE_MASK :: u32 where "OC_IF_CREATE_MASK \<equiv> 256"

text \<open>A path without its leading slash, as CoAP carries it, matches too.\<close>

definition uri_matches :: "string \<Rightarrow> string \<Rightarrow> bool" where
  "uri_matches uri res =
     (let skip = (if take 1 uri \<noteq> ''/'' then 1 else 0)
      in length res = length uri + skip \<and> uri = drop skip res)"

definition oc_ri_get_app_resource_by_uri :: "string \<Rightarrow> registry \<Rightarrow> nat option" where
  "oc_ri_get_app_resource_by_uri uri r =
     find (\<lambda>i. uri_matches uri (res_uri (res_pool r ! i))) (app_resources r)"

definition oc_store_uri :: "string \<Rightarrow> string" where
  "oc_store_uri s_uri = (if take 1 s_uri \<noteq> ''/'' then ''/'' @ s_uri else s_uri)"

text \<open>\<^verbatim>\<open>oc_new_resource\<close> takes a cleared block of the pool and fills in the path.\<close>

definition oc_new_resource :: "string \<Rightarrow> registry \<Rightarrow> nat option \<times> registry" where
  "oc_new_resource uri r =
     (if length (res_pool r) < OC_MAX_APP_RESOURCES
      then (Some (length (res_pool r)),
            r\<lparr>res_pool := res_pool r @ [\<lparr>res_uri = oc_store_uri uri, res_interfaces = OC_IF_BASELINE_MASK,
              res_default_interface = OC_IF_BASELINE_MASK, get_handler = None, post_handler = None\<rparr>]\<rparr>)
      else (None, r))"

definition oc_resource_set_request_handler ::
    "nat \<Rightarrow> oc_method \<Rightarrow> oc_request_callback option \<Rightarrow> registry \<Rightarrow> registry" where
  "oc_resource_set_request_handler res m cb r =
     r\<lparr>res_pool := (res_pool r)[res := (case m of
          OC_GET \<Rightarrow> (res_pool r ! res)\<lparr>get_handler := cb\<rparr>
        | OC_POST \<Rightarrow> (res_pool r ! res)\<lparr>post_handler := cb\<rparr>
        | _ \<Rightarrow> res_pool r ! res)]\<rparr>"

definition oc_ri_add_resource :: "nat \<Rightarrow> registry \<Rightarrow> bool \<times> registry" where
  "oc_ri_add_resource res r =
     (let valid = \<not> (get_handler (res_pool r ! res) = None \<and> post_handler (res_pool r ! res) = None)
      in (valid, if valid then r\<lparr>app_resources := app_resources r @ [res]\<rparr> else r))"

definition nexus_add_resource :: "nat \<Rightarrow> registry \<Rightarrow> bool \<times> registry" where
  "nexus_add_resource res r =
     (if oc_ri_get_app_resource_by_uri (res_uri (res_pool r ! res)) r \<noteq> None then (False, r)
      else oc_ri_add_resource res r)"

definition oc_resource_bind_resource_interface :: "nat \<Rightarrow> u32 \<Rightarrow> registry \<Rightarrow> registry" where
  "oc_resource_bind_resource_interface res iface_mask r =
     r\<lparr>res_pool := (res_pool r)[res := (res_pool r ! res)\<lparr>res_interfaces := res_interfaces (res_pool r ! res) OR iface_mask\<rparr>]\<rparr>"

definition oc_resource_set_default_interface :: "nat \<Rightarrow> u32 \<Rightarrow> registry \<Rightarrow> registry" where
  "oc_resource_set_default_interface res iface_mask r =
     r\<lparr>res_pool := (res_pool r)[res := (res_pool r ! res)\<lparr>res_default_interface := iface_mask\<rparr>]\<rparr>"

section \<open>Secured methods\<close>

definition nexus_channel_sm_init :: "registry \<Rightarrow> registry" where
  "nexus_channel_sm_init r = r\<lparr>sec_res_methods := []\<rparr>"

definition nexus_channel_sm_nexus_resource_method_new :: "nat \<Rightarrow> oc_method \<Rightarrow> registry \<Rightarrow> bool \<times> registry" where
  "nexus_channel_sm_nexus_resource_method_new res m r =
     (if length (sec_res_methods r) < OC_MAX_APP_RESOURCES * 2
      then (True, r\<lparr>sec_res_methods := sec_res_methods r @ [(res, m)]\<rparr>)
      else (False, r))"

text \<open>\<^verbatim>\<open>strncmp(sec, uri, len(uri)) == 0\<close>: the secured path starts with the requested one.\<close>

definition nexus_channel_sm_resource_method_is_secured :: "nat option \<Rightarrow> oc_method \<Rightarrow> registry \<Rightarrow> bool" where
  "nexus_channel_sm_resource_method_is_secured res m r =
     (case res of None \<Rightarrow> False
      | Some i \<Rightarrow>
          let uri = res_uri (res_pool r ! i)
          in list_ex (\<lambda>(j, m'). take (length uri) (res_uri (res_pool r ! j)) = uri \<and> m' = m) (sec_res_methods r))"

definition nexus_channel_sm_requested_method_is_secured :: "string \<Rightarrow> oc_method \<Rightarrow> registry \<Rightarrow> bool" where
  "nexus_channel_sm_requested_method_is_secured href m r =
     (if length href = 0 then False
      else nexus_channel_sm_resource_method_is_secured (oc_ri_get_app_resource_by_uri href r) m r)"

text \<open>The loop removes the head until the list is empty.\<close>

fun free_methods_loop :: "(nat \<times> oc_method) list \<Rightarrow> (nat \<times> oc_method) list" where
  "free_methods_loop [] = []"
| "free_methods_loop (_ # rest) = free_methods_loop rest"

definition nexus_channel_sm_free_all_nexus_resource_methods :: "registry \<Rightarrow> registry" where
  "nexus_channel_sm_free_all_nexus_resource_methods r = r\<lparr>sec_res_methods := free_methods_loop (sec_res_methods r)\<rparr>"

section \<open>Registration\<close>

record nx_channel_resource_props =
  rp_uri :: string
  rp_if_masks :: "u32 list"
  rp_get_handler :: "oc_request_callback option"
  rp_get_secured :: bool
  rp_post_handler :: "oc_request_callback option"
  rp_post_secured :: bool

text \<open>All interfaces of a resource are bound, the first is its default.\<close>

definition bind_interfaces :: "nat \<Rightarrow> u32 list \<Rightarrow> registry \<Rightarrow> registry" where
  "bind_interfaces res if_masks r =
     (let r = fold (oc_resource_bind_resource_interface res) if_masks r
      in case if_masks of [] \<Rightarrow> r | first # _ \<Rightarrow> oc_resource_set_default_interface res first r)"

text \<open>A method is secured; when there is no room for that its handler is removed again.\<close>

definition secure_method :: "nat \<Rightarrow> oc_method \<Rightarrow> bool \<times> registry \<Rightarrow> bool \<times> registry" where
  "secure_method res m = (\<lambda>(success, r).
     case nexus_channel_sm_nexus_resource_method_new res m r of
       (True, r) \<Rightarrow> (success, r)
     | (False, r) \<Rightarrow> (False, oc_resource_set_request_handler res m None r))"

definition nx_channel_register_resource :: "nx_channel_resource_props \<Rightarrow> registry \<Rightarrow> nx_channel_error \<times> registry" where
  "nx_channel_register_resource props r =
     (case oc_new_resource (rp_uri props) r of
        (None, r) \<Rightarrow> (NX_CHANNEL_ERROR_UNSPECIFIED, r)
      | (Some res, r) \<Rightarrow>
          let r = bind_interfaces res (rp_if_masks props) r;
              r = (if rp_get_handler props \<noteq> None
                   then oc_resource_set_request_handler res OC_GET (rp_get_handler props) r else r);
              r = (if rp_post_handler props \<noteq> None
                   then oc_resource_set_request_handler res OC_POST (rp_post_handler props) r else r);
              (success, r) = nexus_add_resource res r;
              (success, r) = (if success then
                  let (success, r) = (if rp_get_secured props then secure_method res OC_GET (success, r) else (success, r))
                  in if rp_post_secured props then secure_method res OC_POST (success, r) else (success, r)
                else (success, r))
          in (if success then NX_CHANNEL_ERROR_NONE else NX_CHANNEL_ERROR_UNSPECIFIED, r))"

definition nexus_channel_set_request_handler ::
    "nat \<Rightarrow> oc_method \<Rightarrow> oc_request_callback \<Rightarrow> bool \<Rightarrow> registry \<Rightarrow> nx_channel_error \<times> registry" where
  "nexus_channel_set_request_handler res m cb secured r =
     (if m \<noteq> OC_GET \<and> m \<noteq> OC_POST then (NX_CHANNEL_ERROR_METHOD_UNSUPPORTED, r)
      else
        let old = (if m = OC_GET then get_handler (res_pool r ! res) else post_handler (res_pool r ! res))
        in if old \<noteq> None then (NX_CHANNEL_ERROR_ACTION_REJECTED, r)
           else
             let r = oc_resource_set_request_handler res m (Some cb) r
             in if secured then
                  case secure_method res m (True, r) of
                    (True, r) \<Rightarrow> (NX_CHANNEL_ERROR_NONE, r)
                  | (False, r) \<Rightarrow> (NX_CHANNEL_ERROR_UNSPECIFIED, r)
                else (NX_CHANNEL_ERROR_NONE, r))"

definition nx_channel_register_resource_handler ::
    "string \<Rightarrow> oc_method \<Rightarrow> oc_request_callback \<Rightarrow> bool \<Rightarrow> registry \<Rightarrow> nx_channel_error \<times> registry" where
  "nx_channel_register_resource_handler uri m cb secured r =
     (case oc_ri_get_app_resource_by_uri uri r of
        None \<Rightarrow> (NX_CHANNEL_ERROR_UNSPECIFIED, r)
      | Some res \<Rightarrow> nexus_channel_set_request_handler res m cb secured r)"

end
