(* ===== verification/Channel_Link.thy ===== *)
theory Channel_Link
  imports Channel_Resource
begin

text \<open>
  The link manager (\<^verbatim>\<open>nexus/src/nexus_channel_res_lm.c\<close>): a table of links to other devices, each
  with a symmetric key and a nonce, kept in nonvolatile memory. Changes of the table are requested
  by the handshake and origin modules and carried out by the process function; the nonce is stored
  only every 64 messages and jumps by 64 at every start.
\<close>

section \<open>Storage of links\<close>

abbreviation (input) NONCE_NV_STORAGE_INTERVAL_COUNT :: u32 where "NONCE_NV_STORAGE_INTERVAL_COUNT \<equiv> 64"
abbreviation (input) NEXUS_CHANNEL_LINK_TIMEOUT_SECONDS :: u32 where "NEXUS_CHANNEL_LINK_TIMEOUT_SECONDS \<equiv> 7776000"
abbreviation (input) NEXUS_COMMON_IDLE_SECONDS :: u32 where "NEXUS_COMMON_IDLE_SECONDS \<equiv> 240"

text \<open>\<^verbatim>\<open>NX_NV_BLOCK_CHANNEL_LM_LINK_1\<close> to \<^verbatim>\<open>NX_NV_BLOCK_CHANNEL_LM_LINK_10\<close>.\<close>

definition NX_NV_BLOCK_CHANNEL_LM_LINK :: "nat \<Rightarrow> nx_common_nv_block_meta" where
  "NX_NV_BLOCK_CHANNEL_LM_LINK n = \<lparr>block_id = word_of_nat (n + 3), block_length = 40\<rparr>"

text \<open>\<open>None\<close> is the return value \<^verbatim>\<open>false\<close>.\<close>

definition nexus_channel_link_manager_index_to_nv_block :: "nat \<Rightarrow> nx_common_nv_block_meta option" where
  "nexus_channel_link_manager_index_to_nv_block index =
     (if index < 10 then Some (NX_NV_BLOCK_CHANNEL_LM_LINK (index + 1)) else None)"

text \<open>The packed struct \<^verbatim>\<open>nexus_channel_link_t\<close> as it lies in memory, 36 bytes.\<close>

definition link_bytes :: "nexus_channel_link \<Rightarrow> bytes" where
  "link_bytes l = nx_id_bytes (linked_device_id l) @ [operating_mode l, security_mode l] @
     u32_le (seconds_since_init l) @ u32_le (seconds_since_active l) @
     sym_key (security_data l) @ u32_le (nonce (security_data l))"

definition link_of_bytes :: "bytes \<Rightarrow> nexus_channel_link" where
  "link_of_bytes b = \<lparr>linked_device_id = \<lparr>authority_id = le_u16 (take 2 b), device_id = le_u32 (take 4 (drop 2 b))\<rparr>,
     operating_mode = b ! 6, security_mode = b ! 7,
     seconds_since_init = le_u32 (take 4 (drop 8 b)), seconds_since_active = le_u32 (take 4 (drop 12 b)),
     security_data = \<lparr>sym_key = take 16 (drop 16 b), nonce = le_u32 (take 4 (drop 32 b))\<rparr>\<rparr>"

text \<open>\<^verbatim>\<open>nexus_nv_update\<close> of the block of slot \<open>i\<close>; a slot without a block is not written.\<close>

definition persist_link :: "'p channel_env \<Rightarrow> nat \<Rightarrow> 'p channel \<Rightarrow> 'p channel" where
  "persist_link e i s = (case nexus_channel_link_manager_index_to_nv_block i of
       None \<Rightarrow> s | Some m \<Rightarrow> nv_update e m (link_bytes (links (lm s) ! i)) s)"

section \<open>The code\<close>

definition lm_zero :: "nat \<Rightarrow> lm_this" where
  "lm_zero n = \<lparr>links = replicate n zero_link, pending_link_to_create = zero_link, link_count = 0,
     link_idx_in_use = replicate n False, link_idx_should_persist_nonce = replicate n False,
     pending_add_link = False, pending_clear_all_links = False\<rparr>"

definition bump_nonce :: "nexus_channel_link \<Rightarrow> nexus_channel_link" where
  "bump_nonce l = l\<lparr>security_data := (security_data l)\<lparr>nonce :=
     nonce (security_data l) + NONCE_NV_STORAGE_INTERVAL_COUNT\<rparr>\<rparr>"

text \<open>One round of the loop that loads the links.\<close>

definition lm_load_link :: "'p channel_env \<Rightarrow> 'p channel \<Rightarrow> nat \<Rightarrow> 'p channel" where
  "lm_load_link e s i =
     (case nexus_channel_link_manager_index_to_nv_block i of
        None \<Rightarrow> s
      | Some m \<Rightarrow>
          case nexus_nv_read (nx e) m (junk_bytes (nx e) 0 36) (cplat s) of
            (False, _) \<Rightarrow> s
          | (True, b) \<Rightarrow>
              let tmp_link = link_of_bytes b
              in if device_id (linked_device_id tmp_link) = 0 then s
                 else on_lm (\<lambda>m. m\<lparr>links := (links m)[i := bump_nonce tmp_link],
                   link_count := link_count m + 1,
                   link_idx_in_use := (link_idx_in_use m)[i := True],
                   link_idx_should_persist_nonce := (link_idx_should_persist_nonce m)[i := True]\<rparr>) s)"

definition lm_props :: nx_channel_resource_props where
  "lm_props = \<lparr>rp_uri = ''/l'', rp_if_masks = [OC_IF_RW_MASK, OC_IF_BASELINE_MASK], rp_get_handler = Some LM_SERVER_GET, rp_get_secured = False,
     rp_post_handler = None, rp_post_secured = False\<rparr>"

definition register_resource :: "nx_channel_resource_props \<Rightarrow> 'p channel \<Rightarrow> nx_channel_error \<times> 'p channel" where
  "register_resource props s = (case nx_channel_register_resource props (reg s) of (err, r) \<Rightarrow> (err, on_reg (\<lambda>_. r) s))"

definition nexus_channel_link_manager_init :: "'p channel_env \<Rightarrow> 'p channel \<Rightarrow> bool \<times> 'p channel" where
  "nexus_channel_link_manager_init e s =
     (let s = on_lm (\<lambda>_. lm_zero (MAX_SIMULTANEOUS_LINKS e)) s;
          s = foldl (lm_load_link e) s [0..<MAX_SIMULTANEOUS_LINKS e];
          (result, s) = register_resource lm_props s
      in (result = NX_CHANNEL_ERROR_NONE, s))"

definition nexus_channel_link_manager_clear_link_internal :: "'p channel_env \<Rightarrow> nat \<Rightarrow> 'p channel \<Rightarrow> 'p channel" where
  "nexus_channel_link_manager_clear_link_internal e link_id s =
     (if \<not> link_idx_in_use (lm s) ! link_id then s
      else
        let s = on_lm (\<lambda>m. m\<lparr>links := (links m)[link_id := zero_link],
                  link_idx_in_use := (link_idx_in_use m)[link_id := False]\<rparr>) s;
            s = persist_link e link_id s;
            s = on_lm (\<lambda>m. m\<lparr>link_count := link_count m - 1\<rparr>) s
        in notify_event e NXP_CHANNEL_EVENT_LINK_DELETED s)"

definition nexus_channel_link_manager_clear_links_internal :: "'p channel_env \<Rightarrow> 'p channel \<Rightarrow> 'p channel" where
  "nexus_channel_link_manager_clear_links_internal e s =
     foldl (\<lambda>s i. nexus_channel_link_manager_clear_link_internal e i s) s [0..<MAX_SIMULTANEOUS_LINKS e]"

text \<open>One round of the loop over the links in the process function.\<close>

definition lm_process_link :: "'p channel_env \<Rightarrow> u32 \<Rightarrow> 'p channel \<Rightarrow> nat \<Rightarrow> 'p channel" where
  "lm_process_link e seconds_elapsed s i =
     (if \<not> link_idx_in_use (lm s) ! i then s
      else
        let s = on_lm (\<lambda>m. m\<lparr>links := (links m)[i := (links m ! i)\<lparr>
                  seconds_since_init := seconds_since_init (links m ! i) + seconds_elapsed,
                  seconds_since_active := seconds_since_active (links m ! i) + seconds_elapsed\<rparr>]\<rparr>) s;
            cur_link = links (lm s) ! i
        in if seconds_since_active cur_link > NEXUS_CHANNEL_LINK_TIMEOUT_SECONDS
           then nexus_channel_link_manager_clear_link_internal e i s
           else if security_mode cur_link = LINK_SECURITY_MODE_KEY128SYM_COSE_MAC0_AUTH_SIPHASH24 \<and>
                   link_idx_should_persist_nonce (lm s) ! i
           then on_lm (\<lambda>m. m\<lparr>link_idx_should_persist_nonce := (link_idx_should_persist_nonce m)[i := False]\<rparr>)
                  (persist_link e i s)
           else s)"

text \<open>The pending link goes to the first free slot, if there is one.\<close>

definition lm_add_pending :: "'p channel_env \<Rightarrow> 'p channel \<Rightarrow> 'p channel" where
  "lm_add_pending e s =
     (case find (\<lambda>i. \<not> link_idx_in_use (lm s) ! i) [0..<MAX_SIMULTANEOUS_LINKS e] of
        None \<Rightarrow> s
      | Some i \<Rightarrow>
          let s = on_lm (\<lambda>m. m\<lparr>link_count := link_count m + 1,
                    link_idx_in_use := (link_idx_in_use m)[i := True],
                    links := (links m)[i := pending_link_to_create m]\<rparr>) s;
              s = persist_link e i s
          in notify_event e (if operating_mode (links (lm s) ! i) = CHANNEL_LINK_OPERATING_MODE_CONTROLLER
               then NXP_CHANNEL_EVENT_LINK_ESTABLISHED_AS_CONTROLLER
               else NXP_CHANNEL_EVENT_LINK_ESTABLISHED_AS_ACCESSORY) s)"

definition nexus_channel_link_manager_process :: "'p channel_env \<Rightarrow> u32 \<Rightarrow> 'p channel \<Rightarrow> u32 \<times> 'p channel" where
  "nexus_channel_link_manager_process e seconds_elapsed s =
     (let s = foldl (lm_process_link e seconds_elapsed) s [0..<MAX_SIMULTANEOUS_LINKS e];
          s = (if pending_add_link (lm s)
               then on_lm (\<lambda>m. m\<lparr>pending_link_to_create := zero_link, pending_add_link := False\<rparr>) (lm_add_pending e s)
               else if pending_clear_all_links (lm s)
               then on_lm (\<lambda>m. m\<lparr>pending_clear_all_links := False\<rparr>) (nexus_channel_link_manager_clear_links_internal e s)
               else s)
      in (NEXUS_COMMON_IDLE_SECONDS, s))"

definition nexus_channel_link_manager_link_index_from_nxid :: "'p channel_env \<Rightarrow> nx_id \<Rightarrow> lm_this \<Rightarrow> nat option" where
  "nexus_channel_link_manager_link_index_from_nxid e ident m =
     find (\<lambda>i. link_idx_in_use m ! i \<and> device_id (linked_device_id (links m ! i)) = device_id ident \<and>
            authority_id (linked_device_id (links m ! i)) = authority_id ident) [0..<MAX_SIMULTANEOUS_LINKS e]"

definition nexus_channel_link_manager_link_from_nxid :: "'p channel_env \<Rightarrow> nx_id \<Rightarrow> lm_this \<Rightarrow> nexus_channel_link option" where
  "nexus_channel_link_manager_link_from_nxid e ident m =
     map_option (\<lambda>i. links m ! i) (nexus_channel_link_manager_link_index_from_nxid e ident m)"

text \<open>The slot of the oldest link as an accessory; of equally old ones the last.\<close>

definition oldest_step :: "lm_this \<Rightarrow> nat option \<times> u32 \<Rightarrow> nat \<Rightarrow> nat option \<times> u32" where
  "oldest_step m = (\<lambda>(oldest_idx, oldest_secs_since_init) i.
     if operating_mode (links m ! i) \<noteq> CHANNEL_LINK_OPERATING_MODE_ACCESSORY then (oldest_idx, oldest_secs_since_init)
     else if link_idx_in_use m ! i \<and> seconds_since_init (links m ! i) \<ge> oldest_secs_since_init
     then (Some i, seconds_since_init (links m ! i))
     else (oldest_idx, oldest_secs_since_init))"

definition nexus_channel_link_manager_oldest_accessory_link_idx :: "'p channel_env \<Rightarrow> lm_this \<Rightarrow> nat option" where
  "nexus_channel_link_manager_oldest_accessory_link_idx e m =
     fst (foldl (oldest_step m) (None, 0) [0..<MAX_SIMULTANEOUS_LINKS e])"

definition nexus_channel_link_manager_clear_all_links :: "'p channel_env \<Rightarrow> 'p channel \<Rightarrow> 'p channel" where
  "nexus_channel_link_manager_clear_all_links e s =
     request_processing e (on_lm (\<lambda>m. m\<lparr>pending_clear_all_links := True\<rparr>) s)"

text \<open>Makes room for a new link: \<open>None\<close> is the early return of \<^verbatim>\<open>false\<close>.\<close>

definition lm_make_room :: "'p channel_env \<Rightarrow> nx_id \<Rightarrow> u8 \<Rightarrow> 'p channel \<Rightarrow> 'p channel option" where
  "lm_make_room e ident mode s =
     (case nexus_channel_link_manager_link_index_from_nxid e ident (lm s) of
        Some i \<Rightarrow> Some (nexus_channel_link_manager_clear_link_internal e i s)
      | None \<Rightarrow>
          if unat (link_count (lm s)) = MAX_SIMULTANEOUS_LINKS e then
            if mode \<noteq> CHANNEL_LINK_OPERATING_MODE_ACCESSORY then None
            else map_option (\<lambda>i. nexus_channel_link_manager_clear_link_internal e i s)
                   (nexus_channel_link_manager_oldest_accessory_link_idx e (lm s))
          else Some s)"

definition nexus_channel_link_manager_create_link ::
    "'p channel_env \<Rightarrow> nx_id \<Rightarrow> u8 \<Rightarrow> u8 \<Rightarrow> security_mode0_data \<Rightarrow> 'p channel \<Rightarrow> bool \<times> 'p channel" where
  "nexus_channel_link_manager_create_link e ident op_mode sec_mode sec_data s =
     (if pending_add_link (lm s) then (False, s)
      else case lm_make_room e ident op_mode s of
          None \<Rightarrow> (False, s)
        | Some s \<Rightarrow>
            let s = on_lm (\<lambda>m. m\<lparr>pending_add_link := True,
                  pending_link_to_create := zero_link\<lparr>operating_mode := op_mode, security_mode := sec_mode,
                    linked_device_id := ident, security_data := sec_data\<rparr>\<rparr>) s
            in (True, request_processing e s))"

definition nexus_channel_link_manager_has_link_with_role :: "'p channel_env \<Rightarrow> u8 \<Rightarrow> lm_this \<Rightarrow> nx_id option" where
  "nexus_channel_link_manager_has_link_with_role e mode m =
     map_option (\<lambda>i. linked_device_id (links m ! i))
       (find (\<lambda>i. link_idx_in_use m ! i \<and> operating_mode (links m ! i) = mode) [0..<MAX_SIMULTANEOUS_LINKS e])"

definition nexus_channel_link_manager_has_linked_controller :: "'p channel_env \<Rightarrow> lm_this \<Rightarrow> nx_id option" where
  "nexus_channel_link_manager_has_linked_controller e m =
     nexus_channel_link_manager_has_link_with_role e CHANNEL_LINK_OPERATING_MODE_ACCESSORY m"

definition nexus_channel_link_manager_has_linked_accessory :: "'p channel_env \<Rightarrow> lm_this \<Rightarrow> bool" where
  "nexus_channel_link_manager_has_linked_accessory e m =
     (nexus_channel_link_manager_has_link_with_role e CHANNEL_LINK_OPERATING_MODE_CONTROLLER m \<noteq> None)"

definition nexus_channel_link_manager_operating_mode :: "'p channel_env \<Rightarrow> lm_this \<Rightarrow> u8" where
  "nexus_channel_link_manager_operating_mode e m =
     (if SUPPORT_CONTROLLER_MODE e \<and> \<not> SUPPORT_ACCESSORY_MODE e then CHANNEL_LINK_OPERATING_MODE_CONTROLLER
      else if \<not> SUPPORT_CONTROLLER_MODE e \<and> SUPPORT_ACCESSORY_MODE e then CHANNEL_LINK_OPERATING_MODE_ACCESSORY
      else
        let is_accessory = nexus_channel_link_manager_has_linked_controller e m \<noteq> None;
            is_controller = nexus_channel_link_manager_has_linked_accessory e m
        in if is_controller \<and> is_accessory then CHANNEL_LINK_OPERATING_MODE_DUAL_MODE_ACTIVE
           else if is_controller \<and> \<not> is_accessory then CHANNEL_LINK_OPERATING_MODE_CONTROLLER
           else if \<not> is_controller \<and> is_accessory then CHANNEL_LINK_OPERATING_MODE_ACCESSORY
           else CHANNEL_LINK_OPERATING_MODE_DUAL_MODE_IDLE)"

definition nexus_channel_link_manager_security_data_from_nxid ::
    "'p channel_env \<Rightarrow> nx_id \<Rightarrow> lm_this \<Rightarrow> security_mode0_data option" where
  "nexus_channel_link_manager_security_data_from_nxid e ident m =
     map_option security_data (nexus_channel_link_manager_link_from_nxid e ident m)"

text \<open>
  The loop over \<^verbatim>\<open>i = old_nonce + 1 .. new_nonce\<close>: whether it meets a multiple of 64. Every 64th
  number is one, also across the wrap to 0, so 64 rounds are enough (\<open>nonce_interval_loop_iff\<close>).
\<close>

fun nonce_interval_loop :: "nat \<Rightarrow> u32 \<Rightarrow> u32 \<Rightarrow> bool" where
  "nonce_interval_loop 0 i new_nonce = False"
| "nonce_interval_loop (Suc n) i new_nonce =
     (if i \<le> new_nonce
      then if i mod NONCE_NV_STORAGE_INTERVAL_COUNT = 0 then True else nonce_interval_loop n (i + 1) new_nonce
      else False)"

definition nonce_must_persist :: "u32 \<Rightarrow> u32 \<Rightarrow> bool" where
  "nonce_must_persist old_nonce new_nonce =
     (if new_nonce = 0 then True
      else if new_nonce > old_nonce \<and> old_nonce > 0 then nonce_interval_loop 64 (old_nonce + 1) new_nonce
      else False)"

definition nexus_channel_link_manager_set_security_data_auth_nonce ::
    "'p channel_env \<Rightarrow> nx_id \<Rightarrow> u32 \<Rightarrow> 'p channel \<Rightarrow> bool \<times> 'p channel" where
  "nexus_channel_link_manager_set_security_data_auth_nonce e ident new_nonce s =
     (case nexus_channel_link_manager_link_index_from_nxid e ident (lm s) of
        None \<Rightarrow> (False, s)
      | Some i \<Rightarrow>
          let found_link = links (lm s) ! i
          in if security_mode found_link \<noteq> LINK_SECURITY_MODE_KEY128SYM_COSE_MAC0_AUTH_SIPHASH24 then (False, s)
             else
               let old_nonce = nonce (security_data found_link);
                   s = on_lm (\<lambda>m. m\<lparr>
                     link_idx_should_persist_nonce := (if nonce_must_persist old_nonce new_nonce
                       then (link_idx_should_persist_nonce m)[i := True] else link_idx_should_persist_nonce m),
                     links := (links m)[i := found_link\<lparr>security_data :=
                       (security_data found_link)\<lparr>nonce := new_nonce\<rparr>\<rparr>]\<rparr>) s
               in (True, s))"

definition nexus_channel_link_manager_reset_link_secs_since_active ::
    "'p channel_env \<Rightarrow> nx_id \<Rightarrow> 'p channel \<Rightarrow> bool \<times> 'p channel" where
  "nexus_channel_link_manager_reset_link_secs_since_active e ident s =
     (case nexus_channel_link_manager_link_index_from_nxid e ident (lm s) of
        None \<Rightarrow> (False, s)
      | Some i \<Rightarrow> (True, on_lm (\<lambda>m. m\<lparr>links := (links m)[i := (links m ! i)\<lparr>seconds_since_active := 0\<rparr>]\<rparr>) s))"

definition nx_channel_link_count :: "'p channel \<Rightarrow> u8" where
  "nx_channel_link_count s = link_count (lm s)"

definition nexus_channel_link_manager_accessory_link_count :: "'p channel_env \<Rightarrow> lm_this \<Rightarrow> u8" where
  "nexus_channel_link_manager_accessory_link_count e m =
     foldl (\<lambda>acc_count i. if link_idx_in_use m ! i \<and>
         operating_mode (links m ! i) = CHANNEL_LINK_OPERATING_MODE_CONTROLLER then acc_count + 1 else acc_count)
       0 [0..<MAX_SIMULTANEOUS_LINKS e]"

definition accessory_slot :: "lm_this \<Rightarrow> nat \<Rightarrow> bool" where
  "accessory_slot m i = (link_idx_in_use m ! i \<and> operating_mode (links m ! i) \<noteq> CHANNEL_LINK_OPERATING_MODE_ACCESSORY)"

text \<open>
  The next linked accessory after \<open>previous_id\<close> (\<^verbatim>\<open>NULL\<close> is \<open>None\<close>), in the order of the slots,
  around the end of the table.
\<close>

definition nexus_channel_link_manager_next_linked_accessory ::
    "'p channel_env \<Rightarrow> nx_id option \<Rightarrow> lm_this \<Rightarrow> nx_id option" where
  "nexus_channel_link_manager_next_linked_accessory e previous_id m =
     (let accessory_link_count = nexus_channel_link_manager_accessory_link_count e m;
          n = MAX_SIMULTANEOUS_LINKS e
      in if previous_id = None \<or> accessory_link_count = 1
         then map_option (\<lambda>i. linked_device_id (links m ! i)) (find (accessory_slot m) [0..<n])
         else case nexus_channel_link_manager_link_index_from_nxid e (the previous_id) m of
             None \<Rightarrow> None
           | Some prev_id_link_idx \<Rightarrow>
               map_option (\<lambda>i. linked_device_id (links m ! (i mod n)))
                 (find (\<lambda>i. accessory_slot m (i mod n)) [prev_id_link_idx + 1..<prev_id_link_idx + n]))"

text \<open>What a GET on the link resource reports; identities are sent in network order.\<close>

definition linked_nexus_id_transmit :: "nx_id \<Rightarrow> bytes" where
  "linked_nexus_id_transmit i =
     u16_le (nexus_endian_htobe16 (authority_id i)) @ u32_le (nexus_endian_htobe32 (device_id i))"

definition link_rep :: "nexus_channel_link \<Rightarrow> oc_rep" where
  "link_rep l = [(''lD'', OC_REP_BYTE_STRING (linked_nexus_id_transmit (linked_device_id l))),
     (''oM'', OC_REP_INT (uint (operating_mode l))), (''sM'', OC_REP_INT (uint (security_mode l))),
     (''tI'', OC_REP_INT (uint (seconds_since_init l))), (''tA'', OC_REP_INT (uint (seconds_since_active l))),
     (''tT'', OC_REP_INT (uint NEXUS_CHANNEL_LINK_TIMEOUT_SECONDS))]"

definition nexus_channel_res_link_server_get_populate_links :: "'p channel_env \<Rightarrow> lm_this \<Rightarrow> oc_rep" where
  "nexus_channel_res_link_server_get_populate_links e m =
     [(''reps'', OC_REP_OBJECT_ARRAY
        (map (\<lambda>i. link_rep (links m ! i)) (filter (\<lambda>i. link_idx_in_use m ! i) [0..<MAX_SIMULTANEOUS_LINKS e])))]"

datatype oc_interface_mask = OC_IF_BASELINE | OC_IF_RW | OC_IF_OTHER

definition nexus_channel_res_lm_server_get :: "'p channel_env \<Rightarrow> oc_interface_mask \<Rightarrow> 'p channel \<Rightarrow> 'p channel" where
  "nexus_channel_res_lm_server_get e if_mask s =
     (let base = (if if_mask = OC_IF_BASELINE then oc_baseline_interface e LM_SERVER_GET else [])
      in oc_send_response OC_STATUS_OK
           (base @ nexus_channel_res_link_server_get_populate_links e (lm s)) s)"

definition nx_channel_accessory_delete_all_links :: "'p channel_env \<Rightarrow> 'p channel \<Rightarrow> nx_channel_error \<times> 'p channel" where
  "nx_channel_accessory_delete_all_links e s =
     (if nexus_channel_link_manager_operating_mode e (lm s) \<noteq> CHANNEL_LINK_OPERATING_MODE_ACCESSORY
      then (NX_CHANNEL_ERROR_ACTION_REJECTED, s)
      else (NX_CHANNEL_ERROR_NONE, nexus_channel_link_manager_clear_all_links e s))"

section \<open>The table of links\<close>

text \<open>Slots in use, the links in them and the links' identities.\<close>

definition used :: "lm_this \<Rightarrow> nat set" where
  "used m = {i. i < length (link_idx_in_use m) \<and> link_idx_in_use m ! i}"

definition slot_id :: "lm_this \<Rightarrow> nat \<Rightarrow> nx_id" where
  "slot_id m i = linked_device_id (links m ! i)"

text \<open>
  The table's invariant: the arrays have the configured size, the count is that of the slots in use,
  free slots are cleared, keys have 16 bytes, no device has two links, and a link that waits to be
  added is of a device without a link and has a slot to go to.
\<close>

definition lm_inv :: "nat \<Rightarrow> lm_this \<Rightarrow> bool" where
  "lm_inv n m \<longleftrightarrow> n \<le> 10 \<and> length (links m) = n \<and> length (link_idx_in_use m) = n \<and>
     length (link_idx_should_persist_nonce m) = n \<and> unat (link_count m) = card (used m) \<and>
     (\<forall>i < n. i \<notin> used m \<longrightarrow> links m ! i = zero_link) \<and>
     (\<forall>i < n. length (sym_key (security_data (links m ! i))) = 16) \<and>
     length (sym_key (security_data (pending_link_to_create m))) = 16 \<and>
     inj_on (slot_id m) (used m) \<and>
     (pending_add_link m \<longrightarrow> card (used m) < n \<and>
        linked_device_id (pending_link_to_create m) \<notin> slot_id m ` used m)"

lemma lm_invD:
  assumes "lm_inv n m"
  shows "n \<le> 10" "length (links m) = n" "length (link_idx_in_use m) = n" "length (link_idx_should_persist_nonce m) = n"
    "unat (link_count m) = card (used m)" "inj_on (slot_id m) (used m)"
    "length (sym_key (security_data (pending_link_to_create m))) = 16"
    "i < n \<Longrightarrow> i \<notin> used m \<Longrightarrow> links m ! i = zero_link"
    "i < n \<Longrightarrow> length (sym_key (security_data (links m ! i))) = 16"
    "pending_add_link m \<Longrightarrow> card (used m) < n"
    "pending_add_link m \<Longrightarrow> linked_device_id (pending_link_to_create m) \<notin> slot_id m ` used m"
  using assms by (auto simp: lm_inv_def)

lemma finite_used [simp]: "finite (used m)"
  by (simp add: used_def)

lemma used_less: "i \<in> used m \<Longrightarrow> i < length (link_idx_in_use m)"
  by (simp add: used_def)

lemma used_bound: "card (used m) \<le> length (link_idx_in_use m)"
proof -
  have "used m \<subseteq> {0..<length (link_idx_in_use m)}" by (auto simp: used_def)
  from card_mono [OF _ this] show ?thesis by simp
qed

lemma table_views [simp]:
  "used (m\<lparr>link_idx_should_persist_nonce := f\<rparr>) = used m" "used (m\<lparr>links := ls\<rparr>) = used m"
  "used (m\<lparr>pending_clear_all_links := b\<rparr>) = used m" "used (m\<lparr>pending_add_link := b\<rparr>) = used m"
  "used (m\<lparr>pending_link_to_create := l\<rparr>) = used m"
  "slot_id (m\<lparr>link_idx_should_persist_nonce := f\<rparr>) = slot_id m"
  "slot_id (m\<lparr>pending_clear_all_links := b\<rparr>) = slot_id m" "slot_id (m\<lparr>pending_add_link := b\<rparr>) = slot_id m"
  "slot_id (m\<lparr>pending_link_to_create := l\<rparr>) = slot_id m"
  by (simp_all add: used_def slot_id_def fun_eq_iff)

lemma in_use_iff: "i < length (link_idx_in_use m) \<Longrightarrow> link_idx_in_use m ! i \<longleftrightarrow> i \<in> used m"
  by (simp add: used_def)

lemma find_slot_None: "find P [0..<n] = None \<longleftrightarrow> (\<forall>i < n. \<not> P i)"
  by (auto simp: find_None_iff)

lemma find_slot_Some: "find P [0..<n] = Some i \<Longrightarrow> i < n \<and> P i"
  by (auto simp: find_Some_iff)

text \<open>The changes of the table that the operations make.\<close>

definition lm_clear :: "nat \<Rightarrow> lm_this \<Rightarrow> lm_this" where
  "lm_clear i m = (if link_idx_in_use m ! i
     then m\<lparr>links := (links m)[i := zero_link], link_idx_in_use := (link_idx_in_use m)[i := False],
       link_count := link_count m - 1\<rparr> else m)"

definition lm_put :: "nat \<Rightarrow> nexus_channel_link \<Rightarrow> lm_this \<Rightarrow> lm_this" where
  "lm_put i l m = m\<lparr>link_count := link_count m + 1, link_idx_in_use := (link_idx_in_use m)[i := True],
     links := (links m)[i := l]\<rparr>"

definition lm_alter :: "nat \<Rightarrow> nexus_channel_link \<Rightarrow> lm_this \<Rightarrow> lm_this" where
  "lm_alter i l m = m\<lparr>links := (links m)[i := l]\<rparr>"

lemma lm_persist_link [simp]: "lm (persist_link e i s) = lm s"
  by (simp add: persist_link_def split: option.splits)

lemma lm_clear_link_internal [simp]: "lm (nexus_channel_link_manager_clear_link_internal e i s) = lm_clear i (lm s)"
  by (simp add: nexus_channel_link_manager_clear_link_internal_def lm_clear_def Let_def)

lemma used_clear:
  assumes "i \<in> used m"
  shows "used (lm_clear i m) = used m - {i}" "card (used (lm_clear i m)) = card (used m) - 1" "0 < card (used m)"
proof -
  show u: "used (lm_clear i m) = used m - {i}" using assms by (auto simp: used_def lm_clear_def nth_list_update)
  show "card (used (lm_clear i m)) = card (used m) - 1" using assms by (simp add: u)
  show "0 < card (used m)" using assms by (auto simp: card_gt_0_iff)
qed

lemma lm_inv_clear:
  assumes inv: "lm_inv n m" and "i < n"
  shows "lm_inv n (lm_clear i m)"
proof (cases "link_idx_in_use m ! i")
  case True
  note d = lm_invD [OF inv]
  have i: "i \<in> used m" using True d(3) assms(2) by (simp add: used_def)
  note u = used_clear [OF i]
  have pos: "unat (link_count m) \<noteq> 0" using d(5) u(3) by linarith
  then have c: "unat (link_count m - 1) = card (used m) - 1"
    using d(5) unat_minus_one [of "link_count m"] by (metis unat_0)
  have sl: "slot_id (lm_clear i m) j = slot_id m j" if "j \<noteq> i" for j
    using that by (simp add: slot_id_def lm_clear_def)
  have im: "slot_id (lm_clear i m) ` (used m - {i}) \<subseteq> slot_id m ` used m" using sl by (auto simp: image_def)
  have inj: "inj_on (slot_id (lm_clear i m)) (used m - {i})"
    using d(6) sl by (auto simp: inj_on_def)
  have lnk: "links (lm_clear i m) ! j = (if j = i then zero_link else links m ! j)" if "j < n" for j
    using that True d(2) assms(2) by (simp add: lm_clear_def)
  have fields: "length (links (lm_clear i m)) = n" "length (link_idx_in_use (lm_clear i m)) = n"
    "length (link_idx_should_persist_nonce (lm_clear i m)) = n"
    "unat (link_count (lm_clear i m)) = card (used m) - 1"
    "pending_link_to_create (lm_clear i m) = pending_link_to_create m" "pending_add_link (lm_clear i m) = pending_add_link m"
    using True d c by (simp_all add: lm_clear_def)
  have k: "card (used m - {i}) = card (used m) - 1" using u(2) unfolding u(1) .
  have z: "length (sym_key (security_data zero_link)) = 16" by (simp add: zero_link_def)
  have p: "pending_add_link m \<Longrightarrow> card (used m) - 1 < n" using d(10) by simp
  show ?thesis
    unfolding lm_inv_def fields u(1) k using d inj im lnk p z by auto
qed (simp add: inv lm_clear_def)

text \<open>A link put into a free slot.\<close>

lemma used_put:
  assumes "i < length (link_idx_in_use m)" "i \<notin> used m"
  shows "used (lm_put i l m) = insert i (used m)" "card (used (lm_put i l m)) = Suc (card (used m))"
proof -
  show u: "used (lm_put i l m) = insert i (used m)" using assms by (auto simp: used_def lm_put_def nth_list_update)
  show "card (used (lm_put i l m)) = Suc (card (used m))" using assms by (simp add: u)
qed

lemma lm_inv_put:
  assumes inv: "lm_inv n m" and "i < n" "i \<notin> used m" and "\<not> pending_add_link m"
    and "length (sym_key (security_data l)) = 16" and "linked_device_id l \<notin> slot_id m ` used m"
  shows "lm_inv n (lm_put i l m)"
proof -
  note d = lm_invD [OF inv]
  have i: "i < length (link_idx_in_use m)" using d(3) assms(2) by simp
  note u = used_put [OF i assms(3)]
  have "card (used m) < 10" using u(2) used_bound [of "lm_put i l m"] d(1,3) by (simp add: lm_put_def)
  then have c: "unat (link_count m + 1) = Suc (card (used m))" using d(5) by (simp add: unat_add_1)
  have lnk: "links (lm_put i l m) ! j = (if j = i then l else links m ! j)" if "j < n" for j
    using that d(2) assms(2) by (simp add: lm_put_def)
  have sl: "slot_id (lm_put i l m) j = slot_id m j" if "j \<noteq> i" for j
    using that by (simp add: slot_id_def lm_put_def)
  have si: "slot_id (lm_put i l m) i = linked_device_id l" using lnk [OF assms(2)] by (simp add: slot_id_def)
  have "inj_on (slot_id (lm_put i l m)) (insert i (used m))"
    using d(6) sl si assms(3,6) by (auto simp: inj_on_def) (metis imageI)+
  moreover have "length (links (lm_put i l m)) = n" "length (link_idx_in_use (lm_put i l m)) = n"
    "length (link_idx_should_persist_nonce (lm_put i l m)) = n" "link_count (lm_put i l m) = link_count m + 1"
    "pending_link_to_create (lm_put i l m) = pending_link_to_create m" "pending_add_link (lm_put i l m) = pending_add_link m"
    using d by (simp_all add: lm_put_def)
  ultimately show ?thesis using d lnk c assms(4,5) u(2) by (auto simp: lm_inv_def u(1))
qed

text \<open>A link in use changed without changing its identity or its key.\<close>

lemma lm_inv_alter:
  assumes inv: "lm_inv n m" and "i \<in> used m"
    and "linked_device_id l = linked_device_id (links m ! i)" "length (sym_key (security_data l)) = 16"
  shows "lm_inv n (lm_alter i l m)"
proof -
  note d = lm_invD [OF inv]
  have i: "i < n" using used_less [OF assms(2)] d(3) by simp
  have u: "used (lm_alter i l m) = used m" by (simp add: used_def lm_alter_def)
  have sl: "slot_id (lm_alter i l m) = slot_id m"
  proof
    fix j show "slot_id (lm_alter i l m) j = slot_id m j"
      using assms(3) i d(2) by (cases "j = i") (simp_all add: slot_id_def lm_alter_def)
  qed
  have lnk: "links (lm_alter i l m) ! j = (if j = i then l else links m ! j)" if "j < n" for j
    using that d(2) i by (simp add: lm_alter_def)
  have "length (links (lm_alter i l m)) = n" "link_idx_in_use (lm_alter i l m) = link_idx_in_use m"
    "link_idx_should_persist_nonce (lm_alter i l m) = link_idx_should_persist_nonce m"
    "link_count (lm_alter i l m) = link_count m" "pending_link_to_create (lm_alter i l m) = pending_link_to_create m"
    "pending_add_link (lm_alter i l m) = pending_add_link m"
    using d by (simp_all add: lm_alter_def)
  then show ?thesis unfolding lm_inv_def u sl using d lnk assms(2,4) by auto
qed

lemma lm_inv_flags:
  "lm_inv n m \<Longrightarrow> length f = n \<Longrightarrow> lm_inv n (m\<lparr>link_idx_should_persist_nonce := f\<rparr>)"
  by (simp add: lm_inv_def)

lemma lm_inv_pending_clear: "lm_inv n (m\<lparr>pending_clear_all_links := b\<rparr>) = lm_inv n m"
  by (simp add: lm_inv_def)

lemma lm_inv_no_pending: "lm_inv n m \<Longrightarrow> lm_inv n (m\<lparr>pending_link_to_create := zero_link, pending_add_link := False\<rparr>)"
  by (simp add: lm_inv_def zero_link_def)

section \<open>Operations keep the table's invariant\<close>

lemma foldl_inv: "(\<And>s i. i \<in> set xs \<Longrightarrow> P s \<Longrightarrow> P (f s i)) \<Longrightarrow> P s \<Longrightarrow> P (foldl f s xs)"
  by (induction xs arbitrary: s) auto

lemma index_from_nxid_Some:
  assumes "lm_inv (MAX_SIMULTANEOUS_LINKS e) m"
    "nexus_channel_link_manager_link_index_from_nxid e ident m = Some i"
  shows "i \<in> used m" "slot_id m i = ident" "i < MAX_SIMULTANEOUS_LINKS e"
  using find_slot_Some [OF assms(2) [unfolded nexus_channel_link_manager_link_index_from_nxid_def]] lm_invD(3) [OF assms(1)]
  by (simp_all add: used_def slot_id_def)

lemma index_from_nxid_None:
  assumes "lm_inv (MAX_SIMULTANEOUS_LINKS e) m"
    "nexus_channel_link_manager_link_index_from_nxid e ident m = None"
  shows "ident \<notin> slot_id m ` used m"
  using assms(2) lm_invD(3) [OF assms(1)]
  by (auto simp: nexus_channel_link_manager_link_index_from_nxid_def find_slot_None used_def slot_id_def)

lemma index_from_nxid_iff:
  assumes "lm_inv (MAX_SIMULTANEOUS_LINKS e) m"
  shows "nexus_channel_link_manager_link_index_from_nxid e ident m = Some i \<longleftrightarrow> i \<in> used m \<and> slot_id m i = ident"
proof
  assume r: "i \<in> used m \<and> slot_id m i = ident"
  show "nexus_channel_link_manager_link_index_from_nxid e ident m = Some i"
  proof (cases "nexus_channel_link_manager_link_index_from_nxid e ident m")
    case None
    from index_from_nxid_None [OF assms this] r show ?thesis by auto
  next
    case (Some j)
    from index_from_nxid_Some [OF assms this] r lm_invD(6) [OF assms] have "j = i" by (auto dest: inj_onD)
    with Some show ?thesis by simp
  qed
qed (use index_from_nxid_Some [OF assms] in blast)

lemma lm_inv_process_link:
  assumes inv: "lm_inv n (lm s)" and i: "i < n"
  shows "lm_inv n (lm (lm_process_link e secs s i))"
proof (cases "link_idx_in_use (lm s) ! i")
  case True
  let ?l = "(links (lm s) ! i)\<lparr>seconds_since_init := seconds_since_init (links (lm s) ! i) + secs,
       seconds_since_active := seconds_since_active (links (lm s) ! i) + secs\<rparr>"
  note d = lm_invD [OF inv]
  have u: "i \<in> used (lm s)" using True i d(3) by (simp add: used_def)
  have a: "lm_inv n (lm_alter i ?l (lm s))"
    by (rule lm_inv_alter [OF inv u]) (use d(9) [OF i] in simp_all)
  have "lm (lm_process_link e secs s i) = lm_clear i (lm_alter i ?l (lm s)) \<or>
      lm (lm_process_link e secs s i) = lm_alter i ?l (lm s) \<or>
      lm (lm_process_link e secs s i) = (lm_alter i ?l (lm s))\<lparr>link_idx_should_persist_nonce :=
        (link_idx_should_persist_nonce (lm_alter i ?l (lm s)))[i := False]\<rparr>"
    using True by (simp add: lm_process_link_def Let_def lm_alter_def)
  moreover have "length ((link_idx_should_persist_nonce (lm_alter i ?l (lm s)))[i := False]) = n"
    using lm_invD(4) [OF a] by simp
  ultimately show ?thesis using a lm_inv_clear [OF a i] lm_inv_flags [OF a] by metis
qed (simp add: lm_process_link_def inv)

lemma lm_inv_clear_links_internal:
  "lm_inv (MAX_SIMULTANEOUS_LINKS e) (lm s) \<Longrightarrow> lm_inv (MAX_SIMULTANEOUS_LINKS e) (lm (nexus_channel_link_manager_clear_links_internal e s))"
  unfolding nexus_channel_link_manager_clear_links_internal_def
  by (rule foldl_inv) (auto intro: lm_inv_clear)

text \<open>The link that waits is put into the first free slot; there is one.\<close>

lemma lm_add_pending_put:
  assumes inv: "lm_inv (MAX_SIMULTANEOUS_LINKS e) (lm s)" and p: "pending_add_link (lm s)"
  obtains i where "i < MAX_SIMULTANEOUS_LINKS e" "i \<notin> used (lm s)"
    "lm (lm_add_pending e s) = lm_put i (pending_link_to_create (lm s)) (lm s)"
proof -
  let ?n = "MAX_SIMULTANEOUS_LINKS e"
  note d = lm_invD [OF inv]
  have "\<exists>i<?n. i \<notin> used (lm s)"
  proof (rule ccontr)
    assume "\<not> (\<exists>i<?n. i \<notin> used (lm s))"
    then have "{0..<?n} \<subseteq> used (lm s)" by auto
    from card_mono [OF finite_used this] d(10) [OF p] show False by simp
  qed
  then obtain i where i: "find (\<lambda>i. \<not> link_idx_in_use (lm s) ! i) [0..<?n] = Some i"
    using d(3) by (cases "find (\<lambda>i. \<not> link_idx_in_use (lm s) ! i) [0..<?n]") (auto simp: find_slot_None used_def)
  from find_slot_Some [OF i] d(3) have "i < ?n" "i \<notin> used (lm s)" by (simp_all add: used_def)
  moreover have "lm (lm_add_pending e s) = lm_put i (pending_link_to_create (lm s)) (lm s)"
    by (simp add: lm_add_pending_def i Let_def lm_put_def)
  ultimately show ?thesis by (rule that)
qed

lemma lm_put_pending:
  "(lm_put i l m)\<lparr>pending_link_to_create := p, pending_add_link := b\<rparr> =
   lm_put i l (m\<lparr>pending_link_to_create := p, pending_add_link := b\<rparr>)"
  by (cases m) (simp add: lm_put_def)

lemma lm_inv_process:
  assumes inv: "lm_inv (MAX_SIMULTANEOUS_LINKS e) (lm s)"
  shows "lm_inv (MAX_SIMULTANEOUS_LINKS e) (lm (snd (nexus_channel_link_manager_process e secs s)))"
proof -
  let ?n = "MAX_SIMULTANEOUS_LINKS e"
  let ?t = "foldl (lm_process_link e secs) s [0..<?n]"
  have t: "lm_inv ?n (lm ?t)" by (rule foldl_inv) (auto intro: lm_inv_process_link inv)
  show ?thesis
  proof (cases "pending_add_link (lm ?t)")
    case True
    obtain i where i: "i < ?n" "i \<notin> used (lm ?t)"
        "lm (lm_add_pending e ?t) = lm_put i (pending_link_to_create (lm ?t)) (lm ?t)"
      by (rule lm_add_pending_put [OF t True])
    let ?m = "(lm ?t)\<lparr>pending_link_to_create := zero_link, pending_add_link := False\<rparr>"
    have "lm_inv ?n (lm_put i (pending_link_to_create (lm ?t)) ?m)"
      by (rule lm_inv_put [OF lm_inv_no_pending [OF t]])
        (use i(1,2) lm_invD(7,11) [OF t] True in \<open>simp_all\<close>)
    then show ?thesis using True i(3) by (simp add: nexus_channel_link_manager_process_def Let_def lm_put_pending)
  next
    case False
    then show ?thesis
      using t lm_inv_clear_links_internal [OF t]
      by (simp add: nexus_channel_link_manager_process_def Let_def lm_inv_pending_clear)
  qed
qed

lemma oldest_accessory_Some:
  assumes "nexus_channel_link_manager_oldest_accessory_link_idx e m = Some i"
  shows "i < MAX_SIMULTANEOUS_LINKS e \<and> link_idx_in_use m ! i \<and> operating_mode (links m ! i) = 0"
proof -
  have "(\<forall>i. fst (foldl (oldest_step m) (None, 0) [0..<n]) = Some i \<longrightarrow>
      i < n \<and> link_idx_in_use m ! i \<and> operating_mode (links m ! i) = 0)" for n
    by (induction n) (auto simp: oldest_step_def case_prod_beta less_Suc_eq)
  then show ?thesis using assms by (simp add: nexus_channel_link_manager_oldest_accessory_link_idx_def)
qed

lemma lm_make_room_inv:
  assumes inv: "lm_inv (MAX_SIMULTANEOUS_LINKS e) (lm s)" and np: "\<not> pending_add_link (lm s)"
    and r: "lm_make_room e ident mode s = Some t"
  shows "lm_inv (MAX_SIMULTANEOUS_LINKS e) (lm t) \<and> card (used (lm t)) < MAX_SIMULTANEOUS_LINKS e \<and>
    ident \<notin> slot_id (lm t) ` used (lm t) \<and> \<not> pending_add_link (lm t)"
proof -
  let ?n = "MAX_SIMULTANEOUS_LINKS e"
  note d = lm_invD [OF inv]
  have le: "card (used (lm s)) \<le> ?n" using used_bound [of "lm s"] d(3) by simp
  have clr: "lm_inv ?n (lm_clear i (lm s)) \<and> card (used (lm_clear i (lm s))) < ?n \<and>
      \<not> pending_add_link (lm_clear i (lm s)) \<and>
      slot_id (lm_clear i (lm s)) ` used (lm_clear i (lm s)) = slot_id (lm s) ` (used (lm s) - {i})"
    if "i \<in> used (lm s)" for i
  proof -
    have "i < ?n" using used_less [OF that] d(3) by simp
    moreover have "slot_id (lm_clear i (lm s)) ` (used (lm s) - {i}) = slot_id (lm s) ` (used (lm s) - {i})"
      by (rule image_cong) (auto simp: slot_id_def lm_clear_def)
    ultimately show ?thesis
      using lm_inv_clear [OF inv] used_clear [OF that] le np by (auto simp: lm_clear_def)
  qed
  show ?thesis
  proof (cases "nexus_channel_link_manager_link_index_from_nxid e ident (lm s)")
    case (Some i)
    note i = index_from_nxid_Some [OF inv Some]
    have "ident \<notin> slot_id (lm s) ` (used (lm s) - {i})"
      using i d(6) by (auto simp: inj_on_def)
    then show ?thesis using r Some clr [OF i(1)] by (simp add: lm_make_room_def) auto
  next
    case None
    note nid = index_from_nxid_None [OF inv None]
    show ?thesis
    proof (cases "unat (link_count (lm s)) = ?n")
      case True
      then obtain i where i: "nexus_channel_link_manager_oldest_accessory_link_idx e (lm s) = Some i"
          "t = nexus_channel_link_manager_clear_link_internal e i s"
        using r None by (auto simp: lm_make_room_def split: if_splits)
      have "i \<in> used (lm s)" using oldest_accessory_Some [OF i(1)] d(3) by (simp add: used_def)
      then show ?thesis using clr i(2) nid by auto
    next
      case False
      then show ?thesis using r None inv nid np le d(5) by (auto simp: lm_make_room_def)
    qed
  qed
qed

lemma lm_inv_create_link:
  assumes inv: "lm_inv (MAX_SIMULTANEOUS_LINKS e) (lm s)" and "length (sym_key sd) = 16"
  shows "lm_inv (MAX_SIMULTANEOUS_LINKS e) (lm (snd (nexus_channel_link_manager_create_link e ident mode sec sd s)))"
proof (cases "pending_add_link (lm s) \<or> lm_make_room e ident mode s = None")
  case True
  then show ?thesis using inv by (auto simp: nexus_channel_link_manager_create_link_def)
next
  case False
  then obtain t where t: "lm_make_room e ident mode s = Some t" by auto
  from lm_make_room_inv [OF inv _ t] False assms(2) show ?thesis
    by (simp add: nexus_channel_link_manager_create_link_def t Let_def lm_inv_def)
qed

lemma lm_inv_set_nonce:
  assumes inv: "lm_inv (MAX_SIMULTANEOUS_LINKS e) (lm s)"
  shows "lm_inv (MAX_SIMULTANEOUS_LINKS e) (lm (snd (nexus_channel_link_manager_set_security_data_auth_nonce e ident n s)))"
proof (cases "nexus_channel_link_manager_link_index_from_nxid e ident (lm s)")
  case (Some i)
  note i = index_from_nxid_Some [OF inv Some]
  let ?m = "lm s" and ?l = "links (lm s) ! i"
  let ?l' = "?l\<lparr>security_data := (security_data ?l)\<lparr>nonce := n\<rparr>\<rparr>"
  have a: "lm_inv (MAX_SIMULTANEOUS_LINKS e) (lm_alter i ?l' ?m)"
    by (rule lm_inv_alter [OF inv i(1)]) (use lm_invD(9) [OF inv i(3)] in simp_all)
  let ?f = "if nonce_must_persist (nonce (security_data ?l)) n
     then (link_idx_should_persist_nonce ?m)[i := True] else link_idx_should_persist_nonce ?m"
  have "lm_inv (MAX_SIMULTANEOUS_LINKS e) ((lm_alter i ?l' ?m)\<lparr>link_idx_should_persist_nonce := ?f\<rparr>)"
    by (rule lm_inv_flags [OF a]) (use lm_invD(4) [OF inv] in simp)
  moreover have "lm (snd (nexus_channel_link_manager_set_security_data_auth_nonce e ident n s)) =
      (if security_mode ?l \<noteq> 0 then ?m else (lm_alter i ?l' ?m)\<lparr>link_idx_should_persist_nonce := ?f\<rparr>)"
    by (simp add: nexus_channel_link_manager_set_security_data_auth_nonce_def Some Let_def lm_alter_def)
  ultimately show ?thesis using inv by simp
qed (simp add: nexus_channel_link_manager_set_security_data_auth_nonce_def inv)

lemma lm_inv_reset_secs:
  assumes inv: "lm_inv (MAX_SIMULTANEOUS_LINKS e) (lm s)"
  shows "lm_inv (MAX_SIMULTANEOUS_LINKS e) (lm (snd (nexus_channel_link_manager_reset_link_secs_since_active e ident s)))"
proof (cases "nexus_channel_link_manager_link_index_from_nxid e ident (lm s)")
  case (Some i)
  note i = index_from_nxid_Some [OF inv Some]
  have "lm_inv (MAX_SIMULTANEOUS_LINKS e) (lm_alter i ((links (lm s) ! i)\<lparr>seconds_since_active := 0\<rparr>) (lm s))"
    by (rule lm_inv_alter [OF inv i(1)]) (use lm_invD(9) [OF inv i(3)] in simp_all)
  then show ?thesis by (simp add: nexus_channel_link_manager_reset_link_secs_since_active_def Some lm_alter_def)
qed (simp add: nexus_channel_link_manager_reset_link_secs_since_active_def inv)

section \<open>Links reach the table\<close>

lemma process_link_pending [simp]:
  "pending_add_link (lm (lm_process_link e secs s i)) = pending_add_link (lm s)"
  "pending_link_to_create (lm (lm_process_link e secs s i)) = pending_link_to_create (lm s)"
  by (simp_all add: lm_process_link_def Let_def lm_clear_def)

lemma process_links_pending [simp]:
  "pending_add_link (lm (foldl (lm_process_link e secs) s is)) = pending_add_link (lm s)"
  "pending_link_to_create (lm (foldl (lm_process_link e secs) s is)) = pending_link_to_create (lm s)"
  by (induction "is" arbitrary: s) simp_all

lemma link_from_nxid_iff:
  assumes "lm_inv (MAX_SIMULTANEOUS_LINKS e) m"
  shows "nexus_channel_link_manager_link_from_nxid e ident m = Some l \<longleftrightarrow>
    (\<exists>i \<in> used m. links m ! i = l \<and> linked_device_id l = ident)"
  using index_from_nxid_iff [OF assms]
  by (auto simp: nexus_channel_link_manager_link_from_nxid_def slot_id_def)

lemma created_link_found:
  assumes inv: "lm_inv (MAX_SIMULTANEOUS_LINKS e) (lm s)" and key: "length (sym_key sd) = 16"
    and c: "nexus_channel_link_manager_create_link e ident mode sec sd s = (True, t)"
  shows "nexus_channel_link_manager_link_from_nxid e ident (lm (snd (nexus_channel_link_manager_process e secs t))) =
    Some (zero_link\<lparr>linked_device_id := ident, operating_mode := mode, security_mode := sec, security_data := sd\<rparr>)"
proof -
  let ?n = "MAX_SIMULTANEOUS_LINKS e"
  let ?l = "zero_link\<lparr>linked_device_id := ident, operating_mode := mode, security_mode := sec, security_data := sd\<rparr>"
  have t: "lm_inv ?n (lm t)" using lm_inv_create_link [OF inv key, of ident mode sec] c by simp
  have p: "pending_add_link (lm t)" "pending_link_to_create (lm t) = ?l"
    using c by (auto simp: nexus_channel_link_manager_create_link_def Let_def split: if_splits option.splits)
  let ?u = "foldl (lm_process_link e secs) t [0..<?n]"
  have u: "lm_inv ?n (lm ?u)" by (rule foldl_inv) (auto intro: lm_inv_process_link t)
  have pu: "pending_add_link (lm ?u)" "pending_link_to_create (lm ?u) = ?l" using p by simp_all
  obtain i where i: "i < ?n" "i \<notin> used (lm ?u)" "lm (lm_add_pending e ?u) = lm_put i ?l (lm ?u)"
    using lm_add_pending_put [OF u pu(1)] pu(2) by metis
  have m: "lm (snd (nexus_channel_link_manager_process e secs t)) =
      (lm_put i ?l (lm ?u))\<lparr>pending_link_to_create := zero_link, pending_add_link := False\<rparr>"
    using pu(1) i(3) by (simp add: nexus_channel_link_manager_process_def Let_def)
  have len: "i < length (link_idx_in_use (lm ?u))" "i < length (links (lm ?u))"
    using i(1) lm_invD [OF u] by simp_all
  have "links (lm (snd (nexus_channel_link_manager_process e secs t))) ! i = ?l"
    "i \<in> used (lm (snd (nexus_channel_link_manager_process e secs t)))"
    using used_put [OF len(1) i(2)] len(2) by (simp_all add: m) (simp add: lm_put_def)
  then show ?thesis using link_from_nxid_iff [OF lm_inv_process [OF t]] by (simp, blast)
qed

text \<open>The slot a full table gives up is that of a link as an accessory, and none of those is older.\<close>

definition oldest_ok :: "lm_this \<Rightarrow> nat \<Rightarrow> nat option \<times> u32 \<Rightarrow> bool" where
  "oldest_ok m n = (\<lambda>(o_idx, secs).
     (\<forall>j < n. link_idx_in_use m ! j \<and> operating_mode (links m ! j) = 0 \<longrightarrow>
        o_idx \<noteq> None \<and> seconds_since_init (links m ! j) \<le> secs) \<and>
     (o_idx = None \<longrightarrow> secs = 0) \<and>
     (\<forall>i. o_idx = Some i \<longrightarrow> i < n \<and> link_idx_in_use m ! i \<and> operating_mode (links m ! i) = 0 \<and>
        secs = seconds_since_init (links m ! i)))"

lemma oldest_ok_step: "oldest_ok m n x \<Longrightarrow> oldest_ok m (Suc n) (oldest_step m x n)"
proof (cases x)
  case (Pair o_idx secs)
  assume ok: "oldest_ok m n x"
  show ?thesis
  proof (cases "operating_mode (links m ! n) = 0 \<and> link_idx_in_use m ! n \<and> secs \<le> seconds_since_init (links m ! n)")
    case True
    then have "oldest_step m x n = (Some n, seconds_since_init (links m ! n))" by (simp add: Pair oldest_step_def)
    moreover have "seconds_since_init (links m ! j) \<le> seconds_since_init (links m ! n)"
      if "j < Suc n" "link_idx_in_use m ! j" "operating_mode (links m ! j) = 0" for j
      using ok True that by (cases "j = n") (auto simp: Pair oldest_ok_def less_Suc_eq intro: order.trans)
    ultimately show ?thesis using True by (simp add: oldest_ok_def)
  next
    case False
    then have r: "oldest_step m x n = (o_idx, secs)" by (auto simp: Pair oldest_step_def)
    have "o_idx \<noteq> None" if "operating_mode (links m ! n) = 0" "link_idx_in_use m ! n"
      using ok False that by (auto simp: Pair oldest_ok_def)
    then show ?thesis using ok False unfolding r by (auto simp: Pair oldest_ok_def less_Suc_eq)
  qed
qed

lemma oldest_accessory_link:
  "oldest_ok m (MAX_SIMULTANEOUS_LINKS e) (foldl (oldest_step m) (None, 0) [0..<MAX_SIMULTANEOUS_LINKS e])"
proof -
  have "oldest_ok m n (foldl (oldest_step m) (None, 0) [0..<n])" for n
    by (induction n) (simp_all add: oldest_ok_step, simp add: oldest_ok_def)
  then show ?thesis .
qed

end
