(* ===== verification/Channel_Port.thy ===== *)
theory Channel_Port
  imports Channel_Link Sample_Product
begin

text \<open>
  What Nexus Channel relies on in its port, the locale \<open>channel_port\<close>: storage that keeps what is
  written, and callbacks that leave the library's blocks alone. The sample program's port
  (\<^verbatim>\<open>identity.c\<close>, \<^verbatim>\<open>random.c\<close>, \<^verbatim>\<open>feedback.c\<close>, \<^verbatim>\<open>payg_state.c\<close>) provides it.
\<close>

section \<open>The contract\<close>

locale channel_port = nv_reliable "nx e" ok for e :: "'p channel_env" and ok +
  assumes config: "channel_config_wf e"
    and channel_transparent:
    "nv_transparent (nx e) ok (nxp_common_request_processing (nx e))"
    "nv_transparent (nx e) ok (nxp_channel_notify_event e ev)"
    "nv_transparent (nx e) ok (nxp_channel_payg_credit_set e c)"
    "nv_transparent (nx e) ok (nxp_channel_payg_credit_unlock e)"
    "nv_transparent (nx e) ok (\<lambda>p. snd (nxp_channel_random_value e p))"
    "nv_transparent (nx e) ok (oc_drop_client_cb e uri)"
    "nv_transparent (nx e) ok (\<lambda>p. snd (oc_init_post e uri i p))"
    "nv_transparent (nx e) ok (\<lambda>p. snd (oc_do_post e b rep p))"
    "nv_transparent (nx e) ok (\<lambda>p. snd (oc_do_get e uri b i p))"
    "nv_transparent (nx e) ok (\<lambda>p. snd (oc_allocate_message e p))"
    "nv_transparent (nx e) ok (oc_network_event e data ep)"
    "nv_transparent (nx e) ok (nxp_channel_network_send e data src dst b)"
begin

lemma transparent_ok: "nv_transparent (nx e) ok f \<Longrightarrow> ok p \<Longrightarrow> ok (f p)"
  by (simp add: nv_transparent_def)

lemma transparent_read:
  "nv_transparent (nx e) ok f \<Longrightarrow> ok p \<Longrightarrow> meta_wf m \<Longrightarrow> nexus_nv_read (nx e) m buf (f p) = nexus_nv_read (nx e) m buf p"
  by (simp add: nv_transparent_def)

end

section \<open>The sample product's port\<close>

definition sample_channel_payg_credit_set :: "u32 \<Rightarrow> product \<Rightarrow> product" where
  "sample_channel_payg_credit_set remaining_credit p = snd (update_payg_state False remaining_credit p)"

definition sample_channel_payg_credit_unlock :: "product \<Rightarrow> product" where
  "sample_channel_payg_credit_unlock p = snd (update_payg_state True 0 p)"

definition sample_channel_random_value :: "product \<Rightarrow> u32 \<times> product" where
  "sample_channel_random_value p = (12345678, p)"

text \<open>Notification prints a message.\<close>

definition sample_channel_notify_event :: "nxp_channel_event_type \<Rightarrow> product \<Rightarrow> product" where
  "sample_channel_notify_event ev p = p"

definition sample_channel_symmetric_origin_key :: "product \<Rightarrow> bytes" where
  "sample_channel_symmetric_origin_key p = stored_secret_key p"

definition sample_channel_get_nexus_id :: "product \<Rightarrow> nx_id" where
  "sample_channel_get_nexus_id p = \<lparr>authority_id = 0, device_id = stored_serial_id p\<rparr>"

definition sample_payg_credit_get_remaining :: "product \<Rightarrow> u32" where
  "sample_payg_credit_get_remaining p = payg_credit p"

text \<open>
  The dual-mode build of \<^verbatim>\<open>user_config.h\<close> with eight links on the sample product, with an IoTivity
  stack that accepts every message and does not touch the product.
\<close>

definition sample_channel_env :: "product nexus_env \<Rightarrow> product channel_env" where
  "sample_channel_env e = \<lparr>nx = e, MAX_SIMULTANEOUS_LINKS = 8, SUPPORT_CONTROLLER_MODE = True,
     SUPPORT_ACCESSORY_MODE = True, nxp_channel_notify_event = sample_channel_notify_event,
     nxp_channel_symmetric_origin_key = sample_channel_symmetric_origin_key,
     nxp_channel_random_value = sample_channel_random_value,
     nxp_channel_payg_credit_set = sample_channel_payg_credit_set,
     nxp_channel_payg_credit_unlock = sample_channel_payg_credit_unlock,
     nxp_common_payg_credit_get_remaining = sample_payg_credit_get_remaining,
     oc_baseline_interface = (\<lambda>_. []), oc_drop_client_cb = (\<lambda>_ p. p),
     oc_init_post = (\<lambda>_ _ p. (True, p)), oc_do_post = (\<lambda>_ _ p. (True, p)), oc_do_get = (\<lambda>_ _ _ p. (True, p)),
     oc_allocate_message = (\<lambda>p. (True, p)), oc_network_event = (\<lambda>_ _ p. p),
     nxp_channel_get_nexus_id = sample_channel_get_nexus_id, nxp_channel_network_send = (\<lambda>_ _ _ _ p. p)\<rparr>"

interpretation sample_channel: channel_port "sample_channel_env (sample_env c junk (\<lambda>_ _ p. p))" nv_log_ok
proof -
  let ?x = "sample_env c junk (\<lambda>_ _ p. p)" and ?e = "sample_channel_env (sample_env c junk (\<lambda>_ _ p. p))"
  have nx: "nx ?e = ?x" by (simp add: sample_channel_env_def)
  have t: "nv_transparent ?x nv_log_ok (\<lambda>p. p)" by (simp add: nv_transparent_def)
  have u: "nv_transparent ?x nv_log_ok (\<lambda>p. snd (update_payg_state un cr p))" for un cr
    using sample_update_transparent by (simp add: nv_transparent_def)
  show "channel_port ?e nv_log_ok"
  proof (intro channel_port.intro channel_port_axioms.intro)
    show "nv_reliable (nx ?e) nv_log_ok" unfolding nx by (rule sample_reliable.nv_reliable_axioms)
    show "channel_config_wf ?e" by (simp add: channel_config_wf_def sample_channel_env_def)
    show "nv_transparent (nx ?e) nv_log_ok (nxp_common_request_processing (nx ?e))"
      unfolding nx by (rule sample_port.callbacks_transparent(1))
  qed (use t u in \<open>simp_all add: sample_channel_env_def sample_channel_notify_event_def [abs_def]
      sample_channel_payg_credit_set_def [abs_def] sample_channel_payg_credit_unlock_def [abs_def]
      sample_channel_random_value_def\<close>)
qed

definition blank_channel_env :: "product channel_env" where
  "blank_channel_env = sample_channel_env blank_env"

lemma channel_port_blank: "channel_port blank_channel_env nv_log_ok"
  unfolding blank_channel_env_def blank_env_def by (rule sample_channel.channel_port_axioms)

text \<open>Static storage before any call.\<close>

definition channel_zero :: "'p channel_env \<Rightarrow> 'p \<Rightarrow> 'p channel" where
  "channel_zero e p = \<lparr>cplat = p, lm = lm_zero (MAX_SIMULTANEOUS_LINKS e),
     hs = \<lparr>clients = replicate 4 zero_client, server = zero_server,
       stored_acc = \<lparr>handshake_index = 0, hs_received_ids = [0, 0]\<rparr>\<rparr>,
     om = \<lparr>command_index = 0, om_received_ids = [0, 0, 0, 0]\<rparr>,
     credit = \<lparr>remaining = 0, credit_mode = CREDIT_MODE_INDEPENDENT, follower_mode_seconds_since_credit_updated = 0,
       cr_last_payg_state = NXP_COMMON_PAYG_STATE_DISABLED, last_updated_nexus_id = NULL_NEXUS_ID,
       seconds_since_last_post = 0, cycle_first_nexus_id = NULL_NEXUS_ID, seconds_since_last_cycle_start = 0\<rparr>,
     reg = \<lparr>res_pool = [], app_resources = [], sec_res_methods = []\<rparr>,
     wrapper = \<lparr>active_client_get_handler = None, active_client_post_handler = None\<rparr>, answer = None\<rparr>"

lemma channel_zero_simps [simp]:
  "cplat (channel_zero e p) = p" "lm (channel_zero e p) = lm_zero (MAX_SIMULTANEOUS_LINKS e)"
  by (simp_all add: channel_zero_def)

lemma blank_channel_env_simps [simp]:
  "nx blank_channel_env = blank_env" "MAX_SIMULTANEOUS_LINKS blank_channel_env = 8"
  by (simp_all add: blank_channel_env_def sample_channel_env_def)

end
