(* ===== verification/Channel_Link_System.thy ===== *)
theory Channel_Link_System
  imports Channel_Port
begin

text \<open>
  The link manager on storage that keeps its promises: memory and storage agree in every reachable
  state, a created link is established, and the nonce that guards against replayed messages does not
  fall back when the device restarts, while nonces are in step.
\<close>

section \<open>Links in storage\<close>

text \<open>What the storage holds for slot \<open>i\<close>.\<close>

definition stored_link :: "'p channel_env \<Rightarrow> nat \<Rightarrow> 'p \<Rightarrow> nexus_channel_link option" where
  "stored_link e i p = (case nexus_nv_read (nx e) (NX_NV_BLOCK_CHANNEL_LM_LINK (i + 1)) (replicate 36 0) p of
     (True, b) \<Rightarrow> Some (link_of_bytes b) | (False, _) \<Rightarrow> None)"

lemma link_block [simp]:
  "meta_wf (NX_NV_BLOCK_CHANNEL_LM_LINK n)" "nv_inner_size (NX_NV_BLOCK_CHANNEL_LM_LINK n) = 36"
  by (simp_all add: NX_NV_BLOCK_CHANNEL_LM_LINK_def meta_wf_def nv_inner_size_def)

lemma link_block_id:
  assumes "i < 10" "j < 10" "i \<noteq> j"
  shows "block_id (NX_NV_BLOCK_CHANNEL_LM_LINK (j + 1)) \<noteq> block_id (NX_NV_BLOCK_CHANNEL_LM_LINK (i + 1))"
proof -
  have "unat (word_of_nat (k + 1 + 3) :: u16) = k + 4" if "k < 10" for k
    using that by (subst unat_word_of_nat_small) auto
  from this [OF assms(1)] this [OF assms(2)] assms(3) show ?thesis
    by (simp only: NX_NV_BLOCK_CHANNEL_LM_LINK_def nx_common_nv_block_meta.simps) (metis add_right_cancel)
qed

lemma length_link_bytes: "length (sym_key (security_data l)) = 16 \<Longrightarrow> length (link_bytes l) = 36"
  by (simp add: link_bytes_def nx_id_bytes_def)

lemma link_of_bytes_link_bytes:
  assumes "length (sym_key (security_data l)) = 16"
  shows "link_of_bytes (link_bytes l) = l"
proof -
  let ?k = "sym_key (security_data l)"
  have d: "drop 2 (link_bytes l) = u32_le (device_id (linked_device_id l)) @ drop 6 (link_bytes l)"
    "drop 8 (link_bytes l) = u32_le (seconds_since_init l) @ drop 12 (link_bytes l)"
    "drop 12 (link_bytes l) = u32_le (seconds_since_active l) @ drop 16 (link_bytes l)"
    "drop 16 (link_bytes l) = ?k @ drop 32 (link_bytes l)"
    "drop 32 (link_bytes l) = u32_le (nonce (security_data l))"
    using assms by (simp_all add: link_bytes_def nx_id_bytes_def)
  have n: "link_bytes l ! 6 = operating_mode l" "link_bytes l ! 7 = security_mode l"
    by (simp_all add: link_bytes_def nx_id_bytes_def nth_append)
  have t: "take 2 (link_bytes l) = u16_le (authority_id (linked_device_id l))"
    by (simp add: link_bytes_def nx_id_bytes_def)
  have k: "take 16 (drop 16 (link_bytes l)) = ?k" unfolding d(4) using assms by simp
  have q: "take 4 (drop 2 (link_bytes l)) = u32_le (device_id (linked_device_id l))"
    "take 4 (drop 8 (link_bytes l)) = u32_le (seconds_since_init l)"
    "take 4 (drop 12 (link_bytes l)) = u32_le (seconds_since_active l)"
    "take 4 (drop 32 (link_bytes l)) = u32_le (nonce (security_data l))"
    unfolding d(1) d(2) d(3) d(5) by simp_all
  show ?thesis
    unfolding link_of_bytes_def n t k q
    by (simp add: le_u16_u16_le [of _ "[]", simplified] le_u32_u32_le [of _ "[]", simplified])
qed

context channel_port
begin

lemma ok_callbacks:
  assumes "ok (cplat s)"
  shows "ok (cplat (notify_event e ev s))" "ok (cplat (request_processing e s))"
  using assms channel_transparent(1,2) by (simp_all add: notify_event_def request_processing_def transparent_ok)

lemma read_callbacks:
  assumes "ok (cplat s)" "meta_wf m"
  shows "nexus_nv_read (nx e) m buf (cplat (notify_event e ev s)) = nexus_nv_read (nx e) m buf (cplat s)"
    "nexus_nv_read (nx e) m buf (cplat (request_processing e s)) = nexus_nv_read (nx e) m buf (cplat s)"
  using assms channel_transparent(1,2) by (simp_all add: notify_event_def request_processing_def transparent_read)

lemma stored_callbacks:
  assumes "ok (cplat s)"
  shows "stored_link e i (cplat (notify_event e ev s)) = stored_link e i (cplat s)"
    "stored_link e i (cplat (request_processing e s)) = stored_link e i (cplat s)"
  using read_callbacks [OF assms] by (simp_all add: stored_link_def)

lemma persist_link_stored:
  assumes ok: "ok (cplat s)" and i: "i < 10" "j < 10" and key: "length (sym_key (security_data (links (lm s) ! i))) = 16"
  shows "ok (cplat (persist_link e i s))"
    "stored_link e j (cplat (persist_link e i s)) = (if j = i then Some (links (lm s) ! i) else stored_link e j (cplat s))"
proof -
  have p: "persist_link e i s = nv_update e (NX_NV_BLOCK_CHANNEL_LM_LINK (i + 1)) (link_bytes (links (lm s) ! i)) s"
    using i by (simp add: persist_link_def nexus_channel_link_manager_index_to_nv_block_def)
  show "ok (cplat (persist_link e i s))"
    using update_ok [OF ok] length_link_bytes [OF key] by (simp add: p nv_update_def)
  show "stored_link e j (cplat (persist_link e i s)) = (if j = i then Some (links (lm s) ! i) else stored_link e j (cplat s))"
  proof (cases "j = i")
    case True
    have "nexus_nv_read (nx e) (NX_NV_BLOCK_CHANNEL_LM_LINK (i + 1)) (replicate 36 0) (cplat (persist_link e i s)) =
        (True, link_bytes (links (lm s) ! i))"
      using update_then_read [OF ok, of "NX_NV_BLOCK_CHANNEL_LM_LINK (i + 1)"] length_link_bytes [OF key]
      by (simp add: p nv_update_def)
    then show ?thesis using True link_of_bytes_link_bytes [OF key] by (simp add: stored_link_def)
  next
    case False
    then show ?thesis
      using update_read_other [OF ok, of "NX_NV_BLOCK_CHANNEL_LM_LINK (i + 1)" "NX_NV_BLOCK_CHANNEL_LM_LINK (j + 1)"]
        link_block_id [OF i] length_link_bytes [OF key] by (simp add: p nv_update_def stored_link_def)
  qed
qed

end

section \<open>Memory and storage agree\<close>

text \<open>
  A link in use is stored with the same identity, modes and key; its nonce is \<open>near\<close> the stored one, unless a write of it is
  pending. For a free slot nothing, or a cleared link, is stored.
\<close>

definition like :: "nexus_channel_link \<Rightarrow> nexus_channel_link \<Rightarrow> bool" where
  "like k l \<longleftrightarrow> linked_device_id k = linked_device_id l \<and> operating_mode k = operating_mode l \<and>
     security_mode k = security_mode l \<and> sym_key (security_data k) = sym_key (security_data l)"

abbreviation link_nonce_of :: "nexus_channel_link \<Rightarrow> u32" where
  "link_nonce_of l \<equiv> nonce (security_data l)"

definition slot_ok :: "(u32 \<Rightarrow> u32 \<Rightarrow> bool) \<Rightarrow> nexus_channel_link option \<Rightarrow> lm_this \<Rightarrow> nat \<Rightarrow> bool" where
  "slot_ok near st m i \<longleftrightarrow> (if i \<in> used m
     then \<exists>k. st = Some k \<and> like k (links m ! i) \<and>
       (link_idx_should_persist_nonce m ! i \<or> near (link_nonce_of k) (link_nonce_of (links m ! i)))
     else \<forall>k. st = Some k \<longrightarrow> device_id (linked_device_id k) = 0)"

definition link_state :: "(u32 \<Rightarrow> u32 \<Rightarrow> bool) \<Rightarrow> 'p channel_env \<Rightarrow> ('p \<Rightarrow> bool) \<Rightarrow> 'p channel \<Rightarrow> bool" where
  "link_state near e ok s \<longleftrightarrow> ok (cplat s) \<and> lm_inv (MAX_SIMULTANEOUS_LINKS e) (lm s) \<and>
     (\<forall>i < MAX_SIMULTANEOUS_LINKS e. slot_ok near (stored_link e i (cplat s)) (lm s) i)"

text \<open>
  How the stored nonce of a link is related to the one in memory, when calls may give a link the nonces that are \<open>allowed\<close> after its
  old one: a nonce that is not marked for writing is still near the stored one.
\<close>

locale link_store = channel_port +
  fixes near :: "u32 \<Rightarrow> u32 \<Rightarrow> bool" and allowed :: "u32 \<Rightarrow> u32 \<Rightarrow> bool"
  assumes near_refl: "near n n"
    and near_step: "allowed old new \<Longrightarrow> \<not> nonce_must_persist old new \<Longrightarrow> near k old \<Longrightarrow> near k new"

lemma like_refl [simp]: "like l l" by (simp add: like_def)

lemma like_update [simp]:
  "like k (l\<lparr>seconds_since_init := a\<rparr>) = like k l" "like k (l\<lparr>seconds_since_active := b\<rparr>) = like k l"
  "like k (l\<lparr>security_data := (security_data l)\<lparr>nonce := n\<rparr>\<rparr>) = like k l"
  by (simp_all add: like_def)

lemma slot_ok_other:
  "slot_ok near st m j \<Longrightarrow> j \<in> used m' \<longleftrightarrow> j \<in> used m \<Longrightarrow> links m' ! j = links m ! j \<Longrightarrow>
   link_idx_should_persist_nonce m' ! j = link_idx_should_persist_nonce m ! j \<Longrightarrow> slot_ok near st m' j"
  by (simp add: slot_ok_def)

text \<open>An operation that touches slot \<open>i\<close> of the table only.\<close>

definition only_slot :: "nat \<Rightarrow> lm_this \<Rightarrow> lm_this \<Rightarrow> bool" where
  "only_slot i m m' \<longleftrightarrow> (\<forall>j. j \<noteq> i \<longrightarrow> (j \<in> used m' \<longleftrightarrow> j \<in> used m) \<and> links m' ! j = links m ! j \<and>
     link_idx_should_persist_nonce m' ! j = link_idx_should_persist_nonce m ! j)"

lemma only_slot_changes:
  "only_slot i m (lm_clear i m)" "only_slot i m (lm_put i l m)" "only_slot i m (lm_alter i l m)"
  "only_slot i m (m\<lparr>link_idx_should_persist_nonce := (link_idx_should_persist_nonce m)[i := b]\<rparr>)"
  "only_slot i m m"
  by (auto simp: only_slot_def used_def lm_clear_def lm_put_def lm_alter_def nth_list_update)

lemma only_slot_trans: "only_slot i m m' \<Longrightarrow> only_slot i m' m'' \<Longrightarrow> only_slot i m m''"
  by (simp add: only_slot_def)

lemma link_state_slot:
  assumes st: "link_state near e ok s" and "ok (cplat t)" "lm_inv (MAX_SIMULTANEOUS_LINKS e) (lm t)"
    and "only_slot i (lm s) (lm t)" and "slot_ok near (stored_link e i (cplat t)) (lm t) i"
    and "\<And>j. j < MAX_SIMULTANEOUS_LINKS e \<Longrightarrow> j \<noteq> i \<Longrightarrow> stored_link e j (cplat t) = stored_link e j (cplat s)"
  shows "link_state near e ok t"
  unfolding link_state_def
proof (intro conjI allI impI)
  fix j assume "j < MAX_SIMULTANEOUS_LINKS e"
  then show "slot_ok near (stored_link e j (cplat t)) (lm t) j"
    using assms slot_ok_other [of near "stored_link e j (cplat s)" "lm s" j "lm t"]
    by (cases "j = i") (auto simp: link_state_def only_slot_def)
qed (use assms in auto)

lemma link_stateD:
  assumes "link_state near e ok s"
  shows "ok (cplat s)" "lm_inv (MAX_SIMULTANEOUS_LINKS e) (lm s)"
    "i < MAX_SIMULTANEOUS_LINKS e \<Longrightarrow> slot_ok near (stored_link e i (cplat s)) (lm s) i"
  using assms by (simp_all add: link_state_def)

context channel_port
begin

lemma slots_10: "i < MAX_SIMULTANEOUS_LINKS e \<Longrightarrow> i < 10"
  using config by (simp add: channel_config_wf_def)

end

context link_store
begin

lemma clear_link_state:
  assumes st: "link_state near e ok s" and i: "i < MAX_SIMULTANEOUS_LINKS e"
  shows "link_state near e ok (nexus_channel_link_manager_clear_link_internal e i s)"
proof (cases "link_idx_in_use (lm s) ! i")
  case True
  let ?n = "MAX_SIMULTANEOUS_LINKS e" and ?t = "nexus_channel_link_manager_clear_link_internal e i s"
  note d = link_stateD [OF st]
  define s1 where "s1 = on_lm (\<lambda>m. m\<lparr>links := (links m)[i := zero_link],
      link_idx_in_use := (link_idx_in_use m)[i := False]\<rparr>) s"
  have p: "cplat s1 = cplat s" "links (lm s1) ! i = zero_link"
    using i lm_invD(2) [OF d(2)] by (simp_all add: s1_def)
  then have key: "length (sym_key (security_data (links (lm s1) ! i))) = 16" by (simp add: zero_link_def)
  have ok1: "ok (cplat s1)" using p d(1) by simp
  define s3 where "s3 = on_lm (\<lambda>m. m\<lparr>link_count := link_count m - 1\<rparr>) (persist_link e i s1)"
  have t: "?t = notify_event e NXP_CHANNEL_EVENT_LINK_DELETED s3"
    using True by (simp add: nexus_channel_link_manager_clear_link_internal_def Let_def s1_def s3_def)
  have ok3: "ok (cplat s3)" using persist_link_stored(1) [OF ok1 slots_10 [OF i] slots_10 [OF i] key] by (simp add: s3_def)
  have sl: "stored_link e j (cplat ?t) = (if j = i then Some zero_link else stored_link e j (cplat s))" if "j < ?n" for j
    using stored_callbacks(1) [OF ok3, of j NXP_CHANNEL_EVENT_LINK_DELETED]
      persist_link_stored(2) [OF ok1 slots_10 [OF i] slots_10 [OF that] key] p unfolding t by (simp add: s3_def)
  have nu: "i \<notin> used (lm_clear i (lm s))"
    using True i lm_invD(3) [OF d(2)] by (simp add: used_def lm_clear_def)
  show ?thesis
  proof (rule link_state_slot [OF st])
    show "ok (cplat ?t)" unfolding t by (rule ok_callbacks(1) [OF ok3])
    show "lm_inv ?n (lm ?t)" using lm_inv_clear [OF d(2) i] by simp
    show "only_slot i (lm s) (lm ?t)" by (simp add: only_slot_changes)
    show "slot_ok near (stored_link e i (cplat ?t)) (lm ?t) i" using nu by (simp add: sl [OF i] slot_ok_def zero_link_def)
    show "stored_link e j (cplat ?t) = stored_link e j (cplat s)" if "j < ?n" "j \<noteq> i" for j using sl that by simp
  qed
qed (simp add: nexus_channel_link_manager_clear_link_internal_def st)

end

lemma if_three: "P x \<Longrightarrow> P y \<Longrightarrow> P z \<Longrightarrow> P (if a then x else if b then y else z)"
  by simp

context link_store
begin

lemma tick_state:
  assumes st: "link_state near e ok s" and i: "i \<in> used (lm s)"
    and l: "like (links (lm s) ! i) l" "nonce (security_data l) = nonce (security_data (links (lm s) ! i))"
  shows "link_state near e ok (on_lm (lm_alter i l) s)"
proof (rule link_state_slot [OF st])
  note d = link_stateD [OF st]
  have n: "i < MAX_SIMULTANEOUS_LINKS e" using used_less [OF i] lm_invD(3) [OF d(2)] by simp
  show "ok (cplat (on_lm (lm_alter i l) s))" using d(1) by simp
  show "lm_inv (MAX_SIMULTANEOUS_LINKS e) (lm (on_lm (lm_alter i l) s))"
    using lm_inv_alter [OF d(2) i] l lm_invD(9) [OF d(2) n] by (simp add: like_def)
  show "only_slot i (lm s) (lm (on_lm (lm_alter i l) s))" by (simp add: only_slot_changes)
  have "links (lm_alter i l (lm s)) ! i = l" using n lm_invD(2) [OF d(2)] by (simp add: lm_alter_def)
  then show "slot_ok near (stored_link e i (cplat (on_lm (lm_alter i l) s))) (lm (on_lm (lm_alter i l) s)) i"
    using d(3) [OF n] i l by (auto simp: slot_ok_def like_def lm_alter_def)
qed simp

lemma persist_state:
  assumes st: "link_state near e ok s" and i: "i \<in> used (lm s)"
  shows "link_state near e ok (on_lm (\<lambda>m. m\<lparr>link_idx_should_persist_nonce := (link_idx_should_persist_nonce m)[i := False]\<rparr>)
    (persist_link e i s))" (is "link_state near e ok ?t")
proof (rule link_state_slot [OF st])
  note d = link_stateD [OF st]
  have n: "i < MAX_SIMULTANEOUS_LINKS e" using used_less [OF i] lm_invD(3) [OF d(2)] by simp
  have key: "length (sym_key (security_data (links (lm s) ! i))) = 16" using lm_invD(9) [OF d(2) n] .
  note p = persist_link_stored [OF d(1) slots_10 [OF n] _ key]
  show "ok (cplat ?t)" using p(1) [OF slots_10 [OF n]] by simp
  show "lm_inv (MAX_SIMULTANEOUS_LINKS e) (lm ?t)" using lm_inv_flags [OF d(2)] lm_invD(4) [OF d(2)] by simp
  show "only_slot i (lm s) (lm ?t)" using only_slot_changes(4) by simp
  show "slot_ok near (stored_link e i (cplat ?t)) (lm ?t) i" using p(2) [OF slots_10 [OF n]] i near_refl by (simp add: slot_ok_def)
  show "stored_link e j (cplat ?t) = stored_link e j (cplat s)" if "j < MAX_SIMULTANEOUS_LINKS e" "j \<noteq> i" for j
    using p(2) [OF slots_10 [OF that(1)]] that(2) by simp
qed

lemma process_link_state:
  assumes st: "link_state near e ok s" and i: "i < MAX_SIMULTANEOUS_LINKS e"
  shows "link_state near e ok (lm_process_link e secs s i)"
proof (cases "link_idx_in_use (lm s) ! i")
  case True
  note d = link_stateD [OF st]
  have u: "i \<in> used (lm s)" using True i lm_invD(3) [OF d(2)] by (simp add: used_def)
  let ?l = "(links (lm s) ! i)\<lparr>seconds_since_init := seconds_since_init (links (lm s) ! i) + secs,
      seconds_since_active := seconds_since_active (links (lm s) ! i) + secs\<rparr>"
  let ?s = "on_lm (lm_alter i ?l) s"
  have t: "link_state near e ok ?s" by (rule tick_state [OF st u]) simp_all
  have u': "i \<in> used (lm ?s)" using u by (simp add: lm_alter_def)
  have alt: "on_lm (\<lambda>m. m\<lparr>links := (links m)[i := (links m ! i)\<lparr>seconds_since_init := seconds_since_init (links m ! i) + secs,
      seconds_since_active := seconds_since_active (links m ! i) + secs\<rparr>]\<rparr>) s = ?s"
    by (simp add: on_lm_def lm_alter_def)
  have eq: "lm_process_link e secs s i =
     (if seconds_since_active (links (lm ?s) ! i) > 7776000 then nexus_channel_link_manager_clear_link_internal e i ?s
      else if security_mode (links (lm ?s) ! i) = 0 \<and> link_idx_should_persist_nonce (lm ?s) ! i
      then on_lm (\<lambda>m. m\<lparr>link_idx_should_persist_nonce := (link_idx_should_persist_nonce m)[i := False]\<rparr>)
        (persist_link e i ?s)
      else ?s)"
    by (simp only: lm_process_link_def Let_def True alt not_True_eq_False if_False)
  show ?thesis unfolding eq by (rule if_three [where P = "link_state near e ok", OF clear_link_state [OF t i] persist_state [OF t u'] t])
qed (simp add: lm_process_link_def st)

lemma link_state_cong:
  assumes "link_state near e ok s" "cplat t = cplat s" "lm_inv (MAX_SIMULTANEOUS_LINKS e) (lm t)"
    "links (lm t) = links (lm s)" "link_idx_in_use (lm t) = link_idx_in_use (lm s)"
    "link_idx_should_persist_nonce (lm t) = link_idx_should_persist_nonce (lm s)"
  shows "link_state near e ok t"
  using assms by (simp add: link_state_def slot_ok_def used_def)

lemma request_processing_state: "link_state near e ok s \<Longrightarrow> link_state near e ok (request_processing e s)"
  by (simp add: link_state_def ok_callbacks stored_callbacks)

lemma add_pending_state:
  assumes st: "link_state near e ok s" and p: "pending_add_link (lm s)"
  shows "link_state near e ok (on_lm (\<lambda>m. m\<lparr>pending_link_to_create := zero_link, pending_add_link := False\<rparr>) (lm_add_pending e s))"
    (is "link_state near e ok ?t")
proof -
  let ?n = "MAX_SIMULTANEOUS_LINKS e" and ?l = "pending_link_to_create (lm s)"
  note d = link_stateD [OF st]
  obtain i where i: "i < ?n" "i \<notin> used (lm s)" "lm (lm_add_pending e s) = lm_put i ?l (lm s)"
    by (rule lm_add_pending_put [OF d(2) p])
  obtain j where j: "find (\<lambda>i. \<not> link_idx_in_use (lm s) ! i) [0..<?n] = Some j"
    using i(1,2) lm_invD(3) [OF d(2)] by (cases "find (\<lambda>i. \<not> link_idx_in_use (lm s) ! i) [0..<?n]")
      (auto simp: find_slot_None used_def)
  have jn: "j < ?n" "j \<notin> used (lm s)" using find_slot_Some [OF j] lm_invD(3) [OF d(2)] by (simp_all add: used_def)
  let ?s1 = "on_lm (lm_put j ?l) s"
  have lk: "links (lm ?s1) ! j = ?l" using jn lm_invD(2) [OF d(2)] by (simp add: lm_put_def)
  have key: "length (sym_key (security_data (links (lm ?s1) ! j))) = 16" using lk lm_invD(7) [OF d(2)] by simp
  have ok1: "ok (cplat ?s1)" using d(1) by simp
  note q = persist_link_stored [OF ok1 slots_10 [OF jn(1)] _ key]
  obtain ev where ev: "lm_add_pending e s = notify_event e ev (persist_link e j ?s1)"
  proof -
    have "on_lm (\<lambda>m. m\<lparr>link_count := link_count m + 1, link_idx_in_use := (link_idx_in_use m)[j := True],
        links := (links m)[j := pending_link_to_create m]\<rparr>) s = ?s1" by (simp add: on_lm_def lm_put_def)
    then show ?thesis using that by (simp add: lm_add_pending_def j Let_def)
  qed
  have ok2: "ok (cplat (persist_link e j ?s1))" using q(1) [OF slots_10 [OF jn(1)]] .
  have m: "lm ?t = lm_put j ?l ((lm s)\<lparr>pending_link_to_create := zero_link, pending_add_link := False\<rparr>)"
    by (simp add: ev lm_put_pending)
  have sl: "stored_link e k (cplat ?t) = (if k = j then Some ?l else stored_link e k (cplat s))" if "k < ?n" for k
    using stored_callbacks(1) [OF ok2, of k ev] q(2) [OF slots_10 [OF that]] lk by (simp add: ev)
  have inv: "lm_inv ?n (lm ?t)"
    unfolding m by (rule lm_inv_put [OF lm_inv_no_pending [OF d(2)]]) (use jn lm_invD(7,11) [OF d(2)] p in simp_all)
  have jl: "j < length (link_idx_in_use (lm s))" using jn(1) lm_invD(3) [OF d(2)] by simp
  show ?thesis
  proof (rule link_state_slot [OF st])
    show "ok (cplat ?t)" using ok_callbacks(1) [OF ok2] by (simp add: ev)
    show "lm_inv ?n (lm ?t)" by (rule inv)
    show "only_slot j (lm s) (lm ?t)" unfolding m
      by (rule only_slot_trans [OF _ only_slot_changes(2)]) (simp add: only_slot_def)
    show "slot_ok near (stored_link e j (cplat ?t)) (lm ?t) j"
      using used_put(1) [OF jl jn(2), of ?l] lk near_refl unfolding sl [OF jn(1)] by (simp add: slot_ok_def ev)
    show "stored_link e k (cplat ?t) = stored_link e k (cplat s)" if "k < ?n" "k \<noteq> j" for k using sl that by simp
  qed
qed

lemma process_state:
  assumes st: "link_state near e ok s"
  shows "link_state near e ok (snd (nexus_channel_link_manager_process e secs s))"
proof -
  let ?n = "MAX_SIMULTANEOUS_LINKS e"
  let ?t = "foldl (lm_process_link e secs) s [0..<?n]"
  have t: "link_state near e ok ?t" by (rule foldl_inv) (auto intro: process_link_state st)
  have c: "link_state near e ok (nexus_channel_link_manager_clear_links_internal e ?t)" (is "link_state near e ok ?c")
    unfolding nexus_channel_link_manager_clear_links_internal_def by (rule foldl_inv) (auto intro: clear_link_state t)
  have "link_state near e ok (on_lm (\<lambda>m. m\<lparr>pending_clear_all_links := False\<rparr>) ?c)"
    by (rule link_state_cong [OF c]) (use link_stateD(2) [OF c] in \<open>simp_all add: lm_inv_pending_clear\<close>)
  then show ?thesis
    using t add_pending_state [OF t] by (simp add: nexus_channel_link_manager_process_def Let_def)
qed

end

section \<open>When the nonce is written\<close>

lemma nonce_interval_loop_meets:
  assumes "\<not> nonce_interval_loop n i new" "unat i + d \<le> unat new" "d < n"
  shows "(unat i + d) mod 64 \<noteq> 0"
  using assms
proof (induction n arbitrary: i d)
  case (Suc n)
  have le: "i \<le> new" using Suc.prems(2) by (simp add: word_le_nat_alt)
  have i: "i mod 64 \<noteq> 0" "\<not> nonce_interval_loop n (i + 1) new" using Suc.prems(1) le by (auto split: if_splits)
  show ?case
  proof (cases d)
    case 0
    then show ?thesis using i(1) by (simp add: unat_eq_0 [symmetric] unat_mod)
  next
    case (Suc d')
    then have "unat (i + 1) = Suc (unat i)" using Suc.prems(2) unat_u32_less [of new] by (simp add: unat_add_1)
    then show ?thesis using Suc.IH [OF i(2), of d'] Suc.prems(2,3) Suc by simp
  qed
qed simp

text \<open>The rounds given to the loop are enough: with more it returns the same.\<close>

lemma nonce_interval_loop_hits:
  "(i + word_of_nat d) mod 64 = 0 \<Longrightarrow> d < n \<Longrightarrow> d < k \<Longrightarrow> nonce_interval_loop n i new = nonce_interval_loop k i new"
proof (induction d arbitrary: i n k)
  case 0
  then show ?case by (cases n; cases k) simp_all
next
  case (Suc d)
  obtain n' k' where "n = Suc n'" "k = Suc k'" using Suc.prems by (cases n; cases k) simp_all
  then show ?case using Suc.IH [of "i + 1" n' k'] Suc.prems by (simp add: algebra_simps)
qed

lemma next_multiple_64: "\<exists>d < 64. (n + d) mod 64 = (0 :: nat)"
proof (cases "n mod 64 = 0")
  case False
  define q r where "q = n div 64" and "r = n mod 64"
  have n: "n = 64 * q + r" "r < 64" by (simp_all add: q_def r_def)
  then have "(n + (64 - r)) mod 64 = (64 * (q + 1)) mod 64" by simp
  moreover have "64 - r < 64" using False by (simp add: r_def)
  ultimately show ?thesis using mod_mult_self1_is_0 [of 64 "q + 1"] by metis
qed (rule exI [of _ 0], simp)

lemma add_mod_64:
  assumes "d < 64" "(unat i + d) mod 64 = 0"
  shows "(i + word_of_nat d :: u32) mod 64 = 0"
proof -
  have w: "unat (word_of_nat d :: u32) = d" using assms(1) by (subst unat_word_of_nat_small) simp_all
  have u: "unat (i + word_of_nat d) = (unat i + d) mod 2 ^ 32" unfolding unat_word_ariths by (simp add: w)
  have c: "((unat i + d) mod 2 ^ 32) mod 64 = (unat i + d) mod 64" by (rule mod_mod_cancel) simp
  have "unat (i + word_of_nat d) mod 64 = 0" by (simp only: u c assms(2))
  then have "unat ((i + word_of_nat d) mod 64) = 0" by (subst unat_mod) simp
  then show ?thesis by (rule iffD1 [OF unat_eq_0])
qed

lemma nonce_interval_loop_iff:
  assumes "64 \<le> n"
  shows "nonce_interval_loop n i new = nonce_interval_loop 64 i new"
proof -
  obtain d where d: "d < 64" "(unat i + d) mod 64 = 0" using next_multiple_64 [of "unat i"] by (elim exE conjE)
  show ?thesis by (rule nonce_interval_loop_hits [OF add_mod_64 [OF d] less_le_trans [OF d(1) assms] d(1)])
qed

lemma nonce_not_persisted:
  assumes "\<not> nonce_must_persist old new" "old \<le> new" "old = 0 \<longrightarrow> new < 64"
  shows "unat old div 64 = unat new div 64"
proof (cases "old = new \<or> old = 0")
  case True
  then show ?thesis using assms(3) by (auto simp: word_less_nat_alt)
next
  case False
  then have lt: "old < new" "old > 0" using assms(2) by (auto simp: word_gt_0)
  then have l: "\<not> nonce_interval_loop 64 (old + 1) new" using assms(1) by (auto simp: nonce_must_persist_def split: if_splits)
  have n: "unat old < unat new" using lt(1) by (simp add: word_less_nat_alt)
  then have o1: "unat (old + 1) = Suc (unat old)" using unat_u32_less [of new] by (simp add: unat_add_1)
  show ?thesis
  proof (rule ccontr)
    assume "unat old div 64 \<noteq> unat new div 64"
    then have "unat old div 64 < unat new div 64" using div_le_mono [OF less_imp_le [OF n], of 64] by simp
    then have g: "64 * (unat old div 64) + 64 \<le> unat new" using times_div_less_eq_dividend [of 64 "unat new"] by linarith
    let ?d = "64 * (unat old div 64) + 64 - Suc (unat old)"
    have d: "?d < 64" "Suc (unat old) + ?d = 64 * (unat old div 64) + 64"
      using mult_div_mod_eq [of 64 "unat old"] mod_less_divisor [of 64 "unat old"] by linarith+
    have "(unat (old + 1) + ?d) mod 64 \<noteq> 0"
      by (rule nonce_interval_loop_meets [OF l]) (use g d o1 in simp_all)
    then show False using d(2) o1 by simp
  qed
qed

section \<open>The calls of the other modules\<close>

context link_store
begin

lemma set_nonce_state:
  assumes st: "link_state near e ok s"
    and ns: "\<And>l. nexus_channel_link_manager_link_from_nxid e ident (lm s) = Some l \<Longrightarrow> allowed (link_nonce_of l) new"
  shows "link_state near e ok (snd (nexus_channel_link_manager_set_security_data_auth_nonce e ident new s))" (is "link_state near e ok ?t")
proof (cases "nexus_channel_link_manager_link_index_from_nxid e ident (lm s)")
  case (Some i)
  note d = link_stateD [OF st]
  note i = index_from_nxid_Some [OF d(2) Some]
  let ?l = "links (lm s) ! i"
  have step: "allowed (link_nonce_of ?l) new"
    using ns [of ?l] Some by (simp add: nexus_channel_link_manager_link_from_nxid_def)
  let ?must = "nonce_must_persist (link_nonce_of ?l) new"
  let ?l' = "?l\<lparr>security_data := (security_data ?l)\<lparr>nonce := new\<rparr>\<rparr>"
  show ?thesis
  proof (cases "security_mode ?l = 0")
    case True
    have t: "cplat ?t = cplat s" "lm ?t = (lm_alter i ?l' (lm s))\<lparr>link_idx_should_persist_nonce :=
        (if ?must then (link_idx_should_persist_nonce (lm s))[i := True] else link_idx_should_persist_nonce (lm s))\<rparr>"
      using True by (simp_all add: nexus_channel_link_manager_set_security_data_auth_nonce_def Some Let_def lm_alter_def)
    have len: "i < length (links (lm s))" "i < length (link_idx_should_persist_nonce (lm s))"
      using i(3) lm_invD(2,4) [OF d(2)] by simp_all
    have u: "used (lm ?t) = used (lm s)" by (simp add: t(2) lm_alter_def)
    have lk: "links (lm ?t) ! i = ?l'" using len(1) by (simp add: t(2) lm_alter_def)
    obtain k where k: "stored_link e i (cplat s) = Some k" "like k ?l" "link_idx_should_persist_nonce (lm s) ! i \<or> near (link_nonce_of k) (link_nonce_of ?l)"
      using d(3) [OF i(3)] i(1) by (auto simp: slot_ok_def)
    have near: "near (link_nonce_of k) (link_nonce_of ?l')" if "\<not> ?must" "near (link_nonce_of k) (link_nonce_of ?l)"
      using near_step [OF step that] by simp
    have fl: "link_idx_should_persist_nonce (lm ?t) ! i \<longleftrightarrow> ?must \<or> link_idx_should_persist_nonce (lm s) ! i"
      using len(2) by (simp add: t(2))
    have "like k ?l'" using k(2) by simp
    then have sk: "slot_ok near (stored_link e i (cplat ?t)) (lm ?t) i"
      unfolding slot_ok_def u lk fl t(1) k(1) using k(3) near i(1) by auto
    show ?thesis
    proof (rule link_state_slot [OF st])
      show "ok (cplat ?t)" using d(1) t(1) by simp
      show "lm_inv (MAX_SIMULTANEOUS_LINKS e) (lm ?t)" by (rule lm_inv_set_nonce [OF d(2)])
      show "only_slot i (lm s) (lm ?t)" by (simp add: t(2) only_slot_def lm_alter_def)
      show "slot_ok near (stored_link e i (cplat ?t)) (lm ?t) i" by (rule sk)
    qed (simp add: t(1))
  next
    case False
    then show ?thesis using st
      by (simp add: nexus_channel_link_manager_set_security_data_auth_nonce_def Some Let_def)
  qed
qed (simp add: nexus_channel_link_manager_set_security_data_auth_nonce_def st)

lemma reset_secs_state:
  assumes st: "link_state near e ok s"
  shows "link_state near e ok (snd (nexus_channel_link_manager_reset_link_secs_since_active e ident s))"
proof (cases "nexus_channel_link_manager_link_index_from_nxid e ident (lm s)")
  case (Some i)
  note i = index_from_nxid_Some [OF link_stateD(2) [OF st] Some]
  have "link_state near e ok (on_lm (lm_alter i ((links (lm s) ! i)\<lparr>seconds_since_active := 0\<rparr>)) s)"
    by (rule tick_state [OF st i(1)]) simp_all
  moreover have "on_lm (lm_alter i ((links (lm s) ! i)\<lparr>seconds_since_active := 0\<rparr>)) s =
      snd (nexus_channel_link_manager_reset_link_secs_since_active e ident s)"
    by (simp add: nexus_channel_link_manager_reset_link_secs_since_active_def Some on_lm_def lm_alter_def)
  ultimately show ?thesis by simp
qed (simp add: nexus_channel_link_manager_reset_link_secs_since_active_def st)

lemma make_room_state:
  assumes st: "link_state near e ok s" and r: "lm_make_room e ident mode s = Some t"
  shows "link_state near e ok t"
proof -
  have "t = s \<or> (\<exists>i < MAX_SIMULTANEOUS_LINKS e. t = nexus_channel_link_manager_clear_link_internal e i s)"
    using r index_from_nxid_Some(3) [OF link_stateD(2) [OF st]] oldest_accessory_Some [of e "lm s"]
    by (auto simp: lm_make_room_def split: option.splits if_splits)
  then show ?thesis using st clear_link_state [OF st] by auto
qed

lemma create_link_state:
  assumes st: "link_state near e ok s" and key: "length (sym_key sd) = 16"
  shows "link_state near e ok (snd (nexus_channel_link_manager_create_link e ident mode sec sd s))"
proof (cases "pending_add_link (lm s) \<or> lm_make_room e ident mode s = None")
  case True
  then show ?thesis using st by (auto simp: nexus_channel_link_manager_create_link_def)
next
  case False
  then obtain t where t: "lm_make_room e ident mode s = Some t" by auto
  let ?u = "on_lm (\<lambda>m. m\<lparr>pending_add_link := True, pending_link_to_create := zero_link\<lparr>operating_mode := mode,
    security_mode := sec, linked_device_id := ident, security_data := sd\<rparr>\<rparr>) t"
  have c: "nexus_channel_link_manager_create_link e ident mode sec sd s = (True, request_processing e ?u)"
    using False by (simp add: nexus_channel_link_manager_create_link_def t Let_def)
  have "lm_inv (MAX_SIMULTANEOUS_LINKS e) (lm ?u)"
    using lm_inv_create_link [OF link_stateD(2) [OF st] key, of ident mode sec] by (simp add: c)
  from link_state_cong [OF make_room_state [OF st t] _ this] have "link_state near e ok ?u" by simp
  then show ?thesis using request_processing_state by (simp add: c)
qed

lemma clear_all_state:
  assumes st: "link_state near e ok s"
  shows "link_state near e ok (nexus_channel_link_manager_clear_all_links e s)"
  unfolding nexus_channel_link_manager_clear_all_links_def
  by (intro request_processing_state link_state_cong [OF st])
    (use link_stateD(2) [OF st] in \<open>simp_all add: lm_inv_pending_clear\<close>)

end

section \<open>Starting up\<close>

text \<open>The link that start-up takes from the storage into slot \<open>i\<close>.\<close>

definition boot_link :: "'p channel_env \<Rightarrow> nat \<Rightarrow> 'p \<Rightarrow> nexus_channel_link option" where
  "boot_link e i p = (case stored_link e i p of None \<Rightarrow> None
     | Some l \<Rightarrow> if device_id (linked_device_id l) = 0 then None else Some (bump_nonce l))"

definition boot_ok :: "'p channel_env \<Rightarrow> 'p \<Rightarrow> bool" where
  "boot_ok e p \<longleftrightarrow> (\<forall>i j k l. i < MAX_SIMULTANEOUS_LINKS e \<longrightarrow> j < MAX_SIMULTANEOUS_LINKS e \<longrightarrow> i \<noteq> j \<longrightarrow>
     boot_link e i p = Some k \<longrightarrow> boot_link e j p = Some l \<longrightarrow> linked_device_id k \<noteq> linked_device_id l)"

definition lm_load :: "nat \<Rightarrow> nexus_channel_link \<Rightarrow> lm_this \<Rightarrow> lm_this" where
  "lm_load i l m = (lm_put i l m)\<lparr>link_idx_should_persist_nonce := (link_idx_should_persist_nonce m)[i := True]\<rparr>"

text \<open>The table after the slots below \<open>k\<close> were loaded.\<close>

definition loaded :: "'p channel_env \<Rightarrow> 'p \<Rightarrow> nat \<Rightarrow> 'p channel \<Rightarrow> bool" where
  "loaded e p k s \<longleftrightarrow> cplat s = p \<and> lm_inv (MAX_SIMULTANEOUS_LINKS e) (lm s) \<and> \<not> pending_add_link (lm s) \<and>
     (\<forall>i < MAX_SIMULTANEOUS_LINKS e. if i < k \<and> boot_link e i p \<noteq> None
        then i \<in> used (lm s) \<and> boot_link e i p = Some (links (lm s) ! i) \<and> link_idx_should_persist_nonce (lm s) ! i
        else i \<notin> used (lm s))"

context channel_port
begin

lemma load_link:
  assumes ok: "ok (cplat s)" and i: "i < MAX_SIMULTANEOUS_LINKS e"
  shows "lm_load_link e s i = (case boot_link e i (cplat s) of None \<Rightarrow> s | Some l \<Rightarrow> on_lm (lm_load i l) s)"
proof -
  let ?m = "NX_NV_BLOCK_CHANNEL_LM_LINK (i + 1)"
  have b: "nexus_channel_link_manager_index_to_nv_block i = Some ?m"
    using slots_10 [OF i] by (simp add: nexus_channel_link_manager_index_to_nv_block_def)
  have on: "on_lm (\<lambda>m. m\<lparr>links := (links m)[i := l], link_count := link_count m + 1,
      link_idx_in_use := (link_idx_in_use m)[i := True],
      link_idx_should_persist_nonce := (link_idx_should_persist_nonce m)[i := True]\<rparr>) s = on_lm (lm_load i l) s" for l
    by (cases "lm s") (simp add: on_lm_def lm_load_def lm_put_def)
  show ?thesis
    using nv_read_cases [OF ok link_block(1) [of "i + 1"], of "junk_bytes (nx e) 0 36" "replicate 36 0"]
    by (auto simp: lm_load_link_def b boot_link_def stored_link_def Let_def on)
qed

lemma boot_link_key:
  assumes ok: "ok p" and b: "boot_link e i p = Some l"
  shows "length (sym_key (security_data l)) = 16"
proof -
  obtain bs where "nexus_nv_read (nx e) (NX_NV_BLOCK_CHANNEL_LM_LINK (i + 1)) (replicate 36 0) p = (True, bs)"
      "l = bump_nonce (link_of_bytes bs)"
    using b by (auto simp: boot_link_def stored_link_def split: option.splits prod.splits bool.splits if_splits)
  then show ?thesis
    using nv_read_cases [OF ok link_block(1) [of "i + 1"], of "replicate 36 0" "replicate 36 0"]
    by (auto simp: bump_nonce_def link_of_bytes_def)
qed

lemma loaded_step:
  assumes ok: "ok p" and bo: "boot_ok e p" and k: "k < MAX_SIMULTANEOUS_LINKS e" and ld: "loaded e p k s"
  shows "loaded e p (Suc k) (lm_load_link e s k)"
proof -
  let ?n = "MAX_SIMULTANEOUS_LINKS e"
  have s: "cplat s = p" "lm_inv ?n (lm s)" "\<not> pending_add_link (lm s)" using ld by (simp_all add: loaded_def)
  have sl: "if i < k \<and> boot_link e i p \<noteq> None
        then i \<in> used (lm s) \<and> boot_link e i p = Some (links (lm s) ! i) \<and> link_idx_should_persist_nonce (lm s) ! i
        else i \<notin> used (lm s)" if "i < ?n" for i using ld that by (simp add: loaded_def)
  have t: "lm_load_link e s k = (case boot_link e k p of None \<Rightarrow> s | Some l \<Rightarrow> on_lm (lm_load k l) s)"
    using load_link [OF _ k, of s] ok s(1) by simp
  show ?thesis
  proof (cases "boot_link e k p")
    case None
    have "(i < Suc k \<and> boot_link e i p \<noteq> None) = (i < k \<and> boot_link e i p \<noteq> None)" for i
      using None by (auto simp: less_Suc_eq)
    then show ?thesis using ld None by (simp add: t loaded_def)
  next
    case (Some l)
    note d = lm_invD [OF s(2)]
    have nu: "k \<notin> used (lm s)" using sl [OF k] by simp
    have kl: "k < length (link_idx_in_use (lm s))" using k d(3) by simp
    have "linked_device_id l \<noteq> slot_id (lm s) j" if "j \<in> used (lm s)" for j
    proof -
      have j: "j < ?n" using used_less [OF that] d(3) by simp
      then have "boot_link e j p = Some (links (lm s) ! j)" "j \<noteq> k" using sl [OF j] that by (auto split: if_splits)
      then show ?thesis using bo j k Some unfolding boot_ok_def slot_id_def by blast
    qed
    then have fresh: "linked_device_id l \<notin> slot_id (lm s) ` used (lm s)" by auto
    have inv: "lm_inv ?n (lm_put k l (lm s))"
      by (rule lm_inv_put [OF s(2) k nu s(3) boot_link_key [OF ok Some] fresh])
    have "lm_inv ?n (lm_load k l (lm s))" unfolding lm_load_def by (rule lm_inv_flags [OF inv]) (simp add: d(4))
    moreover have "if i < Suc k \<and> boot_link e i p \<noteq> None
        then i \<in> used (lm_load k l (lm s)) \<and> boot_link e i p = Some (links (lm_load k l (lm s)) ! i) \<and>
          link_idx_should_persist_nonce (lm_load k l (lm s)) ! i
        else i \<notin> used (lm_load k l (lm s))" if "i < ?n" for i
    proof (cases "i = k")
      case True
      then show ?thesis using Some used_put(1) [OF kl nu, of l] d(2,4) k by (simp add: lm_load_def) (simp add: lm_put_def)
    next
      case False
      then have "(i \<in> used (lm_load k l (lm s))) = (i \<in> used (lm s))" "links (lm_load k l (lm s)) ! i = links (lm s) ! i"
        "link_idx_should_persist_nonce (lm_load k l (lm s)) ! i = link_idx_should_persist_nonce (lm s) ! i"
        using used_put(1) [OF kl nu, of l] by (simp_all add: lm_load_def) (simp add: lm_put_def)
      then show ?thesis using sl [OF that] False by (simp add: less_Suc_eq)
    qed
    ultimately show ?thesis using s Some by (simp add: t loaded_def) (simp add: lm_load_def lm_put_def)
  qed
qed

lemma register_resource_state [simp]: "lm (snd (register_resource props s)) = lm s" "cplat (snd (register_resource props s)) = cplat s"
  by (simp_all add: register_resource_def case_prod_beta)

lemma init_loaded:
  assumes ok: "ok (cplat s)" and bo: "boot_ok e (cplat s)"
  shows "loaded e (cplat s) (MAX_SIMULTANEOUS_LINKS e) (snd (nexus_channel_link_manager_init e s))"
proof -
  let ?n = "MAX_SIMULTANEOUS_LINKS e" and ?z = "on_lm (\<lambda>_. lm_zero (MAX_SIMULTANEOUS_LINKS e)) s"
  have z: "loaded e (cplat s) 0 ?z"
    using config by (auto simp: loaded_def lm_inv_def lm_zero_def used_def zero_link_def channel_config_wf_def inj_on_def)
  have "k \<le> ?n \<Longrightarrow> loaded e (cplat s) k (foldl (lm_load_link e) ?z [0..<k])" for k
    by (induction k) (use z loaded_step [OF ok bo] in \<open>simp_all add: Suc_le_eq\<close>)
  then have l: "loaded e (cplat s) ?n (foldl (lm_load_link e) ?z [0..<?n])" by simp
  then show ?thesis
    by (simp add: nexus_channel_link_manager_init_def Let_def case_prod_beta loaded_def)
qed

end

lemma bump_nonce_like [simp]: "like k (bump_nonce k)" "linked_device_id (bump_nonce k) = linked_device_id k"
  by (simp_all add: like_def bump_nonce_def)

lemma boot_link_Some:
  "boot_link e i p = Some l \<longleftrightarrow> (\<exists>k. stored_link e i p = Some k \<and> device_id (linked_device_id k) \<noteq> 0 \<and> l = bump_nonce k)"
  by (auto simp: boot_link_def split: option.splits)

lemma link_state_boot_ok:
  assumes "link_state near e ok s"
  shows "boot_ok e (cplat s)"
  unfolding boot_ok_def
proof (intro allI impI)
  fix i j k l
  assume ij: "i < MAX_SIMULTANEOUS_LINKS e" "j < MAX_SIMULTANEOUS_LINKS e" "i \<noteq> j"
    and b: "boot_link e i (cplat s) = Some k" "boot_link e j (cplat s) = Some l"
  have u: "i' \<in> used (lm s) \<and> linked_device_id l' = slot_id (lm s) i'"
    if "i' < MAX_SIMULTANEOUS_LINKS e" "boot_link e i' (cplat s) = Some l'" for i' l'
    using link_stateD(3) [OF assms that(1)] that(2)
    by (auto simp: boot_link_Some slot_ok_def slot_id_def like_def split: if_splits)
  then show "linked_device_id k \<noteq> linked_device_id l"
    using u [OF ij(1) b(1)] u [OF ij(2) b(2)] ij(3) lm_invD(6) [OF link_stateD(2) [OF assms]] by (auto simp: inj_on_def)
qed

text \<open>The calls that change the table, and the states they lead to from a device without links.\<close>

datatype lm_call =
    Lm_process u32
  | Lm_create_link nx_id u8 u8 security_mode0_data
  | Lm_clear_all_links
  | Lm_set_nonce nx_id u32
  | Lm_reset_secs_since_active nx_id

primrec link_call :: "'p channel_env \<Rightarrow> lm_call \<Rightarrow> 'p channel \<Rightarrow> 'p channel" where
  "link_call e (Lm_process secs) s = snd (nexus_channel_link_manager_process e secs s)"
| "link_call e (Lm_create_link ident mode sec sd) s = snd (nexus_channel_link_manager_create_link e ident mode sec sd s)"
| "link_call e Lm_clear_all_links s = nexus_channel_link_manager_clear_all_links e s"
| "link_call e (Lm_set_nonce ident n) s = snd (nexus_channel_link_manager_set_security_data_auth_nonce e ident n s)"
| "link_call e (Lm_reset_secs_since_active ident) s = snd (nexus_channel_link_manager_reset_link_secs_since_active e ident s)"

text \<open>Keys have 16 bytes; a link may be given any nonce that is \<open>allowed\<close> after its old one.\<close>

fun link_call_ok :: "(u32 \<Rightarrow> u32 \<Rightarrow> bool) \<Rightarrow> 'p channel_env \<Rightarrow> lm_call \<Rightarrow> 'p channel \<Rightarrow> bool" where
  "link_call_ok allowed e (Lm_create_link ident mode sec sd) s = (length (sym_key sd) = 16)"
| "link_call_ok allowed e (Lm_set_nonce ident n) s = (case nexus_channel_link_manager_link_from_nxid e ident (lm s) of
     None \<Rightarrow> True | Some l \<Rightarrow> allowed (link_nonce_of l) n)"
| "link_call_ok allowed e _ s = True"

inductive links_run :: "(u32 \<Rightarrow> u32 \<Rightarrow> bool) \<Rightarrow> 'p channel_env \<Rightarrow> ('p \<Rightarrow> bool) \<Rightarrow> 'p channel \<Rightarrow> bool" for allowed e ok where
  new_device: "ok (cplat s) \<Longrightarrow> \<forall>i < MAX_SIMULTANEOUS_LINKS e. stored_link e i (cplat s) = None \<Longrightarrow>
    links_run allowed e ok (snd (nexus_channel_link_manager_init e s))"
| call: "links_run allowed e ok s \<Longrightarrow> link_call_ok allowed e c s \<Longrightarrow> links_run allowed e ok (link_call e c s)"
| restart: "links_run allowed e ok s \<Longrightarrow> cplat t = cplat s \<Longrightarrow>
    links_run allowed e ok (snd (nexus_channel_link_manager_init e t))"

context link_store
begin

lemma loaded_link_state:
  assumes ok: "ok p" and ld: "loaded e p (MAX_SIMULTANEOUS_LINKS e) s"
  shows "link_state near e ok s"
  unfolding link_state_def
proof (intro conjI allI impI)
  show "ok (cplat s)" "lm_inv (MAX_SIMULTANEOUS_LINKS e) (lm s)" using ok ld by (simp_all add: loaded_def)
  fix i assume i: "i < MAX_SIMULTANEOUS_LINKS e"
  have p: "cplat s = p" using ld by (simp add: loaded_def)
  show "slot_ok near (stored_link e i (cplat s)) (lm s) i"
  proof (cases "boot_link e i p")
    case None
    then have "i \<notin> used (lm s)" using ld i by (simp add: loaded_def)
    then show ?thesis using None by (auto simp: slot_ok_def boot_link_def p split: option.splits if_splits)
  next
    case (Some l)
    then have "i \<in> used (lm s)" "l = links (lm s) ! i" "link_idx_should_persist_nonce (lm s) ! i"
      using ld i by (auto simp: loaded_def split: if_splits)
    then show ?thesis using Some by (auto simp: slot_ok_def boot_link_Some p)
  qed
qed

lemma init_state:
  "link_state near e ok s \<Longrightarrow> cplat t = cplat s \<Longrightarrow> link_state near e ok (snd (nexus_channel_link_manager_init e t))"
  using loaded_link_state [of "cplat s"] init_loaded [of t] link_state_boot_ok [of near e ok s] by (simp add: link_stateD(1))

lemma links_run_state:
  assumes "links_run allowed e ok s"
  shows "link_state near e ok s"
  using assms
proof induction
  case (new_device s)
  have "boot_ok e (cplat s)" using new_device(2) by (auto simp: boot_ok_def boot_link_def)
  then show ?case using loaded_link_state init_loaded new_device(1) by blast
next
  case (call s c)
  then show ?case
    by (cases c) (auto simp: process_state create_link_state clear_all_state reset_secs_state
        split: option.splits intro!: set_nonce_state)
next
  case (restart s t)
  then show ?case by (simp add: init_state)
qed

end

text \<open>Any nonces: what can be said is that 0, the nonce of a forced reset, is not stored as anything else.\<close>

abbreviation any_nonce :: "u32 \<Rightarrow> u32 \<Rightarrow> bool" where
  "any_nonce old new \<equiv> True"

definition reset_kept :: "u32 \<Rightarrow> u32 \<Rightarrow> bool" where
  "reset_kept k n \<longleftrightarrow> n = 0 \<longrightarrow> k = 0"

text \<open>
  Nonces in step: a new nonce is not lower than the old one, or is 0, the forced reset, and the first nonce after 0 does not skip a
  whole interval: one of 64 or more that follows 0 is not written (\<open>first_nonce_not_persisted\<close>). The nonce in memory is then in
  the same interval of 64 numbers as the stored one and not below it.
\<close>

definition nonce_step :: "u32 \<Rightarrow> u32 \<Rightarrow> bool" where
  "nonce_step old new \<longleftrightarrow> new = 0 \<or> old \<le> new \<and> (old = 0 \<longrightarrow> new < 64)"

definition nonce_near :: "u32 \<Rightarrow> u32 \<Rightarrow> bool" where
  "nonce_near k n \<longleftrightarrow> unat k \<le> unat n \<and> unat k div 64 = unat n div 64"

sublocale channel_port \<subseteq> free: link_store e ok reset_kept any_nonce
  by unfold_locales (auto simp: reset_kept_def nonce_must_persist_def)

sublocale channel_port \<subseteq> in_step: link_store e ok nonce_near nonce_step
proof unfold_locales
  fix k old new
  assume a: "nonce_step old new" "\<not> nonce_must_persist old new" "nonce_near k old"
  have "new \<noteq> 0" using a(2) by (auto simp: nonce_must_persist_def)
  then have o: "old \<le> new" "old = 0 \<longrightarrow> new < 64" using a(1) by (auto simp: nonce_step_def)
  show "nonce_near k new" using nonce_not_persisted [OF a(2) o] a(3) o(1) by (simp add: nonce_near_def word_le_nat_alt)
qed (simp add: nonce_near_def)

abbreviation links_reachable :: "'p channel_env \<Rightarrow> ('p \<Rightarrow> bool) \<Rightarrow> 'p channel \<Rightarrow> bool" where
  "links_reachable \<equiv> links_run any_nonce"

abbreviation links_in_step :: "'p channel_env \<Rightarrow> ('p \<Rightarrow> bool) \<Rightarrow> 'p channel \<Rightarrow> bool" where
  "links_in_step \<equiv> links_run nonce_step"

context channel_port
begin

lemmas links_reachable_state = free.links_run_state and links_in_step_state = in_step.links_run_state

text \<open>A link whose nonce is not waiting to be written comes back with its key and a higher nonce.\<close>

lemma restart_link:
  assumes st: "link_state nonce_near e ok s" and t: "cplat t = cplat s"
    and l: "nexus_channel_link_manager_link_index_from_nxid e ident (lm s) = Some i" "links (lm s) ! i = l"
    and w: "\<not> link_idx_should_persist_nonce (lm s) ! i" and dev: "device_id ident \<noteq> 0"
    and n: "unat (nonce (security_data l)) < 4294967232"
  shows "\<exists>l'. nexus_channel_link_manager_link_from_nxid e ident (lm (snd (nexus_channel_link_manager_init e t))) = Some l' \<and>
    like l l' \<and> nonce (security_data l) < nonce (security_data l')"
proof -
  let ?u = "snd (nexus_channel_link_manager_init e t)"
  note d = link_stateD [OF st]
  note i = index_from_nxid_Some [OF d(2) l(1)]
  obtain k where k: "stored_link e i (cplat s) = Some k" "like k l" "nonce_near (link_nonce_of k) (link_nonce_of l)"
    using d(3) [OF i(3)] i(1) w l(2) by (auto simp: slot_ok_def)
  have id: "linked_device_id k = ident" using k(2) i(2) l(2) by (simp add: like_def slot_id_def)
  have ld: "loaded e (cplat s) (MAX_SIMULTANEOUS_LINKS e) ?u"
    using init_loaded [of t] link_state_boot_ok [OF st] d(1) t by simp
  have b: "boot_link e i (cplat s) = Some (bump_nonce k)" using k(1) id dev by (simp add: boot_link_Some)
  then have u: "i \<in> used (lm ?u)" "links (lm ?u) ! i = bump_nonce k" using ld i(3) by (auto simp: loaded_def split: if_splits)
  have "unat (nonce (security_data k) + 64) = unat (nonce (security_data k)) + 64"
    using k(3) n by (simp add: nonce_near_def unat_word_ariths)
  then have "nonce (security_data l) < nonce (security_data (bump_nonce k))"
    using k(3) mult_div_mod_eq [of 64 "unat (nonce (security_data l))"] mult_div_mod_eq [of 64 "unat (nonce (security_data k))"]
      mod_less_divisor [of 64 "unat (nonce (security_data l))"]
    unfolding nonce_near_def word_less_nat_alt bump_nonce_def by simp
  moreover have "lm_inv (MAX_SIMULTANEOUS_LINKS e) (lm ?u)" using ld by (simp add: loaded_def)
  moreover have "like l (bump_nonce k)" using k(2) by (simp add: like_def bump_nonce_def)
  ultimately show ?thesis using link_from_nxid_iff u id by fastforce
qed

end

section \<open>Properties\<close>

text \<open>C8. In every state that the link manager reaches on a port that keeps its promises, by any calls with keys of 16 bytes and any
  nonces, restarts and power failures between calls included, the table is consistent (the count is that of the slots in
  use, no device has two links, a waiting link has a slot), storage agrees with memory on every
  link's identity, modes and key, and the nonce 0 of a forced reset is stored or waits to be written.\<close>

theorem links_reachable_invariant:
  assumes "channel_port e ok" and "links_reachable e ok s"
  shows "link_state reset_kept e ok s"
  using assms by (rule channel_port.links_reachable_state)

text \<open>A new device, and one with a link to device 7 as its controller.\<close>

definition new_links :: "product channel" where
  "new_links = snd (nexus_channel_link_manager_init blank_channel_env (channel_zero blank_channel_env blank_product))"

definition one_link :: "product channel" where
  "one_link = link_call blank_channel_env (Lm_process 1) (link_call blank_channel_env
     (Lm_create_link \<lparr>authority_id = 0, device_id = 7\<rparr> 1 0 \<lparr>sym_key = replicate 16 5, nonce = 0\<rparr>) new_links)"

lemma stored_link_blank:
  assumes "i < 10"
  shows "stored_link blank_channel_env i blank_product = None"
proof -
  let ?m = "NX_NV_BLOCK_CHANNEL_LM_LINK (i + 1)"
  have r: "nxp_common_nv_read blank_env m b blank_product = (False, b)" for m b
    by (simp add: blank_env_def sample_env_def sample_nv_read_def nv_read_def blank_product_def Let_def)
  have "unat (block_id ?m) = i + 4"
    unfolding NX_NV_BLOCK_CHANNEL_LM_LINK_def nx_common_nv_block_meta.simps
    using assms by (subst unat_word_of_nat_small) auto
  then have "block_id ?m \<noteq> 0" by auto
  then have "u16_le (block_id ?m) \<noteq> u16_le 0" by (simp add: u16_le_inject)
  moreover have "u16_le 0 = take 2 (replicate 40 0)" by (simp add: u16_le_def numeral_eq_Suc)
  ultimately have "\<not> nx_common_nv_block_valid ?m (replicate 40 0)"
    by (simp only: nx_common_nv_block_valid_def if_True not_False_eq_True)
  then show ?thesis by (simp add: stored_link_def nexus_nv_read_def r)
qed

lemma new_links_reachable: "links_reachable blank_channel_env nv_log_ok new_links"
  unfolding new_links_def by (rule links_run.new_device) (simp_all add: nv_log_ok_blank stored_link_blank)

lemma lm_new_links: "lm new_links = lm_zero 8"
proof -
  have "lm_load_link blank_channel_env s i = s" if "i < 8" "cplat s = blank_product" for s i
    using channel_port.load_link [OF channel_port_blank, of s i] that stored_link_blank [of i]
    by (simp add: nv_log_ok_blank boot_link_def)
  then have "k \<le> 8 \<Longrightarrow> foldl (lm_load_link blank_channel_env) s [0..<k] = s" if "cplat s = blank_product" for s k
    using that by (induction k) simp_all
  then have "foldl (lm_load_link blank_channel_env) (on_lm (\<lambda>_. lm_zero 8) (channel_zero blank_channel_env blank_product)) [0..<8] =
      on_lm (\<lambda>_. lm_zero 8) (channel_zero blank_channel_env blank_product)" by simp
  then show ?thesis
    by (simp add: new_links_def nexus_channel_link_manager_init_def Let_def case_prod_beta register_resource_def)
qed

lemma one_link_reachable: "links_reachable blank_channel_env nv_log_ok one_link"
  unfolding one_link_def by (intro links_run.call new_links_reachable) simp_all

lemma one_link_in_step: "links_in_step blank_channel_env nv_log_ok one_link"
  unfolding one_link_def new_links_def
  by (intro links_run.call links_run.new_device) (simp_all add: nv_log_ok_blank stored_link_blank)

lemma new_links_create:
  "nexus_channel_link_manager_create_link blank_channel_env ident mode sec sd new_links =
    (True, request_processing blank_channel_env (on_lm (\<lambda>m. m\<lparr>pending_add_link := True,
      pending_link_to_create := zero_link\<lparr>operating_mode := mode, security_mode := sec,
        linked_device_id := ident, security_data := sd\<rparr>\<rparr>) new_links))"
proof -
  have "nexus_channel_link_manager_link_index_from_nxid blank_channel_env ident (lm new_links) = None"
    by (simp add: nexus_channel_link_manager_link_index_from_nxid_def lm_new_links lm_zero_def find_slot_None)
  then show ?thesis
    by (simp add: nexus_channel_link_manager_create_link_def lm_make_room_def lm_new_links Let_def) (simp add: lm_zero_def)
qed

lemma process_no_links:
  "\<forall>i < n. \<not> link_idx_in_use (lm s) ! i \<Longrightarrow> foldl (lm_process_link e secs) s [0..<n] = s"
  by (induction n) (simp_all add: lm_process_link_def)

lemma lm_one_link:
  "lm one_link = lm_put 0 (zero_link\<lparr>operating_mode := 1, linked_device_id := \<lparr>authority_id = 0, device_id = 7\<rparr>,
     security_data := \<lparr>sym_key = replicate 16 5, nonce = 0\<rparr>\<rparr>) (lm_zero 8)"
proof -
  let ?l = "zero_link\<lparr>operating_mode := 1, security_mode := 0, linked_device_id := \<lparr>authority_id = 0, device_id = 7\<rparr>,
     security_data := \<lparr>sym_key = replicate 16 5, nonce = 0\<rparr>\<rparr>"
  define t where "t = request_processing blank_channel_env (on_lm (\<lambda>m. m\<lparr>pending_add_link := True,
      pending_link_to_create := ?l\<rparr>) new_links)"
  have m: "lm t = (lm_zero 8)\<lparr>pending_add_link := True, pending_link_to_create := ?l\<rparr>" by (simp add: t_def lm_new_links)
  have f: "foldl (lm_process_link blank_channel_env 1) t [0..<8] = t" by (rule process_no_links) (simp add: m lm_zero_def)
  have z: "find (\<lambda>i. \<not> link_idx_in_use (lm t) ! i) [0..<8] = Some 0" by (simp add: m lm_zero_def upt_rec)
  have "lm (lm_add_pending blank_channel_env t) = lm_put 0 ?l (lm t)"
    by (simp add: lm_add_pending_def z Let_def lm_put_def) (simp add: m)
  then have "lm one_link = (lm_put 0 ?l (lm t))\<lparr>pending_link_to_create := zero_link, pending_add_link := False\<rparr>"
    using m by (simp add: one_link_def new_links_create t_def [symmetric] nexus_channel_link_manager_process_def Let_def f)
  then show ?thesis by (simp add: m lm_put_def lm_zero_def zero_link_def)
qed

lemma one_link_index:
  "nexus_channel_link_manager_link_index_from_nxid blank_channel_env \<lparr>authority_id = 0, device_id = 7\<rparr> (lm one_link) = Some 0"
  by (simp add: nexus_channel_link_manager_link_index_from_nxid_def lm_one_link lm_put_def lm_zero_def upt_rec)

theorem links_reachable_invariant_witness:
  "link_state reset_kept blank_channel_env nv_log_ok one_link"
  by (rule links_reachable_invariant [OF channel_port_blank one_link_reachable])

text \<open>C33. A link that the link manager agrees to create is in the table, with the key and modes asked
  for and a nonce as given, after the next process call.\<close>

theorem created_link_established:
  assumes "channel_port e ok" and "links_reachable e ok s" and "length (sym_key sd) = 16"
    and "nexus_channel_link_manager_create_link e ident mode sec sd s = (True, t)"
  shows "nexus_channel_link_manager_link_from_nxid e ident (lm (snd (nexus_channel_link_manager_process e secs t))) =
    Some (zero_link\<lparr>linked_device_id := ident, operating_mode := mode, security_mode := sec, security_data := sd\<rparr>)"
  using created_link_found [OF link_stateD(2) [OF channel_port.links_reachable_state [OF assms(1,2)]] assms(3,4)] .

theorem created_link_established_witness:
  "nexus_channel_link_manager_link_from_nxid blank_channel_env \<lparr>authority_id = 0, device_id = 7\<rparr> (lm one_link) =
     Some (zero_link\<lparr>linked_device_id := \<lparr>authority_id = 0, device_id = 7\<rparr>, operating_mode := 1, security_mode := 0,
       security_data := \<lparr>sym_key = replicate 16 5, nonce = 0\<rparr>\<rparr>)"
  using created_link_established [OF channel_port_blank new_links_reachable _ new_links_create,
      of "\<lparr>sym_key = replicate 16 5, nonce = 0\<rparr>" "\<lparr>authority_id = 0, device_id = 7\<rparr>" 1 0 1]
  by (simp add: one_link_def new_links_create)

text \<open>C12. The nonce of a link does not fall back over a restart while nonces are in step, that is, each is 0 or not below the one
  before and the first after 0 is below 64 (property \<open>first_nonce_not_persisted\<close> shows what happens otherwise): once what is pending for a
  link has been written, and as long as its nonce is below \<open>2\<^sup>32 - 64\<close>, clearing memory and starting up brings the link back (to a device whose identifier is not 0) with the same
  identity, modes and key and with a nonce above the one it had.\<close>

theorem nonce_survives_restart:
  assumes "channel_port e ok" and "links_in_step e ok s" and "cplat t = cplat s"
    and "nexus_channel_link_manager_link_index_from_nxid e ident (lm s) = Some i"
    and "\<not> link_idx_should_persist_nonce (lm s) ! i" and "device_id ident \<noteq> 0"
    and "unat (nonce (security_data (links (lm s) ! i))) < 4294967232"
  shows "\<exists>l. nexus_channel_link_manager_link_from_nxid e ident (lm (snd (nexus_channel_link_manager_init e t))) = Some l \<and>
    like (links (lm s) ! i) l \<and> nonce (security_data (links (lm s) ! i)) < nonce (security_data l)"
  using channel_port.restart_link [OF assms(1) channel_port.links_in_step_state [OF assms(1,2)] assms(3,4) refl assms(5-7)] .

theorem nonce_survives_restart_witness:
  "\<exists>l. nexus_channel_link_manager_link_from_nxid blank_channel_env \<lparr>authority_id = 0, device_id = 7\<rparr>
     (lm (snd (nexus_channel_link_manager_init blank_channel_env (channel_zero blank_channel_env (cplat one_link))))) = Some l \<and>
     sym_key (security_data l) = replicate 16 5 \<and> 0 < nonce (security_data l)"
proof -
  have l: "links (lm one_link) ! 0 = zero_link\<lparr>operating_mode := 1, linked_device_id := \<lparr>authority_id = 0, device_id = 7\<rparr>,
     security_data := \<lparr>sym_key = replicate 16 5, nonce = 0\<rparr>\<rparr>" "\<not> link_idx_should_persist_nonce (lm one_link) ! 0"
    by (simp_all add: lm_one_link lm_put_def lm_zero_def)
  from nonce_survives_restart [OF channel_port_blank one_link_in_step
      channel_zero_simps(1) [of blank_channel_env "cplat one_link"] one_link_index l(2)]
  obtain k where "nexus_channel_link_manager_link_from_nxid blank_channel_env \<lparr>authority_id = 0, device_id = 7\<rparr>
       (lm (snd (nexus_channel_link_manager_init blank_channel_env (channel_zero blank_channel_env (cplat one_link))))) = Some k"
      "like (links (lm one_link) ! 0) k" "nonce (security_data (links (lm one_link) ! 0)) < nonce (security_data k)"
    by (auto simp: l(1))
  then show ?thesis by (simp add: l(1) like_def)
qed

text \<open>C34. A flaw in when the nonce is written: the first nonce that follows 0, after a link is created or
  after the forced reset, is not written however large it is. A link that has seen a message with
  nonce \<open>n\<close> above 64 starts again from nonce 64 after a restart, so that message can be replayed.\<close>

theorem first_nonce_not_persisted:
  assumes "channel_port e ok" and "links_reachable e ok s"
    and "nexus_channel_link_manager_link_index_from_nxid e ident (lm s) = Some i"
    and "\<not> link_idx_should_persist_nonce (lm s) ! i" and "device_id ident \<noteq> 0" and "security_mode (links (lm s) ! i) = 0"
    and "nonce (security_data (links (lm s) ! i)) = 0" and "64 < n"
  shows "let t = snd (nexus_channel_link_manager_set_security_data_auth_nonce e ident n s)
    in nonce (security_data (links (lm t) ! i)) = n \<and> \<not> link_idx_should_persist_nonce (lm t) ! i \<and>
      (\<exists>l. nexus_channel_link_manager_link_from_nxid e ident (lm (snd (nexus_channel_link_manager_init e t))) = Some l \<and>
         nonce (security_data l) = 64)"
proof -
  let ?t = "snd (nexus_channel_link_manager_set_security_data_auth_nonce e ident n s)"
  note st = channel_port.links_reachable_state [OF assms(1,2)]
  note d = link_stateD [OF st]
  note i = index_from_nxid_Some [OF d(2) assms(3)]
  obtain k where k: "stored_link e i (cplat s) = Some k" "like k (links (lm s) ! i)" "reset_kept (link_nonce_of k) (link_nonce_of (links (lm s) ! i))"
    using d(3) [OF i(3)] i(1) assms(4) by (auto simp: slot_ok_def)
  have id: "linked_device_id k = ident" using k(2) i(2) by (simp add: like_def slot_id_def)
  have k0: "nonce (security_data k) = 0" using k(3) assms(7) by (simp add: reset_kept_def)
  have "\<not> nonce_must_persist 0 n" using assms(8) by (auto simp: nonce_must_persist_def)
  then have eq: "?t = on_lm (\<lambda>m. m\<lparr>link_idx_should_persist_nonce := link_idx_should_persist_nonce m,
      links := (links m)[i := (links (lm s) ! i)\<lparr>security_data := (security_data (links (lm s) ! i))\<lparr>nonce := n\<rparr>\<rparr>]\<rparr>) s"
    by (simp add: nexus_channel_link_manager_set_security_data_auth_nonce_def assms(3,6,7) Let_def)
  have t: "cplat ?t = cplat s" "nonce (security_data (links (lm ?t) ! i)) = n" "\<not> link_idx_should_persist_nonce (lm ?t) ! i"
    unfolding eq using assms(4) i(3) lm_invD(2) [OF d(2)] by simp_all
  have ld: "loaded e (cplat s) (MAX_SIMULTANEOUS_LINKS e) (snd (nexus_channel_link_manager_init e ?t))"
    using channel_port.init_loaded [OF assms(1), of ?t] link_state_boot_ok [OF st] d(1) t(1) by simp
  have "boot_link e i (cplat s) = Some (bump_nonce k)" using k(1) id assms(5) by (simp add: boot_link_Some)
  then have u: "i \<in> used (lm (snd (nexus_channel_link_manager_init e ?t)))"
      "links (lm (snd (nexus_channel_link_manager_init e ?t))) ! i = bump_nonce k"
    using ld i(3) by (auto simp: loaded_def split: if_splits)
  have "lm_inv (MAX_SIMULTANEOUS_LINKS e) (lm (snd (nexus_channel_link_manager_init e ?t)))"
    using ld by (simp only: loaded_def)
  from link_from_nxid_iff [OF this, of ident "bump_nonce k"] u id
  have "nexus_channel_link_manager_link_from_nxid e ident (lm (snd (nexus_channel_link_manager_init e ?t))) = Some (bump_nonce k)"
    by auto
  moreover have "nonce (security_data (bump_nonce k)) = 64" by (simp add: bump_nonce_def k0)
  ultimately show ?thesis unfolding Let_def using t(2,3) by blast
qed

theorem first_nonce_not_persisted_witness:
  "\<exists>l. nexus_channel_link_manager_link_from_nxid blank_channel_env \<lparr>authority_id = 0, device_id = 7\<rparr>
     (lm (snd (nexus_channel_link_manager_init blank_channel_env
       (snd (nexus_channel_link_manager_set_security_data_auth_nonce blank_channel_env \<lparr>authority_id = 0, device_id = 7\<rparr> 100 one_link))))) =
     Some l \<and> nonce (security_data l) = 64"
proof -
  have l: "security_mode (links (lm one_link) ! 0) = 0" "nonce (security_data (links (lm one_link) ! 0)) = 0"
    "\<not> link_idx_should_persist_nonce (lm one_link) ! 0"
    by (simp_all add: lm_one_link lm_put_def lm_zero_def zero_link_def)
  from first_nonce_not_persisted [OF channel_port_blank one_link_reachable one_link_index l(3) _ l(1,2), of 100]
  show ?thesis by (simp add: Let_def)
qed

end
