(* ===== verification/Channel_Wrapper.thy ===== *)
theory Channel_Wrapper
  imports Channel_Port
begin

text \<open>
  The wrapper between Nexus Channel and the IoTivity stack (\<^verbatim>\<open>nexus_oc_wrapper.c\<close>): Nexus
  identities as IPv6 endpoints, messages from and to the network, and client requests with their
  response handlers. The stack's own functions are parameters.
\<close>

section \<open>Endpoints\<close>

abbreviation (input) IPV6 :: u32 where "IPV6 \<equiv> 8"
abbreviation (input) MULTICAST :: u32 where "MULTICAST \<equiv> 64"
abbreviation (input) NEXUS_CHANNEL_MAX_COAP_TOTAL_MESSAGE_SIZE :: nat where
  "NEXUS_CHANNEL_MAX_COAP_TOTAL_MESSAGE_SIZE \<equiv> 120"

definition NEXUS_OC_WRAPPER_MULTICAST_NX_ID :: nx_id where
  "NEXUS_OC_WRAPPER_MULTICAST_NX_ID = \<lparr>authority_id = 0xFF00, device_id = 0x158\<rparr>"

definition nexus_oc_wrapper_oc_endpoint_to_nx_id :: "oc_endpoint \<Rightarrow> nx_id" where
  "nexus_oc_wrapper_oc_endpoint_to_nx_id input_ep =
     (let a = ep_address input_ep
      in \<lparr>authority_id = ucast ((push_bit 8 (ucast (a ! 8 XOR 0x02)) :: u32) OR ucast (a ! 9)),
          device_id = push_bit 24 (ucast (a ! 10)) OR push_bit 16 (ucast (a ! 13)) OR
            push_bit 8 (ucast (a ! 14)) OR ucast (a ! 15)\<rparr>)"

definition nexus_oc_wrapper_nx_id_to_oc_endpoint :: "nx_id \<Rightarrow> oc_endpoint" where
  "nexus_oc_wrapper_nx_id_to_oc_endpoint input_id =
     (let ipv6_interface_addr = [0, 0, 0, 0xFF, 0xFE, 0, 0, 0];
          authority_id_big_endian = nexus_endian_htobe16 (authority_id input_id);
          device_id_big_endian = nexus_endian_htobe32 (device_id input_id);
          ipv6_interface_addr = memcpy_at 0 (u16_le authority_id_big_endian) ipv6_interface_addr;
          ipv6_interface_addr = ipv6_interface_addr[0 := ipv6_interface_addr ! 0 XOR 0x02];
          ipv6_interface_addr = ipv6_interface_addr[2 := ucast (device_id_big_endian AND 0xff)];
          ipv6_interface_addr = ipv6_interface_addr[5 := ucast (drop_bit 8 device_id_big_endian AND 0xff)];
          ipv6_interface_addr = ipv6_interface_addr[6 := ucast (drop_bit 16 device_id_big_endian AND 0xff)];
          ipv6_interface_addr = ipv6_interface_addr[7 := ucast (drop_bit 24 device_id_big_endian AND 0xff)];
          address = memcpy_at 8 ipv6_interface_addr ((replicate 16 0)[0 := 0xFE, 1 := 0x80]);
          flags = IPV6;
          flags = (if input_id = NEXUS_OC_WRAPPER_MULTICAST_NX_ID then flags OR MULTICAST else flags)
      in \<lparr>ep_flags = flags, ep_address = address, ep_port = 5683, ep_scope = 2, ep_version = 2112\<rparr>)"

section \<open>The network\<close>

text \<open>A null pointer is \<open>None\<close>; the count of bytes is the length of the list.\<close>

definition nx_channel_network_receive ::
    "'p channel_env \<Rightarrow> bytes option \<Rightarrow> nx_id \<Rightarrow> 'p channel \<Rightarrow> nx_channel_error \<times> 'p channel" where
  "nx_channel_network_receive e bytes_received source s =
     (case bytes_received of None \<Rightarrow> (NX_CHANNEL_ERROR_UNSPECIFIED, s)
      | Some data \<Rightarrow>
          if length data = 0 then (NX_CHANNEL_ERROR_UNSPECIFIED, s)
          else if length data > NEXUS_CHANNEL_MAX_COAP_TOTAL_MESSAGE_SIZE then (NX_CHANNEL_ERROR_MESSAGE_TOO_LARGE, s)
          else case oc_allocate_message e (cplat s) of
              (False, p) \<Rightarrow> (NX_CHANNEL_ERROR_UNSPECIFIED, on_plat (\<lambda>_. p) s)
            | (True, p) \<Rightarrow>
                let s = on_plat (\<lambda>_. oc_network_event e data (nexus_oc_wrapper_nx_id_to_oc_endpoint source) p) s
                in (NX_CHANNEL_ERROR_NONE, request_processing e s))"

definition nexus_oc_wrapper_inner_network_send ::
    "'p channel_env \<Rightarrow> bytes \<Rightarrow> oc_endpoint \<Rightarrow> bool \<Rightarrow> 'p channel \<Rightarrow> int \<times> 'p channel" where
  "nexus_oc_wrapper_inner_network_send e data ep is_multicast s =
     (let source_nx_id = nxp_channel_get_nexus_id e (cplat s);
          dest_id = (if is_multicast then NEXUS_OC_WRAPPER_MULTICAST_NX_ID else nexus_oc_wrapper_oc_endpoint_to_nx_id ep)
      in if length data > NEXUS_CHANNEL_MAX_COAP_TOTAL_MESSAGE_SIZE then (1, s)
         else (0, on_plat (nxp_channel_network_send e data source_nx_id dest_id is_multicast) s))"

definition oc_send_buffer :: "'p channel_env \<Rightarrow> bytes \<Rightarrow> oc_endpoint \<Rightarrow> 'p channel \<Rightarrow> int \<times> 'p channel" where
  "oc_send_buffer e data ep s =
     (let ep = ep\<lparr>ep_flags := ep_flags ep OR IPV6\<rparr>;
          multicast = (ep_flags ep AND MULTICAST \<noteq> 0)
      in nexus_oc_wrapper_inner_network_send e data ep multicast s)"

definition oc_send_discovery_request :: "'p channel_env \<Rightarrow> bytes \<Rightarrow> oc_endpoint \<Rightarrow> 'p channel \<Rightarrow> 'p channel" where
  "oc_send_discovery_request e data ep s = snd (oc_send_buffer e data ep s)"

section \<open>Client requests\<close>

definition do_get_request :: "'p channel_env \<Rightarrow> bool \<Rightarrow> string \<Rightarrow> nx_id \<Rightarrow> nx_channel_response_handler \<Rightarrow> 'p channel \<Rightarrow>
    nx_channel_error \<times> 'p channel" where
  "do_get_request e secured uri srv h s =
     (let s = on_wrapper (\<lambda>w. w\<lparr>active_client_get_handler := Some h\<rparr>) s;
          (success, p) = oc_do_get e uri secured srv (cplat s);
          s = request_processing e (on_plat (\<lambda>_. p) s)
      in if \<not> success then (NX_CHANNEL_ERROR_UNSPECIFIED, on_wrapper (\<lambda>w. w\<lparr>active_client_get_handler := None\<rparr>) s)
         else (NX_CHANNEL_ERROR_NONE, s))"

definition nx_channel_do_get_request_secured :: "'p channel_env \<Rightarrow> string \<Rightarrow> nx_id \<Rightarrow> nx_channel_response_handler \<Rightarrow>
    'p channel \<Rightarrow> nx_channel_error \<times> 'p channel" where
  "nx_channel_do_get_request_secured e = do_get_request e True"

definition nx_channel_do_get_request :: "'p channel_env \<Rightarrow> string \<Rightarrow> nx_id \<Rightarrow> nx_channel_response_handler \<Rightarrow>
    'p channel \<Rightarrow> nx_channel_error \<times> 'p channel" where
  "nx_channel_do_get_request e = do_get_request e False"

definition nx_channel_init_post_request :: "'p channel_env \<Rightarrow> string \<Rightarrow> nx_id \<Rightarrow> nx_channel_response_handler \<Rightarrow>
    'p channel \<Rightarrow> nx_channel_error \<times> 'p channel" where
  "nx_channel_init_post_request e uri srv h s =
     (let s = on_wrapper (\<lambda>w. w\<lparr>active_client_post_handler := Some h\<rparr>) s;
          (success, p) = oc_init_post e uri srv (cplat s);
          s = on_plat (\<lambda>_. p) s
      in if \<not> success then (NX_CHANNEL_ERROR_UNSPECIFIED, on_wrapper (\<lambda>w. w\<lparr>active_client_post_handler := None\<rparr>) s)
         else (NX_CHANNEL_ERROR_NONE, s))"

text \<open>The payload \<open>rep\<close> is what has been encoded since the request was initialised.\<close>

definition do_post_request :: "'p channel_env \<Rightarrow> bool \<Rightarrow> oc_rep \<Rightarrow> 'p channel \<Rightarrow> nx_channel_error \<times> 'p channel" where
  "do_post_request e secured rep s =
     (if active_client_post_handler (wrapper s) = None then (NX_CHANNEL_ERROR_UNSPECIFIED, s)
      else
        let (success, p) = oc_do_post e secured rep (cplat s);
            s = request_processing e (on_plat (\<lambda>_. p) s)
        in if \<not> success then (NX_CHANNEL_ERROR_UNSPECIFIED, on_wrapper (\<lambda>w. w\<lparr>active_client_post_handler := None\<rparr>) s)
           else (NX_CHANNEL_ERROR_NONE, s))"

definition nx_channel_do_post_request :: "'p channel_env \<Rightarrow> oc_rep \<Rightarrow> 'p channel \<Rightarrow> nx_channel_error \<times> 'p channel" where
  "nx_channel_do_post_request e = do_post_request e False"

definition nx_channel_do_post_request_secured :: "'p channel_env \<Rightarrow> oc_rep \<Rightarrow> 'p channel \<Rightarrow> nx_channel_error \<times> 'p channel" where
  "nx_channel_do_post_request_secured e = do_post_request e True"

text \<open>
  \<^verbatim>\<open>nexus_oc_wrapper_repack_buffer_secured\<close> is in \<open>Channel_Cose\<close>; the wrappers that pass a response to
  the active handler are in \<open>Channel_Engine\<close>.
\<close>

section \<open>Identities and endpoints\<close>

lemma nx_id_to_endpoint_address:
  "ep_address (nexus_oc_wrapper_nx_id_to_oc_endpoint i) =
     [0xFE, 0x80, 0, 0, 0, 0, 0, 0, ucast (drop_bit 8 (authority_id i)) XOR 0x02, ucast (authority_id i),
      ucast (drop_bit 24 (device_id i)), 0xFF, 0xFE, ucast (drop_bit 16 (device_id i)),
      ucast (drop_bit 8 (device_id i)), ucast (device_id i)]"
proof -
  have m: "bit (255 :: u32) n \<longleftrightarrow> n < 8" for n
    using bit_mask_iff [of 8 n, where 'a = u32] by (auto simp: mask_eq_exp_minus_1)
  have m8: "bit (255 :: int) n \<longleftrightarrow> n < 8" for n
    using bit_mask_iff [of 8 n, where 'a = int] by (auto simp: mask_eq_exp_minus_1)
  have a: "u16_le (nexus_endian_htobe16 v) = [ucast (drop_bit 8 v), ucast v]" for v
    unfolding u16_le_def nexus_endian_htobe16_def
    by (simp; intro conjI; rule bit_word_eqI; auto simp: bit_simps dest: bit_imp_le_length)
  have d: "[ucast (nexus_endian_htobe32 v AND 0xff), ucast (drop_bit 8 (nexus_endian_htobe32 v) AND 0xff),
      ucast (drop_bit 16 (nexus_endian_htobe32 v) AND 0xff), ucast (drop_bit 24 (nexus_endian_htobe32 v) AND 0xff)] =
      [ucast (drop_bit 24 v), ucast (drop_bit 16 v), ucast (drop_bit 8 v), ucast v :: u8]" for v
    unfolding nexus_endian_htobe32_def le_u32_def
    by (simp; intro conjI; rule bit_word_eqI; auto simp: m m8 bit_simps dest: bit_imp_le_length)
  show ?thesis
    using d by (simp add: nexus_oc_wrapper_nx_id_to_oc_endpoint_def Let_def a memcpy_at_def numeral_eq_Suc)
qed

lemma endpoint_of_nx_id: "nexus_oc_wrapper_oc_endpoint_to_nx_id (nexus_oc_wrapper_nx_id_to_oc_endpoint i) = i"
proof -
  have "authority_id (nexus_oc_wrapper_oc_endpoint_to_nx_id (nexus_oc_wrapper_nx_id_to_oc_endpoint i)) = authority_id i"
    unfolding nexus_oc_wrapper_oc_endpoint_to_nx_id_def Let_def nx_id_to_endpoint_address
    by (simp add: xor.assoc; rule bit_word_eqI; auto simp: bit_simps dest: bit_imp_le_length)
  moreover have "device_id (nexus_oc_wrapper_oc_endpoint_to_nx_id (nexus_oc_wrapper_nx_id_to_oc_endpoint i)) = device_id i"
    unfolding nexus_oc_wrapper_oc_endpoint_to_nx_id_def Let_def nx_id_to_endpoint_address
  proof (simp, rule bit_word_eqI)
    fix n assume "n < LENGTH(32)"
    then show "bit (push_bit 24 (ucast (ucast (drop_bit 24 (device_id i)) :: u8)) OR
        push_bit 16 (ucast (ucast (drop_bit 16 (device_id i)) :: u8)) OR
        push_bit 8 (ucast (ucast (drop_bit 8 (device_id i)) :: u8)) OR ucast (ucast (device_id i) :: u8) :: u32) n =
        bit (device_id i) n"
      by (cases "n < 16"; cases "n < 24") (auto simp: bit_simps)
  qed
  ultimately show ?thesis by simp
qed

text \<open>A message keeps the identity of its sender and reaches the device it is for: the Nexus identity
  read from the endpoint made for a Nexus identity is that identity, and a buffer sent to that endpoint
  is handed to the network, unchanged, for that device, as a multicast only if the identity is the
  multicast address.\<close>

theorem endpoint_keeps_identity:
  assumes "length data \<le> 120"
  shows "nexus_oc_wrapper_oc_endpoint_to_nx_id (nexus_oc_wrapper_nx_id_to_oc_endpoint i) = i \<and>
    oc_send_buffer e data (nexus_oc_wrapper_nx_id_to_oc_endpoint i) s =
      (0, on_plat (nxp_channel_network_send e data (nxp_channel_get_nexus_id e (cplat s)) i
             (i = NEXUS_OC_WRAPPER_MULTICAST_NX_ID)) s)"
proof
  let ?ep = "nexus_oc_wrapper_nx_id_to_oc_endpoint i"
  show "nexus_oc_wrapper_oc_endpoint_to_nx_id ?ep = i" by (rule endpoint_of_nx_id)
  have f: "nexus_oc_wrapper_oc_endpoint_to_nx_id (?ep\<lparr>ep_flags := x\<rparr>) = i" for x
    using endpoint_of_nx_id [of i] by (simp add: nexus_oc_wrapper_oc_endpoint_to_nx_id_def)
  have g: "ep_flags ?ep = (if i = NEXUS_OC_WRAPPER_MULTICAST_NX_ID then 72 else 8)"
    by (simp add: nexus_oc_wrapper_nx_id_to_oc_endpoint_def Let_def)
  show "oc_send_buffer e data ?ep s = (0, on_plat (nxp_channel_network_send e data
      (nxp_channel_get_nexus_id e (cplat s)) i (i = NEXUS_OC_WRAPPER_MULTICAST_NX_ID)) s)"
    unfolding oc_send_buffer_def Let_def nexus_oc_wrapper_inner_network_send_def f g
    using assms by (simp add: f)
qed

theorem endpoint_keeps_identity_witness:
  "let i = \<lparr>authority_id = 0x0102, device_id = 0x94837158\<rparr>; e = blank_channel_env; s = channel_zero e blank_product
   in nexus_oc_wrapper_oc_endpoint_to_nx_id (nexus_oc_wrapper_nx_id_to_oc_endpoint i) = i \<and>
      fst (oc_send_buffer e [1, 2, 3] (nexus_oc_wrapper_nx_id_to_oc_endpoint i) s) = 0"
  using endpoint_keeps_identity [of "[1, 2, 3]" "\<lparr>authority_id = 0x0102, device_id = 0x94837158\<rparr>" blank_channel_env
      "channel_zero blank_channel_env blank_product"]
  by (simp add: Let_def)

end
