(* ===== verification/Channel_Handshake.thy ===== *)
theory Channel_Handshake
  imports Channel_Wrapper
begin

text \<open>
  The link handshake (\<^verbatim>\<open>nexus/src/nexus_channel_res_link_hs.c\<close>). A controller that received a challenge
  number from the origin derives a link key from it and a random salt, and multicasts the salt with a
  MAC. The accessory tries the challenge numbers of its unused handshake indices, marks the one that
  matches as used, creates the link and answers with the MAC of the inverted salt; the controller
  checks that and creates its end of the link.
\<close>

section \<open>Key derivation\<close>

abbreviation (input) LINK_HANDSHAKE_ACCESSORY_TIMEOUT_SECONDS :: u16 where "LINK_HANDSHAKE_ACCESSORY_TIMEOUT_SECONDS \<equiv> 300"
abbreviation (input) LINK_HANDSHAKE_CONTROLLER_TIMEOUT_SECONDS :: u16 where "LINK_HANDSHAKE_CONTROLLER_TIMEOUT_SECONDS \<equiv> 3600"
abbreviation (input) LINK_HANDSHAKE_CONTROLLER_RETRY_SECONDS :: u16 where "LINK_HANDSHAKE_CONTROLLER_RETRY_SECONDS \<equiv> 5"
abbreviation (input) NEXUS_CHANNEL_LINK_MAX_CHAL_DATA_BYTES :: u8 where "NEXUS_CHANNEL_LINK_MAX_CHAL_DATA_BYTES \<equiv> 16"
abbreviation (input) SIMULTANEOUS_LINK_HANDSHAKES :: nat where "SIMULTANEOUS_LINK_HANDSHAKES \<equiv> 4"

definition NEXUS_CHANNEL_PUBLIC_KEY_DERIVATION_KEY_1 :: bytes where
  "NEXUS_CHANNEL_PUBLIC_KEY_DERIVATION_KEY_1 =
     [0x8A, 0x5E, 0xE2, 0xB4, 0xA0, 0xCF, 0xF4, 0x93, 0xE5, 0xED, 0xA2, 0xD1, 0xE4, 0xC4, 0x5B, 0x25]"

definition NEXUS_CHANNEL_PUBLIC_KEY_DERIVATION_KEY_2 :: bytes where
  "NEXUS_CHANNEL_PUBLIC_KEY_DERIVATION_KEY_2 =
     [0xE2, 0x6F, 0xDB, 0x34, 0xE4, 0xDD, 0x40, 0xBC, 0x63, 0x35, 0xC6, 0x09, 0xAA, 0xDF, 0xAA, 0xC4]"

definition res_link_hs_mode0_compute_inverted_salt_mac :: "bytes \<Rightarrow> bytes \<Rightarrow> bytes" where
  "res_link_hs_mode0_compute_inverted_salt_mac salt_bytes key =
     nexus_check_compute key (map (\<lambda>b. b XOR 0xFF) (take 8 salt_bytes)) 8"

definition res_link_hs_generate_link_key :: "u32 \<Rightarrow> bytes \<Rightarrow> u8 \<Rightarrow> bytes \<Rightarrow> bytes \<Rightarrow> bytes" where
  "res_link_hs_generate_link_key challenge_int salt_bytes salt_len derivation_key_a derivation_key_b =
     (let key_derivation_material = memcpy_at 0 (take (unat salt_len) salt_bytes) (replicate 12 0);
          key_derivation_material = memcpy_at 8 (u32_le (nexus_endian_htole32 challenge_int)) key_derivation_material;
          key_part_a = nexus_check_compute derivation_key_a key_derivation_material 12;
          key_part_b = nexus_check_compute derivation_key_b key_derivation_material 12
      in key_part_a @ key_part_b)"

section \<open>The accessory\<close>

definition NX_NV_BLOCK_CHANNEL_LINK_HS_ACCESSORY :: nx_common_nv_block_meta where
  "NX_NV_BLOCK_CHANNEL_LINK_HS_ACCESSORY = \<lparr>block_id = 2, block_length = 10\<rparr>"

definition stored_accessory_bytes :: "stored_accessory \<Rightarrow> bytes" where
  "stored_accessory_bytes a = u32_le (handshake_index a) @ hs_received_ids a"

definition stored_accessory_of_bytes :: "bytes \<Rightarrow> stored_accessory" where
  "stored_accessory_of_bytes b = \<lparr>handshake_index = le_u32 (take 4 b), hs_received_ids = drop 4 b\<rparr>"

definition nexus_channel_res_link_hs_reset_server_state :: "'p channel \<Rightarrow> 'p channel" where
  "nexus_channel_res_link_hs_reset_server_state s = on_hs (\<lambda>h. h\<lparr>server := zero_server\<rparr>) s"

definition link_hs_props :: nx_channel_resource_props where
  "link_hs_props = \<lparr>rp_uri = ''/h'', rp_if_masks = [OC_IF_RW_MASK, OC_IF_BASELINE_MASK], rp_get_handler = Some LINK_HS_SERVER_GET, rp_get_secured = False,
     rp_post_handler = Some LINK_HS_SERVER_POST, rp_post_secured = False\<rparr>"

definition nexus_channel_res_link_hs_init :: "'p channel_env \<Rightarrow> 'p channel \<Rightarrow> 'p channel" where
  "nexus_channel_res_link_hs_init e s =
     (let s = (if SUPPORT_ACCESSORY_MODE e then
            let s = nexus_channel_res_link_hs_reset_server_state s;
                s = on_hs (\<lambda>h. h\<lparr>stored_acc := \<lparr>handshake_index = 15, hs_received_ids = [0, 0]\<rparr>\<rparr>) s;
                b = snd (nexus_nv_read (nx e) NX_NV_BLOCK_CHANNEL_LINK_HS_ACCESSORY
                      (stored_accessory_bytes (stored_acc (hs s))) (cplat s));
                s = on_hs (\<lambda>h. h\<lparr>stored_acc := stored_accessory_of_bytes b\<rparr>) s
            in snd (register_resource link_hs_props s)
          else s)
      in if SUPPORT_CONTROLLER_MODE e
         then on_hs (\<lambda>h. h\<lparr>clients := replicate SIMULTANEOUS_LINK_HANDSHAKES zero_client\<rparr>) s else s)"

definition nexus_channel_res_link_hs_get_current_window :: "stored_accessory \<Rightarrow> nexus_window" where
  "nexus_channel_res_link_hs_get_current_window a =
     nexus_util_window_init (hs_received_ids a) 2 (handshake_index a) 15 8"

text \<open>The challenge number that belongs to a handshake index.\<close>

definition index_challenge :: "bytes \<Rightarrow> u32 \<Rightarrow> u32" where
  "index_challenge origin_key i =
     (let challenge_hash = nexus_check_compute origin_key (u32_le (nexus_endian_htole32 i)) 4
      in ucast (nexus_check_value_as_uint64 challenge_hash AND 0xffffffff) mod 1000000)"

text \<open>One round of the search: the link key when index \<open>i\<close> is unused and gives the received MAC.\<close>

definition try_challenge :: "bytes \<Rightarrow> bytes \<Rightarrow> bytes \<Rightarrow> nexus_window \<Rightarrow> u32 \<Rightarrow> bytes option" where
  "try_challenge origin_key salt_bytes rcvd_mac window i =
     (if nexus_util_window_id_flag_already_set window i then None
      else
        let computed_link_key = res_link_hs_generate_link_key (index_challenge origin_key i) salt_bytes 8
              NEXUS_CHANNEL_PUBLIC_KEY_DERIVATION_KEY_1 NEXUS_CHANNEL_PUBLIC_KEY_DERIVATION_KEY_2;
            computed_mac = nexus_check_compute computed_link_key salt_bytes 8
        in if computed_mac = rcvd_mac then Some computed_link_key else None)"

text \<open>
  The loop over \<^verbatim>\<open>i = start_index .. end_index\<close>. The window covers 24 indices, so 24 rounds are
  enough when it does not touch the end of the number range (\<open>challenge_loop_find\<close>).
\<close>

fun challenge_loop :: "nat \<Rightarrow> (u32 \<Rightarrow> bytes option) \<Rightarrow> u32 \<Rightarrow> u32 \<Rightarrow> (u32 \<times> bytes) option" where
  "challenge_loop 0 f i end_index = None"
| "challenge_loop (Suc n) f i end_index =
     (if i \<le> end_index
      then case f i of Some key \<Rightarrow> Some (i, key) | None \<Rightarrow> challenge_loop n f (i + 1) end_index
      else None)"

text \<open>The matched index and the derived key; \<open>None\<close> is the return value \<^verbatim>\<open>false\<close>.\<close>

definition nexus_channel_res_link_hs_server_validate_challenge ::
    "'p channel_env \<Rightarrow> bytes \<Rightarrow> bytes \<Rightarrow> nexus_window \<Rightarrow> 'p channel \<Rightarrow> (u32 \<times> bytes) option" where
  "nexus_channel_res_link_hs_server_validate_challenge e salt_bytes rcvd_mac window s =
     (let origin_key = nxp_channel_symmetric_origin_key e (cplat s);
          start_index = wn_center_index window - ucast (wn_flags_below window);
          end_index = wn_center_index window + ucast (wn_flags_above window)
      in challenge_loop 24 (try_challenge origin_key salt_bytes rcvd_mac window) start_index end_index)"

definition nexus_channel_res_link_hs_server_get :: "'p channel_env \<Rightarrow> oc_interface_mask \<Rightarrow> 'p channel \<Rightarrow> 'p channel" where
  "nexus_channel_res_link_hs_server_get e if_mask s =
     (let base = (if if_mask = OC_IF_BASELINE then oc_baseline_interface e LINK_HS_SERVER_GET else []);
          v = server (hs s)
      in oc_send_response OC_STATUS_OK (base @
           [(''cD'', OC_REP_BYTE_STRING (take (unat (chal_data_len v)) (chal_data v))),
            (''rD'', OC_REP_BYTE_STRING (take (unat (resp_data_len v)) (resp_data v))),
            (''cM'', OC_REP_INT (uint (chal_mode v))), (''lS'', OC_REP_INT (uint (link_security_mode v))),
            (''st'', OC_REP_INT (case hs_state v of LINK_HANDSHAKE_STATE_IDLE \<Rightarrow> 0 | LINK_HANDSHAKE_STATE_ACTIVE \<Rightarrow> 1)),
            (''tI'', OC_REP_INT (uint (hs_seconds_since_init v))), (''tT'', OC_REP_INT 300),
            (''sL'', OC_REP_INT_ARRAY [0]), (''sC'', OC_REP_INT_ARRAY [0])]) s)"

text \<open>The length of acceptable challenge data, 0 if there are none; lengths are kept in one byte.\<close>

definition nexus_channel_res_link_hs_challenge_data_length :: "string \<Rightarrow> bytes \<Rightarrow> u8" where
  "nexus_channel_res_link_hs_challenge_data_length name data =
     (if take 2 name = ''cD'' then
        let len = word_of_nat (length data) :: u8
        in if len > NEXUS_CHANNEL_LINK_MAX_CHAL_DATA_BYTES then 0 else len
      else 0)"

definition nexus_channel_res_link_hs_challenge_mode_supported :: "u8 \<Rightarrow> bool" where
  "nexus_channel_res_link_hs_challenge_mode_supported mode = (mode \<in> set [0])"

definition nexus_channel_res_link_hs_link_security_mode_supported :: "u8 \<Rightarrow> bool" where
  "nexus_channel_res_link_hs_link_security_mode_supported mode = (mode \<in> set [0])"

definition nexus_channel_res_link_hs_server_post_parse_payload_chal_data ::
    "string \<Rightarrow> bytes \<Rightarrow> nexus_link_hs_accessory \<Rightarrow> bool \<times> nexus_link_hs_accessory" where
  "nexus_channel_res_link_hs_server_post_parse_payload_chal_data name data v =
     (let len = nexus_channel_res_link_hs_challenge_data_length name data
      in if len = 16 then (True, v\<lparr>chal_data := memcpy_at 0 (take 16 data) (chal_data v), chal_data_len := len\<rparr>)
         else (False, v))"

definition nexus_channel_res_link_hs_server_post_parse_payload_requested_modes ::
    "u8 \<Rightarrow> string \<Rightarrow> nexus_link_hs_accessory \<Rightarrow> bool \<times> nexus_link_hs_accessory" where
  "nexus_channel_res_link_hs_server_post_parse_payload_requested_modes received_value name v =
     (if take 2 name = ''cM'' then
        if nexus_channel_res_link_hs_challenge_mode_supported received_value
        then (True, v\<lparr>chal_mode := received_value\<rparr>) else (False, v)
      else if take 2 name = ''lS'' then
        if nexus_channel_res_link_hs_link_security_mode_supported received_value
        then (True, v\<lparr>link_security_mode := received_value\<rparr>) else (False, v)
      else (False, v))"

text \<open>The loop over the payload; it stops at the first property that is not valid.\<close>

fun parse_payload_loop :: "oc_rep \<Rightarrow> u8 \<Rightarrow> nexus_link_hs_accessory \<Rightarrow> bool \<times> u8 \<times> nexus_link_hs_accessory" where
  "parse_payload_loop [] properties_missing v = (False, properties_missing, v)"
| "parse_payload_loop ((name, val) # rest) properties_missing v =
     (case (case val of
          OC_REP_BYTE_STRING data \<Rightarrow> nexus_channel_res_link_hs_server_post_parse_payload_chal_data name data v
        | OC_REP_INT i \<Rightarrow>
            nexus_channel_res_link_hs_server_post_parse_payload_requested_modes (word_of_int i) name v
        | _ \<Rightarrow> (False, v)) of
       (True, v) \<Rightarrow> parse_payload_loop rest (properties_missing - 1) v
     | (False, v) \<Rightarrow> (True, properties_missing, v))"

definition nexus_channel_res_link_hs_server_post_parse_payload ::
    "oc_rep \<Rightarrow> nexus_link_hs_accessory \<Rightarrow> bool \<times> nexus_link_hs_accessory" where
  "nexus_channel_res_link_hs_server_post_parse_payload rep v =
     (if rep = [] then (False, v)
      else case parse_payload_loop rep 3 v of
        (payload_error, properties_missing, v) \<Rightarrow> (\<not> payload_error \<and> properties_missing = 0, v))"

definition nexus_channel_res_link_hs_server_send_error_response :: "'p channel_env \<Rightarrow> 'p channel \<Rightarrow> 'p channel" where
  "nexus_channel_res_link_hs_server_send_error_response e s =
     oc_send_response OC_STATUS_BAD_REQUEST [] (nexus_channel_res_link_hs_reset_server_state s)"

text \<open>The window's flags are the stored ones, updated in place; its centre is a copy.\<close>

definition nexus_channel_res_link_hs_server_post_finalize_success_state ::
    "'p channel_env \<Rightarrow> u32 \<Rightarrow> nexus_window \<Rightarrow> bytes \<Rightarrow> 'p channel \<Rightarrow> 'p channel" where
  "nexus_channel_res_link_hs_server_post_finalize_success_state e matched_handshake_index window derived_link_key s =
     (let s = (if handshake_index (stored_acc (hs s)) < matched_handshake_index
               then on_hs (\<lambda>h. h\<lparr>stored_acc := (stored_acc h)\<lparr>handshake_index := matched_handshake_index\<rparr>\<rparr>) s else s);
          window = snd (nexus_util_window_set_id_flag window matched_handshake_index);
          s = on_hs (\<lambda>h. h\<lparr>stored_acc := (stored_acc h)\<lparr>hs_received_ids := bt_bytes (wn_flags window)\<rparr>\<rparr>) s;
          s = nv_update e NX_NV_BLOCK_CHANNEL_LINK_HS_ACCESSORY (stored_accessory_bytes (stored_acc (hs s))) s;
          computed_mac = res_link_hs_mode0_compute_inverted_salt_mac (chal_data (server (hs s))) derived_link_key
      in on_hs (\<lambda>h. h\<lparr>server := (server h)\<lparr>resp_data := memcpy_at 0 computed_mac (resp_data (server h)),
           resp_data_len := 8, hs_state := LINK_HANDSHAKE_STATE_IDLE\<rparr>\<rparr>) s)"

definition nexus_channel_res_link_hs_server_post :: "'p channel_env \<Rightarrow> nx_id \<Rightarrow> oc_rep \<Rightarrow> 'p channel \<Rightarrow> 'p channel" where
  "nexus_channel_res_link_hs_server_post e controller_id rep s =
     (let s = on_hs (\<lambda>h. h\<lparr>server := (server h)\<lparr>hs_state := LINK_HANDSHAKE_STATE_ACTIVE\<rparr>\<rparr>) s;
          (parsed, v) = nexus_channel_res_link_hs_server_post_parse_payload rep (server (hs s));
          s = on_hs (\<lambda>h. h\<lparr>server := v\<rparr>) s
      in if \<not> parsed then nexus_channel_res_link_hs_server_send_error_response e s
         else
           let received_mac = take 8 (drop 8 (chal_data (server (hs s))));
               window = nexus_channel_res_link_hs_get_current_window (stored_acc (hs s))
           in case nexus_channel_res_link_hs_server_validate_challenge e (chal_data (server (hs s))) received_mac window s of
               None \<Rightarrow> nexus_channel_res_link_hs_server_send_error_response e s
             | Some (matched_handshake_index, derived_link_key) \<Rightarrow>
                 let (link_created, s) = nexus_channel_link_manager_create_link e controller_id
                       CHANNEL_LINK_OPERATING_MODE_ACCESSORY (link_security_mode (server (hs s)))
                       \<lparr>sym_key = derived_link_key, nonce = 0\<rparr> s
                 in if \<not> link_created then nexus_channel_res_link_hs_server_send_error_response e s
                    else
                      let s = nexus_channel_res_link_hs_server_post_finalize_success_state e
                            matched_handshake_index window derived_link_key s;
                          v = server (hs s)
                      in oc_send_response OC_STATUS_CREATED
                           [(''rD'', OC_REP_BYTE_STRING (take (unat (resp_data_len v)) (resp_data v)))] s)"

section \<open>The controller\<close>

definition nexus_channel_res_link_hs_link_mode_3_send_post ::
    "'p channel_env \<Rightarrow> nexus_link_hs_controller \<Rightarrow> 'p channel \<Rightarrow> bool \<times> 'p channel" where
  "nexus_channel_res_link_hs_link_mode_3_send_post e c s =
     (let s = on_plat (oc_drop_client_cb e ''/h'') s
      in case oc_init_post e ''/h'' NEXUS_OC_WRAPPER_MULTICAST_NX_ID (cplat s) of
          (False, p) \<Rightarrow> (False, on_plat (\<lambda>_. p) s)
        | (True, p) \<Rightarrow>
            (case oc_do_post e False
                 [(''cD'', OC_REP_BYTE_STRING (take (unat (send_chal_data_len c)) (send_chal_data c))),
                  (''cM'', OC_REP_INT (uint (requested_chal_mode c))),
                  (''lS'', OC_REP_INT (uint (requested_security_mode c)))] p of
               (False, p) \<Rightarrow> (False, on_plat (\<lambda>_. p) s)
             | (True, p) \<Rightarrow> (True, request_processing e (on_plat (\<lambda>_. p) s))))"

definition on_client :: "nat \<Rightarrow> (nexus_link_hs_controller \<Rightarrow> nexus_link_hs_controller) \<Rightarrow> 'p channel \<Rightarrow> 'p channel" where
  "on_client i f s = on_hs (\<lambda>h. h\<lparr>clients := (clients h)[i := f (clients h ! i)]\<rparr>) s"

text \<open>Two random numbers make the salt.\<close>

definition random_salt :: "'p channel_env \<Rightarrow> 'p \<Rightarrow> bytes \<times> 'p" where
  "random_salt e p =
     (case nxp_channel_random_value e p of (r0, p) \<Rightarrow>
      case nxp_channel_random_value e p of (r1, p) \<Rightarrow> (u32_le r0 @ u32_le r1, p))"

definition nexus_channel_res_link_hs_link_mode_3 :: "'p channel_env \<Rightarrow> u32 \<Rightarrow> 'p channel \<Rightarrow> bool \<times> 'p channel" where
  "nexus_channel_res_link_hs_link_mode_3 e accessory_challenge s =
     (case find (\<lambda>i. cl_state (clients (hs s) ! i) = LINK_HANDSHAKE_STATE_IDLE) [0..<SIMULTANEOUS_LINK_HANDSHAKES] of
        None \<Rightarrow> (False, s)
      | Some i \<Rightarrow>
          let (salt_bytes, p) = random_salt e (cplat s);
              s = on_plat (\<lambda>_. p) s;
              key = res_link_hs_generate_link_key accessory_challenge salt_bytes 8
                NEXUS_CHANNEL_PUBLIC_KEY_DERIVATION_KEY_1 NEXUS_CHANNEL_PUBLIC_KEY_DERIVATION_KEY_2;
              mac = nexus_check_compute key salt_bytes 8;
              s = on_client i (\<lambda>c. c\<lparr>salt := salt_bytes, link_key := key, salt_mac := mac,
                    cl_state := LINK_HANDSHAKE_STATE_ACTIVE, cl_seconds_since_init := 0, last_post_seconds := 0,
                    send_chal_data := salt_bytes @ mac, send_chal_data_len := 16,
                    requested_chal_mode := 0, requested_security_mode := 0\<rparr>) s
          in (True, request_processing e (notify_event e NXP_CHANNEL_EVENT_LINK_HANDSHAKE_STARTED s)))"

text \<open>
  The loop over the payload of a response to the handshake of client \<open>i\<close>: \<open>False\<close> when one of the
  early returns is taken.
\<close>

fun client_post_loop :: "'p channel_env \<Rightarrow> nx_id \<Rightarrow> nat \<Rightarrow> oc_rep \<Rightarrow> 'p channel \<Rightarrow> bool \<times> 'p channel" where
  "client_post_loop e accessory_id i [] s = (True, s)"
| "client_post_loop e accessory_id i ((name, val) # rest) s =
     (if take 2 name = ''rD'' then
        case val of
          OC_REP_BYTE_STRING data \<Rightarrow>
            let len = word_of_nat (length data) :: u8;
                c = clients (hs s) ! i;
                computed_mac = res_link_hs_mode0_compute_inverted_salt_mac (salt c) (link_key c)
            in if len \<noteq> 8 then (False, s)
               else if computed_mac \<noteq> take 8 data then (False, s)
               else
                 (case nexus_channel_link_manager_create_link e accessory_id
                     CHANNEL_LINK_OPERATING_MODE_CONTROLLER (requested_security_mode c)
                     \<lparr>sym_key = link_key c, nonce = 0\<rparr> s of
                    (False, s) \<Rightarrow> (False, s)
                  | (True, s) \<Rightarrow> client_post_loop e accessory_id i rest (on_client i (\<lambda>_. zero_client) s))
        | _ \<Rightarrow> (False, s)
      else client_post_loop e accessory_id i rest s)"

record oc_client_response =
  response_code :: oc_status
  response_endpoint :: nx_id
  response_user_data :: "nat option"
  response_payload :: oc_rep

definition nexus_channel_res_link_hs_client_post :: "'p channel_env \<Rightarrow> oc_client_response option \<Rightarrow> 'p channel \<Rightarrow> 'p channel" where
  "nexus_channel_res_link_hs_client_post e data s =
     (case data of None \<Rightarrow> s
      | Some d \<Rightarrow>
          if response_code d \<noteq> OC_STATUS_CREATED then s
          else case response_user_data d of None \<Rightarrow> s
            | Some i \<Rightarrow>
                (case client_post_loop e (response_endpoint d) i (response_payload d) s of
                   (False, s) \<Rightarrow> s | (True, s) \<Rightarrow> request_processing e s))"

section \<open>Processing\<close>

definition process_server :: "'p channel_env \<Rightarrow> u32 \<Rightarrow> u32 \<times> 'p channel \<Rightarrow> u32 \<times> 'p channel" where
  "process_server e seconds_elapsed = (\<lambda>(next_call_secs, s).
     if hs_state (server (hs s)) \<noteq> LINK_HANDSHAKE_STATE_IDLE then
       let s = on_hs (\<lambda>h. h\<lparr>server := (server h)\<lparr>hs_seconds_since_init :=
             ucast (ucast (hs_seconds_since_init (server h)) + seconds_elapsed)\<rparr>\<rparr>) s
       in if hs_seconds_since_init (server (hs s)) > LINK_HANDSHAKE_ACCESSORY_TIMEOUT_SECONDS
          then (next_call_secs, notify_event e NXP_CHANNEL_EVENT_LINK_HANDSHAKE_TIMED_OUT
                 (nexus_channel_res_link_hs_reset_server_state s))
          else (1, s)
     else (next_call_secs, s))"

definition process_client :: "'p channel_env \<Rightarrow> u32 \<Rightarrow> u32 \<times> 'p channel \<Rightarrow> nat \<Rightarrow> u32 \<times> 'p channel" where
  "process_client e seconds_elapsed = (\<lambda>(next_call_secs, s) i.
     if cl_state (clients (hs s) ! i) = LINK_HANDSHAKE_STATE_IDLE then (next_call_secs, s)
     else
       let s = on_client i (\<lambda>c. c\<lparr>cl_seconds_since_init := ucast (ucast (cl_seconds_since_init c) + seconds_elapsed)\<rparr>) s;
           c = clients (hs s) ! i;
           (next_call_secs, s) =
             (if cl_seconds_since_init c > LINK_HANDSHAKE_CONTROLLER_TIMEOUT_SECONDS
              then (next_call_secs, on_client i (\<lambda>_. zero_client) s)
              else if cl_state c = LINK_HANDSHAKE_STATE_ACTIVE \<and>
                cl_seconds_since_init c - last_post_seconds c \<ge> LINK_HANDSHAKE_CONTROLLER_RETRY_SECONDS
              then
                let s = on_client i (\<lambda>c. c\<lparr>last_post_seconds := cl_seconds_since_init c\<rparr>) s
                in (0, snd (nexus_channel_res_link_hs_link_mode_3_send_post e (clients (hs s) ! i) s))
              else (next_call_secs, s))
       in (u32min (ucast LINK_HANDSHAKE_CONTROLLER_RETRY_SECONDS) next_call_secs, s))"

definition nexus_channel_res_link_hs_process :: "'p channel_env \<Rightarrow> u32 \<Rightarrow> 'p channel \<Rightarrow> u32 \<times> 'p channel" where
  "nexus_channel_res_link_hs_process e seconds_elapsed s =
     (let r = (NEXUS_COMMON_IDLE_SECONDS, s);
          r = (if SUPPORT_ACCESSORY_MODE e then process_server e seconds_elapsed r else r)
      in if SUPPORT_CONTROLLER_MODE e
         then foldl (process_client e seconds_elapsed) r [0..<SIMULTANEOUS_LINK_HANDSHAKES] else r)"

end
