(* ===== verification/Channel_Origin.thy ===== *)
theory Channel_Origin
  imports Channel_Handshake
begin

text \<open>
  Origin commands (\<^verbatim>\<open>nexus/src/nexus_channel_om.c\<close>): messages of decimal digits from the origin to a
  controller, applied through \<^verbatim>\<open>nexus_channel_core_apply_origin_command\<close>. A command carries no
  identifier; the identifiers of the receive window that are not used up yet are tried until the
  MAC fits, and the one that fits is then used up.
\<close>

section \<open>Messages\<close>

abbreviation (input) NEXUS_CHANNEL_OM_COMMAND_ASCII_DIGITS_MAX_LENGTH :: nat where
  "NEXUS_CHANNEL_OM_COMMAND_ASCII_DIGITS_MAX_LENGTH \<equiv> 20"

datatype om_command_type =
    GENERIC_CONTROLLER_ACTION | ACCESSORY_ACTION_UNLOCK | ACCESSORY_ACTION_UNLINK
  | CREATE_ACCESSORY_LINK_MODE_3 | COMMAND_TYPE_INVALID

definition om_command_type_value :: "om_command_type \<Rightarrow> u8" where
  "om_command_type_value t = (case t of GENERIC_CONTROLLER_ACTION \<Rightarrow> 0 | ACCESSORY_ACTION_UNLOCK \<Rightarrow> 1
     | ACCESSORY_ACTION_UNLINK \<Rightarrow> 2 | CREATE_ACCESSORY_LINK_MODE_3 \<Rightarrow> 9 | COMMAND_TYPE_INVALID \<Rightarrow> 255)"

text \<open>
  The union \<^verbatim>\<open>nexus_channel_om_command_body\<close>: its members are read only for the type they were
  written for, so each is a field of its own.
\<close>

record om_command_message =
  om_type :: om_command_type
  action_type :: u32
  trunc_digits_int :: u32
  trunc_digits_count :: u8
  computed_accessory_id :: nx_id
  accessory_challenge :: u32
  om_auth :: u32
  computed_command_id :: u32

definition zero_om_message :: om_command_message where
  "zero_om_message = \<lparr>om_type = COMMAND_TYPE_INVALID, action_type = 0, trunc_digits_int = 0, trunc_digits_count = 0,
     computed_accessory_id = NULL_NEXUS_ID, accessory_challenge = 0, om_auth = 0, computed_command_id = 0\<rparr>"

definition nexus_channel_om_ascii_validate_command_type :: "u8 \<Rightarrow> om_command_type" where
  "nexus_channel_om_ascii_validate_command_type type_int =
     (if type_int > 2 \<and> type_int \<noteq> 9 then COMMAND_TYPE_INVALID
      else if type_int = 0 then GENERIC_CONTROLLER_ACTION
      else if type_int = 1 then ACCESSORY_ACTION_UNLOCK
      else if type_int = 2 then ACCESSORY_ACTION_UNLINK
      else CREATE_ACCESSORY_LINK_MODE_3)"

section \<open>Parsing\<close>

text \<open>Each extraction returns its verdict, the digits left and the message.\<close>

definition extract_body_controller_action ::
    "nexus_digits \<Rightarrow> om_command_message \<Rightarrow> bool \<times> nexus_digits \<times> om_command_message" where
  "extract_body_controller_action d m =
     (case nexus_digits_pull_uint8 d 2 of (v, d) \<Rightarrow>
        let m = m\<lparr>action_type := ucast v\<rparr>
        in (action_type m \<noteq> ucast UINT8_MAX \<and> nexus_digits_remaining d > 0, d, m))"

definition extract_body_accessory_action ::
    "nexus_digits \<Rightarrow> om_command_message \<Rightarrow> bool \<times> nexus_digits \<times> om_command_message" where
  "extract_body_accessory_action d m =
     (let m = m\<lparr>trunc_digits_count := 1\<rparr>
      in case nexus_digits_try_pull_uint32 d (trunc_digits_count m) False of (v, d, underrun) \<Rightarrow>
        (\<not> underrun \<and> nexus_digits_remaining d > 0, d, m\<lparr>trunc_digits_int := v\<rparr>))"

definition extract_body_create_link ::
    "nexus_digits \<Rightarrow> om_command_message \<Rightarrow> bool \<times> nexus_digits \<times> om_command_message" where
  "extract_body_create_link d m =
     (case nexus_digits_try_pull_uint32 d 6 False of (v, d, underrun) \<Rightarrow>
        (\<not> underrun \<and> nexus_digits_remaining d > 0, d, m\<lparr>accessory_challenge := v\<rparr>))"

function om_mathmod10 :: "int \<Rightarrow> u8" where
  "om_mathmod10 x = (if x < 0 then om_mathmod10 (x + 10) else word_of_int (x mod 10))"
  by auto
termination by (relation "measure (\<lambda>x. nat (- x))") auto

declare om_mathmod10.simps [simp del]

text \<open>
  \<^verbatim>\<open>deinterleaved_digits->chars\<close>. The generator yields eight bytes; the code asks it for one per
  digit, and what it copies beyond the eighth is not known.
\<close>

definition nexus_channel_om_deinterleave_digits :: "'p channel_env \<Rightarrow> nexus_digits \<Rightarrow> u32 \<Rightarrow> bytes" where
  "nexus_channel_om_deinterleave_digits e d check_value =
     (let non_mac_digit_count = unat (ucast (dg_length d - 6) :: u8);
          prng = nexus_check_compute_pseudorandom_bytes NEXUS_INTEGRITY_CHECK_FIXED_00_KEY
            (u32_le check_value) 4 (word_of_nat non_mac_digit_count);
          prng_byte = (\<lambda>i. if i < length prng then prng ! i else uninit (nx e) i)
      in map (\<lambda>i. om_mathmod10 (uint (dg_chars d ! i - 48) - uint (prng_byte i)) + 48) [0..<non_mac_digit_count] @
         take 6 (drop non_mac_digit_count (dg_chars d)))"

definition nexus_channel_om_ascii_parse_message ::
    "'p channel_env \<Rightarrow> nexus_digits \<Rightarrow> om_command_message \<Rightarrow> bool \<times> om_command_message" where
  "nexus_channel_om_ascii_parse_message e d m =
     (let digits_remaining = ucast (nexus_digits_remaining d) :: u8
      in if digits_remaining \<le> 6 then (False, m)
         else
           let d = d\<lparr>dg_position := dg_length d - 6\<rparr>
           in case nexus_digits_try_pull_uint32 d 6 False of (auth, d, underrun) \<Rightarrow>
             let m = m\<lparr>om_auth := auth\<rparr>;
                 deinterleaved = nexus_digits_init (nexus_channel_om_deinterleave_digits e d auth) (dg_length d)
             in case nexus_digits_pull_uint8 deinterleaved 1 of (command_type_int, deinterleaved) \<Rightarrow>
               let m = m\<lparr>om_type := nexus_channel_om_ascii_validate_command_type command_type_int\<rparr>;
                   (parsed, deinterleaved, m) = (case om_type m of
                       GENERIC_CONTROLLER_ACTION \<Rightarrow> extract_body_controller_action deinterleaved m
                     | ACCESSORY_ACTION_UNLOCK \<Rightarrow> extract_body_accessory_action deinterleaved m
                     | ACCESSORY_ACTION_UNLINK \<Rightarrow> extract_body_accessory_action deinterleaved m
                     | CREATE_ACCESSORY_LINK_MODE_3 \<Rightarrow> extract_body_create_link deinterleaved m
                     | COMMAND_TYPE_INVALID \<Rightarrow> (False, deinterleaved, m))
               in (\<not> underrun \<and> parsed \<and> nexus_digits_remaining deinterleaved = 6, m))"

section \<open>Authentication\<close>

definition nexus_channel_om_ascii_auth_arbitrary_bytes :: "bytes \<Rightarrow> u8 \<Rightarrow> bytes \<Rightarrow> u32" where
  "nexus_channel_om_ascii_auth_arbitrary_bytes data bytes_count key =
     (let check_val = nexus_check_compute key data (ucast bytes_count);
          lower_check = ucast (nexus_check_value_as_uint64 check_val AND 0xffffffff) :: u32
      in lower_check mod 1000000)"

text \<open>The 15 bytes the MAC is computed over: command identifier and type come first.\<close>

definition om_header_bytes :: "om_command_message \<Rightarrow> bytes" where
  "om_header_bytes m =
     (memcpy_at 0 (u32_le (nexus_endian_htole32 (computed_command_id m))) (replicate 15 0))
       [4 := om_command_type_value (om_type m)]"

text \<open>The accessories the code has written into it, in the order of the array.\<close>

definition accessories_list :: "nx_id list" where
  "accessories_list = [\<lparr>authority_id = 0x0111, device_id = 0x92873891\<rparr>, \<lparr>authority_id = 0x0102, device_id = 0x94837158\<rparr>,
     \<lparr>authority_id = 0x9041, device_id = 0x00000019\<rparr>]"

text \<open>
  The loop over the accessories, from the last one down. After a match the byte count is not put
  back and the search goes on.
\<close>

fun accessory_loop ::
    "nx_id list \<Rightarrow> bytes \<Rightarrow> u8 \<Rightarrow> bytes \<Rightarrow> bool \<Rightarrow> om_command_message \<Rightarrow> bool \<times> om_command_message" where
  "accessory_loop [] compute_bytes bytes_count key success m = (success, m)"
| "accessory_loop (acc # rest) compute_bytes bytes_count key success m =
     (if device_id acc mod 10 \<noteq> trunc_digits_int m then accessory_loop rest compute_bytes bytes_count key success m
      else
        let compute_bytes = memcpy_at 5 (u16_le (nexus_endian_htole16 (authority_id acc))) compute_bytes;
            bytes_count = bytes_count + 2;
            compute_bytes = memcpy_at 7 (u32_le (nexus_endian_htole32 (device_id acc))) compute_bytes;
            bytes_count = bytes_count + 4;
            computed_check = nexus_channel_om_ascii_auth_arbitrary_bytes compute_bytes bytes_count key
        in if computed_check = om_auth m
           then accessory_loop rest compute_bytes bytes_count key True (m\<lparr>computed_accessory_id := acc\<rparr>)
           else accessory_loop rest compute_bytes (bytes_count - 6) key success m)"

definition nexus_channel_om_ascii_message_infer_inner_compute_auth ::
    "om_command_message \<Rightarrow> bytes \<Rightarrow> bool \<times> om_command_message" where
  "nexus_channel_om_ascii_message_infer_inner_compute_auth m key =
     (case om_type m of
        GENERIC_CONTROLLER_ACTION \<Rightarrow>
          (nexus_channel_om_ascii_auth_arbitrary_bytes
             (memcpy_at 5 (u32_le (nexus_endian_htole32 (action_type m))) (om_header_bytes m)) 9 key = om_auth m, m)
      | CREATE_ACCESSORY_LINK_MODE_3 \<Rightarrow>
          (nexus_channel_om_ascii_auth_arbitrary_bytes
             (memcpy_at 5 (u32_le (nexus_endian_htole32 (accessory_challenge m))) (om_header_bytes m)) 9 key = om_auth m, m)
      | COMMAND_TYPE_INVALID \<Rightarrow> (False, m)
      | _ \<Rightarrow> if trunc_digits_count m = 1
             then accessory_loop (rev accessories_list) (om_header_bytes m) 5 key False m
             else (False, m))"

text \<open>
  The loop over the window. It covers 40 identifiers, so 40 rounds are enough when it does not
  touch the end of the number range.
\<close>

fun infer_fields_loop :: "nat \<Rightarrow> nexus_window \<Rightarrow> bytes \<Rightarrow> om_command_message \<Rightarrow> bool \<times> om_command_message" where
  "infer_fields_loop 0 w key m = (False, m)"
| "infer_fields_loop (Suc n) w key m =
     (if nexus_util_window_id_within_window w (computed_command_id m) then
        if nexus_util_window_id_flag_already_set w (computed_command_id m)
        then infer_fields_loop n w key (m\<lparr>computed_command_id := computed_command_id m + 1\<rparr>)
        else case nexus_channel_om_ascii_message_infer_inner_compute_auth m key of
            (True, m) \<Rightarrow> (True, m)
          | (False, m) \<Rightarrow> infer_fields_loop n w key (m\<lparr>computed_command_id := computed_command_id m + 1\<rparr>)
      else (False, m))"

definition nexus_channel_om_ascii_infer_fields_compute_auth ::
    "om_command_message \<Rightarrow> nexus_window \<Rightarrow> bytes \<Rightarrow> bool \<times> om_command_message" where
  "nexus_channel_om_ascii_infer_fields_compute_auth m window key =
     infer_fields_loop 40 window key (m\<lparr>computed_command_id := wn_center_index window - ucast (wn_flags_below window)\<rparr>)"

section \<open>Applying\<close>

definition nexus_channel_core_apply_origin_command_generic_controller_action ::
    "'p channel_env \<Rightarrow> u32 \<Rightarrow> 'p channel \<Rightarrow> bool \<times> 'p channel" where
  "nexus_channel_core_apply_origin_command_generic_controller_action e action s =
     (if action = 0 then (True, nexus_channel_link_manager_clear_all_links e s) else (False, s))"

definition nexus_channel_core_apply_origin_command ::
    "'p channel_env \<Rightarrow> om_command_message \<Rightarrow> 'p channel \<Rightarrow> bool \<times> 'p channel" where
  "nexus_channel_core_apply_origin_command e m s =
     (case om_type m of
        CREATE_ACCESSORY_LINK_MODE_3 \<Rightarrow> nexus_channel_res_link_hs_link_mode_3 e (accessory_challenge m) s
      | GENERIC_CONTROLLER_ACTION \<Rightarrow> nexus_channel_core_apply_origin_command_generic_controller_action e (action_type m) s
      | _ \<Rightarrow> (False, s))"

definition NX_NV_BLOCK_CHANNEL_OM :: nx_common_nv_block_meta where
  "NX_NV_BLOCK_CHANNEL_OM = \<lparr>block_id = 3, block_length = 12\<rparr>"

definition om_stored_bytes :: "om_stored \<Rightarrow> bytes" where
  "om_stored_bytes st = u32_le (command_index st) @ om_received_ids st"

definition om_stored_of_bytes :: "bytes \<Rightarrow> om_stored" where
  "om_stored_of_bytes b = \<lparr>command_index = le_u32 (take 4 b), om_received_ids = drop 4 b\<rparr>"

definition read_om :: "'p channel_env \<Rightarrow> 'p channel \<Rightarrow> 'p channel" where
  "read_om e s = on_om (\<lambda>st. om_stored_of_bytes
     (snd (nexus_nv_read (nx e) NX_NV_BLOCK_CHANNEL_OM (om_stored_bytes st) (cplat s)))) s"

definition nexus_channel_om_init :: "'p channel_env \<Rightarrow> 'p channel \<Rightarrow> 'p channel" where
  "nexus_channel_om_init e s = read_om e (on_om (\<lambda>_. \<lparr>command_index = 31, om_received_ids = [0, 0, 0, 0]\<rparr>) s)"

definition om_window :: "om_stored \<Rightarrow> nexus_window" where
  "om_window st = nexus_util_window_init (om_received_ids st) 4 (command_index st) 31 8"

text \<open>The window's flags are the stored ones, updated in place.\<close>

definition nexus_channel_om_ascii_apply_message ::
    "'p channel_env \<Rightarrow> om_command_message \<Rightarrow> 'p channel \<Rightarrow> bool \<times> 'p channel" where
  "nexus_channel_om_ascii_apply_message e m s =
     (let origin_key = nxp_channel_symmetric_origin_key e (cplat s);
          s = read_om e s;
          window = om_window (om s)
      in case nexus_channel_om_ascii_infer_fields_compute_auth m window origin_key of
          (False, m) \<Rightarrow> (False, s)
        | (True, m) \<Rightarrow>
            (case nexus_channel_core_apply_origin_command e m s of
               (False, s) \<Rightarrow> (False, s)
             | (True, s) \<Rightarrow>
                 let window = snd (nexus_util_window_set_id_flag window (computed_command_id m));
                     s = on_om (\<lambda>_. \<lparr>command_index = wn_center_index window,
                           om_received_ids = bt_bytes (wn_flags window)\<rparr>) s
                 in (True, nv_update e NX_NV_BLOCK_CHANNEL_OM (om_stored_bytes (om s)) s)))"

text \<open>The command's bytes; the check that they are digits runs over an eight-bit index.\<close>

definition nexus_channel_om_handle_ascii_origin_command :: "'p channel_env \<Rightarrow> bytes \<Rightarrow> 'p channel \<Rightarrow> bool \<times> 'p channel" where
  "nexus_channel_om_handle_ascii_origin_command e command_data s =
     (if length command_data > NEXUS_CHANNEL_OM_COMMAND_ASCII_DIGITS_MAX_LENGTH then (False, s)
      else if list_ex (\<lambda>v. v < 0x30 \<or> v > 0x39) command_data then (False, s)
      else
        let digit_chars = memcpy_at 0 command_data (replicate 20 0);
            command_digits = nexus_digits_init digit_chars (word_of_nat (length command_data))
        in case nexus_channel_om_ascii_parse_message e command_digits zero_om_message of
            (False, m) \<Rightarrow> (False, s)
          | (True, m) \<Rightarrow> nexus_channel_om_ascii_apply_message e m s)"

datatype nx_channel_origin_command_bearer_type = BEARER_TYPE_ASCII_DIGITS | BEARER_TYPE_OTHER

definition nx_channel_handle_origin_command ::
    "'p channel_env \<Rightarrow> nx_channel_origin_command_bearer_type \<Rightarrow> bytes \<Rightarrow> 'p channel \<Rightarrow> nx_channel_error \<times> 'p channel" where
  "nx_channel_handle_origin_command e bearer_type command_data s =
     (if SUPPORT_CONTROLLER_MODE e then
        let (parsed, s) = (case bearer_type of
              BEARER_TYPE_ASCII_DIGITS \<Rightarrow> nexus_channel_om_handle_ascii_origin_command e command_data s
            | BEARER_TYPE_OTHER \<Rightarrow> (False, s))
        in (if parsed then NX_CHANNEL_ERROR_NONE else NX_CHANNEL_ERROR_ACTION_REJECTED, s)
      else (NX_CHANNEL_ERROR_UNSPECIFIED, s))"

end
