(* ===== verification/Channel_Credit.thy ===== *)
theory Channel_Credit
  imports Channel_Wrapper
begin

text \<open>
  The PAYG credit resource (\<^verbatim>\<open>nexus_channel_res_payg_credit.c\<close>): a controller sends its credit to
  its accessories in turn, an accessory takes its credit from its controller and loses it when it
  does not hear from it.
\<close>

section \<open>Credit and mode\<close>

abbreviation (input) INTERVAL_BETWEEN_PAYG_CREDIT_POST_SECONDS :: u32 where "INTERVAL_BETWEEN_PAYG_CREDIT_POST_SECONDS \<equiv> 2"
abbreviation (input) PAYG_CREDIT_POST_UPDATE_CYCLE_TIME_SECONDS :: u32 where "PAYG_CREDIT_POST_UPDATE_CYCLE_TIME_SECONDS \<equiv> 25"
abbreviation (input) FOLLOWER_MAX_TIME_BETWEEN_UPDATES_SECONDS :: u32 where
  "FOLLOWER_MAX_TIME_BETWEEN_UPDATES_SECONDS \<equiv> 3 * PAYG_CREDIT_POST_UPDATE_CYCLE_TIME_SECONDS"
abbreviation (input) REMAINING_UNLOCKED_SENTINEL_VALUE :: u32 where "REMAINING_UNLOCKED_SENTINEL_VALUE \<equiv> UINT32_MAX"

definition credit_mode_value :: "payg_credit_operating_mode \<Rightarrow> int" where
  "credit_mode_value m = (case m of CREDIT_MODE_INDEPENDENT \<Rightarrow> 0 | CREDIT_MODE_LEADING \<Rightarrow> 1
     | CREDIT_MODE_FOLLOWING \<Rightarrow> 2 | CREDIT_MODE_RELAYING \<Rightarrow> 3)"

definition nexus_channel_res_payg_credit_get_latest :: "'p channel_env \<Rightarrow> nxp_common_payg_state \<Rightarrow> 'p channel \<Rightarrow> u32" where
  "nexus_channel_res_payg_credit_get_latest e current_payg_state s =
     (if current_payg_state = NXP_COMMON_PAYG_STATE_UNLOCKED then REMAINING_UNLOCKED_SENTINEL_VALUE
      else nxp_common_payg_credit_get_remaining e (cplat s))"

definition nexus_channel_res_payg_credit_get_credit_operating_mode :: "'p channel_env \<Rightarrow> lm_this \<Rightarrow> payg_credit_operating_mode" where
  "nexus_channel_res_payg_credit_get_credit_operating_mode e m =
     (let has_controller = nexus_channel_link_manager_has_linked_controller e m \<noteq> None;
          has_accessory = nexus_channel_link_manager_has_linked_accessory e m
      in if has_accessory \<and> has_controller then CREDIT_MODE_RELAYING
         else if has_accessory then CREDIT_MODE_LEADING
         else if has_controller then CREDIT_MODE_FOLLOWING
         else CREDIT_MODE_INDEPENDENT)"

definition nexus_channel_payg_credit_update_from_post_or_get :: "'p channel_env \<Rightarrow> u32 \<Rightarrow> 'p channel \<Rightarrow> 'p channel" where
  "nexus_channel_payg_credit_update_from_post_or_get e new_remaining s =
     (let s = on_credit (\<lambda>c. c\<lparr>remaining := new_remaining\<rparr>) s;
          s = (if remaining (credit s) \<noteq> REMAINING_UNLOCKED_SENTINEL_VALUE
               then on_plat (nxp_channel_payg_credit_set e (remaining (credit s))) s
               else on_plat (nxp_channel_payg_credit_unlock e) s)
      in if SUPPORT_ACCESSORY_MODE e \<and>
           nexus_channel_res_payg_credit_get_credit_operating_mode e (lm s) = CREDIT_MODE_FOLLOWING
         then on_credit (\<lambda>c. c\<lparr>follower_mode_seconds_since_credit_updated := 0\<rparr>) s else s)"

definition nexus_channel_res_payg_credit_calculate_initial_credit ::
    "'p channel_env \<Rightarrow> payg_credit_operating_mode \<Rightarrow> u32 \<Rightarrow> u32" where
  "nexus_channel_res_payg_credit_calculate_initial_credit e current_mode current_remaining_credit =
     (case current_mode of
        CREDIT_MODE_INDEPENDENT \<Rightarrow>
          if SUPPORT_CONTROLLER_MODE e then current_remaining_credit
          else if current_remaining_credit = REMAINING_UNLOCKED_SENTINEL_VALUE then current_remaining_credit
          else 0
      | CREDIT_MODE_FOLLOWING \<Rightarrow>
          if current_remaining_credit = REMAINING_UNLOCKED_SENTINEL_VALUE then current_remaining_credit else 0
      | _ \<Rightarrow> current_remaining_credit)"

definition pc_props :: nx_channel_resource_props where
  "pc_props = \<lparr>rp_uri = ''/nx/pc'', rp_if_masks = [OC_IF_RW_MASK, OC_IF_BASELINE_MASK], rp_get_handler = Some PAYG_CREDIT_GET, rp_get_secured = False,
     rp_post_handler = Some PAYG_CREDIT_POST, rp_post_secured = True\<rparr>"

definition nexus_channel_res_payg_credit_init :: "'p channel_env \<Rightarrow> 'p channel \<Rightarrow> 'p channel" where
  "nexus_channel_res_payg_credit_init e s =
     (let payg_state = nxp_common_payg_state_get_current (nx e) (cplat s);
          stored_remaining = nexus_channel_res_payg_credit_get_latest e payg_state s;
          mode = nexus_channel_res_payg_credit_get_credit_operating_mode e (lm s);
          new_remaining = nexus_channel_res_payg_credit_calculate_initial_credit e mode stored_remaining;
          s = on_credit (\<lambda>c. c\<lparr>credit_mode := mode, remaining := new_remaining\<rparr>) s;
          s = (if new_remaining \<noteq> stored_remaining
               then on_plat (nxp_channel_payg_credit_set e new_remaining) s else s);
          s = (if SUPPORT_ACCESSORY_MODE e
               then on_credit (\<lambda>c. c\<lparr>follower_mode_seconds_since_credit_updated := 0\<rparr>) s else s);
          s = (if SUPPORT_CONTROLLER_MODE e
               then on_credit (\<lambda>c. c\<lparr>cr_last_payg_state := payg_state, last_updated_nexus_id := NULL_NEXUS_ID,
                  cycle_first_nexus_id := NULL_NEXUS_ID,
                  seconds_since_last_post := INTERVAL_BETWEEN_PAYG_CREDIT_POST_SECONDS,
                  seconds_since_last_cycle_start := PAYG_CREDIT_POST_UPDATE_CYCLE_TIME_SECONDS\<rparr>) s else s);
          s = snd (register_resource pc_props s)
      in if SUPPORT_ACCESSORY_MODE e \<and> (mode = CREDIT_MODE_FOLLOWING \<or> mode = CREDIT_MODE_RELAYING)
         then case nexus_channel_link_manager_has_linked_controller e (lm s) of
             Some controller_id \<Rightarrow> snd (nx_channel_do_get_request_secured e ''nx/pc'' controller_id PAYG_CREDIT_GET_RESPONSE s)
           | None \<Rightarrow> s
         else s)"

section \<open>Credit in messages\<close>

text \<open>The loop over the payload. The result is the error state and the new credit.\<close>

fun extract_credit_loop :: "oc_rep \<Rightarrow> bool \<times> u32 \<Rightarrow> bool \<times> u32" where
  "extract_credit_loop [] r = r"
| "extract_credit_loop ((name, val) # rest) (error_state, new_remaining) =
     (if name = ''re'' then
        case val of
          OC_REP_INT i \<Rightarrow>
            if i > uint UINT32_MAX then extract_credit_loop rest (error_state, new_remaining)
            else extract_credit_loop rest (False, word_of_int i)
        | _ \<Rightarrow> extract_credit_loop rest (error_state, new_remaining)
      else extract_credit_loop rest (error_state, new_remaining))"

definition nexus_channel_payg_credit_evaluate_payload_extract_credit :: "oc_rep \<Rightarrow> bool \<times> u32" where
  "nexus_channel_payg_credit_evaluate_payload_extract_credit rep = extract_credit_loop rep (True, 0)"

definition nexus_channel_res_payg_credit_get_response_handler :: "'p channel_env \<Rightarrow> oc_rep \<Rightarrow> 'p channel \<Rightarrow> 'p channel" where
  "nexus_channel_res_payg_credit_get_response_handler e rep s =
     (case nexus_channel_payg_credit_evaluate_payload_extract_credit rep of
        (error_state, new_remaining) \<Rightarrow>
          if \<not> error_state then nexus_channel_payg_credit_update_from_post_or_get e new_remaining s else s)"

text \<open>The handler of responses to a credit POST only logs.\<close>

definition nexus_channel_res_payg_credit_post_response_handler :: "nx_id \<Rightarrow> 'p channel \<Rightarrow> 'p channel" where
  "nexus_channel_res_payg_credit_post_response_handler source s = s"

definition nexus_channel_res_payg_credit_post_handler :: "'p channel_env \<Rightarrow> oc_rep \<Rightarrow> 'p channel \<Rightarrow> 'p channel" where
  "nexus_channel_res_payg_credit_post_handler e rep s =
     (case nexus_channel_payg_credit_evaluate_payload_extract_credit rep of
        (error_state, new_remaining) \<Rightarrow>
          if \<not> error_state then
            let s = nexus_channel_payg_credit_update_from_post_or_get e new_remaining s
            in oc_send_response OC_STATUS_CHANGED
                 [(''re'', OC_REP_INT (uint (remaining (credit s)))), (''un'', OC_REP_INT 1)] s
          else oc_send_response OC_STATUS_BAD_REQUEST [] s)"

section \<open>Processing\<close>

text \<open>The part for a device that takes its credit from a controller; returns the time to sleep.\<close>

definition payg_credit_follow :: "'p channel_env \<Rightarrow> u32 \<Rightarrow> payg_credit_operating_mode \<Rightarrow> 'p channel \<Rightarrow> u32 \<times> 'p channel" where
  "payg_credit_follow e seconds_elapsed current_operating_mode s =
     (let min_sleep = NEXUS_COMMON_IDLE_SECONDS
      in if remaining (credit s) \<noteq> REMAINING_UNLOCKED_SENTINEL_VALUE then
           if current_operating_mode = CREDIT_MODE_FOLLOWING then
             let s = on_credit (\<lambda>c. c\<lparr>follower_mode_seconds_since_credit_updated :=
                   follower_mode_seconds_since_credit_updated c + seconds_elapsed\<rparr>) s
             in if follower_mode_seconds_since_credit_updated (credit s) \<ge> FOLLOWER_MAX_TIME_BETWEEN_UPDATES_SECONDS
                then (min_sleep, on_credit (\<lambda>c. c\<lparr>remaining := 0, follower_mode_seconds_since_credit_updated := 0\<rparr>)
                       (on_plat (nxp_channel_payg_credit_set e 0) s))
                else (FOLLOWER_MAX_TIME_BETWEEN_UPDATES_SECONDS - follower_mode_seconds_since_credit_updated (credit s), s)
           else if current_operating_mode = CREDIT_MODE_INDEPENDENT \<and> credit_mode (credit s) = CREDIT_MODE_FOLLOWING
           then (min_sleep, on_credit (\<lambda>c. c\<lparr>remaining := 0\<rparr>) (on_plat (nxp_channel_payg_credit_set e 0) s))
           else (min_sleep, s)
         else (min_sleep, s))"

text \<open>The timers of a cycle of updates set so that the next update is sent at once.\<close>

definition reset_cycle_timers :: "credit_this \<Rightarrow> credit_this" where
  "reset_cycle_timers c = c\<lparr>seconds_since_last_post := INTERVAL_BETWEEN_PAYG_CREDIT_POST_SECONDS,
     seconds_since_last_cycle_start := PAYG_CREDIT_POST_UPDATE_CYCLE_TIME_SECONDS\<rparr>"

text \<open>
  The update of the accessory \<open>next_id\<close>: the interval between cycles and between messages, then the
  message.
\<close>

definition payg_credit_send :: "'p channel_env \<Rightarrow> nx_id \<Rightarrow> 'p channel \<Rightarrow> u32 \<times> 'p channel" where
  "payg_credit_send e next_id s =
     (if cycle_first_nexus_id (credit s) = next_id \<and>
        seconds_since_last_cycle_start (credit s) < PAYG_CREDIT_POST_UPDATE_CYCLE_TIME_SECONDS
      then (PAYG_CREDIT_POST_UPDATE_CYCLE_TIME_SECONDS - seconds_since_last_cycle_start (credit s), s)
      else
        let s = (if cycle_first_nexus_id (credit s) = next_id
                 then on_credit (\<lambda>c. c\<lparr>seconds_since_last_cycle_start := 0\<rparr>) s else s)
        in if seconds_since_last_post (credit s) < INTERVAL_BETWEEN_PAYG_CREDIT_POST_SECONDS
           then (INTERVAL_BETWEEN_PAYG_CREDIT_POST_SECONDS - seconds_since_last_post (credit s), s)
           else
             let s = on_credit (\<lambda>c. c\<lparr>last_updated_nexus_id := next_id, seconds_since_last_post := 0\<rparr>) s
             in case nx_channel_init_post_request e ''nx/pc'' next_id PAYG_CREDIT_POST_RESPONSE s of
                 (err, s) \<Rightarrow>
                   if err \<noteq> NX_CHANNEL_ERROR_NONE then (INTERVAL_BETWEEN_PAYG_CREDIT_POST_SECONDS, s)
                   else case nx_channel_do_post_request_secured e [(''re'', OC_REP_INT (uint (remaining (credit s))))] s of
                     (err, s) \<Rightarrow>
                       if err \<noteq> NX_CHANNEL_ERROR_NONE then (INTERVAL_BETWEEN_PAYG_CREDIT_POST_SECONDS, s)
                       else
                         let s = (if cycle_first_nexus_id (credit s) = NULL_NEXUS_ID
                              then on_credit (\<lambda>c. c\<lparr>cycle_first_nexus_id := next_id, seconds_since_last_cycle_start := 0\<rparr>) s
                              else s)
                         in (INTERVAL_BETWEEN_PAYG_CREDIT_POST_SECONDS, s))"

text \<open>
  The part for a device with accessories. That there is a next one is asserted by the code
  (\<open>next_accessory_found\<close>).
\<close>

definition payg_credit_lead :: "'p channel_env \<Rightarrow> nxp_common_payg_state \<Rightarrow> u32 \<Rightarrow> u32 \<Rightarrow> 'p channel \<Rightarrow> u32 \<times> 'p channel" where
  "payg_credit_lead e payg_state seconds_elapsed min_sleep s =
     (let num_links = nexus_channel_link_manager_accessory_link_count e (lm s);
          s = on_credit (\<lambda>c. (if payg_state \<noteq> cr_last_payg_state c then reset_cycle_timers c else c)
                \<lparr>cr_last_payg_state := payg_state\<rparr>) s
      in if num_links = 0 then (min_sleep, s)
         else
           let stored_ids_still_linked =
                 (nexus_channel_link_manager_link_from_nxid e (last_updated_nexus_id (credit s)) (lm s) \<noteq> None \<and>
                  nexus_channel_link_manager_link_from_nxid e (cycle_first_nexus_id (credit s)) (lm s) \<noteq> None);
               s = (if \<not> stored_ids_still_linked
                    then on_credit (\<lambda>c. reset_cycle_timers
                           (c\<lparr>last_updated_nexus_id := NULL_NEXUS_ID, cycle_first_nexus_id := NULL_NEXUS_ID\<rparr>)) s
                    else s);
               previous = (if last_updated_nexus_id (credit s) = NULL_NEXUS_ID then None
                           else Some (last_updated_nexus_id (credit s)));
               s' = on_credit (\<lambda>c. c\<lparr>seconds_since_last_post := seconds_since_last_post c + seconds_elapsed,
                   seconds_since_last_cycle_start := seconds_since_last_cycle_start c + seconds_elapsed\<rparr>) s
           in case nexus_channel_link_manager_next_linked_accessory e previous (lm s) of
               Some next_id \<Rightarrow> payg_credit_send e next_id s'
             | None \<Rightarrow> (min_sleep, s'))"

definition nexus_channel_res_payg_credit_process :: "'p channel_env \<Rightarrow> u32 \<Rightarrow> 'p channel \<Rightarrow> u32 \<times> 'p channel" where
  "nexus_channel_res_payg_credit_process e seconds_elapsed s =
     (let payg_state = nxp_common_payg_state_get_current (nx e) (cplat s);
          latest_credit = nexus_channel_res_payg_credit_get_latest e payg_state s;
          s = on_credit (\<lambda>c. c\<lparr>remaining := latest_credit\<rparr>) s;
          current_operating_mode = nexus_channel_res_payg_credit_get_credit_operating_mode e (lm s);
          (min_sleep, s) = (if SUPPORT_ACCESSORY_MODE e
              then payg_credit_follow e seconds_elapsed current_operating_mode s
              else (NEXUS_COMMON_IDLE_SECONDS, s));
          s = on_credit (\<lambda>c. c\<lparr>credit_mode := current_operating_mode\<rparr>) s
      in if SUPPORT_CONTROLLER_MODE e then payg_credit_lead e payg_state seconds_elapsed min_sleep s
         else (min_sleep, s))"

section \<open>The resource\<close>

text \<open>
  The loop of the GET handler after its first round, which visits the linked accessories from
  \<open>first_id\<close> round to it again. A table has at most ten links, so 10 rounds are enough
  (\<open>controlled_ids_loop_all\<close>); \<open>None\<close> means that they were not.
\<close>

fun controlled_ids_loop :: "nat \<Rightarrow> (nx_id option \<Rightarrow> nx_id option) \<Rightarrow> nx_id \<Rightarrow> nx_id \<Rightarrow> nx_id list option" where
  "controlled_ids_loop 0 next_linked first_id prev_id = None"
| "controlled_ids_loop (Suc n) next_linked first_id prev_id =
     (case next_linked (Some prev_id) of
        None \<Rightarrow> Some []
      | Some next_id \<Rightarrow>
          if next_id = first_id then Some []
          else map_option ((#) next_id) (controlled_ids_loop n next_linked first_id next_id))"

definition controlled_ids :: "'p channel_env \<Rightarrow> lm_this \<Rightarrow> nx_id list option" where
  "controlled_ids e m =
     (let next_linked = (\<lambda>previous. nexus_channel_link_manager_next_linked_accessory e previous m)
      in case next_linked None of
          None \<Rightarrow> Some []
        | Some first_id \<Rightarrow> map_option ((#) first_id) (controlled_ids_loop 10 next_linked first_id first_id))"

text \<open>The state after the response is sent; \<open>None\<close> if the loop does not end.\<close>

definition nexus_channel_res_payg_credit_get_handler :: "'p channel_env \<Rightarrow> oc_interface_mask \<Rightarrow> 'p channel \<Rightarrow> 'p channel option" where
  "nexus_channel_res_payg_credit_get_handler e interfaces s =
     (let payg_state = nxp_common_payg_state_get_current (nx e) (cplat s);
          s = on_credit (\<lambda>c. c\<lparr>remaining := nexus_channel_res_payg_credit_get_latest e payg_state s,
                credit_mode := nexus_channel_res_payg_credit_get_credit_operating_mode e (lm s)\<rparr>) s;
          base = (if interfaces = OC_IF_BASELINE then oc_baseline_interface e PAYG_CREDIT_GET else [])
      in if interfaces = OC_IF_OTHER then Some (oc_send_response OC_STATUS_OK [] s)
         else
           map_option (\<lambda>ids. oc_send_response OC_STATUS_OK (base @
               [(''mo'', OC_REP_INT (credit_mode_value (credit_mode (credit s)))),
                (''re'', OC_REP_INT (uint (remaining (credit s)))), (''un'', OC_REP_INT 1),
                (''di'', OC_REP_BYTE_STRING_ARRAY (map linked_nexus_id_transmit ids))]) s)
             (if SUPPORT_CONTROLLER_MODE e \<and> credit_mode (credit s) = CREDIT_MODE_LEADING
              then controlled_ids e (lm s) else Some []))"

section \<open>Visiting the accessories in turn\<close>

lemma find_filter: "find P xs = (case filter P xs of [] \<Rightarrow> None | x # _ \<Rightarrow> Some x)"
  by (induction xs) auto

lemma find_shift: "find (\<lambda>i. P (i mod n)) [n..<p + n] = map_option (\<lambda>i. i + n) (find P [0..<p])" if "p \<le> n"
proof -
  have a: "[n..<p + n] = map (\<lambda>i. i + n) [0..<p]" using map_add_upt [of n p] by simp
  have "find (\<lambda>i. P (i mod n)) (map (\<lambda>i. i + n) xs) = map_option (\<lambda>i. i + n) (find P xs)"
    if "\<forall>x \<in> set xs. x < n" for xs
    using that by (induction xs) auto
  then show ?thesis unfolding a using that by simp
qed

text \<open>The slots visited: those that hold a link to an accessory, in the order of the table.\<close>

definition accessory_slots :: "nat \<Rightarrow> lm_this \<Rightarrow> nat list" where
  "accessory_slots n m = filter (accessory_slot m) [0..<n]"

text \<open>After slot \<open>p\<close> comes the next one, after the last one the first.\<close>

lemma next_after:
  assumes "accessory_slots n m = A @ p # B" and "A @ B \<noteq> []"
  shows "map_option (\<lambda>i. i mod n) (find (\<lambda>i. accessory_slot m (i mod n)) [p + 1..<p + n]) = Some (hd (B @ A))"
proof -
  let ?P = "accessory_slot m"
  have "p \<in> set (accessory_slots n m)" using assms(1) by simp
  then have pn: "p < n" "?P p" by (auto simp: accessory_slots_def)
  have "[0..<n] = [0..<p] @ [p..<n]" using pn(1) upt_add_eq_append [of 0 p "n - p"] by simp
  then have sp: "[0..<n] = [0..<p] @ p # [Suc p..<n]" using pn(1) by (simp add: upt_conv_Cons)
  have eq: "A @ p # B = filter ?P [0..<p] @ p # filter ?P [Suc p..<n]"
    using assms(1) pn(2) unfolding accessory_slots_def sp by simp
  have "distinct (A @ p # B)" using assms(1) unfolding accessory_slots_def by (metis distinct_filter distinct_upt)
  then have "p \<notin> set A" "p \<notin> set B" by auto
  then have AB: "A = filter ?P [0..<p]" "B = filter ?P [Suc p..<n]"
    using eq by (simp_all add: append_Cons_eq_iff)
  have r: "[p + 1..<p + n] = [Suc p..<n] @ [n..<p + n]"
    using pn(1) upt_add_eq_append [of "Suc p" n p] by (simp add: add.commute)
  have low: "find (\<lambda>i. ?P (i mod n)) [Suc p..<n] = find ?P [Suc p..<n]"
    by (rule find_cong) auto
  have high: "find (\<lambda>i. ?P (i mod n)) [n..<p + n] = map_option (\<lambda>i. i + n) (find ?P [0..<p])"
    using pn(1) by (intro find_shift) simp
  have app: "find Q (xs @ ys) = (case find Q xs of None \<Rightarrow> find Q ys | Some x \<Rightarrow> Some x)" for Q :: "nat \<Rightarrow> bool" and xs ys
    by (induction xs) auto
  have B: "b < n" if "b \<in> set B" for b using that unfolding AB by auto
  have A: "a < n" if "a \<in> set A" for a using that pn(1) unfolding AB by auto
  show ?thesis
    unfolding r app low high find_filter [of ?P] AB(1) [symmetric] AB(2) [symmetric]
    using assms(2) A B by (cases B; cases A) auto
qed

text \<open>Every link is to a controller or to an accessory, as the handshake creates them.\<close>

definition link_roles :: "lm_this \<Rightarrow> bool" where
  "link_roles m \<longleftrightarrow> (\<forall>i \<in> used m. operating_mode (links m ! i) \<in> {0, 1})"

lemma foldl_count: "foldl (\<lambda>c i. if P i then c + 1 else c) c xs = c + of_nat (length (filter P xs))"
  by (induction xs arbitrary: c) (auto simp: algebra_simps)

lemma accessory_link_count_slots:
  assumes "lm_inv (MAX_SIMULTANEOUS_LINKS e) m" "link_roles m"
  shows "nexus_channel_link_manager_accessory_link_count e m = of_nat (length (accessory_slots (MAX_SIMULTANEOUS_LINKS e) m))"
    and "nexus_channel_link_manager_accessory_link_count e m = 1 \<longleftrightarrow> length (accessory_slots (MAX_SIMULTANEOUS_LINKS e) m) = 1"
proof -
  let ?n = "MAX_SIMULTANEOUS_LINKS e" and ?S = "accessory_slots (MAX_SIMULTANEOUS_LINKS e) m"
  have n: "?n \<le> 10" "length (link_idx_in_use m) = ?n" using assms(1) by (simp_all add: lm_inv_def)
  have "filter (\<lambda>i. link_idx_in_use m ! i \<and> operating_mode (links m ! i) = 1) [0..<?n] = ?S"
    unfolding accessory_slots_def using assms(2) n(2)
    by (intro filter_cong) (auto simp: accessory_slot_def link_roles_def used_def)
  then show c: "nexus_channel_link_manager_accessory_link_count e m = of_nat (length ?S)"
    unfolding nexus_channel_link_manager_accessory_link_count_def by (simp add: foldl_count)
  have "length ?S \<le> 10" unfolding accessory_slots_def using n(1) length_filter_le [of _ "[0..<?n]"] by (metis diff_zero le_trans length_upt)
  then show "nexus_channel_link_manager_accessory_link_count e m = 1 \<longleftrightarrow> length ?S = 1"
    unfolding c using unat_word_of_nat_small [of "length ?S", where 'a = 8] by (auto dest: arg_cong [of _ _ unat])
qed

lemma slots_used: "i \<in> set (accessory_slots n m) \<Longrightarrow> length (link_idx_in_use m) = n \<Longrightarrow> i \<in> used m"
  by (simp add: accessory_slots_def accessory_slot_def used_def)

text \<open>The accessory after that of slot \<open>p\<close>, round the table.\<close>

lemma next_linked_accessory_slot:
  assumes inv: "lm_inv (MAX_SIMULTANEOUS_LINKS e) m" and roles: "link_roles m"
    and S: "accessory_slots (MAX_SIMULTANEOUS_LINKS e) m = A @ p # B"
  shows "nexus_channel_link_manager_next_linked_accessory e (Some (slot_id m p)) m = Some (slot_id m (hd (B @ A @ [p])))"
proof -
  let ?n = "MAX_SIMULTANEOUS_LINKS e"
  note c = accessory_link_count_slots [OF inv roles]
  have len: "length (link_idx_in_use m) = ?n" using inv by (simp add: lm_inv_def)
  have "p \<in> set (accessory_slots ?n m)" by (simp add: S)
  then have p: "p \<in> used m" using len by (rule slots_used)
  then have idx: "nexus_channel_link_manager_link_index_from_nxid e (slot_id m p) m = Some p"
    using index_from_nxid_iff [OF inv] by simp
  show ?thesis
  proof (cases "A @ B = []")
    case True
    then have "find (accessory_slot m) [0..<?n] = Some p" using S by (simp add: find_filter accessory_slots_def)
    then show ?thesis using True S
      unfolding nexus_channel_link_manager_next_linked_accessory_def Let_def c(2) by (simp add: slot_id_def)
  next
    case False
    have "length (accessory_slots ?n m) \<noteq> 1" using False S by auto
    moreover have "map_option (\<lambda>i. i mod ?n) (find (\<lambda>i. accessory_slot m (i mod ?n)) [p + 1..<p + ?n]) = Some (hd (B @ A))"
      using S False by (rule next_after)
    moreover have "hd (B @ A) = hd (B @ A @ [p])" using False by (cases B; cases A) auto
    ultimately show ?thesis
      unfolding nexus_channel_link_manager_next_linked_accessory_def Let_def c(2)
      using idx by (auto simp: slot_id_def)
  qed
qed

lemma controlled_ids_loop_all:
  assumes inv: "lm_inv (MAX_SIMULTANEOUS_LINKS e) m" and roles: "link_roles m"
    and S: "accessory_slots (MAX_SIMULTANEOUS_LINKS e) m = A @ p # B" and "length B < fuel"
  shows "controlled_ids_loop fuel (\<lambda>previous. nexus_channel_link_manager_next_linked_accessory e previous m)
      (slot_id m (hd (A @ [p]))) (slot_id m p) = Some (map (slot_id m) B)"
  using S assms(4)
proof (induction B arbitrary: A p fuel)
  case Nil
  then obtain f where "fuel = Suc f" by (cases fuel) auto
  then show ?case using next_linked_accessory_slot [OF inv roles Nil(1)] by simp
next
  case (Cons b B)
  then obtain f where f: "fuel = Suc f" "length B < f" by (cases fuel) auto
  let ?h = "hd (A @ [p])"
  have S: "accessory_slots (MAX_SIMULTANEOUS_LINKS e) m = (A @ [p]) @ b # B" using Cons.prems(1) by simp
  have dist: "distinct (accessory_slots (MAX_SIMULTANEOUS_LINKS e) m)" by (simp add: accessory_slots_def)
  have h: "?h \<in> set (A @ [p])" by (rule hd_in_set) simp
  have len: "length (link_idx_in_use m) = MAX_SIMULTANEOUS_LINKS e" using inv by (simp add: lm_inv_def)
  have "?h \<noteq> b" using dist h unfolding S by auto
  moreover have "?h \<in> used m" "b \<in> used m" using h by (auto intro!: slots_used [OF _ len] simp: S)
  ultimately have "slot_id m b \<noteq> slot_id m ?h" using lm_invD(6) [OF inv] by (auto dest: inj_onD)
  moreover have "hd ((A @ [p]) @ [b]) = ?h" by (cases A) auto
  ultimately show ?case
    using next_linked_accessory_slot [OF inv roles Cons.prems(1)] Cons.IH [OF S f(2)] by (simp add: f(1))
qed

lemma controlled_ids_all:
  assumes inv: "lm_inv (MAX_SIMULTANEOUS_LINKS e) m" and roles: "link_roles m"
  shows "controlled_ids e m = Some (map (slot_id m) (accessory_slots (MAX_SIMULTANEOUS_LINKS e) m))"
proof -
  let ?n = "MAX_SIMULTANEOUS_LINKS e"
  have first: "nexus_channel_link_manager_next_linked_accessory e None m =
      (case accessory_slots ?n m of [] \<Rightarrow> None | p # _ \<Rightarrow> Some (slot_id m p))"
    by (simp add: nexus_channel_link_manager_next_linked_accessory_def find_filter accessory_slots_def slot_id_def
        split: list.split)
  have "length (accessory_slots ?n m) \<le> 10"
    using length_filter_le [of "accessory_slot m" "[0..<?n]"] lm_invD(1) [OF inv] by (simp add: accessory_slots_def)
  then show ?thesis
    using controlled_ids_loop_all [OF inv roles, of "[]"]
    by (cases "accessory_slots ?n m") (simp_all add: controlled_ids_def first)
qed


section \<open>Losing the controller\<close>

text \<open>A device that follows a controller has no accessories, so that the part for leaders does nothing.\<close>

lemma following_no_accessories:
  assumes "nexus_channel_res_payg_credit_get_credit_operating_mode e m = CREDIT_MODE_FOLLOWING"
  shows "nexus_channel_link_manager_accessory_link_count e m = 0"
proof -
  have "\<not> nexus_channel_link_manager_has_linked_accessory e m"
    using assms by (auto simp: nexus_channel_res_payg_credit_get_credit_operating_mode_def Let_def split: if_splits)
  then have "filter (\<lambda>i. link_idx_in_use m ! i \<and> operating_mode (links m ! i) = 1) [0..<MAX_SIMULTANEOUS_LINKS e] = []"
    by (auto simp: nexus_channel_link_manager_has_linked_accessory_def
        nexus_channel_link_manager_has_link_with_role_def find_slot_None filter_empty_conv)
  then show ?thesis by (simp add: nexus_channel_link_manager_accessory_link_count_def foldl_count)
qed

text \<open>One process call of a device that follows a controller and is not unlocked.\<close>

lemma follower_process:
  fixes e :: "'p channel_env" and t :: u32 and s :: "'p channel"
  assumes "SUPPORT_ACCESSORY_MODE e"
    and "nexus_channel_res_payg_credit_get_credit_operating_mode e (lm s) = CREDIT_MODE_FOLLOWING"
    and "nexus_channel_res_payg_credit_get_latest e (nxp_common_payg_state_get_current (nx e) (cplat s)) s \<noteq> UINT32_MAX"
  defines "t' \<equiv> follower_mode_seconds_since_credit_updated (credit s) + t"
    and "s' \<equiv> snd (nexus_channel_res_payg_credit_process e t s)"
  shows "lm s' = lm s"
    and "cplat s' = (if t' \<ge> 75 then nxp_channel_payg_credit_set e 0 (cplat s) else cplat s)"
    and "follower_mode_seconds_since_credit_updated (credit s') = (if t' \<ge> 75 then 0 else t')"
    and "t' \<ge> 75 \<Longrightarrow> remaining (credit s') = 0"
    and "\<not> t' \<ge> 75 \<Longrightarrow> fst (nexus_channel_res_payg_credit_process e t s) = 75 - t'"
  using assms following_no_accessories [OF assms(2)]
  by (simp_all add: nexus_channel_res_payg_credit_process_def payg_credit_follow_def payg_credit_lead_def Let_def
      reset_cycle_timers_def split: if_splits)

text \<open>Process calls with the times between them.\<close>

definition credit_processed :: "'p channel_env \<Rightarrow> u32 list \<Rightarrow> 'p channel \<Rightarrow> 'p channel" where
  "credit_processed e ts s = foldl (\<lambda>s t. snd (nexus_channel_res_payg_credit_process e t s)) s ts"

lemma follower_waits:
  assumes "SUPPORT_ACCESSORY_MODE e"
    and "nexus_channel_res_payg_credit_get_credit_operating_mode e (lm s) = CREDIT_MODE_FOLLOWING"
    and "nexus_channel_res_payg_credit_get_latest e (nxp_common_payg_state_get_current (nx e) (cplat s)) s \<noteq> UINT32_MAX"
    and "unat (follower_mode_seconds_since_credit_updated (credit s)) + sum_list (map unat ts) < 75"
  shows "lm (credit_processed e ts s) = lm s \<and> cplat (credit_processed e ts s) = cplat s \<and>
    unat (follower_mode_seconds_since_credit_updated (credit (credit_processed e ts s))) =
      unat (follower_mode_seconds_since_credit_updated (credit s)) + sum_list (map unat ts)"
  using assms(2-4)
proof (induction ts arbitrary: s)
  case (Cons t ts)
  let ?a = "follower_mode_seconds_since_credit_updated (credit s)"
  let ?s = "snd (nexus_channel_res_payg_credit_process e t s)"
  have u: "unat (?a + t) = unat ?a + unat t" using Cons.prems(3) by (simp add: unat_plus_if')
  then have lt: "\<not> ?a + t \<ge> 75" using Cons.prems(3) by (simp add: word_le_nat_alt)
  note p = follower_process [OF assms(1) Cons.prems(1,2), of t]
  have keep: "lm ?s = lm s" "cplat ?s = cplat s" "follower_mode_seconds_since_credit_updated (credit ?s) = ?a + t"
    using p(1-3) lt by simp_all
  have "nexus_channel_res_payg_credit_get_latest e ps ?s = nexus_channel_res_payg_credit_get_latest e ps s" for ps
    by (simp add: nexus_channel_res_payg_credit_get_latest_def keep)
  then show ?case
    using Cons.IH [of ?s] Cons.prems u by (simp add: keep credit_processed_def)
qed (simp add: credit_processed_def)

text \<open>C36. An accessory that does not hear from its controller loses its credit: over any sequence of process
  calls of a linked accessory that is not unlocked, the credit is left alone while fewer than 75 s
  have passed since the last update and set to 0 by the call that completes 75 s; before that each
  call asks to be called again within the time that is left.\<close>

theorem follower_credit_expires:
  assumes "SUPPORT_ACCESSORY_MODE e"
    and "nexus_channel_res_payg_credit_get_credit_operating_mode e (lm s) = CREDIT_MODE_FOLLOWING"
    and "nexus_channel_res_payg_credit_get_latest e (nxp_common_payg_state_get_current (nx e) (cplat s)) s \<noteq> UINT32_MAX"
    and "unat (follower_mode_seconds_since_credit_updated (credit s)) + sum_list (map unat ts) = waited" "waited < 75"
    and "unat t < 2 ^ 31"
  shows "cplat (credit_processed e ts s) = cplat s \<and>
    (let r = nexus_channel_res_payg_credit_process e t (credit_processed e ts s)
     in if waited + unat t \<ge> 75 then cplat (snd r) = nxp_channel_payg_credit_set e 0 (cplat s) \<and> remaining (credit (snd r)) = 0
        else cplat (snd r) = cplat s \<and> unat (fst r) = 75 - (waited + unat t))"
proof -
  let ?s = "credit_processed e ts s" and ?a = "follower_mode_seconds_since_credit_updated (credit (credit_processed e ts s))"
  have w: "lm ?s = lm s" "cplat ?s = cplat s" "unat ?a = waited"
    using follower_waits [OF assms(1-3), of ts] assms(4,5) by simp_all
  have l: "nexus_channel_res_payg_credit_get_latest e ps ?s = nexus_channel_res_payg_credit_get_latest e ps s" for ps
    by (simp add: nexus_channel_res_payg_credit_get_latest_def w)
  have u: "unat (?a + t) = waited + unat t" using assms(5,6) w(3) by (simp add: unat_plus_if')
  have "?a + t \<ge> 75 \<longleftrightarrow> waited + unat t \<ge> 75" by (simp add: word_le_nat_alt u)
  moreover have "unat (75 - (?a + t)) = 75 - (waited + unat t)" if "\<not> waited + unat t \<ge> 75"
    using that unat_sub [of "?a + t" 75] by (simp add: u word_le_nat_alt)
  moreover note follower_process [OF assms(1), of ?s t]
  ultimately show ?thesis using assms(2,3) by (auto simp: w l Let_def)
qed

text \<open>A device with one link.\<close>

definition linked_device :: "u8 \<Rightarrow> product channel" where
  "linked_device role = (channel_zero blank_channel_env blank_product)\<lparr>lm := lm_put 0
     (zero_link\<lparr>linked_device_id := \<lparr>authority_id = 0x0102, device_id = 0x94837158\<rparr>, operating_mode := role\<rparr>) (lm_zero 8)\<rparr>"

lemma linked_device_table:
  "cplat (linked_device role) = blank_product" "used (lm (linked_device role)) = {0}"
  "lm_inv 8 (lm (linked_device role))" "operating_mode (links (lm (linked_device role)) ! 0) = role"
proof -
  show "cplat (linked_device role) = blank_product" by (simp add: linked_device_def)
  show u: "used (lm (linked_device role)) = {0}"
    by (auto simp: linked_device_def used_def lm_put_def lm_zero_def nth_list_update split: if_splits)
  show "lm_inv 8 (lm (linked_device role))"
    unfolding lm_inv_def u by (auto simp: linked_device_def lm_put_def lm_zero_def zero_link_def nth_list_update)
  show "operating_mode (links (lm (linked_device role)) ! 0) = role"
    by (simp add: linked_device_def lm_put_def lm_zero_def)
qed

lemma linked_device_mode:
  "nexus_channel_res_payg_credit_get_credit_operating_mode blank_channel_env (lm (linked_device 0)) = CREDIT_MODE_FOLLOWING"
  "nexus_channel_res_payg_credit_get_credit_operating_mode blank_channel_env (lm (linked_device 1)) = CREDIT_MODE_LEADING"
  by (simp_all add: nexus_channel_res_payg_credit_get_credit_operating_mode_def Let_def linked_device_def
      nexus_channel_link_manager_has_linked_controller_def nexus_channel_link_manager_has_linked_accessory_def
      nexus_channel_link_manager_has_link_with_role_def lm_put_def lm_zero_def zero_link_def upt_rec)


theorem follower_credit_expires_witness:
  "cplat (snd (nexus_channel_res_payg_credit_process blank_channel_env 40
     (credit_processed blank_channel_env [20, 20] (linked_device 0)))) =
   nxp_channel_payg_credit_set blank_channel_env 0 blank_product"
proof -
  have "nexus_channel_res_payg_credit_get_latest blank_channel_env
      (nxp_common_payg_state_get_current (nx blank_channel_env) (cplat (linked_device 0))) (linked_device 0) \<noteq> UINT32_MAX"
    by (simp add: linked_device_table nexus_channel_res_payg_credit_get_latest_def blank_channel_env_def sample_channel_env_def
        blank_env_def sample_env_def sample_payg_state_get_current_def sample_payg_credit_get_remaining_def blank_product_def)
  moreover have "SUPPORT_ACCESSORY_MODE blank_channel_env" by (simp add: blank_channel_env_def sample_channel_env_def)
  moreover have "follower_mode_seconds_since_credit_updated (credit (linked_device 0)) = 0"
    by (simp add: linked_device_def channel_zero_def)
  ultimately show ?thesis
    using follower_credit_expires [of blank_channel_env "linked_device 0" "[20, 20]" 40 40] linked_device_mode(1)
    by (simp add: linked_device_table Let_def)
qed

end
