(* ===== verification/Channel_Cbor.thy ===== *)
theory Channel_Cbor
  imports Nexus_Check
begin

text \<open>
  The part of the CBOR library that secured messages use (\<^verbatim>\<open>oc/deps/tinycbor/src\<close>): the encoder of
  numbers, strings and containers (\<^verbatim>\<open>cborencoder.c\<close>) and the pull parser (\<^verbatim>\<open>cborparser.c\<close>,
  \<^verbatim>\<open>cbor.h\<close>). A pointer into the parsed buffer is the list of the bytes from there to the end; a
  pointer into the encoded buffer is what has been written before it. \<^verbatim>\<open>size_t\<close> has 32 bits.
\<close>

section \<open>Constants\<close>

datatype CborError =
    CborNoError | CborErrorUnknownLength | CborErrorAdvancePastEOF | CborErrorUnexpectedEOF
  | CborErrorUnexpectedBreak | CborErrorUnknownType | CborErrorIllegalType | CborErrorIllegalNumber
  | CborErrorIllegalSimpleType | CborErrorTooManyItems | CborErrorTooFewItems | CborErrorDataTooLarge
  | CborErrorNestingTooDeep | CborErrorOutOfMemory

abbreviation (input) CborIntegerType :: u8 where "CborIntegerType \<equiv> 0x00"
abbreviation (input) CborByteStringType :: u8 where "CborByteStringType \<equiv> 0x40"
abbreviation (input) CborTextStringType :: u8 where "CborTextStringType \<equiv> 0x60"
abbreviation (input) CborArrayType :: u8 where "CborArrayType \<equiv> 0x80"
abbreviation (input) CborMapType :: u8 where "CborMapType \<equiv> 0xa0"
abbreviation (input) CborTagType :: u8 where "CborTagType \<equiv> 0xc0"
abbreviation (input) CborSimpleType :: u8 where "CborSimpleType \<equiv> 0xe0"
abbreviation (input) CborBooleanType :: u8 where "CborBooleanType \<equiv> 0xf5"
abbreviation (input) CborInvalidType :: u8 where "CborInvalidType \<equiv> 0xff"

abbreviation (input) IntegerValueTooLarge :: u8 where "IntegerValueTooLarge \<equiv> 0x01"
abbreviation (input) NegativeInteger :: u8 where "NegativeInteger \<equiv> 0x02"
abbreviation (input) IteratingStringChunks :: u8 where "IteratingStringChunks \<equiv> 0x02"
abbreviation (input) UnknownLength :: u8 where "UnknownLength \<equiv> 0x04"
abbreviation (input) ContainerIsMap :: u8 where "ContainerIsMap \<equiv> 0x20"
abbreviation (input) NextIsMapKey :: u8 where "NextIsMapKey \<equiv> 0x40"

abbreviation (input) SmallValueMask :: u8 where "SmallValueMask \<equiv> 31"
abbreviation (input) MajorTypeMask :: u8 where "MajorTypeMask \<equiv> 0xe0"
abbreviation (input) Value8Bit :: u8 where "Value8Bit \<equiv> 24"
abbreviation (input) Value16Bit :: u8 where "Value16Bit \<equiv> 25"
abbreviation (input) Value64Bit :: u8 where "Value64Bit \<equiv> 27"
abbreviation (input) IndefiniteLength :: u8 where "IndefiniteLength \<equiv> 31"
abbreviation (input) BreakByte :: u8 where "BreakByte \<equiv> 0xff"

section \<open>The encoder\<close>

text \<open>
  \<^verbatim>\<open>enc_end\<close> tells whether \<^verbatim>\<open>end\<close> is not \<^verbatim>\<open>NULL\<close>; when it is, \<^verbatim>\<open>bytes_needed\<close> takes the place of
  the pointer.
\<close>

record CborEncoder =
  enc_written :: bytes
  enc_size :: nat
  enc_end :: bool
  bytes_needed :: nat
  enc_remaining :: nat
  enc_flags :: u8

definition cbor_encoder_init :: "nat \<Rightarrow> CborEncoder" where
  "cbor_encoder_init buffer_size = \<lparr>enc_written = [], enc_size = buffer_size, enc_end = True, bytes_needed = 0, enc_remaining = 2, enc_flags = 0\<rparr>"

definition would_overflow :: "CborEncoder \<Rightarrow> nat \<Rightarrow> bool" where
  "would_overflow enc len =
     (let remaining = (if enc_end enc then int (enc_size enc) - int (length (enc_written enc)) else - int (bytes_needed enc))
      in remaining - int len < 0)"

definition append_to_buffer :: "CborEncoder \<Rightarrow> bytes \<Rightarrow> CborError \<times> CborEncoder" where
  "append_to_buffer enc data =
     (if would_overflow enc (length data) then
        if enc_end enc
        then (CborErrorOutOfMemory, enc\<lparr>enc_end := False,
               bytes_needed := length data - (enc_size enc - length (enc_written enc))\<rparr>)
        else (CborErrorOutOfMemory, enc\<lparr>bytes_needed := bytes_needed enc + length data\<rparr>)
      else (CborNoError, enc\<lparr>enc_written := enc_written enc @ data\<rparr>))"

text \<open>\<^verbatim>\<open>put64\<close>: the bytes of a number in network order.\<close>

definition put64 :: "u64 \<Rightarrow> bytes" where
  "put64 v = rev (U64TO8_LE v)"

definition number_bytes :: "u64 \<Rightarrow> u8 \<Rightarrow> bytes" where
  "number_bytes ui shiftedMajorType =
     (if ui < ucast Value8Bit then [last (put64 ui) + shiftedMajorType]
      else
        let more = (if ui > 0xff then 1 else 0);
            more = (if ui > 0xffff then more + 1 else more);
            more = (if ui > 0xffffffff then more + 1 else more)
        in (shiftedMajorType + Value8Bit + word_of_nat more) # drop (8 - 2 ^ more) (put64 ui))"

definition encode_number_no_update :: "CborEncoder \<Rightarrow> u64 \<Rightarrow> u8 \<Rightarrow> CborError \<times> CborEncoder" where
  "encode_number_no_update enc ui shiftedMajorType = append_to_buffer enc (number_bytes ui shiftedMajorType)"

definition saturated_decrement :: "CborEncoder \<Rightarrow> CborEncoder" where
  "saturated_decrement enc = (if enc_remaining enc \<noteq> 0 then enc\<lparr>enc_remaining := enc_remaining enc - 1\<rparr> else enc)"

definition encode_number :: "CborEncoder \<Rightarrow> u64 \<Rightarrow> u8 \<Rightarrow> CborError \<times> CborEncoder" where
  "encode_number enc ui shiftedMajorType = encode_number_no_update (saturated_decrement enc) ui shiftedMajorType"

definition cbor_encode_uint :: "CborEncoder \<Rightarrow> u64 \<Rightarrow> CborError \<times> CborEncoder" where
  "cbor_encode_uint enc ui = encode_number enc ui CborIntegerType"

text \<open>Every error of the first step counts as lack of memory (\<^verbatim>\<open>isOomError\<close>), so the second is always taken.\<close>

definition encode_string :: "CborEncoder \<Rightarrow> u8 \<Rightarrow> bytes \<Rightarrow> CborError \<times> CborEncoder" where
  "encode_string enc shiftedMajorType data =
     append_to_buffer (snd (encode_number enc (word_of_nat (length data)) shiftedMajorType)) data"

definition cbor_encode_byte_string :: "CborEncoder \<Rightarrow> bytes \<Rightarrow> CborError \<times> CborEncoder" where
  "cbor_encode_byte_string enc data = encode_string enc CborByteStringType data"

definition cbor_encode_text_string :: "CborEncoder \<Rightarrow> bytes \<Rightarrow> CborError \<times> CborEncoder" where
  "cbor_encode_text_string enc data = encode_string enc CborTextStringType data"

text \<open>A container of known length: the error, the encoder and the container's encoder.\<close>

definition create_container :: "CborEncoder \<Rightarrow> nat \<Rightarrow> u8 \<Rightarrow> CborError \<times> CborEncoder \<times> CborEncoder" where
  "create_container enc len shiftedMajorType =
     (let container = enc\<lparr>enc_remaining := len + 1, enc_flags := shiftedMajorType AND ContainerIsMap\<rparr>;
          enc = saturated_decrement enc;
          container = (if shiftedMajorType AND ContainerIsMap \<noteq> 0
            then container\<lparr>enc_remaining := enc_remaining container + len\<rparr> else container)
      in case encode_number_no_update container (word_of_nat len) shiftedMajorType of
           (err, container) \<Rightarrow> (err, enc, container))"

definition cbor_encoder_create_array :: "CborEncoder \<Rightarrow> nat \<Rightarrow> CborError \<times> CborEncoder \<times> CborEncoder" where
  "cbor_encoder_create_array enc len = create_container enc len CborArrayType"

definition cbor_encoder_create_map :: "CborEncoder \<Rightarrow> nat \<Rightarrow> CborError \<times> CborEncoder \<times> CborEncoder" where
  "cbor_encoder_create_map enc len = create_container enc len CborMapType"

definition cbor_encoder_close_container :: "CborEncoder \<Rightarrow> CborEncoder \<Rightarrow> CborError \<times> CborEncoder" where
  "cbor_encoder_close_container enc container =
     (let enc = enc\<lparr>enc_written := enc_written container, bytes_needed := bytes_needed container, enc_end := enc_end container\<rparr>
      in if enc_flags container AND UnknownLength \<noteq> 0 then append_to_buffer enc [BreakByte]
         else if enc_remaining container \<noteq> 1
         then (if enc_remaining container = 0 then CborErrorTooManyItems else CborErrorTooFewItems, enc)
         else if \<not> enc_end enc then (CborErrorOutOfMemory, enc)
         else (CborNoError, enc))"

definition cbor_encoder_get_buffer_size :: "CborEncoder \<Rightarrow> nat" where
  "cbor_encoder_get_buffer_size enc = length (enc_written enc)"

section \<open>The parser\<close>

text \<open>
  Assertions are taken as comments: where one fails, the model goes on as the code would without it.
\<close>

record CborValue =
  cv_ptr :: bytes
  cv_remaining :: u32
  cv_extra :: u16
  cv_type :: u8
  cv_flags :: u8

text \<open>A number in network order, as \<^verbatim>\<open>get16\<close>, \<^verbatim>\<open>get32\<close> and \<^verbatim>\<open>get64\<close> read it.\<close>

definition get_number :: "bytes \<Rightarrow> u64" where
  "get_number p = foldl (\<lambda>v b. push_bit 8 v OR ucast b) 0 p"

text \<open>The error, the pointer behind the number and the number.\<close>

definition cbor_value_extract_number :: "bytes \<Rightarrow> CborError \<times> bytes \<times> u64" where
  "cbor_value_extract_number ptr =
     (let additional_information = hd ptr AND SmallValueMask;
          p = tl ptr
      in if additional_information < Value8Bit then (CborNoError, p, ucast additional_information)
         else if additional_information > Value64Bit then (CborErrorIllegalNumber, p, 0)
         else
           let bytesNeeded = 2 ^ unat (additional_information - Value8Bit)
           in if bytesNeeded > length p then (CborErrorUnexpectedEOF, p, 0)
              else (CborNoError, drop bytesNeeded p, get_number (take bytesNeeded p)))"

definition extract_length :: "bytes \<Rightarrow> CborError \<times> bytes \<times> nat" where
  "extract_length ptr =
     (case cbor_value_extract_number ptr of (err, ptr, v) \<Rightarrow>
        if err \<noteq> CborNoError then (err, ptr, 0)
        else
          let len = ucast v :: u32
          in (if v \<noteq> ucast len then CborErrorDataTooLarge else CborNoError, ptr, unat len))"

definition is_fixed_type :: "u8 \<Rightarrow> bool" where
  "is_fixed_type t \<longleftrightarrow> t \<noteq> CborTextStringType \<and> t \<noteq> CborByteStringType \<and> t \<noteq> CborArrayType \<and> t \<noteq> CborMapType"

text \<open>The values of major type 7.\<close>

definition preparse_simple :: "u8 \<Rightarrow> CborValue \<Rightarrow> CborError \<times> CborValue" where
  "preparse_simple descriptor it =
     (if descriptor = 20 then (CborNoError, it\<lparr>cv_extra := 0, cv_type := CborBooleanType\<rparr>)
      else if descriptor = 26 \<or> descriptor = 27
      then (CborNoError, it\<lparr>cv_flags := cv_flags it OR IntegerValueTooLarge, cv_type := hd (cv_ptr it)\<rparr>)
      else if descriptor = 21 \<or> descriptor = 22 \<or> descriptor = 23 \<or> descriptor = 25
      then (CborNoError, it\<lparr>cv_type := hd (cv_ptr it)\<rparr>)
      else if descriptor = 24 then
        let it = it\<lparr>cv_extra := ucast (cv_ptr it ! 1)\<rparr>
        in if cv_extra it < 32 then (CborErrorIllegalSimpleType, it\<lparr>cv_type := CborInvalidType\<rparr>) else (CborNoError, it)
      else (CborErrorUnexpectedBreak, it))"

definition preparse_value :: "CborValue \<Rightarrow> CborError \<times> CborValue" where
  "preparse_value it =
     (let it = it\<lparr>cv_type := CborInvalidType\<rparr>
      in if cv_ptr it = [] then (CborErrorUnexpectedEOF, it)
         else
           let type = hd (cv_ptr it) AND MajorTypeMask;
               descriptor = hd (cv_ptr it) AND SmallValueMask;
               it = it\<lparr>cv_type := type, cv_flags := cv_flags it AND (ContainerIsMap OR NextIsMapKey), cv_extra := ucast descriptor\<rparr>
           in if descriptor > Value64Bit then
                if descriptor \<noteq> IndefiniteLength
                then (if type = CborSimpleType then CborErrorUnknownType else CborErrorIllegalNumber, it)
                else if \<not> is_fixed_type type then (CborNoError, it\<lparr>cv_flags := cv_flags it OR UnknownLength\<rparr>)
                else (if type = CborSimpleType then CborErrorUnexpectedBreak else CborErrorIllegalNumber, it)
              else
                let bytesNeeded = (if descriptor < Value8Bit then 0 else 2 ^ unat (descriptor - Value8Bit))
                in if bytesNeeded + 1 > length (cv_ptr it) then (CborErrorUnexpectedEOF, it)
                   else
                     let majortype = drop_bit 5 type
                     in if majortype = 7 then preparse_simple descriptor it
                        else
                          let it = (if majortype = 1
                                then it\<lparr>cv_flags := cv_flags it OR NegativeInteger, cv_type := CborIntegerType\<rparr> else it)
                          in (CborNoError,
                              if descriptor < Value8Bit then it
                              else if descriptor = Value8Bit then it\<lparr>cv_extra := ucast (cv_ptr it ! 1)\<rparr>
                              else if descriptor = Value16Bit then it\<lparr>cv_extra := ucast (get_number (take 2 (tl (cv_ptr it))))\<rparr>
                              else it\<lparr>cv_flags := cv_flags it OR IntegerValueTooLarge\<rparr>))"

definition preparse_next_value_nodecrement :: "CborValue \<Rightarrow> CborError \<times> CborValue" where
  "preparse_next_value_nodecrement it =
     (if cv_remaining it = UINT32_MAX \<and> cv_ptr it \<noteq> [] \<and> hd (cv_ptr it) = BreakByte then
        if cv_flags it AND ContainerIsMap \<noteq> 0 \<and> cv_flags it AND NextIsMapKey \<noteq> 0 \<or> cv_type it = CborTagType
        then (CborErrorUnexpectedBreak, it)
        else (CborNoError, it\<lparr>cv_ptr := tl (cv_ptr it), cv_type := CborInvalidType, cv_remaining := 0\<rparr>)
      else preparse_value it)"

definition preparse_next_value :: "CborValue \<Rightarrow> CborError \<times> CborValue" where
  "preparse_next_value it =
     (let itemCounts = (cv_type it \<noteq> CborTagType);
          it = (if cv_remaining it \<noteq> UINT32_MAX \<and> itemCounts then it\<lparr>cv_remaining := cv_remaining it - 1\<rparr> else it)
      in if cv_remaining it = 0 \<and> itemCounts then (CborNoError, it\<lparr>cv_type := CborInvalidType\<rparr>)
         else
           let it = (if itemCounts then it\<lparr>cv_flags := cv_flags it XOR NextIsMapKey\<rparr> else it)
           in preparse_next_value_nodecrement it)"

text \<open>Advances over a value of fixed size; a string's bytes would be skipped too.\<close>

definition advance_internal :: "CborValue \<Rightarrow> CborError \<times> CborValue" where
  "advance_internal it =
     (case cbor_value_extract_number (cv_ptr it) of (err, ptr, len) \<Rightarrow>
        let it = it\<lparr>cv_ptr := ptr\<rparr>;
            it = (if cv_type it = CborByteStringType \<or> cv_type it = CborTextStringType
                  then it\<lparr>cv_ptr := drop (unat len) (cv_ptr it)\<rparr> else it)
        in preparse_next_value it)"

definition cbor_parser_init :: "bytes \<Rightarrow> CborError \<times> CborValue" where
  "cbor_parser_init buffer = preparse_value \<lparr>cv_ptr = buffer, cv_remaining = 1, cv_extra = 0, cv_type = 0, cv_flags = 0\<rparr>"

definition cbor_value_is_container :: "CborValue \<Rightarrow> bool" where
  "cbor_value_is_container it \<longleftrightarrow> cv_type it = CborArrayType \<or> cv_type it = CborMapType"

definition cbor_value_is_length_known :: "CborValue \<Rightarrow> bool" where
  "cbor_value_is_length_known it \<longleftrightarrow> cv_flags it AND UnknownLength = 0"

definition cbor_value_at_end :: "CborValue \<Rightarrow> bool" where
  "cbor_value_at_end it \<longleftrightarrow> cv_remaining it = 0"

definition cbor_value_decode_int64_internal :: "CborValue \<Rightarrow> u64" where
  "cbor_value_decode_int64_internal it =
     (if hd (cv_ptr it) AND 1 = 0 then get_number (take 4 (tl (cv_ptr it))) else get_number (take 8 (tl (cv_ptr it))))"

definition cbor_value_extract_int64_helper :: "CborValue \<Rightarrow> u64" where
  "cbor_value_extract_int64_helper it =
     (if cv_flags it AND IntegerValueTooLarge \<noteq> 0 then cbor_value_decode_int64_internal it else ucast (cv_extra it))"

text \<open>\<^verbatim>\<open>cbor_value_get_string_length\<close>, \<^verbatim>\<open>cbor_value_get_array_length\<close> and \<^verbatim>\<open>cbor_value_get_map_length\<close>.\<close>

definition cbor_value_get_length :: "CborValue \<Rightarrow> CborError \<times> nat" where
  "cbor_value_get_length it =
     (if \<not> cbor_value_is_length_known it then (CborErrorUnknownLength, 0)
      else
        let v = cbor_value_extract_int64_helper it;
            len = ucast v :: u32
        in (if ucast len \<noteq> v then CborErrorDataTooLarge else CborNoError, unat len))"

definition cbor_value_get_uint64 :: "CborValue \<Rightarrow> u64" where
  "cbor_value_get_uint64 it = cbor_value_extract_int64_helper it"

definition cbor_value_enter_container :: "CborValue \<Rightarrow> CborError \<times> CborValue" where
  "cbor_value_enter_container it =
     (if cv_flags it AND UnknownLength \<noteq> 0
      then let recursed = it\<lparr>cv_remaining := UINT32_MAX, cv_ptr := tl (cv_ptr it)\<rparr>
           in preparse_next_value_nodecrement (recursed\<lparr>cv_flags := cv_type recursed AND ContainerIsMap\<rparr>)
      else
        case cbor_value_extract_number (cv_ptr it) of (err, ptr, len) \<Rightarrow>
          let recursed = it\<lparr>cv_ptr := ptr, cv_remaining := ucast len\<rparr>
          in if ucast (cv_remaining recursed) \<noteq> len \<or> len = ucast UINT32_MAX
             then (CborErrorDataTooLarge, recursed\<lparr>cv_ptr := cv_ptr it\<rparr>)
             else if cv_type recursed = CborMapType \<and> cv_remaining recursed > UINT32_MAX div 2
             then (CborErrorDataTooLarge, recursed\<lparr>cv_ptr := cv_ptr it\<rparr>)
             else
               let recursed = (if cv_type recursed = CborMapType
                     then recursed\<lparr>cv_remaining := cv_remaining recursed * 2\<rparr> else recursed)
               in if len = 0 then (CborNoError, recursed\<lparr>cv_type := CborInvalidType\<rparr>)
                  else preparse_next_value_nodecrement (recursed\<lparr>cv_flags := cv_type recursed AND ContainerIsMap\<rparr>))"

definition cbor_value_leave_container :: "CborValue \<Rightarrow> CborValue \<Rightarrow> CborError \<times> CborValue" where
  "cbor_value_leave_container it recursed = preparse_next_value (it\<lparr>cv_ptr := cv_ptr recursed\<rparr>)"

subsection \<open>Strings\<close>

definition prepare_string_iteration :: "CborValue \<Rightarrow> CborValue" where
  "prepare_string_iteration it =
     (if \<not> cbor_value_is_length_known it
      then it\<lparr>cv_ptr := tl (cv_ptr it), cv_flags := cv_flags it OR IteratingStringChunks\<rparr> else it)"

text \<open>
  The next chunk of a string: the error, the chunk (\<open>None\<close> is the null pointer after the last one) and
  the value. A string of known length has one chunk.
\<close>

definition get_string_chunk :: "CborValue \<Rightarrow> CborError \<times> bytes option \<times> CborValue" where
  "get_string_chunk it =
     (if cv_flags it AND IteratingStringChunks \<noteq> 0 \<and> cbor_value_is_length_known it
      then case preparse_next_value it of (err, it) \<Rightarrow> (err, None, it)
      else
        let it = (if cv_flags it AND IteratingStringChunks \<noteq> 0 then it else prepare_string_iteration it)
        in if cv_ptr it = [] then (CborErrorUnexpectedEOF, None, it)
           else if hd (cv_ptr it) = BreakByte
           then case preparse_next_value (it\<lparr>cv_ptr := tl (cv_ptr it)\<rparr>) of (err, it) \<Rightarrow> (err, None, it)
           else if hd (cv_ptr it) AND MajorTypeMask = cv_type it
           then case extract_length (cv_ptr it) of (err, ptr, len) \<Rightarrow>
             if err \<noteq> CborNoError then (err, None, it\<lparr>cv_ptr := ptr\<rparr>)
             else if len > length ptr then (CborErrorUnexpectedEOF, None, it\<lparr>cv_ptr := ptr\<rparr>)
             else (CborNoError, Some (take len ptr),
                   it\<lparr>cv_ptr := drop len ptr, cv_flags := cv_flags it OR IteratingStringChunks\<rparr>)
           else (CborErrorIllegalType, None, it))"

lemma extract_number_shorter:
  "ptr \<noteq> [] \<Longrightarrow> cbor_value_extract_number ptr = (err, ptr', v) \<Longrightarrow> length ptr' < length ptr"
  by (cases ptr) (auto simp: cbor_value_extract_number_def Let_def split: if_splits)

lemma extract_length_shorter: "ptr \<noteq> [] \<Longrightarrow> extract_length ptr = (err, ptr', len) \<Longrightarrow> length ptr' < length ptr"
  by (auto simp: extract_length_def Let_def split: prod.splits if_splits dest: extract_number_shorter)

lemma prepare_string_iteration_ptr: "length (cv_ptr (prepare_string_iteration it)) \<le> length (cv_ptr it)"
  by (simp add: prepare_string_iteration_def)

lemma string_chunk_shorter:
  assumes "get_string_chunk it = (CborNoError, Some chunk, it')"
  shows "length (cv_ptr it') < length (cv_ptr it)"
proof -
  define j where "j = (if cv_flags it AND IteratingStringChunks \<noteq> 0 then it else prepare_string_iteration it)"
  have "length (cv_ptr j) \<le> length (cv_ptr it)" using prepare_string_iteration_ptr [of it] by (simp add: j_def)
  moreover have "length (cv_ptr it') < length (cv_ptr j)"
    using assms unfolding get_string_chunk_def j_def [symmetric] Let_def
    by (auto split: prod.splits if_splits dest: extract_length_shorter)
  ultimately show ?thesis by simp
qed

text \<open>
  The loop over the chunks, with the bytes of those seen (their number is \<^verbatim>\<open>total\<close>) and whether all of
  them fitted into \<open>buflen\<close> bytes (\<^verbatim>\<open>*result\<close>). Copying and the callback that does nothing succeed alike.
\<close>

function iterate_string_chunks :: "CborValue \<Rightarrow> int \<Rightarrow> bytes \<Rightarrow> bool \<Rightarrow> CborError \<times> CborValue \<times> bytes \<times> bool" where
  "iterate_string_chunks it buflen chunks fits =
     (case get_string_chunk it of (err, chunk, it') \<Rightarrow>
        if err \<noteq> CborNoError then (err, it', chunks, fits)
        else case chunk of
            None \<Rightarrow> (CborNoError, it', chunks, fits)
          | Some c \<Rightarrow>
              if int (length chunks + length c) > uint UINT32_MAX then (CborErrorDataTooLarge, it', chunks, fits)
              else iterate_string_chunks it' buflen (chunks @ c) (fits \<and> int (length (chunks @ c)) \<le> buflen))"
  by auto
termination
  by (relation "measure (\<lambda>(it, _). length (cv_ptr it))") (auto dest: string_chunk_shorter [OF sym])

declare iterate_string_chunks.simps [simp del]

text \<open>
  \<^verbatim>\<open>_cbor_value_copy_string\<close>: the error, the string's bytes and the next value. With a buffer of
  \<open>buflen\<close> bytes, what it holds afterwards is \<open>copied_to\<close>, with a final zero if there is room.
\<close>

definition cbor_value_copy_string :: "CborValue \<Rightarrow> int \<Rightarrow> CborError \<times> bytes \<times> CborValue" where
  "cbor_value_copy_string it buflen =
     (case iterate_string_chunks it buflen [] True of (err, it, chunks, fits) \<Rightarrow>
        (if err \<noteq> CborNoError then err else if fits then CborNoError else CborErrorOutOfMemory, chunks, it))"

definition copied_to :: "bytes \<Rightarrow> bytes \<Rightarrow> bytes" where
  "copied_to chunks buffer = memcpy_at 0 (if length chunks < length buffer then chunks @ [0] else chunks) buffer"

definition cbor_value_calculate_string_length :: "CborValue \<Rightarrow> CborError \<times> nat" where
  "cbor_value_calculate_string_length it =
     (case cbor_value_copy_string it (uint UINT32_MAX) of (err, chunks, _) \<Rightarrow> (err, length chunks))"

subsection \<open>Advancing\<close>

text \<open>
  \<open>nesting\<close> bounds the depth of containers. The other number bounds the depth of calls, of which
  every second one consumes a byte: \<open>None\<close> is never returned when it is twice the number of bytes left
  (\<open>advance_total\<close>).
\<close>

fun advance_recursive :: "nat \<Rightarrow> nat \<Rightarrow> CborValue \<Rightarrow> (CborError \<times> CborValue) option"
  and advance_elements :: "nat \<Rightarrow> nat \<Rightarrow> CborValue \<Rightarrow> (CborError \<times> CborValue) option" where
  "advance_recursive 0 nesting it = None"
| "advance_recursive (Suc n) nesting it =
     (if is_fixed_type (cv_type it) then Some (advance_internal it)
      else if \<not> cbor_value_is_container it
      then case cbor_value_copy_string it (uint UINT32_MAX) of (err, _, it) \<Rightarrow> Some (err, it)
      else if nesting = 0 then Some (CborErrorNestingTooDeep, it)
      else case cbor_value_enter_container it of (err, recursed) \<Rightarrow>
        if err \<noteq> CborNoError then Some (err, it)
        else case advance_elements n (nesting - 1) recursed of
            None \<Rightarrow> None
          | Some (err, recursed) \<Rightarrow>
              if err \<noteq> CborNoError then Some (err, it) else Some (cbor_value_leave_container it recursed))"
| "advance_elements 0 nesting recursed = None"
| "advance_elements (Suc n) nesting recursed =
     (if cbor_value_at_end recursed then Some (CborNoError, recursed)
      else case advance_recursive n nesting recursed of
          None \<Rightarrow> None
        | Some (err, recursed) \<Rightarrow>
            if err \<noteq> CborNoError then Some (err, recursed) else advance_elements n nesting recursed)"

definition cbor_value_advance :: "CborValue \<Rightarrow> CborError \<times> CborValue" where
  "cbor_value_advance it =
     (if cv_remaining it = 0 then (CborErrorAdvancePastEOF, it)
      else case advance_recursive (2 * length (cv_ptr it)) 1024 it of
          Some r \<Rightarrow> r
        | None \<Rightarrow> (CborErrorNestingTooDeep, it))"

section \<open>The parser ends\<close>

text \<open>
  A value that is valid, or not the end of its container, is at a byte of the buffer, and if it is a string its
  chunks have not been looked at.
\<close>

definition cv_ok :: "CborValue \<Rightarrow> bool" where
  "cv_ok it \<longleftrightarrow> (cv_remaining it \<noteq> 0 \<or> cv_type it \<noteq> CborInvalidType \<longrightarrow> cv_ptr it \<noteq> []) \<and>
     (cv_type it = CborByteStringType \<or> cv_type it = CborTextStringType \<longrightarrow> cv_flags it AND IteratingStringChunks = 0)"

lemma preparse_simple_ptr [simp]: "cv_ptr (snd (preparse_simple d it)) = cv_ptr it"
  by (simp add: preparse_simple_def Let_def)

lemma preparse_value_ptr: "cv_ptr (snd (preparse_value it)) = cv_ptr it"
  by (simp add: preparse_value_def Let_def)

lemma preparse_simple_remaining [simp]: "cv_remaining (snd (preparse_simple d it)) = cv_remaining it"
  by (simp add: preparse_simple_def Let_def)

lemma preparse_value_remaining: "cv_remaining (snd (preparse_value it)) = cv_remaining it"
  by (simp add: preparse_value_def Let_def)

lemma no_chunk_flag:
  "(x AND (ContainerIsMap OR NextIsMapKey)) AND IteratingStringChunks = 0"
  "((x AND (ContainerIsMap OR NextIsMapKey)) OR UnknownLength) AND IteratingStringChunks = 0"
  "((x AND (ContainerIsMap OR NextIsMapKey)) OR IntegerValueTooLarge) AND IteratingStringChunks = 0"
  by (simp_all add: and.assoc bit.conj_disj_distrib2)

lemma preparse_simple_flags:
  "cv_flags it AND IteratingStringChunks = 0 \<Longrightarrow> cv_flags (snd (preparse_simple d it)) AND IteratingStringChunks = 0"
  by (simp add: preparse_simple_def Let_def bit.conj_disj_distrib2)

lemma preparse_value_ok:
  assumes "fst (preparse_value it) = CborNoError"
  shows "cv_ok (snd (preparse_value it))"
proof -
  have p: "cv_ptr it \<noteq> []" using assms by (auto simp: preparse_value_def Let_def)
  show ?thesis
    unfolding cv_ok_def preparse_value_ptr
    using assms p no_chunk_flag [of "cv_flags it"]
    by (auto simp: preparse_value_def Let_def preparse_simple_flags split: if_splits)
qed

lemma preparse_nodecrement_ok:
  assumes "preparse_next_value_nodecrement it = (CborNoError, it')"
  shows "cv_ok it' \<and> length (cv_ptr it') \<le> length (cv_ptr it)"
proof (cases "cv_remaining it = UINT32_MAX \<and> cv_ptr it \<noteq> [] \<and> hd (cv_ptr it) = BreakByte")
  case True
  then show ?thesis
    using assms unfolding preparse_next_value_nodecrement_def if_P [OF True] by (auto simp: cv_ok_def split: if_splits)
next
  case False
  then have "preparse_value it = (CborNoError, it')"
    using assms unfolding preparse_next_value_nodecrement_def by (simp only: if_False)
  then show ?thesis using preparse_value_ok [of it] preparse_value_ptr [of it] by simp
qed

lemma preparse_next_ok:
  assumes "preparse_next_value it = (CborNoError, it')"
  shows "cv_ok it' \<and> length (cv_ptr it') \<le> length (cv_ptr it)"
proof -
  define c where "c = (cv_type it \<noteq> CborTagType)"
  define j where "j = (if cv_remaining it \<noteq> UINT32_MAX \<and> c then it\<lparr>cv_remaining := cv_remaining it - 1\<rparr> else it)"
  define k where "k = (if c then j\<lparr>cv_flags := cv_flags j XOR NextIsMapKey\<rparr> else j)"
  have p: "cv_ptr j = cv_ptr it" "cv_ptr k = cv_ptr it" by (simp_all add: j_def k_def)
  have "preparse_next_value it =
      (if cv_remaining j = 0 \<and> c then (CborNoError, j\<lparr>cv_type := CborInvalidType\<rparr>) else preparse_next_value_nodecrement k)"
    unfolding preparse_next_value_def Let_def c_def [symmetric] j_def [symmetric] k_def [symmetric] ..
  then consider "it' = j\<lparr>cv_type := CborInvalidType\<rparr>" "cv_remaining j = 0" | "preparse_next_value_nodecrement k = (CborNoError, it')"
    using assms by (metis prod.inject)
  then show ?thesis
    by cases (auto simp: p cv_ok_def dest: preparse_nodecrement_ok)
qed

lemma enter_container_ok:
  assumes "cbor_value_enter_container it = (CborNoError, it')" "cv_ptr it \<noteq> []"
  shows "cv_ok it' \<and> length (cv_ptr it') < length (cv_ptr it)"
proof (cases "cv_flags it AND UnknownLength \<noteq> 0")
  case True
  then show ?thesis
    using assms unfolding cbor_value_enter_container_def if_P [OF True] Let_def
    by (auto dest!: preparse_nodecrement_ok simp: Suc_le_eq [symmetric] less_eq_Suc_le) (metis One_nat_def Suc_pred diff_Suc_1 length_greater_0_conv not_less_eq_eq)
next
  case False
  obtain err ptr len where x: "cbor_value_extract_number (cv_ptr it) = (err, ptr, len)" by (cases "cbor_value_extract_number (cv_ptr it)") auto
  have l: "length ptr < length (cv_ptr it)" using extract_number_shorter [OF assms(2) x] .
  define r where "r = it\<lparr>cv_ptr := ptr, cv_remaining := ucast len\<rparr>"
  define q where "q = (if cv_type r = CborMapType then r\<lparr>cv_remaining := cv_remaining r * 2\<rparr> else r)"
  have p: "cv_ptr r = ptr" "cv_ptr q = ptr" by (simp_all add: r_def q_def)
  have z: "len = 0 \<Longrightarrow> cv_remaining q = 0" by (simp add: q_def r_def)
  have "it' = q\<lparr>cv_type := CborInvalidType\<rparr> \<and> len = 0 \<or>
      preparse_next_value_nodecrement (q\<lparr>cv_flags := cv_type q AND ContainerIsMap\<rparr>) = (CborNoError, it')"
    using assms(1) unfolding cbor_value_enter_container_def if_not_P [OF False] x prod.case Let_def r_def [symmetric] q_def [symmetric]
    by (simp split: if_splits)
  then show ?thesis using l z by (auto simp: p cv_ok_def dest!: preparse_nodecrement_ok)
qed

lemma advance_internal_ok:
  assumes "advance_internal it = (CborNoError, it')" "cv_ptr it \<noteq> []"
  shows "cv_ok it' \<and> length (cv_ptr it') < length (cv_ptr it)"
proof -
  obtain err ptr len where x: "cbor_value_extract_number (cv_ptr it) = (err, ptr, len)" by (cases "cbor_value_extract_number (cv_ptr it)") auto
  have l: "length ptr < length (cv_ptr it)" using extract_number_shorter [OF assms(2) x] .
  define r where "r = it\<lparr>cv_ptr := ptr\<rparr>"
  define q where "q = (if cv_type r = CborByteStringType \<or> cv_type r = CborTextStringType
      then r\<lparr>cv_ptr := drop (unat len) (cv_ptr r)\<rparr> else r)"
  have "length (cv_ptr q) \<le> length ptr" by (simp add: q_def r_def)
  moreover have "preparse_next_value q = (CborNoError, it')"
    using assms(1) unfolding advance_internal_def x prod.case Let_def r_def [symmetric] q_def [symmetric] .
  ultimately show ?thesis using l preparse_next_ok [of q it'] by simp
qed


lemma string_chunk_ok:
  assumes "get_string_chunk it = (CborNoError, chunk, it')"
  shows "chunk = None \<Longrightarrow> cv_ok it'"
    and "length (cv_ptr it') \<le> length (cv_ptr it)"
    and "cv_flags it AND IteratingStringChunks = 0 \<Longrightarrow> cv_ptr it \<noteq> [] \<Longrightarrow> length (cv_ptr it') < length (cv_ptr it)"
proof -
  define j where "j = (if cv_flags it AND IteratingStringChunks \<noteq> 0 then it else prepare_string_iteration it)"
  have j: "length (cv_ptr j) \<le> length (cv_ptr it)" using prepare_string_iteration_ptr [of it] by (simp add: j_def)
  have "(if cv_flags it AND IteratingStringChunks \<noteq> 0 \<and> cbor_value_is_length_known it
      then chunk = None \<and> preparse_next_value it = (CborNoError, it')
      else cv_ptr j \<noteq> [] \<and> (chunk = None \<and> preparse_next_value (j\<lparr>cv_ptr := tl (cv_ptr j)\<rparr>) = (CborNoError, it') \<or>
        chunk \<noteq> None \<and> length (cv_ptr it') < length (cv_ptr j)))"
    using assms unfolding get_string_chunk_def j_def [symmetric] Let_def
    by (auto split: prod.splits if_splits dest: extract_length_shorter)
  note c = this [unfolded if_bool_eq_conj]
  show "chunk = None \<Longrightarrow> cv_ok it'" using c preparse_next_ok [of it it'] preparse_next_ok [of "j\<lparr>cv_ptr := tl (cv_ptr j)\<rparr>" it'] by auto
  show "length (cv_ptr it') \<le> length (cv_ptr it)"
    using c j preparse_next_ok [of it it'] preparse_next_ok [of "j\<lparr>cv_ptr := tl (cv_ptr j)\<rparr>" it'] by auto
  show "length (cv_ptr it') < length (cv_ptr it)" if "cv_flags it AND IteratingStringChunks = 0" "cv_ptr it \<noteq> []"
    using c j that preparse_next_ok [of "j\<lparr>cv_ptr := tl (cv_ptr j)\<rparr>" it'] by (cases "cv_ptr j") auto
qed

lemma iterate_chunks_ok:
  assumes "iterate_string_chunks it buflen chunks fits = (CborNoError, it', rest)"
  shows "cv_ok it' \<and> length (cv_ptr it') \<le> length (cv_ptr it)"
  using assms
proof (induction it buflen chunks fits rule: iterate_string_chunks.induct)
  case (1 it buflen chunks fits)
  obtain err chunk j where g: "get_string_chunk it = (err, chunk, j)" by (cases "get_string_chunk it") auto
  have e: "err = CborNoError" using 1(2) unfolding iterate_string_chunks.simps [of it] g by (simp split: if_splits)
  note ok = string_chunk_ok [OF g [unfolded e]]
  show ?case
  proof (cases chunk)
    case None
    then have "it' = j" using 1(2) unfolding iterate_string_chunks.simps [of it] g by (simp add: e)
    then show ?thesis using ok None by simp
  next
    case (Some c)
    then have b: "\<not> int (length chunks + length c) > uint UINT32_MAX"
      using 1(2) unfolding iterate_string_chunks.simps [of it] g by (auto simp: e)
    then have "iterate_string_chunks j buflen (chunks @ c) (fits \<and> int (length (chunks @ c)) \<le> buflen) = (CborNoError, it', rest)"
      using 1(2) Some unfolding iterate_string_chunks.simps [of it] g by (simp add: e)
    then show ?thesis using 1(1) [OF g [symmetric] refl _ Some b] e ok(2) by fastforce
  qed
qed

lemma copy_string_ok:
  assumes "cbor_value_copy_string it buflen = (CborNoError, bs, it')" "cv_flags it AND IteratingStringChunks = 0" "cv_ptr it \<noteq> []"
  shows "cv_ok it' \<and> length (cv_ptr it') < length (cv_ptr it)"
proof -
  obtain rest where r: "iterate_string_chunks it buflen [] True = (CborNoError, it', rest)"
    using assms(1) by (auto simp: cbor_value_copy_string_def split: prod.splits if_splits)
  obtain err chunk j where g: "get_string_chunk it = (err, chunk, j)" by (cases "get_string_chunk it") auto
  have e: "err = CborNoError" using r unfolding iterate_string_chunks.simps [of it] g by (simp split: if_splits)
  have "length (cv_ptr j) < length (cv_ptr it)" using string_chunk_ok(3) [OF g [unfolded e]] assms(2,3) by simp
  moreover have "length (cv_ptr it') \<le> length (cv_ptr j)"
    using r unfolding iterate_string_chunks.simps [of it] g
    by (auto simp: e split: option.splits if_splits dest: iterate_chunks_ok)
  ultimately show ?thesis using iterate_chunks_ok [OF r] by simp
qed

text \<open>Enough calls for both loops, and every value passed consumes a byte.\<close>

lemma advance_total:
  "cv_ok it \<Longrightarrow> cv_ptr it \<noteq> [] \<Longrightarrow> 2 * length (cv_ptr it) \<le> n \<Longrightarrow>
    \<exists>err it'. advance_recursive n nesting it = Some (err, it') \<and>
      (err = CborNoError \<longrightarrow> cv_ok it' \<and> length (cv_ptr it') < length (cv_ptr it))"
  "cv_ok it \<Longrightarrow> 2 * length (cv_ptr it) + 1 \<le> n \<Longrightarrow>
    \<exists>err it'. advance_elements n nesting it = Some (err, it') \<and>
      (err = CborNoError \<longrightarrow> cv_ok it' \<and> length (cv_ptr it') \<le> length (cv_ptr it))"
proof (induction n arbitrary: nesting it)
  case 0
  {
    case 1 then show ?case by simp
  next
    case 2 then show ?case by simp
  }
next
  case (Suc n)
  {
    case 1
    consider (fixed) "is_fixed_type (cv_type it)" | (str) "\<not> is_fixed_type (cv_type it)" "\<not> cbor_value_is_container it"
      | (con) "\<not> is_fixed_type (cv_type it)" "cbor_value_is_container it" by blast
    then show ?case
    proof cases
      case fixed
      then show ?thesis using advance_internal_ok [of it] 1(2) by (cases "advance_internal it") auto
    next
      case str
      then have "cv_flags it AND IteratingStringChunks = 0"
        using 1(1) by (auto simp: cv_ok_def is_fixed_type_def cbor_value_is_container_def)
      then show ?thesis using str copy_string_ok [of it] 1(2)
        by (cases "cbor_value_copy_string it (uint UINT32_MAX)") auto
    next
      case con
      obtain err r where e: "cbor_value_enter_container it = (err, r)" by (cases "cbor_value_enter_container it") auto
      show ?thesis
      proof (cases "nesting = 0 \<or> err \<noteq> CborNoError")
        case True then show ?thesis using con e by auto
      next
        case False
        then have r: "cv_ok r" "length (cv_ptr r) < length (cv_ptr it)" using enter_container_ok [of it r] e 1(2) by auto
        then obtain err' r' where el: "advance_elements n (nesting - 1) r = Some (err', r')"
            "err' = CborNoError \<longrightarrow> cv_ok r' \<and> length (cv_ptr r') \<le> length (cv_ptr r)"
          using Suc.IH(2) [of r "nesting - 1"] 1(3) by fastforce
        obtain e2 it2 where l: "cbor_value_leave_container it r' = (e2, it2)" by (cases "cbor_value_leave_container it r'") auto
        show ?thesis using con e False el r l preparse_next_ok [of "it\<lparr>cv_ptr := cv_ptr r'\<rparr>" it2]
          by (auto simp: cbor_value_leave_container_def)
      qed
    qed
  next
    case 2
    show ?case
    proof (cases "cbor_value_at_end it")
      case True then show ?thesis using 2 by simp
    next
      case False
      then have "cv_ptr it \<noteq> []" using 2(1) by (simp add: cv_ok_def cbor_value_at_end_def)
      then obtain err r where a: "advance_recursive n nesting it = Some (err, r)"
          "err = CborNoError \<longrightarrow> cv_ok r \<and> length (cv_ptr r) < length (cv_ptr it)"
        using Suc.IH(1) [of it nesting] 2 by auto
      then show ?thesis using False Suc.IH(2) [of r nesting] 2(2) by fastforce
    qed
  }
qed

text \<open>Parsing a hostile message ends: skipping a CBOR value, whatever containers and chunked strings the
  bytes describe, needs no more nested calls than twice the number of bytes, and on success leaves
  fewer bytes to parse.\<close>

theorem cbor_advance_terminates:
  assumes "cbor_parser_init buffer = (CborNoError, it)"
  shows "\<exists>err it'. advance_recursive (2 * length buffer) 1024 it = Some (err, it') \<and> cbor_value_advance it = (err, it') \<and>
    (err = CborNoError \<longrightarrow> length (cv_ptr it') < length buffer)"
proof -
  have p: "cv_ptr it = buffer" "cv_ok it"
    using assms preparse_value_ptr preparse_value_ok unfolding cbor_parser_init_def by (metis CborValue.select_convs(1) snd_conv fst_conv)+
  have "buffer \<noteq> []" using assms by (auto simp: cbor_parser_init_def preparse_value_def Let_def)
  moreover have "cv_remaining it = 1"
    using assms preparse_value_remaining unfolding cbor_parser_init_def by (metis CborValue.select_convs(2) snd_conv)
  ultimately show ?thesis using advance_total(1) [of it "2 * length buffer" 1024] p by (auto simp: cbor_value_advance_def)
qed

theorem cbor_advance_terminates_witness:
  "\<exists>it err it'. cbor_parser_init [0x82, 0x01, 0x41, 0x07] = (CborNoError, it) \<and>
    advance_recursive (2 * length [0x82, 0x01, 0x41, 0x07 :: u8]) 1024 it = Some (err, it') \<and>
    cbor_value_advance it = (err, it') \<and>
    (err = CborNoError \<longrightarrow> length (cv_ptr it') < length [0x82, 0x01, 0x41, 0x07 :: u8])"
proof -
  have "fst (cbor_parser_init [0x82, 0x01, 0x41, 0x07]) = CborNoError" by code_simp
  then have "cbor_parser_init [0x82, 0x01, 0x41, 0x07] = (CborNoError, snd (cbor_parser_init [0x82, 0x01, 0x41, 0x07]))"
    by (metis prod.collapse)
  from this cbor_advance_terminates [OF this] show ?thesis by blast
qed

section \<open>What the encoder writes\<close>

lemma append_fits:
  "enc_end enc \<Longrightarrow> length (enc_written enc) + length data \<le> enc_size enc \<Longrightarrow>
   append_to_buffer enc data = (CborNoError, enc\<lparr>enc_written := enc_written enc @ data\<rparr>)"
  by (simp add: append_to_buffer_def would_overflow_def)

lemma append_overflows:
  "enc_end enc \<Longrightarrow> length (enc_written enc) \<le> enc_size enc \<Longrightarrow> \<not> length (enc_written enc) + length data \<le> enc_size enc \<Longrightarrow>
   append_to_buffer enc data = (CborErrorOutOfMemory, enc\<lparr>enc_end := False,
     bytes_needed := length data - (enc_size enc - length (enc_written enc))\<rparr>)"
  by (simp add: append_to_buffer_def would_overflow_def)

lemma saturated_decrement_eq: "saturated_decrement enc = enc\<lparr>enc_remaining := enc_remaining enc - 1\<rparr>"
  by (simp add: saturated_decrement_def)

text \<open>A string is written when there is room for its head and its bytes, and an error is reported otherwise.\<close>

definition string_bytes :: "u8 \<Rightarrow> bytes \<Rightarrow> bytes" where
  "string_bytes mt data = number_bytes (word_of_nat (length data)) mt @ data"

lemma encode_string_fits:
  assumes "enc_end enc" "length (enc_written enc) + length (string_bytes mt data) \<le> enc_size enc"
  shows "encode_string enc mt data =
    (CborNoError, enc\<lparr>enc_written := enc_written enc @ string_bytes mt data, enc_remaining := enc_remaining enc - 1\<rparr>)"
  using assms unfolding encode_string_def encode_number_def encode_number_no_update_def saturated_decrement_eq string_bytes_def
  by (simp add: append_fits)

lemma encode_string_overflows:
  assumes "enc_end enc" "length (enc_written enc) \<le> enc_size enc" "\<not> length (enc_written enc) + length (string_bytes mt data) \<le> enc_size enc"
  shows "fst (encode_string enc mt data) \<noteq> CborNoError"
proof (cases "length (enc_written enc) + length (number_bytes (word_of_nat (length data)) mt) \<le> enc_size enc")
  case True
  then show ?thesis
    using assms unfolding encode_string_def encode_number_def encode_number_no_update_def saturated_decrement_eq string_bytes_def
    by (simp add: append_fits append_overflows)
next
  case False
  then show ?thesis
    using assms unfolding encode_string_def encode_number_def encode_number_no_update_def saturated_decrement_eq string_bytes_def
    by (simp add: append_overflows) (simp add: append_to_buffer_def would_overflow_def)
qed

lemma encode_string_success:
  assumes "encode_string enc mt data = (CborNoError, enc')" "enc_end enc" "length (enc_written enc) \<le> enc_size enc"
  shows "enc' = enc\<lparr>enc_written := enc_written enc @ string_bytes mt data, enc_remaining := enc_remaining enc - 1\<rparr> \<and>
    length (enc_written enc) + length (string_bytes mt data) \<le> enc_size enc"
  using assms encode_string_fits encode_string_overflows by (metis Pair_inject fst_conv)

lemma length_put64 [simp]: "length (put64 v) = 8"
  by (simp add: put64_def)

lemma length_number_bytes:
  "length (number_bytes ui mt) = (if ui < 24 then 1 else if \<not> 0xff < ui then 2 else if \<not> 0xffff < ui then 3 else if \<not> 0xffffffff < ui then 5 else 9)"
proof -
  have "0xffff < ui \<Longrightarrow> 0xff < ui" "0xffffffff < ui \<Longrightarrow> 0xffff < ui"
    by (rule order.strict_trans [rotated], assumption, simp)+
  then show ?thesis by (simp add: number_bytes_def Let_def)
qed

lemma encode_uint_fits:
  "enc_end enc \<Longrightarrow> length (enc_written enc) + length (number_bytes ui 0) \<le> enc_size enc \<Longrightarrow>
   cbor_encode_uint enc ui =
     (CborNoError, enc\<lparr>enc_written := enc_written enc @ number_bytes ui 0, enc_remaining := enc_remaining enc - 1\<rparr>)"
  by (simp add: cbor_encode_uint_def encode_number_def encode_number_no_update_def saturated_decrement_eq append_fits)

lemma ucast_ucast_word_of_nat: "(ucast (ucast (word_of_nat n :: u64) :: u32) :: u8) = word_of_nat n"
  by (rule bit_word_eqI) (simp add: bit_simps)

lemma number_bytes_small: "n < 24 \<Longrightarrow> number_bytes (word_of_nat n) mt = [word_of_nat n + mt]"
proof -
  assume n: "n < 24"
  have "(word_of_nat n :: u64) < 24" using n by (simp add: word_less_nat_alt unat_word_of_nat_small)
  moreover have "last (put64 (word_of_nat n)) = word_of_nat n"
    by (simp add: put64_def U64TO8_LE_def u32_le_def ucast_ucast_word_of_nat)
  ultimately show ?thesis by (simp add: number_bytes_def)
qed

lemma number_bytes_8: "24 \<le> n \<Longrightarrow> n < 256 \<Longrightarrow> number_bytes (word_of_nat n) mt = [mt + 24, word_of_nat n]"
proof -
  assume n: "24 \<le> n" "n < 256"
  have u: "\<not> (word_of_nat n :: u64) < 24" "\<not> (word_of_nat n :: u64) > 0xff" "\<not> (word_of_nat n :: u64) > 0xffff"
      "\<not> (word_of_nat n :: u64) > 0xffffffff"
    using n by (simp_all add: word_less_nat_alt unat_word_of_nat_small)
  have "drop 7 (put64 (word_of_nat n)) = [word_of_nat n]"
    by (simp add: put64_def U64TO8_LE_def u32_le_def ucast_ucast_word_of_nat)
  then show ?thesis by (simp add: number_bytes_def u)
qed

section \<open>What the parser reads\<close>

lemma get_number_bytes: "get_number (put64 v) = v"
proof -
  have "get_number (rev p) = U8TO64_LE p" if l: "length p = 8" for p :: bytes
  proof -
    have "p = map ((!) p) [0..<8]" using l by (simp add: map_nth flip: l)
    then have "p = [p ! 0, p ! 1, p ! 2, p ! 3, p ! 4, p ! 5, p ! 6, p ! 7]" by (simp add: upt_conv_Cons eval_nat_numeral)
    then have "rev p = [p ! 7, p ! 6, p ! 5, p ! 4, p ! 3, p ! 2, p ! 1, p ! 0]" by (metis rev.simps append.simps)
    then show ?thesis
      by (simp only: get_number_def U8TO64_LE_def foldl.simps push_bit_or push_bit_push_bit or.assoc push_bit_of_0 or.left_neutral or.right_neutral add_num_simps numeral_plus_numeral)
         (simp add: ac_simps)
  qed
  from this [of "U64TO8_LE v"] show ?thesis by (simp add: put64_def U8TO64_LE_U64TO8_LE)
qed

lemma get_number_zeros: "get_number (replicate k 0 @ p) = get_number p"
  by (induction k) (simp_all add: get_number_def)

lemma put64_zeros:
  assumes "unat v < 2 ^ (8 * k)" "k \<in> {1, 2, 4}"
  shows "take (8 - k) (put64 v) = replicate (8 - k) 0"
proof -
  have z: "drop_bit j v = 0" if "8 * k \<le> j" for j
  proof -
    have "unat v < 2 ^ j" using assms(1) that by (meson order.strict_trans2 power_increasing one_le_numeral)
    then have "drop_bit j (unat v) = 0" by (simp add: drop_bit_eq_div)
    then have "unat (drop_bit j v) = 0" by (simp add: unat_drop_bit_eq)
    then show ?thesis by (simp add: unat_eq_zero)
  qed
  have u: "(ucast (drop_bit j (ucast v :: u32)) :: u8) = ucast (drop_bit j v)" if "j \<le> 24" for j
    using that by (intro bit_word_eqI) (simp add: bit_simps)
  have p: "put64 v = map (\<lambda>j. ucast (drop_bit j v)) [56, 48, 40, 32, 24, 16, 8, 0]"
    by (simp add: put64_def U64TO8_LE_def u32_le_def u) (intro conjI; rule bit_word_eqI; simp add: bit_simps)
  have r: "replicate 7 0 = [0, 0, 0, 0, 0, 0, 0 :: u8]" "replicate 6 0 = [0, 0, 0, 0, 0, 0 :: u8]"
     "replicate 4 0 = [0, 0, 0, 0 :: u8]" by (simp_all add: eval_nat_numeral)
  show ?thesis using assms(2) by (elim insertE emptyE) (simp_all add: p z r)
qed

lemma get_number_drop:
  assumes "unat v < 2 ^ (8 * k)" "k \<in> {1, 2, 4}"
  shows "get_number (drop (8 - k) (put64 v)) = v"
  using get_number_zeros [of "8 - k" "drop (8 - k) (put64 v)"] put64_zeros [OF assms]
    append_take_drop_id [of "8 - k" "put64 v"] by (simp add: get_number_bytes)

lemma number_bytes_cases:
  obtains (small) d where "d < 24" "ui = word_of_nat d" "number_bytes ui mt = [word_of_nat d + mt]"
  | (long) more where "more \<in> {0, 1, 2, 3}" "24 \<le> ui" "more \<le> 1 \<longleftrightarrow> \<not> 0xffff < ui"
      "number_bytes ui mt = (word_of_nat (24 + more) + mt) # drop (8 - 2 ^ more) (put64 ui)"
      "get_number (drop (8 - 2 ^ more) (put64 ui)) = ui"
proof (cases "ui < 24")
  case True
  then have "unat ui < 24" by (simp add: word_less_nat_alt)
  then show ?thesis using number_bytes_small [of "unat ui" mt] by (intro small [of "unat ui"]) simp_all
next
  case False
  then have n: "number_bytes ui mt =
     (mt + 24 + word_of_nat more) # drop (8 - 2 ^ more) (put64 ui)"
    if "more = (if 0xffffffff < ui then Suc else id) ((if 0xffff < ui then Suc else id) (if 0xff < ui then 1 else 0))" for more
    using that by (simp add: number_bytes_def Let_def)
  have t: "0xffff < ui \<Longrightarrow> 0xff < ui" "0xffffffff < ui \<Longrightarrow> 0xffff < ui"
    by (rule order.strict_trans [rotated], assumption, simp)+
  have g: "24 \<le> ui" using False by simp
  have u: "unat ui \<le> 0xff" if "\<not> 0xff < ui" using that by (simp add: word_less_nat_alt)
  have u2: "unat ui \<le> 0xffff" if "\<not> 0xffff < ui" using that by (simp add: word_less_nat_alt)
  have u4: "unat ui \<le> 0xffffffff" if "\<not> 0xffffffff < ui" using that by (simp add: word_less_nat_alt)
  consider "\<not> 0xff < ui" | "0xff < ui" "\<not> 0xffff < ui" | "0xffff < ui" "\<not> 0xffffffff < ui" | "0xffffffff < ui" by blast
  then show ?thesis
  proof cases
    case 1
    then have "\<not> 0xffff < ui" "\<not> 0xffffffff < ui" using t by blast+
    with 1 show ?thesis using n [of 0] t g u get_number_drop [of ui 1] by (intro long [of 0]) (auto simp: ac_simps)
  next
    case 2
    then have "\<not> 0xffffffff < ui" using t by blast
    with 2 show ?thesis using n [of 1] t g u2 get_number_drop [of ui 2] by (intro long [of 1]) (auto simp: ac_simps)
  next
    case 3
    then show ?thesis using n [of 2] t g u4 get_number_drop [of ui 4] by (intro long [of 2]) (auto simp: ac_simps)
  next
    case 4
    then show ?thesis using n [of 3] t g get_number_bytes [of ui] by (intro long [of 3]) (auto simp: ac_simps)
  qed
qed

abbreviation (input) major_types :: "u8 list" where
  "major_types \<equiv> [CborIntegerType, CborByteStringType, CborTextStringType, CborArrayType, CborMapType]"

lemma head_byte:
  assumes "d < 28" "mt \<in> set major_types"
  shows "(word_of_nat d + mt) AND 31 = (word_of_nat d :: u8)" "(word_of_nat d + mt) AND 0xe0 = mt"
proof -
  have h: "\<forall>d\<in>set [0..<28]. \<forall>mt\<in>set major_types. (word_of_nat d + mt) AND 31 = (word_of_nat d :: u8) \<and> (word_of_nat d + mt) AND 0xe0 = mt"
    by code_simp
  have "d \<in> set [0..<28]" using assms(1) by simp
  from bspec [OF bspec [OF h this] assms(2)]
  show "(word_of_nat d + mt) AND 31 = (word_of_nat d :: u8)" "(word_of_nat d + mt) AND 0xe0 = mt" by blast+
qed

lemma ucast_word_of_nat_small: "d < 256 \<Longrightarrow> (ucast (word_of_nat d :: u8) :: 'a::len word) = word_of_nat d"
  by (subst of_nat_unat [symmetric, of "word_of_nat d :: u8"]) (simp add: unat_word_of_nat_small del: of_nat_unat)

lemma head_long:
  assumes "k \<in> {0, 1, 2, 3}" "mt \<in> set major_types"
  shows "(word_of_nat (24 + k) + mt) AND 31 = (word_of_nat (24 + k) :: u8)" "(word_of_nat (24 + k) + mt) AND 0xe0 = mt"
    "\<not> (word_of_nat (24 + k) :: u8) < 24" "\<not> 27 < (word_of_nat (24 + k) :: u8)"
    "2 ^ unat ((word_of_nat (24 + k) :: u8) - 24) = (2 :: nat) ^ k"
  using head_byte [of "24 + k" mt, OF _ assms(2)] assms(1) by auto

lemma extract_number_head:
  assumes "mt \<in> set major_types"
  shows "cbor_value_extract_number (number_bytes ui mt @ rest) = (CborNoError, rest, ui)"
proof (cases ui mt rule: number_bytes_cases)
  case (small d)
  have u: "(word_of_nat d :: u8) < 24" "(ucast (word_of_nat d :: u8) :: u64) = word_of_nat d"
    using small(1) by (simp_all add: word_less_nat_alt unat_word_of_nat_small ucast_word_of_nat_small)
  show ?thesis
    using small head_byte(1) [of d mt, OF _ assms] u by (simp add: cbor_value_extract_number_def)
next
  case (long more)
  note e = head_long [OF long(1) assms]
  obtain b where b: "drop (8 - 2 ^ more) (put64 ui) = b" "length b = 2 ^ more" using long(1) by auto
  show ?thesis
    using long(5) unfolding long(4) b(1)
    by (simp only: cbor_value_extract_number_def append_Cons list.sel Let_def e if_False) (simp add: b(2))
qed

text \<open>The value at a head: its type, and its number.\<close>

lemma flags_and_1: "((x :: u8) AND 0x60) AND 1 = 0" "((x AND 0x60) OR 1) AND 1 = 1"
  by (simp_all add: and.assoc bit.conj_disj_distrib2)

lemma preparse_head:
  assumes "mt \<in> set major_types" "cv_ptr it = number_bytes ui mt @ rest"
  shows "\<exists>it'. preparse_value it = (CborNoError, it') \<and> cv_ptr it' = cv_ptr it \<and> cv_remaining it' = cv_remaining it \<and> cv_type it' = mt \<and>
    cv_flags it' = (cv_flags it AND 0x60) OR (if 0xffff < ui then 1 else 0) \<and> cbor_value_extract_int64_helper it' = ui"
proof (cases ui mt rule: number_bytes_cases)
  case (small d)
  have u: "\<not> 27 < (word_of_nat d :: u8)" "(word_of_nat d :: u8) < 24" "(ucast (ucast (word_of_nat d :: u8) :: u16) :: u64) = word_of_nat d"
      "\<not> 0xffff < (word_of_nat d :: u64)" "ucast (word_of_nat d :: u8) = (word_of_nat d :: u16)"
    using small(1) word_unat_eq_iff [of "ucast (word_of_nat d :: u16) :: u64" "word_of_nat d"]
    by (simp_all add: word_less_nat_alt unat_word_of_nat_small ucast_word_of_nat_small unat_ucast_le)
  note h = head_byte [of d mt, OF _ assms(1)]
  have "preparse_value it = (CborNoError, it\<lparr>cv_type := mt, cv_flags := cv_flags it AND 0x60, cv_extra := word_of_nat d\<rparr>)"
    using small(1,3) assms h u unfolding preparse_value_def Let_def by (auto simp: )
  then show ?thesis using u small(2) by (simp add: cbor_value_extract_int64_helper_def flags_and_1)
next
  case (long more)
  note e = head_long [OF long(1) assms(1)]
  obtain b where b: "drop (8 - 2 ^ more) (put64 ui) = b" "length b = 2 ^ more" using long(1) by auto
  have p: "cv_ptr it = (word_of_nat (24 + more) + mt) # b @ rest" using assms(2) long(4) by (simp add: b(1))
  have g: "get_number b = ui" using long(5) by (simp add: b(1))
  have mt: "drop_bit 5 mt \<noteq> 7" "drop_bit 5 mt \<noteq> 1" using assms(1) by auto
  define j where "j = it\<lparr>cv_type := mt, cv_flags := cv_flags it AND 0x60, cv_extra := ucast (word_of_nat (24 + more) :: u8)\<rparr>"
  have "preparse_value it = (CborNoError,
     if more = 0 then j\<lparr>cv_extra := ucast (hd b)\<rparr>
     else if more = 1 then j\<lparr>cv_extra := ucast ui\<rparr>
     else j\<lparr>cv_flags := cv_flags j OR 1\<rparr>)"
    using long(1) b(2) g mt e unfolding preparse_value_def Let_def p j_def
    by (elim insertE emptyE) (auto simp: p nth_append length_Suc_conv)
  moreover have "(ucast (ucast ui :: u16) :: u64) = ui" if "more = 1"
    using long(3) that by (intro word_unat_eq_iff [THEN iffD2]) (simp add: word_less_nat_alt unat_ucast_le unsigned_ucast_eq unsigned_take_bit_eq take_bit_nat_eq_self)
  moreover have "(ucast (ucast (hd b) :: u16) :: u64) = ui" if "more = 0"
    using g b(2) that by (cases b) (auto simp: get_number_def intro!: word_unat_eq_iff [THEN iffD2] simp: unat_ucast_le)
  moreover have "cbor_value_decode_int64_internal (j\<lparr>cv_flags := cv_flags j OR 1\<rparr>) = ui" if "more \<noteq> 0" "more \<noteq> 1"
  proof -
    have "(word_of_nat (24 + more) + mt) AND 1 = (if more = 2 then 0 else 1)"
      using that long(1) assms(1) by auto
    then show ?thesis using that long(1) g b(2) by (auto simp: cbor_value_decode_int64_internal_def j_def p)
  qed
  ultimately show ?thesis
    using long(1,3) by (elim insertE emptyE) (auto simp: cbor_value_extract_int64_helper_def flags_and_1 j_def)
qed

lemma head_major_type: "mt \<in> set major_types \<Longrightarrow> hd (number_bytes ui mt @ rest) AND 0xe0 = mt"
  using head_byte(2) head_long(2) by (cases ui mt rule: number_bytes_cases) auto

lemma number_bytes_not_Nil: "number_bytes ui mt \<noteq> []"
  by (cases ui mt rule: number_bytes_cases) auto

text \<open>A string of known length is copied whole.\<close>

lemma copy_string_head:
  assumes mt: "mt \<in> {CborByteStringType, CborTextStringType}" and p: "cv_ptr it = string_bytes mt data @ rest"
    and t: "cv_type it = mt" and f: "cv_flags it AND 2 = 0" "cv_flags it AND 4 = 0" and l: "length data < 2 ^ 32"
    and n: "preparse_next_value (it\<lparr>cv_ptr := rest, cv_flags := cv_flags it OR 2\<rparr>) = (err, it')"
  shows "cbor_value_copy_string it buflen =
    (if err \<noteq> CborNoError then err else if int (length data) \<le> buflen then CborNoError else CborErrorOutOfMemory, data, it')"
proof -
  have m: "mt \<in> set major_types" using mt by auto
  have h: "hd (cv_ptr it) AND 0xe0 = mt" using head_major_type [OF m] by (simp add: p string_bytes_def)
  then have h': "hd (cv_ptr it) \<noteq> 0xff" using mt by auto
  have "unat (word_of_nat (length data) :: u64) = length data" using l by (intro unat_word_of_nat_small) simp
  then have u: "unat (ucast (word_of_nat (length data) :: u64) :: u32) = length data"
    using l by (simp add: unsigned_ucast_eq unsigned_take_bit_eq take_bit_nat_eq_self)
  then have v: "word_of_nat (length data) = (ucast (ucast (word_of_nat (length data) :: u64) :: u32) :: u64)"
    using l by (intro word_unat_eq_iff [THEN iffD2]) (simp add: unat_ucast_le unat_word_of_nat_small)
  have e: "extract_length (cv_ptr it) = (CborNoError, data @ rest, length data)"
    using l extract_number_head [OF m, of "word_of_nat (length data)" "data @ rest"]
    by (simp add: extract_length_def p string_bytes_def Let_def u v [symmetric])
  have 1: "get_string_chunk it = (CborNoError, Some data, it\<lparr>cv_ptr := rest, cv_flags := cv_flags it OR 2\<rparr>)"
    using f h h' t e p number_bytes_not_Nil
    by (simp add: get_string_chunk_def prepare_string_iteration_def cbor_value_is_length_known_def string_bytes_def)
  have f2: "(cv_flags it OR 2) AND 2 \<noteq> 0" "(cv_flags it OR 2) AND 4 = 0"
    using f by (simp_all add: bit.conj_disj_distrib2)
  have 2: "get_string_chunk (it\<lparr>cv_ptr := rest, cv_flags := cv_flags it OR 2\<rparr>) = (err, None, it')"
    using f2 n by (simp add: get_string_chunk_def cbor_value_is_length_known_def)
  show ?thesis
    using l by (simp add: cbor_value_copy_string_def iterate_string_chunks.simps [of it] iterate_string_chunks.simps [of "it\<lparr>cv_ptr := rest, cv_flags := cv_flags it OR 2\<rparr>"] 1 2)
qed

text \<open>
  A value of known length whose head has been read: what remains in its container, its type, the flags
  and the number of its head.
\<close>

definition value_at :: "CborValue \<Rightarrow> u8 \<Rightarrow> u64 \<Rightarrow> bytes \<Rightarrow> u32 \<Rightarrow> u8 \<Rightarrow> bool" where
  "value_at it mt ui rest r flags \<longleftrightarrow> cv_ptr it = number_bytes ui mt @ rest \<and> cv_type it = mt \<and> cv_remaining it = r \<and>
     cv_flags it = (flags AND 0x60) OR (if 0xffff < ui then 1 else 0) \<and> cbor_value_extract_int64_helper it = ui"

lemma preparse_value_at:
  assumes "mt \<in> set major_types" "cv_ptr it = number_bytes ui mt @ rest"
  obtains it' where "preparse_value it = (CborNoError, it')" "value_at it' mt ui rest (cv_remaining it) (cv_flags it)"
  using preparse_head [OF assms] assms(2) by (auto simp: value_at_def)

lemma parser_init_at:
  assumes "mt \<in> set major_types"
  obtains it where "cbor_parser_init (number_bytes ui mt @ rest) = (CborNoError, it)" "value_at it mt ui rest 1 0"
  by (rule preparse_value_at [OF assms, of "\<lparr>cv_ptr = number_bytes ui mt @ rest, cv_remaining = 1, cv_extra = 0, cv_type = 0, cv_flags = 0\<rparr>"])
    (auto simp: cbor_parser_init_def)

lemma next_value_at:
  assumes "mt \<in> set major_types" "cv_ptr it = number_bytes ui mt @ rest" "1 < cv_remaining it" "cv_remaining it \<noteq> UINT32_MAX" "cv_type it \<noteq> CborTagType"
  obtains it' where "preparse_next_value it = (CborNoError, it')" "value_at it' mt ui rest (cv_remaining it - 1) (cv_flags it XOR 0x40)"
proof -
  have "\<not> 1 < (4294967296 :: u32)" by (simp add: word_less_nat_alt)
  then have "cv_remaining it - 1 \<noteq> UINT32_MAX" "cv_remaining it - 1 \<noteq> 0" using assms(3) by (auto simp: diff_eq_eq)
  then have "preparse_next_value it = preparse_value (it\<lparr>cv_remaining := cv_remaining it - 1, cv_flags := cv_flags it XOR 0x40\<rparr>)"
    using assms(3-5) by (simp add: preparse_next_value_def preparse_next_value_nodecrement_def Let_def)
  then show ?thesis
    using preparse_value_at [OF assms(1), of "it\<lparr>cv_remaining := cv_remaining it - 1, cv_flags := cv_flags it XOR 0x40\<rparr>" ui rest] assms(2) that
    by auto
qed

lemma last_value:
  "cv_remaining it = 1 \<Longrightarrow> cv_type it \<noteq> CborTagType \<Longrightarrow> preparse_next_value it = (CborNoError, it\<lparr>cv_remaining := 0, cv_type := CborInvalidType\<rparr>)"
  by (simp add: preparse_next_value_def Let_def)

lemma value_at_flags:
  assumes "value_at it mt ui rest r flags"
  shows "cv_flags it AND 2 = 0" "cv_flags it AND 4 = 0"
  using assms by (simp_all add: value_at_def and.assoc bit.conj_disj_distrib2)

lemma value_at_length:
  "value_at it mt ui rest r flags \<Longrightarrow> unat ui < 2 ^ 32 \<Longrightarrow> cbor_value_get_length it = (CborNoError, unat ui)"
proof -
  assume a: "value_at it mt ui rest r flags" and l: "unat ui < 2 ^ 32"
  have u: "unat (ucast ui :: u32) = unat ui"
    using l by (simp add: unsigned_ucast_eq unsigned_take_bit_eq take_bit_nat_eq_self)
  then have "(ucast (ucast ui :: u32) :: u64) = ui" by (intro word_unat_eq_iff [THEN iffD2]) (simp add: unat_ucast_le)
  then show ?thesis
    using a u value_at_flags(2) [OF a] by (simp add: cbor_value_get_length_def cbor_value_is_length_known_def Let_def value_at_def)
qed

text \<open>What is encoded is what is decoded: a number of up to 64 bits or a byte string that the encoder
  reports as written (in at most nine bytes of head) is found by the parser in the written bytes,
  whatever bytes follow, with the same value.\<close>

theorem cbor_encode_then_parse:
  assumes "cbor_encode_byte_string (cbor_encoder_init n) data = (CborNoError, enc)" "length data < 2 ^ 32"
    and "cbor_encode_uint (cbor_encoder_init n) ui = (CborNoError, enc')"
  shows "\<exists>it it'. cbor_parser_init (enc_written enc @ rest) = (CborNoError, it) \<and>
      cbor_value_get_length it = (CborNoError, length data) \<and>
      cbor_value_copy_string it (int (length data)) = (CborNoError, data, it\<lparr>cv_ptr := rest, cv_flags := cv_flags it OR 2, cv_remaining := 0, cv_type := CborInvalidType\<rparr>) \<and>
    cbor_parser_init (enc_written enc' @ rest) = (CborNoError, it') \<and> cv_type it' = CborIntegerType \<and>
      cbor_value_get_uint64 it' = ui \<and> length (enc_written enc') \<le> 9"
proof -
  have w: "enc_written enc = number_bytes (word_of_nat (length data)) CborByteStringType @ data"
    using encode_string_success [of "cbor_encoder_init n" CborByteStringType data enc] assms(1)
    by (simp add: cbor_encode_byte_string_def cbor_encoder_init_def string_bytes_def)
  have l: "unat (word_of_nat (length data) :: u64) = length data"
    using assms(2) by (intro unat_word_of_nat_small) simp
  obtain it where it: "cbor_parser_init (enc_written enc @ rest) = (CborNoError, it)"
      "value_at it CborByteStringType (word_of_nat (length data)) (data @ rest) 1 0"
    using parser_init_at [of CborByteStringType "word_of_nat (length data)" "data @ rest"] by (auto simp: w)
  note f = value_at_flags [OF it(2)]
  have g: "cbor_value_get_length it = (CborNoError, length data)" using value_at_length [OF it(2)] l assms(2) by simp
  have "preparse_next_value (it\<lparr>cv_ptr := rest, cv_flags := cv_flags it OR 2\<rparr>) =
      (CborNoError, it\<lparr>cv_ptr := rest, cv_flags := cv_flags it OR 2, cv_remaining := 0, cv_type := CborInvalidType\<rparr>)"
    using it(2) by (subst last_value) (auto simp: value_at_def)
  from copy_string_head [OF _ _ _ f assms(2) this, of CborByteStringType] it(2)
  have c: "cbor_value_copy_string it (int (length data)) = (CborNoError, data, it\<lparr>cv_ptr := rest, cv_flags := cv_flags it OR 2, cv_remaining := 0, cv_type := CborInvalidType\<rparr>)"
    by (simp add: value_at_def string_bytes_def)
  have "enc_written enc' = number_bytes ui CborIntegerType"
    using assms(3) by (auto simp: cbor_encode_uint_def encode_number_def encode_number_no_update_def append_to_buffer_def
        saturated_decrement_eq cbor_encoder_init_def split: if_splits)
  then show ?thesis
    using it(1) g c parser_init_at [of CborIntegerType ui rest]
    by (auto simp: value_at_def cbor_value_get_uint64_def length_number_bytes) 
qed

theorem cbor_encode_then_parse_witness:
  "\<exists>enc enc'. cbor_encode_byte_string (cbor_encoder_init 8) [1, 2, 3] = (CborNoError, enc) \<and>
    cbor_encode_uint (cbor_encoder_init 8) 70000 = (CborNoError, enc') \<and>
    (\<exists>it it'. cbor_parser_init (enc_written enc @ [0xFF]) = (CborNoError, it) \<and>
      cbor_value_get_length it = (CborNoError, length [1, 2, 3 :: u8]) \<and>
      cbor_value_copy_string it (int (length [1, 2, 3 :: u8])) = (CborNoError, [1, 2, 3], it\<lparr>cv_ptr := [0xFF], cv_flags := cv_flags it OR 2, cv_remaining := 0, cv_type := CborInvalidType\<rparr>) \<and>
    cbor_parser_init (enc_written enc' @ [0xFF]) = (CborNoError, it') \<and> cv_type it' = CborIntegerType \<and>
      cbor_value_get_uint64 it' = 70000 \<and> length (enc_written enc') \<le> 9)"
proof -
  have "fst (cbor_encode_byte_string (cbor_encoder_init 8) [1, 2, 3]) = CborNoError" "fst (cbor_encode_uint (cbor_encoder_init 8) 70000) = CborNoError"
    by code_simp+
  then obtain enc enc' where e: "cbor_encode_byte_string (cbor_encoder_init 8) [1, 2, 3] = (CborNoError, enc)"
      "cbor_encode_uint (cbor_encoder_init 8) 70000 = (CborNoError, enc')"
    by (metis prod.collapse)
  show ?thesis
    using cbor_encode_then_parse [OF e(1) _ e(2), of "[0xFF]"] e by (intro exI [of _ enc] exI [of _ enc']) simp
qed

end
