(* ===== verification/Channel_Cose.thy ===== *)
theory Channel_Cose
  imports Channel_Cbor
begin

text \<open>
  Secured messages in the COSE MAC0 format: \<^verbatim>\<open>nexus_cose_mac0_common.c\<close>, \<^verbatim>\<open>nexus_cose_mac0_sign.c\<close>,
  \<^verbatim>\<open>nexus_cose_mac0_verify.c\<close>, and \<^verbatim>\<open>nexus_oc_wrapper_repack_buffer_secured\<close>. A pointer with its length is
  the list of bytes. A failed call returns \<open>Inl\<close> of its error.
\<close>

section \<open>Common\<close>

abbreviation (input) MAX_ENCODED_CBOR_OBJECT_SIZE :: nat where "MAX_ENCODED_CBOR_OBJECT_SIZE \<equiv> 98"
abbreviation (input) NEXUS_COSE_MAC0_MAX_COAP_URI_LENGTH :: nat where "NEXUS_COSE_MAC0_MAX_COAP_URI_LENGTH \<equiv> 11"
abbreviation (input) MAX_PROTECTED_HEADER_BSTR_SIZE :: nat where "MAX_PROTECTED_HEADER_BSTR_SIZE \<equiv> 7"
abbreviation (input) MAX_AAD_SIZE_FOR_CREATING_MAC_STRUCT :: nat where "MAX_AAD_SIZE_FOR_CREATING_MAC_STRUCT \<equiv> 26"
abbreviation (input) MAC_STRUCT_BUF_SIZE :: nat where "MAC_STRUCT_BUF_SIZE \<equiv> 4 + 7 + (1 + 2 + 11) + 98"

datatype nexus_cose_error =
    NEXUS_COSE_ERROR_BUFFER_TOO_SMALL | NEXUS_COSE_ERROR_CBOR_ENCODER | NEXUS_COSE_ERROR_CBOR_PARSER
  | NEXUS_COSE_ERROR_INPUT_DATA_INVALID | NEXUS_COSE_ERROR_MAC_TAG_INVALID

record external_aad =
  coap_method :: u8
  coap_uri :: bytes

record macparams =
  mp_key :: bytes
  nonce_to_protect :: u32
  mp_aad :: external_aad
  mp_payload :: bytes

text \<open>\<^verbatim>\<open>nexus_cose_mac0_cbor_data_t\<close>: what has been written to the buffer, and its length.\<close>

record cbor_data =
  mac_buf :: bytes
  mac_len :: u8

text \<open>The empty list stands for a returned length of zero.\<close>

definition nexus_cose_mac0_encode_protected_header_map :: "u32 \<Rightarrow> nat \<Rightarrow> bytes" where
  "nexus_cose_mac0_encode_protected_header_map nonce_v buf_size =
     (if buf_size < MAX_PROTECTED_HEADER_BSTR_SIZE then []
      else
        let nonce_le = nexus_endian_htole32 nonce_v;
            (err, enc, inner_enc) = cbor_encoder_create_map (cbor_encoder_init MAX_PROTECTED_HEADER_BSTR_SIZE) 1
        in if err \<noteq> CborNoError then []
           else let (err, inner_enc) = cbor_encode_uint inner_enc 5
           in if err \<noteq> CborNoError then []
           else let (err, inner_enc) = cbor_encode_uint inner_enc (ucast nonce_le)
           in if err \<noteq> CborNoError then []
           else let (err, enc) = cbor_encoder_close_container enc inner_enc
           in if err \<noteq> CborNoError then []
           else take (unat (word_of_nat (cbor_encoder_get_buffer_size enc) :: u8)) (enc_written enc))"

definition context_string :: bytes where
  "context_string = map of_char ''MAC0''"

definition mac_params_to_mac_structure :: "macparams \<Rightarrow> nexus_cose_error + cbor_data" where
  "mac_params_to_mac_structure mp =
     (let protected_header =
            nexus_cose_mac0_encode_protected_header_map (nonce_to_protect mp) MAX_AAD_SIZE_FOR_CREATING_MAC_STRUCT
      in if protected_header = [] then Inl NEXUS_COSE_ERROR_CBOR_ENCODER
         else let (err, enc, inner_enc) = cbor_encoder_create_array (cbor_encoder_init MAC_STRUCT_BUF_SIZE) 4
         in if err \<noteq> CborNoError then Inl NEXUS_COSE_ERROR_CBOR_ENCODER
         else let (err, inner_enc) = cbor_encode_text_string inner_enc context_string
         in if err \<noteq> CborNoError then Inl NEXUS_COSE_ERROR_CBOR_ENCODER
         else let (err, inner_enc) = cbor_encode_byte_string inner_enc protected_header
         in if err \<noteq> CborNoError then Inl NEXUS_COSE_ERROR_CBOR_ENCODER
         else if length (coap_uri (mp_aad mp)) > NEXUS_COSE_MAC0_MAX_COAP_URI_LENGTH
         then Inl NEXUS_COSE_ERROR_INPUT_DATA_INVALID
         else let (err, inner_enc) = cbor_encode_byte_string inner_enc (coap_method (mp_aad mp) # coap_uri (mp_aad mp))
         in if err \<noteq> CborNoError then Inl NEXUS_COSE_ERROR_CBOR_ENCODER
         else let (err, inner_enc) = cbor_encode_byte_string inner_enc (mp_payload mp)
         in if err \<noteq> CborNoError then Inl NEXUS_COSE_ERROR_CBOR_ENCODER
         else let (err, enc) = cbor_encoder_close_container enc inner_enc
         in if err \<noteq> CborNoError then Inl NEXUS_COSE_ERROR_CBOR_ENCODER
         else Inr \<lparr>mac_buf = enc_written enc, mac_len = word_of_nat (cbor_encoder_get_buffer_size enc)\<rparr>)"

definition nexus_cose_mac0_common_compute_tag :: "cbor_data \<Rightarrow> bytes \<Rightarrow> bytes" where
  "nexus_cose_mac0_common_compute_tag mac_struct k = nexus_check_compute k (mac_buf mac_struct) (ucast (mac_len mac_struct))"

section \<open>Signing\<close>

text \<open>The output is the bytes written to it.\<close>

definition sign_input_and_tag :: "macparams \<Rightarrow> bytes \<Rightarrow> nat \<Rightarrow> nexus_cose_error + bytes" where
  "sign_input_and_tag mp tag output_size =
     (let (err, enc, inner_enc) = cbor_encoder_create_array (cbor_encoder_init output_size) 4
      in if err \<noteq> CborNoError then Inl NEXUS_COSE_ERROR_CBOR_ENCODER
      else let protected_header =
             nexus_cose_mac0_encode_protected_header_map (nonce_to_protect mp) MAX_PROTECTED_HEADER_BSTR_SIZE
      in if protected_header = [] then Inl NEXUS_COSE_ERROR_CBOR_ENCODER
      else let (err, inner_enc) = cbor_encode_byte_string inner_enc protected_header
      in if err \<noteq> CborNoError then Inl NEXUS_COSE_ERROR_CBOR_ENCODER
      else let (err, inner_enc, map_enc) = cbor_encoder_create_map inner_enc 0
      in if err \<noteq> CborNoError then Inl NEXUS_COSE_ERROR_CBOR_ENCODER
      else let (err, inner_enc) = cbor_encoder_close_container inner_enc map_enc
      in if err \<noteq> CborNoError then Inl NEXUS_COSE_ERROR_CBOR_ENCODER
      else let (err, inner_enc) = cbor_encode_byte_string inner_enc (mp_payload mp)
      in if err \<noteq> CborNoError then Inl NEXUS_COSE_ERROR_CBOR_ENCODER
      else let (err, inner_enc) = cbor_encode_byte_string inner_enc tag
      in if err \<noteq> CborNoError then Inl NEXUS_COSE_ERROR_CBOR_ENCODER
      else let (err, enc) = cbor_encoder_close_container enc inner_enc
      in if err \<noteq> CborNoError then Inl NEXUS_COSE_ERROR_CBOR_ENCODER
      else if cbor_encoder_get_buffer_size enc > MAX_ENCODED_CBOR_OBJECT_SIZE
      then Inl NEXUS_COSE_ERROR_INPUT_DATA_INVALID
      else Inr (enc_written enc))"

definition nexus_cose_mac0_sign_encode_message :: "macparams \<Rightarrow> nat \<Rightarrow> nexus_cose_error + bytes" where
  "nexus_cose_mac0_sign_encode_message mp output_size =
     (if output_size < MAX_ENCODED_CBOR_OBJECT_SIZE then Inl NEXUS_COSE_ERROR_BUFFER_TOO_SMALL
      else case mac_params_to_mac_structure mp of
          Inl err \<Rightarrow> Inl err
        | Inr mac_struct \<Rightarrow>
            sign_input_and_tag mp (nexus_cose_mac0_common_compute_tag mac_struct (mp_key mp)) output_size)"

definition nexus_oc_wrapper_repack_buffer_secured :: "nat \<Rightarrow> macparams \<Rightarrow> bytes" where
  "nexus_oc_wrapper_repack_buffer_secured secured_output_size mp =
     (if secured_output_size < MAX_ENCODED_CBOR_OBJECT_SIZE then []
      else case nexus_cose_mac0_sign_encode_message mp secured_output_size of Inl _ \<Rightarrow> [] | Inr output \<Rightarrow> output)"

section \<open>Verifying\<close>

definition verify_deserialize_protected_header :: "bytes \<Rightarrow> nexus_cose_error + u32" where
  "verify_deserialize_protected_header protected_header =
     (let (err, prot_root) = cbor_parser_init protected_header
      in if err \<noteq> CborNoError then Inl NEXUS_COSE_ERROR_CBOR_PARSER
      else let (err, map_length) = cbor_value_get_length prot_root
      in if cv_type prot_root \<noteq> CborMapType \<or> err \<noteq> CborNoError then Inl NEXUS_COSE_ERROR_INPUT_DATA_INVALID
      else if map_length = 0 then Inl NEXUS_COSE_ERROR_INPUT_DATA_INVALID
      else let (err, prot_map) = cbor_value_enter_container prot_root
      in if err \<noteq> CborNoError then Inl NEXUS_COSE_ERROR_CBOR_PARSER
      else if cv_type prot_map \<noteq> CborIntegerType then Inl NEXUS_COSE_ERROR_INPUT_DATA_INVALID
      else let (err, prot_map) = cbor_value_advance prot_map
      in if err \<noteq> CborNoError \<or> cv_type prot_map \<noteq> CborIntegerType then Inl NEXUS_COSE_ERROR_INPUT_DATA_INVALID
      else let tmp_nonce = cbor_value_get_uint64 prot_map
      in if tmp_nonce > ucast UINT32_MAX then Inl NEXUS_COSE_ERROR_INPUT_DATA_INVALID
      else let (err, prot_map) = cbor_value_advance prot_map
      in if err \<noteq> CborNoError \<or> fst (cbor_value_leave_container prot_root prot_map) \<noteq> CborNoError
      then Inl NEXUS_COSE_ERROR_CBOR_PARSER
      else Inr (ucast tmp_nonce))"

record extracted_params =
  ex_nonce :: u32
  ex_payload :: bytes
  ex_tag :: bytes

text \<open>
  The payload is not copied: a pointer into the message is computed from its length, as if the length
  were encoded in the shortest form. \<open>tag_memory\<close> is what the eight bytes of the tag hold before a tag
  is copied there.
\<close>

definition verify_payload :: "bytes \<Rightarrow> nat \<Rightarrow> nexus_cose_error + bytes" where
  "verify_payload ptr payload_len =
     (if payload_len < 24 then Inr (take payload_len (drop 1 ptr))
      else if payload_len < 255 then Inr (take payload_len (drop 2 ptr))
      else Inl NEXUS_COSE_ERROR_INPUT_DATA_INVALID)"

definition verify_tag :: "bytes \<Rightarrow> CborValue \<Rightarrow> CborValue \<Rightarrow> nexus_cose_error + bytes" where
  "verify_tag tag_memory root ary =
     (let (err, tag_length) = cbor_value_get_length ary
      in if cv_type ary \<noteq> CborByteStringType \<or> err \<noteq> CborNoError then Inl NEXUS_COSE_ERROR_INPUT_DATA_INVALID
      else if tag_length = 0 then Inl NEXUS_COSE_ERROR_INPUT_DATA_INVALID
      else let (err, tag, ary) = cbor_value_copy_string ary 8
      in if err \<noteq> CborNoError then Inl NEXUS_COSE_ERROR_CBOR_PARSER
      else if fst (cbor_value_leave_container root ary) \<noteq> CborNoError then Inl NEXUS_COSE_ERROR_CBOR_PARSER
      else Inr (copied_to tag tag_memory))"

definition verify_deserialize_protected_message :: "bytes \<Rightarrow> bytes \<Rightarrow> nexus_cose_error + extracted_params" where
  "verify_deserialize_protected_message tag_memory data =
     (let (err, root) = cbor_parser_init data
      in if err \<noteq> CborNoError then Inl NEXUS_COSE_ERROR_CBOR_PARSER
      else let (err, array_length) = cbor_value_get_length root
      in if cv_type root \<noteq> CborArrayType \<or> err \<noteq> CborNoError then Inl NEXUS_COSE_ERROR_CBOR_PARSER
      else if array_length \<noteq> 4 then Inl NEXUS_COSE_ERROR_INPUT_DATA_INVALID
      else let (err, ary) = cbor_value_enter_container root
      in if err \<noteq> CborNoError then Inl NEXUS_COSE_ERROR_CBOR_PARSER
      else let (err, header_length) = cbor_value_get_length ary
      in if cv_type ary \<noteq> CborByteStringType \<or> err \<noteq> CborNoError then Inl NEXUS_COSE_ERROR_INPUT_DATA_INVALID
      else if header_length = 0 then Inl NEXUS_COSE_ERROR_INPUT_DATA_INVALID
      else let (err, header, ary) = cbor_value_copy_string ary (int MAX_PROTECTED_HEADER_BSTR_SIZE)
      in if err \<noteq> CborNoError then Inl NEXUS_COSE_ERROR_INPUT_DATA_INVALID
      else (case verify_deserialize_protected_header header of Inl err \<Rightarrow> Inl err
      | Inr nonce_v \<Rightarrow>
          if cv_type ary \<noteq> CborMapType then Inl NEXUS_COSE_ERROR_INPUT_DATA_INVALID
          else let (err, ary) = cbor_value_advance ary
          in if err \<noteq> CborNoError then Inl NEXUS_COSE_ERROR_INPUT_DATA_INVALID
          else if cv_type ary \<noteq> CborByteStringType then Inl NEXUS_COSE_ERROR_INPUT_DATA_INVALID
          else let (err, payload_len) = cbor_value_calculate_string_length ary
          in if err \<noteq> CborNoError then Inl NEXUS_COSE_ERROR_CBOR_PARSER
          else (case verify_payload (cv_ptr ary) payload_len of Inl err \<Rightarrow> Inl err
          | Inr payload \<Rightarrow>
              let (err, ary) = cbor_value_advance ary
              in if err \<noteq> CborNoError then Inl NEXUS_COSE_ERROR_CBOR_PARSER
              else (case verify_tag tag_memory root ary of Inl err \<Rightarrow> Inl err
              | Inr tag \<Rightarrow> Inr \<lparr>ex_nonce = nonce_v, ex_payload = payload, ex_tag = tag\<rparr>))))"

text \<open>The nonce and the payload of a message whose tag is right.\<close>

definition nexus_cose_mac0_verify_message ::
    "bytes \<Rightarrow> bytes \<Rightarrow> external_aad \<Rightarrow> bytes \<Rightarrow> nexus_cose_error + u32 \<times> bytes" where
  "nexus_cose_mac0_verify_message tag_memory k aad data =
     (case verify_deserialize_protected_message tag_memory data of Inl err \<Rightarrow> Inl err
      | Inr ex \<Rightarrow>
          (case mac_params_to_mac_structure
              \<lparr>mp_key = k, nonce_to_protect = ex_nonce ex, mp_aad = aad, mp_payload = ex_payload ex\<rparr> of Inl err \<Rightarrow> Inl err
          | Inr mac_struct \<Rightarrow>
              if nexus_cose_mac0_common_compute_tag mac_struct k \<noteq> ex_tag ex then Inl NEXUS_COSE_ERROR_MAC_TAG_INVALID
              else Inr (ex_nonce ex, ex_payload ex)))"

section \<open>Layout of secured messages\<close>

lemma nexus_endian_htole32_id [simp]: "nexus_endian_htole32 w = w"
proof -
  have m: "bit (255 :: int) n \<longleftrightarrow> n < 8" for n
    using bit_mask_iff [of 8 n, where 'a = int] by (auto simp: mask_eq_exp_minus_1)
  have "[ucast (w AND 0xFF), ucast (drop_bit 8 (w AND 0x0000FF00)), ucast (drop_bit 16 (w AND 0x00FF0000)), ucast (drop_bit 24 w)] = u32_le w"
    by (simp add: u32_le_def) (intro conjI; rule bit_word_eqI; simp add: bit_simps m)
  then show ?thesis by (simp add: nexus_endian_htole32_def le_u32_u32_le [where xs = "[]", simplified])
qed

lemma length_nonce_bytes: "length (number_bytes (ucast (n :: u32)) mt) \<le> 5" "number_bytes (ucast n) mt \<noteq> []"
proof -
  have "unat n < 2 ^ LENGTH(32)" by (rule unsigned_less)
  then have "\<not> 0xffffffff < (ucast n :: u64)"
    by (simp add: word_less_nat_alt unat_ucast_le)
  then show "length (number_bytes (ucast n) mt) \<le> 5" by (simp add: length_number_bytes)
  show "number_bytes (ucast n) mt \<noteq> []" using length_number_bytes [of "ucast n" mt] by (auto split: if_splits)
qed

definition protected_header :: "u32 \<Rightarrow> bytes" where
  "protected_header n = 0xA1 # 0x05 # number_bytes (ucast n) 0"

lemma length_protected_header: "length (protected_header n) \<le> 7" "3 \<le> length (protected_header n)" "protected_header n \<noteq> []"
  using length_nonce_bytes [of n 0] by (auto simp: protected_header_def Suc_le_eq)

lemma encode_protected_header_map_eq:
  assumes "7 \<le> buf_size"
  shows "nexus_cose_mac0_encode_protected_header_map n buf_size = protected_header n"
proof -
  have 1: "number_bytes 1 0xA0 = [0xA1]" "number_bytes 5 0 = [5]" by code_simp+
  have c: "cbor_encoder_create_map (cbor_encoder_init 7) 1 = (CborNoError,
      \<lparr>enc_written = [], enc_size = 7, enc_end = True, bytes_needed = 0, enc_remaining = 1, enc_flags = 0\<rparr>,
      \<lparr>enc_written = [0xA1], enc_size = 7, enc_end = True, bytes_needed = 0, enc_remaining = 3, enc_flags = 0x20\<rparr>)"
    unfolding cbor_encoder_create_map_def create_container_def encode_number_no_update_def saturated_decrement_eq
      cbor_encoder_init_def Let_def
    by (simp add: append_fits 1)
  have n: "length (number_bytes (ucast n) 0) \<le> 5" by (rule length_nonce_bytes)
  have "unat (word_of_nat (2 + length (number_bytes (ucast n) 0)) :: u8) = 2 + length (number_bytes (ucast n) 0)"
    using n by (intro unat_word_of_nat_small) simp
  then show ?thesis
    using assms n unfolding nexus_cose_mac0_encode_protected_header_map_def c
    by (simp add: encode_uint_fits 1 cbor_encoder_close_container_def cbor_encoder_get_buffer_size_def protected_header_def Let_def)
qed

definition mac_structure_bytes :: "macparams \<Rightarrow> bytes" where
  "mac_structure_bytes mp = 0x84 # string_bytes 0x60 context_string @ string_bytes 0x40 (protected_header (nonce_to_protect mp)) @
     string_bytes 0x40 (coap_method (mp_aad mp) # coap_uri (mp_aad mp)) @ string_bytes 0x40 (mp_payload mp)"

lemma length_string_bytes: "length data < 256 \<Longrightarrow> length (string_bytes mt data) = (if length data < 24 then 1 else 2) + length data"
  by (simp add: string_bytes_def number_bytes_small number_bytes_8)

lemma create_array_eq:
  "0 < n \<Longrightarrow> cbor_encoder_create_array (cbor_encoder_init n) 4 = (CborNoError,
      \<lparr>enc_written = [], enc_size = n, enc_end = True, bytes_needed = 0, enc_remaining = 1, enc_flags = 0\<rparr>,
      \<lparr>enc_written = [0x84], enc_size = n, enc_end = True, bytes_needed = 0, enc_remaining = 5, enc_flags = 0\<rparr>)"
proof -
  have "number_bytes 4 0x80 = [0x84]" by code_simp
  then show "0 < n \<Longrightarrow> ?thesis"
    unfolding cbor_encoder_create_array_def create_container_def encode_number_no_update_def saturated_decrement_eq
      cbor_encoder_init_def Let_def
    by (simp add: append_fits)
qed

lemma mac_structure_prefix:
  assumes "length (coap_uri (mp_aad mp)) \<le> 11"
  shows "length (string_bytes 0x60 context_string) = 5"
    "length (string_bytes 0x40 (protected_header (nonce_to_protect mp))) \<le> 8"
    "length (string_bytes 0x40 (coap_method (mp_aad mp) # coap_uri (mp_aad mp))) \<le> 13"
  using assms length_protected_header [of "nonce_to_protect mp"]
  by (simp_all add: length_string_bytes context_string_def)

lemma mac_params_to_mac_structure_eq:
  assumes "length (coap_uri (mp_aad mp)) \<le> 11" "length (mac_structure_bytes mp) \<le> 123"
  shows "mac_params_to_mac_structure mp =
    Inr \<lparr>mac_buf = mac_structure_bytes mp, mac_len = word_of_nat (length (mac_structure_bytes mp))\<rparr>"
  using assms length_protected_header(3) [of "nonce_to_protect mp"] mac_structure_prefix [OF assms(1)]
  unfolding mac_params_to_mac_structure_def
  by (simp add: encode_protected_header_map_eq create_array_eq cbor_encode_text_string_def cbor_encode_byte_string_def
      encode_string_fits cbor_encoder_close_container_def cbor_encoder_get_buffer_size_def mac_structure_bytes_def Let_def)

lemma mac_params_to_mac_structure_error:
  assumes "\<not> (length (coap_uri (mp_aad mp)) \<le> 11 \<and> length (mac_structure_bytes mp) \<le> 123)"
  shows "\<exists>err. mac_params_to_mac_structure mp = Inl err"
proof (cases "length (coap_uri (mp_aad mp)) \<le> 11")
  case True
  note l = mac_structure_prefix [OF this]
  define enc where "enc = \<lparr>enc_written = 0x84 # string_bytes 0x60 context_string @ string_bytes 0x40 (protected_header (nonce_to_protect mp)) @
     string_bytes 0x40 (coap_method (mp_aad mp) # coap_uri (mp_aad mp)), enc_size = 123, enc_end = True, bytes_needed = 0, enc_remaining = 2, enc_flags = 0\<rparr>"
  have "fst (encode_string enc 0x40 (mp_payload mp)) \<noteq> CborNoError"
    using assms True l by (intro encode_string_overflows) (auto simp: enc_def mac_structure_bytes_def)
  then obtain err enc' where "encode_string enc 0x40 (mp_payload mp) = (err, enc')" "err \<noteq> CborNoError"
    by (cases "encode_string enc 0x40 (mp_payload mp)") auto
  then show ?thesis
    using True length_protected_header(3) [of "nonce_to_protect mp"] l unfolding mac_params_to_mac_structure_def
    by (simp add: encode_protected_header_map_eq create_array_eq cbor_encode_text_string_def cbor_encode_byte_string_def
        encode_string_fits enc_def Let_def)
next
  case False
  have "length (string_bytes 0x40 (protected_header (nonce_to_protect mp))) \<le> 8" "length (string_bytes 0x60 context_string) = 5"
    using length_protected_header [of "nonce_to_protect mp"] by (simp_all add: length_string_bytes context_string_def)
  then show ?thesis
    using False length_protected_header(3) [of "nonce_to_protect mp"] unfolding mac_params_to_mac_structure_def
    by (simp add: encode_protected_header_map_eq create_array_eq cbor_encode_text_string_def cbor_encode_byte_string_def
        encode_string_fits Let_def)
qed


lemma mac_params_to_mac_structure_success:
  assumes "mac_params_to_mac_structure mp = Inr m"
  shows "length (coap_uri (mp_aad mp)) \<le> 11 \<and> length (mac_structure_bytes mp) \<le> 123 \<and>
    m = \<lparr>mac_buf = mac_structure_bytes mp, mac_len = word_of_nat (length (mac_structure_bytes mp))\<rparr>"
  using assms mac_params_to_mac_structure_eq [of mp] mac_params_to_mac_structure_error [of mp] by fastforce

text \<open>The message: an array of the header, an empty map, the payload and the tag.\<close>

definition message_bytes :: "u32 \<Rightarrow> bytes \<Rightarrow> bytes \<Rightarrow> bytes" where
  "message_bytes n payload tag = 0x84 # string_bytes 0x40 (protected_header n) @ 0xA0 # string_bytes 0x40 payload @ string_bytes 0x40 tag"

lemma create_empty_map_fits:
  "enc_end enc \<Longrightarrow> length (enc_written enc) < enc_size enc \<Longrightarrow>
   cbor_encoder_create_map enc 0 = (CborNoError, enc\<lparr>enc_remaining := enc_remaining enc - 1\<rparr>,
     enc\<lparr>enc_written := enc_written enc @ [0xA0], enc_remaining := 1, enc_flags := 0x20\<rparr>)"
proof -
  have "number_bytes 0 0xA0 = [0xA0]" by code_simp
  then show "enc_end enc \<Longrightarrow> length (enc_written enc) < enc_size enc \<Longrightarrow> ?thesis"
    unfolding cbor_encoder_create_map_def create_container_def encode_number_no_update_def saturated_decrement_eq Let_def
    by (simp add: append_fits)
qed

lemma sign_input_and_tag_eq:
  assumes "length (message_bytes (nonce_to_protect mp) (mp_payload mp) tag) \<le> 98" "98 \<le> output_size"
  shows "sign_input_and_tag mp tag output_size = Inr (message_bytes (nonce_to_protect mp) (mp_payload mp) tag)"
  using assms length_protected_header(3) [of "nonce_to_protect mp"]
  unfolding sign_input_and_tag_def
  by (simp add: encode_protected_header_map_eq create_array_eq cbor_encode_byte_string_def create_empty_map_fits
      encode_string_fits cbor_encoder_close_container_def cbor_encoder_get_buffer_size_def message_bytes_def Let_def)

lemma sign_encode_message_eq:
  assumes "length (coap_uri (mp_aad mp)) \<le> 11" "length (mp_payload mp) \<le> 77" "98 \<le> output_size"
  shows "nexus_cose_mac0_sign_encode_message mp output_size = Inr (message_bytes (nonce_to_protect mp) (mp_payload mp)
    (nexus_check_compute (mp_key mp) (mac_structure_bytes mp) (word_of_nat (length (mac_structure_bytes mp)))))"
    (is "_ = Inr (message_bytes _ _ ?tag)")
proof -
  have p: "length (string_bytes 0x40 (mp_payload mp)) \<le> 79" using assms(2) by (simp add: length_string_bytes)
  then have m: "length (mac_structure_bytes mp) \<le> 123"
    using mac_structure_prefix [OF assms(1)] by (simp add: mac_structure_bytes_def)
  have "length (string_bytes 0x40 ?tag) = 9" by (simp add: length_string_bytes)
  then have "length (message_bytes (nonce_to_protect mp) (mp_payload mp) ?tag) \<le> 98"
    using mac_structure_prefix(2) [OF assms(1)] p by (simp add: message_bytes_def)
  moreover have "(ucast (word_of_nat (length (mac_structure_bytes mp)) :: u8) :: u16) = word_of_nat (length (mac_structure_bytes mp))"
    using m by (intro word_unat_eq_iff [THEN iffD2]) (simp add: unat_ucast_le unat_word_of_nat_small)
  ultimately show ?thesis
    using assms m unfolding nexus_cose_mac0_sign_encode_message_def
    by (simp add: mac_params_to_mac_structure_eq nexus_cose_mac0_common_compute_tag_def sign_input_and_tag_eq)
qed

section \<open>Reading a secured message\<close>

lemma advance_fixed:
  assumes "is_fixed_type (cv_type it)" "cv_remaining it \<noteq> 0" "cv_ptr it \<noteq> []"
  shows "cbor_value_advance it = advance_internal it"
proof -
  obtain k where "2 * length (cv_ptr it) = Suc k" using assms(3) by (cases "cv_ptr it") auto
  then show ?thesis using assms by (simp add: cbor_value_advance_def)
qed

lemma advance_string:
  assumes "\<not> is_fixed_type (cv_type it)" "\<not> cbor_value_is_container it" "cv_remaining it \<noteq> 0" "cv_ptr it \<noteq> []"
    "cbor_value_copy_string it (uint (UINT32_MAX :: u32)) = (err, data, it')"
  shows "cbor_value_advance it = (err, it')"
proof -
  obtain k where "2 * length (cv_ptr it) = Suc k" using assms(4) by (cases "cv_ptr it") auto
  then show ?thesis using assms by (simp add: cbor_value_advance_def)
qed

lemma advance_empty_map:
  assumes "value_at it CborMapType 0 rest r flags" "r \<noteq> 0"
  shows "cbor_value_advance it = preparse_next_value (it\<lparr>cv_ptr := rest\<rparr>)"
proof -
  have n: "number_bytes 0 CborMapType = [0xA0]" by code_simp
  obtain k where k: "2 * length (cv_ptr it) = Suc (Suc k)" using assms(1) by (auto simp: value_at_def n)
  have "cbor_value_enter_container it = (CborNoError, it\<lparr>cv_ptr := rest, cv_remaining := 0, cv_type := CborInvalidType\<rparr>)"
    using value_at_flags(2) [OF assms(1)] extract_number_head [of CborMapType 0 rest] assms(1)
    by (simp add: cbor_value_enter_container_def value_at_def)
  then show ?thesis
    using assms k by (simp add: cbor_value_advance_def value_at_def is_fixed_type_def cbor_value_is_container_def
        cbor_value_at_end_def cbor_value_leave_container_def)
qed

lemma enter_container_at:
  assumes "value_at it mt n rest r flags" "mt \<in> {CborArrayType, CborMapType}" "n \<noteq> 0" "unat n < 2 ^ 31"
    "mt' \<in> set major_types" "rest = number_bytes ui mt' @ rest'"
  obtains it' where "cbor_value_enter_container it = (CborNoError, it')"
    "value_at it' mt' ui rest' (if mt = CborMapType then ucast n * 2 else ucast n) (mt AND 0x20)"
proof -
  have u: "unat (ucast n :: u32) = unat n"
    using assms(4) by (simp add: unsigned_ucast_eq unsigned_take_bit_eq take_bit_nat_eq_self)
  then have v: "(ucast (ucast n :: u32) :: u64) = n" by (intro word_unat_eq_iff [THEN iffD2]) (simp add: unat_ucast_le)
  define r' where "r' = (if mt = CborMapType then (ucast n :: u32) * 2 else ucast n)"
  have "n \<noteq> 0xffffffff" "\<not> UINT32_MAX div 2 < (ucast n :: u32)" using assms(4) u by (auto simp: word_less_nat_alt)
  moreover have "r' \<noteq> UINT32_MAX"
  proof -
    have "(ucast n :: u32) = word_of_nat (unat n)" by simp
    then have "r' = word_of_nat (if mt = CborMapType then unat n * 2 else unat n)" by (simp add: r'_def)
    then have "unat r' = (if mt = CborMapType then unat n * 2 else unat n)"
      using assms(4) by (simp add: unat_word_of_nat_small)
    then show ?thesis using assms(4) by (auto split: if_splits)
  qed
  moreover have m: "mt \<in> set major_types" using assms(2) by auto
  define j where "j = it\<lparr>cv_ptr := rest, cv_remaining := r', cv_flags := mt AND 0x20\<rparr>"
  ultimately have "cbor_value_enter_container it = preparse_value j"
    using value_at_flags(2) [OF assms(1)] extract_number_head [OF m, of n rest] assms(1-3) v
    by (auto simp: cbor_value_enter_container_def value_at_def preparse_next_value_nodecrement_def Let_def j_def r'_def)
  then show ?thesis
    using preparse_value_at [OF assms(5), of j ui rest'] assms(6) that by (auto simp: j_def r'_def)
qed

lemma verify_protected_header_eq: "verify_deserialize_protected_header (protected_header n) = Inr n"
proof -
  have h: "protected_header n = number_bytes 1 CborMapType @ number_bytes 5 CborIntegerType @ number_bytes (ucast n) CborIntegerType"
  proof -
    have "number_bytes 1 CborMapType @ number_bytes 5 CborIntegerType = [0xA1, 5]" by code_simp
    then show ?thesis unfolding append_assoc [symmetric] by (simp add: protected_header_def)
  qed
  obtain root where root: "cbor_parser_init (protected_header n) = (CborNoError, root)"
      "value_at root CborMapType 1 (number_bytes 5 CborIntegerType @ number_bytes (ucast n) CborIntegerType) 1 0"
    using parser_init_at [of CborMapType 1] by (auto simp: h)
  obtain m where m: "cbor_value_enter_container root = (CborNoError, m)"
      "value_at m CborIntegerType 5 (number_bytes (ucast n) CborIntegerType) 2 0x20"
    by (rule enter_container_at [OF root(2), of CborIntegerType 5 "number_bytes (ucast n) CborIntegerType"]) auto
  have "cbor_value_advance m = preparse_next_value (m\<lparr>cv_ptr := number_bytes (ucast n) CborIntegerType\<rparr>)"
    using m(2) extract_number_head [of CborIntegerType 5 "number_bytes (ucast n) CborIntegerType"]
    by (subst advance_fixed) (auto simp: is_fixed_type_def value_at_def number_bytes_not_Nil advance_internal_def)
  moreover obtain m' where m': "preparse_next_value (m\<lparr>cv_ptr := number_bytes (ucast n) CborIntegerType\<rparr>) = (CborNoError, m')"
      "value_at m' CborIntegerType (ucast n) [] 1 (cv_flags m XOR 0x40)"
    using m(2) next_value_at [of CborIntegerType "m\<lparr>cv_ptr := number_bytes (ucast n) CborIntegerType\<rparr>" "ucast n" "[]"]
    by (auto simp: value_at_def)
  ultimately have a: "cbor_value_advance m = (CborNoError, m')" by simp
  have "cbor_value_advance m' = (CborNoError, m'\<lparr>cv_ptr := [], cv_remaining := 0, cv_type := CborInvalidType\<rparr>)"
    using m'(2) extract_number_head [of CborIntegerType "ucast n" "[]"]
    by (subst advance_fixed) (auto simp: is_fixed_type_def value_at_def number_bytes_not_Nil advance_internal_def last_value)
  moreover have "fst (cbor_value_leave_container root x) = CborNoError" for x
    using root(2) by (simp add: cbor_value_leave_container_def last_value value_at_def)
  moreover have "\<not> (0xffffffff :: u64) < ucast n"
    using unsigned_less [of n, where 'a = nat] by (simp add: word_less_nat_alt unat_ucast_le)
  moreover have "(ucast (ucast n :: u64) :: u32) = n" by (rule bit_word_eqI) (simp add: bit_simps)
  ultimately show ?thesis
    using root m(1) a m' m(2) value_at_length [OF root(2)] unfolding verify_deserialize_protected_header_def
    by (simp add: value_at_def cbor_value_get_uint64_def)
qed

lemma number_head [simp]: "number_bytes 4 CborArrayType = [0x84]" "number_bytes 0 CborMapType = [0xA0]"
  by code_simp+

lemma verify_tag_eq:
  assumes "value_at ary CborByteStringType 8 tag 1 flags" "cv_remaining root = 1" "cv_type root \<noteq> CborTagType"
    "length tag = 8" "length tag_memory = 8"
  shows "verify_tag tag_memory root ary = Inr tag"
proof -
  have n: "preparse_next_value (ary\<lparr>cv_ptr := [], cv_flags := cv_flags ary OR 2\<rparr>) =
      (CborNoError, ary\<lparr>cv_ptr := [], cv_flags := cv_flags ary OR 2, cv_remaining := 0, cv_type := CborInvalidType\<rparr>)"
    using assms(1) by (subst last_value) (auto simp: value_at_def)
  have c: "cbor_value_copy_string ary 8 =
      (CborNoError, tag, ary\<lparr>cv_ptr := [], cv_flags := cv_flags ary OR 2, cv_remaining := 0, cv_type := CborInvalidType\<rparr>)"
    using copy_string_head [OF _ _ _ value_at_flags [OF assms(1)] _ n, of CborByteStringType tag 8] assms(1,4)
    by (simp add: value_at_def string_bytes_def)
  have "fst (cbor_value_leave_container root x) = CborNoError" for x
    using assms(2,3) by (simp add: cbor_value_leave_container_def last_value)
  then show ?thesis
    using assms c value_at_length [OF assms(1)] by (simp add: verify_tag_def copied_to_def memcpy_at_def value_at_def)
qed

lemma verify_payload_eq:
  "length payload < 255 \<Longrightarrow> verify_payload (string_bytes mt payload @ rest) (length payload) = Inr payload"
  by (simp add: verify_payload_def string_bytes_def number_bytes_small number_bytes_8)

lemma verify_message_bytes:
  assumes "length payload < 255" "length tag = 8" "length tag_memory = 8"
  shows "verify_deserialize_protected_message tag_memory (message_bytes n payload tag) =
    Inr \<lparr>ex_nonce = n, ex_payload = payload, ex_tag = tag\<rparr>"
proof -
  let ?h = "protected_header n" and ?B = CborByteStringType
  define r3 where "r3 = string_bytes ?B tag"
  define r2 where "r2 = string_bytes ?B payload @ r3"
  define r1 where "r1 = number_bytes 0 CborMapType @ r2"
  define r0 where "r0 = string_bytes ?B ?h @ r1"
  have d: "message_bytes n payload tag = number_bytes 4 CborArrayType @ r0"
    by (simp add: message_bytes_def r0_def r1_def r2_def r3_def)
  have lh: "length ?h < 2 ^ 32" "unat (word_of_nat (length ?h) :: u64) = length ?h" "length ?h \<le> 7"
    using length_protected_header(1) [of n] by (simp_all add: unat_word_of_nat_small)
  obtain root where root: "cbor_parser_init (message_bytes n payload tag) = (CborNoError, root)" "value_at root CborArrayType 4 r0 1 0"
    using parser_init_at [of CborArrayType 4 r0] unfolding d by auto
  obtain a1 where a1: "cbor_value_enter_container root = (CborNoError, a1)"
      "value_at a1 ?B (word_of_nat (length ?h)) (?h @ r1) 4 0"
    by (rule enter_container_at [OF root(2), of ?B "word_of_nat (length ?h)" "?h @ r1"]) (auto simp: r0_def string_bytes_def)
  obtain a2 where a2: "preparse_next_value (a1\<lparr>cv_ptr := r1, cv_flags := cv_flags a1 OR 2\<rparr>) = (CborNoError, a2)"
      "value_at a2 CborMapType 0 r2 3 ((cv_flags a1 OR 2) XOR 0x40)"
    using a1(2) next_value_at [of CborMapType "a1\<lparr>cv_ptr := r1, cv_flags := cv_flags a1 OR 2\<rparr>" 0 r2]
    by (auto simp: value_at_def r1_def)
  have c1: "cbor_value_copy_string a1 7 = (CborNoError, ?h, a2)"
    using copy_string_head [OF _ _ _ value_at_flags [OF a1(2)] lh(1) a2(1), of ?B 7] a1(2) lh(3)
    by (simp add: value_at_def string_bytes_def)
  obtain a3 where a3: "preparse_next_value (a2\<lparr>cv_ptr := r2\<rparr>) = (CborNoError, a3)"
      "value_at a3 ?B (word_of_nat (length payload)) (payload @ r3) 2 (cv_flags a2 XOR 0x40)"
    using a2(2) next_value_at [of ?B "a2\<lparr>cv_ptr := r2\<rparr>" "word_of_nat (length payload)" "payload @ r3"]
    by (auto simp: value_at_def r2_def string_bytes_def)
  have c2: "cbor_value_advance a2 = (CborNoError, a3)" using advance_empty_map [OF a2(2)] a3(1) by simp
  obtain a4 where a4: "preparse_next_value (a3\<lparr>cv_ptr := r3, cv_flags := cv_flags a3 OR 2\<rparr>) = (CborNoError, a4)"
      "value_at a4 ?B 8 tag 1 ((cv_flags a3 OR 2) XOR 0x40)"
    using a3(2) next_value_at [of ?B "a3\<lparr>cv_ptr := r3, cv_flags := cv_flags a3 OR 2\<rparr>" 8 tag] assms(2)
    by (auto simp: value_at_def r3_def string_bytes_def)
  have c3: "cbor_value_copy_string a3 (uint (UINT32_MAX :: u32)) = (CborNoError, payload, a4)"
    using copy_string_head [OF _ _ _ value_at_flags [OF a3(2)] _ a4(1), of ?B payload "uint (UINT32_MAX :: u32)"] a3(2) assms(1)
    by (simp add: value_at_def string_bytes_def)
  have c4: "cbor_value_advance a3 = (CborNoError, a4)"
    using a3(2) c3 by (intro advance_string) (auto simp: value_at_def is_fixed_type_def cbor_value_is_container_def number_bytes_not_Nil)
  have p3: "verify_payload (cv_ptr a3) (length payload) = Inr payload"
    using verify_payload_eq [OF assms(1), of ?B r3] a3(2) by (simp add: value_at_def string_bytes_def)
  have t: "verify_tag tag_memory root a4 = Inr tag"
    using root(2) a4(2) assms by (intro verify_tag_eq) (auto simp: value_at_def)
  show ?thesis
    using root a1 c1 a2(2) c2 a3(2) c3 p3 c4 t value_at_length [OF root(2)] value_at_length [OF a1(2)] lh(2,3) length_protected_header(3) [of n]
    unfolding verify_deserialize_protected_message_def
    by (simp add: verify_protected_header_eq value_at_def cbor_value_calculate_string_length_def del: number_head)
qed

lemma sign_then_verify:
  assumes "length (coap_uri (mp_aad mp)) \<le> 11" "length (mp_payload mp) \<le> 77" "98 \<le> output_size" "length tag_memory = 8"
  shows "\<exists>out. nexus_cose_mac0_sign_encode_message mp output_size = Inr out \<and> length out \<le> 98 \<and>
    nexus_cose_mac0_verify_message tag_memory (mp_key mp) (mp_aad mp) out = Inr (nonce_to_protect mp, mp_payload mp)"
proof -
  define tag where "tag = nexus_check_compute (mp_key mp) (mac_structure_bytes mp) (word_of_nat (length (mac_structure_bytes mp)))"
  have p: "length (string_bytes 0x40 (mp_payload mp)) \<le> 79" using assms(2) by (simp add: length_string_bytes)
  then have m: "length (mac_structure_bytes mp) \<le> 123"
    using mac_structure_prefix [OF assms(1)] by (simp add: mac_structure_bytes_def)
  have l: "length (message_bytes (nonce_to_protect mp) (mp_payload mp) tag) \<le> 98"
    using mac_structure_prefix(2) [OF assms(1)] p length_string_bytes [of tag "0x40"] by (simp add: message_bytes_def tag_def)
  have mp: "\<lparr>mp_key = mp_key mp, nonce_to_protect = nonce_to_protect mp, mp_aad = mp_aad mp, mp_payload = mp_payload mp\<rparr> = mp" by simp
  have u: "(ucast (word_of_nat (length (mac_structure_bytes mp)) :: u8) :: u16) = word_of_nat (length (mac_structure_bytes mp))"
    using m by (intro ucast_word_of_nat_small) simp
  have c: "nexus_cose_mac0_common_compute_tag
      \<lparr>mac_buf = mac_structure_bytes mp, mac_len = word_of_nat (length (mac_structure_bytes mp))\<rparr> (mp_key mp) = tag"
    by (simp add: nexus_cose_mac0_common_compute_tag_def tag_def u)
  have v: "verify_deserialize_protected_message tag_memory (message_bytes (nonce_to_protect mp) (mp_payload mp) tag) =
      Inr \<lparr>ex_nonce = nonce_to_protect mp, ex_payload = mp_payload mp, ex_tag = tag\<rparr>"
    using assms by (intro verify_message_bytes) (simp_all add: tag_def)
  have "nexus_cose_mac0_verify_message tag_memory (mp_key mp) (mp_aad mp) (message_bytes (nonce_to_protect mp) (mp_payload mp) tag) =
      Inr (nonce_to_protect mp, mp_payload mp)"
    by (simp add: nexus_cose_mac0_verify_message_def v mp mac_params_to_mac_structure_eq [OF assms(1) m] c)
  then show ?thesis using sign_encode_message_eq [OF assms(1-3)] l by (auto simp: tag_def)
qed

text \<open>C17. A message that is signed is accepted: for every key, nonce, method, URI of up to 11 bytes and payload of
  up to 77 bytes, signing succeeds within 98 bytes, and verifying the result with the same key, method
  and URI returns the nonce and the payload.\<close>

theorem signed_message_verifies:
  assumes "length (coap_uri (mp_aad mp)) \<le> 11" "length (mp_payload mp) \<le> 77" "98 \<le> output_size" "length tag_memory = 8"
  shows "\<exists>out. nexus_cose_mac0_sign_encode_message mp output_size = Inr out \<and> length out \<le> 98 \<and>
    nexus_cose_mac0_verify_message tag_memory (mp_key mp) (mp_aad mp) out = Inr (nonce_to_protect mp, mp_payload mp)"
  by (rule sign_then_verify [OF assms])

theorem signed_message_verifies_witness:
  "\<exists>out. nexus_cose_mac0_sign_encode_message
      \<lparr>mp_key = replicate 16 0xAB, nonce_to_protect = 70000, mp_aad = \<lparr>coap_method = 2, coap_uri = [0x6E, 0x78]\<rparr>, mp_payload = [9, 9]\<rparr> 98 = Inr out \<and> length out \<le> 98 \<and>
    nexus_cose_mac0_verify_message (replicate 8 0) (replicate 16 0xAB) \<lparr>coap_method = 2, coap_uri = [0x6E, 0x78]\<rparr> out = Inr (70000, [9, 9])"
  using signed_message_verifies [of "\<lparr>mp_key = replicate 16 0xAB, nonce_to_protect = 70000, mp_aad = \<lparr>coap_method = 2, coap_uri = [0x6E, 0x78]\<rparr>, mp_payload = [9, 9]\<rparr>" 98 "replicate 8 0"]
  by simp

section \<open>Different requests are authenticated differently\<close>

lemma number_bytes_inject:
  "mt \<in> set major_types \<Longrightarrow> number_bytes u mt @ r = number_bytes v mt @ r' \<Longrightarrow> u = v \<and> r = r'"
  by (metis extract_number_head prod.inject)

lemma string_bytes_inject:
  assumes "mt \<in> set major_types" "string_bytes mt d @ r = string_bytes mt d' @ r'" "length d < 256" "length d' < 256"
  shows "d = d' \<and> r = r'"
proof -
  have "number_bytes (word_of_nat (length d)) mt @ d @ r = number_bytes (word_of_nat (length d')) mt @ d' @ r'"
    using assms(2) by (simp add: string_bytes_def)
  from number_bytes_inject [OF assms(1) this]
  have w: "word_of_nat (length d) = (word_of_nat (length d') :: u64)" and a: "d @ r = d' @ r'" by blast+
  have "unat (word_of_nat n :: u64) = n" if "n < 256" for n using that by (simp add: unat_word_of_nat_small)
  with w assms(3,4) have "length d = length d'" by metis
  with a show ?thesis by simp
qed

text \<open>C37. A message cannot be passed off as another: requests with the same authenticated bytes have the same
  nonce, method, URI and payload, so a tag never covers two different requests.\<close>

theorem mac_structure_injective:
  assumes "mac_params_to_mac_structure mp = Inr m" "mac_params_to_mac_structure mp' = Inr m'" "mac_buf m = mac_buf m'"
  shows "nonce_to_protect mp = nonce_to_protect mp' \<and> mp_aad mp = mp_aad mp' \<and> mp_payload mp = mp_payload mp'"
proof -
  note s = mac_params_to_mac_structure_success [OF assms(1)] mac_params_to_mac_structure_success [OF assms(2)]
  let ?h = "\<lambda>mp. protected_header (nonce_to_protect mp)" and ?a = "\<lambda>mp. coap_method (mp_aad mp) # coap_uri (mp_aad mp)"
  have l: "length (?h mp) < 256" "length (?h mp') < 256" "length (?a mp) < 256" "length (?a mp') < 256"
      "length (mp_payload mp) < 256" "length (mp_payload mp') < 256"
    using s length_protected_header(1) [of "nonce_to_protect mp"] length_protected_header(1) [of "nonce_to_protect mp'"]
    by (simp_all add: mac_structure_bytes_def string_bytes_def)
  have "mac_structure_bytes mp = mac_structure_bytes mp'" using s assms(3) by simp
  then have 1: "string_bytes 0x40 (?h mp) @ string_bytes 0x40 (?a mp) @ string_bytes 0x40 (mp_payload mp) @ [] =
      string_bytes 0x40 (?h mp') @ string_bytes 0x40 (?a mp') @ string_bytes 0x40 (mp_payload mp') @ []"
    by (simp add: mac_structure_bytes_def)
  note 2 = string_bytes_inject [OF _ 1 l(1,2)]
  note 3 = string_bytes_inject [OF _ conjunct2 [OF 2] l(3,4)]
  note 4 = string_bytes_inject [OF _ conjunct2 [OF 3] l(5,6)]
  have "?h mp = ?h mp'" "?a mp = ?a mp'" "mp_payload mp = mp_payload mp'" using 2 3 4 by simp_all
  moreover have "nonce_to_protect mp = nonce_to_protect mp'"
  proof -
    have "(ucast (nonce_to_protect mp) :: u64) = ucast (nonce_to_protect mp')"
      using calculation(1) number_bytes_inject [of CborIntegerType "ucast (nonce_to_protect mp)" "[]" "ucast (nonce_to_protect mp')" "[]"]
      by (simp add: protected_header_def)
    then have "unat (ucast (nonce_to_protect mp) :: u64) = unat (ucast (nonce_to_protect mp') :: u64)" by simp
    then show ?thesis by (simp add: unat_ucast_le word_unat_eq_iff)
  qed
  ultimately show ?thesis by (metis list.inject external_aad.equality unit.exhaust)
qed

theorem mac_structure_injective_witness:
  "\<exists>m m'. mac_params_to_mac_structure \<lparr>mp_key = replicate 16 0xAB, nonce_to_protect = 40, mp_aad = \<lparr>coap_method = 2, coap_uri = [0x6E]\<rparr>, mp_payload = [9]\<rparr> = Inr m \<and>
    mac_params_to_mac_structure \<lparr>mp_key = replicate 16 0xCD, nonce_to_protect = 40, mp_aad = \<lparr>coap_method = 2, coap_uri = [0x6E]\<rparr>, mp_payload = [9]\<rparr> = Inr m' \<and>
    mac_buf m = mac_buf m'"
proof -
  define mp where "mp k = \<lparr>mp_key = replicate 16 k, nonce_to_protect = 40, mp_aad = \<lparr>coap_method = 2, coap_uri = [0x6E]\<rparr>, mp_payload = [9]\<rparr>" for k
  have b: "mac_structure_bytes (mp k) = mac_structure_bytes (mp 0)" for k by (simp add: mp_def mac_structure_bytes_def)
  have "length (mac_structure_bytes \<lparr>mp_key = replicate 16 0, nonce_to_protect = 40, mp_aad = \<lparr>coap_method = 2, coap_uri = [0x6E]\<rparr>, mp_payload = [9]\<rparr>) \<le> 123"
    by code_simp
  then have e: "mac_params_to_mac_structure (mp k) = Inr \<lparr>mac_buf = mac_structure_bytes (mp 0), mac_len = word_of_nat (length (mac_structure_bytes (mp 0)))\<rparr>" for k
    using mac_params_to_mac_structure_eq [of "mp k"] b [of k] by (simp add: mp_def)
  from mac_structure_injective [OF e [of "0xAB"] e [of "0xCD"]] show ?thesis
    using e [of "0xAB"] e [of "0xCD"] by (simp add: mp_def)
qed

end
