(* ===== verification/Channel_Coap.thy ===== *)
theory Channel_Coap
  imports Nexus_Prelude "HOL-Library.Monad_Syntax"
begin

text \<open>
  CoAP messages (\<^verbatim>\<open>oc/messaging/coap/coap.c\<close>, \<^verbatim>\<open>coap.h\<close>): packets, their serialisation and the parser of
  received datagrams. A datagram is parsed in the 120-byte buffer of its \<^verbatim>\<open>oc_message_t\<close>, so what the
  parser reads behind the datagram is part of that buffer. \<open>None\<close> is the result of an access outside
  an array. Paths and queries are the bytes they consist of.
\<close>

section \<open>Packets\<close>

abbreviation (input) COAP_HEADER_LEN :: nat where "COAP_HEADER_LEN \<equiv> 4"
abbreviation (input) COAP_TOKEN_LEN :: nat where "COAP_TOKEN_LEN \<equiv> 1"
abbreviation (input) COAP_MAX_HEADER_SIZE :: nat where "COAP_MAX_HEADER_SIZE \<equiv> 22"
abbreviation (input) NEXUS_CHANNEL_MAX_CBOR_PAYLOAD_SIZE :: nat where "NEXUS_CHANNEL_MAX_CBOR_PAYLOAD_SIZE \<equiv> 98"
abbreviation (input) COAP_OPTION_URI_PATH :: nat where "COAP_OPTION_URI_PATH \<equiv> 11"
abbreviation (input) COAP_OPTION_CONTENT_FORMAT :: nat where "COAP_OPTION_CONTENT_FORMAT \<equiv> 12"
abbreviation (input) COAP_OPTION_URI_QUERY :: nat where "COAP_OPTION_URI_QUERY \<equiv> 15"
abbreviation (input) APPLICATION_COSE_MAC0 :: u16 where "APPLICATION_COSE_MAC0 \<equiv> 17"
abbreviation (input) APPLICATION_VND_OCF_CBOR :: u16 where "APPLICATION_VND_OCF_CBOR \<equiv> 10000"
abbreviation (input) SLASH :: u8 where "SLASH \<equiv> 0x2F"
abbreviation (input) AMPERSAND :: u8 where "AMPERSAND \<equiv> 0x26"

datatype coap_message_type = COAP_TYPE_CON | COAP_TYPE_NON | COAP_TYPE_ACK | COAP_TYPE_RST

definition coap_message_type_value :: "coap_message_type \<Rightarrow> u8" where
  "coap_message_type_value t = (case t of COAP_TYPE_CON \<Rightarrow> 0 | COAP_TYPE_NON \<Rightarrow> 1 | COAP_TYPE_ACK \<Rightarrow> 2 | COAP_TYPE_RST \<Rightarrow> 3)"

definition coap_message_type_of :: "u8 \<Rightarrow> coap_message_type" where
  "coap_message_type_of v = (if v = 0 then COAP_TYPE_CON else if v = 1 then COAP_TYPE_NON else if v = 2 then COAP_TYPE_ACK else COAP_TYPE_RST)"

text \<open>The codes of \<^verbatim>\<open>coap_status_t\<close> that are used here; they double as the codes of responses.\<close>

abbreviation (input) COAP_NO_ERROR :: u8 where "COAP_NO_ERROR \<equiv> 0"
abbreviation (input) CREATED_2_01 :: u8 where "CREATED_2_01 \<equiv> 65"
abbreviation (input) CONTENT_2_05 :: u8 where "CONTENT_2_05 \<equiv> 69"
abbreviation (input) BAD_REQUEST_4_00 :: u8 where "BAD_REQUEST_4_00 \<equiv> 128"
abbreviation (input) UNAUTHORIZED_4_01 :: u8 where "UNAUTHORIZED_4_01 \<equiv> 129"
abbreviation (input) BAD_OPTION_4_02 :: u8 where "BAD_OPTION_4_02 \<equiv> 130"
abbreviation (input) FORBIDDEN_4_03 :: u8 where "FORBIDDEN_4_03 \<equiv> 131"
abbreviation (input) NOT_ACCEPTABLE_4_06 :: u8 where "NOT_ACCEPTABLE_4_06 \<equiv> 134"
abbreviation (input) UNSUPPORTED_MEDIA_TYPE_4_15 :: u8 where "UNSUPPORTED_MEDIA_TYPE_4_15 \<equiv> 143"
abbreviation (input) CLEAR_TRANSACTION :: u8 where "CLEAR_TRANSACTION \<equiv> 194"
abbreviation (input) RESEND_PREVIOUS_REQUEST :: u8 where "RESEND_PREVIOUS_REQUEST \<equiv> 200"
abbreviation (input) REQUIRE_NONCE_SYNC_RESET :: u8 where "REQUIRE_NONCE_SYNC_RESET \<equiv> 201"

text \<open>
  \<^verbatim>\<open>coap_packet_t\<close>, with the fields of the supported options. \<open>pkt_payload\<close> is \<open>None\<close> for a null pointer
  and otherwise the \<^verbatim>\<open>payload_len\<close> bytes pointed to.
\<close>

record coap_packet =
  pkt_version :: u8
  pkt_type :: coap_message_type
  pkt_code :: u8
  pkt_mid :: u16
  pkt_token_len :: u8
  pkt_token :: u8
  pkt_options :: bytes
  content_format :: u16
  uri_path :: bytes
  uri_query :: bytes
  pkt_payload :: "bytes option"

definition zero_packet :: coap_packet where
  "zero_packet = \<lparr>pkt_version = 0, pkt_type = COAP_TYPE_CON, pkt_code = 0, pkt_mid = 0, pkt_token_len = 0, pkt_token = 0,
     pkt_options = replicate 10 0, content_format = 0, uri_path = [], uri_query = [], pkt_payload = None\<rparr>"

definition payload_bytes :: "coap_packet \<Rightarrow> bytes" where
  "payload_bytes pkt = (case pkt_payload pkt of None \<Rightarrow> [] | Some p \<Rightarrow> p)"

text \<open>The bitmap of set options has ten bytes.\<close>

definition SET_OPTION :: "coap_packet \<Rightarrow> nat \<Rightarrow> coap_packet option" where
  "SET_OPTION pkt opt =
     (if opt div 8 < length (pkt_options pkt)
      then Some (pkt\<lparr>pkt_options := (pkt_options pkt)[opt div 8 := pkt_options pkt ! (opt div 8) OR push_bit (opt mod 8) 1]\<rparr>)
      else None)"

definition IS_OPTION :: "coap_packet \<Rightarrow> nat \<Rightarrow> bool" where
  "IS_OPTION pkt opt \<longleftrightarrow> pkt_options pkt ! (opt div 8) AND push_bit (opt mod 8) 1 \<noteq> 0"

section \<open>Serialisation\<close>

definition coap_option_nibble :: "nat \<Rightarrow> u8" where
  "coap_option_nibble v = (if v < 13 then word_of_nat v else if v \<le> 0xFF + 13 then 13 else 14)"

definition option_extension :: "nat \<Rightarrow> bytes" where
  "option_extension v =
     (if v > 268 then [word_of_nat ((v - 269) div 256), word_of_nat (v - 269)]
      else if v > 12 then [word_of_nat (v - 13)] else [])"

text \<open>Each writer returns the bytes it writes; called without a buffer it returns their number.\<close>

definition coap_set_option_header :: "nat \<Rightarrow> nat \<Rightarrow> bytes" where
  "coap_set_option_header delta len =
     (push_bit 4 (coap_option_nibble delta) OR coap_option_nibble len) # option_extension delta @ option_extension len"

definition int_option_bytes :: "u32 \<Rightarrow> bytes" where
  "int_option_bytes v =
     (if 0xFF000000 AND v \<noteq> 0 then [ucast (drop_bit 24 v)] else []) @
     (if 0xFFFF0000 AND v \<noteq> 0 then [ucast (drop_bit 16 v)] else []) @
     (if 0xFFFFFF00 AND v \<noteq> 0 then [ucast (drop_bit 8 v)] else []) @
     (if 0xFFFFFFFF AND v \<noteq> 0 then [ucast v] else [])"

definition coap_serialize_int_option :: "nat \<Rightarrow> nat \<Rightarrow> u32 \<Rightarrow> bytes" where
  "coap_serialize_int_option number current_number v =
     coap_set_option_header (number - current_number) (length (int_option_bytes v)) @ int_option_bytes v"

text \<open>
  The loop over \<open>j\<close> splits at the separator; the position behind a separator is skipped. It leaves the
  string when that position is its end. The code also reads the byte behind the string, before it finds that the end is reached; the
  result does not depend on that byte.
\<close>

function array_option_loop :: "bytes \<Rightarrow> u8 \<Rightarrow> nat \<Rightarrow> nat \<Rightarrow> nat \<Rightarrow> nat \<Rightarrow> bytes option" where
  "array_option_loop array split_char number current_number part_start j =
     (if j > length array + 1 then Some []
      else if j > length array then None
      else if j = length array \<or> array ! j = split_char then
        let part = take (j - part_start) (drop part_start array)
        in case array_option_loop array split_char number number (j + 1) (j + 2) of
             None \<Rightarrow> None
           | Some rest \<Rightarrow> Some (coap_set_option_header (number - current_number) (length part) @ part @ rest)
      else array_option_loop array split_char number current_number part_start (j + 1))"
  by pat_completeness auto
termination
  by (relation "measure (\<lambda>(array, _, _, _, _, j). length array + 2 - j)") auto

declare array_option_loop.simps [simp del]

definition coap_serialize_array_option :: "nat \<Rightarrow> nat \<Rightarrow> bytes \<Rightarrow> u8 \<Rightarrow> bytes option" where
  "coap_serialize_array_option number current_number array split_char =
     array_option_loop array split_char number current_number 0 0"

text \<open>\<^verbatim>\<open>COAP_SERIALIZE_STRING_OPTION\<close> and \<^verbatim>\<open>COAP_SERIALIZE_INT_OPTION\<close>, on the bytes so far and the current number.\<close>

definition serialize_string_option :: "coap_packet \<Rightarrow> nat \<Rightarrow> bytes \<Rightarrow> u8 \<Rightarrow> bytes \<times> nat \<Rightarrow> (bytes \<times> nat) option" where
  "serialize_string_option pkt number field splitter = (\<lambda>(written, current_number).
     if IS_OPTION pkt number
     then map_option (\<lambda>b. (written @ b, number)) (coap_serialize_array_option number current_number field splitter)
     else Some (written, current_number))"

definition serialize_int_option :: "coap_packet \<Rightarrow> nat \<Rightarrow> u32 \<Rightarrow> bytes \<times> nat \<Rightarrow> (bytes \<times> nat) option" where
  "serialize_int_option pkt number field = (\<lambda>(written, current_number).
     if IS_OPTION pkt number then Some (written @ coap_serialize_int_option number current_number field, number)
     else Some (written, current_number))"

definition coap_serialize_options :: "coap_packet \<Rightarrow> bytes option" where
  "coap_serialize_options pkt = do {
     w \<leftarrow> serialize_string_option pkt COAP_OPTION_URI_PATH (uri_path pkt) SLASH ([], 0);
     w \<leftarrow> serialize_int_option pkt COAP_OPTION_CONTENT_FORMAT (ucast (content_format pkt)) w;
     w \<leftarrow> serialize_string_option pkt COAP_OPTION_URI_QUERY (uri_query pkt) AMPERSAND w;
     Some (fst w) }"

definition coap_udp_set_header_fields :: "coap_packet \<Rightarrow> bytes" where
  "coap_udp_set_header_fields pkt =
     [(0xC0 AND push_bit 6 (pkt_version pkt)) OR (0x30 AND push_bit 4 (coap_message_type_value (pkt_type pkt))) OR
        (0x0F AND pkt_token_len pkt),
      pkt_code pkt, ucast (drop_bit 8 (pkt_mid pkt)), ucast (pkt_mid pkt)]"

text \<open>The bytes of a packet; the empty list is the length 0 of a failure.\<close>

definition coap_serialize_message :: "coap_packet \<Rightarrow> bytes option" where
  "coap_serialize_message pkt = do {
     let pkt = pkt\<lparr>pkt_version := 1\<rparr>;
     opts \<leftarrow> coap_serialize_options pkt;
     let payload = payload_bytes pkt;
     let header_length = length opts + (if length payload > 0 then 1 else 0) + unat (pkt_token_len pkt) + COAP_HEADER_LEN;
     if header_length > COAP_MAX_HEADER_SIZE then Some []
     else if pkt_code pkt = 0 then Some (coap_udp_set_header_fields pkt)
     else do {
       let header = coap_udp_set_header_fields pkt @ [pkt_token pkt] @ opts;
       if length header \<le> COAP_MAX_HEADER_SIZE
       then Some (header @ (if length payload > 0 then 0xFF # payload else []))
       else Some [] } }"

section \<open>Parsing\<close>

definition coap_parse_int_option :: "bytes \<Rightarrow> u32" where
  "coap_parse_int_option p = foldl (\<lambda>v b. push_bit 8 v OR ucast b) 0 p"

definition coap_merge_multi_option :: "bytes \<Rightarrow> bytes \<Rightarrow> u8 \<Rightarrow> bytes" where
  "coap_merge_multi_option dst opt separator = (if length dst > 0 then dst @ separator # opt else opt)"

definition buffer_at :: "bytes \<Rightarrow> nat \<Rightarrow> u8 option" where
  "buffer_at buf i = (if i < length buf then Some (buf ! i) else None)"

text \<open>The extended delta or length of an option that starts with the nibble \<open>n\<close>, and the position behind it.\<close>

definition parse_extended :: "bytes \<Rightarrow> nat \<Rightarrow> nat \<Rightarrow> (nat \<times> nat) option" where
  "parse_extended buf n pos =
     (if n = 13 then do { b \<leftarrow> buffer_at buf pos; Some (n + unat b, pos + 1) }
      else if n = 14 then do {
        b1 \<leftarrow> buffer_at buf pos;
        b0 \<leftarrow> buffer_at buf (pos + 1);
        Some (n + 255 + unat b1 * 256 + unat b0, pos + 2) }
      else Some (n, pos))"

text \<open>The payload is cut to 98 bytes, and a zero is written behind it.\<close>

definition parse_payload :: "bytes \<Rightarrow> nat \<Rightarrow> nat \<Rightarrow> coap_packet \<Rightarrow> (u8 \<times> coap_packet) option" where
  "parse_payload buf data_len pos pkt =
     (let payload_len = data_len - pos;
          payload_len = (if payload_len > NEXUS_CHANNEL_MAX_CBOR_PAYLOAD_SIZE then NEXUS_CHANNEL_MAX_CBOR_PAYLOAD_SIZE else payload_len)
      in do {
        _ \<leftarrow> buffer_at buf (pos + payload_len);
        Some (COAP_NO_ERROR, pkt\<lparr>pkt_payload := Some (take payload_len (drop pos buf))\<rparr>) })"

text \<open>What an option with its value does to the packet, or the error it is.\<close>

definition parse_option :: "nat \<Rightarrow> bytes \<Rightarrow> coap_packet \<Rightarrow> u8 \<times> coap_packet" where
  "parse_option option_number opt pkt =
     (if option_number = COAP_OPTION_CONTENT_FORMAT then
        let pkt = pkt\<lparr>content_format := ucast (coap_parse_int_option opt)\<rparr>
        in (if content_format pkt \<noteq> APPLICATION_VND_OCF_CBOR \<and> content_format pkt \<noteq> APPLICATION_COSE_MAC0
            then UNSUPPORTED_MEDIA_TYPE_4_15 else COAP_NO_ERROR, pkt)
      else if option_number = COAP_OPTION_URI_PATH
      then (COAP_NO_ERROR, pkt\<lparr>uri_path := coap_merge_multi_option (uri_path pkt) opt SLASH\<rparr>)
      else if option_number = COAP_OPTION_URI_QUERY
      then (COAP_NO_ERROR, pkt\<lparr>uri_query := coap_merge_multi_option (uri_query pkt) opt AMPERSAND\<rparr>)
      else if odd option_number then (BAD_OPTION_4_02, pkt)
      else (COAP_NO_ERROR, pkt))"

lemma parse_extended_pos: "parse_extended buf n pos = Some (v, pos') \<Longrightarrow> pos \<le> pos'"
  by (auto simp: parse_extended_def split: if_splits bind_splits)

function parse_options_loop :: "bytes \<Rightarrow> nat \<Rightarrow> nat \<Rightarrow> nat \<Rightarrow> coap_packet \<Rightarrow> (u8 \<times> coap_packet) option" where
  "parse_options_loop buf data_len pos option_number pkt =
     (if \<not> pos < data_len then Some (COAP_NO_ERROR, pkt)
      else case buffer_at buf pos of None \<Rightarrow> None
      | Some b \<Rightarrow>
          if b AND 0xF0 = 0xF0 then parse_payload buf data_len (pos + 1) pkt
          else case parse_extended buf (unat (drop_bit 4 b)) (pos + 1) of None \<Rightarrow> None
          | Some (option_delta, pos1) \<Rightarrow>
              case parse_extended buf (unat (b AND 0x0F)) pos1 of None \<Rightarrow> None
              | Some (option_length, pos2) \<Rightarrow>
                  case SET_OPTION pkt (option_number + option_delta) of None \<Rightarrow> None
                  | Some pkt1 \<Rightarrow>
                      if pos2 + option_length > data_len then Some (BAD_OPTION_4_02, pkt1)
                      else case parse_option (option_number + option_delta) (take option_length (drop pos2 buf)) pkt1 of
                        (status, pkt2) \<Rightarrow>
                          if status \<noteq> COAP_NO_ERROR then Some (status, pkt2)
                          else parse_options_loop buf data_len (pos2 + option_length) (option_number + option_delta) pkt2)"
  by auto
termination
  by (relation "measure (\<lambda>(_, data_len, pos, _). data_len - pos)") (auto dest!: parse_extended_pos)

declare parse_options_loop.simps [simp del]

definition coap_parse_token_option :: "bytes \<Rightarrow> nat \<Rightarrow> nat \<Rightarrow> coap_packet \<Rightarrow> (u8 \<times> coap_packet) option" where
  "coap_parse_token_option buf data_len pos pkt =
     (let pkt = (if pkt_token_len pkt = 1 then pkt\<lparr>pkt_token := buf ! pos\<rparr> else pkt)
      in parse_options_loop buf data_len (pos + unat (pkt_token_len pkt)) 0 (pkt\<lparr>pkt_options := replicate 10 0\<rparr>))"

definition coap_udp_parse_message :: "bytes \<Rightarrow> nat \<Rightarrow> (u8 \<times> coap_packet) option" where
  "coap_udp_parse_message buf data_len =
     (let pkt = zero_packet\<lparr>
        pkt_version := drop_bit 6 (0xC0 AND buf ! 0),
        pkt_type := coap_message_type_of (drop_bit 4 (0x30 AND buf ! 0)),
        pkt_token_len := 0x0F AND buf ! 0,
        pkt_code := buf ! 1,
        pkt_mid := push_bit 8 (ucast (buf ! 2)) OR ucast (buf ! 3)\<rparr>
      in if pkt_version pkt \<noteq> 1 then Some (BAD_REQUEST_4_00, pkt)
         else if unat (pkt_token_len pkt) > COAP_TOKEN_LEN then Some (BAD_REQUEST_4_00, pkt)
         else coap_parse_token_option buf data_len COAP_HEADER_LEN pkt)"

section \<open>Fields\<close>

definition coap_udp_init_message :: "coap_message_type \<Rightarrow> u8 \<Rightarrow> u16 \<Rightarrow> coap_packet" where
  "coap_udp_init_message t code m = zero_packet\<lparr>pkt_type := t, pkt_code := code, pkt_mid := m\<rparr>"

definition coap_set_status_code :: "nat \<Rightarrow> coap_packet \<Rightarrow> bool \<times> coap_packet" where
  "coap_set_status_code code pkt = (if code \<le> 0xFF then (True, pkt\<lparr>pkt_code := word_of_nat code\<rparr>) else (False, pkt))"

definition coap_set_token :: "bytes \<Rightarrow> coap_packet \<Rightarrow> coap_packet" where
  "coap_set_token token pkt =
     (let pkt = pkt\<lparr>pkt_token_len := word_of_nat (min COAP_TOKEN_LEN (length token))\<rparr>
      in if pkt_token_len pkt = 0 then pkt else pkt\<lparr>pkt_token := hd token\<rparr>)"

definition coap_get_header_content_format :: "coap_packet \<Rightarrow> u16 option" where
  "coap_get_header_content_format pkt = (if IS_OPTION pkt COAP_OPTION_CONTENT_FORMAT then Some (content_format pkt) else None)"

definition set_bit_option :: "nat \<Rightarrow> coap_packet \<Rightarrow> coap_packet" where
  "set_bit_option opt pkt = pkt\<lparr>pkt_options := (pkt_options pkt)[opt div 8 := pkt_options pkt ! (opt div 8) OR push_bit (opt mod 8) 1]\<rparr>"

definition coap_set_header_content_format :: "u16 \<Rightarrow> coap_packet \<Rightarrow> coap_packet" where
  "coap_set_header_content_format format pkt = set_bit_option COAP_OPTION_CONTENT_FORMAT (pkt\<lparr>content_format := format\<rparr>)"

definition coap_get_header_uri_path :: "coap_packet \<Rightarrow> bytes" where
  "coap_get_header_uri_path pkt = (if IS_OPTION pkt COAP_OPTION_URI_PATH then uri_path pkt else [])"

definition coap_set_header_uri_path :: "bytes \<Rightarrow> coap_packet \<Rightarrow> coap_packet" where
  "coap_set_header_uri_path path pkt = set_bit_option COAP_OPTION_URI_PATH (pkt\<lparr>uri_path := dropWhile (\<lambda>b. b = SLASH) path\<rparr>)"

definition coap_get_header_uri_query :: "coap_packet \<Rightarrow> bytes" where
  "coap_get_header_uri_query pkt = (if IS_OPTION pkt COAP_OPTION_URI_QUERY then uri_query pkt else [])"

definition coap_set_header_uri_query :: "bytes \<Rightarrow> coap_packet \<Rightarrow> coap_packet" where
  "coap_set_header_uri_query query pkt = set_bit_option COAP_OPTION_URI_QUERY (pkt\<lparr>uri_query := dropWhile (\<lambda>b. b = 0x3F) query\<rparr>)"

definition coap_set_payload :: "bytes option \<Rightarrow> coap_packet \<Rightarrow> coap_packet" where
  "coap_set_payload payload pkt = pkt\<lparr>pkt_payload := map_option (take NEXUS_CHANNEL_MAX_CBOR_PAYLOAD_SIZE) payload\<rparr>"

section \<open>Options are read as they are written\<close>

lemma length_option_extension: "length (option_extension v) = (if v > 268 then 2 else if v > 12 then 1 else 0)"
  by (simp add: option_extension_def)

lemma unat_nibble: "unat (coap_option_nibble v) = (if v < 13 then v else if v \<le> 268 then 13 else 14)"
  by (simp add: coap_option_nibble_def unat_word_of_nat_small)

lemma buffer_at_drop: "drop pos buf = b # rest \<Longrightarrow> buffer_at buf pos = Some b"
  by (metis buffer_at_def drop_all list.discI list.sel(1) hd_drop_conv_nth not_le)

lemma parse_extended_extension:
  assumes "drop pos buf = option_extension v @ rest" "v < 65536 + 269"
  shows "parse_extended buf (unat (coap_option_nibble v)) pos = Some (v, pos + length (option_extension v))"
proof -
  consider "v < 13" | "13 \<le> v" "v \<le> 268" | "268 < v" by linarith
  then show ?thesis
  proof cases
    case 2
    then have "buffer_at buf pos = Some (word_of_nat (v - 13))"
      using assms(1) by (intro buffer_at_drop) (auto simp: option_extension_def)
    moreover have "unat (word_of_nat (v - 13) :: u8) = v - 13" using 2 by (intro unat_word_of_nat_small) simp
    ultimately show ?thesis using 2 by (simp add: parse_extended_def unat_nibble length_option_extension del: of_nat_diff)
  next
    case 3
    have b1: "buffer_at buf pos = Some (word_of_nat ((v - 269) div 256))"
      using assms(1) 3 by (intro buffer_at_drop) (auto simp: option_extension_def)
    have "drop (pos + 1) buf = word_of_nat (v - 269) # rest"
      using arg_cong [OF assms(1), of tl] 3 by (simp add: tl_drop drop_Suc option_extension_def)
    then have b0: "buffer_at buf (pos + 1) = Some (word_of_nat (v - 269))" by (rule buffer_at_drop)
    have "unat (word_of_nat ((v - 269) div 256) :: u8) = (v - 269) div 256"
      using assms(2) 3 by (intro unat_word_of_nat_small) auto
    moreover have "unat (word_of_nat (v - 269) :: u8) = (v - 269) mod 256"
      by (simp add: unat_of_nat)
    ultimately show ?thesis
      using 3 b0 b1 div_mult_mod_eq [of "v - 269" 256] by (simp add: parse_extended_def unat_nibble length_option_extension)
  qed (simp add: parse_extended_def unat_nibble length_option_extension)
qed

lemma header_nibbles:
  assumes "nd < 15" "nl < 15"
  shows "drop_bit 4 (push_bit 4 (word_of_nat nd) OR word_of_nat nl :: u8) = word_of_nat nd"
    "(push_bit 4 (word_of_nat nd) OR word_of_nat nl :: u8) AND 0x0F = word_of_nat nl"
    "(push_bit 4 (word_of_nat nd) OR word_of_nat nl :: u8) AND 0xF0 \<noteq> 0xF0"
proof -
  have h: "\<forall>nd\<in>set [0..<15]. \<forall>nl\<in>set [0..<15]. drop_bit 4 (push_bit 4 (word_of_nat nd) OR word_of_nat nl :: u8) = word_of_nat nd \<and>
      (push_bit 4 (word_of_nat nd) OR word_of_nat nl :: u8) AND 0x0F = word_of_nat nl \<and>
      (push_bit 4 (word_of_nat nd) OR word_of_nat nl :: u8) AND 0xF0 \<noteq> 0xF0"
    by code_simp
  have "nd \<in> set [0..<15]" "nl \<in> set [0..<15]" using assms by simp_all
  from bspec [OF bspec [OF h this(1)] this(2)] show "drop_bit 4 (push_bit 4 (word_of_nat nd) OR word_of_nat nl :: u8) = word_of_nat nd"
    "(push_bit 4 (word_of_nat nd) OR word_of_nat nl :: u8) AND 0x0F = word_of_nat nl"
    "(push_bit 4 (word_of_nat nd) OR word_of_nat nl :: u8) AND 0xF0 \<noteq> 0xF0" by blast+
qed

lemma nibble_as_nat: "coap_option_nibble v = word_of_nat (unat (coap_option_nibble v))" "unat (coap_option_nibble v) < 15"
  by (simp add: coap_option_nibble_def) (simp add: unat_nibble)

lemma set_option_eq: "length (pkt_options pkt) = 10 \<Longrightarrow> n < 80 \<Longrightarrow> SET_OPTION pkt n = Some (set_bit_option n pkt)"
  by (simp add: SET_OPTION_def set_bit_option_def)

text \<open>One turn of the parser's loop.\<close>

lemma parse_option_step:
  assumes d: "drop pos buf = coap_set_option_header delta (length opt) @ opt @ rest"
    and l: "pos + length (coap_set_option_header delta (length opt) @ opt) \<le> data_len"
    and n: "delta < 65536" "length opt < 65536" "num + delta < 80" "length (pkt_options pkt) = 10"
    and p: "parse_option (num + delta) opt (set_bit_option (num + delta) pkt) = (COAP_NO_ERROR, pkt')"
  shows "parse_options_loop buf data_len pos num pkt =
    parse_options_loop buf data_len (pos + length (coap_set_option_header delta (length opt) @ opt)) (num + delta) pkt'"
proof -
  let ?nd = "coap_option_nibble delta" and ?nl = "coap_option_nibble (length opt)"
  let ?b = "push_bit 4 ?nd OR ?nl"
  note h = header_nibbles [OF nibble_as_nat(2) nibble_as_nat(2), of delta "length opt", folded nibble_as_nat(1)]
  have b: "buffer_at buf pos = Some ?b" using d by (intro buffer_at_drop) (simp add: coap_set_option_header_def)
  have 1: "drop (pos + 1) buf = option_extension delta @ option_extension (length opt) @ opt @ rest"
    using arg_cong [OF d, of tl] by (simp add: tl_drop drop_Suc coap_set_option_header_def)
  have e1: "parse_extended buf (unat ?nd) (pos + 1) = Some (delta, pos + 1 + length (option_extension delta))"
    using parse_extended_extension [OF 1] n(1) by simp
  have 2: "drop (pos + 1 + length (option_extension delta)) buf = option_extension (length opt) @ opt @ rest"
    using arg_cong [OF 1, of "drop (length (option_extension delta))"] by (simp add: add.commute)
  have e2: "parse_extended buf (unat ?nl) (pos + 1 + length (option_extension delta)) =
      Some (length opt, pos + 1 + length (option_extension delta) + length (option_extension (length opt)))"
    using parse_extended_extension [OF 2] n(2) by simp
  have 3: "drop (pos + 1 + length (option_extension delta) + length (option_extension (length opt))) buf = opt @ rest"
    using arg_cong [OF 2, of "drop (length (option_extension (length opt)))"] by (simp add: add.commute add.left_commute)
  have len: "length (coap_set_option_header delta (length opt) @ opt) =
      1 + length (option_extension delta) + length (option_extension (length opt)) + length opt"
    by (simp add: coap_set_option_header_def)
  show ?thesis
    using l b e1 e2 3 n(3,4) p h unfolding len
    by (subst parse_options_loop.simps) (simp add: set_option_eq add.assoc)
qed

section \<open>Paths and queries\<close>

text \<open>A path is its segments, joined by the separator.\<close>

fun join :: "u8 \<Rightarrow> bytes list \<Rightarrow> bytes" where
  "join separator [] = []"
| "join separator [s] = s"
| "join separator (s # ss) = s @ separator # join separator ss"

definition segments_ok :: "u8 \<Rightarrow> bytes list \<Rightarrow> bool" where
  "segments_ok separator segs \<longleftrightarrow> segs \<noteq> [] \<and> (\<forall>s\<in>set segs. s \<noteq> [] \<and> separator \<notin> set s)"

definition segment_bytes :: "nat \<Rightarrow> bytes \<Rightarrow> bytes" where
  "segment_bytes delta s = coap_set_option_header delta (length s) @ s"

definition string_option_bytes :: "nat \<Rightarrow> bytes list \<Rightarrow> bytes" where
  "string_option_bytes delta segs = segment_bytes delta (hd segs) @ concat (map (segment_bytes 0) (tl segs))"

lemma array_option_scan:
  assumes "array = pre @ s @ rest" "separator \<notin> set s" "length pre \<le> j" "j \<le> length pre + length s"
  shows "array_option_loop array separator number cur (length pre) j =
    array_option_loop array separator number cur (length pre) (length pre + length s)"
  using assms(3,4)
proof (induction "length pre + length s - j" arbitrary: j)
  case (Suc n)
  have j: "j < length pre + length s" using Suc.hyps(2) by simp
  have "array ! j = s ! (j - length pre)" using assms(1) Suc.prems(1) j by (auto simp: nth_append)
  also have "\<dots> \<in> set s" using j Suc.prems(1) by (intro nth_mem) simp
  finally have ne: "array ! j \<noteq> separator" using assms(2) by auto
  have "array_option_loop array separator number cur (length pre) j = array_option_loop array separator number cur (length pre) (j + 1)"
    using ne j assms(1) by (subst array_option_loop.simps) auto
  then show ?case using Suc.hyps j Suc.prems by simp
qed simp

lemma array_option_loop_join:
  assumes "segments_ok separator segs" "length pre \<le> j" "j \<le> length pre + length (hd segs)"
  shows "array_option_loop (pre @ join separator segs) separator number cur (length pre) j =
    Some (string_option_bytes (number - cur) segs)"
  using assms
proof (induction separator segs arbitrary: pre j cur rule: join.induct)
  case (2 separator s)
  then show ?case
    using array_option_scan [of "pre @ s" pre s "[]" separator j number cur]
    by (simp add: segments_ok_def) (subst array_option_loop.simps, subst array_option_loop.simps,
        simp add: string_option_bytes_def segment_bytes_def)
next
  case (3 separator s s2 ss)
  let ?r = "join separator (s2 # ss)" and ?pre = "pre @ s @ [separator]"
  have e: "pre @ join separator (s # s2 # ss) = ?pre @ ?r" by simp
  have "array_option_loop (?pre @ ?r) separator number cur (length pre) j =
      array_option_loop (?pre @ ?r) separator number cur (length pre) (length pre + length s)"
    using 3 by (intro array_option_scan [of _ pre s "separator # ?r"]) (auto simp: segments_ok_def)
  also have "\<dots> = (case array_option_loop (?pre @ ?r) separator number number (length ?pre) (length ?pre + 1) of None \<Rightarrow> None
      | Some rest \<Rightarrow> Some (coap_set_option_header (number - cur) (length s) @ s @ rest))"
    by (subst array_option_loop.simps) (simp add: nth_append)
  also have "array_option_loop (?pre @ ?r) separator number number (length ?pre) (length ?pre + 1) =
      Some (string_option_bytes (number - number) (s2 # ss))"
  proof (rule "3.IH")
    show "segments_ok separator (s2 # ss)" using 3(2) by (simp add: segments_ok_def)
    then show "length ?pre + 1 \<le> length ?pre + length (hd (s2 # ss))" by (cases s2) (auto simp: segments_ok_def)
  qed simp
  finally show ?case unfolding e by (simp add: string_option_bytes_def segment_bytes_def)
qed (simp add: segments_ok_def)

lemma serialize_array_option_join:
  "segments_ok separator segs \<Longrightarrow>
   coap_serialize_array_option number cur (join separator segs) separator = Some (string_option_bytes (number - cur) segs)"
  using array_option_loop_join [of separator segs "[]" 0 number cur] by (simp add: coap_serialize_array_option_def)

text \<open>
  The contract of an option whose values are merged into a field of the packet, as the parser treats the
  path and the query.
\<close>

locale coap_string_option =
  fixes number :: nat and separator :: u8
    and field :: "coap_packet \<Rightarrow> bytes" and update_field :: "bytes \<Rightarrow> coap_packet \<Rightarrow> coap_packet"
  assumes number: "number < 80"
    and parse: "parse_option number opt pkt = (COAP_NO_ERROR, update_field (coap_merge_multi_option (field pkt) opt separator) pkt)"
    and field_update: "field (update_field v pkt) = v"
    and update_update: "update_field v (update_field w pkt) = update_field v pkt"
    and options_update: "pkt_options (update_field v pkt) = pkt_options pkt"
    and set_update: "set_bit_option number (update_field v pkt) = update_field v (set_bit_option number pkt)"
    and set_field: "field (set_bit_option number pkt) = field pkt"
    and update_same: "update_field (field pkt) pkt = pkt"
begin

lemma parse_segment:
  assumes "drop pos buf = segment_bytes (number - num) s @ rest" "pos + length (segment_bytes (number - num) s) \<le> data_len"
    "num \<le> number" "length s < 65536" "length (pkt_options pkt) = 10"
  shows "parse_options_loop buf data_len pos num pkt =
    parse_options_loop buf data_len (pos + length (segment_bytes (number - num) s)) number
      (update_field (coap_merge_multi_option (field pkt) s separator) (set_bit_option number pkt))"
  using parse_option_step [of pos buf "number - num" s rest data_len num pkt] assms number
  by (simp add: segment_bytes_def parse set_field)

lemma parse_segments:
  assumes "drop pos buf = concat (map (segment_bytes 0) ss) @ rest" "pos + length (concat (map (segment_bytes 0) ss)) \<le> data_len"
    "\<forall>s\<in>set ss. s \<noteq> [] \<and> length s < 65536" "length (pkt_options pkt) = 10" "field pkt \<noteq> []" "set_bit_option number pkt = pkt"
  shows "parse_options_loop buf data_len pos number pkt =
    parse_options_loop buf data_len (pos + length (concat (map (segment_bytes 0) ss))) number
      (update_field (if ss = [] then field pkt else field pkt @ separator # join separator ss) pkt)"
  using assms
proof (induction ss arbitrary: pos pkt)
  case (Cons s ss)
  define pkt' where "pkt' = update_field (field pkt @ separator # s) pkt"
  define p' where "p' = pos + length (segment_bytes 0 s)"
  have d: "drop pos buf = segment_bytes 0 s @ concat (map (segment_bytes 0) ss) @ rest" using Cons.prems(1) by simp
  have "parse_options_loop buf data_len pos number pkt = parse_options_loop buf data_len p' number pkt'"
    using parse_segment [of pos buf number s "concat (map (segment_bytes 0) ss) @ rest" data_len pkt] d Cons.prems(2-6)
    by (simp add: coap_merge_multi_option_def pkt'_def p'_def)
  also have "\<dots> = parse_options_loop buf data_len (p' + length (concat (map (segment_bytes 0) ss))) number
      (update_field (if ss = [] then field pkt' else field pkt' @ separator # join separator ss) pkt')"
  proof (rule Cons.IH)
    show "drop p' buf = concat (map (segment_bytes 0) ss) @ rest"
      using arg_cong [OF d, of "drop (length (segment_bytes 0 s))"] by (simp add: p'_def add.commute)
  qed (use Cons.prems in \<open>simp_all add: p'_def pkt'_def field_update options_update set_update\<close>)
  also have "update_field (if ss = [] then field pkt' else field pkt' @ separator # join separator ss) pkt' =
      update_field (field pkt @ separator # join separator (s # ss)) pkt"
    by (cases ss) (simp_all add: pkt'_def field_update update_update)
  finally show ?case by (simp add: p'_def add.assoc)
qed (simp add: update_same)

lemma set_bit_twice: "length (pkt_options pkt) = 10 \<Longrightarrow> set_bit_option number (set_bit_option number pkt) = set_bit_option number pkt"
  using number by (simp add: set_bit_option_def or.assoc)

lemma parse_string_option:
  assumes "drop pos buf = string_option_bytes (number - num) segs @ rest" "pos + length (string_option_bytes (number - num) segs) \<le> data_len"
    "segments_ok separator segs" "num \<le> number" "\<forall>s\<in>set segs. length s < 65536" "length (pkt_options pkt) = 10" "field pkt = []"
  shows "parse_options_loop buf data_len pos num pkt =
    parse_options_loop buf data_len (pos + length (string_option_bytes (number - num) segs)) number
      (update_field (join separator segs) (set_bit_option number pkt))"
proof (cases segs)
  case (Cons s ss)
  define pkt' where "pkt' = update_field s (set_bit_option number pkt)"
  define p' where "p' = pos + length (segment_bytes (number - num) s)"
  have d: "drop pos buf = segment_bytes (number - num) s @ concat (map (segment_bytes 0) ss) @ rest"
    using assms(1) by (simp add: Cons string_option_bytes_def)
  have o: "length (pkt_options (set_bit_option number pkt)) = 10" using assms(6) by (simp add: set_bit_option_def)
  have "parse_options_loop buf data_len pos num pkt = parse_options_loop buf data_len p' number pkt'"
    using parse_segment [OF d] assms(2-7)
    by (simp add: coap_merge_multi_option_def pkt'_def p'_def Cons string_option_bytes_def)
  also have "\<dots> = parse_options_loop buf data_len (p' + length (concat (map (segment_bytes 0) ss))) number
      (update_field (if ss = [] then field pkt' else field pkt' @ separator # join separator ss) pkt')"
  proof (rule parse_segments)
    show "drop p' buf = concat (map (segment_bytes 0) ss) @ rest"
      using arg_cong [OF d, of "drop (length (segment_bytes (number - num) s))"] by (simp add: p'_def add.commute)
  qed (use assms o in \<open>simp_all add: p'_def pkt'_def field_update options_update set_update set_bit_twice Cons string_option_bytes_def segments_ok_def\<close>)
  also have "update_field (if ss = [] then field pkt' else field pkt' @ separator # join separator ss) pkt' =
      update_field (join separator segs) (set_bit_option number pkt)"
    by (cases ss) (simp_all add: pkt'_def field_update update_update Cons)
  finally show ?thesis by (simp add: p'_def add.assoc Cons string_option_bytes_def)
qed (use assms(3) in \<open>simp add: segments_ok_def\<close>)

end

interpretation path: coap_string_option COAP_OPTION_URI_PATH SLASH uri_path "\<lambda>v pkt. pkt\<lparr>uri_path := v\<rparr>"
  by unfold_locales (simp_all add: parse_option_def set_bit_option_def)

interpretation query: coap_string_option COAP_OPTION_URI_QUERY AMPERSAND uri_query "\<lambda>v pkt. pkt\<lparr>uri_query := v\<rparr>"
  by unfold_locales (simp_all add: parse_option_def set_bit_option_def)

section \<open>Messages are read as they are written\<close>

text \<open>
  The packets that carry a token: its one byte, a method or response code, a path and a query without empty
  segments, one of the two content formats, and a payload that is not empty, each of the last four if it is there. The stack also builds
  replies without token, to requests without token; see \<open>tokenless_reply_differs\<close>.
\<close>

definition coap_packet_wf :: "coap_packet \<Rightarrow> bytes list \<Rightarrow> bytes list \<Rightarrow> bool" where
  "coap_packet_wf pkt psegs qsegs \<longleftrightarrow> pkt_token_len pkt = 1 \<and> pkt_code pkt \<noteq> 0 \<and>
     pkt_options pkt = (replicate 10 0)[1 := (if psegs \<noteq> [] then 8 else 0) OR (if content_format pkt \<noteq> 0 then 16 else 0) OR
       (if qsegs \<noteq> [] then 128 else 0)] \<and>
     uri_path pkt = join SLASH psegs \<and> (psegs = [] \<or> segments_ok SLASH psegs) \<and>
     uri_query pkt = join AMPERSAND qsegs \<and> (qsegs = [] \<or> segments_ok AMPERSAND qsegs) \<and>
     content_format pkt \<in> {0, APPLICATION_COSE_MAC0, APPLICATION_VND_OCF_CBOR} \<and>
     pkt_payload pkt \<noteq> Some [] \<and> length (payload_bytes pkt) \<le> 98"

lemma segment_in_option: "s \<in> set segs \<Longrightarrow> length s \<le> length (string_option_bytes d segs)"
proof -
  have "s \<in> set ss \<Longrightarrow> length s \<le> length (concat (map (segment_bytes 0) ss))" for ss
    by (induction ss) (auto simp: segment_bytes_def)
  then show "s \<in> set segs \<Longrightarrow> ?thesis"
    by (cases segs) (auto simp: string_option_bytes_def segment_bytes_def dest!: meta_spec intro: le_trans trans_le_add2)
qed

definition path_option :: "bytes list \<Rightarrow> bytes" where
  "path_option psegs = (if psegs = [] then [] else string_option_bytes 11 psegs)"

definition format_option :: "nat \<Rightarrow> u16 \<Rightarrow> bytes" where
  "format_option cur f = (if f = 0 then [] else coap_serialize_int_option 12 cur (ucast f))"

definition query_option :: "nat \<Rightarrow> bytes list \<Rightarrow> bytes" where
  "query_option cur qsegs = (if qsegs = [] then [] else string_option_bytes (15 - cur) qsegs)"

abbreviation (input) after_path :: "bytes list \<Rightarrow> nat" where
  "after_path psegs \<equiv> (if psegs = [] then 0 else 11)"

abbreviation (input) after_format :: "bytes list \<Rightarrow> u16 \<Rightarrow> nat" where
  "after_format psegs f \<equiv> (if f = 0 then after_path psegs else 12)"

lemma wf_options:
  assumes "coap_packet_wf pkt psegs qsegs"
  shows "IS_OPTION pkt 11 \<longleftrightarrow> psegs \<noteq> []" "IS_OPTION pkt 12 \<longleftrightarrow> content_format pkt \<noteq> 0" "IS_OPTION pkt 15 \<longleftrightarrow> qsegs \<noteq> []"
  using assms by (auto simp: coap_packet_wf_def IS_OPTION_def)

lemma serialize_options_wf:
  assumes "coap_packet_wf pkt psegs qsegs"
  shows "coap_serialize_options (pkt\<lparr>pkt_version := 1\<rparr>) = Some (path_option psegs @
    format_option (after_path psegs) (content_format pkt) @ query_option (after_format psegs (content_format pkt)) qsegs)"
proof -
  have i: "IS_OPTION (pkt\<lparr>pkt_version := 1\<rparr>) n = IS_OPTION pkt n" for n by (simp add: IS_OPTION_def)
  show ?thesis
    using assms wf_options [OF assms]
    unfolding coap_serialize_options_def serialize_string_option_def serialize_int_option_def i
    by (auto simp: coap_packet_wf_def serialize_array_option_join path_option_def format_option_def query_option_def)
qed

text \<open>The three options and the payload, as the parser's loop takes them.\<close>

lemma parse_path:
  assumes "drop pos buf = path_option psegs @ rest" "pos + length (path_option psegs) \<le> data_len" "psegs = [] \<or> segments_ok SLASH psegs"
    "length (path_option psegs) \<le> 22" "length (pkt_options pkt) = 10" "uri_path pkt = []"
  shows "parse_options_loop buf data_len pos 0 pkt =
    parse_options_loop buf data_len (pos + length (path_option psegs)) (after_path psegs)
      (if psegs = [] then pkt else (set_bit_option 11 pkt)\<lparr>uri_path := join SLASH psegs\<rparr>)"
proof (cases "psegs = []")
  case False
  then have "\<forall>s\<in>set psegs. length s < 65536"
    using assms(4) segment_in_option [of _ psegs 11] by (fastforce simp: path_option_def)
  then show ?thesis
    using False assms path.parse_string_option [of pos buf 0 psegs rest data_len pkt] by (simp add: path_option_def)
qed (simp add: path_option_def)

lemma parse_query:
  assumes "drop pos buf = query_option cur qsegs @ rest" "pos + length (query_option cur qsegs) \<le> data_len" "qsegs = [] \<or> segments_ok AMPERSAND qsegs"
    "length (query_option cur qsegs) \<le> 22" "length (pkt_options pkt) = 10" "uri_query pkt = []" "cur \<le> 15"
  shows "parse_options_loop buf data_len pos cur pkt =
    parse_options_loop buf data_len (pos + length (query_option cur qsegs)) (if qsegs = [] then cur else 15)
      (if qsegs = [] then pkt else (set_bit_option 15 pkt)\<lparr>uri_query := join AMPERSAND qsegs\<rparr>)"
proof (cases "qsegs = []")
  case False
  then have "\<forall>s\<in>set qsegs. length s < 65536"
    using assms(4) segment_in_option [of _ qsegs "15 - cur"] by (fastforce simp: query_option_def)
  then show ?thesis
    using False assms query.parse_string_option [of pos buf cur qsegs rest data_len pkt] by (simp add: query_option_def)
qed (simp add: query_option_def)

lemma parse_format:
  assumes "drop pos buf = format_option cur f @ rest" "pos + length (format_option cur f) \<le> data_len" "f \<in> {0, 17, 10000}"
    "length (pkt_options pkt) = 10" "content_format pkt = 0" "cur \<in> {0, 11}"
  shows "parse_options_loop buf data_len pos cur pkt =
    parse_options_loop buf data_len (pos + length (format_option cur f)) (if f = 0 then cur else 12)
      (if f = 0 then pkt else (set_bit_option 12 pkt)\<lparr>content_format := f\<rparr>)"
proof (cases "f = 0")
  case False
  have i: "int_option_bytes 17 = [17]" "int_option_bytes 10000 = [0x27, 0x10]"
      "coap_parse_int_option [17] = 17" "coap_parse_int_option [0x27, 0x10] = 10000" by code_simp+
  have u: "(ucast (17 :: u16) :: u32) = 17" "(ucast (10000 :: u16) :: u32) = 10000" by code_simp+
  have p: "coap_parse_int_option (int_option_bytes (ucast f)) = ucast f" "length (int_option_bytes (ucast f)) < 3"
    using assms(3) False i u by auto
  show ?thesis
    using False assms p parse_option_step [of pos buf "12 - cur" "int_option_bytes (ucast f)" rest data_len cur pkt]
    by (auto simp: format_option_def coap_serialize_int_option_def parse_option_def Let_def)
qed (simp add: format_option_def)

lemma parse_end:
  assumes "drop pos buf = (if p = [] then [] else 0xFF # p) @ rest" "data_len = pos + length (if p = [] then [] else 0xFF # p)"
    "length p \<le> 98" "rest \<noteq> []" "pos < length buf"
  shows "parse_options_loop buf data_len pos num pkt = Some (COAP_NO_ERROR, if p = [] then pkt else pkt\<lparr>pkt_payload := Some p\<rparr>)"
proof (cases "p = []")
  case False
  have b: "buffer_at buf pos = Some 0xFF" using assms(1) False by (intro buffer_at_drop) simp
  have d: "drop (pos + 1) buf = p @ rest" using arg_cong [OF assms(1), of tl] False by (simp add: tl_drop drop_Suc)
  then have "length buf - (pos + 1) = length p + length rest" by (metis length_append length_drop)
  then have "pos + 1 + length p < length buf" using assms(4) by (cases rest) auto
  then have "buffer_at buf (pos + 1 + length p) \<noteq> None" by (simp add: buffer_at_def)
  then show ?thesis
    using b d False assms(2,3) by (subst parse_options_loop.simps) (auto simp: parse_payload_def Let_def)
qed (use assms in \<open>simp add: parse_options_loop.simps\<close>)

lemma header_fields:
  assumes "h = coap_udp_set_header_fields (pkt\<lparr>pkt_version := 1\<rparr>)" "pkt_token_len pkt = 1"
  shows "drop_bit 6 (0xC0 AND h ! 0) = 1" "coap_message_type_of (drop_bit 4 (0x30 AND h ! 0)) = pkt_type pkt" "0x0F AND h ! 0 = 1"
    "h ! 1 = pkt_code pkt" "push_bit 8 (ucast (h ! 2)) OR ucast (h ! 3) = pkt_mid pkt" "length h = 4"
proof -
  have m: "push_bit 8 (ucast (ucast (drop_bit 8 m) :: u8)) OR ucast (ucast m :: u8) = m" for m :: u16
    by (rule bit_word_eqI) (auto simp: bit_simps)
  show "drop_bit 6 (0xC0 AND h ! 0) = 1" "coap_message_type_of (drop_bit 4 (0x30 AND h ! 0)) = pkt_type pkt" "0x0F AND h ! 0 = 1"
    using assms by (cases "pkt_type pkt"; simp add: coap_udp_set_header_fields_def coap_message_type_value_def coap_message_type_of_def)+
  show "h ! 1 = pkt_code pkt" "push_bit 8 (ucast (h ! 2)) OR ucast (h ! 3) = pkt_mid pkt" "length h = 4"
    using assms(1) by (simp_all add: coap_udp_set_header_fields_def m numeral_2_eq_2 numeral_3_eq_3)
qed

lemma serialize_message_wf:
  assumes "coap_packet_wf pkt psegs qsegs" "coap_serialize_message pkt = Some b" "b \<noteq> []"
  shows "b = coap_udp_set_header_fields (pkt\<lparr>pkt_version := 1\<rparr>) @ pkt_token pkt # path_option psegs @
      format_option (after_path psegs) (content_format pkt) @ query_option (after_format psegs (content_format pkt)) qsegs @
      (if payload_bytes pkt = [] then [] else 0xFF # payload_bytes pkt) \<and>
    length (path_option psegs @ format_option (after_path psegs) (content_format pkt) @ query_option (after_format psegs (content_format pkt)) qsegs) \<le> 22"
  using assms(2,3) assms(1)
  by (auto simp: coap_serialize_message_def serialize_options_wf [OF assms(1)] coap_packet_wf_def payload_bytes_def Let_def
      split: if_splits)

text \<open>The packet that the parser builds from its parts.\<close>

lemma packet_from_parts:
  assumes "coap_packet_wf pkt psegs qsegs"
    "pkt0 = zero_packet\<lparr>pkt_version := 1, pkt_type := pkt_type pkt, pkt_token_len := 1, pkt_code := pkt_code pkt, pkt_mid := pkt_mid pkt,
       pkt_token := pkt_token pkt, pkt_options := replicate 10 0\<rparr>"
    "pkt1 = (if psegs = [] then pkt0 else (set_bit_option 11 pkt0)\<lparr>uri_path := join SLASH psegs\<rparr>)"
    "pkt2 = (if content_format pkt = 0 then pkt1 else (set_bit_option 12 pkt1)\<lparr>content_format := content_format pkt\<rparr>)"
    "pkt3 = (if qsegs = [] then pkt2 else (set_bit_option 15 pkt2)\<lparr>uri_query := join AMPERSAND qsegs\<rparr>)"
    "pkt4 = (if payload_bytes pkt = [] then pkt3 else pkt3\<lparr>pkt_payload := Some (payload_bytes pkt)\<rparr>)"
  shows "pkt4 = pkt\<lparr>pkt_version := 1\<rparr>"
proof -
  have f: "pkt_version (set_bit_option n p) = pkt_version p" "pkt_type (set_bit_option n p) = pkt_type p" "pkt_code (set_bit_option n p) = pkt_code p"
      "pkt_mid (set_bit_option n p) = pkt_mid p" "pkt_token_len (set_bit_option n p) = pkt_token_len p" "pkt_token (set_bit_option n p) = pkt_token p"
      "content_format (set_bit_option n p) = content_format p" "uri_path (set_bit_option n p) = uri_path p" "uri_query (set_bit_option n p) = uri_query p"
      "pkt_payload (set_bit_option n p) = pkt_payload p" for n p
    by (simp_all add: set_bit_option_def)
  have "pkt_payload pkt = (if payload_bytes pkt = [] then None else Some (payload_bytes pkt))"
    using assms(1) by (auto simp: coap_packet_wf_def payload_bytes_def split: option.splits)
  moreover have "pkt_options pkt4 = pkt_options pkt"
  proof -
    have z: "(replicate 10 (0 :: u8))[1 := 0] = replicate 10 0" by (simp add: list_update_same_conv)
    have s: "pkt_options (set_bit_option n p) = (replicate 10 0)[1 := x OR push_bit (n mod 8) 1]"
      if "pkt_options p = (replicate 10 0)[1 := x]" "n div 8 = 1" for n p x
      using that by (simp add: set_bit_option_def)
    have "pkt_options pkt1 = (replicate 10 0)[1 := if psegs = [] then 0 else 8]"
      unfolding assms(2,3) using s [of "zero_packet\<lparr>pkt_options := replicate 10 0\<rparr>" 0 11] z by (simp add: set_bit_option_def z)
    then have "pkt_options pkt2 = (replicate 10 0)[1 := (if psegs = [] then 0 else 8) OR (if content_format pkt = 0 then 0 else 16)]"
      unfolding assms(4) using s [of pkt1 _ 12] by simp
    then have "pkt_options pkt3 = (replicate 10 0)[1 := ((if psegs = [] then 0 else 8) OR (if content_format pkt = 0 then 0 else 16)) OR (if qsegs = [] then 0 else 128)]"
      unfolding assms(5) using s [of pkt2 _ 15] by simp
    then show ?thesis using assms(1,6) by (auto simp: coap_packet_wf_def)
  qed
  ultimately show ?thesis
    using assms(1) by (intro coap_packet.equality) (simp_all add: assms(2-6) coap_packet_wf_def f zero_packet_def)
qed

lemma drop_front: "drop pos buf = xs @ ys \<Longrightarrow> drop (pos + length xs) buf = ys"
  by (metis add.commute append_eq_conv_conj drop_drop)

text \<open>The parser reaches the end of the options of a serialised packet with everything but the payload.\<close>

lemma parse_options_wf:
  assumes wf: "coap_packet_wf pkt psegs qsegs" and b: "coap_serialize_message pkt = Some b" "b \<noteq> []"
  obtains pos num pkt3 where "coap_udp_parse_message (b @ rest) (length b) = parse_options_loop (b @ rest) (length b) pos num pkt3"
    "drop pos (b @ rest) = (if payload_bytes pkt = [] then [] else 0xFF # payload_bytes pkt) @ rest"
    "length b = pos + length (if payload_bytes pkt = [] then [] else 0xFF # payload_bytes pkt)"
    "(if payload_bytes pkt = [] then pkt3 else pkt3\<lparr>pkt_payload := Some (payload_bytes pkt)\<rparr>) = pkt\<lparr>pkt_version := 1\<rparr>"
proof -
  define h where "h = coap_udp_set_header_fields (pkt\<lparr>pkt_version := 1\<rparr>)"
  define f where "f = content_format pkt"
  define P where "P = path_option psegs"
  define F where "F = format_option (after_path psegs) f"
  define Q where "Q = query_option (after_format psegs f) qsegs"
  define pl where "pl = (if payload_bytes pkt = [] then [] else 0xFF # payload_bytes pkt)"
  define pkt0 where "pkt0 = zero_packet\<lparr>pkt_version := 1, pkt_type := pkt_type pkt, pkt_token_len := 1, pkt_code := pkt_code pkt, pkt_mid := pkt_mid pkt,
       pkt_token := pkt_token pkt, pkt_options := replicate 10 0\<rparr>"
  define pkt1 where "pkt1 = (if psegs = [] then pkt0 else (set_bit_option 11 pkt0)\<lparr>uri_path := join SLASH psegs\<rparr>)"
  define pkt2 where "pkt2 = (if f = 0 then pkt1 else (set_bit_option 12 pkt1)\<lparr>content_format := f\<rparr>)"
  define pkt3 where "pkt3 = (if qsegs = [] then pkt2 else (set_bit_option 15 pkt2)\<lparr>uri_query := join AMPERSAND qsegs\<rparr>)"
  note s = serialize_message_wf [OF wf b, folded f_def, folded P_def F_def Q_def pl_def h_def]
  have bs: "b = h @ pkt_token pkt # P @ F @ Q @ pl" using s by simp
  have len: "length P \<le> 22" "length Q \<le> 22" using s by simp_all
  note w = wf [unfolded coap_packet_wf_def, folded f_def]
  note hd = header_fields [OF h_def]
  have lh: "length h = 4" using hd(6) w by simp
  have n: "(b @ rest) ! i = h ! i" if "i < 4" for i using that lh by (simp add: bs nth_append)
  have t: "(b @ rest) ! 4 = pkt_token pkt" using lh by (simp add: bs nth_append)
  have d0: "drop 5 (b @ rest) = P @ F @ Q @ pl @ rest" using lh by (simp add: bs)
  have d1: "drop (5 + length P) (b @ rest) = F @ Q @ pl @ rest" using drop_front [OF d0] .
  have d2: "drop (5 + length P + length F) (b @ rest) = Q @ pl @ rest" using drop_front [OF d1] .
  have d3: "drop (5 + length P + length F + length Q) (b @ rest) = pl @ rest" using drop_front [OF d2] .
  have lb: "length b = 5 + length P + length F + length Q + length pl" using lh by (simp add: bs)
  have o: "length (pkt_options pkt0) = 10" "uri_path pkt0 = []" "length (pkt_options pkt1) = 10" "content_format pkt1 = 0"
      "length (pkt_options pkt2) = 10" "uri_query pkt2 = []"
    by (simp_all add: pkt0_def pkt1_def pkt2_def set_bit_option_def zero_packet_def)
  have "coap_udp_parse_message (b @ rest) (length b) = parse_options_loop (b @ rest) (length b) 5 0 pkt0"
    using hd w t by (simp add: coap_udp_parse_message_def coap_parse_token_option_def n pkt0_def zero_packet_def Let_def)
  also have "\<dots> = parse_options_loop (b @ rest) (length b) (5 + length P) (after_path psegs) pkt1"
    using parse_path [of 5 "b @ rest" psegs "F @ Q @ pl @ rest" "length b" pkt0, folded P_def] d0 lb len w o(1,2)
    unfolding pkt1_def by simp
  also have "\<dots> = parse_options_loop (b @ rest) (length b) (5 + length P + length F) (after_format psegs f) pkt2"
    using parse_format [of "5 + length P" "b @ rest" "after_path psegs" f "Q @ pl @ rest" "length b" pkt1, folded F_def] d1 lb w o(3,4)
    unfolding pkt2_def by auto
  also have "\<dots> = parse_options_loop (b @ rest) (length b) (5 + length P + length F + length Q) (if qsegs = [] then after_format psegs f else 15) pkt3"
    using parse_query [of "5 + length P + length F" "b @ rest" "after_format psegs f" qsegs "pl @ rest" "length b" pkt2, folded Q_def] d2 lb len w o(5,6)
    unfolding pkt3_def by auto
  finally show ?thesis
    using that d3 lb packet_from_parts [OF wf pkt0_def pkt1_def pkt2_def [unfolded f_def] pkt3_def refl] by (simp add: pl_def)
qed

lemma serialize_then_parse:
  assumes wf: "coap_packet_wf pkt psegs qsegs" and b: "coap_serialize_message pkt = Some b" "b \<noteq> []"
    and l: "length b + length rest = 120" "rest \<noteq> []"
  shows "coap_udp_parse_message (b @ rest) (length b) = Some (COAP_NO_ERROR, pkt\<lparr>pkt_version := 1\<rparr>)"
proof -
  obtain pos num pkt3 where p: "coap_udp_parse_message (b @ rest) (length b) = parse_options_loop (b @ rest) (length b) pos num pkt3"
    "drop pos (b @ rest) = (if payload_bytes pkt = [] then [] else 0xFF # payload_bytes pkt) @ rest"
    "length b = pos + length (if payload_bytes pkt = [] then [] else 0xFF # payload_bytes pkt)"
    "(if payload_bytes pkt = [] then pkt3 else pkt3\<lparr>pkt_payload := Some (payload_bytes pkt)\<rparr>) = pkt\<lparr>pkt_version := 1\<rparr>"
    using parse_options_wf [OF wf b] by metis
  have "length (payload_bytes pkt) \<le> 98" using wf by (simp add: coap_packet_wf_def)
  moreover have "pos < length (b @ rest)" using p(3) l by (cases rest) auto
  ultimately show ?thesis using parse_end [OF p(2,3) _ l(2)] by (simp only: p(1,4))
qed

text \<open>
  The byte of the token is written even for a packet that has none: the receiver takes it for an option with number 0.
\<close>

lemma tokenless_reply_differs:
  "coap_serialize_message (coap_udp_init_message COAP_TYPE_NON 129 300) = Some [80, 129, 1, 44, 0]"
  "coap_udp_parse_message ([80, 129, 1, 44, 0] @ replicate 115 0) 5 =
     Some (COAP_NO_ERROR, (coap_udp_init_message COAP_TYPE_NON 129 300)\<lparr>pkt_version := 1, pkt_options := 1 # replicate 9 0\<rparr>)"
  by code_simp+

text \<open>C18. A message that one device serialises is the message the other parses: take a packet with a token of one byte, a code that is not
  0.00, no option but path, content format (COSE or CBOR) and query, each present or not, path and query without empty segments, and a
  payload of up to 98 bytes that is absent or not empty. If its serialisation succeeds and leaves a byte of the receiver's 120-byte buffer,
  the parser accepts the bytes and rebuilds every field: type, code, message identifier, token, path, query, content format and payload.\<close>

theorem coap_serialize_then_parse:
  assumes wf: "coap_packet_wf pkt psegs qsegs" and b: "coap_serialize_message pkt = Some b" "b \<noteq> []"
    and l: "length b + length rest = 120" "rest \<noteq> []"
  shows "coap_udp_parse_message (b @ rest) (length b) = Some (COAP_NO_ERROR, pkt\<lparr>pkt_version := 1\<rparr>)"
  by (rule serialize_then_parse [OF assms])

theorem coap_serialize_then_parse_witness:
  "\<exists>b. coap_serialize_message (coap_set_payload (Some [1, 2, 3]) (coap_set_header_content_format 17
      (coap_set_header_uri_path [0x2F, 0x6E, 0x78, 0x2F, 0x70, 0x63] (coap_set_token [7] (coap_udp_init_message COAP_TYPE_NON 2 300))))) = Some b \<and>
    coap_udp_parse_message (b @ replicate 103 0) (length b) = Some (COAP_NO_ERROR,
      (coap_set_payload (Some [1, 2, 3]) (coap_set_header_content_format 17 (coap_set_header_uri_path [0x2F, 0x6E, 0x78, 0x2F, 0x70, 0x63]
        (coap_set_token [7] (coap_udp_init_message COAP_TYPE_NON 2 300)))))\<lparr>pkt_version := 1\<rparr>)"
proof -
  let ?pkt = "coap_set_payload (Some [1, 2, 3]) (coap_set_header_content_format 17
      (coap_set_header_uri_path [0x2F, 0x6E, 0x78, 0x2F, 0x70, 0x63] (coap_set_token [7] (coap_udp_init_message COAP_TYPE_NON 2 300))))"
  let ?b = "[81, 2, 1, 44, 7, 178, 110, 120, 2, 112, 99, 17, 17, 255, 1, 2, 3] :: bytes"
  have "coap_packet_wf ?pkt [[0x6E, 0x78], [0x70, 0x63]] []" by code_simp
  moreover have s: "coap_serialize_message ?pkt = Some ?b" by code_simp
  ultimately have "coap_udp_parse_message (?b @ replicate 103 0) (length ?b) = Some (COAP_NO_ERROR, ?pkt\<lparr>pkt_version := 1\<rparr>)"
    by (rule coap_serialize_then_parse) simp_all
  with s show ?thesis by blast
qed

text \<open>C38. A datagram can make the parser write outside the packet: the bitmap of options has room for numbers
  below 80, and an option of any number sets its bit before the number is looked at, so seven bytes
  from any sender are enough to leave the array.\<close>

theorem coap_option_outside_bitmap:
  assumes "buf = [0x51, code, m1, m0, token, 0xD0, d] @ rest" "67 \<le> unat d" "7 \<le> data_len"
  shows "coap_udp_parse_message buf data_len = None"
proof -
  have b: "buffer_at buf 5 = Some 0xD0" "buffer_at buf 6 = Some d" using assms(1) by (simp_all add: buffer_at_def)
  have h: "drop_bit 6 (0xC0 AND 0x51 :: u8) = 1" "0x0F AND 0x51 = (1 :: u8)" "drop_bit 4 (0xD0 :: u8) = 13" "0xD0 AND 0x0F = (0 :: u8)"
      "0xD0 AND 0xF0 \<noteq> (0xF0 :: u8)" by code_simp+
  have "10 \<le> (13 + unat d) div 8" using div_le_mono [of 80 "13 + unat d" 8] assms(2) by simp
  then have "parse_options_loop buf data_len 5 0 pkt = None" if "length (pkt_options pkt) = 10" for pkt
    using assms(2,3) b h that by (subst parse_options_loop.simps) (simp add: parse_extended_def SET_OPTION_def)
  then show ?thesis
    using h assms(1) by (simp add: coap_udp_parse_message_def coap_parse_token_option_def zero_packet_def Let_def)
qed

theorem coap_option_outside_bitmap_witness:
  "coap_udp_parse_message ([0x51, 1, 0, 1, 7, 0xD0, 0xFF] @ replicate 113 0) 7 = None"
  by (rule coap_option_outside_bitmap [OF refl]) simp_all

section \<open>Typing of parsed packets\<close>

definition coap_packet_typed :: "nat \<Rightarrow> coap_packet \<Rightarrow> bool" where
  "coap_packet_typed data_len pkt \<longleftrightarrow> pkt_version pkt = 1 \<and> unat (pkt_token_len pkt) \<le> COAP_TOKEN_LEN \<and> length (pkt_options pkt) = 10 \<and>
     content_format pkt \<in> {0, APPLICATION_VND_OCF_CBOR, APPLICATION_COSE_MAC0} \<and> length (uri_path pkt) + length (uri_query pkt) \<le> data_len \<and>
     length (payload_bytes pkt) \<le> NEXUS_CHANNEL_MAX_CBOR_PAYLOAD_SIZE"

lemma SET_OPTION_typed: "SET_OPTION pkt n = Some pkt' \<Longrightarrow> coap_packet_typed d pkt' = coap_packet_typed d pkt \<and> uri_path pkt' = uri_path pkt \<and> uri_query pkt' = uri_query pkt"
  by (auto simp: SET_OPTION_def coap_packet_typed_def payload_bytes_def split: if_splits)

lemma parse_option_typed:
  "parse_option n opt pkt = (COAP_NO_ERROR, pkt') \<Longrightarrow> coap_packet_typed d pkt \<Longrightarrow>
   length (uri_path pkt) + length (uri_query pkt) + length opt + 1 \<le> k \<Longrightarrow> k \<le> d \<Longrightarrow>
   coap_packet_typed d pkt' \<and> length (uri_path pkt') + length (uri_query pkt') \<le> k"
  by (auto simp: parse_option_def coap_packet_typed_def payload_bytes_def coap_merge_multi_option_def Let_def split: if_splits)

lemma parse_options_typed:
  "parse_options_loop buf data_len pos n pkt = Some (COAP_NO_ERROR, pkt') \<Longrightarrow> coap_packet_typed data_len pkt \<Longrightarrow>
   length (uri_path pkt) + length (uri_query pkt) \<le> pos \<Longrightarrow> coap_packet_typed data_len pkt'"
proof (induction "data_len - pos" arbitrary: pos n pkt rule: less_induct)
  case less
  show ?case
  proof (cases "pos < data_len")
    case False
    then show ?thesis using less.prems(1,2) by (simp add: parse_options_loop.simps [of buf data_len pos n pkt])
  next
    case pos: True
    obtain b where b: "buffer_at buf pos = Some b" using less.prems(1) pos by (simp add: parse_options_loop.simps [of buf data_len pos n pkt] split: option.splits)
    show ?thesis
    proof (cases "b AND 0xF0 = 0xF0")
      case True
      then have "parse_payload buf data_len (pos + 1) pkt = Some (COAP_NO_ERROR, pkt')" using less.prems(1) pos b by (simp add: parse_options_loop.simps [of buf data_len pos n pkt])
      then show ?thesis using less.prems(2) by (auto simp: parse_payload_def coap_packet_typed_def payload_bytes_def Let_def split: if_splits bind_splits)
    next
      case False
      note loop = less.prems(1) [unfolded parse_options_loop.simps [of buf data_len pos n pkt]]
      obtain delta pos1 where p1: "parse_extended buf (unat (drop_bit 4 b)) (pos + 1) = Some (delta, pos1)"
        using loop pos b False by (cases "parse_extended buf (unat (drop_bit 4 b)) (pos + 1)") auto
      obtain len pos2 where p2: "parse_extended buf (unat (b AND 0x0F)) pos1 = Some (len, pos2)"
        using loop pos b False p1 by (cases "parse_extended buf (unat (b AND 0x0F)) pos1") auto
      obtain pkt1 where p3: "SET_OPTION pkt (n + delta) = Some pkt1" using loop pos b False p1 p2 by (cases "SET_OPTION pkt (n + delta)") auto
      have p4: "\<not> pos2 + len > data_len" using loop pos b False p1 p2 p3 by (cases "pos2 + len > data_len") auto
      obtain st pkt2 where p5: "parse_option (n + delta) (take len (drop pos2 buf)) pkt1 = (st, pkt2)" by fastforce
      have st: "st = COAP_NO_ERROR" using loop pos b False p1 p2 p3 p4 p5 by (cases "st = COAP_NO_ERROR") auto
      have p6: "parse_options_loop buf data_len (pos2 + len) (n + delta) pkt2 = Some (COAP_NO_ERROR, pkt')"
        using loop pos b False p1 p2 p3 p4 p5 st by auto
      note p = p1 p2 p3 p4 p5 [unfolded st] p6
      have "pos + 1 \<le> pos2" using parse_extended_pos [OF p(1)] parse_extended_pos [OF p(2)] by simp
      with pos have "coap_packet_typed data_len pkt2 \<and> length (uri_path pkt2) + length (uri_query pkt2) \<le> pos2 + len"
        using parse_option_typed [OF p(5), of data_len "pos2 + len"] SET_OPTION_typed [OF p(3), of data_len] less.prems(2,3) p(4) by (auto simp: min_def)
      then show ?thesis using less.hyps [OF _ p(6)] \<open>pos + 1 \<le> pos2\<close> pos by simp
    qed
  qed
qed

text \<open>C21. A packet that parsing accepts is well typed, whatever bytes were received: its version is 1, its token fits, its option bitmap has
  ten bytes, its content format is one of the supported ones, its path and query together are no longer than the message and its
  payload fits into the buffer for payloads.\<close>

theorem coap_parsed_packet_typed:
  assumes "coap_udp_parse_message buf data_len = Some (COAP_NO_ERROR, pkt)"
  shows "coap_packet_typed data_len pkt"
proof -
  have "coap_packet_typed data_len pkt0" if "pkt_version pkt0 = 1" "unat (pkt_token_len pkt0) \<le> 1" "pkt_options pkt0 = replicate 10 0" "content_format pkt0 = 0"
      "uri_path pkt0 = []" "uri_query pkt0 = []" "pkt_payload pkt0 = None" for pkt0
    using that by (simp add: coap_packet_typed_def payload_bytes_def)
  then show ?thesis
    using assms by (auto simp: coap_udp_parse_message_def coap_parse_token_option_def zero_packet_def Let_def split: if_splits elim!: parse_options_typed)
qed

theorem coap_parsed_packet_typed_witness:
  "coap_packet_typed 9 (snd (the (coap_udp_parse_message ([0x51, 1, 0, 7, 9, 0xB1, 0x78, 0xFF, 5] @ replicate 110 0) 9)))"
proof -
  have "map_option fst (coap_udp_parse_message ([0x51, 1, 0, 7, 9, 0xB1, 0x78, 0xFF, 5] @ replicate 110 0) 9) = Some COAP_NO_ERROR" by code_simp
  then obtain pkt where "coap_udp_parse_message ([0x51, 1, 0, 7, 9, 0xB1, 0x78, 0xFF, 5] @ replicate 110 0) 9 = Some (COAP_NO_ERROR, pkt)" by auto
  from coap_parsed_packet_typed [OF this] this show ?thesis by simp
qed

end
