(* ===== verification/Channel_Security.thy ===== *)
theory Channel_Security
  imports Channel_Cose Channel_Coap Channel_Wrapper
begin

text \<open>
  The security manager's check of received messages (\<^verbatim>\<open>nexus_channel_sm.c\<close>), between the CoAP parser and the
  resource handlers, and how the CoAP engine acts on its verdict (\<^verbatim>\<open>oc/messaging/coap/engine.c\<close>).
\<close>

section \<open>Authentication\<close>

datatype nexus_channel_sm_auth_error =
    SM_AUTH_ERROR_NONE | SM_AUTH_ERROR_MAC_INVALID | SM_AUTH_ERROR_COSE_UNPARSEABLE | SM_AUTH_ERROR_PAYLOAD_SIZE_INVALID
  | SM_AUTH_ERROR_SENDER_DEVICE_NOT_LINKED | SM_AUTH_ERROR_RESOURCE_REQUIRES_SECURED_REQUEST
  | SM_AUTH_ERROR_REQUEST_RECEIVED_WITH_INVALID_NONCE | SM_AUTH_ERROR_VALID_NONCE_SYNC_RECEIVED
  | SM_AUTH_ERROR_NONCE_APPROACHING_MAX_FORCED_RESET_REQUIRED

abbreviation (input) RESET_NONCE_SIGNAL_VALUE :: u32 where "RESET_NONCE_SIGNAL_VALUE \<equiv> 0xFFFFFFFF"

text \<open>A CoAP code as a method; a response code is none.\<close>

definition oc_method_of_code :: "u8 \<Rightarrow> oc_method option" where
  "oc_method_of_code code =
     (if code = 1 then Some OC_GET else if code = 2 then Some OC_POST else if code = 3 then Some OC_PUT
      else if code = 4 then Some OC_DELETE else None)"

definition path_string :: "bytes \<Rightarrow> string" where
  "path_string = map (\<lambda>b. char_of (unat b))"

definition packet_method_is_secured :: "coap_packet \<Rightarrow> registry \<Rightarrow> bool" where
  "packet_method_is_secured pkt r =
     (case oc_method_of_code (pkt_code pkt) of None \<Rightarrow> False
      | Some m \<Rightarrow> nexus_channel_sm_requested_method_is_secured (path_string (coap_get_header_uri_path pkt)) m r)"

definition nexus_channel_sm_message_headers_secured_mode0 :: "coap_packet \<Rightarrow> bool" where
  "nexus_channel_sm_message_headers_secured_mode0 pkt \<longleftrightarrow>
     (case coap_get_header_content_format pkt of None \<Rightarrow> 0 | Some f \<Rightarrow> f) = APPLICATION_COSE_MAC0"

definition accept_nonce :: "'p channel_env \<Rightarrow> nx_id \<Rightarrow> u32 \<Rightarrow> 'p channel \<Rightarrow> 'p channel" where
  "accept_nonce e nexus_id n s =
     snd (nexus_channel_link_manager_reset_link_secs_since_active e nexus_id
       (snd (nexus_channel_link_manager_set_security_data_auth_nonce e nexus_id n s)))"

text \<open>
  What happens to a message whose tag is right, by its code, its nonce and the nonce of the link. The
  last two branches are the same in the code: the nonce is stored and the message passed on.
\<close>

definition authenticate_nonce :: "'p channel_env \<Rightarrow> nx_id \<Rightarrow> u8 \<Rightarrow> u32 \<Rightarrow> u32 \<Rightarrow> 'p channel \<Rightarrow> nexus_channel_sm_auth_error \<times> 'p channel" where
  "authenticate_nonce e nexus_id code received_nonce link_nonce s =
     (if code < CREATED_2_01 then
        if received_nonce < link_nonce + 1 then (SM_AUTH_ERROR_REQUEST_RECEIVED_WITH_INVALID_NONCE, s)
        else if received_nonce > UINT32_MAX - NONCE_NV_STORAGE_INTERVAL_COUNT
        then (SM_AUTH_ERROR_NONCE_APPROACHING_MAX_FORCED_RESET_REQUIRED, accept_nonce e nexus_id 0 s)
        else (SM_AUTH_ERROR_NONE, accept_nonce e nexus_id received_nonce s)
      else
        if received_nonce < link_nonce then (SM_AUTH_ERROR_REQUEST_RECEIVED_WITH_INVALID_NONCE, s)
        else if code = NOT_ACCEPTABLE_4_06
        then (SM_AUTH_ERROR_VALID_NONCE_SYNC_RECEIVED,
              accept_nonce e nexus_id (if received_nonce = RESET_NONCE_SIGNAL_VALUE then 0 else received_nonce) s)
        else (SM_AUTH_ERROR_NONE, accept_nonce e nexus_id received_nonce s))"

text \<open>The additional data of a message: its code and path, whose length is passed in one byte.\<close>

definition packet_aad :: "coap_packet \<Rightarrow> external_aad" where
  "packet_aad pkt = \<lparr>coap_method = pkt_code pkt, coap_uri = take (unat (word_of_nat (length (uri_path pkt)) :: u8)) (uri_path pkt)\<rparr>"

text \<open>
  The verdict, the packet (whose payload is the content of the secured message once that is verified) and
  whether the packet's payload pointer has changed.
\<close>

definition nexus_channel_authenticate_message ::
    "'p channel_env \<Rightarrow> bytes \<Rightarrow> oc_endpoint \<Rightarrow> coap_packet \<Rightarrow> 'p channel \<Rightarrow>
     nexus_channel_sm_auth_error \<times> coap_packet \<times> bool \<times> 'p channel" where
  "nexus_channel_authenticate_message e tag_memory endpoint pkt s =
     (let res_method_secured = packet_method_is_secured pkt (reg s)
      in if nexus_channel_sm_message_headers_secured_mode0 pkt then
           let nexus_id = nexus_oc_wrapper_oc_endpoint_to_nx_id endpoint
           in if length (payload_bytes pkt) > NEXUS_CHANNEL_MAX_CBOR_PAYLOAD_SIZE \<or> length (payload_bytes pkt) = 0
              then (SM_AUTH_ERROR_PAYLOAD_SIZE_INVALID, pkt, False, s)
              else (case nexus_channel_link_manager_security_data_from_nxid e nexus_id (lm s) of
                  None \<Rightarrow> (SM_AUTH_ERROR_SENDER_DEVICE_NOT_LINKED, pkt, False, s)
                | Some sd \<Rightarrow>
                    (case nexus_cose_mac0_verify_message tag_memory (sym_key sd) (packet_aad pkt) (payload_bytes pkt) of
                        Inl err \<Rightarrow>
                          (if err = NEXUS_COSE_ERROR_MAC_TAG_INVALID then SM_AUTH_ERROR_MAC_INVALID else SM_AUTH_ERROR_COSE_UNPARSEABLE,
                           pkt\<lparr>pkt_payload := Some []\<rparr>, False, s)
                      | Inr (received_nonce, unsecured_payload) \<Rightarrow>
                          let pkt = pkt\<lparr>pkt_payload := Some unsecured_payload\<rparr>;
                              (result, s) = authenticate_nonce e nexus_id (pkt_code pkt) received_nonce (nonce sd) s
                          in (result, pkt, True, s)))
         else if res_method_secured then (SM_AUTH_ERROR_RESOURCE_REQUIRES_SECURED_REQUEST, pkt, False, s)
         else (SM_AUTH_ERROR_NONE, pkt, False, s))"

section \<open>The engine's reaction\<close>

definition coap_unpack_possibly_secured_payload ::
    "'p channel_env \<Rightarrow> bytes \<Rightarrow> coap_packet \<Rightarrow> oc_endpoint \<Rightarrow> 'p channel \<Rightarrow> u8 \<times> coap_packet \<times> bool \<times> 'p channel" where
  "coap_unpack_possibly_secured_payload e tag_memory pkt endpoint s =
     (case nexus_channel_authenticate_message e tag_memory endpoint pkt s of (auth_result, pkt, changed, s) \<Rightarrow>
        let pkt = (if changed then coap_set_header_content_format APPLICATION_VND_OCF_CBOR pkt else pkt);
            status_code = (case auth_result of
                SM_AUTH_ERROR_VALID_NONCE_SYNC_RECEIVED \<Rightarrow> RESEND_PREVIOUS_REQUEST
              | SM_AUTH_ERROR_NONE \<Rightarrow> COAP_NO_ERROR
              | SM_AUTH_ERROR_NONCE_APPROACHING_MAX_FORCED_RESET_REQUIRED \<Rightarrow> REQUIRE_NONCE_SYNC_RESET
              | SM_AUTH_ERROR_REQUEST_RECEIVED_WITH_INVALID_NONCE \<Rightarrow> NOT_ACCEPTABLE_4_06
              | SM_AUTH_ERROR_SENDER_DEVICE_NOT_LINKED \<Rightarrow> UNAUTHORIZED_4_01
              | SM_AUTH_ERROR_MAC_INVALID \<Rightarrow> UNAUTHORIZED_4_01
              | SM_AUTH_ERROR_COSE_UNPARSEABLE \<Rightarrow> BAD_REQUEST_4_00
              | SM_AUTH_ERROR_PAYLOAD_SIZE_INVALID \<Rightarrow> BAD_REQUEST_4_00
              | SM_AUTH_ERROR_RESOURCE_REQUIRES_SECURED_REQUEST \<Rightarrow> FORBIDDEN_4_03)
        in (status_code, pkt, changed, s))"

section \<open>Nonces of links\<close>

definition link_nonce :: "'p channel_env \<Rightarrow> nx_id \<Rightarrow> lm_this \<Rightarrow> u32 option" where
  "link_nonce e ident m = map_option nonce (nexus_channel_link_manager_security_data_from_nxid e ident m)"

text \<open>Every link is in the one security mode there is.\<close>

definition mode0_links :: "'p channel_env \<Rightarrow> lm_this \<Rightarrow> bool" where
  "mode0_links e m \<longleftrightarrow> (\<forall>i < MAX_SIMULTANEOUS_LINKS e. security_mode (links m ! i) = LINK_SECURITY_MODE_KEY128SYM_COSE_MAC0_AUTH_SIPHASH24)"

lemma index_unchanged:
  assumes "link_idx_in_use m' = link_idx_in_use m" "\<And>i. linked_device_id (links m' ! i) = linked_device_id (links m ! i)"
  shows "nexus_channel_link_manager_link_index_from_nxid e ident m' = nexus_channel_link_manager_link_index_from_nxid e ident m"
  by (simp add: nexus_channel_link_manager_link_index_from_nxid_def assms)

lemma security_data_index:
  "nexus_channel_link_manager_security_data_from_nxid e ident m =
     map_option (\<lambda>i. security_data (links m ! i)) (nexus_channel_link_manager_link_index_from_nxid e ident m)"
  by (simp add: nexus_channel_link_manager_security_data_from_nxid_def nexus_channel_link_manager_link_from_nxid_def option.map_comp comp_def)

text \<open>Accepting a nonce changes the nonce of that link and of no other.\<close>

lemma accept_nonce_links:
  assumes inv: "lm_inv (MAX_SIMULTANEOUS_LINKS e) (lm s)" and m0: "mode0_links e (lm s)"
    and ln: "link_nonce e ident (lm s) \<noteq> None"
  shows "lm_inv (MAX_SIMULTANEOUS_LINKS e) (lm (accept_nonce e ident n s)) \<and> mode0_links e (lm (accept_nonce e ident n s)) \<and>
    link_nonce e j (lm (accept_nonce e ident n s)) = (if j = ident then Some n else link_nonce e j (lm s)) \<and>
    map_option sym_key (nexus_channel_link_manager_security_data_from_nxid e j (lm (accept_nonce e ident n s))) =
      map_option sym_key (nexus_channel_link_manager_security_data_from_nxid e j (lm s))"
proof -
  obtain i where i: "nexus_channel_link_manager_link_index_from_nxid e ident (lm s) = Some i"
    using ln by (auto simp: link_nonce_def security_data_index)
  note u = index_from_nxid_Some [OF inv i]
  let ?l = "links (lm s) ! i" and ?t = "snd (nexus_channel_link_manager_set_security_data_auth_nonce e ident n s)"
  let ?l' = "?l\<lparr>security_data := (security_data ?l)\<lparr>nonce := n\<rparr>\<rparr>"
  have len: "i < length (links (lm s))" using u(3) lm_invD(2) [OF inv] by simp
  have lt: "links (lm ?t) = (links (lm s))[i := ?l']" "link_idx_in_use (lm ?t) = link_idx_in_use (lm s)"
    using i m0 u(3) by (simp_all add: nexus_channel_link_manager_set_security_data_auth_nonce_def mode0_links_def Let_def)
  have same: "links (lm ?t) ! k = (if k = i then ?l' else links (lm s) ! k)" for k
    using len by (cases "k = i") (simp_all add: lt(1))
  have idx: "nexus_channel_link_manager_link_index_from_nxid e k (lm ?t) = nexus_channel_link_manager_link_index_from_nxid e k (lm s)" for k
    by (rule index_unchanged) (simp_all add: lt(2) same)
  let ?r = "accept_nonce e ident n s"
  have lr: "links (lm ?r) ! k = (if k = i then ?l'\<lparr>seconds_since_active := 0\<rparr> else links (lm s) ! k)" for k
    using len same by (cases "k = i") (simp_all add: accept_nonce_def nexus_channel_link_manager_reset_link_secs_since_active_def idx i lt(1))
  have ir: "link_idx_in_use (lm ?r) = link_idx_in_use (lm s)"
    by (simp add: accept_nonce_def nexus_channel_link_manager_reset_link_secs_since_active_def idx i lt(2))
  have idr: "nexus_channel_link_manager_link_index_from_nxid e k (lm ?r) = nexus_channel_link_manager_link_index_from_nxid e k (lm s)" for k
    by (rule index_unchanged) (simp_all add: ir lr)
  have "k = ident" if "nexus_channel_link_manager_link_index_from_nxid e k (lm s) = Some i" for k
    using index_from_nxid_Some(2) [OF inv that] u(2) by simp
  note other = this
  have "link_nonce e j (lm ?r) = (if j = ident then Some n else link_nonce e j (lm s)) \<and>
      map_option sym_key (nexus_channel_link_manager_security_data_from_nxid e j (lm ?r)) =
      map_option sym_key (nexus_channel_link_manager_security_data_from_nxid e j (lm s))"
  proof (cases "nexus_channel_link_manager_link_index_from_nxid e j (lm s)")
    case None
    then show ?thesis using i by (auto simp: link_nonce_def security_data_index idr)
  next
    case (Some k)
    show ?thesis
    proof (cases "j = ident")
      case True
      then have "k = i" using Some i by simp
      then show ?thesis using Some True by (simp add: link_nonce_def security_data_index idr lr)
    next
      case False
      then have "k \<noteq> i" using Some other by auto
      then show ?thesis using Some False by (simp add: link_nonce_def security_data_index idr lr)
    qed
  qed
  moreover have "lm_inv (MAX_SIMULTANEOUS_LINKS e) (lm ?r)"
    unfolding accept_nonce_def by (intro lm_inv_reset_secs lm_inv_set_nonce inv)
  moreover have "mode0_links e (lm ?r)" using m0 by (simp add: mode0_links_def lr)
  ultimately show ?thesis by blast
qed

section \<open>Replayed messages\<close>

text \<open>The secured requests of a sequence of received messages that are passed on, as sender and nonce.\<close>

definition accepted_request :: "'p channel_env \<Rightarrow> bytes \<Rightarrow> oc_endpoint \<Rightarrow> coap_packet \<Rightarrow> 'p channel \<Rightarrow> (nx_id \<times> u32) list" where
  "accepted_request e tag_memory endpoint pkt s =
     (case nexus_channel_authenticate_message e tag_memory endpoint pkt s of (result, _, secured, s') \<Rightarrow>
        if result = SM_AUTH_ERROR_NONE \<and> secured \<and> pkt_code pkt < CREATED_2_01
        then let ident = nexus_oc_wrapper_oc_endpoint_to_nx_id endpoint in [(ident, the (link_nonce e ident (lm s')))]
        else [])"

definition after_message :: "'p channel_env \<Rightarrow> bytes \<Rightarrow> oc_endpoint \<Rightarrow> coap_packet \<Rightarrow> 'p channel \<Rightarrow> 'p channel" where
  "after_message e tag_memory endpoint pkt s = snd (snd (snd (nexus_channel_authenticate_message e tag_memory endpoint pkt s)))"

fun accepted_requests :: "'p channel_env \<Rightarrow> bytes \<Rightarrow> (oc_endpoint \<times> coap_packet) list \<Rightarrow> 'p channel \<Rightarrow> (nx_id \<times> u32) list" where
  "accepted_requests e tag_memory [] s = []"
| "accepted_requests e tag_memory ((endpoint, pkt) # msgs) s =
     accepted_request e tag_memory endpoint pkt s @ accepted_requests e tag_memory msgs (after_message e tag_memory endpoint pkt s)"

abbreviation (input) MAX_NONCE :: u32 where
  "MAX_NONCE \<equiv> UINT32_MAX - NONCE_NV_STORAGE_INTERVAL_COUNT"

text \<open>
  The nonce of a message that is secured and verifies under the key of its sender's link, and that it is below the range in which nonces
  are reset, for every message in the state in which it is received.
\<close>

definition authentic_nonce :: "'p channel_env \<Rightarrow> bytes \<Rightarrow> oc_endpoint \<Rightarrow> coap_packet \<Rightarrow> 'p channel \<Rightarrow> u32 option" where
  "authentic_nonce e tag_memory endpoint pkt s =
     (if nexus_channel_sm_message_headers_secured_mode0 pkt
      then (case nexus_channel_link_manager_security_data_from_nxid e (nexus_oc_wrapper_oc_endpoint_to_nx_id endpoint) (lm s) of
          None \<Rightarrow> None
        | Some sd \<Rightarrow> (case nexus_cose_mac0_verify_message tag_memory (sym_key sd) (packet_aad pkt) (payload_bytes pkt) of
            Inl _ \<Rightarrow> None | Inr (n, _) \<Rightarrow> Some n))
      else None)"

definition nonce_in_range :: "'p channel_env \<Rightarrow> bytes \<Rightarrow> oc_endpoint \<Rightarrow> coap_packet \<Rightarrow> 'p channel \<Rightarrow> bool" where
  "nonce_in_range e tag_memory endpoint pkt s = (case authentic_nonce e tag_memory endpoint pkt s of None \<Rightarrow> True | Some n \<Rightarrow> n \<le> MAX_NONCE)"

fun nonces_in_range :: "'p channel_env \<Rightarrow> bytes \<Rightarrow> (oc_endpoint \<times> coap_packet) list \<Rightarrow> 'p channel \<Rightarrow> bool" where
  "nonces_in_range e tag_memory [] s = True"
| "nonces_in_range e tag_memory ((endpoint, pkt) # msgs) s =
     (nonce_in_range e tag_memory endpoint pkt s \<and> nonces_in_range e tag_memory msgs (after_message e tag_memory endpoint pkt s))"

definition security_inv :: "'p channel_env \<Rightarrow> 'p channel \<Rightarrow> bool" where
  "security_inv e s \<longleftrightarrow> lm_inv (MAX_SIMULTANEOUS_LINKS e) (lm s) \<and> mode0_links e (lm s) \<and>
     (\<forall>j n. link_nonce e j (lm s) = Some n \<longrightarrow> n \<le> MAX_NONCE)"

text \<open>A message leaves the links alone or stores a nonce that is not smaller.\<close>

lemma authenticate_cases:
  assumes "nexus_channel_authenticate_message e tag_memory endpoint pkt s = (result, pkt', secured, s')" "nonce_in_range e tag_memory endpoint pkt s"
    "ident = nexus_oc_wrapper_oc_endpoint_to_nx_id endpoint" "security_inv e s"
  obtains (same) "s' = s" "\<not> (result = SM_AUTH_ERROR_NONE \<and> secured)"
  | (stored) n k where "link_nonce e ident (lm s) = Some k" "k \<le> n" "n \<le> MAX_NONCE" "s' = accept_nonce e ident n s"
      "pkt_code pkt < CREATED_2_01 \<Longrightarrow> k < n"
proof -
  consider (plain) "\<not> nexus_channel_sm_message_headers_secured_mode0 pkt"
    | (size) "nexus_channel_sm_message_headers_secured_mode0 pkt"
        "length (payload_bytes pkt) > 98 \<or> length (payload_bytes pkt) = 0"
    | (unlinked) "nexus_channel_sm_message_headers_secured_mode0 pkt"
        "\<not> (length (payload_bytes pkt) > 98 \<or> length (payload_bytes pkt) = 0)"
        "nexus_channel_link_manager_security_data_from_nxid e ident (lm s) = None"
    | (invalid) sd err where "nexus_channel_sm_message_headers_secured_mode0 pkt"
        "\<not> (length (payload_bytes pkt) > 98 \<or> length (payload_bytes pkt) = 0)"
        "nexus_channel_link_manager_security_data_from_nxid e ident (lm s) = Some sd"
        "nexus_cose_mac0_verify_message tag_memory (sym_key sd) (packet_aad pkt) (payload_bytes pkt) = Inl err"
    | (valid) sd n p where "nexus_channel_sm_message_headers_secured_mode0 pkt"
        "\<not> (length (payload_bytes pkt) > 98 \<or> length (payload_bytes pkt) = 0)"
        "nexus_channel_link_manager_security_data_from_nxid e ident (lm s) = Some sd"
        "nexus_cose_mac0_verify_message tag_memory (sym_key sd) (packet_aad pkt) (payload_bytes pkt) = Inr (n, p)"
    by (metis option.exhaust sum.exhaust surj_pair)
  then show ?thesis
  proof cases
    case valid
    have l: "link_nonce e ident (lm s) = Some (nonce sd)" using valid(3) by (simp add: link_nonce_def)
    then have k: "nonce sd \<le> MAX_NONCE" using assms(4) by (auto simp: security_inv_def)
    have n: "n \<le> MAX_NONCE" using assms(2) valid by (simp add: nonce_in_range_def authentic_nonce_def assms(3))
    then have n': "n \<noteq> RESET_NONCE_SIGNAL_VALUE" "\<not> MAX_NONCE < n" by (auto simp: word_le_nat_alt word_less_nat_alt)
    have a: "authenticate_nonce e ident (pkt_code pkt) n (nonce sd) s = (result, s')"
      using assms(1) valid by (auto simp: nexus_channel_authenticate_message_def assms(3) Let_def split: prod.splits)
    have "unat (nonce sd + 1) = unat (nonce sd) + 1" using k by (simp add: unat_plus_if' word_le_nat_alt)
    then have "\<not> n < nonce sd + 1 \<longleftrightarrow> nonce sd < n" by (auto simp: word_less_nat_alt)
    then show ?thesis
      using a n n' l that(1) that(2) [of "nonce sd" n] unfolding authenticate_nonce_def
      by (auto split: if_splits)
  qed (use assms(1) that(1) in \<open>auto simp: nexus_channel_authenticate_message_def assms(3) Let_def split: if_splits\<close>)
qed

lemma after_message_step:
  assumes inv: "security_inv e s" and r: "nonce_in_range e tag_memory endpoint pkt s"
  shows "security_inv e (after_message e tag_memory endpoint pkt s)"
    "link_nonce e j (lm (after_message e tag_memory endpoint pkt s)) = Some n' \<Longrightarrow> \<exists>k. link_nonce e j (lm s) = Some k \<and> k \<le> n'"
    "(j, n) \<in> set (accepted_request e tag_memory endpoint pkt s) \<Longrightarrow>
      link_nonce e j (lm (after_message e tag_memory endpoint pkt s)) = Some n \<and> (\<exists>k. link_nonce e j (lm s) = Some k \<and> k < n)"
proof -
  define ident where "ident = nexus_oc_wrapper_oc_endpoint_to_nx_id endpoint"
  obtain result pkt' secured s' where a: "nexus_channel_authenticate_message e tag_memory endpoint pkt s = (result, pkt', secured, s')"
    by (metis prod_cases4)
  have i: "lm_inv (MAX_SIMULTANEOUS_LINKS e) (lm s)" "mode0_links e (lm s)" using inv by (simp_all add: security_inv_def)
  have "security_inv e s' \<and> (\<forall>j n'. link_nonce e j (lm s') = Some n' \<longrightarrow> (\<exists>k. link_nonce e j (lm s) = Some k \<and> k \<le> n')) \<and>
      (result = SM_AUTH_ERROR_NONE \<and> secured \<and> pkt_code pkt < CREATED_2_01 \<longrightarrow>
        (\<exists>k n. link_nonce e ident (lm s) = Some k \<and> link_nonce e ident (lm s') = Some n \<and> k < n))"
    using a r ident_def inv
  proof (cases rule: authenticate_cases)
    case same
    then show ?thesis using inv by auto
  next
    case (stored n k)
    have "link_nonce e ident (lm s) \<noteq> None" using stored(1) by simp
    note l = accept_nonce_links [OF i this, of n, folded stored(4)]
    have "security_inv e s'" using inv l stored(3) by (auto simp: security_inv_def split: if_splits)
    then show ?thesis using l stored(1,2,5) by (auto split: if_splits)
  qed
  then show "security_inv e (after_message e tag_memory endpoint pkt s)"
    "link_nonce e j (lm (after_message e tag_memory endpoint pkt s)) = Some n' \<Longrightarrow> \<exists>k. link_nonce e j (lm s) = Some k \<and> k \<le> n'"
    "(j, n) \<in> set (accepted_request e tag_memory endpoint pkt s) \<Longrightarrow>
      link_nonce e j (lm (after_message e tag_memory endpoint pkt s)) = Some n \<and> (\<exists>k. link_nonce e j (lm s) = Some k \<and> k < n)"
    by (auto simp: after_message_def accepted_request_def a Let_def ident_def split: if_splits)
qed

lemma accepted_requests_above:
  assumes "security_inv e s" "nonces_in_range e tag_memory msgs s" "(j, n) \<in> set (accepted_requests e tag_memory msgs s)"
  shows "\<exists>k. link_nonce e j (lm s) = Some k \<and> k < n"
  using assms
proof (induction e tag_memory msgs s rule: accepted_requests.induct)
  case (2 e tag_memory endpoint pkt msgs s)
  have r: "nonce_in_range e tag_memory endpoint pkt s" using 2(3) by simp
  note st = after_message_step [OF 2(2) r]
  consider "(j, n) \<in> set (accepted_request e tag_memory endpoint pkt s)"
    | "(j, n) \<in> set (accepted_requests e tag_memory msgs (after_message e tag_memory endpoint pkt s))"
    using 2(4) by auto
  then show ?case
  proof cases
    case 1 then show ?thesis using st(3) by blast
  next
    case b: 2
    obtain k' where k': "link_nonce e j (lm (after_message e tag_memory endpoint pkt s)) = Some k'" "k' < n"
      using "2.IH" [OF st(1) _ b] 2(3) by auto
    then show ?thesis using st(2) [OF k'(1)] by (meson order.strict_trans1)
  qed
qed simp

text \<open>C3. A secured request is not accepted twice before nonces are reset: start from stored nonces of at most \<open>2\<^sup>32 - 65\<close> and take any
  sequence of received messages, forged, reordered or repeated, in which no authentic message carries a nonce above that limit. Then the
  nonces of the secured requests accepted from a device strictly increase, starting above the nonce stored for its link. (An authentic
  request above the limit resets the nonce to 0, after which recorded requests are accepted again: lemma \<open>reset_allows_replay\<close>.)\<close>

theorem accepted_nonces_increase:
  assumes "security_inv e s" "nonces_in_range e tag_memory msgs s"
  shows "sorted_wrt (<) (the (link_nonce e j (lm s)) # map snd (filter (\<lambda>(i, n). i = j) (accepted_requests e tag_memory msgs s)))"
  using assms
proof (induction e tag_memory msgs s rule: accepted_requests.induct)
  case (2 e tag_memory endpoint pkt msgs s)
  let ?s = "after_message e tag_memory endpoint pkt s"
  have r: "nonce_in_range e tag_memory endpoint pkt s" and rs: "nonces_in_range e tag_memory msgs ?s" using 2(3) by auto
  note st = after_message_step [OF 2(2) r]
  let ?acc = "\<lambda>xs. map snd (filter (\<lambda>(i, n). i = j) xs)"
  note IH = "2.IH" [OF st(1) rs]
  have above: "the (link_nonce e j (lm s)) < n" if "n \<in> set (?acc (accepted_requests e tag_memory ((endpoint, pkt) # msgs) s))" for n
    using accepted_requests_above [OF 2(2,3), of j n] that by auto
  have "?acc (accepted_request e tag_memory endpoint pkt s) = [] \<or>
      ?acc (accepted_request e tag_memory endpoint pkt s) = [the (link_nonce e j (lm ?s))]"
    by (auto simp: accepted_request_def after_message_def Let_def split: prod.splits)
  with IH above show ?case by auto
qed simp

text \<open>A device with one link, and a request signed with its key.\<close>

definition peer :: nx_id where "peer = \<lparr>authority_id = 0x0102, device_id = 0x94837158\<rparr>"

definition secured_device :: "product channel" where
  "secured_device = (channel_zero blank_channel_env blank_product)\<lparr>lm := lm_put 0
     (zero_link\<lparr>linked_device_id := peer, security_data := \<lparr>sym_key = replicate 16 5, nonce = 40\<rparr>\<rparr>) (lm_zero 8)\<rparr>"

definition signed_request :: "u32 \<Rightarrow> coap_packet" where
  "signed_request n =
     (let pkt = coap_set_header_content_format APPLICATION_COSE_MAC0 (coap_set_header_uri_path [0x6E, 0x78, 0x2F, 0x70, 0x63]
            (coap_set_token [7] (coap_udp_init_message COAP_TYPE_NON 2 300)))
      in coap_set_payload (Some (nexus_oc_wrapper_repack_buffer_secured 98
            \<lparr>mp_key = replicate 16 5, nonce_to_protect = n, mp_aad = packet_aad pkt, mp_payload = [1, 2]\<rparr>)) pkt)"

lemma secured_device_link:
  "link_nonce blank_channel_env j (lm secured_device) = (if j = peer then Some 40 else None)"
  "security_inv blank_channel_env secured_device"
proof -
  have u: "used (lm secured_device) = {0}"
    by (auto simp: secured_device_def used_def lm_put_def lm_zero_def nth_list_update split: if_splits)
  have "lm_inv 8 (lm secured_device)"
    unfolding lm_inv_def u by (auto simp: secured_device_def lm_put_def lm_zero_def zero_link_def nth_list_update)
  moreover have "mode0_links blank_channel_env (lm secured_device)"
    by (simp add: mode0_links_def secured_device_def lm_put_def lm_zero_def zero_link_def nth_list_update)
  moreover show l: "link_nonce blank_channel_env j (lm secured_device) = (if j = peer then Some 40 else None)" for j
    by (auto simp: link_nonce_def security_data_index nexus_channel_link_manager_link_index_from_nxid_def secured_device_def
        lm_put_def lm_zero_def upt_rec peer_def)
  ultimately show "security_inv blank_channel_env secured_device" by (simp add: security_inv_def)
qed

lemma verified_nonce:
  "nexus_cose_mac0_verify_message tag_memory k aad data = Inr (n, p) \<Longrightarrow>
   \<exists>ex. verify_deserialize_protected_message tag_memory data = Inr ex \<and> ex_nonce ex = n"
  by (auto simp: nexus_cose_mac0_verify_message_def split: sum.splits if_splits)

lemma signed_request_payload:
  obtains tag where "payload_bytes (signed_request n) = message_bytes n [1, 2] tag" "length tag = 8"
    "nexus_cose_mac0_verify_message (replicate 8 0) (replicate 16 5) (packet_aad (signed_request n)) (message_bytes n [1, 2] tag) = Inr (n, [1, 2])"
    "length (message_bytes n [1, 2] tag) \<le> 98"
proof -
  define pkt where "pkt = coap_set_header_content_format APPLICATION_COSE_MAC0 (coap_set_header_uri_path [0x6E, 0x78, 0x2F, 0x70, 0x63]
    (coap_set_token [7] (coap_udp_init_message COAP_TYPE_NON 2 300)))"
  define mp where "mp = \<lparr>mp_key = replicate 16 5, nonce_to_protect = n, mp_aad = packet_aad pkt, mp_payload = [1 :: u8, 2]\<rparr>"
  have "uri_path pkt = [0x6E, 0x78, 0x2F, 0x70, 0x63]"
    by (simp add: pkt_def coap_set_header_content_format_def coap_set_header_uri_path_def set_bit_option_def)
  then have a: "length (coap_uri (mp_aad mp)) \<le> 11" by (simp add: mp_def packet_aad_def)
  define tag where "tag = nexus_check_compute (mp_key mp) (mac_structure_bytes mp) (word_of_nat (length (mac_structure_bytes mp)))"
  have s: "nexus_cose_mac0_sign_encode_message mp 98 = Inr (message_bytes n [1, 2] tag)"
    using sign_encode_message_eq [OF a, of 98] by (simp add: mp_def tag_def)
  have l: "length (message_bytes n [1, 2] tag) \<le> 98"
      "nexus_cose_mac0_verify_message (replicate 8 0) (replicate 16 5) (packet_aad pkt) (message_bytes n [1, 2] tag) = Inr (n, [1, 2])"
    using sign_then_verify [OF a, of 98 "replicate 8 0"] s by (simp_all add: mp_def)
  have "payload_bytes (signed_request n) = message_bytes n [1, 2] tag"
    using s l by (simp add: signed_request_def pkt_def [symmetric] mp_def [symmetric] coap_set_payload_def payload_bytes_def nexus_oc_wrapper_repack_buffer_secured_def)
  moreover have "packet_aad (signed_request n) = packet_aad pkt"
    by (simp add: signed_request_def pkt_def [symmetric] coap_set_payload_def packet_aad_def)
  ultimately show ?thesis using that [of tag] l by (simp add: tag_def)
qed

lemma signed_request_in_range: "n \<le> MAX_NONCE \<Longrightarrow> nonce_in_range e (replicate 8 0) endpoint (signed_request n) s"
proof -
  assume n: "n \<le> MAX_NONCE"
  obtain tag where "payload_bytes (signed_request n) = message_bytes n [1, 2] tag" "length tag = 8" by (rule signed_request_payload)
  then show ?thesis
    using n verify_message_bytes [of "[1, 2]" tag "replicate 8 0" n] unfolding nonce_in_range_def authentic_nonce_def
    by (auto split: option.splits sum.splits dest!: verified_nonce)
qed

theorem accepted_nonces_increase_witness:
  "sorted_wrt (<) (the (link_nonce blank_channel_env peer (lm secured_device)) # map snd (filter (\<lambda>(i, n). i = peer)
     (accepted_requests blank_channel_env (replicate 8 0)
       [(nexus_oc_wrapper_nx_id_to_oc_endpoint peer, signed_request 41), (nexus_oc_wrapper_nx_id_to_oc_endpoint peer, signed_request 41)] secured_device)))"
  by (rule accepted_nonces_increase) (simp_all add: secured_device_link(2) signed_request_in_range)

text \<open>Where nonces come to their end. An authentic request near the limit resets the stored nonce, and what was accepted before is accepted again.\<close>

lemma signed_request_judged:
  assumes "nexus_channel_link_manager_security_data_from_nxid e peer (lm s) = Some sd" "sym_key sd = replicate 16 5"
  shows "\<exists>pkt'. nexus_channel_authenticate_message e (replicate 8 0) (nexus_oc_wrapper_nx_id_to_oc_endpoint peer) (signed_request n) s =
    (let (result, s') = authenticate_nonce e peer 2 n (nonce sd) s in (result, pkt', True, s'))"
proof -
  obtain tag where p: "payload_bytes (signed_request n) = message_bytes n [1, 2] tag"
      "nexus_cose_mac0_verify_message (replicate 8 0) (replicate 16 5) (packet_aad (signed_request n)) (message_bytes n [1, 2] tag) = Inr (n, [1, 2])"
      "length (message_bytes n [1, 2] tag) \<le> 98"
    using signed_request_payload [of n] by metis
  have f: "nexus_channel_sm_message_headers_secured_mode0 (signed_request n)" "pkt_code (signed_request n) = 2"
    by (simp_all add: signed_request_def Let_def coap_set_payload_def coap_set_header_content_format_def coap_set_header_uri_path_def set_bit_option_def
        coap_set_token_def coap_udp_init_message_def zero_packet_def nexus_channel_sm_message_headers_secured_mode0_def
        coap_get_header_content_format_def IS_OPTION_def)
  have i: "nexus_oc_wrapper_oc_endpoint_to_nx_id (nexus_oc_wrapper_nx_id_to_oc_endpoint peer) = peer" unfolding peer_def by code_simp
  show ?thesis
    using p f assms by (intro exI [of _ "(signed_request n)\<lparr>pkt_payload := Some [1, 2]\<rparr>"])
      (simp add: nexus_channel_authenticate_message_def i message_bytes_def Let_def)
qed

lemma reset_allows_replay:
  "let msg = \<lambda>n. (nexus_oc_wrapper_nx_id_to_oc_endpoint peer, signed_request n)
   in accepted_requests blank_channel_env (replicate 8 0) [msg 41, msg 0xFFFFFFF0, msg 41] secured_device = [(peer, 41), (peer, 41)]"
proof -
  let ?e = blank_channel_env and ?ep = "nexus_oc_wrapper_nx_id_to_oc_endpoint peer" and ?m = "replicate 8 (0 :: u8)"
  define s1 where "s1 = accept_nonce ?e peer 41 secured_device"
  define s2 where "s2 = accept_nonce ?e peer 0 s1"
  define s3 where "s3 = accept_nonce ?e peer 41 s2"
  have i: "nexus_oc_wrapper_oc_endpoint_to_nx_id ?ep = peer" unfolding peer_def by code_simp
  have step: "lm_inv 8 (lm (accept_nonce ?e peer n s)) \<and> mode0_links ?e (lm (accept_nonce ?e peer n s)) \<and>
      nexus_channel_link_manager_security_data_from_nxid ?e peer (lm (accept_nonce ?e peer n s)) = Some \<lparr>sym_key = replicate 16 5, nonce = n\<rparr>"
    if "lm_inv 8 (lm s)" "mode0_links ?e (lm s)"
      "nexus_channel_link_manager_security_data_from_nxid ?e peer (lm s) = Some \<lparr>sym_key = replicate 16 5, nonce = k\<rparr>" for s n k
    using accept_nonce_links [of ?e s peer n peer] that by (auto simp: link_nonce_def blank_channel_env_def sample_channel_env_def)
  have z: "lm_inv 8 (lm secured_device)" "mode0_links ?e (lm secured_device)"
      "nexus_channel_link_manager_security_data_from_nxid ?e peer (lm secured_device) = Some \<lparr>sym_key = replicate 16 5, nonce = 40\<rparr>"
    using secured_device_link(2) by (simp_all add: security_inv_def)
      (simp_all add: secured_device_def security_data_index nexus_channel_link_manager_link_index_from_nxid_def lm_put_def lm_zero_def upt_rec peer_def)
  note d1 = step [OF z, of 41, folded s1_def]
  have d2: "lm_inv 8 (lm s2) \<and> mode0_links ?e (lm s2) \<and>
      nexus_channel_link_manager_security_data_from_nxid ?e peer (lm s2) = Some \<lparr>sym_key = replicate 16 5, nonce = 0\<rparr>"
    using step [of s1 41 0] d1 by (simp add: s2_def)
  have d3: "nexus_channel_link_manager_security_data_from_nxid ?e peer (lm s3) = Some \<lparr>sym_key = replicate 16 5, nonce = 41\<rparr>"
    using step [of s2 0 41] d2 by (simp add: s3_def)
  obtain p1 p2 p3 where "nexus_channel_authenticate_message ?e ?m ?ep (signed_request 41) secured_device = (SM_AUTH_ERROR_NONE, p1, True, s1)"
      "nexus_channel_authenticate_message ?e ?m ?ep (signed_request 0xFFFFFFF0) s1 = (SM_AUTH_ERROR_NONCE_APPROACHING_MAX_FORCED_RESET_REQUIRED, p2, True, s2)"
      "nexus_channel_authenticate_message ?e ?m ?ep (signed_request 41) s2 = (SM_AUTH_ERROR_NONE, p3, True, s3)"
    using signed_request_judged [OF z(3), of 41] signed_request_judged [of ?e s1 _ "0xFFFFFFF0"] signed_request_judged [of ?e s2 _ 41] d1 d2
    by (auto simp: authenticate_nonce_def s1_def s2_def s3_def)
  moreover have "pkt_code (signed_request 41) = 2"
    by (simp add: signed_request_def Let_def coap_set_payload_def coap_set_header_content_format_def coap_set_header_uri_path_def set_bit_option_def
        coap_set_token_def coap_udp_init_message_def)
  ultimately show ?thesis using d1 d3 by (simp add: accepted_request_def after_message_def i link_nonce_def Let_def)
qed

text \<open>An authentic response may store the largest nonce; every request nonce below the limit is accepted after it.\<close>

lemma response_opens_link:
  assumes "lm_inv (MAX_SIMULTANEOUS_LINKS e) (lm s)" "mode0_links e (lm s)" "link_nonce e ident (lm s) = Some k"
    "CREATED_2_01 \<le> code" "code \<noteq> NOT_ACCEPTABLE_4_06"
  shows "\<exists>s'. authenticate_nonce e ident code UINT32_MAX k s = (SM_AUTH_ERROR_NONE, s') \<and> link_nonce e ident (lm s') = Some UINT32_MAX \<and>
    authenticate_nonce e ident 2 n UINT32_MAX s' = (if n \<le> MAX_NONCE then (SM_AUTH_ERROR_NONE, accept_nonce e ident n s')
      else (SM_AUTH_ERROR_NONCE_APPROACHING_MAX_FORCED_RESET_REQUIRED, accept_nonce e ident 0 s'))"
proof -
  have "link_nonce e ident (lm (accept_nonce e ident UINT32_MAX s)) = Some UINT32_MAX"
    using accept_nonce_links [OF assms(1,2), of ident UINT32_MAX ident] assms(3) by simp
  moreover have "\<not> UINT32_MAX < k" using unat_u32_less [of k] by (simp add: word_less_nat_alt)
  moreover have "\<not> n < UINT32_MAX + 1" by (simp add: word_less_nat_alt)
  ultimately show ?thesis using assms(4,5) by (auto simp: authenticate_nonce_def not_less)
qed

text \<open>C4. A secured method is only served to a linked device that proves itself: when a request to a method registered
  as secured is passed on, the sender has a link, the message verifies under that link's key for this very
  method and path, what is passed on is the verified payload, and the nonce is at most \<open>2\<^sup>32 - 65\<close> and above the link's, unless the link's is
  the largest of 32 bits, which a response can store: the code adds 1 to it in 32 bits, and any nonce is taken then
  (lemma \<open>response_opens_link\<close>).\<close>

theorem secured_method_authenticated:
  assumes "nexus_channel_authenticate_message e tag_memory endpoint pkt s = (SM_AUTH_ERROR_NONE, pkt', secured, s')"
    and "packet_method_is_secured pkt (reg s)"
  shows "\<exists>sd n. nexus_channel_link_manager_security_data_from_nxid e (nexus_oc_wrapper_oc_endpoint_to_nx_id endpoint) (lm s) = Some sd \<and>
    nexus_cose_mac0_verify_message tag_memory (sym_key sd) (packet_aad pkt) (payload_bytes pkt) = Inr (n, payload_bytes pkt') \<and>
    secured \<and> (nonce sd < n \<or> nonce sd = UINT32_MAX) \<and> n \<le> MAX_NONCE"
proof -
  have c: "pkt_code pkt < CREATED_2_01"
    using assms(2) by (auto simp: packet_method_is_secured_def oc_method_of_code_def split: option.splits if_splits)
  have "k < n \<or> k = UINT32_MAX" if "k + 1 \<le> n" for k n :: u32
    using that unat_add_1 [of k] unat_u32_less [of k] by (cases "k = UINT32_MAX") (auto simp: word_less_nat_alt word_le_nat_alt unat_plus_if' word_unat_eq_iff split: if_splits)
  note above = this
  show ?thesis
    using assms c unfolding nexus_channel_authenticate_message_def authenticate_nonce_def payload_bytes_def
    by (auto simp: Let_def not_less above split: if_splits option.splits sum.splits prod.splits)
qed

definition serving_device :: "product channel" where
  "serving_device = secured_device\<lparr>reg := \<lparr>res_pool = [\<lparr>res_uri = ''/nx/pc'', res_interfaces = 34, res_default_interface = 32, get_handler = Some PAYG_CREDIT_GET, post_handler = Some PAYG_CREDIT_POST\<rparr>],
     app_resources = [0], sec_res_methods = [(0, OC_POST)]\<rparr>\<rparr>"

theorem secured_method_authenticated_witness:
  "\<exists>sd n pkt'. nexus_channel_link_manager_security_data_from_nxid blank_channel_env peer (lm serving_device) = Some sd \<and>
    nexus_cose_mac0_verify_message (replicate 8 0) (sym_key sd) (packet_aad (signed_request 41)) (payload_bytes (signed_request 41)) = Inr (n, payload_bytes pkt') \<and>
    (nonce sd < n \<or> nonce sd = UINT32_MAX) \<and> n \<le> MAX_NONCE"
proof -
  let ?ep = "nexus_oc_wrapper_nx_id_to_oc_endpoint peer" and ?pkt = "signed_request 41"
  have id: "nexus_oc_wrapper_oc_endpoint_to_nx_id ?ep = peer" unfolding peer_def by code_simp
  obtain tag where p: "payload_bytes ?pkt = message_bytes 41 [1, 2] tag"
      "nexus_cose_mac0_verify_message (replicate 8 0) (replicate 16 5) (packet_aad ?pkt) (message_bytes 41 [1, 2] tag) = Inr (41, [1, 2])"
      "length (message_bytes 41 [1, 2] tag) \<le> 98"
    using signed_request_payload [of 41] by metis
  have f: "nexus_channel_sm_message_headers_secured_mode0 ?pkt" "pkt_code ?pkt = 2" "coap_get_header_uri_path ?pkt = [0x6E, 0x78, 0x2F, 0x70, 0x63]"
    by (simp_all add: signed_request_def Let_def coap_set_payload_def coap_set_header_content_format_def coap_set_header_uri_path_def set_bit_option_def
        coap_set_token_def coap_udp_init_message_def zero_packet_def nexus_channel_sm_message_headers_secured_mode0_def
        coap_get_header_content_format_def coap_get_header_uri_path_def IS_OPTION_def)
  have m: "packet_method_is_secured ?pkt (reg serving_device)"
    unfolding packet_method_is_secured_def f serving_device_def by code_simp
  have sd: "nexus_channel_link_manager_security_data_from_nxid blank_channel_env peer (lm serving_device) = Some \<lparr>sym_key = replicate 16 5, nonce = 40\<rparr>"
    by (simp add: serving_device_def secured_device_def security_data_index nexus_channel_link_manager_link_index_from_nxid_def
        lm_put_def lm_zero_def upt_rec peer_def)
  have "fst (nexus_channel_authenticate_message blank_channel_env (replicate 8 0) ?ep ?pkt serving_device) = SM_AUTH_ERROR_NONE"
    using p f sd by (simp add: nexus_channel_authenticate_message_def id authenticate_nonce_def message_bytes_def Let_def)
  then obtain pkt' secured s' where a: "nexus_channel_authenticate_message blank_channel_env (replicate 8 0) ?ep ?pkt serving_device = (SM_AUTH_ERROR_NONE, pkt', secured, s')"
    by (metis prod.collapse)
  from secured_method_authenticated [OF a m] show ?thesis unfolding id by blast
qed

end
