(* ===== verification/Channel_Oc_List.thy ===== *)
theory Channel_Oc_List
  imports Nexus_Prelude
begin

text \<open>
  The linked lists of \<^verbatim>\<open>utils/oc_list.c\<close>. A list is a pointer to its first item, and an item starts with
  the pointer to the next one; items are referred to by numbers and \<open>next_item\<close> is the memory of these
  pointers, shared by all lists. Loops over a list need not end when it is circular: they are
  \<open>None\<close> then.
\<close>

section \<open>Operations\<close>

record oc_list_heap =
  list_head :: "nat option"
  next_item :: "nat \<Rightarrow> nat option"

definition oc_list_init :: "oc_list_heap \<Rightarrow> oc_list_heap" where
  "oc_list_init h = h\<lparr>list_head := None\<rparr>"

definition oc_list_copy :: "oc_list_heap \<Rightarrow> oc_list_heap \<Rightarrow> oc_list_heap" where
  "oc_list_copy dest src = dest\<lparr>list_head := list_head src\<rparr>"

partial_function (option) list_tail_loop :: "(nat \<Rightarrow> nat option) \<Rightarrow> nat \<Rightarrow> nat option" where
  "list_tail_loop nxt l = (case nxt l of None \<Rightarrow> Some l | Some l' \<Rightarrow> list_tail_loop nxt l')"

text \<open>\<open>Some None\<close> is the null pointer.\<close>

definition oc_list_tail :: "oc_list_heap \<Rightarrow> nat option option" where
  "oc_list_tail h = (case list_head h of None \<Rightarrow> Some None | Some l \<Rightarrow> map_option Some (list_tail_loop (next_item h) l))"

definition set_next :: "nat \<Rightarrow> nat option \<Rightarrow> oc_list_heap \<Rightarrow> oc_list_heap" where
  "set_next item p h = h\<lparr>next_item := (next_item h)(item := p)\<rparr>"

definition oc_list_add :: "nat \<Rightarrow> oc_list_heap \<Rightarrow> oc_list_heap option" where
  "oc_list_add item h =
     (let h = set_next item None h
      in case oc_list_tail h of None \<Rightarrow> None
         | Some None \<Rightarrow> Some (h\<lparr>list_head := Some item\<rparr>)
         | Some (Some l) \<Rightarrow> Some (set_next l (Some item) h))"

text \<open>A pointer to a pointer: the head of the list, or the next pointer of an item.\<close>

definition slot :: "nat option \<Rightarrow> oc_list_heap \<Rightarrow> nat option" where
  "slot l h = (case l of None \<Rightarrow> list_head h | Some i \<Rightarrow> next_item h i)"

definition set_slot :: "nat option \<Rightarrow> nat option \<Rightarrow> oc_list_heap \<Rightarrow> oc_list_heap" where
  "set_slot l p h = (case l of None \<Rightarrow> h\<lparr>list_head := p\<rparr> | Some i \<Rightarrow> set_next i p h)"

partial_function (option) list_remove_loop :: "nat \<Rightarrow> nat option \<Rightarrow> oc_list_heap \<Rightarrow> oc_list_heap option" where
  "list_remove_loop item l h =
     (case slot l h of None \<Rightarrow> Some h
      | Some c \<Rightarrow> if c = item then Some (set_slot l (next_item h c) h) else list_remove_loop item (Some c) h)"

definition oc_list_remove :: "nat \<Rightarrow> oc_list_heap \<Rightarrow> oc_list_heap option" where
  "oc_list_remove item = list_remove_loop item None"

definition oc_list_push :: "nat \<Rightarrow> oc_list_heap \<Rightarrow> oc_list_heap option" where
  "oc_list_push item h =
     map_option (\<lambda>h. (set_next item (list_head h) h)\<lparr>list_head := Some item\<rparr>) (oc_list_remove item h)"

text \<open>The loop reads two items ahead.\<close>

partial_function (option) list_chop_loop :: "(nat \<Rightarrow> nat option) \<Rightarrow> nat \<Rightarrow> nat option" where
  "list_chop_loop nxt l =
     (case nxt l of None \<Rightarrow> Some l
      | Some l' \<Rightarrow> (case nxt l' of None \<Rightarrow> Some l | Some _ \<Rightarrow> list_chop_loop nxt l'))"

definition oc_list_chop :: "oc_list_heap \<Rightarrow> (nat option \<times> oc_list_heap) option" where
  "oc_list_chop h =
     (case list_head h of None \<Rightarrow> Some (None, h)
      | Some f \<Rightarrow>
          (case next_item h f of None \<Rightarrow> Some (Some f, h\<lparr>list_head := None\<rparr>)
           | Some _ \<Rightarrow> map_option (\<lambda>l. (next_item h l, set_next l None h)) (list_chop_loop (next_item h) f)))"

definition oc_list_pop :: "oc_list_heap \<Rightarrow> nat option \<times> oc_list_heap" where
  "oc_list_pop h =
     (case list_head h of None \<Rightarrow> (None, h) | Some l \<Rightarrow> (Some l, h\<lparr>list_head := next_item h l\<rparr>))"

partial_function (option) list_length_loop :: "(nat \<Rightarrow> nat option) \<Rightarrow> nat option \<Rightarrow> nat \<Rightarrow> nat option" where
  "list_length_loop nxt l n = (case l of None \<Rightarrow> Some n | Some i \<Rightarrow> list_length_loop nxt (nxt i) (n + 1))"

text \<open>The code counts in an \<^verbatim>\<open>int\<close>; no list comes near its range, since items are blocks of the fixed pools.\<close>

definition oc_list_length :: "oc_list_heap \<Rightarrow> nat option" where
  "oc_list_length h = list_length_loop (next_item h) (list_head h) 0"

definition oc_list_insert :: "nat option \<Rightarrow> nat \<Rightarrow> oc_list_heap \<Rightarrow> oc_list_heap option" where
  "oc_list_insert previtem newitem h =
     (case previtem of None \<Rightarrow> oc_list_push newitem h
      | Some q \<Rightarrow> Some (set_next q (Some newitem) (set_next newitem (next_item h q) h)))"

definition oc_list_item_next :: "nat option \<Rightarrow> oc_list_heap \<Rightarrow> nat option" where
  "oc_list_item_next item h = (case item of None \<Rightarrow> None | Some i \<Rightarrow> next_item h i)"

section \<open>Lists as sequences\<close>

text \<open>The items met on the way from one pointer to another, and the sequence a well-formed list stands for.\<close>

primrec seg :: "(nat \<Rightarrow> nat option) \<Rightarrow> nat option \<Rightarrow> nat list \<Rightarrow> nat option \<Rightarrow> bool" where
  "seg nxt p [] q \<longleftrightarrow> p = q"
| "seg nxt p (x # xs) q \<longleftrightarrow> p = Some x \<and> seg nxt (nxt x) xs q"

definition represents :: "oc_list_heap \<Rightarrow> nat list \<Rightarrow> bool" where
  "represents h xs \<longleftrightarrow> distinct xs \<and> seg (next_item h) (list_head h) xs None"

lemma seg_append [simp]: "seg nxt p (xs @ ys) q \<longleftrightarrow> (\<exists>r. seg nxt p xs r \<and> seg nxt r ys q)"
  by (induction xs arbitrary: p) auto

lemma seg_update [simp]: "i \<notin> set xs \<Longrightarrow> seg (nxt(i := v)) p xs q = seg nxt p xs q"
  by (induction xs arbitrary: p) auto

lemma set_next_simps [simp]: "list_head (set_next i p h) = list_head h" "next_item (set_next i p h) = (next_item h)(i := p)"
  by (simp_all add: set_next_def)

lemma tail_loop_seg: "seg nxt (Some l) (xs @ [z]) None \<Longrightarrow> list_tail_loop nxt l = Some z"
proof (induction xs arbitrary: l)
  case Nil then show ?case by (simp add: list_tail_loop.simps)
next
  case (Cons a xs)
  then obtain b where "nxt a = Some b" "l = a" by (cases xs) auto
  then show ?case using Cons by (simp add: list_tail_loop.simps [of nxt a])
qed

lemma tail_represents: "represents h xs \<Longrightarrow> oc_list_tail h = Some (if xs = [] then None else Some (last xs))"
proof (cases xs rule: rev_cases)
  case (snoc ys y)
  assume r: "represents h xs"
  then obtain a where a: "list_head h = Some a" using snoc by (cases ys) (auto simp: represents_def)
  show ?thesis using tail_loop_seg [of "next_item h" a ys y] r a snoc by (simp add: oc_list_tail_def represents_def)
qed (simp add: represents_def oc_list_tail_def)

lemma add_represents: "represents h xs \<Longrightarrow> item \<notin> set xs \<Longrightarrow> \<exists>h'. oc_list_add item h = Some h' \<and> represents h' (xs @ [item])"
proof -
  assume r: "represents h xs" and i: "item \<notin> set xs"
  let ?h = "set_next item None h"
  have r': "represents ?h xs" using r i by (simp add: represents_def)
  show ?thesis
  proof (cases xs rule: rev_cases)
    case Nil
    then show ?thesis using tail_represents [OF r'] by (simp add: oc_list_add_def represents_def)
  next
    case (snoc ys y)
    then show ?thesis using tail_represents [OF r'] r' i by (auto simp: oc_list_add_def represents_def)
  qed
qed

lemma remove_loop_seg:
  assumes "slot l h = p" "seg (next_item h) p xs None" "distinct xs" "\<forall>k. l = Some k \<longrightarrow> k \<notin> set xs"
  shows "\<exists>h'. list_remove_loop item l h = Some h' \<and> (\<forall>i. i \<notin> set xs \<longrightarrow> l \<noteq> Some i \<longrightarrow> next_item h' i = next_item h i) \<and>
    (l \<noteq> None \<longrightarrow> list_head h' = list_head h) \<and> seg (next_item h') (slot l h') (remove1 item xs) None"
  using assms
proof (induction xs arbitrary: l p)
  case Nil
  then show ?case by (simp add: list_remove_loop.simps)
next
  case (Cons x xs)
  show ?case
  proof (cases "x = item")
    case True
    have "list_remove_loop item l h = Some (set_slot l (next_item h x) h)"
      using Cons(2,3) True by (subst list_remove_loop.simps) simp
    then show ?thesis using Cons(2-) True by (cases l) (auto simp: set_slot_def slot_def)
  next
    case False
    have s: "slot (Some x) h = next_item h x" "seg (next_item h) (next_item h x) xs None" "distinct xs" "x \<notin> set xs"
      using Cons(3,4) by (simp_all add: slot_def)
    obtain h' where h': "list_remove_loop item (Some x) h = Some h'" "\<forall>i. i \<notin> set xs \<longrightarrow> x \<noteq> i \<longrightarrow> next_item h' i = next_item h i"
        "list_head h' = list_head h" "seg (next_item h') (next_item h' x) (remove1 item xs) None"
      using Cons(1) [OF s(1) s(2) s(3)] s(4) by (auto simp: slot_def)
    have "slot l h' = Some x" using Cons(2,3,5) h'(2,3) by (cases l) (auto simp: slot_def)
    moreover have "list_remove_loop item l h = Some h'" using Cons(2,3) False h'(1) by (subst list_remove_loop.simps) simp
    ultimately show ?thesis using h' False by auto
  qed
qed

lemma remove_represents:
  "represents h xs \<Longrightarrow> \<exists>h'. oc_list_remove item h = Some h' \<and> represents h' (remove1 item xs)"
  using remove_loop_seg [of None h "list_head h" xs item]
  by (auto simp: represents_def oc_list_remove_def slot_def)

lemma push_represents: "represents h xs \<Longrightarrow> \<exists>h'. oc_list_push item h = Some h' \<and> represents h' (item # remove1 item xs)"
proof -
  assume r: "represents h xs"
  obtain h' where h': "oc_list_remove item h = Some h'" "represents h' (remove1 item xs)" using remove_represents [OF r] by blast
  have "item \<notin> set (remove1 item xs)" using r by (simp add: represents_def)
  then show ?thesis using h' by (simp add: oc_list_push_def represents_def)
qed

lemma pop_represents:
  "represents h xs \<Longrightarrow> \<exists>h'. oc_list_pop h = ((case xs of [] \<Rightarrow> None | x # _ \<Rightarrow> Some x), h') \<and> represents h' (tl xs)"
  by (cases xs) (auto simp: represents_def oc_list_pop_def)

lemma chop_loop_seg: "seg nxt (Some l) (xs @ [y, z]) None \<Longrightarrow> list_chop_loop nxt l = Some y"
proof (induction xs arbitrary: l)
  case Nil then show ?case by (simp add: list_chop_loop.simps)
next
  case (Cons a xs)
  then obtain b c where "nxt a = Some b" "l = a" "nxt b = Some c" by (cases xs; cases "tl xs") auto
  then show ?case using Cons by (simp add: list_chop_loop.simps [of nxt a])
qed

lemma chop_represents:
  "represents h xs \<Longrightarrow> \<exists>h'. oc_list_chop h = Some ((if xs = [] then None else Some (last xs)), h') \<and> represents h' (butlast xs)"
proof -
  assume r: "represents h xs"
  consider "xs = []" | x where "xs = [x]" | ys y z where "xs = ys @ [y, z]"
    by (metis append.assoc append_Cons append_Nil rev_exhaust)
  then show ?thesis
  proof cases
    case 3
    then obtain a where a: "list_head h = Some a" using r by (cases ys) (auto simp: represents_def)
    obtain b where b: "next_item h a = Some b" using r 3 a by (cases ys; cases "tl ys") (auto simp: represents_def)
    have s: "seg (next_item h) (Some a) (ys @ [y, z]) None" using r a 3 by (simp add: represents_def)
    show ?thesis using chop_loop_seg [OF s] r s a b 3 by (auto simp: oc_list_chop_def represents_def butlast_append)
  qed (use r in \<open>auto simp: represents_def oc_list_chop_def\<close>)
qed

lemma length_loop_seg: "seg nxt p xs None \<Longrightarrow> list_length_loop nxt p n = Some (n + length xs)"
  by (induction xs arbitrary: p n) (auto simp: list_length_loop.simps)

lemma length_represents: "represents h xs \<Longrightarrow> oc_list_length h = Some (length xs)"
  using length_loop_seg [of "next_item h" "list_head h" xs 0] by (simp add: represents_def oc_list_length_def)

lemma insert_represents:
  "represents h (xs @ q # ys) \<Longrightarrow> item \<notin> set (xs @ q # ys) \<Longrightarrow>
   \<exists>h'. oc_list_insert (Some q) item h = Some h' \<and> represents h' (xs @ q # item # ys)"
  by (auto simp: oc_list_insert_def represents_def)

lemma insert_nth_represents:
  assumes "represents h xs" "item \<notin> set xs" "i < length xs"
  shows "\<exists>h'. oc_list_insert (Some (xs ! i)) item h = Some h' \<and> represents h' (take (Suc i) xs @ item # drop (Suc i) xs)"
  using insert_represents [of h "take i xs" "xs ! i" "drop (Suc i) xs" item] assms
  by (simp add: id_take_nth_drop [symmetric] take_Suc_conv_app_nth)

lemma item_next_represents:
  assumes "represents h xs" "i < length xs"
  shows "oc_list_item_next (Some (xs ! i)) h = (if Suc i < length xs then Some (xs ! Suc i) else None)"
proof -
  have "seg (next_item h) (list_head h) (take i xs @ xs ! i # drop (Suc i) xs) None"
    using assms by (simp add: represents_def id_take_nth_drop [symmetric])
  then have "seg (next_item h) (next_item h (xs ! i)) (drop (Suc i) xs) None" by auto
  then show ?thesis
    by (cases "Suc i < length xs") (auto simp: oc_list_item_next_def Cons_nth_drop_Suc [symmetric])
qed

text \<open>
  \<^verbatim>\<open>oc_list_add\<close> does not look for the item first: one that is in the list already becomes its own
  successor, and a walk through the list does not end.
\<close>

lemma length_loop_circular:
  assumes "nxt a = Some a"
  shows "list_length_loop nxt (Some a) n = None"
proof -
  have "nxt = nxt \<longrightarrow> Some a \<noteq> Some a" if "list_length_loop nxt (Some a) n = Some y" for y
    by (rule list_length_loop.raw_induct [where P = "\<lambda>f l n y. f = nxt \<longrightarrow> l \<noteq> Some a", OF _ that])
      (use assms in \<open>auto split: option.splits\<close>)
  then show ?thesis by (cases "list_length_loop nxt (Some a) n") auto
qed

lemma length_loop_reaches:
  "seg nxt p xs (Some a) \<Longrightarrow> nxt a = Some a \<Longrightarrow> list_length_loop nxt p n = None"
proof (induction xs arbitrary: p n)
  case (Cons x xs)
  then show ?case by (subst list_length_loop.simps) simp
qed (simp add: length_loop_circular)

lemma add_twice_circular:
  assumes "represents h xs" "item \<in> set xs"
  shows "\<exists>h'. oc_list_add item h = Some h' \<and> next_item h' item = Some item \<and> oc_list_length h' = None"
proof -
  obtain ys zs where xs: "xs = ys @ item # zs" "item \<notin> set ys" using split_list_first [OF assms(2)] by blast
  let ?h = "set_next item None h"
  have "represents ?h (ys @ [item])" using assms(1) xs by (auto simp: represents_def)
  from tail_represents [OF this] have t: "oc_list_add item h = Some (set_next item (Some item) ?h)"
    by (simp add: oc_list_add_def)
  have "seg (next_item (set_next item (Some item) ?h)) (list_head h) ys (Some item)" using assms(1) xs by (auto simp: represents_def)
  then have "oc_list_length (set_next item (Some item) ?h) = None"
    using length_loop_reaches [of _ "list_head h" ys item 0] by (simp add: oc_list_length_def)
  then show ?thesis using t by simp
qed

section \<open>The lists are sequences\<close>

text \<open>C13. On a list without cycle all operations do on pointers what they do on the sequence of its items, and they end: starting a list
  empties it, a copy has the same items, adding an item that is not in the list appends it (one that is makes a cycle, lemma
  \<open>add_twice_circular\<close>), pushing puts an item at the front and nowhere else, inserting puts a new item behind the given one, or at the
  front, removing takes out that item and keeps the order of the others, popping and chopping take the first and the last item, the tail is
  the last item, the length is the number of items, and the item after one is its successor.\<close>

theorem oc_list_refines_sequence:
  assumes "represents h xs" "item \<notin> set xs"
  shows "represents (oc_list_init h) [] \<and> (\<forall>p. represents (oc_list_copy (h\<lparr>list_head := p\<rparr>) h) xs) \<and>
    (\<exists>h'. oc_list_add item h = Some h' \<and> represents h' (xs @ [item])) \<and>
    (\<forall>x. \<exists>h'. oc_list_push x h = Some h' \<and> represents h' (x # remove1 x xs)) \<and>
    (\<forall>x. \<exists>h'. oc_list_insert None x h = Some h' \<and> represents h' (x # remove1 x xs)) \<and>
    (\<forall>i < length xs. \<exists>h'. oc_list_insert (Some (xs ! i)) item h = Some h' \<and> represents h' (take (Suc i) xs @ item # drop (Suc i) xs)) \<and>
    (\<forall>x. \<exists>h'. oc_list_remove x h = Some h' \<and> represents h' (remove1 x xs)) \<and>
    (\<exists>h'. oc_list_pop h = ((case xs of [] \<Rightarrow> None | x # _ \<Rightarrow> Some x), h') \<and> represents h' (tl xs)) \<and>
    (\<exists>h'. oc_list_chop h = Some ((if xs = [] then None else Some (last xs)), h') \<and> represents h' (butlast xs)) \<and>
    oc_list_tail h = Some (if xs = [] then None else Some (last xs)) \<and> oc_list_length h = Some (length xs) \<and>
    (\<forall>i < length xs. oc_list_item_next (Some (xs ! i)) h = (if Suc i < length xs then Some (xs ! Suc i) else None))"
proof -
  have "represents (oc_list_init h) []" "represents (oc_list_copy (h\<lparr>list_head := p\<rparr>) h) xs" "oc_list_insert None x h = oc_list_push x h" for p x
    using assms(1) by (simp_all add: represents_def oc_list_init_def oc_list_copy_def oc_list_insert_def)
  then show ?thesis
    using add_represents [OF assms] push_represents [OF assms(1)] insert_nth_represents [OF assms] remove_represents [OF assms(1)]
      pop_represents [OF assms(1)] chop_represents [OF assms(1)] tail_represents [OF assms(1)] length_represents [OF assms(1)]
      item_next_represents [OF assms(1)]
    by simp
qed

definition three_items :: oc_list_heap where
  "three_items = \<lparr>list_head = Some 4, next_item = (\<lambda>_. None)(4 := Some 7, 7 := Some 2)\<rparr>"

theorem oc_list_refines_sequence_witness:
  "represents three_items [4, 7, 2] \<and> (\<exists>h'. oc_list_add 5 three_items = Some h' \<and> represents h' [4, 7, 2, 5]) \<and>
   (\<exists>h'. oc_list_remove 7 three_items = Some h' \<and> represents h' [4, 2]) \<and> oc_list_length three_items = Some 3"
proof -
  have r: "represents three_items [4, 7, 2]" by (simp add: represents_def three_items_def)
  note t = oc_list_refines_sequence [OF r, of 5]
  have "\<exists>h'. oc_list_remove 7 three_items = Some h' \<and> represents h' (remove1 7 [4, 7, 2])" using t by (simp del: remove1.simps)
  then show ?thesis using t r by simp
qed

end
