(* ===== verification/Channel_Rep.thy ===== *)
theory Channel_Rep
  imports Channel_Security
begin

text \<open>
  Payloads in OCF representation (\<^verbatim>\<open>oc/api/oc_rep.c\<close>, \<^verbatim>\<open>oc/include/oc_rep.h\<close>): the macros that encode a payload and the
  parser that turns the bytes of a payload into a list of named values.
\<close>

section \<open>Error codes\<close>

text \<open>Errors are collected with a bitwise or, so their numbers matter.\<close>

definition cbor_error_code :: "CborError \<Rightarrow> u32" where
  "cbor_error_code e = (case e of CborNoError \<Rightarrow> 0 | CborErrorUnknownLength \<Rightarrow> 2 | CborErrorAdvancePastEOF \<Rightarrow> 3
     | CborErrorUnexpectedEOF \<Rightarrow> 257 | CborErrorUnexpectedBreak \<Rightarrow> 258 | CborErrorUnknownType \<Rightarrow> 259 | CborErrorIllegalType \<Rightarrow> 260
     | CborErrorIllegalNumber \<Rightarrow> 261 | CborErrorIllegalSimpleType \<Rightarrow> 262 | CborErrorTooManyItems \<Rightarrow> 768 | CborErrorTooFewItems \<Rightarrow> 769
     | CborErrorDataTooLarge \<Rightarrow> 1024 | CborErrorNestingTooDeep \<Rightarrow> 1025 | CborErrorOutOfMemory \<Rightarrow> 0x80000000)"

section \<open>Encoding\<close>

text \<open>\<^verbatim>\<open>g_err\<close> and the encoder of the open container.\<close>

type_synonym rep_encoder = "u32 \<times> CborEncoder"

definition oc_rep_new :: "nat \<Rightarrow> rep_encoder" where
  "oc_rep_new sz = (0, cbor_encoder_init sz)"

definition rep_step :: "(CborEncoder \<Rightarrow> CborError \<times> CborEncoder) \<Rightarrow> rep_encoder \<Rightarrow> rep_encoder" where
  "rep_step f g = (case g of (g_err, enc) \<Rightarrow> case f enc of (e, enc) \<Rightarrow> (g_err OR cbor_error_code e, enc))"

text \<open>A container of indefinite length: the case of \<^verbatim>\<open>create_container\<close> that the macros use.\<close>

definition create_indefinite_container :: "CborEncoder \<Rightarrow> u8 \<Rightarrow> CborError \<times> CborEncoder \<times> CborEncoder" where
  "create_indefinite_container enc shiftedMajorType =
     (let container = enc\<lparr>enc_remaining := 0, enc_flags := (shiftedMajorType AND ContainerIsMap) OR UnknownLength\<rparr>
      in case append_to_buffer container [shiftedMajorType + IndefiniteLength] of
           (err, container) \<Rightarrow> (err, saturated_decrement enc, container))"

text \<open>What is encoded in an open container, and closing it.\<close>

definition rep_container :: "(CborEncoder \<Rightarrow> CborError \<times> CborEncoder \<times> CborEncoder) \<Rightarrow> (rep_encoder \<Rightarrow> rep_encoder) \<Rightarrow> rep_encoder \<Rightarrow> rep_encoder" where
  "rep_container create body g =
     (case g of (g_err, parent) \<Rightarrow>
        case create parent of (e, parent, container) \<Rightarrow>
          case body (g_err OR cbor_error_code e, container) of (g_err, container) \<Rightarrow>
            rep_step (\<lambda>enc. cbor_encoder_close_container enc container) (g_err, parent))"

definition name_bytes :: "string \<Rightarrow> bytes" where
  "name_bytes = map of_char"

definition oc_rep_set_key :: "string \<Rightarrow> rep_encoder \<Rightarrow> rep_encoder" where
  "oc_rep_set_key key = rep_step (\<lambda>enc. cbor_encode_text_string enc (name_bytes key))"

definition cbor_encode_int :: "CborEncoder \<Rightarrow> int \<Rightarrow> CborError \<times> CborEncoder" where
  "cbor_encode_int enc v =
     (if v < 0 then encode_number enc (NOT (word_of_int v)) 0x20 else encode_number enc (word_of_int v) 0)"

definition cbor_encode_boolean :: "CborEncoder \<Rightarrow> bool \<Rightarrow> CborError \<times> CborEncoder" where
  "cbor_encode_boolean enc v = encode_number enc (if v then 21 else 20) CborSimpleType"

text \<open>
  \<^verbatim>\<open>oc_rep_set_int\<close> and \<^verbatim>\<open>oc_rep_set_uint\<close>, \<^verbatim>\<open>oc_rep_set_boolean\<close>, \<^verbatim>\<open>oc_rep_set_byte_string\<close>, \<^verbatim>\<open>oc_rep_set_text_string\<close>,
  \<^verbatim>\<open>oc_rep_set_int_array\<close>, \<^verbatim>\<open>oc_rep_open_array\<close> with \<^verbatim>\<open>oc_rep_add_byte_string\<close>, \<^verbatim>\<open>oc_rep_set_string_array\<close>,
  \<^verbatim>\<open>oc_rep_open_object\<close> and \<^verbatim>\<open>oc_rep_object_array_begin_item\<close>. There is no macro for null and for arrays of Booleans.
\<close>

fun rep_encode_value :: "oc_rep_value \<Rightarrow> rep_encoder \<Rightarrow> rep_encoder"
  and rep_encode_members :: "(string \<times> oc_rep_value) list \<Rightarrow> rep_encoder \<Rightarrow> rep_encoder"
  and rep_encode_items :: "(string \<times> oc_rep_value) list list \<Rightarrow> rep_encoder \<Rightarrow> rep_encoder" where
  "rep_encode_value OC_REP_NIL g = g"
| "rep_encode_value (OC_REP_INT i) g = rep_step (\<lambda>enc. cbor_encode_int enc i) g"
| "rep_encode_value (OC_REP_BOOL b) g = rep_step (\<lambda>enc. cbor_encode_boolean enc b) g"
| "rep_encode_value (OC_REP_BYTE_STRING data) g = rep_step (\<lambda>enc. cbor_encode_byte_string enc data) g"
| "rep_encode_value (OC_REP_STRING data) g = rep_step (\<lambda>enc. cbor_encode_text_string enc data) g"
| "rep_encode_value (OC_REP_OBJECT ms) g = rep_container (\<lambda>enc. create_indefinite_container enc CborMapType) (rep_encode_members ms) g"
| "rep_encode_value (OC_REP_INT_ARRAY is) g =
     rep_container (\<lambda>enc. cbor_encoder_create_array enc (length is)) (fold (\<lambda>i. rep_step (\<lambda>enc. cbor_encode_int enc i)) is) g"
| "rep_encode_value (OC_REP_BOOL_ARRAY bs) g = g"
| "rep_encode_value (OC_REP_BYTE_STRING_ARRAY ds) g =
     rep_container (\<lambda>enc. create_indefinite_container enc CborArrayType) (fold (\<lambda>d. rep_step (\<lambda>enc. cbor_encode_byte_string enc d)) ds) g"
| "rep_encode_value (OC_REP_STRING_ARRAY ds) g =
     rep_container (\<lambda>enc. create_indefinite_container enc CborArrayType)
       (fold (\<lambda>d. rep_step (\<lambda>enc. cbor_encode_text_string enc d)) (filter (\<lambda>d. d \<noteq> []) ds)) g"
| "rep_encode_value (OC_REP_OBJECT_ARRAY os) g =
     rep_container (\<lambda>enc. create_indefinite_container enc CborArrayType) (rep_encode_items os) g"
| "rep_encode_members [] g = g"
| "rep_encode_members ((key, v) # ms) g = rep_encode_members ms (rep_encode_value v (oc_rep_set_key key g))"
| "rep_encode_items [] g = g"
| "rep_encode_items (ms # os) g =
     rep_encode_items os (rep_container (\<lambda>enc. create_indefinite_container enc CborMapType) (rep_encode_members ms) g)"

text \<open>The root object, between \<^verbatim>\<open>oc_rep_begin_root_object\<close> and \<^verbatim>\<open>oc_rep_end_root_object\<close>.\<close>

definition rep_encode_root :: "oc_rep \<Rightarrow> rep_encoder \<Rightarrow> rep_encoder" where
  "rep_encode_root rep = rep_container (\<lambda>enc. create_indefinite_container enc CborMapType) (rep_encode_members rep)"

definition oc_rep_get_encoded_payload_size :: "rep_encoder \<Rightarrow> int" where
  "oc_rep_get_encoded_payload_size g = (if fst g \<noteq> 0 then -1 else int (cbor_encoder_get_buffer_size (snd g)))"

text \<open>\<^verbatim>\<open>response_length\<close>: an empty object, like an encoding error, counts as no payload.\<close>

definition response_length :: "rep_encoder \<Rightarrow> nat" where
  "response_length g = (let sz = oc_rep_get_encoded_payload_size g in if sz \<le> 2 then 0 else nat sz)"

section \<open>Parsing\<close>

text \<open>
  Where the parser leaves its memory: the null pointer of a block that was not allocated is followed, an element is written
  outside its array or into an array of another kind, or a string or array is used although its pool is exhausted.
  \<open>CALLS_EXHAUSTED\<close> is no behaviour of the code: the calls allowed to the functions below were too few, which
  does not happen (\<open>parse_rep_returns\<close>).
\<close>

datatype rep_fault = NULL_POINTER | POOL_EXHAUSTED | OUT_OF_BOUNDS | ELEMENT_CONFUSION | CALLS_EXHAUSTED

text \<open>Blocks left for values, and bytes and integers left for strings and arrays.\<close>

record rep_mem =
  free_reps :: nat
  avail_bytes :: nat
  avail_ints :: nat

abbreviation (input) OC_MAX_NUM_REP_OBJECTS :: nat where "OC_MAX_NUM_REP_OBJECTS \<equiv> 25"
abbreviation (input) STRING_ARRAY_ITEM_MAX_LEN :: nat where "STRING_ARRAY_ITEM_MAX_LEN \<equiv> 32"

definition rep_bind :: "rep_fault + 'a \<Rightarrow> ('a \<Rightarrow> rep_fault + 'b) \<Rightarrow> rep_fault + 'b" where
  "rep_bind r f = (case r of Inl e \<Rightarrow> Inl e | Inr x \<Rightarrow> f x)"

definition alloc_rep :: "rep_mem \<Rightarrow> rep_mem option" where
  "alloc_rep m = (if free_reps m = 0 then None else Some (m\<lparr>free_reps := free_reps m - 1\<rparr>))"

definition alloc_bytes :: "nat \<Rightarrow> rep_mem \<Rightarrow> rep_fault + rep_mem" where
  "alloc_bytes n m = (if avail_bytes m < n then Inl POOL_EXHAUSTED else Inr (m\<lparr>avail_bytes := avail_bytes m - n\<rparr>))"

definition alloc_ints :: "nat \<Rightarrow> rep_mem \<Rightarrow> rep_fault + rep_mem" where
  "alloc_ints n m = (if avail_ints m < n then Inl POOL_EXHAUSTED else Inr (m\<lparr>avail_ints := avail_ints m - n\<rparr>))"

definition cbor_value_get_int64 :: "CborValue \<Rightarrow> int" where
  "cbor_value_get_int64 it =
     (let v = cbor_value_extract_int64_helper it
      in sint (if cv_flags it AND NegativeInteger \<noteq> 0 then - v - 1 else v))"

text \<open>A string is copied to memory of its length and one byte; nothing is copied after an error.\<close>

definition parse_string :: "CborValue \<Rightarrow> u32 \<Rightarrow> rep_mem \<Rightarrow> rep_fault + (u32 \<times> bytes \<times> rep_mem)" where
  "parse_string value err m =
     (case cbor_value_calculate_string_length value of (e, len) \<Rightarrow>
        let err = err OR cbor_error_code e
        in if err \<noteq> 0 \<or> int len = uint UINT32_MAX then Inr (err, [], m)
           else rep_bind (alloc_bytes (len + 1) m) (\<lambda>m.
             case cbor_value_copy_string value (int len + 1) of (e, data, _) \<Rightarrow> Inr (err OR cbor_error_code e, data, m)))"

text \<open>From a key, or a tag, to the value behind it.\<close>

fun parse_skip_tags :: "nat \<Rightarrow> CborValue \<Rightarrow> u32 \<Rightarrow> rep_fault + (u32 \<times> CborValue)" where
  "parse_skip_tags 0 value err = Inl CALLS_EXHAUSTED"
| "parse_skip_tags (Suc n) value err =
     (case cbor_value_advance value of (e, value) \<Rightarrow>
        let err = err OR cbor_error_code e
        in if cv_type value = CborTagType then parse_skip_tags n value err else Inr (err, value))"

text \<open>The length of an array of unknown length is counted; the flag tells that the parser gives up.\<close>

fun count_elements :: "nat \<Rightarrow> CborValue \<Rightarrow> u32 \<Rightarrow> nat \<Rightarrow> rep_fault + (u32 \<times> nat \<times> bool)" where
  "count_elements 0 t err len = Inl CALLS_EXHAUSTED"
| "count_elements (Suc n) t err len =
     (if cbor_value_at_end t then Inr (err, len, False)
      else if err \<noteq> 0 then Inr (err, len + 1, True)
      else case cbor_value_advance t of (e, t) \<Rightarrow> count_elements n t (cbor_error_code e) (len + 1))"

text \<open>
  An element is only compared with the kind of the array by the bits of the kinds (\<^verbatim>\<open>(cur->type & OC_REP_INT) != OC_REP_INT\<close>),
  which lets integers into arrays of Booleans and of text.
\<close>

definition rep_type :: "oc_rep_value \<Rightarrow> u32" where
  "rep_type v = (case v of OC_REP_NIL \<Rightarrow> 0 | OC_REP_INT _ \<Rightarrow> 1 | OC_REP_BOOL _ \<Rightarrow> 3 | OC_REP_BYTE_STRING _ \<Rightarrow> 4 | OC_REP_STRING _ \<Rightarrow> 5
     | OC_REP_OBJECT _ \<Rightarrow> 6 | OC_REP_INT_ARRAY _ \<Rightarrow> 9 | OC_REP_BOOL_ARRAY _ \<Rightarrow> 11 | OC_REP_BYTE_STRING_ARRAY _ \<Rightarrow> 12
     | OC_REP_STRING_ARRAY _ \<Rightarrow> 13 | OC_REP_OBJECT_ARRAY _ \<Rightarrow> 14)"

definition store_element :: "nat \<Rightarrow> 'a \<Rightarrow> 'a list \<Rightarrow> rep_fault + 'a list" where
  "store_element k x xs = (if k < length xs then Inr (xs[k := x]) else Inl OUT_OF_BOUNDS)"

text \<open>
  An element that is no object: the error, whether the parser gives up, the array and the memory. Memory of integers and Booleans is
  not cleared; what no element is written to is taken as 0 and false.
\<close>

definition parse_int_element :: "CborValue \<Rightarrow> nat \<Rightarrow> nat \<Rightarrow> oc_rep_value \<Rightarrow> u32 \<Rightarrow> rep_mem \<Rightarrow> rep_fault + (u32 \<times> bool \<times> oc_rep_value \<times> rep_mem)" where
  "parse_int_element array len k arr err m =
     rep_bind (if k = 0 then rep_bind (alloc_ints len m) (\<lambda>m. Inr (OC_REP_INT_ARRAY (replicate len 0), m)) else Inr (arr, m)) (\<lambda>(arr, m).
       if rep_type arr AND 1 \<noteq> 1 then Inr (err OR cbor_error_code CborErrorIllegalType, True, arr, m)
       else case arr of
           OC_REP_INT_ARRAY xs \<Rightarrow> rep_bind (store_element k (cbor_value_get_int64 array) xs) (\<lambda>xs. Inr (err, False, OC_REP_INT_ARRAY xs, m))
         | _ \<Rightarrow> Inl ELEMENT_CONFUSION)"

definition parse_bool_element :: "CborValue \<Rightarrow> nat \<Rightarrow> nat \<Rightarrow> oc_rep_value \<Rightarrow> u32 \<Rightarrow> rep_mem \<Rightarrow> rep_fault + (u32 \<times> bool \<times> oc_rep_value \<times> rep_mem)" where
  "parse_bool_element array len k arr err m =
     rep_bind (if k = 0 then rep_bind (alloc_bytes len m) (\<lambda>m. Inr (OC_REP_BOOL_ARRAY (replicate len False), m)) else Inr (arr, m)) (\<lambda>(arr, m).
       if rep_type arr AND 3 \<noteq> 3 then Inr (err OR cbor_error_code CborErrorIllegalType, True, arr, m)
       else case arr of
           OC_REP_BOOL_ARRAY xs \<Rightarrow> rep_bind (store_element k (cv_extra array \<noteq> 0) xs) (\<lambda>xs. Inr (err, False, OC_REP_BOOL_ARRAY xs, m))
         | _ \<Rightarrow> Inl ELEMENT_CONFUSION)"

definition parse_byte_string_element :: "CborValue \<Rightarrow> nat \<Rightarrow> nat \<Rightarrow> oc_rep_value \<Rightarrow> u32 \<Rightarrow> rep_mem \<Rightarrow> rep_fault + (u32 \<times> bool \<times> oc_rep_value \<times> rep_mem)" where
  "parse_byte_string_element array len k arr err m =
     rep_bind (if k = 0 then rep_bind (alloc_bytes (len * STRING_ARRAY_ITEM_MAX_LEN) m) (\<lambda>m. Inr (OC_REP_BYTE_STRING_ARRAY (replicate len []), m)) else Inr (arr, m))
     (\<lambda>(arr, m).
       if rep_type arr AND 4 \<noteq> 4 then Inr (err OR cbor_error_code CborErrorIllegalType, True, arr, m)
       else case arr of
           OC_REP_BYTE_STRING_ARRAY xs \<Rightarrow>
             (case cbor_value_calculate_string_length array of (e, l) \<Rightarrow>
              case cbor_value_copy_string array (int (min l (STRING_ARRAY_ITEM_MAX_LEN - 1))) of (e', data, _) \<Rightarrow>
                rep_bind (store_element k data xs) (\<lambda>xs. Inr (err OR cbor_error_code e OR cbor_error_code e', False, OC_REP_BYTE_STRING_ARRAY xs, m)))
         | _ \<Rightarrow> Inl ELEMENT_CONFUSION)"

definition parse_string_element :: "CborValue \<Rightarrow> nat \<Rightarrow> nat \<Rightarrow> oc_rep_value \<Rightarrow> u32 \<Rightarrow> rep_mem \<Rightarrow> rep_fault + (u32 \<times> bool \<times> oc_rep_value \<times> rep_mem)" where
  "parse_string_element array len k arr err m =
     rep_bind (if k = 0 then rep_bind (alloc_bytes (len * STRING_ARRAY_ITEM_MAX_LEN) m) (\<lambda>m. Inr (OC_REP_STRING_ARRAY (replicate len []), m)) else Inr (arr, m))
     (\<lambda>(arr, m).
       if rep_type arr AND 5 \<noteq> 5 then Inr (err OR cbor_error_code CborErrorIllegalType, True, arr, m)
       else case arr of
           OC_REP_STRING_ARRAY xs \<Rightarrow>
             (case cbor_value_calculate_string_length array of (e, l) \<Rightarrow>
              case cbor_value_copy_string array (int (min (l + 1) STRING_ARRAY_ITEM_MAX_LEN)) of (e', data, _) \<Rightarrow>
                rep_bind (store_element k data xs) (\<lambda>xs. Inr (err OR cbor_error_code e OR cbor_error_code e', False, OC_REP_STRING_ARRAY xs, m)))
         | _ \<Rightarrow> Inl ELEMENT_CONFUSION)"

text \<open>
  The members of an object. The root object is read until no valid value is left, others to their end. When no block is left for a
  member of an object inside an object, its null pointer is followed. Names end at the first zero byte, as \<^verbatim>\<open>strcmp\<close> reads them.
\<close>

datatype member_loop = ROOT_MEMBERS | OBJECT_MEMBERS | ELEMENT_MEMBERS

definition members_end :: "member_loop \<Rightarrow> CborValue \<Rightarrow> bool" where
  "members_end l it = (if l = ROOT_MEMBERS then cv_type it = CborInvalidType else cbor_value_at_end it)"

definition name_string :: "bytes \<Rightarrow> string" where
  "name_string data = path_string (takeWhile (\<lambda>b. b \<noteq> 0) data)"

text \<open>
  The functions that call each other take the parser of an object's members as an argument, and \<open>n\<close> as the number of times their loops
  may run.
\<close>

type_synonym members_parser = "member_loop \<Rightarrow> CborValue \<Rightarrow> u32 \<Rightarrow> rep_mem \<Rightarrow> rep_fault + (u32 \<times> oc_rep \<times> rep_mem)"

definition parse_object_element :: "members_parser \<Rightarrow> CborValue \<Rightarrow> nat \<Rightarrow> oc_rep_value \<Rightarrow> u32 \<Rightarrow> rep_mem \<Rightarrow> rep_fault + (u32 \<times> bool \<times> oc_rep_value \<times> rep_mem)" where
  "parse_object_element members array k arr err m =
     (let arr = (if k = 0 then OC_REP_OBJECT_ARRAY [] else arr)
      in if rep_type arr AND 6 \<noteq> 6 then Inr (err OR cbor_error_code CborErrorIllegalType, True, arr, m)
         else case alloc_rep m of
             None \<Rightarrow> Inr (cbor_error_code CborErrorOutOfMemory, True, arr, m)
           | Some m \<Rightarrow>
               (case cbor_value_enter_container array of (e, cur) \<Rightarrow>
                  rep_bind (members ELEMENT_MEMBERS cur (err OR cbor_error_code e) m) (\<lambda>(err, ms, m).
                    case arr of OC_REP_OBJECT_ARRAY os \<Rightarrow> Inr (err, False, OC_REP_OBJECT_ARRAY (os @ [ms]), m) | _ \<Rightarrow> Inl ELEMENT_CONFUSION)))"

definition parse_element :: "members_parser \<Rightarrow> CborValue \<Rightarrow> nat \<Rightarrow> nat \<Rightarrow> oc_rep_value \<Rightarrow> u32 \<Rightarrow> rep_mem \<Rightarrow> rep_fault + (u32 \<times> bool \<times> oc_rep_value \<times> rep_mem)" where
  "parse_element members array len k arr err m =
     (if cv_type array = CborIntegerType then parse_int_element array len k arr err m
      else if cv_type array = CborBooleanType then parse_bool_element array len k arr err m
      else if cv_type array = CborByteStringType then parse_byte_string_element array len k arr err m
      else if cv_type array = CborTextStringType then parse_string_element array len k arr err m
      else if cv_type array = CborMapType then parse_object_element members array k arr err m
      else Inr (err, False, arr, m))"

fun parse_elements :: "members_parser \<Rightarrow> nat \<Rightarrow> CborValue \<Rightarrow> nat \<Rightarrow> nat \<Rightarrow> oc_rep_value \<Rightarrow> u32 \<Rightarrow> rep_mem \<Rightarrow> rep_fault + (u32 \<times> oc_rep_value \<times> rep_mem)" where
  "parse_elements members 0 array len k arr err m = Inl CALLS_EXHAUSTED"
| "parse_elements members (Suc n) array len k arr err m =
     (if cbor_value_at_end array then Inr (err, arr, m)
      else rep_bind (parse_element members array len k arr err m) (\<lambda>(err, stop, arr, m).
        if stop \<or> err \<noteq> 0 then Inr (err, arr, m)
        else case cbor_value_advance array of (e, array) \<Rightarrow> parse_elements members n array len (k + 1) arr (err OR cbor_error_code e) m))"

definition parse_array :: "members_parser \<Rightarrow> nat \<Rightarrow> CborValue \<Rightarrow> u32 \<Rightarrow> rep_mem \<Rightarrow> rep_fault + (u32 \<times> oc_rep_value \<times> rep_mem)" where
  "parse_array members n value err m =
     (case cbor_value_enter_container value of (e, array) \<Rightarrow>
        let err = err OR cbor_error_code e;
            len = snd (cbor_value_get_length value)
        in rep_bind (if len = 0 then count_elements n array err 0 else Inr (err, len, False)) (\<lambda>(err, len, stop).
             if stop then Inr (err, OC_REP_NIL, m) else parse_elements members n array len 0 OC_REP_NIL err m))"

definition parse_value :: "members_parser \<Rightarrow> nat \<Rightarrow> CborValue \<Rightarrow> u32 \<Rightarrow> rep_mem \<Rightarrow> rep_fault + (u32 \<times> oc_rep_value \<times> rep_mem)" where
  "parse_value members n value err m =
     (if cv_type value = CborIntegerType then Inr (err, OC_REP_INT (cbor_value_get_int64 value), m)
      else if cv_type value = CborBooleanType then Inr (err, OC_REP_BOOL (cv_extra value \<noteq> 0), m)
      else if cv_type value = CborByteStringType then rep_bind (parse_string value err m) (\<lambda>(err, data, m). Inr (err, OC_REP_BYTE_STRING data, m))
      else if cv_type value = CborTextStringType then rep_bind (parse_string value err m) (\<lambda>(err, data, m). Inr (err, OC_REP_STRING data, m))
      else if cv_type value = CborMapType then
        (case cbor_value_enter_container value of (e, cur) \<Rightarrow>
           rep_bind (members OBJECT_MEMBERS cur (err OR cbor_error_code e) m) (\<lambda>(err, ms, m). Inr (err, OC_REP_OBJECT ms, m)))
      else if cv_type value = CborArrayType then parse_array members n value err m
      else if cv_type value = CborInvalidType then Inr (err OR cbor_error_code CborErrorIllegalType, OC_REP_NIL, m)
      else Inr (err, OC_REP_NIL, m))"

text \<open>The error, the position of the value, the block (\<open>None\<close> is the null pointer) and the memory.\<close>

definition oc_parse_rep_value :: "members_parser \<Rightarrow> nat \<Rightarrow> CborValue \<Rightarrow> u32 \<Rightarrow> rep_mem \<Rightarrow> rep_fault + (u32 \<times> CborValue \<times> (string \<times> oc_rep_value) option \<times> rep_mem)" where
  "oc_parse_rep_value members n value err m =
     (case alloc_rep m of
        None \<Rightarrow> Inr (cbor_error_code CborErrorOutOfMemory, value, None, m)
      | Some m \<Rightarrow>
          if cv_type value \<noteq> CborTextStringType then Inr (cbor_error_code CborErrorIllegalType, value, Some ([], OC_REP_NIL), m)
          else rep_bind (parse_string value err m) (\<lambda>(err, key, m).
            if err \<noteq> 0 then Inr (err, value, Some ([], OC_REP_NIL), m)
            else rep_bind (parse_skip_tags n value err) (\<lambda>(err, value).
              rep_bind (parse_value members n value err m) (\<lambda>(err, v, m). Inr (err, value, Some (name_string key, v), m)))))"

fun parse_members :: "nat \<Rightarrow> members_parser" where
  "parse_members 0 l cur err m = Inl CALLS_EXHAUSTED"
| "parse_members (Suc n) l cur err m =
     (if members_end l cur then Inr (err, [], m)
      else rep_bind (oc_parse_rep_value (parse_members n) n cur err m) (\<lambda>(err, cur, rep, m).
        case rep of
          None \<Rightarrow> if l = OBJECT_MEMBERS then Inl NULL_POINTER else Inr (err, [], m)
        | Some r \<Rightarrow>
            if err \<noteq> 0 then Inr (err, [r], m)
            else case cbor_value_advance cur of (e, cur) \<Rightarrow>
              rep_bind (parse_members n l cur (err OR cbor_error_code e) m) (\<lambda>(err, ms, m). Inr (err, r # ms, m))))"

text \<open>An array at the root becomes a list of objects without names.\<close>

fun parse_root_array :: "nat \<Rightarrow> CborValue \<Rightarrow> u32 \<Rightarrow> rep_mem \<Rightarrow> rep_fault + (u32 \<times> oc_rep \<times> rep_mem)" where
  "parse_root_array 0 cur_map err m = Inl CALLS_EXHAUSTED"
| "parse_root_array (Suc n) cur_map err m =
     (if cv_type cur_map = CborInvalidType then Inr (err, [], m)
      else case alloc_rep m of
          None \<Rightarrow> Inr (cbor_error_code CborErrorOutOfMemory, [], m)
        | Some m \<Rightarrow>
            (case cbor_value_enter_container cur_map of (e, cur_value) \<Rightarrow>
               rep_bind (parse_members n ROOT_MEMBERS cur_value (err OR cbor_error_code e) m) (\<lambda>(err, kvs, m).
                 if err \<noteq> 0 then Inr (err, [([], OC_REP_OBJECT kvs)], m)
                 else case cbor_value_advance cur_map of (e, cur_map) \<Rightarrow>
                   rep_bind (parse_root_array n cur_map (err OR cbor_error_code e) m) (\<lambda>(err, os, m). Inr (err, ([], OC_REP_OBJECT kvs) # os, m)))))"

definition parse_calls :: "bytes \<Rightarrow> nat" where
  "parse_calls payload = 4 * length payload + 8"

definition oc_parse_rep :: "rep_mem \<Rightarrow> bytes \<Rightarrow> rep_fault + (u32 \<times> oc_rep)" where
  "oc_parse_rep m payload =
     (case cbor_parser_init payload of (e, root_value) \<Rightarrow>
        let err = cbor_error_code e
        in if cv_type root_value = CborMapType then
             (case cbor_value_enter_container root_value of (e, cur_value) \<Rightarrow>
                rep_bind (parse_members (parse_calls payload) ROOT_MEMBERS cur_value (err OR cbor_error_code e) m) (\<lambda>(err, rep, m). Inr (err, rep)))
           else if cv_type root_value = CborArrayType then
             (case cbor_value_enter_container root_value of (e, cur_map) \<Rightarrow>
                rep_bind (parse_root_array (parse_calls payload) cur_map (err OR cbor_error_code e) m) (\<lambda>(err, rep, m). Inr (err, rep)))
           else Inr (err, []))"

section \<open>Parsing ends\<close>

lemma error_code_zero [simp]: "cbor_error_code e = 0 \<longleftrightarrow> e = CborNoError"
  by (cases e) (simp_all add: cbor_error_code_def)

lemma or_zero [simp]: "(a :: u32) OR b = 0 \<longleftrightarrow> a = 0 \<and> b = 0"
  by (metis or.left_neutral or.right_neutral or_eq_0_iff)

lemma rep_bind_simps [simp]: "rep_bind (Inr x) f = f x" "rep_bind (Inl e) f = Inl e"
  by (simp_all add: rep_bind_def)

lemma rep_bind_exhausted:
  "rep_bind r f = Inl CALLS_EXHAUSTED \<longleftrightarrow> r = Inl CALLS_EXHAUSTED \<or> (\<exists>x. r = Inr x \<and> f x = Inl CALLS_EXHAUSTED)"
  by (cases r) auto

lemma advance_ok:
  assumes "cbor_value_advance it = (CborNoError, it')" "cv_ok it"
  shows "cv_ok it' \<and> length (cv_ptr it') < length (cv_ptr it)"
proof -
  have r: "cv_remaining it \<noteq> 0" using assms(1) by (auto simp: cbor_value_advance_def)
  then have "cv_ptr it \<noteq> []" using assms(2) by (simp add: cv_ok_def)
  then show ?thesis
    using assms r advance_total(1) [of it "2 * length (cv_ptr it)" 1024] by (auto simp: cbor_value_advance_def)
qed

text \<open>A tag is always at a byte and inside its container, also after an error.\<close>

definition tag_ok :: "CborValue \<Rightarrow> bool" where
  "tag_ok it \<longleftrightarrow> (cv_type it = CborTagType \<longrightarrow> cv_ptr it \<noteq> [] \<and> cv_remaining it \<noteq> 0)"

lemma preparse_value_tag:
  "cv_remaining it \<noteq> 0 \<Longrightarrow> tag_ok (snd (preparse_value it))"
  unfolding tag_ok_def preparse_value_ptr preparse_value_remaining
  by (auto simp: preparse_value_def Let_def)

lemma preparse_nodecrement_tag:
  "cv_remaining it \<noteq> 0 \<Longrightarrow> tag_ok (snd (preparse_next_value_nodecrement it)) \<and> length (cv_ptr (snd (preparse_next_value_nodecrement it))) \<le> length (cv_ptr it)"
  using preparse_value_tag [of it] by (auto simp: preparse_next_value_nodecrement_def preparse_value_ptr tag_ok_def)

lemma preparse_next_tag:
  assumes "cv_type it = CborTagType \<longrightarrow> cv_remaining it \<noteq> 0"
  shows "tag_ok (snd (preparse_next_value it)) \<and> length (cv_ptr (snd (preparse_next_value it))) \<le> length (cv_ptr it)"
proof -
  define c where "c = (cv_type it \<noteq> CborTagType)"
  define j where "j = (if cv_remaining it \<noteq> UINT32_MAX \<and> c then it\<lparr>cv_remaining := cv_remaining it - 1\<rparr> else it)"
  define k where "k = (if c then j\<lparr>cv_flags := cv_flags j XOR NextIsMapKey\<rparr> else j)"
  have e: "preparse_next_value it =
      (if cv_remaining j = 0 \<and> c then (CborNoError, j\<lparr>cv_type := CborInvalidType\<rparr>) else preparse_next_value_nodecrement k)"
    unfolding preparse_next_value_def Let_def c_def [symmetric] j_def [symmetric] k_def [symmetric] ..
  have p: "cv_ptr j = cv_ptr it" "cv_ptr k = cv_ptr it" by (simp_all add: j_def k_def)
  have r: "cv_remaining k \<noteq> 0" if "\<not> (cv_remaining j = 0 \<and> c)"
  proof (cases c)
    case True then show ?thesis using that by (simp add: k_def)
  next
    case False then show ?thesis using assms by (simp add: k_def j_def c_def)
  qed
  show ?thesis
  proof (cases "cv_remaining j = 0 \<and> c")
    case True then show ?thesis unfolding e if_P [OF True] by (simp add: tag_ok_def p)
  next
    case False then show ?thesis using preparse_nodecrement_tag [OF r [OF False]] p unfolding e if_not_P [OF False] by simp
  qed
qed

lemma skip_tag_shorter:
  assumes "cv_type it = CborTagType" "tag_ok it" "cbor_value_advance it = (e, it')"
  shows "tag_ok it' \<and> length (cv_ptr it') < length (cv_ptr it)"
proof -
  have n: "cv_ptr it \<noteq> []" "cv_remaining it \<noteq> 0" using assms(1,2) by (auto simp: tag_ok_def)
  obtain err ptr v where x: "cbor_value_extract_number (cv_ptr it) = (err, ptr, v)" by (cases "cbor_value_extract_number (cv_ptr it)") auto
  have l: "length ptr < length (cv_ptr it)" using extract_number_shorter [OF n(1) x] .
  obtain k where k: "2 * length (cv_ptr it) = Suc k" using n(1) by (cases "cv_ptr it") auto
  have "cbor_value_advance it = preparse_next_value (it\<lparr>cv_ptr := ptr\<rparr>)"
    using n(2) assms(1) x unfolding cbor_value_advance_def k by (simp add: is_fixed_type_def advance_internal_def)
  then have "it' = snd (preparse_next_value (it\<lparr>cv_ptr := ptr\<rparr>))" using assms(3) by (metis snd_conv)
  then show ?thesis using preparse_next_tag [of "it\<lparr>cv_ptr := ptr\<rparr>"] n(2) l by auto
qed

lemma string_chunk_tag:
  assumes "get_string_chunk it = (CborNoError, chunk, it')" "cv_type it \<noteq> CborTagType"
  shows "if chunk = None then tag_ok it' else cv_type it' = cv_type it"
proof -
  define j where "j = (if cv_flags it AND IteratingStringChunks \<noteq> 0 then it else prepare_string_iteration it)"
  have t: "cv_type j = cv_type it" by (simp add: j_def prepare_string_iteration_def)
  have n: "tag_ok x" if "preparse_next_value y = (e, x)" "cv_type y = cv_type it" for x y e
    using preparse_next_tag [of y] that assms(2) by simp
  show ?thesis
    using assms n [of it] n [of "j\<lparr>cv_ptr := tl (cv_ptr j)\<rparr>"] unfolding get_string_chunk_def j_def [symmetric] Let_def
    by (auto simp: t split: prod.splits if_splits)
qed

lemma iterate_chunks_tag:
  assumes "iterate_string_chunks it buflen chunks fits = (CborNoError, it', rest)" "cv_type it \<noteq> CborTagType"
  shows "tag_ok it'"
  using assms
proof (induction it buflen chunks fits rule: iterate_string_chunks.induct)
  case (1 it buflen chunks fits)
  obtain err chunk j where g: "get_string_chunk it = (err, chunk, j)" by (cases "get_string_chunk it") auto
  have e: "err = CborNoError" using 1(2) unfolding iterate_string_chunks.simps [of it] g by (simp split: if_splits)
  note t = string_chunk_tag [OF g [unfolded e] 1(3)]
  show ?case
  proof (cases chunk)
    case None
    then show ?thesis using 1(2) t unfolding iterate_string_chunks.simps [of it] g by (simp add: e)
  next
    case (Some c)
    then have b: "\<not> int (length chunks + length c) > uint UINT32_MAX"
      using 1(2) unfolding iterate_string_chunks.simps [of it] g by (auto simp: e)
    then have "iterate_string_chunks j buflen (chunks @ c) (fits \<and> int (length (chunks @ c)) \<le> buflen) = (CborNoError, it', rest)"
      using 1(2) Some unfolding iterate_string_chunks.simps [of it] g by (simp add: e)
    then show ?thesis using 1(1) [OF g [symmetric] refl _ Some b] e t 1(3) Some by simp
  qed
qed

text \<open>The key's string has been read without error, so going past it succeeds.\<close>

lemma parse_string_advance:
  assumes "parse_string it err m = Inr (0, data, m')" "cv_type it = CborTextStringType" "cv_ok it" "cv_ptr it \<noteq> []" "cv_remaining it \<noteq> 0"
  obtains it' where "cbor_value_advance it = (CborNoError, it')" "cv_ok it'" "tag_ok it'" "length (cv_ptr it') < length (cv_ptr it)"
proof -
  obtain bs it' where c: "cbor_value_copy_string it (uint UINT32_MAX) = (CborNoError, bs, it')"
    using assms(1) by (auto simp: parse_string_def cbor_value_calculate_string_length_def rep_bind_def Let_def split: prod.splits if_splits sum.splits)
  obtain k where k: "2 * length (cv_ptr it) = Suc k" using assms(4) by (cases "cv_ptr it") auto
  have a: "cbor_value_advance it = (CborNoError, it')"
    using assms(2,5) c unfolding cbor_value_advance_def k by (simp add: is_fixed_type_def cbor_value_is_container_def)
  obtain rest where "iterate_string_chunks it (uint UINT32_MAX) [] True = (CborNoError, it', rest)"
    using c by (auto simp: cbor_value_copy_string_def split: prod.splits if_splits)
  then have "tag_ok it'" using iterate_chunks_tag assms(2) by fastforce
  then show ?thesis using that a advance_ok [OF a assms(3)] by blast
qed

lemma skip_tags_loop:
  assumes "tag_ok it" "length (cv_ptr it) < n" "cv_type it = CborTagType"
  shows "\<exists>e it'. parse_skip_tags n it err = Inr (e, it') \<and> (e = 0 \<longrightarrow> err = 0 \<and> (cv_ok it \<longrightarrow> cv_ok it' \<and> length (cv_ptr it') < length (cv_ptr it)))"
  using assms
proof (induction n arbitrary: it err)
  case (Suc n)
  obtain e it' where a: "cbor_value_advance it = (e, it')" by fastforce
  note s = skip_tag_shorter [OF Suc.prems(3,1) a]
  show ?case
  proof (cases "cv_type it' = CborTagType")
    case True
    then obtain e2 it2 where i: "parse_skip_tags n it' (err OR cbor_error_code e) = Inr (e2, it2)"
        "e2 = 0 \<longrightarrow> err OR cbor_error_code e = 0 \<and> (cv_ok it' \<longrightarrow> cv_ok it2 \<and> length (cv_ptr it2) < length (cv_ptr it'))"
      using Suc.IH [of it' "err OR cbor_error_code e"] s Suc.prems(2) by auto
    then show ?thesis using True a s advance_ok [of it it'] by (auto simp: Let_def)
  next
    case False
    then show ?thesis using a advance_ok [of it it'] by (auto simp: Let_def)
  qed
qed simp

lemma skip_tags_key:
  assumes "parse_string it err m = Inr (0, data, m')" "cv_type it = CborTextStringType" "cv_ok it" "cv_remaining it \<noteq> 0" "length (cv_ptr it) < n"
  shows "\<exists>e it'. parse_skip_tags n it err' = Inr (e, it') \<and> (e = 0 \<longrightarrow> cv_ok it' \<and> length (cv_ptr it') < length (cv_ptr it))"
proof -
  have p: "cv_ptr it \<noteq> []" using assms(3,4) by (simp add: cv_ok_def)
  obtain it' where a: "cbor_value_advance it = (CborNoError, it')" "cv_ok it'" "tag_ok it'" "length (cv_ptr it') < length (cv_ptr it)"
    by (rule parse_string_advance [OF assms(1-3) p assms(4)])
  obtain k where k: "n = Suc k" using assms(5) by (cases n) auto
  show ?thesis
  proof (cases "cv_type it' = CborTagType")
    case True
    then show ?thesis using skip_tags_loop [OF a(3) _ True, of k err'] a assms(5) k by (fastforce simp: cbor_error_code_def)
  next
    case False
    then show ?thesis using a k by (auto simp: cbor_error_code_def)
  qed
qed

text \<open>A result that is not for want of calls, and in which an error that was there before is not lost.\<close>

definition parse_total :: "u32 \<Rightarrow> rep_fault + (u32 \<times> 'a) \<Rightarrow> bool" where
  "parse_total err r \<longleftrightarrow> (case r of Inl f \<Rightarrow> f \<noteq> CALLS_EXHAUSTED | Inr (e, x) \<Rightarrow> err \<noteq> 0 \<longrightarrow> e \<noteq> 0)"

lemma parse_total_simps [simp]:
  "parse_total err (Inr (e, x)) \<longleftrightarrow> (err \<noteq> 0 \<longrightarrow> e \<noteq> 0)" "parse_total err (Inl f) \<longleftrightarrow> f \<noteq> CALLS_EXHAUSTED"
  by (simp_all add: parse_total_def)

lemma parse_total_bind:
  assumes "parse_total err r" "\<And>e x. r = Inr (e, x) \<Longrightarrow> (err \<noteq> 0 \<longrightarrow> e \<noteq> 0) \<Longrightarrow> parse_total e (f (e, x))"
  shows "parse_total err (rep_bind r f)"
proof (cases r)
  case (Inr y)
  obtain e x where y: "y = (e, x)" by fastforce
  have "parse_total e (f (e, x))" "err \<noteq> 0 \<longrightarrow> e \<noteq> 0" using assms Inr y by auto
  then show ?thesis using Inr y by (cases "f (e, x)") auto
qed (use assms in simp)

lemma parse_total_bind_memory:
  assumes "r \<noteq> Inl CALLS_EXHAUSTED" "\<And>x. r = Inr x \<Longrightarrow> parse_total err (f x)"
  shows "parse_total err (rep_bind r f)"
  using assms by (cases r) auto

lemma parse_string_total: "parse_total err (parse_string it err m)"
  by (auto simp: parse_string_def alloc_bytes_def rep_bind_def Let_def split: prod.splits)

lemma skip_tags_from_key:
  assumes "parse_string it err m = Inr (0, data, m')" "cv_type it = CborTextStringType" "cv_ok it" "length (cv_ptr it) < n"
  shows "\<exists>e it'. parse_skip_tags n it err' = Inr (e, it') \<and> (e = 0 \<longrightarrow> cv_ok it' \<and> length (cv_ptr it') < length (cv_ptr it))"
proof (cases "cv_remaining it = 0")
  case True
  then have "cbor_value_advance it = (CborErrorAdvancePastEOF, it)" by (simp add: cbor_value_advance_def)
  then show ?thesis using assms(2,4) by (cases n) (auto simp: Let_def)
qed (use skip_tags_key [OF assms(1-3) _ assms(4)] in blast)

lemma enter_ok:
  assumes "cbor_value_enter_container it = (CborNoError, it')" "cv_ok it" "cv_type it \<noteq> CborInvalidType"
  shows "cv_ok it' \<and> length (cv_ptr it') < length (cv_ptr it)"
  using enter_container_ok [OF assms(1)] assms(2,3) by (simp add: cv_ok_def)

lemma count_elements_total:
  "err \<noteq> 0 \<or> cv_ok t \<and> length (cv_ptr t) < n \<Longrightarrow> 0 < n \<Longrightarrow> parse_total err (count_elements n t err len)"
proof (induction n arbitrary: t err len)
  case (Suc n)
  obtain e t' where a: "cbor_value_advance t = (e, t')" by fastforce
  show ?case
  proof (cases "cbor_value_at_end t \<or> err \<noteq> 0")
    case False
    then have "cv_ok t" "length (cv_ptr t) < Suc n" "cv_ptr t \<noteq> []" using Suc.prems(1) by (auto simp: cv_ok_def cbor_value_at_end_def)
    then have "parse_total (cbor_error_code e) (count_elements n t' (cbor_error_code e) (len + 1))"
      using Suc.IH [of "cbor_error_code e" t' "len + 1"] advance_ok [of t t'] a by (cases "e = CborNoError") auto
    then show ?thesis using False a by (cases "count_elements n t' (cbor_error_code e) (len + 1)") auto
  qed auto
qed simp

definition members_total :: "members_parser \<Rightarrow> nat \<Rightarrow> bool" where
  "members_total pm L \<longleftrightarrow> (\<forall>l cur err m. err \<noteq> 0 \<or> cv_ok cur \<and> length (cv_ptr cur) \<le> L \<longrightarrow> parse_total err (pm l cur err m))"

lemma members_totalD: "members_total pm L \<Longrightarrow> err \<noteq> 0 \<or> cv_ok cur \<and> length (cv_ptr cur) \<le> L \<Longrightarrow> parse_total err (pm l cur err m)"
  by (simp add: members_total_def)

text \<open>The members of a container that is entered, with the error of entering it.\<close>

lemma members_entered:
  assumes "members_total pm L" "cbor_value_enter_container it = (e, cur)" "cv_type it \<noteq> CborInvalidType"
    "err \<noteq> 0 \<or> cv_ok it \<and> length (cv_ptr it) \<le> Suc L"
  shows "parse_total (err OR cbor_error_code e) (pm l cur (err OR cbor_error_code e) m)"
proof (rule members_totalD [OF assms(1)])
  show "err OR cbor_error_code e \<noteq> 0 \<or> cv_ok cur \<and> length (cv_ptr cur) \<le> L"
    using assms(2-4) enter_ok [of it cur] by (cases "e = CborNoError") auto
qed

lemma parse_total_error: "err \<noteq> 0 \<longrightarrow> err' \<noteq> 0 \<Longrightarrow> parse_total err' r \<Longrightarrow> parse_total err r"
  by (cases r) auto

lemma store_element_total: "store_element k x xs \<noteq> Inl CALLS_EXHAUSTED"
  by (simp add: store_element_def)

lemma parse_simple_element_total:
  "parse_total err (parse_int_element array len k arr err m)" "parse_total err (parse_bool_element array len k arr err m)"
  "parse_total err (parse_byte_string_element array len k arr err m)" "parse_total err (parse_string_element array len k arr err m)"
  by (auto simp: parse_int_element_def parse_bool_element_def parse_byte_string_element_def parse_string_element_def alloc_ints_def alloc_bytes_def
      store_element_def intro!: parse_total_bind_memory split: oc_rep_value.splits prod.splits if_splits)

lemma parse_element_total:
  assumes "members_total pm L" "err \<noteq> 0 \<or> cv_ok array \<and> length (cv_ptr array) \<le> Suc L"
  shows "parse_total err (parse_element pm array len k arr err m)"
proof -
  have "parse_total err (parse_object_element pm array k arr err m)" if t: "cv_type array = CborMapType"
  proof -
    obtain e cur where c: "cbor_value_enter_container array = (e, cur)" by fastforce
    have "parse_total (err OR cbor_error_code e) (pm ELEMENT_MEMBERS cur (err OR cbor_error_code e) m')" for m'
      by (rule members_entered [OF assms(1) c _ assms(2)]) (simp add: t)
    then have "parse_total err (pm ELEMENT_MEMBERS cur (err OR cbor_error_code e) m')" for m'
      by (rule parse_total_error [rotated]) simp
    then show ?thesis
      by (auto simp: parse_object_element_def c Let_def split: option.splits oc_rep_value.splits intro!: parse_total_bind)
  qed
  then show ?thesis using parse_simple_element_total by (auto simp: parse_element_def)
qed

lemma parse_elements_total:
  assumes "members_total pm L"
  shows "err \<noteq> 0 \<or> cv_ok array \<and> length (cv_ptr array) < n \<and> length (cv_ptr array) \<le> Suc L \<Longrightarrow> 0 < n \<Longrightarrow>
    parse_total err (parse_elements pm n array len k arr err m)"
proof (induction n arbitrary: array k arr err m)
  case (Suc n)
  show ?case
  proof (cases "cbor_value_at_end array")
    case False
    have 1: "parse_total err (parse_element pm array len k arr err m)" using parse_element_total [OF assms] Suc.prems(1) by blast
    show ?thesis unfolding parse_elements.simps if_not_P [OF False]
    proof (rule parse_total_bind [OF 1], goal_cases)
      case (1 e x)
      obtain stop arr' m' where x: "x = (stop, arr', m')" by (cases x) auto
      obtain e' array' where a: "cbor_value_advance array = (e', array')" by fastforce
      show ?case
      proof (cases "stop \<or> e \<noteq> 0")
        case False
        then have c: "cv_ok array" "length (cv_ptr array) < Suc n" "length (cv_ptr array) \<le> Suc L" using 1(2) Suc.prems(1) by auto
        then have "cv_ptr array \<noteq> []" using \<open>\<not> cbor_value_at_end array\<close> by (simp add: cv_ok_def cbor_value_at_end_def)
        then have n: "0 < n" using c(2) by (cases "cv_ptr array") simp_all
        have "cbor_error_code e' \<noteq> 0 \<or> cv_ok array' \<and> length (cv_ptr array') < n \<and> length (cv_ptr array') \<le> Suc L"
        proof (cases "e' = CborNoError")
          case True
          then show ?thesis using c a advance_ok [of array array'] by simp
        qed simp
        from Suc.IH [OF this n, of "k + 1" arr' m'] show ?thesis using False by (simp add: x a parse_total_error [of 0])
      qed (auto simp: x)
    qed
  qed simp
qed simp

lemma parse_value_total:
  assumes "members_total pm L" "err \<noteq> 0 \<or> cv_ok it \<and> length (cv_ptr it) \<le> Suc L" "Suc L < n"
  shows "parse_total err (parse_value pm n it err m)"
proof -
  obtain e cur where c: "cbor_value_enter_container it = (e, cur)" by fastforce
  have 1: "parse_total err (rep_bind (pm OBJECT_MEMBERS cur (err OR cbor_error_code e) m) (\<lambda>(err, ms, m). Inr (err, OC_REP_OBJECT ms, m)))"
    if "cv_type it = CborMapType"
    by (rule parse_total_error [of err "err OR cbor_error_code e"], simp, rule parse_total_bind [OF members_entered [OF assms(1) c _ assms(2)]]) (auto simp: that)
  have 2: "parse_total err (parse_array pm n it err m)" if t: "cv_type it = CborArrayType"
  proof -
    let ?err = "err OR cbor_error_code e"
    have a: "?err \<noteq> 0 \<or> cv_ok cur \<and> length (cv_ptr cur) < n \<and> length (cv_ptr cur) \<le> Suc L"
      using assms(2,3) c t enter_ok [of it cur] by (cases "e = CborNoError") auto
    have b: "parse_total ?err (if snd (cbor_value_get_length it) = 0 then count_elements n cur ?err 0 else Inr (?err, snd (cbor_value_get_length it), False))"
      using count_elements_total [of ?err cur n 0] a assms(3) by auto
    show ?thesis
      unfolding parse_array_def c prod.case Let_def
    proof (rule parse_total_error [of err ?err], simp, rule parse_total_bind [OF b], goal_cases)
      case (1 e' x)
      obtain len stop where x: "x = (len, stop)" by fastforce
      show ?case
      proof (cases "stop \<or> e' \<noteq> 0")
        case False
        then have "?err = 0" using 1(2) by auto
        then show ?thesis using False parse_elements_total [OF assms(1), of e' cur n] a assms(3) by (auto simp: x)
      next
        case True
        then show ?thesis using parse_elements_total [OF assms(1), of e' cur n] assms(3) by (auto simp: x)
      qed
    qed
  qed
  have 3: "parse_total err (rep_bind (parse_string it err m) (\<lambda>(err, data, m). Inr (err, f data, m)))" for f
    by (rule parse_total_bind [OF parse_string_total]) auto
  show ?thesis using 1 2 3 by (auto simp: parse_value_def c)
qed

lemma parse_rep_value_total:
  assumes "members_total pm L" "err \<noteq> 0 \<or> cv_ok it \<and> length (cv_ptr it) \<le> L + 2" "L + 2 < n"
  shows "parse_total err (oc_parse_rep_value pm n it err m)"
    "oc_parse_rep_value pm n it err m = Inr (0, it', x) \<Longrightarrow> err = 0 \<and> cv_ok it' \<and> length (cv_ptr it') < length (cv_ptr it)"
proof -
  have v: "parse_total e (parse_value pm n it' e m')" if "e = 0 \<longrightarrow> cv_ok it' \<and> length (cv_ptr it') < length (cv_ptr it)" "err = 0" for it' e m'
    using that assms by (intro parse_value_total [OF assms(1)]) auto
  have k: "(\<exists>e it'. parse_skip_tags n it 0 = Inr (e, it') \<and> (e = 0 \<longrightarrow> cv_ok it' \<and> length (cv_ptr it') < length (cv_ptr it)))"
    if "parse_string it err m' = Inr (0, data, m2)" "cv_type it = CborTextStringType" "err = 0" for m' data m2
    using that assms(2,3) skip_tags_from_key [OF that(1,2), of n 0] by auto
  show "parse_total err (oc_parse_rep_value pm n it err m)"
    unfolding oc_parse_rep_value_def
  proof (split option.split, intro conjI impI allI, simp, rule impI [THEN if_split [THEN iffD2, OF conjI]], goal_cases)
    case (2 m')
    then show ?case
    proof (intro impI parse_total_bind [OF parse_string_total], goal_cases)
      case (1 e y)
      obtain data m2 where y: "y = (data, m2)" by fastforce
      show ?case
      proof (cases "e = 0")
        case True
        then have e0: "err = 0" using 1 by auto
        obtain e' it' where t: "parse_skip_tags n it 0 = Inr (e', it')" "e' = 0 \<longrightarrow> cv_ok it' \<and> length (cv_ptr it') < length (cv_ptr it)"
          using k [of m' data m2] 1 y True e0 by auto
        show ?thesis
          by (simp add: y True t(1), rule parse_total_error [of 0 e'], simp, rule parse_total_bind [OF v [OF t(2) e0]]) auto
      qed (simp add: y)
    qed
  qed simp
  assume r: "oc_parse_rep_value pm n it err m = Inr (0, it', x)"
  obtain m' where m': "alloc_rep m = Some m'" using r by (auto simp: oc_parse_rep_value_def split: option.splits)
  have t: "cv_type it = CborTextStringType" using r m' by (auto simp: oc_parse_rep_value_def split: if_splits)
  obtain e data m2 where p: "parse_string it err m' = Inr (e, data, m2)" using r m' t by (cases "parse_string it err m'") (auto simp: oc_parse_rep_value_def)
  have e: "e = 0" using r m' t p by (auto simp: oc_parse_rep_value_def split: if_splits)
  then have e0: "err = 0" using parse_string_total [of err it m'] p by auto
  obtain e2 it2 where s: "parse_skip_tags n it 0 = Inr (e2, it2)" "e2 = 0 \<longrightarrow> cv_ok it2 \<and> length (cv_ptr it2) < length (cv_ptr it)"
    using k [OF p [unfolded e] t e0] by blast
  have "parse_total e2 (parse_value pm n it2 e2 m2)" by (rule v [OF s(2) e0])
  then show "err = 0 \<and> cv_ok it' \<and> length (cv_ptr it') < length (cv_ptr it)"
    using r m' t p e e0 s by (cases "parse_value pm n it2 e2 m2") (auto simp: oc_parse_rep_value_def)
qed

lemma parse_rep_value_error:
  assumes "err \<noteq> 0"
  shows "\<exists>e cur' rep m'. e \<noteq> 0 \<and> oc_parse_rep_value pm n cur err m = Inr (e, cur', rep, m')"
proof (cases "alloc_rep m")
  case (Some m')
  obtain e len where l: "cbor_value_calculate_string_length cur = (e, len)" by fastforce
  then have "parse_string cur err m' = Inr (err OR cbor_error_code e, [], m')" using assms by (simp add: parse_string_def)
  then show ?thesis using Some assms by (simp add: oc_parse_rep_value_def)
qed (simp add: oc_parse_rep_value_def)

lemma members_total_error:
  assumes "err \<noteq> 0"
  shows "parse_total err (parse_members (Suc n) l cur err m)"
  using parse_rep_value_error [OF assms, of "parse_members n" n cur m] by (auto split: option.split)

lemma parse_members_total: "L + 3 \<le> n \<Longrightarrow> members_total (parse_members n) L"
proof (induction n arbitrary: L rule: less_induct)
  case (less n)
  obtain k where k: "n = Suc k" using less.prems by (cases n) auto
  have "parse_total err (parse_members n l cur err m)" if c: "err = 0" "cv_ok cur" "length (cv_ptr cur) \<le> L" for l cur err m
  proof (cases "members_end l cur")
    case True
    then show ?thesis by (simp add: k)
  next
    case False
    have p: "cv_ptr cur \<noteq> []" using False c(2) by (auto simp: members_end_def cv_ok_def cbor_value_at_end_def split: if_splits)
    then have l: "0 < L" using c(3) by (cases "cv_ptr cur") auto
    have pm: "members_total (parse_members k) (L - 1)" using less l k by simp
    have a: "err \<noteq> 0 \<or> cv_ok cur \<and> length (cv_ptr cur) \<le> L - 1 + 2" "L - 1 + 2 < k" using c l less.prems k by auto
    note v = parse_rep_value_total [OF pm a]
    show ?thesis unfolding k parse_members.simps if_not_P [OF False]
    proof (rule parse_total_bind [OF v(1)], goal_cases)
      case (1 e x)
      obtain cur' rep m' where x: "x = (cur', rep, m')" by (cases x) auto
      obtain e' cur2 where d: "cbor_value_advance cur' = (e', cur2)" by fastforce
      have "parse_total 0 (parse_members k l cur2 (cbor_error_code e') m')" if "e = 0"
      proof -
        have "cv_ok cur'" "length (cv_ptr cur') < length (cv_ptr cur)" using v(2) 1 x that by auto
        then have "cbor_error_code e' \<noteq> 0 \<or> cv_ok cur2 \<and> length (cv_ptr cur2) \<le> L - 1"
          using d advance_ok [of cur' cur2] c(3) by (cases "e' = CborNoError") auto
        from members_totalD [OF pm this] show ?thesis by (rule parse_total_error [rotated]) simp
      qed
      then show ?case by (auto simp: x d split: option.splits intro!: parse_total_bind)
    qed
  qed
  moreover have "parse_total err (parse_members n l cur err m)" if "err \<noteq> 0" for l cur err m
    unfolding k using that by (rule members_total_error)
  ultimately show ?case unfolding members_total_def by blast
qed

lemma parse_root_array_total:
  "err \<noteq> 0 \<and> 2 \<le> n \<or> cv_ok cur \<and> length (cv_ptr cur) + 4 \<le> n \<Longrightarrow> parse_total err (parse_root_array n cur err m)"
proof (induction n arbitrary: cur err m)
  case (Suc n)
  obtain e v where c: "cbor_value_enter_container cur = (e, v)" by fastforce
  show ?case
  proof (cases "cv_type cur = CborInvalidType \<or> alloc_rep m = None")
    case False
    then obtain m' where m': "alloc_rep m = Some m'" by blast
    have a: "parse_total (err OR cbor_error_code e) (parse_members n ROOT_MEMBERS v (err OR cbor_error_code e) m')"
    proof (cases "err = 0")
      case True
      then have "members_total (parse_members n) (length (cv_ptr cur))" using Suc.prems by (intro parse_members_total) simp
      then show ?thesis using True Suc.prems False by (intro members_entered [OF _ c]) auto
    next
      case False
      then show ?thesis using members_total_error [of "err OR cbor_error_code e"] Suc.prems by (cases n) auto
    qed
    have "parse_total (err OR cbor_error_code e) (rep_bind (parse_members n ROOT_MEMBERS v (err OR cbor_error_code e) m') (\<lambda>(err, kvs, m).
        if err \<noteq> 0 then Inr (err, [([], OC_REP_OBJECT kvs)], m)
        else case cbor_value_advance cur of (e, cur_map) \<Rightarrow>
          rep_bind (parse_root_array n cur_map (err OR cbor_error_code e) m) (\<lambda>(err, os, m). Inr (err, ([], OC_REP_OBJECT kvs) # os, m))))"
    proof (rule parse_total_bind [OF a], goal_cases)
      case (1 e2 x)
      obtain kvs m2 where x: "x = (kvs, m2)" by fastforce
      obtain e' cur2 where d: "cbor_value_advance cur = (e', cur2)" by fastforce
      have "parse_total 0 (parse_root_array n cur2 (cbor_error_code e') m2)" if "e2 = 0"
      proof -
        have k: "cv_ok cur" "length (cv_ptr cur) + 4 \<le> Suc n" "cv_ptr cur \<noteq> []" using 1 that Suc.prems False by (auto simp: cv_ok_def)
        then have "2 \<le> n" by (cases "cv_ptr cur") auto
        then have "cbor_error_code e' \<noteq> 0 \<and> 2 \<le> n \<or> cv_ok cur2 \<and> length (cv_ptr cur2) + 4 \<le> n"
          using d advance_ok [of cur cur2] k by (cases "e' = CborNoError") auto
        from Suc.IH [OF this] show ?thesis by (rule parse_total_error [rotated]) simp
      qed
      then show ?case by (auto simp: x d intro!: parse_total_bind)
    qed
    then show ?thesis using False m' by (auto simp: c intro: parse_total_error [of err "err OR cbor_error_code e"])
  qed auto
qed simp

lemma parser_init_ok: "cbor_parser_init payload = (CborNoError, it) \<Longrightarrow> cv_ok it \<and> cv_ptr it = payload"
  using preparse_value_ok preparse_value_ptr unfolding cbor_parser_init_def by (metis CborValue.select_convs(1) snd_conv fst_conv)

lemma parse_rep_total: "oc_parse_rep m payload \<noteq> Inl CALLS_EXHAUSTED"
proof -
  obtain e root where i: "cbor_parser_init payload = (e, root)" by fastforce
  obtain e2 cur where c: "cbor_value_enter_container root = (e2, cur)" by fastforce
  let ?err = "cbor_error_code e OR cbor_error_code e2"
  have k: "?err \<noteq> 0 \<or> cv_ok cur \<and> length (cv_ptr cur) \<le> length payload" if "cv_type root \<noteq> CborInvalidType"
    using i c parser_init_ok [of payload root] enter_ok [of root cur] that by (cases "e = CborNoError"; cases "e2 = CborNoError") auto
  have "parse_total ?err (parse_members (parse_calls payload) ROOT_MEMBERS cur ?err m)" if "cv_type root = CborMapType"
    using members_totalD [OF parse_members_total [of "length payload" "parse_calls payload"]] k that by (simp add: parse_calls_def)
  moreover have "parse_total ?err (parse_root_array (parse_calls payload) cur ?err m)" if "cv_type root = CborArrayType"
    using parse_root_array_total [of ?err "parse_calls payload" cur] k that by (auto simp: parse_calls_def)
  ultimately show ?thesis
    by (auto simp: oc_parse_rep_def i c Let_def rep_bind_exhausted)
qed

text \<open>C20. Decoding a payload ends on every input, however containers, tags and strings of unknown length are nested: the parser returns an
  error code and what it has decoded, or leaves its memory in one of four ways.\<close>

theorem parse_rep_returns:
  "(\<exists>err rep. oc_parse_rep m payload = Inr (err, rep)) \<or>
   oc_parse_rep m payload \<in> {Inl NULL_POINTER, Inl POOL_EXHAUSTED, Inl OUT_OF_BOUNDS, Inl ELEMENT_CONFUSION}"
proof (cases "oc_parse_rep m payload")
  case (Inl f)
  then show ?thesis using parse_rep_total [of m payload] by (cases f) auto
qed auto

section \<open>What is encoded is what is parsed\<close>

subsection \<open>The encoder\<close>

fun value_bytes :: "oc_rep_value \<Rightarrow> bytes" where
  "value_bytes (OC_REP_INT i) = number_bytes (word_of_int i) 0"
| "value_bytes (OC_REP_BYTE_STRING data) = string_bytes CborByteStringType data"
| "value_bytes _ = []"

definition member_bytes :: "string \<times> oc_rep_value \<Rightarrow> bytes" where
  "member_bytes r = string_bytes CborTextStringType (name_bytes (fst r)) @ value_bytes (snd r)"

definition object_bytes :: "oc_rep \<Rightarrow> bytes" where
  "object_bytes rep = 0xbf # concat (map member_bytes rep) @ [BreakByte]"

text \<open>Properties of the requests that devices send each other: numbers and byte strings.\<close>

fun flat_value :: "oc_rep_value \<Rightarrow> bool" where
  "flat_value (OC_REP_INT i) \<longleftrightarrow> 0 \<le> i \<and> i < 2 ^ 63"
| "flat_value (OC_REP_BYTE_STRING data) \<longleftrightarrow> length data < 256"
| "flat_value _ \<longleftrightarrow> False"

definition flat_rep :: "oc_rep \<Rightarrow> bool" where
  "flat_rep rep \<longleftrightarrow> list_all (\<lambda>(key, v). flat_value v \<and> length key < 256 \<and> list_all (\<lambda>c. c \<noteq> CHR 0x00) key) rep"

definition enc_ready :: "CborEncoder \<Rightarrow> bool" where
  "enc_ready enc \<longleftrightarrow> enc_end enc \<and> length (enc_written enc) \<le> enc_size enc"

definition enc_adds :: "rep_encoder \<Rightarrow> bytes \<Rightarrow> rep_encoder \<Rightarrow> bool" where
  "enc_adds g bs g' \<longleftrightarrow> fst g' = fst g \<and> enc_ready (snd g') \<and> enc_size (snd g') = enc_size (snd g) \<and> enc_flags (snd g') = enc_flags (snd g) \<and>
     enc_written (snd g') = enc_written (snd g) @ bs"

lemma enc_adds_trans: "enc_adds g bs g' \<Longrightarrow> enc_adds g' bs' g'' \<Longrightarrow> enc_adds g (bs @ bs') g''"
  by (simp add: enc_adds_def)

lemma append_success:
  assumes "append_to_buffer enc data = (CborNoError, enc')" "enc_ready enc"
  shows "enc' = enc\<lparr>enc_written := enc_written enc @ data\<rparr> \<and> enc_ready enc'"
proof (cases "length (enc_written enc) + length data \<le> enc_size enc")
  case True
  then have "append_to_buffer enc data = (CborNoError, enc\<lparr>enc_written := enc_written enc @ data\<rparr>)"
    using assms(2) by (intro append_fits) (simp_all add: enc_ready_def)
  then have "enc' = enc\<lparr>enc_written := enc_written enc @ data\<rparr>" using assms(1) by simp
  then show ?thesis using True assms(2) by (simp add: enc_ready_def)
next
  case False
  then have "fst (append_to_buffer enc data) = CborErrorOutOfMemory" using assms(2) append_overflows [of enc data] by (simp add: enc_ready_def)
  then show ?thesis using assms(1) by simp
qed

lemma step_adds:
  assumes "fst (rep_step f (g_err, enc)) = 0" "enc_ready enc"
    "\<And>enc'. f enc = (CborNoError, enc') \<Longrightarrow> enc_ready enc' \<and> enc_size enc' = enc_size enc \<and> enc_flags enc' = enc_flags enc \<and> enc_written enc' = enc_written enc @ bs"
  shows "g_err = 0 \<and> enc_adds (g_err, enc) bs (rep_step f (g_err, enc))"
proof -
  obtain e enc' where f: "f enc = (e, enc')" by fastforce
  then have "g_err = 0" "e = CborNoError" using assms(1) by (simp_all add: rep_step_def)
  then show ?thesis using assms(3) [of enc'] f by (simp add: rep_step_def enc_adds_def cbor_error_code_def)
qed

lemma string_success:
  "encode_string enc mt data = (CborNoError, enc') \<Longrightarrow> enc_ready enc \<Longrightarrow>
   enc_ready enc' \<and> enc_size enc' = enc_size enc \<and> enc_flags enc' = enc_flags enc \<and> enc_written enc' = enc_written enc @ string_bytes mt data"
  using encode_string_success [of enc mt data enc'] by (auto simp: enc_ready_def)

lemma number_success:
  "encode_number enc ui mt = (CborNoError, enc') \<Longrightarrow> enc_ready enc \<Longrightarrow>
   enc_ready enc' \<and> enc_size enc' = enc_size enc \<and> enc_flags enc' = enc_flags enc \<and> enc_written enc' = enc_written enc @ number_bytes ui mt"
  using append_success [of "saturated_decrement enc" "number_bytes ui mt" enc']
  by (auto simp: encode_number_def encode_number_no_update_def saturated_decrement_eq enc_ready_def)

lemma step_error: "fst (rep_step f g) = 0 \<Longrightarrow> fst g = 0"
  by (auto simp: rep_step_def split: prod.splits)

lemma encode_key_adds:
  assumes "fst (oc_rep_set_key key (0, enc)) = 0" "enc_ready enc"
  shows "enc_adds (0, enc) (string_bytes CborTextStringType (name_bytes key)) (oc_rep_set_key key (0, enc))"
  using step_adds [of "\<lambda>enc. cbor_encode_text_string enc (name_bytes key)" 0 enc] assms string_success [OF _ assms(2)]
  by (simp add: oc_rep_set_key_def cbor_encode_text_string_def)

lemma encode_value_adds:
  assumes "fst (rep_encode_value v (g_err, enc)) = 0" "flat_value v"
  shows "g_err = 0" "enc_ready enc \<Longrightarrow> enc_adds (0, enc) (value_bytes v) (rep_encode_value v (0, enc))"
proof -
  show g: "g_err = 0" using assms by (cases v) (auto dest: step_error)
  show "enc_adds (0, enc) (value_bytes v) (rep_encode_value v (0, enc))" if r: "enc_ready enc"
  proof (cases v)
    case (OC_REP_INT i)
    have z: "cbor_encode_int enc i = encode_number enc (word_of_int i) 0" using assms(2) OC_REP_INT by (simp add: cbor_encode_int_def)
    show ?thesis using step_adds [of "\<lambda>enc. cbor_encode_int enc i" 0 enc] number_success [OF _ r] assms(1) g r z OC_REP_INT by simp
  next
    case (OC_REP_BYTE_STRING data)
    then show ?thesis using step_adds [of "\<lambda>enc. cbor_encode_byte_string enc data" 0 enc] string_success [OF _ r] assms(1) g r
      by (simp add: cbor_encode_byte_string_def)
  qed (use assms(2) in simp_all)
qed

lemma members_error: "fst (rep_encode_members rep g) = 0 \<Longrightarrow> flat_rep rep \<Longrightarrow> fst g = 0"
proof (induction rep arbitrary: g)
  case (Cons r rep)
  obtain key v where r: "r = (key, v)" by fastforce
  have f: "flat_value v" "flat_rep rep" using Cons.prems(2) by (simp_all add: flat_rep_def r)
  have "fst (rep_encode_value v (oc_rep_set_key key g)) = 0" using Cons.IH [OF _ f(2)] Cons.prems(1) by (simp add: r)
  then have "fst (oc_rep_set_key key g) = 0" using encode_value_adds(1) [of v "fst (oc_rep_set_key key g)" "snd (oc_rep_set_key key g)"] f(1) by simp
  then show ?case unfolding oc_rep_set_key_def by (rule step_error)
qed simp

lemma encode_members_adds:
  assumes "fst (rep_encode_members rep (0, enc)) = 0" "flat_rep rep" "enc_ready enc"
  shows "enc_adds (0, enc) (concat (map member_bytes rep)) (rep_encode_members rep (0, enc))"
  using assms
proof (induction rep arbitrary: enc)
  case Nil then show ?case by (simp add: enc_adds_def)
next
  case (Cons r rep)
  obtain key v where r: "r = (key, v)" by fastforce
  obtain g1 enc1 where k: "oc_rep_set_key key (0, enc) = (g1, enc1)" by fastforce
  obtain g2 enc2 where v: "rep_encode_value v (g1, enc1) = (g2, enc2)" by fastforce
  have f: "flat_value v" "flat_rep rep" using Cons.prems(2) by (simp_all add: flat_rep_def r)
  have m: "fst (rep_encode_members rep (g2, enc2)) = 0" using Cons.prems(1) by (simp add: r k v)
  have g2: "g2 = 0" using members_error [OF m f(2)] by simp
  have g1: "g1 = 0" using encode_value_adds(1) [of v g1 enc1] v g2 f(1) by simp
  have a: "enc_adds (0, enc) (string_bytes CborTextStringType (name_bytes key)) (0, enc1)" using encode_key_adds [of key enc] Cons.prems(3) k g1 by simp
  then have b: "enc_adds (0, enc1) (value_bytes v) (0, enc2)" using encode_value_adds(2) [of v 0 enc1] v g1 g2 f(1) by (simp add: enc_adds_def)
  then have "enc_adds (0, enc2) (concat (map member_bytes rep)) (rep_encode_members rep (0, enc2))"
    using Cons.IH [of enc2] m g2 f(2) by (simp add: enc_adds_def)
  from enc_adds_trans [OF enc_adds_trans [OF a b] this] show ?case
    using k v unfolding g1 g2 by (simp add: r member_bytes_def [of "(key, v)"])
qed

lemma encode_root_bytes:
  assumes "fst (rep_encode_root rep (oc_rep_new n)) = 0" "flat_rep rep"
  shows "enc_written (snd (rep_encode_root rep (oc_rep_new n))) = object_bytes rep" "length (object_bytes rep) \<le> n"
proof -
  let ?enc = "cbor_encoder_init n"
  let ?c0 = "?enc\<lparr>enc_remaining := 0, enc_flags := 0x24\<rparr>"
  obtain e c where c: "append_to_buffer ?c0 [0xbf] = (e, c)" by fastforce
  obtain g c' where m: "rep_encode_members rep (cbor_error_code e, c) = (g, c')" by fastforce
  obtain e' enc' where cl: "cbor_encoder_close_container (saturated_decrement ?enc) c' = (e', enc')" by fastforce
  have root: "rep_encode_root rep (oc_rep_new n) = (g OR cbor_error_code e', enc')"
    using c m cl by (simp add: rep_encode_root_def rep_container_def oc_rep_new_def create_indefinite_container_def rep_step_def Let_def)
  then have z: "g = 0" "e' = CborNoError" using assms(1) by simp_all
  then have e: "e = CborNoError" using members_error [of rep "(cbor_error_code e, c)"] m assms(2) by simp
  have r0: "enc_ready ?c0" by (simp add: enc_ready_def cbor_encoder_init_def)
  have c2: "c = ?c0\<lparr>enc_written := [0xbf]\<rparr>" "enc_ready c" using append_success [OF c [unfolded e] r0] by (auto simp: cbor_encoder_init_def)
  have a: "enc_adds (0, c) (concat (map member_bytes rep)) (0, c')"
    using encode_members_adds [of rep c] m z e c2(2) assms(2) by (simp add: cbor_error_code_def)
  let ?p = "(saturated_decrement ?enc)\<lparr>enc_written := enc_written c', bytes_needed := bytes_needed c', enc_end := enc_end c'\<rparr>"
  have "append_to_buffer ?p [0xff] = (CborNoError, enc')"
    using cl z a c2(1) by (simp add: cbor_encoder_close_container_def enc_adds_def Let_def)
  moreover have "enc_ready ?p" using a c2(1) by (auto simp: enc_adds_def enc_ready_def saturated_decrement_eq cbor_encoder_init_def)
  ultimately have "enc' = ?p\<lparr>enc_written := enc_written ?p @ [0xff]\<rparr>" "enc_ready enc'" using append_success by blast+
  then show "enc_written (snd (rep_encode_root rep (oc_rep_new n))) = object_bytes rep" "length (object_bytes rep) \<le> n"
    using a c2(1) unfolding root by (auto simp: enc_adds_def enc_ready_def object_bytes_def saturated_decrement_eq cbor_encoder_init_def)
qed

subsection \<open>The parser\<close>

text \<open>A position in an object of unknown length: before a member, at the value of a member.\<close>

definition before_member :: "CborValue \<Rightarrow> bytes \<Rightarrow> bool" where
  "before_member x bs \<longleftrightarrow> cv_ptr x = bs \<and> cv_remaining x = UINT32_MAX \<and> cv_flags x AND 0x60 = 0x20 \<and> cv_type x \<noteq> CborTagType"

definition at_member :: "CborValue \<Rightarrow> bytes \<Rightarrow> bool" where
  "at_member it bs \<longleftrightarrow> (\<exists>x. before_member x bs \<and> preparse_next_value_nodecrement x = (CborNoError, it))"

lemma head_not_break: "mt \<in> set major_types \<Longrightarrow> hd (number_bytes ui mt @ rest) \<noteq> BreakByte"
  using head_major_type [of mt ui rest] by auto

lemma nodecrement_head:
  assumes "mt \<in> set major_types" "cv_ptr x = number_bytes ui mt @ rest" "cv_remaining x = UINT32_MAX"
  obtains it where "preparse_next_value_nodecrement x = (CborNoError, it)" "value_at it mt ui rest UINT32_MAX (cv_flags x)"
proof -
  have "preparse_next_value_nodecrement x = preparse_value x"
    using head_not_break [OF assms(1)] assms(2) unfolding preparse_next_value_nodecrement_def by simp
  then show ?thesis using preparse_value_at [OF assms(1,2)] assms(3) that by metis
qed

lemma at_member_key:
  assumes "at_member it (string_bytes 0x60 key @ rest)"
  shows "\<exists>f. value_at it 0x60 (word_of_nat (length key)) (key @ rest) UINT32_MAX f \<and> f AND 0x60 = 0x20"
proof -
  obtain x where x: "before_member x (string_bytes 0x60 key @ rest)" "preparse_next_value_nodecrement x = (CborNoError, it)"
    using assms by (auto simp: at_member_def)
  then show ?thesis
    using nodecrement_head [where mt = "0x60" and x = x and ui = "word_of_nat (length key)" and rest = "key @ rest"] by (auto simp: before_member_def string_bytes_def)
qed

lemma at_member_break:
  assumes "at_member it (BreakByte # rest)"
  shows "cv_type it = CborInvalidType" "cv_remaining it = 0"
proof -
  obtain x where x: "before_member x (BreakByte # rest)" "preparse_next_value_nodecrement x = (CborNoError, it)"
    using assms by (auto simp: at_member_def)
  have "cv_flags x AND 0x40 = (cv_flags x AND 0x60) AND 0x40" by (simp add: and.assoc)
  then have "cv_flags x AND 0x40 = 0" using x(1) by (simp add: before_member_def)
  then show "cv_type it = CborInvalidType" "cv_remaining it = 0"
    using x by (auto simp: before_member_def preparse_next_value_nodecrement_def split: if_splits)
qed

lemma before_member_next:
  assumes "before_member x bs" "bs = BreakByte # rest \<or> bs = string_bytes 0x60 key @ rest"
  shows "\<exists>it. preparse_next_value_nodecrement x = (CborNoError, it) \<and> at_member it bs"
  using assms(2)
proof
  assume b: "bs = BreakByte # rest"
  have "cv_flags x AND 0x40 = (cv_flags x AND 0x60) AND 0x40" by (simp add: and.assoc)
  then have "cv_flags x AND 0x40 = 0" using assms(1) by (simp add: before_member_def)
  then have "fst (preparse_next_value_nodecrement x) = CborNoError"
    using assms(1) b by (simp add: before_member_def preparse_next_value_nodecrement_def)
  then show ?thesis using assms(1) unfolding at_member_def by (metis prod.collapse)
next
  assume b: "bs = string_bytes 0x60 key @ rest"
  have p: "cv_ptr x = number_bytes (word_of_nat (length key)) 0x60 @ key @ rest" "cv_remaining x = UINT32_MAX"
    using assms(1) b by (simp_all add: before_member_def string_bytes_def)
  obtain it where "preparse_next_value_nodecrement x = (CborNoError, it)"
    using nodecrement_head [OF _ p] by auto
  then show ?thesis using assms(1) unfolding at_member_def by blast
qed

text \<open>From one value to the next the flag for keys changes.\<close>

lemma next_in_object:
  assumes "cv_remaining y = UINT32_MAX" "cv_type y \<noteq> CborTagType"
  shows "preparse_next_value y = preparse_next_value_nodecrement (y\<lparr>cv_flags := cv_flags y XOR 0x40\<rparr>)"
  using assms by (simp add: preparse_next_value_def Let_def)

lemma flags_xor: "((f :: u8) XOR 0x40) AND 0x60 = (f AND 0x60) XOR 0x40"
  by (simp add: bit.conj_xor_distrib2)

lemma string_at:
  assumes "value_at it mt (word_of_nat (length data)) (data @ rest) UINT32_MAX f" "mt \<in> {0x40, 0x60}" "length data < 256"
    "preparse_next_value_nodecrement (it\<lparr>cv_ptr := rest, cv_flags := (cv_flags it OR 2) XOR 0x40\<rparr>) = (CborNoError, it')"
  shows "length data < avail_bytes m \<Longrightarrow> parse_string it 0 m = Inr (0, data, m\<lparr>avail_bytes := avail_bytes m - (length data + 1)\<rparr>)"
    "cbor_value_advance it = (CborNoError, it')"
proof -
  have t: "cv_type it = mt" "cv_remaining it = UINT32_MAX" "cv_ptr it = string_bytes mt data @ rest"
    using assms(1) by (simp_all add: value_at_def string_bytes_def)
  have n: "preparse_next_value (it\<lparr>cv_ptr := rest, cv_flags := cv_flags it OR 2\<rparr>) = (CborNoError, it')"
    using assms(2,4) t by (subst next_in_object) auto
  have c: "cbor_value_copy_string it buflen = (if int (length data) \<le> buflen then CborNoError else CborErrorOutOfMemory, data, it')" for buflen
    using copy_string_head [OF assms(2) t(3,1) value_at_flags [OF assms(1)] _ n, of buflen] assms(3) by simp
  show "parse_string it 0 m = Inr (0, data, m\<lparr>avail_bytes := avail_bytes m - (length data + 1)\<rparr>)" if "length data < avail_bytes m"
    using that assms(3) by (simp add: parse_string_def cbor_value_calculate_string_length_def c alloc_bytes_def cbor_error_code_def)
  obtain k where k: "2 * length (cv_ptr it) = Suc k" using t(3) number_bytes_not_Nil [of _ mt] by (cases "2 * length (cv_ptr it)") (auto simp: string_bytes_def)
  show "cbor_value_advance it = (CborNoError, it')"
    using t(1,2) assms(2,3) unfolding cbor_value_advance_def k
    by (auto simp: is_fixed_type_def cbor_value_is_container_def c)
qed

lemma int_at:
  assumes "value_at it 0 (word_of_int i) rest UINT32_MAX f" "0 \<le> i" "i < 2 ^ 63"
    "preparse_next_value_nodecrement (it\<lparr>cv_ptr := rest, cv_flags := cv_flags it XOR 0x40\<rparr>) = (CborNoError, it')"
  shows "cbor_value_get_int64 it = i" "cbor_value_advance it = (CborNoError, it')"
proof -
  have t: "cv_type it = 0" "cv_remaining it = UINT32_MAX" "cv_ptr it = number_bytes (word_of_int i) 0 @ rest"
    using assms(1) by (simp_all add: value_at_def)
  have "sint (word_of_int i :: u64) = i" using assms(2,3) by (simp add: sint_sbintrunc' signed_take_bit_int_eq_self)
  then show "cbor_value_get_int64 it = i"
    using assms(1) value_at_flags(1) [OF assms(1)] by (simp add: cbor_value_get_int64_def value_at_def)
  obtain k where k: "2 * length (cv_ptr it) = Suc k" using t(3) number_bytes_not_Nil [of _ 0] by (cases "2 * length (cv_ptr it)") auto
  have "preparse_next_value (it\<lparr>cv_ptr := rest\<rparr>) = (CborNoError, it')"
    using assms(4) t by (subst next_in_object) auto
  then show "cbor_value_advance it = (CborNoError, it')"
    using t extract_number_head [of 0 "word_of_int i" rest] unfolding cbor_value_advance_def k
    by (simp add: is_fixed_type_def advance_internal_def)
qed

text \<open>Memory for the members of a flat object.\<close>

fun value_memory :: "oc_rep_value \<Rightarrow> nat" where
  "value_memory (OC_REP_BYTE_STRING data) = length data + 1"
| "value_memory _ = 0"

definition rep_memory :: "oc_rep \<Rightarrow> nat" where
  "rep_memory rep = sum_list (map (\<lambda>(key, v). length key + 1 + value_memory v) rep)"

lemma unat_of_char: "unat (of_char c :: u8) = of_char c"
proof -
  have "(of_char c :: nat) < 256" by (simp add: nat_of_char_less_256)
  then have "unat (word_of_nat (of_char c) :: u8) = of_char c" by (intro unat_word_of_nat_small) simp
  then show ?thesis by (simp add: of_nat_of_char)
qed

lemma name_of_bytes:
  assumes "list_all (\<lambda>c. c \<noteq> CHR 0x00) key"
  shows "name_string (name_bytes key) = key"
proof -
  have "(of_char c :: u8) \<noteq> 0" if "c \<noteq> CHR 0x00" for c
  proof
    assume "(of_char c :: u8) = 0"
    then have "of_char c = (0 :: nat)" using unat_of_char [of c] by simp
    then have "c = char_of (0 :: nat)" by (metis char_of_char)
    then show False using that by (simp add: char_of_def)
  qed
  then have t: "takeWhile (\<lambda>b. b \<noteq> 0) (name_bytes key) = name_bytes key" using assms by (simp add: name_bytes_def list_all_iff takeWhile_eq_all_conv)
  show ?thesis unfolding name_string_def t by (simp add: path_string_def name_bytes_def unat_of_char comp_def)
qed

lemma length_name_bytes [simp]: "length (name_bytes key) = length key"
  by (simp add: name_bytes_def)

lemma parse_member:
  assumes "at_member it (member_bytes (key, v) @ rest)" "flat_rep [(key, v)]" "rest = BreakByte # rest' \<or> rest = string_bytes 0x60 key' @ rest'"
    "0 < free_reps m" "rep_memory [(key, v)] \<le> avail_bytes m" "0 < n"
  shows "\<exists>it2 it3. oc_parse_rep_value pm n it 0 m =
      Inr (0, it2, Some (key, v), m\<lparr>free_reps := free_reps m - 1, avail_bytes := avail_bytes m - rep_memory [(key, v)]\<rparr>) \<and>
    cbor_value_advance it2 = (CborNoError, it3) \<and> at_member it3 rest"
proof -
  obtain k where n: "n = Suc k" using assms(6) by (cases n) auto
  have fk: "flat_value v" "length key < 256" "list_all (\<lambda>c. c \<noteq> CHR 0x00) key" using assms(2) by (simp_all add: flat_rep_def)
  obtain f where f: "value_at it 0x60 (word_of_nat (length key)) (name_bytes key @ value_bytes v @ rest) UINT32_MAX f" "f AND 0x60 = 0x20"
    using at_member_key [of it "name_bytes key" "value_bytes v @ rest"] assms(1) by (auto simp: member_bytes_def)
  let ?x = "it\<lparr>cv_ptr := value_bytes v @ rest, cv_flags := (cv_flags it OR 2) XOR 0x40\<rparr>"
  have small: "\<not> 0xffff < (word_of_nat l :: u64)" if "l < 256" for l using that by (simp add: word_less_nat_alt unat_word_of_nat_small)
  have x: "cv_remaining ?x = UINT32_MAX" "cv_flags ?x = 0x62" "cv_type it = 0x60" using f small [OF fk(2)] by (simp_all add: value_at_def)
  obtain mt ui r2 where h: "mt \<in> {0, 0x40}" "value_bytes v @ rest = number_bytes ui mt @ r2" "cv_ptr ?x = number_bytes ui mt @ r2"
      "(\<exists>i. v = OC_REP_INT i \<and> mt = 0 \<and> ui = word_of_int i \<and> r2 = rest) \<or>
       (\<exists>data. v = OC_REP_BYTE_STRING data \<and> mt = 0x40 \<and> ui = word_of_nat (length data) \<and> r2 = data @ rest)"
  proof (cases v)
    case (OC_REP_INT i) then show thesis by (intro that [where mt = 0 and ui = "word_of_int i" and ?r2.0 = rest]) auto
  next
    case (OC_REP_BYTE_STRING data) then show thesis by (intro that [where mt = "0x40" and ui = "word_of_nat (length data)" and ?r2.0 = "data @ rest"]) (auto simp: string_bytes_def)
  qed (use fk(1) in simp_all)
  obtain itv where v: "preparse_next_value_nodecrement ?x = (CborNoError, itv)" "value_at itv mt ui r2 UINT32_MAX 0x62"
    using nodecrement_head [OF _ h(3) x(1)] h(1) x(2) by auto
  have fl: "cv_flags itv = 0x60 \<or> cv_flags itv = 0x61" using v(2) by (simp add: value_at_def)
  let ?m = "m\<lparr>free_reps := free_reps m - 1\<rparr>"
  let ?m2 = "?m\<lparr>avail_bytes := avail_bytes m - (length key + 1)\<rparr>"
  have k: "parse_string it 0 ?m = Inr (0, name_bytes key, ?m2)" "cbor_value_advance it = (CborNoError, itv)"
    using string_at(1) [of it "0x60" "name_bytes key" "value_bytes v @ rest" f itv ?m] string_at(2) [of it "0x60" "name_bytes key" "value_bytes v @ rest" f itv] f v(1) fk(2) assms(5) by (auto simp: rep_memory_def)
  have t: "parse_skip_tags n it 0 = Inr (0, itv)" using k(2) v(2) h(1) by (auto simp: n cbor_error_code_def value_at_def)
  have next_member: "\<exists>it3. preparse_next_value_nodecrement y = (CborNoError, it3) \<and> at_member it3 rest"
    if "y = itv\<lparr>cv_ptr := rest, cv_flags := fl\<rparr>" "fl AND 0x60 = 0x20" for y fl
    using that v(2) h(1) by (intro before_member_next [OF _ assms(3)]) (auto simp: before_member_def value_at_def)
  have rep: "oc_parse_rep_value pm n it 0 m = rep_bind (parse_value pm n itv 0 ?m2) (\<lambda>(err, v, m). Inr (err, itv, Some (key, v), m))"
    using assms(4) x(3) k(1) t name_of_bytes [OF fk(3)] by (simp add: oc_parse_rep_value_def alloc_rep_def)
  from h(4) show ?thesis
  proof (elim disjE exE conjE)
    fix i assume i: "v = OC_REP_INT i" "mt = 0" "ui = word_of_int i" "r2 = rest"
    have "(cv_flags itv XOR 0x40) AND 0x60 = 0x20" using fl by auto
    then obtain it3 where it3: "preparse_next_value_nodecrement (itv\<lparr>cv_ptr := rest, cv_flags := cv_flags itv XOR 0x40\<rparr>) = (CborNoError, it3)" "at_member it3 rest"
      using next_member by blast
    have "cbor_value_get_int64 itv = i" "cbor_value_advance itv = (CborNoError, it3)"
      using int_at [of itv i rest "0x62" it3] v(2) i it3(1) fk(1) by simp_all
    moreover have "cv_type itv = 0" using v(2) i by (simp add: value_at_def)
    ultimately show ?thesis using rep it3(2) i by (simp add: parse_value_def rep_memory_def)
  next
    fix data assume d: "v = OC_REP_BYTE_STRING data" "mt = 0x40" "ui = word_of_nat (length data)" "r2 = data @ rest"
    have "((cv_flags itv OR 2) XOR 0x40) AND 0x60 = 0x20" using fl by auto
    then obtain it3 where it3: "preparse_next_value_nodecrement (itv\<lparr>cv_ptr := rest, cv_flags := (cv_flags itv OR 2) XOR 0x40\<rparr>) = (CborNoError, it3)" "at_member it3 rest"
      using next_member by blast
    have "parse_string itv 0 ?m2 = Inr (0, data, ?m2\<lparr>avail_bytes := avail_bytes ?m2 - (length data + 1)\<rparr>)" "cbor_value_advance itv = (CborNoError, it3)"
      using string_at(1) [of itv "0x40" data rest "0x62" it3 ?m2] string_at(2) [of itv "0x40" data rest "0x62" it3] v(2) d it3(1) fk(1) assms(5) by (auto simp: rep_memory_def)
    moreover have "cv_type itv = 0x40" using v(2) d by (simp add: value_at_def)
    ultimately show ?thesis using rep it3(2) d by (simp add: parse_value_def rep_memory_def)
  qed
qed

lemma rest_starts: "\<exists>key' rest'. concat (map member_bytes rep) @ BreakByte # tail = BreakByte # rest' \<or>
    concat (map member_bytes rep) @ BreakByte # tail = string_bytes 0x60 key' @ rest'"
proof (cases rep)
  case (Cons r rep')
  then have "concat (map member_bytes rep) @ BreakByte # tail = string_bytes 0x60 (name_bytes (fst r)) @ value_bytes (snd r) @ concat (map member_bytes rep') @ BreakByte # tail"
    by (simp add: member_bytes_def [of r])
  then show ?thesis by blast
qed (auto intro: exI [of _ tail])

lemma member_bytes_pos: "0 < length (member_bytes r)"
  by (simp add: member_bytes_def string_bytes_def number_bytes_not_Nil)

lemma members_length: "length rep \<le> length (concat (map member_bytes rep))"
proof (induction rep)
  case (Cons r rep)
  then show ?case using member_bytes_pos [of r] by (simp del: length_greater_0_conv)
qed simp

lemma rep_memory_Cons: "rep_memory (r # rep) = rep_memory [r] + rep_memory rep"
  by (simp add: rep_memory_def)

lemma members_step:
  assumes "at_member it (concat (map member_bytes (r # rep)) @ BreakByte # tail)" "flat_rep (r # rep)"
  shows "\<not> members_end l it"
    "0 < free_reps m \<Longrightarrow> rep_memory (r # rep) \<le> avail_bytes m \<Longrightarrow> 0 < k \<Longrightarrow>
     \<exists>it3. at_member it3 (concat (map member_bytes rep) @ BreakByte # tail) \<and>
       parse_members (Suc k) l it 0 m = rep_bind (parse_members k l it3 0 (m\<lparr>free_reps := free_reps m - 1, avail_bytes := avail_bytes m - rep_memory [r]\<rparr>))
         (\<lambda>(err, ms, m). Inr (err, r # ms, m))"
proof -
  let ?rest = "concat (map member_bytes rep) @ BreakByte # tail"
  let ?m = "m\<lparr>free_reps := free_reps m - 1, avail_bytes := avail_bytes m - rep_memory [r]\<rparr>"
  obtain key v where r: "r = (key, v)" by fastforce
  obtain key' rest' where s: "?rest = BreakByte # rest' \<or> ?rest = string_bytes 0x60 key' @ rest'" using rest_starts by blast
  have f: "flat_rep [(key, v)]" using assms(2) by (simp add: flat_rep_def r)
  have a: "at_member it (member_bytes (key, v) @ ?rest)" using assms(1) r by simp
  obtain f' where "value_at it 0x60 (word_of_nat (length key)) (name_bytes key @ value_bytes v @ ?rest) UINT32_MAX f'"
    using at_member_key [of it "name_bytes key" "value_bytes v @ ?rest"] a by (auto simp: member_bytes_def)
  then show e: "\<not> members_end l it" by (simp add: value_at_def members_end_def cbor_value_at_end_def)
  assume m: "0 < free_reps m" "rep_memory (r # rep) \<le> avail_bytes m" "0 < k"
  have "rep_memory [r] \<le> avail_bytes m" using m(2) unfolding rep_memory_Cons [of r rep] by simp
  then obtain it2 it3 where p: "oc_parse_rep_value (parse_members k) k it 0 m = Inr (0, it2, Some r, ?m)" "cbor_value_advance it2 = (CborNoError, it3)" "at_member it3 ?rest"
    using parse_member [OF a f s m(1) _ m(3), of "parse_members k"] r by auto
  then show "\<exists>it3. at_member it3 ?rest \<and> parse_members (Suc k) l it 0 m = rep_bind (parse_members k l it3 0 ?m) (\<lambda>(err, ms, m). Inr (err, r # ms, m))"
    using e by (auto simp: cbor_error_code_def)
qed

lemma parse_flat_members:
  "at_member it (concat (map member_bytes rep) @ BreakByte # tail) \<Longrightarrow> flat_rep rep \<Longrightarrow> length rep \<le> free_reps m \<Longrightarrow>
   rep_memory rep \<le> avail_bytes m \<Longrightarrow> length rep + 2 \<le> n \<Longrightarrow>
   \<exists>m'. parse_members n l it 0 m = Inr (0, rep, m')"
proof (induction rep arbitrary: it m n)
  case Nil
  then obtain k where "n = Suc k" by (cases n) auto
  then show ?case using at_member_break [of it tail] Nil by (simp add: members_end_def cbor_value_at_end_def)
next
  case (Cons r rep)
  obtain k where n: "n = Suc k" using Cons.prems(5) by (cases n) auto
  let ?m = "m\<lparr>free_reps := free_reps m - 1, avail_bytes := avail_bytes m - rep_memory [r]\<rparr>"
  obtain it3 where p: "at_member it3 (concat (map member_bytes rep) @ BreakByte # tail)"
      "parse_members n l it 0 m = rep_bind (parse_members k l it3 0 ?m) (\<lambda>(err, ms, m). Inr (err, r # ms, m))"
    using members_step(2) [OF Cons.prems(1,2), of m k l] Cons.prems(3-5) n by auto
  have "flat_rep rep" "length rep \<le> free_reps ?m" "rep_memory rep \<le> avail_bytes ?m" "length rep + 2 \<le> k"
    using Cons.prems(2-5) n rep_memory_Cons [of r rep] by (simp_all add: flat_rep_def)
  from Cons.IH [OF p(1) this] show ?case using p(2) by auto
qed

text \<open>The root object is entered at its first member.\<close>

lemma enter_object:
  assumes "bs = BreakByte # rest \<or> bs = string_bytes 0x60 key @ rest"
  shows "\<exists>root it. cbor_parser_init (0xbf # bs) = (CborNoError, root) \<and> cv_type root = CborMapType \<and>
    cbor_value_enter_container root = (CborNoError, it) \<and> at_member it bs"
proof -
  let ?root = "\<lparr>cv_ptr = 0xbf # bs, cv_remaining = 1, cv_extra = 31, cv_type = CborMapType, cv_flags = 4\<rparr>"
  have r: "cbor_parser_init (0xbf # bs) = (CborNoError, ?root)"
    by (simp add: cbor_parser_init_def preparse_value_def is_fixed_type_def)
  let ?x = "\<lparr>cv_ptr = bs, cv_remaining = UINT32_MAX, cv_extra = 31, cv_type = CborMapType, cv_flags = 0x20\<rparr>"
  have "before_member ?x bs" by (simp add: before_member_def)
  then obtain it where "preparse_next_value_nodecrement ?x = (CborNoError, it)" "at_member it bs" using before_member_next [OF _ assms] by blast
  then show ?thesis using r by (intro exI [of _ ?root] exI [of _ it]) (simp add: cbor_value_enter_container_def)
qed

lemma parse_object_bytes:
  assumes "flat_rep rep" "length rep \<le> free_reps m" "rep_memory rep \<le> avail_bytes m"
  shows "oc_parse_rep m (object_bytes rep) = Inr (0, rep)"
proof -
  obtain key rest where s: "concat (map member_bytes rep) @ [BreakByte] = BreakByte # rest \<or> concat (map member_bytes rep) @ [BreakByte] = string_bytes 0x60 key @ rest"
    using rest_starts by blast
  obtain root it where e: "cbor_parser_init (object_bytes rep) = (CborNoError, root)" "cv_type root = CborMapType"
      "cbor_value_enter_container root = (CborNoError, it)" "at_member it (concat (map member_bytes rep) @ [BreakByte])"
    using enter_object [OF s] by (auto simp: object_bytes_def)
  have "length rep + 2 \<le> parse_calls (object_bytes rep)" using members_length [of rep] by (simp add: parse_calls_def object_bytes_def)
  then obtain m' where "parse_members (parse_calls (object_bytes rep)) ROOT_MEMBERS it 0 m = Inr (0, rep, m')"
    using parse_flat_members [OF e(4) assms] by blast
  then show ?thesis using e(1-3) by (simp add: oc_parse_rep_def cbor_error_code_def)
qed

text \<open>C19. What a device encodes as the payload of a request is what its peer decodes: take an object whose values are numbers from 0 to
  \<open>2\<^sup>63 - 1\<close> and byte strings, with names and strings of fewer than 256 bytes. When it fits into the sender's buffer without encoding error
  and the receiver has a block for every member and string memory for all names and strings, parsing the encoded bytes gives the same names
  and values in the same order.\<close>

theorem encoded_object_parses:
  assumes "oc_rep_get_encoded_payload_size (rep_encode_root rep (oc_rep_new n)) \<noteq> -1" "flat_rep rep"
    "length rep \<le> free_reps m" "rep_memory rep \<le> avail_bytes m"
  shows "\<exists>payload. enc_written (snd (rep_encode_root rep (oc_rep_new n))) = payload \<and> length payload \<le> n \<and>
    oc_rep_get_encoded_payload_size (rep_encode_root rep (oc_rep_new n)) = int (length payload) \<and> oc_parse_rep m payload = Inr (0, rep)"
proof -
  have g: "fst (rep_encode_root rep (oc_rep_new n)) = 0" using assms(1) by (simp add: oc_rep_get_encoded_payload_size_def split: if_splits)
  show ?thesis
    using encode_root_bytes [OF g assms(2)] parse_object_bytes [OF assms(2-4)] g
    by (simp add: oc_rep_get_encoded_payload_size_def cbor_encoder_get_buffer_size_def)
qed

definition credit_rep :: oc_rep where "credit_rep = [(''re'', OC_REP_INT 70000), (''cD'', OC_REP_BYTE_STRING [1, 2, 3])]"

definition fresh_rep_mem :: rep_mem where
  "fresh_rep_mem = \<lparr>free_reps = OC_MAX_NUM_REP_OBJECTS, avail_bytes = 300, avail_ints = 50\<rparr>"

theorem encoded_object_parses_witness:
  "\<exists>payload. enc_written (snd (rep_encode_root credit_rep (oc_rep_new 98))) = payload \<and> length payload \<le> 98 \<and>
    oc_rep_get_encoded_payload_size (rep_encode_root credit_rep (oc_rep_new 98)) = int (length payload) \<and> oc_parse_rep fresh_rep_mem payload = Inr (0, credit_rep)"
proof -
  have "oc_rep_get_encoded_payload_size (rep_encode_root credit_rep (oc_rep_new 98)) \<noteq> -1" by code_simp
  moreover have "flat_rep credit_rep" "length credit_rep \<le> free_reps fresh_rep_mem" "rep_memory credit_rep \<le> avail_bytes fresh_rep_mem" by code_simp+
  ultimately show ?thesis by (rule encoded_object_parses)
qed

section \<open>Payloads that the parser does not survive\<close>

lemma exhausted_members:
  "at_member it (concat (map member_bytes rep) @ BreakByte # tail) \<Longrightarrow> flat_rep rep \<Longrightarrow> free_reps m < length rep \<Longrightarrow>
   rep_memory rep \<le> avail_bytes m \<Longrightarrow> length rep + 2 \<le> n \<Longrightarrow> parse_members n OBJECT_MEMBERS it 0 m = Inl NULL_POINTER"
proof (induction rep arbitrary: it m n)
  case (Cons r rep)
  obtain k where n: "n = Suc k" using Cons.prems(5) by (cases n) auto
  let ?m = "m\<lparr>free_reps := free_reps m - 1, avail_bytes := avail_bytes m - rep_memory [r]\<rparr>"
  show ?case
  proof (cases "free_reps m = 0")
    case True
    then show ?thesis using members_step(1) [OF Cons.prems(1,2)] by (simp add: n oc_parse_rep_value_def alloc_rep_def)
  next
    case False
    obtain it3 where p: "at_member it3 (concat (map member_bytes rep) @ BreakByte # tail)"
        "parse_members n OBJECT_MEMBERS it 0 m = rep_bind (parse_members k OBJECT_MEMBERS it3 0 ?m) (\<lambda>(err, ms, m). Inr (err, r # ms, m))"
      using members_step(2) [OF Cons.prems(1,2), of m k OBJECT_MEMBERS] False Cons.prems(4,5) n by auto
    have "flat_rep rep" "free_reps ?m < length rep" "rep_memory rep \<le> avail_bytes ?m" "length rep + 2 \<le> k"
      using False Cons.prems(2-5) n rep_memory_Cons [of r rep] by (auto simp: flat_rep_def)
    from Cons.IH [OF p(1) this] show ?thesis using p(2) by simp
  qed
qed simp

text \<open>C40. A payload that holds an object with more members than there are blocks left stops the device: when an object of one member is itself
  an object with at least as many members as there are free blocks, the parser runs out of blocks inside it and follows the null
  pointer that it got, instead of reporting the lack of memory. With 25 blocks a payload of 55 bytes is enough, and it is parsed before
  the request is looked at.\<close>

theorem nested_object_null_pointer:
  assumes "flat_rep rep" "0 < free_reps m" "free_reps m \<le> length rep" "rep_memory rep < avail_bytes m"
  shows "oc_parse_rep m ([0xbf, 0x60, 0xbf] @ concat (map member_bytes rep) @ [BreakByte, BreakByte]) = Inl NULL_POINTER"
proof -
  let ?inner = "concat (map member_bytes rep) @ [BreakByte, BreakByte]"
  let ?payload = "[0xbf, 0x60, 0xbf] @ ?inner"
  have k0: "string_bytes 0x60 [] = [0x60]" by (simp add: string_bytes_def number_bytes_small [of 0, simplified])
  obtain root it where e: "cbor_parser_init ?payload = (CborNoError, root)" "cv_type root = CborMapType"
      "cbor_value_enter_container root = (CborNoError, it)" "at_member it (string_bytes 0x60 [] @ 0xbf # ?inner)"
    using enter_object [of "string_bytes 0x60 [] @ 0xbf # ?inner" "0xbf # ?inner" "[]"] k0 by auto
  obtain f where f: "value_at it 0x60 0 (0xbf # ?inner) UINT32_MAX f" "f AND 0x60 = 0x20" using at_member_key [OF e(4)] by auto
  let ?v = "it\<lparr>cv_ptr := 0xbf # ?inner, cv_type := CborMapType, cv_flags := 0x64, cv_extra := 31\<rparr>"
  have fl: "cv_flags it = 0x20" "cv_type it = 0x60" "cv_remaining it = UINT32_MAX" using f by (simp_all add: value_at_def)
  have v: "preparse_next_value_nodecrement (it\<lparr>cv_ptr := 0xbf # ?inner, cv_flags := (cv_flags it OR 2) XOR 0x40\<rparr>) = (CborNoError, ?v)"
    using fl by (simp add: preparse_next_value_nodecrement_def preparse_value_def is_fixed_type_def)
  have f0: "value_at it 0x60 (word_of_nat (length ([] :: bytes))) ([] @ 0xbf # ?inner) UINT32_MAX f" using f(1) by simp
  let ?m = "m\<lparr>free_reps := free_reps m - 1\<rparr>"
  let ?m2 = "?m\<lparr>avail_bytes := avail_bytes m - 1\<rparr>"
  have s: "parse_string it 0 ?m = Inr (0, [], ?m2)" "cbor_value_advance it = (CborNoError, ?v)"
    using string_at(1) [OF f0 _ _ v, of ?m] string_at(2) [OF f0 _ _ v] assms(4) by simp_all
  let ?x = "?v\<lparr>cv_remaining := UINT32_MAX, cv_ptr := ?inner, cv_flags := 0x20\<rparr>"
  obtain key rest where st: "?inner = BreakByte # rest \<or> ?inner = string_bytes 0x60 key @ rest"
    using rest_starts [of rep "[BreakByte]"] by auto
  obtain cur where c: "preparse_next_value_nodecrement ?x = (CborNoError, cur)" "at_member cur ?inner"
    using before_member_next [OF _ st, of ?x] by (auto simp: before_member_def)
  have enter: "cbor_value_enter_container ?v = (CborNoError, cur)" using c(1) fl(3) by (simp add: cbor_value_enter_container_def)
  obtain n where n: "parse_calls ?payload = Suc n" "length rep + 2 \<le> n"
    using that [of "parse_calls ?payload - 1"] members_length [of rep] by (simp add: parse_calls_def)
  have m: "parse_members n OBJECT_MEMBERS cur 0 ?m2 = Inl NULL_POINTER"
    using exhausted_members [of cur rep "[BreakByte]" ?m2 n] c(2) assms n(2) by simp
  have t: "parse_skip_tags n it 0 = Inr (0, ?v)" using n(2) s(2) by (cases n) (simp_all add: cbor_error_code_def)
  have "oc_parse_rep_value (parse_members n) n it 0 m = Inl NULL_POINTER"
    using assms(2) fl(2) s(1) t enter m by (simp add: oc_parse_rep_value_def alloc_rep_def parse_value_def cbor_error_code_def)
  moreover have "\<not> members_end ROOT_MEMBERS it" using fl(2) by (simp add: members_end_def)
  ultimately show ?thesis using e(1-3) n(1) by (simp add: oc_parse_rep_def cbor_error_code_def)
qed

definition many_members :: oc_rep where "many_members = replicate 25 ([], OC_REP_INT 0)"

theorem nested_object_null_pointer_witness:
  "length ([0xbf, 0x60, 0xbf] @ concat (map member_bytes many_members) @ [BreakByte, BreakByte]) = 55 \<and>
   oc_parse_rep fresh_rep_mem ([0xbf, 0x60, 0xbf] @ concat (map member_bytes many_members) @ [BreakByte, BreakByte]) = Inl NULL_POINTER"
proof
  show "length ([0xbf, 0x60, 0xbf] @ concat (map member_bytes many_members) @ [BreakByte, BreakByte]) = 55" by code_simp
  show "oc_parse_rep fresh_rep_mem ([0xbf, 0x60, 0xbf] @ concat (map member_bytes many_members) @ [BreakByte, BreakByte]) = Inl NULL_POINTER"
    by (rule nested_object_null_pointer) code_simp+
qed

text \<open>
  Elements of an array are compared with its kind by bits only, and tags are counted as elements but not as items: an integer is
  written into an array of Booleans, and behind the end of an array of integers.
\<close>

lemma mixed_array_confused: "oc_parse_rep fresh_rep_mem [0xa1, 0x60, 0x82, 0xf5, 1] = Inl ELEMENT_CONFUSION"
  by code_simp

lemma tagged_element_out_of_bounds: "oc_parse_rep fresh_rep_mem [0xa1, 0x60, 0x82, 5, 0xc1, 6] = Inl OUT_OF_BOUNDS"
  by code_simp

end
