(* ===== verification/Channel_Mmem.thy ===== *)
theory Channel_Mmem
  imports Channel_Rep Channel_Oc_List
begin

text \<open>
  The managed memory of strings and arrays (\<^verbatim>\<open>oc/util/oc_mmem.c\<close>, and \<^verbatim>\<open>oc_malloc\<close> and \<^verbatim>\<open>oc_free\<close> of
  \<^verbatim>\<open>oc/api/oc_helpers.c\<close>): blocks are allocated one behind the other, and the blocks behind a released one are moved
  down. A pool is an array of bytes; sizes count its units, of one byte for strings and eight for integers, and a pointer is a
  position in bytes. The list of blocks is a sequence (\<open>Channel_Oc_List\<close>), as every block is added once.
\<close>

section \<open>Operations\<close>

datatype oc_pool = BYTE_POOL | INT_POOL

definition unit_size :: "oc_pool \<Rightarrow> nat" where
  "unit_size k = (case k of BYTE_POOL \<Rightarrow> 1 | INT_POOL \<Rightarrow> 8)"

abbreviation (input) OC_BYTES_POOL_SIZE :: nat where "OC_BYTES_POOL_SIZE \<equiv> 512"
abbreviation (input) OC_INTS_POOL_SIZE :: nat where "OC_INTS_POOL_SIZE \<equiv> 50"

definition pool_size :: "oc_pool \<Rightarrow> nat" where
  "pool_size k = (case k of BYTE_POOL \<Rightarrow> OC_BYTES_POOL_SIZE | INT_POOL \<Rightarrow> OC_INTS_POOL_SIZE)"

record oc_mmem =
  mm_size :: nat
  mm_ptr :: nat

record mmem_pool =
  pool_mem :: bytes
  pool_avail :: nat
  pool_list :: "nat list"
  block_of :: "nat \<Rightarrow> oc_mmem"

definition oc_mmem_init :: "oc_pool \<Rightarrow> mmem_pool \<Rightarrow> mmem_pool" where
  "oc_mmem_init k p = p\<lparr>pool_list := [], pool_avail := pool_size k\<rparr>"

definition oc_mmem_alloc :: "oc_pool \<Rightarrow> nat \<Rightarrow> nat \<Rightarrow> mmem_pool \<Rightarrow> nat \<times> mmem_pool" where
  "oc_mmem_alloc k m sz p =
     (if pool_avail p < sz then (0, p)
      else (sz * unit_size k, p\<lparr>pool_list := pool_list p @ [m],
        block_of := (block_of p)(m := \<lparr>mm_size = sz, mm_ptr = (pool_size k - pool_avail p) * unit_size k\<rparr>),
        pool_avail := pool_avail p - sz\<rparr>))"

definition memmove_in :: "nat \<Rightarrow> nat \<Rightarrow> nat \<Rightarrow> bytes \<Rightarrow> bytes" where
  "memmove_in dst src n mem = memcpy_at dst (take n (drop src mem)) mem"

text \<open>
  The blocks behind \<open>m\<close>. The number of bytes to move is a difference of pointers to units, and pointers are lowered by the number of units:
  both are right for the pool of bytes only.
\<close>

definition blocks_behind :: "nat \<Rightarrow> mmem_pool \<Rightarrow> nat list" where
  "blocks_behind m p = drop 1 (dropWhile (\<lambda>x. x \<noteq> m) (pool_list p))"

definition lower_block :: "nat \<Rightarrow> nat \<Rightarrow> (nat \<Rightarrow> oc_mmem) \<Rightarrow> nat \<Rightarrow> oc_mmem" where
  "lower_block d n b = b(n := (b n)\<lparr>mm_ptr := mm_ptr (b n) - d\<rparr>)"

definition oc_mmem_free :: "oc_pool \<Rightarrow> nat \<Rightarrow> mmem_pool \<Rightarrow> mmem_pool" where
  "oc_mmem_free k m p =
     (let b = block_of p;
          behind = blocks_behind m p;
          p = (case behind of
                 [] \<Rightarrow> p
               | n # _ \<Rightarrow> p\<lparr>pool_mem := memmove_in (mm_ptr (b m)) (mm_ptr (b n))
                                (((pool_size k - pool_avail p) * unit_size k - mm_ptr (b n)) div unit_size k) (pool_mem p),
                     block_of := fold (lower_block (mm_size (b m))) behind b\<rparr>)
      in p\<lparr>pool_avail := pool_avail p + mm_size (b m), pool_list := remove1 m (pool_list p)\<rparr>)"

definition oc_free :: "oc_pool \<Rightarrow> nat \<Rightarrow> mmem_pool \<Rightarrow> mmem_pool" where
  "oc_free k m p = (let p = oc_mmem_free k m p in p\<lparr>block_of := (block_of p)(m := \<lparr>mm_size = 0, mm_ptr = 0\<rparr>)\<rparr>)"

section \<open>Layout\<close>

text \<open>What a block holds, what is written through its pointer, and blocks that lie one behind the other.\<close>

definition block_data :: "oc_pool \<Rightarrow> mmem_pool \<Rightarrow> nat \<Rightarrow> bytes" where
  "block_data k p n = take (mm_size (block_of p n) * unit_size k) (drop (mm_ptr (block_of p n)) (pool_mem p))"

definition write_block :: "nat \<Rightarrow> bytes \<Rightarrow> mmem_pool \<Rightarrow> mmem_pool" where
  "write_block n data p = p\<lparr>pool_mem := memcpy_at (mm_ptr (block_of p n)) data (pool_mem p)\<rparr>"

fun laid_out :: "nat \<Rightarrow> (nat \<Rightarrow> oc_mmem) \<Rightarrow> nat \<Rightarrow> nat list \<Rightarrow> bool" where
  "laid_out u b off [] \<longleftrightarrow> True"
| "laid_out u b off (x # xs) \<longleftrightarrow> mm_ptr (b x) = off \<and> laid_out u b (off + mm_size (b x) * u) xs"

abbreviation units :: "(nat \<Rightarrow> oc_mmem) \<Rightarrow> nat list \<Rightarrow> nat" where
  "units b xs \<equiv> sum_list (map (\<lambda>x. mm_size (b x)) xs)"

definition mmem_inv :: "oc_pool \<Rightarrow> mmem_pool \<Rightarrow> bool" where
  "mmem_inv k p \<longleftrightarrow> distinct (pool_list p) \<and> laid_out (unit_size k) (block_of p) 0 (pool_list p) \<and>
     pool_avail p + units (block_of p) (pool_list p) = pool_size k \<and> length (pool_mem p) = pool_size k * unit_size k"

lemma laid_out_append:
  "laid_out u b off (xs @ ys) \<longleftrightarrow> laid_out u b off xs \<and> laid_out u b (off + units b xs * u) ys"
  by (induction xs arbitrary: off) (auto simp: algebra_simps)

lemma laid_out_bounds:
  "laid_out u b off xs \<Longrightarrow> x \<in> set xs \<Longrightarrow> off \<le> mm_ptr (b x) \<and> mm_ptr (b x) + mm_size (b x) * u \<le> off + units b xs * u"
proof (induction xs arbitrary: off)
  case (Cons y xs)
  show ?case
  proof (cases "x = y")
    case False
    then have "off + mm_size (b y) * u \<le> mm_ptr (b x) \<and> mm_ptr (b x) + mm_size (b x) * u \<le> off + mm_size (b y) * u + units b xs * u"
      using Cons by simp
    then show ?thesis by (auto simp: algebra_simps)
  qed (use Cons.prems in \<open>simp add: algebra_simps\<close>)
qed simp

lemma laid_out_cong: "(\<And>x. x \<in> set xs \<Longrightarrow> b' x = b x) \<Longrightarrow> laid_out u b' off xs = laid_out u b off xs"
  by (induction xs arbitrary: off) auto

lemma laid_out_lowered:
  "laid_out u b (off + d) xs \<Longrightarrow> (\<And>x. x \<in> set xs \<Longrightarrow> b' x = (b x)\<lparr>mm_ptr := mm_ptr (b x) - d\<rparr>) \<Longrightarrow> laid_out u b' off xs"
proof (induction xs arbitrary: off)
  case (Cons y xs)
  have "laid_out u b' (off + mm_size (b y) * u) xs" using Cons.prems by (intro Cons.IH) (auto simp: algebra_simps)
  then show ?case using Cons.prems by simp
qed simp

lemma fold_lower:
  "distinct ys \<Longrightarrow> fold (lower_block d) ys b x = (if x \<in> set ys then (b x)\<lparr>mm_ptr := mm_ptr (b x) - d\<rparr> else b x)"
  by (induction ys arbitrary: b) (auto simp: lower_block_def)

lemma memmove_nth:
  assumes "dst \<le> src" "src + n \<le> length mem" "i < length mem"
  shows "memmove_in dst src n mem ! i = (if dst \<le> i \<and> i < dst + n then mem ! (i + src - dst) else mem ! i)"
  using assms by (auto simp: memmove_in_def memcpy_at_def nth_append algebra_simps)

lemma length_memmove [simp]: "dst \<le> src \<Longrightarrow> src + n \<le> length mem \<Longrightarrow> length (memmove_in dst src n mem) = length mem"
  by (simp add: memmove_in_def)

lemma blocks_behind_split:
  assumes "pool_list p = xs @ m # ys" "m \<notin> set xs"
  shows "blocks_behind m p = ys"
proof -
  have "dropWhile (\<lambda>x. x \<noteq> m) (xs @ m # ys) = m # ys" using assms(2) by (induction xs) auto
  then show ?thesis using assms(1) by (simp add: blocks_behind_def)
qed

text \<open>Releasing the block \<open>m\<close> between \<open>xs\<close> and \<open>ys\<close> of a pool of bytes.\<close>

lemma free_block:
  assumes "mmem_inv BYTE_POOL p" "pool_list p = xs @ m # ys"
  shows "pool_list (oc_free BYTE_POOL m p) = xs @ ys" "pool_avail (oc_free BYTE_POOL m p) = pool_avail p + mm_size (block_of p m)"
    "x \<in> set xs \<Longrightarrow> block_of (oc_free BYTE_POOL m p) x = block_of p x"
    "y \<in> set ys \<Longrightarrow> block_of (oc_free BYTE_POOL m p) y = (block_of p y)\<lparr>mm_ptr := mm_ptr (block_of p y) - mm_size (block_of p m)\<rparr>"
    "pool_mem (oc_free BYTE_POOL m p) = (if ys = [] then pool_mem p else memmove_in (units (block_of p) xs) (units (block_of p) xs + mm_size (block_of p m))
       (units (block_of p) ys) (pool_mem p))"
proof -
  have d: "distinct (xs @ m # ys)" and l: "laid_out 1 (block_of p) 0 (xs @ m # ys)" and a: "pool_avail p + units (block_of p) (xs @ m # ys) = 512"
    using assms by (simp_all add: mmem_inv_def unit_size_def pool_size_def)
  have b: "blocks_behind m p = ys" using blocks_behind_split [OF assms(2)] d by simp
  have ptr: "mm_ptr (block_of p m) = units (block_of p) xs" using l by (simp add: laid_out_append)
  have nxt: "mm_ptr (block_of p y) = units (block_of p) xs + mm_size (block_of p m)" if "ys = y # ys'" for y ys'
    using l that by (simp add: laid_out_append)
  have n: "512 - pool_avail p - (units (block_of p) xs + mm_size (block_of p m)) = units (block_of p) ys" using a by simp
  show "pool_list (oc_free BYTE_POOL m p) = xs @ ys" "pool_avail (oc_free BYTE_POOL m p) = pool_avail p + mm_size (block_of p m)"
    using d b assms(2) by (auto simp: oc_free_def oc_mmem_free_def Let_def remove1_append split: list.splits)
  show "x \<in> set xs \<Longrightarrow> block_of (oc_free BYTE_POOL m p) x = block_of p x"
    using d b by (cases ys) (auto simp: oc_free_def oc_mmem_free_def Let_def fold_lower lower_block_def)
  show "y \<in> set ys \<Longrightarrow> block_of (oc_free BYTE_POOL m p) y = (block_of p y)\<lparr>mm_ptr := mm_ptr (block_of p y) - mm_size (block_of p m)\<rparr>"
    using d b by (cases ys) (auto simp: oc_free_def oc_mmem_free_def Let_def fold_lower lower_block_def)
  show "pool_mem (oc_free BYTE_POOL m p) = (if ys = [] then pool_mem p else memmove_in (units (block_of p) xs) (units (block_of p) xs + mm_size (block_of p m))
       (units (block_of p) ys) (pool_mem p))"
    using b ptr nxt n by (cases ys) (simp_all add: oc_free_def oc_mmem_free_def Let_def unit_size_def pool_size_def)
qed

lemma free_keeps_inv:
  assumes "mmem_inv BYTE_POOL p" "m \<in> set (pool_list p)"
  shows "mmem_inv BYTE_POOL (oc_free BYTE_POOL m p)"
proof -
  obtain xs ys where s: "pool_list p = xs @ m # ys" using assms(2) by (meson split_list)
  note f = free_block [OF assms(1) s]
  let ?b = "block_of p" and ?b' = "block_of (oc_free BYTE_POOL m p)"
  have i: "distinct (xs @ m # ys)" "laid_out 1 ?b 0 (xs @ m # ys)" "pool_avail p + units ?b (xs @ m # ys) = 512" "length (pool_mem p) = 512"
    using assms(1) s by (simp_all add: mmem_inv_def unit_size_def pool_size_def)
  have "units ?b' xs = units ?b xs" "units ?b' ys = units ?b ys" using f(3,4) by (simp_all cong: map_cong)
  moreover have "laid_out 1 ?b' 0 xs" using i(2) laid_out_cong [of xs ?b' ?b] f(3) by (simp add: laid_out_append)
  moreover have "laid_out 1 ?b' (units ?b xs) ys"
    using i(2) f(4) by (intro laid_out_lowered [of 1 ?b "units ?b xs" "mm_size (?b m)" ys]) (auto simp: laid_out_append)
  ultimately show ?thesis using i f(1,2,5) by (auto simp: mmem_inv_def laid_out_append unit_size_def pool_size_def)
qed

lemma free_keeps_data:
  assumes "mmem_inv BYTE_POOL p" "m \<in> set (pool_list p)" "n \<in> set (pool_list p)" "n \<noteq> m"
  shows "block_data BYTE_POOL (oc_free BYTE_POOL m p) n = block_data BYTE_POOL p n"
proof -
  obtain xs ys where s: "pool_list p = xs @ m # ys" using assms(2) by (meson split_list)
  note f = free_block [OF assms(1) s]
  let ?b = "block_of p"
  have i: "laid_out 1 ?b 0 (xs @ m # ys)" "pool_avail p + units ?b (xs @ m # ys) = 512" "length (pool_mem p) = 512"
    using assms(1) s by (simp_all add: mmem_inv_def unit_size_def pool_size_def)
  let ?o = "units ?b xs" and ?d = "mm_size (?b m)" and ?c = "units ?b ys"
  have le: "?o + ?d + ?c \<le> 512" using i(2) by simp
  have nth: "pool_mem (oc_free BYTE_POOL m p) ! j = (if ?o \<le> j \<and> j < ?o + ?c then pool_mem p ! (j + ?d) else pool_mem p ! j)" if "j < 512" for j
    using that le i(3) memmove_nth [of ?o "?o + ?d" ?c "pool_mem p" j] by (cases "ys = []") (auto simp: f(5))
  have len: "length (pool_mem (oc_free BYTE_POOL m p)) = 512" using i(3) le by (simp add: f(5))
  consider "n \<in> set xs" | "n \<in> set ys" using assms(3,4) s by auto
  then show ?thesis
  proof cases
    case 1
    then have "mm_ptr (?b n) + mm_size (?b n) \<le> ?o" using laid_out_bounds [of 1 ?b 0 xs n] i(1) by (simp add: laid_out_append)
    then show ?thesis using f(3) [OF 1] nth len i(3) le by (intro nth_equalityI) (auto simp: block_data_def unit_size_def)
  next
    case 2
    then have "?o + ?d \<le> mm_ptr (?b n)" "mm_ptr (?b n) + mm_size (?b n) \<le> ?o + ?d + ?c"
      using laid_out_bounds [of 1 ?b "?o + ?d" ys n] i(1) by (simp_all add: laid_out_append)
    then show ?thesis using f(4) [OF 2] nth len i(3) le by (intro nth_equalityI) (auto simp: block_data_def unit_size_def)
  qed
qed

section \<open>Every state of the string pool\<close>

text \<open>The pool after its initialisation, allocations to blocks that are not in use, writes within a block and releases.\<close>

inductive mmem_reachable :: "mmem_pool \<Rightarrow> bool" where
  mmem_start: "length (pool_mem p) = OC_BYTES_POOL_SIZE \<Longrightarrow> mmem_reachable (oc_mmem_init BYTE_POOL p)"
| mmem_alloc: "mmem_reachable p \<Longrightarrow> m \<notin> set (pool_list p) \<Longrightarrow> mmem_reachable (snd (oc_mmem_alloc BYTE_POOL m sz p))"
| mmem_write: "mmem_reachable p \<Longrightarrow> n \<in> set (pool_list p) \<Longrightarrow> length data \<le> mm_size (block_of p n) \<Longrightarrow> mmem_reachable (write_block n data p)"
| mmem_release: "mmem_reachable p \<Longrightarrow> m \<in> set (pool_list p) \<Longrightarrow> mmem_reachable (oc_free BYTE_POOL m p)"

lemma alloc_keeps_inv:
  assumes "mmem_inv BYTE_POOL p" "m \<notin> set (pool_list p)"
  shows "mmem_inv BYTE_POOL (snd (oc_mmem_alloc BYTE_POOL m sz p))"
proof (cases "pool_avail p < sz")
  case False
  let ?b = "(block_of p)(m := \<lparr>mm_size = sz, mm_ptr = 512 - pool_avail p\<rparr>)"
  have "units ?b (pool_list p) = units (block_of p) (pool_list p)" using assms(2) by (intro arg_cong [of _ _ sum_list] map_cong) auto
  moreover have "laid_out 1 ?b 0 (pool_list p) = laid_out 1 (block_of p) 0 (pool_list p)" using assms(2) by (intro laid_out_cong) auto
  ultimately show ?thesis
    using assms False by (auto simp: mmem_inv_def oc_mmem_alloc_def laid_out_append unit_size_def pool_size_def)
qed (use assms in \<open>simp add: oc_mmem_alloc_def\<close>)

lemma reachable_mmem_inv: "mmem_reachable p \<Longrightarrow> mmem_inv BYTE_POOL p"
proof (induction rule: mmem_reachable.induct)
  case (mmem_write p n data)
  then have "mm_ptr (block_of p n) + mm_size (block_of p n) \<le> 512"
    using laid_out_bounds [of 1 "block_of p" 0 "pool_list p" n] by (auto simp: mmem_inv_def unit_size_def pool_size_def)
  then show ?case using mmem_write by (auto simp: mmem_inv_def write_block_def unit_size_def pool_size_def)
next
  case (mmem_start p)
  then show ?case by (simp add: oc_mmem_init_def mmem_inv_def unit_size_def pool_size_def)
qed (simp_all add: alloc_keeps_inv free_keeps_inv)

lemma blocks_disjoint:
  assumes "mmem_inv BYTE_POOL p" "m \<in> set (pool_list p)" "n \<in> set (pool_list p)" "n \<noteq> m"
  shows "mm_ptr (block_of p m) + mm_size (block_of p m) \<le> mm_ptr (block_of p n) \<or> mm_ptr (block_of p n) + mm_size (block_of p n) \<le> mm_ptr (block_of p m)"
proof -
  obtain xs ys where s: "pool_list p = xs @ m # ys" using assms(2) by (meson split_list)
  have l: "laid_out 1 (block_of p) 0 (xs @ m # ys)" using assms(1) s by (simp add: mmem_inv_def unit_size_def)
  consider "n \<in> set xs" | "n \<in> set ys" using assms(3,4) s by auto
  then show ?thesis
  proof cases
    case 1
    then show ?thesis using laid_out_bounds [of 1 "block_of p" 0 xs n] l by (simp add: laid_out_append)
  next
    case 2
    then show ?thesis
      using laid_out_bounds [of 1 "block_of p" "units (block_of p) xs + mm_size (block_of p m)" ys n] l by (simp add: laid_out_append)
  qed
qed

text \<open>C14. Releasing a string does not disturb the others: in every state of the string pool that allocations, writes within blocks
  and releases lead to, two blocks do not overlap, and moving the memory together when one is released leaves what the other
  holds, read through its adjusted pointer, as it was.\<close>

theorem compaction_keeps_blocks:
  assumes "mmem_reachable p" "m \<in> set (pool_list p)" "n \<in> set (pool_list p)" "n \<noteq> m"
  shows "block_data BYTE_POOL (oc_free BYTE_POOL m p) n = block_data BYTE_POOL p n \<and>
    (mm_ptr (block_of p m) + mm_size (block_of p m) \<le> mm_ptr (block_of p n) \<or> mm_ptr (block_of p n) + mm_size (block_of p n) \<le> mm_ptr (block_of p m))"
  using reachable_mmem_inv [OF assms(1)] free_keeps_data blocks_disjoint assms(2-4) by blast

definition two_strings :: mmem_pool where
  "two_strings = write_block 2 [7, 8, 9] (snd (oc_mmem_alloc BYTE_POOL 2 3 (snd (oc_mmem_alloc BYTE_POOL 1 2 (oc_mmem_init BYTE_POOL
     \<lparr>pool_mem = replicate 512 0, pool_avail = 0, pool_list = [], block_of = (\<lambda>_. \<lparr>mm_size = 0, mm_ptr = 0\<rparr>)\<rparr>)))))"

theorem compaction_keeps_blocks_witness:
  "block_data BYTE_POOL (oc_free BYTE_POOL 1 two_strings) 2 = [7, 8, 9]"
proof -
  let ?p0 = "\<lparr>pool_mem = replicate 512 0, pool_avail = 0, pool_list = [], block_of = (\<lambda>_. \<lparr>mm_size = 0, mm_ptr = 0\<rparr>)\<rparr>"
  let ?p1 = "snd (oc_mmem_alloc BYTE_POOL 1 2 (oc_mmem_init BYTE_POOL ?p0))"
  let ?p2 = "snd (oc_mmem_alloc BYTE_POOL 2 3 ?p1)"
  note d = oc_mmem_alloc_def oc_mmem_init_def write_block_def unit_size_def pool_size_def
  have "mmem_reachable (oc_mmem_init BYTE_POOL ?p0)" by (rule mmem_start) simp
  then have "mmem_reachable ?p1" by (rule mmem_alloc) (simp add: d)
  then have "mmem_reachable ?p2" by (rule mmem_alloc) (simp add: d)
  then have r: "mmem_reachable two_strings" unfolding two_strings_def by (rule mmem_write) (simp_all add: d)
  have l: "pool_list two_strings = [1, 2]" by (simp add: two_strings_def d)
  have "block_data BYTE_POOL two_strings 2 = [7, 8, 9]" by (simp add: two_strings_def block_data_def d memcpy_at_def)
  then show ?thesis using compaction_keeps_blocks [OF r, of 1 2] l by simp
qed

text \<open>
  The pool of integers does not survive the same: releasing an array that another one follows lowers the pointer of that one
  by an eighth of the distance, and its elements are read from between the old and the new place.
\<close>

lemma int_pool_layout_lost:
  assumes "mmem_inv INT_POOL p" "pool_list p = xs @ m # n # ys" "0 < mm_size (block_of p m)"
  shows "\<not> mmem_inv INT_POOL (oc_free INT_POOL m p)"
proof
  assume bad: "mmem_inv INT_POOL (oc_free INT_POOL m p)"
  have d: "distinct (xs @ m # n # ys)" and l: "laid_out 8 (block_of p) 0 (xs @ m # n # ys)" using assms(1,2) by (simp_all add: mmem_inv_def unit_size_def)
  have b: "blocks_behind m p = n # ys" using blocks_behind_split [OF assms(2)] d by simp
  have list: "pool_list (oc_free INT_POOL m p) = xs @ n # ys" using d b assms(2) by (simp add: oc_free_def oc_mmem_free_def Let_def remove1_append)
  have x: "block_of (oc_free INT_POOL m p) x = block_of p x" if "x \<in> set xs" for x
    using that d b by (auto simp: oc_free_def oc_mmem_free_def Let_def fold_lower lower_block_def)
  have "mm_ptr (block_of (oc_free INT_POOL m p) n) = mm_ptr (block_of p n) - mm_size (block_of p m)"
    using d b by (auto simp: oc_free_def oc_mmem_free_def Let_def fold_lower lower_block_def)
  moreover have "mm_ptr (block_of p n) = units (block_of p) xs * 8 + mm_size (block_of p m) * 8" using l by (simp add: laid_out_append)
  moreover have "units (block_of (oc_free INT_POOL m p)) xs = units (block_of p) xs" using x by (simp cong: map_cong)
  moreover have "mm_ptr (block_of (oc_free INT_POOL m p) n) = units (block_of (oc_free INT_POOL m p)) xs * 8"
    using bad list by (simp add: mmem_inv_def unit_size_def laid_out_append)
  ultimately show False using assms(3) by simp
qed

section \<open>Memory of decoded payloads\<close>

text \<open>The counts that payload decoding keeps (\<open>rep_mem\<close>) follow the pools: an allocation fails in the one if and only if it does in the other.\<close>

lemma alloc_refines:
  "pool_avail p = avail_bytes m \<Longrightarrow> (case alloc_bytes sz m of
     Inl _ \<Rightarrow> oc_mmem_alloc BYTE_POOL h sz p = (0, p) | Inr m' \<Rightarrow> pool_avail (snd (oc_mmem_alloc BYTE_POOL h sz p)) = avail_bytes m')"
  "pool_avail p = avail_ints m \<Longrightarrow> (case alloc_ints sz m of
     Inl _ \<Rightarrow> oc_mmem_alloc INT_POOL h sz p = (0, p) | Inr m' \<Rightarrow> pool_avail (snd (oc_mmem_alloc INT_POOL h sz p)) = avail_ints m')"
  by (simp_all add: alloc_bytes_def alloc_ints_def oc_mmem_alloc_def)

end
