(* ===== verification/Channel_Oc_Runtime.thy ===== *)
theory Channel_Oc_Runtime
  imports Nexus_Prelude
begin

text \<open>
  The run-time support of the CoAP stack: memory pools (\<^verbatim>\<open>oc/util/oc_memb.c\<close>), processes and their queue of events
  (\<^verbatim>\<open>oc/util/oc_process.c\<close>) and event timers (\<^verbatim>\<open>oc/util/oc_timer.c\<close>, \<^verbatim>\<open>oc/util/oc_etimer.c\<close>). Lists of the
  code are sequences here, as justified for them in \<open>Channel_Oc_List\<close>.
\<close>

section \<open>Memory pools\<close>

text \<open>A block is referred to by its number in the pool; \<open>memb_count\<close> is 0 for a free block.\<close>

record 'a oc_memb =
  memb_count :: "nat list"
  memb_mem :: "'a list"

definition oc_memb_init :: "'a \<Rightarrow> 'a oc_memb \<Rightarrow> 'a oc_memb" where
  "oc_memb_init zero_block m =
     m\<lparr>memb_count := replicate (length (memb_count m)) 0, memb_mem := replicate (length (memb_mem m)) zero_block\<rparr>"

definition oc_memb_alloc :: "'a \<Rightarrow> 'a oc_memb \<Rightarrow> nat option \<times> 'a oc_memb" where
  "oc_memb_alloc zero_block m =
     (case find (\<lambda>i. memb_count m ! i = 0) [0..<length (memb_count m)] of
        None \<Rightarrow> (None, m)
      | Some i \<Rightarrow> (Some i, m\<lparr>memb_count := (memb_count m)[i := memb_count m ! i + 1], memb_mem := (memb_mem m)[i := zero_block]\<rparr>))"

definition oc_memb_free :: "nat \<Rightarrow> 'a oc_memb \<Rightarrow> 'a oc_memb" where
  "oc_memb_free i m =
     (if i < length (memb_count m) \<and> memb_count m ! i > 0 then m\<lparr>memb_count := (memb_count m)[i := memb_count m ! i - 1]\<rparr> else m)"

definition oc_memb_numfree :: "'a oc_memb \<Rightarrow> nat" where
  "oc_memb_numfree m = length (filter (\<lambda>c. c = 0) (memb_count m))"

abbreviation memb_at :: "'a oc_memb \<Rightarrow> nat \<Rightarrow> 'a" where
  "memb_at m i \<equiv> memb_mem m ! i"

definition memb_update :: "nat \<Rightarrow> ('a \<Rightarrow> 'a) \<Rightarrow> 'a oc_memb \<Rightarrow> 'a oc_memb" where
  "memb_update i f m = m\<lparr>memb_mem := (memb_mem m)[i := f (memb_at m i)]\<rparr>"

definition memb_used :: "'a oc_memb \<Rightarrow> nat set" where
  "memb_used m = {i. i < length (memb_count m) \<and> memb_count m ! i \<noteq> 0}"

section \<open>Processes and events\<close>

datatype oc_process = OC_ETIMER_PROCESS | TIMED_CALLBACK_EVENTS | COAP_ENGINE | MESSAGE_BUFFER_HANDLER

datatype etimer_ref = IDLE_TIMEOUT_TIMER nat | RETRANS_TIMER nat | EVENT_CALLBACK_TIMER nat

text \<open>An event with the data it carries: a process, a timer or the number of a message buffer.\<close>

datatype oc_event =
    OC_PROCESS_EVENT_INIT | OC_PROCESS_EVENT_POLL | OC_PROCESS_EVENT_EXIT | OC_PROCESS_EVENT_EXITED oc_process
  | OC_PROCESS_EVENT_TIMER etimer_ref | INBOUND_NETWORK_EVENT nat | OUTBOUND_NETWORK_EVENT nat | INBOUND_RI_EVENT nat

abbreviation (input) OC_PROCESS_NUMEVENTS :: nat where "OC_PROCESS_NUMEVENTS \<equiv> 10"

record event_queue =
  events :: "(oc_process \<times> oc_event) list"
  nevents :: u8
  fevent :: u8

definition empty_queue :: event_queue where
  "empty_queue = \<lparr>events = replicate OC_PROCESS_NUMEVENTS (OC_ETIMER_PROCESS, OC_PROCESS_EVENT_INIT), nevents = 0, fevent = 0\<rparr>"

text \<open>Posting to a full queue fails.\<close>

definition oc_process_post :: "oc_process \<Rightarrow> oc_event \<Rightarrow> event_queue \<Rightarrow> bool \<times> event_queue" where
  "oc_process_post p ev q =
     (if unat (nevents q) = OC_PROCESS_NUMEVENTS then (False, q)
      else let snum = unat (fevent q + nevents q) mod OC_PROCESS_NUMEVENTS
           in (True, q\<lparr>events := (events q)[snum := (p, ev)], nevents := nevents q + 1\<rparr>))"

text \<open>The first part of \<^verbatim>\<open>do_event\<close>: the first event is taken off the queue.\<close>

definition next_event :: "event_queue \<Rightarrow> ((oc_process \<times> oc_event) \<times> event_queue) option" where
  "next_event q =
     (if nevents q > 0
      then Some (events q ! unat (fevent q),
                 q\<lparr>fevent := word_of_nat ((unat (fevent q) + 1) mod OC_PROCESS_NUMEVENTS), nevents := nevents q - 1\<rparr>)
      else None)"

section \<open>Timers\<close>

text \<open>Times are in seconds. \<open>et_p\<close> is the process a running timer belongs to.\<close>

record oc_etimer =
  et_start :: u64
  et_interval :: u64
  et_p :: "oc_process option"

definition zero_etimer :: oc_etimer where
  "zero_etimer = \<lparr>et_start = 0, et_interval = 0, et_p = None\<rparr>"

datatype process_state = OC_PROCESS_STATE_NONE | OC_PROCESS_STATE_RUNNING | OC_PROCESS_STATE_CALLED

record oc_runtime =
  queue :: event_queue
  process_list :: "oc_process list"
  process_state_of :: "oc_process \<Rightarrow> process_state"
  needspoll :: "oc_process \<Rightarrow> bool"
  poll_requested :: bool
  timerlist :: "etimer_ref list"
  etimer_of :: "etimer_ref \<Rightarrow> oc_etimer"
  next_expiration :: u64

definition oc_timer_set :: "u64 \<Rightarrow> u64 \<Rightarrow> oc_etimer \<Rightarrow> oc_etimer" where
  "oc_timer_set now interval t = t\<lparr>et_interval := interval, et_start := now\<rparr>"

definition oc_timer_reset :: "oc_etimer \<Rightarrow> oc_etimer" where
  "oc_timer_reset t = t\<lparr>et_start := et_start t + et_interval t\<rparr>"

definition oc_timer_restart :: "u64 \<Rightarrow> oc_etimer \<Rightarrow> oc_etimer" where
  "oc_timer_restart now t = t\<lparr>et_start := now\<rparr>"

definition oc_timer_expired :: "u64 \<Rightarrow> oc_etimer \<Rightarrow> bool" where
  "oc_timer_expired now t \<longleftrightarrow> et_interval t < (now - et_start t) + 1"

definition oc_timer_remaining :: "u64 \<Rightarrow> oc_etimer \<Rightarrow> u64" where
  "oc_timer_remaining now t = et_start t + et_interval t - now"

text \<open>The distances to the ends of the timers are taken modulo $2^{64}$.\<close>

definition update_time :: "u64 \<Rightarrow> oc_runtime \<Rightarrow> oc_runtime" where
  "update_time now r =
     (case timerlist r of [] \<Rightarrow> r\<lparr>next_expiration := 0\<rparr>
      | t # ts \<Rightarrow>
          r\<lparr>next_expiration := now + fold (\<lambda>t tdist. if oc_timer_remaining now (etimer_of r t) < tdist
               then oc_timer_remaining now (etimer_of r t) else tdist) ts (oc_timer_remaining now (etimer_of r t))\<rparr>)"

definition oc_process_poll :: "oc_process \<Rightarrow> oc_runtime \<Rightarrow> oc_runtime" where
  "oc_process_poll p r =
     (if process_state_of r p = OC_PROCESS_STATE_RUNNING \<or> process_state_of r p = OC_PROCESS_STATE_CALLED
      then r\<lparr>needspoll := (needspoll r)(p := True), poll_requested := True\<rparr> else r)"

definition oc_etimer_next_expiration_time :: "oc_runtime \<Rightarrow> u64" where
  "oc_etimer_next_expiration_time r = (if timerlist r \<noteq> [] then next_expiration r else 0)"

definition oc_etimer_request_poll :: "oc_runtime \<Rightarrow> u64 \<times> oc_runtime" where
  "oc_etimer_request_poll r = (let r = oc_process_poll OC_ETIMER_PROCESS r in (oc_etimer_next_expiration_time r, r))"

text \<open>The process that is running, \<open>current\<close>, becomes the owner of the timer.\<close>

definition add_timer :: "u64 \<Rightarrow> oc_process \<Rightarrow> etimer_ref \<Rightarrow> oc_runtime \<Rightarrow> oc_runtime" where
  "add_timer now current et r =
     (let r = snd (oc_etimer_request_poll r);
          on_list = (et_p (etimer_of r et) \<noteq> None \<and> et \<in> set (timerlist r));
          r = r\<lparr>etimer_of := (etimer_of r)(et := (etimer_of r et)\<lparr>et_p := Some current\<rparr>)\<rparr>
      in update_time now (if on_list then r else r\<lparr>timerlist := et # timerlist r\<rparr>))"

definition on_etimer :: "etimer_ref \<Rightarrow> (oc_etimer \<Rightarrow> oc_etimer) \<Rightarrow> oc_runtime \<Rightarrow> oc_runtime" where
  "on_etimer et f r = r\<lparr>etimer_of := (etimer_of r)(et := f (etimer_of r et))\<rparr>"

definition oc_etimer_set :: "u64 \<Rightarrow> oc_process \<Rightarrow> etimer_ref \<Rightarrow> u64 \<Rightarrow> oc_runtime \<Rightarrow> oc_runtime" where
  "oc_etimer_set now current et interval r = add_timer now current et (on_etimer et (oc_timer_set now interval) r)"

definition oc_etimer_reset_with_new_interval :: "u64 \<Rightarrow> oc_process \<Rightarrow> etimer_ref \<Rightarrow> u64 \<Rightarrow> oc_runtime \<Rightarrow> oc_runtime" where
  "oc_etimer_reset_with_new_interval now current et interval r =
     add_timer now current et (on_etimer et (\<lambda>t. (oc_timer_reset t)\<lparr>et_interval := interval\<rparr>) r)"

definition oc_etimer_reset :: "u64 \<Rightarrow> oc_process \<Rightarrow> etimer_ref \<Rightarrow> oc_runtime \<Rightarrow> oc_runtime" where
  "oc_etimer_reset now current et r = add_timer now current et (on_etimer et oc_timer_reset r)"

definition oc_etimer_restart :: "u64 \<Rightarrow> oc_process \<Rightarrow> etimer_ref \<Rightarrow> oc_runtime \<Rightarrow> oc_runtime" where
  "oc_etimer_restart now current et r = add_timer now current et (on_etimer et (oc_timer_restart now) r)"

definition oc_etimer_adjust :: "u64 \<Rightarrow> etimer_ref \<Rightarrow> int \<Rightarrow> oc_runtime \<Rightarrow> oc_runtime" where
  "oc_etimer_adjust now et timediff r =
     update_time now (on_etimer et (\<lambda>t. t\<lparr>et_start := et_start t + word_of_int timediff\<rparr>) r)"

definition oc_etimer_expired :: "etimer_ref \<Rightarrow> oc_runtime \<Rightarrow> bool" where
  "oc_etimer_expired et r \<longleftrightarrow> et_p (etimer_of r et) = None"

definition oc_etimer_expiration_time :: "etimer_ref \<Rightarrow> oc_runtime \<Rightarrow> u64" where
  "oc_etimer_expiration_time et r = et_start (etimer_of r et) + et_interval (etimer_of r et)"

definition oc_etimer_stop :: "u64 \<Rightarrow> etimer_ref \<Rightarrow> oc_runtime \<Rightarrow> oc_runtime" where
  "oc_etimer_stop now et r =
     (let r = (if et \<in> set (timerlist r) then update_time now (r\<lparr>timerlist := remove1 et (timerlist r)\<rparr>) else r)
      in on_etimer et (\<lambda>t. t\<lparr>et_p := None\<rparr>) r)"

text \<open>
  The timer process. On a poll it posts an event for every timer that has expired and takes the timer off the list, starting
  over after each; when the queue is full the timer stays and another poll is requested.
\<close>

fun post_first_expired :: "u64 \<Rightarrow> etimer_ref list \<Rightarrow> oc_runtime \<Rightarrow> etimer_ref option \<times> oc_runtime" where
  "post_first_expired now [] r = (None, r)"
| "post_first_expired now (t # ts) r =
     (if oc_timer_expired now (etimer_of r t) then
        (case oc_process_post (the (et_p (etimer_of r t))) (OC_PROCESS_EVENT_TIMER t) (queue r) of
           (True, q) \<Rightarrow> (Some t, r\<lparr>queue := q\<rparr>)
         | (False, _) \<Rightarrow> post_first_expired now ts (snd (oc_etimer_request_poll r)))
      else post_first_expired now ts r)"

lemma oc_process_poll_timerlist [simp]: "timerlist (oc_process_poll p r) = timerlist r" "etimer_of (oc_process_poll p r) = etimer_of r"
    "queue (oc_process_poll p r) = queue r"
  by (simp_all add: oc_process_poll_def)

lemma request_poll_simps [simp]: "timerlist (snd (oc_etimer_request_poll r)) = timerlist r"
    "etimer_of (snd (oc_etimer_request_poll r)) = etimer_of r" "queue (snd (oc_etimer_request_poll r)) = queue r"
  by (simp_all add: oc_etimer_request_poll_def Let_def)

lemma post_first_expired_timers:
  "post_first_expired now ts r = (res, r') \<Longrightarrow> timerlist r' = timerlist r \<and> etimer_of r' = etimer_of r \<and> (\<forall>t. res = Some t \<longrightarrow> t \<in> set ts)"
proof (induction now ts r rule: post_first_expired.induct)
  case (2 now t ts r)
  then show ?case by (auto split: if_splits prod.splits bool.splits)
qed auto

lemma update_time_timers [simp]: "timerlist (update_time now r) = timerlist r" "etimer_of (update_time now r) = etimer_of r"
    "queue (update_time now r) = queue r"
  by (auto simp: update_time_def split: list.splits)

function etimer_poll :: "u64 \<Rightarrow> oc_runtime \<Rightarrow> oc_runtime" where
  "etimer_poll now r =
     (case post_first_expired now (timerlist r) r of
        (None, r) \<Rightarrow> r
      | (Some t, r) \<Rightarrow>
          etimer_poll now (update_time now (on_etimer t (\<lambda>t. t\<lparr>et_p := None\<rparr>) (r\<lparr>timerlist := remove1 t (timerlist r)\<rparr>))))"
  by pat_completeness auto
termination
proof (relation "measure (\<lambda>(now, r). length (timerlist r))", goal_cases)
  case (2 now r x y t)
  then have "t \<in> set (timerlist r)" "timerlist y = timerlist r" by (metis post_first_expired_timers)+
  then show ?case by (auto simp: on_etimer_def length_remove1 dest: length_pos_if_in_set)
qed simp

declare etimer_poll.simps [simp del]

text \<open>When a process ends its timers are dropped, without being marked as expired.\<close>

definition oc_etimer_process_thread :: "u64 \<Rightarrow> oc_event \<Rightarrow> oc_runtime \<Rightarrow> oc_runtime" where
  "oc_etimer_process_thread now ev r =
     (case ev of OC_PROCESS_EVENT_INIT \<Rightarrow> r\<lparr>timerlist := []\<rparr>
      | OC_PROCESS_EVENT_EXITED p \<Rightarrow> r\<lparr>timerlist := filter (\<lambda>t. et_p (etimer_of r t) \<noteq> Some p) (timerlist r)\<rparr>
      | OC_PROCESS_EVENT_POLL \<Rightarrow> etimer_poll now r
      | _ \<Rightarrow> r)"

section \<open>The event queue is a bounded first-in-first-out queue\<close>

text \<open>What a user of a bounded queue relies on, over the sequence of waiting items.\<close>

locale bounded_fifo =
  fixes post :: "'a \<Rightarrow> 'q \<Rightarrow> bool \<times> 'q"
    and take_first :: "'q \<Rightarrow> ('a \<times> 'q) option"
    and items :: "'q \<Rightarrow> 'a list"
    and wf :: "'q \<Rightarrow> bool"
    and capacity :: nat
  assumes bounded: "wf q \<Longrightarrow> length (items q) \<le> capacity"
    and post_room: "wf q \<Longrightarrow> length (items q) < capacity \<Longrightarrow> \<exists>q'. post x q = (True, q') \<and> items q' = items q @ [x] \<and> wf q'"
    and post_full: "wf q \<Longrightarrow> length (items q) = capacity \<Longrightarrow> post x q = (False, q)"
    and take_empty: "wf q \<Longrightarrow> items q = [] \<Longrightarrow> take_first q = None"
    and take_some: "wf q \<Longrightarrow> items q = x # xs \<Longrightarrow> \<exists>q'. take_first q = Some (x, q') \<and> items q' = xs \<and> wf q'"

text \<open>A sequence of posts and takes, with the items accepted and the items delivered.\<close>

datatype 'a queue_op = Post 'a | Take

fun queue_run :: "('a \<Rightarrow> 'q \<Rightarrow> bool \<times> 'q) \<Rightarrow> ('q \<Rightarrow> ('a \<times> 'q) option) \<Rightarrow> 'a queue_op list \<Rightarrow> 'q \<Rightarrow> 'a list \<times> 'a list \<times> 'q" where
  "queue_run post take_first [] q = ([], [], q)"
| "queue_run post take_first (Post x # ops) q =
     (let (ok, q) = post x q; (acc, del, q) = queue_run post take_first ops q in ((if ok then x # acc else acc), del, q))"
| "queue_run post take_first (Take # ops) q =
     (case take_first q of None \<Rightarrow> queue_run post take_first ops q
      | Some (x, q) \<Rightarrow> (let (acc, del, q) = queue_run post take_first ops q in (acc, x # del, q)))"

context bounded_fifo
begin

lemma run_order:
  "wf q \<Longrightarrow> queue_run post take_first ops q = (acc, del, q') \<Longrightarrow> wf q' \<and> items q @ acc = del @ items q'"
proof (induction ops arbitrary: q acc del)
  case (Cons op ops)
  show ?case
  proof (cases op)
    case (Post x)
    show ?thesis
    proof (cases "length (items q) < capacity")
      case True
      then obtain q1 where q1: "post x q = (True, q1)" "items q1 = items q @ [x]" "wf q1" using post_room Cons(2) by blast
      obtain acc1 where "queue_run post take_first ops q1 = (acc1, del, q')" "acc = x # acc1"
        using Cons(3) q1(1) Post by (auto split: prod.splits)
      then show ?thesis using Cons(1) [OF q1(3)] q1(2) by auto
    next
      case False
      then have "post x q = (False, q)" using post_full [OF Cons(2)] bounded [OF Cons(2)] by simp
      then show ?thesis using Cons Post by (auto split: prod.splits)
    qed
  next
    case Take
    show ?thesis
    proof (cases "items q")
      case Nil
      then show ?thesis using Cons.IH [OF Cons.prems(1)] Cons.prems Take take_empty [OF Cons.prems(1)] by auto
    next
      case (Cons x xs)
      then obtain q1 where q1: "take_first q = Some (x, q1)" "items q1 = xs" "wf q1" using take_some \<open>wf q\<close> by blast
      obtain del1 where "queue_run post take_first ops q1 = (acc, del1, q')" "del = x # del1"
        using Cons.prems(2) q1(1) Take by (auto split: prod.splits)
      then show ?thesis using Cons.IH [OF q1(3)] q1(2) Cons by auto
    qed
  qed
qed simp

end

definition queue_items :: "event_queue \<Rightarrow> (oc_process \<times> oc_event) list" where
  "queue_items q = map (\<lambda>i. events q ! ((unat (fevent q) + i) mod OC_PROCESS_NUMEVENTS)) [0..<unat (nevents q)]"

definition queue_wf :: "event_queue \<Rightarrow> bool" where
  "queue_wf q \<longleftrightarrow> length (events q) = OC_PROCESS_NUMEVENTS \<and> unat (nevents q) \<le> OC_PROCESS_NUMEVENTS \<and> unat (fevent q) < OC_PROCESS_NUMEVENTS"

lemma mod_ring_distinct: "i < n \<Longrightarrow> n < 10 \<Longrightarrow> (f + n) mod 10 \<noteq> (f + i) mod (10 :: nat)"
  using mod_eq_dvd_iff_nat [of "f + i" "f + n" 10] dvd_imp_le [of 10 "n - i"] by auto

lemma post_event_items:
  assumes "queue_wf q" "unat (nevents q) < 10"
  shows "\<exists>q'. oc_process_post p ev q = (True, q') \<and> queue_items q' = queue_items q @ [(p, ev)] \<and> queue_wf q'"
proof -
  have w: "unat (nevents q + 1) = unat (nevents q) + 1" using assms(2) by (simp add: unat_plus_if')
  have f: "unat (fevent q + nevents q) = unat (fevent q) + unat (nevents q)"
    using assms by (simp add: queue_wf_def unat_plus_if')
  let ?n = "(unat (fevent q) + unat (nevents q)) mod 10"
  define q' where "q' = q\<lparr>events := (events q)[?n := (p, ev)], nevents := nevents q + 1\<rparr>"
  have "oc_process_post p ev q = (True, q')" using assms f by (simp add: oc_process_post_def Let_def q'_def)
  moreover have "queue_items q' = queue_items q @ [(p, ev)]"
  proof -
    have "events q' ! ((unat (fevent q) + i) mod 10) = events q ! ((unat (fevent q) + i) mod 10)" if "i < unat (nevents q)" for i
      using mod_ring_distinct [OF that assms(2), of "unat (fevent q)"] by (simp add: q'_def)
    moreover have "events q' ! ?n = (p, ev)" using assms(1) by (simp add: q'_def queue_wf_def)
    moreover have "fevent q' = fevent q" "unat (nevents q') = Suc (unat (nevents q))" using w by (simp_all add: q'_def)
    ultimately show ?thesis by (simp add: queue_items_def)
  qed
  moreover have "queue_wf q'" using assms w by (simp add: queue_wf_def q'_def)
  ultimately show ?thesis by blast
qed

lemma next_event_items:
  assumes "queue_wf q" "queue_items q = x # xs"
  shows "\<exists>q'. next_event q = Some (x, q') \<and> queue_items q' = xs \<and> queue_wf q'"
proof -
  have n: "unat (nevents q) = Suc (length xs)" using arg_cong [OF assms(2), of length] by (simp add: queue_items_def)
  have pos: "nevents q > 0" using n by (simp add: word_less_nat_alt)
  have w: "unat (nevents q - 1) = length xs" using n by (simp add: unat_sub_if' word_le_nat_alt)
  have f: "unat (word_of_nat ((unat (fevent q) + 1) mod 10) :: u8) = (unat (fevent q) + 1) mod 10"
    by (rule unat_word_of_nat_small) (use mod_less_divisor [of 10 "unat (fevent q) + 1"] in simp)
  have x: "events q ! unat (fevent q) = x" and xs: "map (\<lambda>i. events q ! ((unat (fevent q) + i) mod 10)) [1..<Suc (length xs)] = xs"
    using assms n by (simp_all add: queue_items_def queue_wf_def upt_conv_Cons del: upt_Suc)
  have "map (\<lambda>i. events q ! (((unat (fevent q) + 1) mod 10 + i) mod 10)) [0..<length xs] = xs"
    using xs by (simp add: map_Suc_upt [symmetric] mod_add_left_eq comp_def del: upt_Suc)
  then show ?thesis using assms(1) n pos w f x
    by (auto simp: next_event_def queue_items_def queue_wf_def)
qed

interpretation event_fifo: bounded_fifo "\<lambda>(p, ev). oc_process_post p ev" next_event queue_items queue_wf OC_PROCESS_NUMEVENTS
proof (unfold_locales, goal_cases)
  case (1 q) then show ?case by (simp add: queue_items_def queue_wf_def)
next
  case (2 q x) then show ?case using post_event_items [of q "fst x" "snd x"] by (cases x) (simp add: queue_items_def [of q])
next
  case (3 q x) then show ?case by (cases x) (simp add: queue_items_def oc_process_post_def)
next
  case (4 q) then show ?case by (simp add: queue_items_def next_event_def word_less_nat_alt unat_eq_0)
next
  case (5 q x xs) then show ?case by (rule next_event_items)
qed

text \<open>C15. Events are delivered in the order in which they were posted, each once and none invented: for any interleaving of posts
  and deliveries, starting with the queue in any well-formed position of its ring, the events waiting before
  followed by those accepted are those delivered followed by those still waiting; and a post is refused only
  when ten events are waiting.\<close>

theorem events_delivered_in_order:
  assumes "queue_wf q" "queue_run (\<lambda>(p, ev). oc_process_post p ev) next_event ops q = (accepted, delivered, q')"
  shows "queue_items q @ accepted = delivered @ queue_items q' \<and> queue_wf q' \<and>
    (fst (oc_process_post p ev q') \<longleftrightarrow> length (queue_items q') < 10)"
  using event_fifo.run_order [OF assms] event_fifo.bounded [of q'] event_fifo.post_room [of q' "(p, ev)"]
    event_fifo.post_full [of q' "(p, ev)"]
  by fastforce

theorem events_delivered_in_order_witness:
  "queue_run (\<lambda>(p, ev). oc_process_post p ev) next_event
     [Post (COAP_ENGINE, INBOUND_RI_EVENT 0), Post (MESSAGE_BUFFER_HANDLER, OUTBOUND_NETWORK_EVENT 1), Take]
     (empty_queue\<lparr>fevent := 9\<rparr>) =
     ([(COAP_ENGINE, INBOUND_RI_EVENT 0), (MESSAGE_BUFFER_HANDLER, OUTBOUND_NETWORK_EVENT 1)], [(COAP_ENGINE, INBOUND_RI_EVENT 0)],
      \<lparr>events = (replicate 10 (OC_ETIMER_PROCESS, OC_PROCESS_EVENT_INIT))[9 := (COAP_ENGINE, INBOUND_RI_EVENT 0),
         0 := (MESSAGE_BUFFER_HANDLER, OUTBOUND_NETWORK_EVENT 1)], nevents = 1, fevent = 0\<rparr>) \<and>
   queue_items \<lparr>events = (replicate 10 (OC_ETIMER_PROCESS, OC_PROCESS_EVENT_INIT))[9 := (COAP_ENGINE, INBOUND_RI_EVENT 0),
         0 := (MESSAGE_BUFFER_HANDLER, OUTBOUND_NETWORK_EVENT 1)], nevents = 1, fevent = 0\<rparr> =
     [(MESSAGE_BUFFER_HANDLER, OUTBOUND_NETWORK_EVENT 1)]"
  (is "?run = (?acc, ?del, ?q) \<and> _")
proof -
  have r: "?run = (?acc, ?del, ?q)" by code_simp
  have "queue_wf (empty_queue\<lparr>fevent := 9\<rparr>)" by (simp add: queue_wf_def empty_queue_def)
  moreover have "queue_items (empty_queue\<lparr>fevent := 9\<rparr>) = []" by (simp add: queue_items_def empty_queue_def)
  ultimately show ?thesis using r events_delivered_in_order [OF _ r] by simp
qed

section \<open>Pools\<close>

lemma memb_alloc_Some:
  assumes "oc_memb_alloc z m = (Some i, m')" "length (memb_mem m) = length (memb_count m)"
  shows "i < length (memb_count m)" "i \<notin> memb_used m" "memb_used m' = insert i (memb_used m)" "memb_at m' i = z"
    "\<And>j. j \<noteq> i \<Longrightarrow> memb_at m' j = memb_at m j" "length (memb_count m') = length (memb_count m)" "length (memb_mem m') = length (memb_mem m)"
proof -
  have f: "find (\<lambda>i. memb_count m ! i = 0) [0..<length (memb_count m)] = Some i"
    and m': "m' = m\<lparr>memb_count := (memb_count m)[i := memb_count m ! i + 1], memb_mem := (memb_mem m)[i := z]\<rparr>"
    using assms(1) by (auto simp: oc_memb_alloc_def split: option.splits)
  from f show i: "i < length (memb_count m)" and "i \<notin> memb_used m"
    by (auto simp: find_Some_iff memb_used_def)
  then show "memb_used m' = insert i (memb_used m)" "memb_at m' i = z" "\<And>j. j \<noteq> i \<Longrightarrow> memb_at m' j = memb_at m j"
    "length (memb_count m') = length (memb_count m)" "length (memb_mem m') = length (memb_mem m)"
    using m' assms(2) by (auto simp: memb_used_def nth_list_update)
qed

lemma memb_alloc_None: "oc_memb_alloc z m = (None, m') \<longleftrightarrow> m' = m \<and> memb_used m = {..<length (memb_count m)}"
proof -
  have a: "find (\<lambda>i. memb_count m ! i = 0) [0..<length (memb_count m)] = None \<longleftrightarrow> (\<forall>i < length (memb_count m). memb_count m ! i \<noteq> 0)"
    by (auto simp: find_None_iff)
  have b: "memb_used m = {..<length (memb_count m)} \<longleftrightarrow> (\<forall>i < length (memb_count m). memb_count m ! i \<noteq> 0)"
    by (auto simp: memb_used_def)
  show ?thesis
  proof (cases "find (\<lambda>i. memb_count m ! i = 0) [0..<length (memb_count m)]")
    case None
    then show ?thesis using a b by (auto simp: oc_memb_alloc_def)
  next
    case (Some i)
    then have "\<not> (\<forall>i < length (memb_count m). memb_count m ! i \<noteq> 0)" using a by simp
    then show ?thesis using b Some by (simp add: oc_memb_alloc_def)
  qed
qed

lemma memb_free_used:
  "memb_count m ! i \<le> 1 \<Longrightarrow> memb_used (oc_memb_free i m) = memb_used m - {i}" "memb_mem (oc_memb_free i m) = memb_mem m"
  "length (memb_count (oc_memb_free i m)) = length (memb_count m)"
  by (auto simp: oc_memb_free_def memb_used_def nth_list_update le_Suc_eq)

section \<open>Timers\<close>

text \<open>A timer is on the list exactly when it belongs to a process.\<close>

definition timers_inv :: "oc_runtime \<Rightarrow> bool" where
  "timers_inv r \<longleftrightarrow> distinct (timerlist r) \<and> (\<forall>t. t \<in> set (timerlist r) \<longleftrightarrow> et_p (etimer_of r t) \<noteq> None)"

lemma on_etimer_simps [simp]: "timerlist (on_etimer t f r) = timerlist r" "queue (on_etimer t f r) = queue r"
    "etimer_of (on_etimer t f r) = (etimer_of r)(t := f (etimer_of r t))"
  by (simp_all add: on_etimer_def)

lemma add_timer_inv: "timers_inv r \<Longrightarrow> timers_inv (add_timer now p t r)"
  by (auto simp: add_timer_def timers_inv_def Let_def)

lemma timers_inv_on_etimer: "(\<And>x. et_p (f x) = et_p x) \<Longrightarrow> timers_inv (on_etimer t f r) \<longleftrightarrow> timers_inv r"
  by (auto simp: timers_inv_def)

lemma etimer_set_inv: "timers_inv r \<Longrightarrow> timers_inv (oc_etimer_set now p t i r)"
  by (simp add: oc_etimer_set_def add_timer_inv timers_inv_on_etimer oc_timer_set_def)

lemma etimer_restart_inv: "timers_inv r \<Longrightarrow> timers_inv (oc_etimer_restart now p t r)"
  by (simp add: oc_etimer_restart_def add_timer_inv timers_inv_on_etimer oc_timer_restart_def)

lemma etimer_stop_inv: "timers_inv r \<Longrightarrow> timers_inv (oc_etimer_stop now t r)"
  by (auto simp: oc_etimer_stop_def timers_inv_def Let_def)

lemma post_first_expired_result:
  "post_first_expired now ts r = (res, r') \<Longrightarrow>
   (case res of None \<Rightarrow> queue r' = queue r \<and> (\<forall>t\<in>set ts. oc_timer_expired now (etimer_of r t) \<longrightarrow>
        \<not> fst (oc_process_post (the (et_p (etimer_of r t))) (OC_PROCESS_EVENT_TIMER t) (queue r)))
    | Some t \<Rightarrow> oc_timer_expired now (etimer_of r t) \<and>
        oc_process_post (the (et_p (etimer_of r t))) (OC_PROCESS_EVENT_TIMER t) (queue r) = (True, queue r'))"
proof (induction now ts r rule: post_first_expired.induct)
  case (2 now t ts r)
  then show ?case by (auto split: if_splits prod.splits bool.splits option.splits)
qed auto

definition timer_event :: "oc_runtime \<Rightarrow> etimer_ref \<Rightarrow> oc_process \<times> oc_event" where
  "timer_event r t = (the (et_p (etimer_of r t)), OC_PROCESS_EVENT_TIMER t)"

text \<open>
  A poll posts one event for each timer it takes off the list, to the process the timer belongs to, takes off only timers that have
  expired, and leaves an expired timer only when the queue is full.
\<close>

lemma etimer_poll_posts:
  assumes "timers_inv r" "queue_wf (queue r)"
  shows "\<exists>ts. timers_inv (etimer_poll now r) \<and> queue_wf (queue (etimer_poll now r)) \<and>
    set ts = set (timerlist r) - set (timerlist (etimer_poll now r)) \<and> distinct ts \<and>
    (\<forall>t\<in>set ts. oc_timer_expired now (etimer_of r t)) \<and>
    set (timerlist (etimer_poll now r)) \<subseteq> set (timerlist r) \<and>
    queue_items (queue (etimer_poll now r)) = queue_items (queue r) @ map (timer_event r) ts \<and>
    (\<forall>t\<in>set (timerlist (etimer_poll now r)). oc_timer_expired now (etimer_of r t) \<longrightarrow>
       length (queue_items (queue (etimer_poll now r))) = 10)"
  using assms
proof (induction now r rule: etimer_poll.induct)
  case (1 now r)
  obtain res r1 where p: "post_first_expired now (timerlist r) r = (res, r1)" by fastforce
  note q = post_first_expired_result [OF p] and t = post_first_expired_timers [OF p]
  show ?case
  proof (cases res)
    case None
    then have e: "etimer_poll now r = r1" using p by (simp add: etimer_poll.simps [of now r])
    have i: "timers_inv r1" using t 1(2) by (simp add: timers_inv_def)
    have full: "length (queue_items (queue r1)) = 10" if "s \<in> set (timerlist r)" "oc_timer_expired now (etimer_of r s)" for s
    proof -
      have "\<not> fst (oc_process_post (the (et_p (etimer_of r s))) (OC_PROCESS_EVENT_TIMER s) (queue r))" "queue r1 = queue r"
        using q None that by auto
      then show ?thesis
        using event_fifo.post_room [OF 1(3), of "timer_event r s"] event_fifo.bounded [OF 1(3)] by (auto simp: timer_event_def le_less)
    qed
    show ?thesis unfolding e by (rule exI [of _ "[]"]) (use t q None i 1(3) full in auto)
  next
    case (Some s)
    let ?r = "update_time now (on_etimer s (\<lambda>t. t\<lparr>et_p := None\<rparr>) (r1\<lparr>timerlist := remove1 s (timerlist r1)\<rparr>))"
    have e: "etimer_poll now r = etimer_poll now ?r" using p Some by (simp add: etimer_poll.simps [of now r])
    have s: "s \<in> set (timerlist r)" "timerlist r1 = timerlist r" "etimer_of r1 = etimer_of r" "oc_timer_expired now (etimer_of r s)"
        "oc_process_post (the (et_p (etimer_of r s))) (OC_PROCESS_EVENT_TIMER s) (queue r) = (True, queue r1)"
      using t q Some by auto
    have d: "distinct (timerlist r)" using 1(2) by (simp add: timers_inv_def)
    have inv: "timers_inv ?r" using 1(2) s by (auto simp: timers_inv_def)
    have len: "length (queue_items (queue r)) < 10"
      using s(5) event_fifo.post_full [OF 1(3), of "timer_event r s"] event_fifo.bounded [OF 1(3)] by (force simp: timer_event_def le_less)
    have qi: "queue_wf (queue r1)" "queue_items (queue r1) = queue_items (queue r) @ [timer_event r s]"
      using event_fifo.post_room [OF 1(3) len, of "timer_event r s"] s(5) by (auto simp: timer_event_def)
    have qr: "queue_wf (queue ?r)" using qi(1) by simp
    obtain ts where ts: "timers_inv (etimer_poll now ?r)" "queue_wf (queue (etimer_poll now ?r))"
      "set ts = set (timerlist ?r) - set (timerlist (etimer_poll now ?r))" "distinct ts"
      "\<forall>t\<in>set ts. oc_timer_expired now (etimer_of ?r t)" "set (timerlist (etimer_poll now ?r)) \<subseteq> set (timerlist ?r)"
      "queue_items (queue (etimer_poll now ?r)) = queue_items (queue ?r) @ map (timer_event ?r) ts"
      "\<forall>t\<in>set (timerlist (etimer_poll now ?r)). oc_timer_expired now (etimer_of ?r t) \<longrightarrow> length (queue_items (queue (etimer_poll now ?r))) = 10"
      using "1.IH" [OF p [symmetric] Some inv qr] by blast
    have nin: "s \<notin> set ts" "s \<notin> set (timerlist (etimer_poll now ?r))" using ts(3,6) d s(2) by auto
    have same: "etimer_of ?r x = etimer_of r x" if "x \<noteq> s" for x using that s(3) by simp
    have ex: "\<forall>t\<in>set ts. oc_timer_expired now (etimer_of r t)" using ts(5) same nin(1) by metis
    have full: "\<forall>t\<in>set (timerlist (etimer_poll now ?r)). oc_timer_expired now (etimer_of r t) \<longrightarrow> length (queue_items (queue (etimer_poll now ?r))) = 10"
      using ts(8) same nin(2) by metis
    have ev: "map (timer_event ?r) ts = map (timer_event r) ts" using same nin(1) by (auto simp: timer_event_def intro!: map_cong)
    show ?thesis unfolding e
    proof (rule exI [of _ "s # ts"], intro conjI)
      show "set (s # ts) = set (timerlist r) - set (timerlist (etimer_poll now ?r))" using ts(3) s(1,2) nin(2) d by auto
      show "set (timerlist (etimer_poll now ?r)) \<subseteq> set (timerlist r)" using ts(6) s(2) set_remove1_subset [of s "timerlist r"] by simp
      show "\<forall>t\<in>set (s # ts). oc_timer_expired now (etimer_of r t)" using ex s(4) by simp
      show "queue_items (queue (etimer_poll now ?r)) = queue_items (queue r) @ map (timer_event r) (s # ts)"
        using ts(7) qi(2) ev by simp
    qed (use ts(1,2,4) full nin in simp_all)
  qed
qed

end
