(* ===== verification/Channel_Transactions.thy ===== *)
theory Channel_Transactions
  imports Channel_Oc_Runtime Channel_Security
begin

text \<open>
  Message buffers (\<^verbatim>\<open>oc/api/oc_buffer.c\<close>), CoAP transactions (\<^verbatim>\<open>oc/messaging/coap/transactions.c\<close>) and the callbacks of
  client requests (\<^verbatim>\<open>oc/api/oc_ri.c\<close>). Buffers, transactions and callbacks live in pools of fixed size and are referred to
  by their number in the pool, so that what the code does to a block that has been freed is visible. The build is the one of
  \<^verbatim>\<open>include/shared_oc_config.h\<close> with link security: no confirmable messages, hence no retransmission.
\<close>

section \<open>State\<close>

abbreviation (input) OC_MAX_NUM_CONCURRENT_REQUESTS :: nat where "OC_MAX_NUM_CONCURRENT_REQUESTS \<equiv> 2"
abbreviation (input) OC_TRANSACTION_CACHED_IDLE_TIMEOUT_SECONDS :: u64 where "OC_TRANSACTION_CACHED_IDLE_TIMEOUT_SECONDS \<equiv> 5"
abbreviation (input) OC_NON_LIFETIME :: u64 where "OC_NON_LIFETIME \<equiv> 14"
abbreviation (input) OC_MAX_EVENT_CALLBACKS :: nat where "OC_MAX_EVENT_CALLBACKS \<equiv> 1 + 5 + 4 + 2 * 2"

record oc_message =
  msg_endpoint :: oc_endpoint
  msg_length :: nat
  msg_ref_count :: u8
  msg_data :: bytes

definition zero_endpoint :: oc_endpoint where
  "zero_endpoint = \<lparr>ep_flags = 0, ep_address = replicate 16 0, ep_port = 0, ep_scope = 0, ep_version = 0\<rparr>"

definition zero_message :: oc_message where
  "zero_message = \<lparr>msg_endpoint = zero_endpoint, msg_length = 0, msg_ref_count = 0,
     msg_data = replicate NEXUS_CHANNEL_MAX_COAP_TOTAL_MESSAGE_SIZE 0\<rparr>"

text \<open>The two timers of a transaction are kept with the other timers, under its number.\<close>

record coap_transaction =
  t_mid :: u16
  retrans_counter :: u8
  t_message :: nat

datatype oc_response_handler = NX_CHANNEL_GET_RESPONSE_HANDLER_WRAPPER | NX_CHANNEL_POST_RESPONSE_HANDLER_WRAPPER

datatype oc_qos = HIGH_QOS | LOW_QOS

record oc_client_cb =
  cb_uri :: bytes
  cb_query :: bytes
  cb_endpoint :: oc_endpoint
  cb_handler :: oc_response_handler
  cb_observe_seq :: int
  cb_timestamp :: u64
  cb_qos :: oc_qos
  cb_method :: u8
  cb_mid :: u16
  cb_token :: u8
  cb_token_len :: u8
  cb_discovery :: bool
  cb_multicast :: bool
  cb_stop_multicast_receive :: bool
  cb_ref_count :: u8
  cb_separate :: u8
  nx_request_secured :: bool

definition zero_client_cb :: oc_client_cb where
  "zero_client_cb = \<lparr>cb_uri = [], cb_query = [], cb_endpoint = zero_endpoint, cb_handler = NX_CHANNEL_GET_RESPONSE_HANDLER_WRAPPER,
     cb_observe_seq = 0, cb_timestamp = 0, cb_qos = HIGH_QOS, cb_method = 0, cb_mid = 0, cb_token = 0, cb_token_len = 0,
     cb_discovery = False, cb_multicast = False, cb_stop_multicast_receive = False, cb_ref_count = 0, cb_separate = 0,
     nx_request_secured = False\<rparr>"

text \<open>
  The stack around the Nexus Channel modules: its clock (the uptime), run-time, pools, lists and the statics of the client
  interface. A timed callback always removes the client callback whose number it carries.
\<close>

record 'p oc_stack =
  chan :: "'p channel"
  now :: u64
  rt :: oc_runtime
  incoming_buffers :: "oc_message oc_memb"
  outgoing_buffers :: "oc_message oc_memb"
  transactions_memb :: "coap_transaction oc_memb"
  transactions_list :: "nat list"
  client_cbs_s :: "oc_client_cb oc_memb"
  client_cbs :: "nat list"
  event_callbacks_s :: "nat oc_memb"
  timed_callbacks :: "nat list"
  current_mid :: u16
  coap_status_code :: u8
  main_initialized :: bool
  api_transaction :: "nat option"
  api_request :: coap_packet
  api_client_cb :: "nat option"

section \<open>Message buffers\<close>

definition allocate_message :: "oc_message oc_memb \<Rightarrow> nat option \<times> oc_message oc_memb" where
  "allocate_message pool =
     (case oc_memb_alloc zero_message pool of
        (None, pool) \<Rightarrow> (None, pool)
      | (Some i, pool) \<Rightarrow> (Some i, memb_update i (\<lambda>m. m\<lparr>msg_length := 0, msg_ref_count := 1\<rparr>) pool))"

definition stack_allocate_message :: "'p oc_stack \<Rightarrow> nat option \<times> 'p oc_stack" where
  "stack_allocate_message s = (let (i, pool) = allocate_message (incoming_buffers s) in (i, s\<lparr>incoming_buffers := pool\<rparr>))"

definition oc_internal_allocate_outgoing_message :: "'p oc_stack \<Rightarrow> nat option \<times> 'p oc_stack" where
  "oc_internal_allocate_outgoing_message s =
     (let (i, pool) = allocate_message (outgoing_buffers s) in (i, s\<lparr>outgoing_buffers := pool\<rparr>))"

definition oc_message_add_ref :: "nat \<Rightarrow> oc_message oc_memb \<Rightarrow> oc_message oc_memb" where
  "oc_message_add_ref i = memb_update i (\<lambda>m. m\<lparr>msg_ref_count := msg_ref_count m + 1\<rparr>)"

text \<open>The count is unsigned, so that it is at most 0 only when it is 0.\<close>

definition oc_message_unref :: "nat \<Rightarrow> oc_message oc_memb \<Rightarrow> oc_message oc_memb" where
  "oc_message_unref i pool =
     (let pool = memb_update i (\<lambda>m. m\<lparr>msg_ref_count := msg_ref_count m - 1\<rparr>) pool
      in if msg_ref_count (memb_at pool i) = 0 then oc_memb_free i pool else pool)"

definition on_outgoing :: "(oc_message oc_memb \<Rightarrow> oc_message oc_memb) \<Rightarrow> 'p oc_stack \<Rightarrow> 'p oc_stack" where
  "on_outgoing f s = s\<lparr>outgoing_buffers := f (outgoing_buffers s)\<rparr>"

definition on_incoming :: "(oc_message oc_memb \<Rightarrow> oc_message oc_memb) \<Rightarrow> 'p oc_stack \<Rightarrow> 'p oc_stack" where
  "on_incoming f s = s\<lparr>incoming_buffers := f (incoming_buffers s)\<rparr>"

definition on_rt :: "(oc_runtime \<Rightarrow> oc_runtime) \<Rightarrow> 'p oc_stack \<Rightarrow> 'p oc_stack" where
  "on_rt f s = s\<lparr>rt := f (rt s)\<rparr>"

definition on_chan :: "('p channel \<Rightarrow> 'p channel) \<Rightarrow> 'p oc_stack \<Rightarrow> 'p oc_stack" where
  "on_chan f s = s\<lparr>chan := f (chan s)\<rparr>"

definition post_event :: "oc_process \<Rightarrow> oc_event \<Rightarrow> 'p oc_stack \<Rightarrow> bool \<times> 'p oc_stack" where
  "post_event p ev s = (let (ok, q) = oc_process_post p ev (queue (rt s)) in (ok, s\<lparr>rt := (rt s)\<lparr>queue := q\<rparr>\<rparr>))"

definition oc_recv_message :: "nat \<Rightarrow> 'p oc_stack \<Rightarrow> 'p oc_stack" where
  "oc_recv_message i s =
     (case post_event MESSAGE_BUFFER_HANDLER (INBOUND_NETWORK_EVENT i) s of
        (True, s) \<Rightarrow> s | (False, s) \<Rightarrow> on_incoming (oc_message_unref i) s)"

definition oc_send_message :: "nat \<Rightarrow> 'p oc_stack \<Rightarrow> 'p oc_stack" where
  "oc_send_message i s =
     (case post_event MESSAGE_BUFFER_HANDLER (OUTBOUND_NETWORK_EVENT i) s of
        (True, s) \<Rightarrow> s
      | (False, s) \<Rightarrow> on_outgoing (memb_update i (\<lambda>m. m\<lparr>msg_ref_count := msg_ref_count m - 1\<rparr>)) s)"

definition message_bytes_of :: "oc_message \<Rightarrow> bytes" where
  "message_bytes_of m = take (msg_length m) (msg_data m)"

abbreviation (input) DISCOVERY :: u32 where "DISCOVERY \<equiv> 1"

text \<open>The process between the network and the engine. A sent message is released.\<close>

definition message_buffer_handler_thread :: "'p channel_env \<Rightarrow> oc_event \<Rightarrow> 'p oc_stack \<Rightarrow> 'p oc_stack" where
  "message_buffer_handler_thread e ev s =
     (case ev of
        INBOUND_NETWORK_EVENT i \<Rightarrow> snd (post_event COAP_ENGINE (INBOUND_RI_EVENT i) s)
      | OUTBOUND_NETWORK_EVENT i \<Rightarrow>
          let m = memb_at (outgoing_buffers s) i;
              s = (if ep_flags (msg_endpoint m) AND DISCOVERY \<noteq> 0
                   then on_chan (oc_send_discovery_request e (message_bytes_of m) (msg_endpoint m)) s
                   else on_chan (\<lambda>c. snd (oc_send_buffer e (message_bytes_of m) (msg_endpoint m) c)) s)
          in on_outgoing (oc_message_unref i) s
      | _ \<Rightarrow> s)"

text \<open>The bytes of a serialised packet are written to the start of the buffer.\<close>

definition store_message :: "nat \<Rightarrow> bytes \<Rightarrow> 'p oc_stack \<Rightarrow> 'p oc_stack" where
  "store_message i bs = on_outgoing (memb_update i (\<lambda>m. m\<lparr>msg_length := length bs, msg_data := memcpy_at 0 bs (msg_data m)\<rparr>))"

section \<open>Transactions\<close>

definition zero_transaction :: coap_transaction where
  "zero_transaction = \<lparr>t_mid = 0, retrans_counter = 0, t_message = 0\<rparr>"

text \<open>A block of the pool is cleared when it is allocated, the timers in it too.\<close>

definition coap_new_transaction :: "u16 \<Rightarrow> oc_endpoint \<Rightarrow> 'p oc_stack \<Rightarrow> nat option \<times> 'p oc_stack" where
  "coap_new_transaction m endpoint s =
     (case oc_memb_alloc zero_transaction (transactions_memb s) of
        (None, pool) \<Rightarrow> (None, s\<lparr>transactions_memb := pool\<rparr>)
      | (Some t, pool) \<Rightarrow>
          let s = on_rt (on_etimer (IDLE_TIMEOUT_TIMER t) (\<lambda>_. zero_etimer) \<circ> on_etimer (RETRANS_TIMER t) (\<lambda>_. zero_etimer))
                    (s\<lparr>transactions_memb := pool\<rparr>)
          in case oc_internal_allocate_outgoing_message s of
               (None, s) \<Rightarrow> (None, s\<lparr>transactions_memb := oc_memb_free t (transactions_memb s)\<rparr>)
             | (Some i, s) \<Rightarrow>
                 let s = on_outgoing (memb_update i (\<lambda>g. g\<lparr>msg_endpoint := endpoint\<rparr>)) s
                 in (Some t, s\<lparr>transactions_memb := memb_update t (\<lambda>x. x\<lparr>t_mid := m, retrans_counter := 0, t_message := i\<rparr>) (transactions_memb s),
                       transactions_list := transactions_list s @ [t]\<rparr>))"

definition coap_clear_transaction :: "nat \<Rightarrow> 'p oc_stack \<Rightarrow> 'p oc_stack" where
  "coap_clear_transaction t s =
     (let s = on_rt (oc_etimer_stop (now s) (IDLE_TIMEOUT_TIMER t) \<circ> oc_etimer_stop (now s) (RETRANS_TIMER t)) s;
          s = on_outgoing (oc_message_unref (t_message (memb_at (transactions_memb s) t))) s
      in s\<lparr>transactions_list := remove1 t (transactions_list s), transactions_memb := oc_memb_free t (transactions_memb s)\<rparr>)"

definition coap_send_transaction :: "nat \<Rightarrow> bool \<Rightarrow> 'p oc_stack \<Rightarrow> 'p oc_stack" where
  "coap_send_transaction t should_cache s =
     (if \<not> main_initialized s then s
      else
        let i = t_message (memb_at (transactions_memb s) t);
            s = oc_send_message i (on_outgoing (oc_message_add_ref i) s)
        in if should_cache
           then on_rt (oc_etimer_set (now s) COAP_ENGINE (IDLE_TIMEOUT_TIMER t) OC_TRANSACTION_CACHED_IDLE_TIMEOUT_SECONDS) s
           else coap_clear_transaction t s)"

definition coap_get_transaction_by_mid :: "u16 \<Rightarrow> 'p oc_stack \<Rightarrow> nat option" where
  "coap_get_transaction_by_mid m s = find (\<lambda>t. t_mid (memb_at (transactions_memb s) t) = m) (transactions_list s)"

definition coap_transactions_free_count :: "'p oc_stack \<Rightarrow> nat" where
  "coap_transactions_free_count s = oc_memb_numfree (transactions_memb s)"

text \<open>The walk keeps the next item before it clears the current one.\<close>

definition coap_free_all_transactions :: "'p oc_stack \<Rightarrow> 'p oc_stack" where
  "coap_free_all_transactions s = fold coap_clear_transaction (transactions_list s) s"

section \<open>Client callbacks\<close>

definition coap_get_mid :: "'p oc_stack \<Rightarrow> u16 \<times> 'p oc_stack" where
  "coap_get_mid s = (current_mid s + 1, s\<lparr>current_mid := current_mid s + 1\<rparr>)"

definition random_value :: "'p channel_env \<Rightarrow> 'p oc_stack \<Rightarrow> u32 \<times> 'p oc_stack" where
  "random_value e s = (let (v, p) = nxp_channel_random_value e (cplat (chan s)) in (v, on_chan (on_plat (\<lambda>_. p)) s))"

definition coap_init_connection :: "'p channel_env \<Rightarrow> 'p oc_stack \<Rightarrow> 'p oc_stack" where
  "coap_init_connection e s = (let (v, s) = random_value e s in s\<lparr>current_mid := ucast v\<rparr>)"

definition on_cb :: "nat \<Rightarrow> (oc_client_cb \<Rightarrow> oc_client_cb) \<Rightarrow> 'p oc_stack \<Rightarrow> 'p oc_stack" where
  "on_cb c f s = s\<lparr>client_cbs_s := memb_update c f (client_cbs_s s)\<rparr>"

abbreviation cb_at :: "'p oc_stack \<Rightarrow> nat \<Rightarrow> oc_client_cb" where
  "cb_at s c \<equiv> memb_at (client_cbs_s s) c"

definition free_client_cb :: "nat \<Rightarrow> 'p oc_stack \<Rightarrow> 'p oc_stack" where
  "free_client_cb c s = s\<lparr>client_cbs := remove1 c (client_cbs s), client_cbs_s := oc_memb_free c (client_cbs_s s)\<rparr>"

definition oc_ri_remove_client_cb :: "nat \<Rightarrow> 'p oc_stack \<Rightarrow> 'p oc_stack" where
  "oc_ri_remove_client_cb c s = free_client_cb c s"

definition oc_ri_alloc_client_cb ::
    "'p channel_env \<Rightarrow> bytes \<Rightarrow> oc_endpoint \<Rightarrow> u8 \<Rightarrow> bytes \<Rightarrow> oc_response_handler \<Rightarrow> oc_qos \<Rightarrow> 'p oc_stack \<Rightarrow> nat option \<times> 'p oc_stack" where
  "oc_ri_alloc_client_cb e uri endpoint method query h q s =
     (case oc_memb_alloc zero_client_cb (client_cbs_s s) of
        (None, pool) \<Rightarrow> (None, s\<lparr>client_cbs_s := pool\<rparr>)
      | (Some c, pool) \<Rightarrow>
          let (m, s) = coap_get_mid (s\<lparr>client_cbs_s := pool\<rparr>);
              (v, s) = random_value e s;
              s = on_cb c (\<lambda>cb. cb\<lparr>cb_mid := m, cb_uri := uri, cb_method := method, cb_qos := q, cb_handler := h, cb_token_len := 1,
                    cb_token := ucast (v AND 0xff), cb_discovery := False, cb_timestamp := now s, cb_observe_seq := -1,
                    cb_endpoint := endpoint, cb_query := query, nx_request_secured := False\<rparr>) s
          in (Some c, s\<lparr>client_cbs := client_cbs s @ [c]\<rparr>))"

definition oc_ri_find_client_cb_by_mid :: "u16 \<Rightarrow> 'p oc_stack \<Rightarrow> nat option" where
  "oc_ri_find_client_cb_by_mid m s = find (\<lambda>c. cb_mid (cb_at s c) = m) (client_cbs s)"

text \<open>Tokens have at most one byte.\<close>

definition oc_ri_find_client_cb_by_token :: "u8 \<Rightarrow> u8 \<Rightarrow> 'p oc_stack \<Rightarrow> nat option" where
  "oc_ri_find_client_cb_by_token token token_len s =
     find (\<lambda>c. cb_token_len (cb_at s c) = token_len \<and> (token_len = 0 \<or> cb_token (cb_at s c) = token)) (client_cbs s)"

definition oc_ri_is_client_cb_valid :: "nat \<Rightarrow> 'p oc_stack \<Rightarrow> bool" where
  "oc_ri_is_client_cb_valid c s \<longleftrightarrow> c \<in> set (client_cbs s)"

section \<open>Timed callbacks\<close>

definition oc_ri_add_timed_event_callback :: "nat \<Rightarrow> u64 \<Rightarrow> 'p oc_stack \<Rightarrow> 'p oc_stack" where
  "oc_ri_add_timed_event_callback c ticks s =
     (case oc_memb_alloc 0 (event_callbacks_s s) of
        (None, pool) \<Rightarrow> s\<lparr>event_callbacks_s := pool\<rparr>
      | (Some k, pool) \<Rightarrow>
          let s = on_rt (on_etimer (EVENT_CALLBACK_TIMER k) (\<lambda>_. zero_etimer)) (s\<lparr>event_callbacks_s := memb_update k (\<lambda>_. c) pool\<rparr>);
              s = on_rt (oc_etimer_set (now s) TIMED_CALLBACK_EVENTS (EVENT_CALLBACK_TIMER k) ticks) s
          in s\<lparr>timed_callbacks := timed_callbacks s @ [k]\<rparr>)"

definition oc_ri_remove_timed_event_callback :: "nat \<Rightarrow> 'p oc_stack \<Rightarrow> 'p oc_stack" where
  "oc_ri_remove_timed_event_callback c s =
     (case find (\<lambda>k. memb_at (event_callbacks_s s) k = c) (timed_callbacks s) of
        None \<Rightarrow> s
      | Some k \<Rightarrow> on_rt (oc_etimer_stop (now s) (EVENT_CALLBACK_TIMER k))
          (s\<lparr>timed_callbacks := remove1 k (timed_callbacks s), event_callbacks_s := oc_memb_free k (event_callbacks_s s)\<rparr>))"

text \<open>The callbacks that have expired are run and removed; after each the walk starts over.\<close>

function poll_event_callback_timers :: "'p oc_stack \<Rightarrow> 'p oc_stack" where
  "poll_event_callback_timers s =
     (case find (\<lambda>k. oc_etimer_expired (EVENT_CALLBACK_TIMER k) (rt s)) (timed_callbacks s) of
        None \<Rightarrow> s
      | Some k \<Rightarrow>
          let s = oc_ri_remove_client_cb (memb_at (event_callbacks_s s) k) s
          in poll_event_callback_timers
               (s\<lparr>timed_callbacks := remove1 k (timed_callbacks s), event_callbacks_s := oc_memb_free k (event_callbacks_s s)\<rparr>))"
  by pat_completeness auto
termination
proof (relation "measure (\<lambda>s. length (timed_callbacks s))", goal_cases)
  case (2 s k x)
  then have "k \<in> set (timed_callbacks s)" by (auto simp: find_Some_iff in_set_conv_nth)
  then show ?case using 2(2) by (auto simp: oc_ri_remove_client_cb_def free_client_cb_def length_remove1 dest: length_pos_if_in_set)
qed simp

declare poll_event_callback_timers.simps [simp del]

definition timed_callback_events_thread :: "oc_event \<Rightarrow> 'p oc_stack \<Rightarrow> 'p oc_stack" where
  "timed_callback_events_thread ev s = (case ev of OC_PROCESS_EVENT_TIMER _ \<Rightarrow> poll_event_callback_timers s | _ \<Rightarrow> s)"

end
