(* ===== verification/Channel_Dispatch.thy ===== *)
theory Channel_Dispatch
  imports Channel_Rep Channel_Credit Channel_Handshake
begin

text \<open>
  The dispatch of a request to the handler of its resource (\<^verbatim>\<open>oc_ri_invoke_coap_entity_handler\<close> and what it uses of \<^verbatim>\<open>oc/api/oc_ri.c\<close>,
  \<^verbatim>\<open>oc_core_res.c\<close> and \<^verbatim>\<open>oc_server_api.c\<close>). A result \<open>None\<close> is an access through a pointer that was never set, outside an array, or to
  memory that could not be allocated.
\<close>

section \<open>Environment\<close>

text \<open>
  \<open>tag_memory\<close> is what uninitialised memory holds, \<open>rep_pools\<close> the memory that is free for decoded payloads; \<open>product_request\<close> and
  \<open>product_response\<close> are the handlers of the product.
\<close>

record 'p stack_env =
  cenv :: "'p channel_env"
  tag_memory :: bytes
  rep_pools :: rep_mem
  product_request :: "nat \<Rightarrow> u32 \<Rightarrow> oc_rep \<Rightarrow> 'p channel \<Rightarrow> 'p channel"
  product_response :: "nat \<Rightarrow> nx_id \<Rightarrow> oc_rep \<Rightarrow> nat \<Rightarrow> 'p channel \<Rightarrow> 'p channel"

text \<open>What the engine is told: to drop the request, or to answer with a status code and a payload.\<close>

datatype entity_response = ENTITY_IGNORE | ENTITY_RESPONSE u8 bytes

section \<open>Status codes\<close>

definition oc_status_code :: "oc_status \<Rightarrow> u8" where
  "oc_status_code st = (case st of OC_STATUS_OK \<Rightarrow> 69 | OC_STATUS_CREATED \<Rightarrow> 65 | OC_STATUS_CHANGED \<Rightarrow> 68 | OC_STATUS_DELETED \<Rightarrow> 66
     | OC_STATUS_NOT_MODIFIED \<Rightarrow> 67 | OC_STATUS_BAD_REQUEST \<Rightarrow> 128 | OC_STATUS_UNAUTHORIZED \<Rightarrow> 129 | OC_STATUS_BAD_OPTION \<Rightarrow> 130
     | OC_STATUS_FORBIDDEN \<Rightarrow> 131 | OC_STATUS_NOT_FOUND \<Rightarrow> 132 | OC_STATUS_METHOD_NOT_ALLOWED \<Rightarrow> 133 | OC_STATUS_NOT_ACCEPTABLE \<Rightarrow> 134
     | OC_STATUS_REQUEST_ENTITY_TOO_LARGE \<Rightarrow> 141 | OC_STATUS_UNSUPPORTED_MEDIA_TYPE \<Rightarrow> 143 | OC_STATUS_INTERNAL_SERVER_ERROR \<Rightarrow> 160
     | OC_STATUS_NOT_IMPLEMENTED \<Rightarrow> 161 | OC_STATUS_BAD_GATEWAY \<Rightarrow> 162 | OC_STATUS_SERVICE_UNAVAILABLE \<Rightarrow> 163
     | OC_STATUS_GATEWAY_TIMEOUT \<Rightarrow> 164 | OC_STATUS_PROXYING_NOT_SUPPORTED \<Rightarrow> 165)"

section \<open>Queries and interfaces\<close>

text \<open>The first pair of a query: its key, its value and the position behind it.\<close>

definition oc_ri_get_query_first_key_value :: "bytes \<Rightarrow> (bytes \<times> bytes \<times> nat) option" where
  "oc_ri_get_query_first_key_value query =
     (case dropWhile (\<lambda>b. b \<noteq> 0x3D) query of
        [] \<Rightarrow> None
      | _ # rest \<Rightarrow>
          let key = takeWhile (\<lambda>b. b \<noteq> 0x3D) query;
              val = takeWhile (\<lambda>b. b \<noteq> 0x26) rest
          in Some (key, val, length key + 1 + length val + 1))"

definition lower_case :: "u8 \<Rightarrow> u8" where
  "lower_case b = (if 0x41 \<le> b \<and> b \<le> 0x5A then b + 32 else b)"

function oc_ri_get_query_value :: "bytes \<Rightarrow> bytes \<Rightarrow> bytes option" where
  "oc_ri_get_query_value query key =
     (if query = [] then None
      else case oc_ri_get_query_first_key_value query of
          None \<Rightarrow> None
        | Some (k, val, next_pos) \<Rightarrow>
            if length k = length key \<and> map lower_case k = map lower_case key then Some val
            else oc_ri_get_query_value (drop next_pos query) key)"
  by auto
termination
  by (relation "measure (\<lambda>(query, _). length query)")
    (auto simp: oc_ri_get_query_first_key_value_def Let_def split: list.splits)

declare oc_ri_get_query_value.simps [simp del]

definition oc_ri_get_interface_mask :: "bytes \<Rightarrow> u32" where
  "oc_ri_get_interface_mask iface =
     (case map_of [(name_bytes ''oic.if.baseline'', OC_IF_BASELINE_MASK), (name_bytes ''oic.if.ll'', OC_IF_LL_MASK), (name_bytes ''oic.if.b'', OC_IF_B_MASK),
        (name_bytes ''oic.if.r'', OC_IF_R_MASK), (name_bytes ''oic.if.rw'', OC_IF_RW_MASK), (name_bytes ''oic.if.a'', OC_IF_A_MASK),
        (name_bytes ''oic.if.s'', OC_IF_S_MASK), (name_bytes ''oic.if.create'', OC_IF_CREATE_MASK)] iface of None \<Rightarrow> 0 | Some m \<Rightarrow> m)"

definition does_interface_support_method :: "u32 \<Rightarrow> oc_method \<Rightarrow> bool" where
  "does_interface_support_method iface_mask m =
     (if iface_mask = OC_IF_LL_MASK \<or> iface_mask = OC_IF_S_MASK \<or> iface_mask = OC_IF_R_MASK then m = OC_GET else True)"

text \<open>The interface of the query; an unknown one counts as none.\<close>

definition request_interface :: "coap_packet \<Rightarrow> u32" where
  "request_interface pkt =
     (let uri_query = coap_get_header_uri_query pkt
      in if uri_query = [] then 0
         else case oc_ri_get_query_value uri_query (name_bytes ''if'') of None \<Rightarrow> 0 | Some iface \<Rightarrow> oc_ri_get_interface_mask iface)"

section \<open>Resources\<close>

text \<open>The core resources, registered without handlers (\<^verbatim>\<open>oc_core_init_platform\<close>, \<^verbatim>\<open>oc_core_add_new_device\<close>); the others have no path.\<close>

definition core_resources :: "oc_resource list" where
  "core_resources = map (\<lambda>uri. \<lparr>res_uri = uri, res_interfaces = OC_IF_R_MASK OR OC_IF_BASELINE_MASK, res_default_interface = OC_IF_R_MASK,
     get_handler = None, post_handler = None\<rparr>) [oc_store_uri ''oic/p'', oc_store_uri ''/oic/d/'']"

text \<open>
  The resource of a request, or \<open>None\<close> if there is no such resource. For a request without path the pointer to the path is not set, but
  its first character is read.
\<close>

definition request_resource :: "coap_packet \<Rightarrow> registry \<Rightarrow> oc_resource option option" where
  "request_resource pkt r =
     (let path = path_string (coap_get_header_uri_path pkt)
      in case find (\<lambda>res. length (res_uri res) = length path + 1 \<and> drop 1 (res_uri res) = path) core_resources of
           Some res \<Rightarrow> Some (Some res)
         | None \<Rightarrow>
             if \<not> IS_OPTION pkt COAP_OPTION_URI_PATH then None
             else Some (map_option (\<lambda>i. res_pool r ! i) (oc_ri_get_app_resource_by_uri path r)))"

definition resource_handler :: "oc_method \<Rightarrow> oc_resource \<Rightarrow> oc_request_callback option" where
  "resource_handler m res = (case m of OC_GET \<Rightarrow> get_handler res | OC_POST \<Rightarrow> post_handler res | _ \<Rightarrow> None)"

definition interface_case :: "u32 \<Rightarrow> oc_interface_mask" where
  "interface_case m = (if m = OC_IF_BASELINE_MASK then OC_IF_BASELINE else if m = OC_IF_RW_MASK then OC_IF_RW else OC_IF_OTHER)"

definition call_request_handler :: "'p stack_env \<Rightarrow> oc_request_callback \<Rightarrow> u32 \<Rightarrow> oc_endpoint \<Rightarrow> oc_rep \<Rightarrow> 'p channel \<Rightarrow> 'p channel option" where
  "call_request_handler e h iface_mask origin rep s =
     (case h of
        LM_SERVER_GET \<Rightarrow> Some (nexus_channel_res_lm_server_get (cenv e) (interface_case iface_mask) s)
      | LINK_HS_SERVER_GET \<Rightarrow> Some (nexus_channel_res_link_hs_server_get (cenv e) (interface_case iface_mask) s)
      | LINK_HS_SERVER_POST \<Rightarrow> Some (nexus_channel_res_link_hs_server_post (cenv e) (nexus_oc_wrapper_oc_endpoint_to_nx_id origin) rep s)
      | PAYG_CREDIT_GET \<Rightarrow> nexus_channel_res_payg_credit_get_handler (cenv e) (interface_case iface_mask) s
      | PAYG_CREDIT_POST \<Rightarrow> Some (nexus_channel_res_payg_credit_post_handler (cenv e) rep s)
      | PRODUCT_HANDLER n \<Rightarrow> Some (product_request e n iface_mask rep s))"

section \<open>Dispatch\<close>

text \<open>The code and the payload that a handler leaves: nothing if it does not answer, no payload if it cannot be encoded.\<close>

definition handler_answer :: "(oc_status \<times> oc_rep) option \<Rightarrow> u8 \<times> bytes" where
  "handler_answer a =
     (case a of
        None \<Rightarrow> (0, [])
      | Some (st, rep) \<Rightarrow>
          let g = rep_encode_root rep (oc_rep_new NEXUS_CHANNEL_MAX_CBOR_PAYLOAD_SIZE)
          in (oc_status_code st, take (response_length g) (enc_written (snd g))))"

text \<open>A request to a resource, on the interface that it selects or on the resource's own.\<close>

definition serve_resource :: "'p stack_env \<Rightarrow> oc_method \<Rightarrow> u32 \<Rightarrow> oc_endpoint \<Rightarrow> oc_rep \<Rightarrow> oc_resource \<Rightarrow> 'p channel \<Rightarrow> ((u8 \<times> bytes) \<times> 'p channel) option" where
  "serve_resource e m iface_mask endpoint rep res s =
     (let iface_mask = (if iface_mask = 0 then res_default_interface res else iface_mask)
      in if iface_mask AND NOT (res_interfaces res) \<noteq> 0 \<or> \<not> does_interface_support_method iface_mask m
         then Some ((oc_status_code OC_STATUS_FORBIDDEN, []), s)
         else case resource_handler m res of
             None \<Rightarrow> Some ((oc_status_code OC_STATUS_METHOD_NOT_ALLOWED, []), s)
           | Some h \<Rightarrow> map_option (\<lambda>s. (handler_answer (answer s), s\<lparr>answer := None\<rparr>)) (call_request_handler e h iface_mask endpoint rep (s\<lparr>answer := None\<rparr>)))"

definition oc_ri_invoke_coap_entity_handler :: "'p stack_env \<Rightarrow> coap_packet \<Rightarrow> oc_endpoint \<Rightarrow> 'p channel \<Rightarrow> (entity_response \<times> 'p channel) option" where
  "oc_ri_invoke_coap_entity_handler e pkt endpoint s =
     (let payload = payload_bytes pkt
      in case (if payload = [] then Inr (0, []) else oc_parse_rep (rep_pools e) payload) of
           Inl _ \<Rightarrow> None
         | Inr (parse_error, rep) \<Rightarrow>
             let served =
               (if parse_error = cbor_error_code CborErrorUnexpectedEOF then Some ((oc_status_code OC_STATUS_REQUEST_ENTITY_TOO_LARGE, []), s)
                else if parse_error \<noteq> 0 then Some ((oc_status_code OC_STATUS_BAD_REQUEST, []), s)
                else case request_resource pkt (reg s) of
                    None \<Rightarrow> None
                  | Some None \<Rightarrow> Some ((oc_status_code OC_STATUS_NOT_FOUND, []), s)
                  | Some (Some res) \<Rightarrow>
                      (case oc_method_of_code (pkt_code pkt) of
                         None \<Rightarrow> Some ((oc_status_code OC_STATUS_METHOD_NOT_ALLOWED, []), s)
                       | Some m \<Rightarrow> serve_resource e m (request_interface pkt) endpoint rep res s))
             in map_option (\<lambda>((code, payload), s).
                  (if ep_flags endpoint AND MULTICAST \<noteq> 0 \<and> oc_status_code OC_STATUS_BAD_REQUEST \<le> code then ENTITY_IGNORE
                   else ENTITY_RESPONSE code payload, s)) served)"

section \<open>A registered resource is served\<close>

text \<open>Every listed resource is a block of the pool, and every path starts with a slash.\<close>

definition registry_wf :: "registry \<Rightarrow> bool" where
  "registry_wf r \<longleftrightarrow> list_all (\<lambda>i. i < length (res_pool r)) (app_resources r) \<and> list_all (\<lambda>res. take 1 (res_uri res) = ''/'') (res_pool r)"

definition props_resource :: "nx_channel_resource_props \<Rightarrow> oc_resource" where
  "props_resource props = \<lparr>res_uri = rp_uri props, res_interfaces = fold (\<lambda>m a. a OR m) (rp_if_masks props) OC_IF_BASELINE_MASK,
     res_default_interface = (case rp_if_masks props of [] \<Rightarrow> OC_IF_BASELINE_MASK | first # _ \<Rightarrow> first),
     get_handler = rp_get_handler props, post_handler = rp_post_handler props\<rparr>"

lemma bind_all:
  "fold (oc_resource_bind_resource_interface (length p)) masks (r\<lparr>res_pool := p @ [x]\<rparr>) =
   r\<lparr>res_pool := p @ [x\<lparr>res_interfaces := fold (\<lambda>m a. a OR m) masks (res_interfaces x)\<rparr>]\<rparr>"
  by (induction masks arbitrary: x) (simp_all add: oc_resource_bind_resource_interface_def)

lemma bind_interfaces_last:
  "bind_interfaces (length p) masks (r\<lparr>res_pool := p @ [x]\<rparr>) =
   r\<lparr>res_pool := p @ [x\<lparr>res_interfaces := fold (\<lambda>m a. a OR m) masks (res_interfaces x),
     res_default_interface := (case masks of [] \<Rightarrow> res_default_interface x | first # _ \<Rightarrow> first)\<rparr>]\<rparr>"
  by (simp add: bind_interfaces_def bind_all oc_resource_set_default_interface_def split: list.splits)

lemma secure_method_ok:
  "secure_method res m (ok, r) = (True, r') \<Longrightarrow> res_pool r' = res_pool r \<and> app_resources r' = app_resources r"
  by (auto simp: secure_method_def nexus_channel_sm_nexus_resource_method_new_def split: if_splits)

lemma register_resource:
  assumes "nx_channel_register_resource props r = (NX_CHANNEL_ERROR_NONE, r')" "rp_uri props = CHR ''/'' # u"
  shows "res_pool r' = res_pool r @ [props_resource props]" "app_resources r' = app_resources r @ [length (res_pool r)]"
    "find (\<lambda>i. uri_matches (rp_uri props) (res_uri (res_pool r' ! i))) (app_resources r) = None"
proof -
  let ?p = "res_pool r" and ?x = "\<lparr>res_uri = rp_uri props, res_interfaces = OC_IF_BASELINE_MASK, res_default_interface = OC_IF_BASELINE_MASK,
     get_handler = None, post_handler = None\<rparr>"
  have room: "length ?p < 4" using assms(1) by (auto simp: nx_channel_register_resource_def oc_new_resource_def split: if_splits)
  have n: "oc_new_resource (rp_uri props) r = (Some (length ?p), r\<lparr>res_pool := ?p @ [?x]\<rparr>)"
    using room assms(2) by (simp add: oc_new_resource_def oc_store_uri_def)
  define r2 where "r2 = r\<lparr>res_pool := ?p @ [props_resource props]\<rparr>"
  have h: "(let r = bind_interfaces (length ?p) (rp_if_masks props) (r\<lparr>res_pool := ?p @ [?x]\<rparr>);
        r = (if rp_get_handler props \<noteq> None then oc_resource_set_request_handler (length ?p) OC_GET (rp_get_handler props) r else r)
      in if rp_post_handler props \<noteq> None then oc_resource_set_request_handler (length ?p) OC_POST (rp_post_handler props) r else r) = r2"
    unfolding bind_interfaces_last by (auto simp: r2_def props_resource_def oc_resource_set_request_handler_def Let_def split: list.splits)
  obtain ok r3 where a: "nexus_add_resource (length ?p) r2 = (ok, r3)" by fastforce
  define r4 where "r4 = (if rp_get_secured props then secure_method (length ?p) OC_GET (ok, r3) else (ok, r3))"
  have k: "ok \<and> (if rp_post_secured props then secure_method (length ?p) OC_POST r4 else r4) = (True, r')"
    using assms(1) n h a by (auto simp: nx_channel_register_resource_def r4_def Let_def split: if_splits prod.splits)
  have ok: "fst r4" using k by (auto simp: secure_method_def split: if_splits prod.splits bool.splits)
  have "res_pool (snd r4) = res_pool r3 \<and> app_resources (snd r4) = app_resources r3"
    using secure_method_ok [of "length ?p" OC_GET ok r3 "snd r4"] ok by (cases r4) (auto simp: r4_def split: if_splits)
  moreover have "res_pool r' = res_pool (snd r4) \<and> app_resources r' = app_resources (snd r4)"
    using secure_method_ok [of "length ?p" OC_POST "fst r4" "snd r4" r'] k by (cases r4) (auto split: if_splits)
  ultimately have e: "res_pool r' = res_pool r3" "app_resources r' = app_resources r3" by simp_all
  show "res_pool r' = ?p @ [props_resource props]" "app_resources r' = app_resources r @ [length ?p]"
    "find (\<lambda>i. uri_matches (rp_uri props) (res_uri (res_pool r' ! i))) (app_resources r) = None"
    using a k e by (auto simp: nexus_add_resource_def oc_ri_add_resource_def oc_ri_get_app_resource_by_uri_def r2_def Let_def props_resource_def split: if_splits)
qed

lemma uri_matches_slash:
  "take 1 u \<noteq> ''/'' \<Longrightarrow> take 1 res = ''/'' \<Longrightarrow> uri_matches u res = uri_matches (CHR ''/'' # u) res"
  by (cases res) (auto simp: uri_matches_def)

lemma registered_lookup:
  assumes "nx_channel_register_resource props r = (NX_CHANNEL_ERROR_NONE, r')" "rp_uri props = CHR ''/'' # u" "take 1 u \<noteq> ''/''" "registry_wf r"
  shows "registry_wf r'" "oc_ri_get_app_resource_by_uri u r' = Some (length (res_pool r))" "res_pool r' ! length (res_pool r) = props_resource props"
proof -
  note r = register_resource [OF assms(1,2)]
  show w: "registry_wf r'" using assms(2,4) by (auto simp: registry_wf_def r(1,2) list_all_iff props_resource_def)
  show last: "res_pool r' ! length (res_pool r) = props_resource props" by (simp add: r(1))
  have "uri_matches u (res_uri (res_pool r' ! i)) = uri_matches (rp_uri props) (res_uri (res_pool r' ! i))" if "i \<in> set (app_resources r')" for i
    using that w assms(2,3) by (auto simp: registry_wf_def list_all_iff intro!: uri_matches_slash)
  then have "\<not> uri_matches u (res_uri (res_pool r' ! i))" if "i \<in> set (app_resources r)" for i
    using that r(3) by (auto simp: r(2) find_None_iff)
  then have "filter (\<lambda>i. uri_matches u (res_uri (res_pool r' ! i))) (app_resources r) = []" by (auto simp: filter_empty_conv)
  moreover have "uri_matches u (res_uri (props_resource props))" using assms(2,3) by (simp add: props_resource_def uri_matches_def)
  ultimately show "oc_ri_get_app_resource_by_uri u r' = Some (length (res_pool r))"
    using last by (simp add: oc_ri_get_app_resource_by_uri_def find_filter r(2))
qed

definition registered :: "nx_channel_resource_props \<Rightarrow> registry \<Rightarrow> bool" where
  "registered props r \<longleftrightarrow> (case oc_ri_get_app_resource_by_uri (drop 1 (rp_uri props)) r of None \<Rightarrow> False
     | Some i \<Rightarrow> res_pool r ! i = props_resource props)"

lemma registers: 
  assumes "nx_channel_register_resource props r = (NX_CHANNEL_ERROR_NONE, r')" "rp_uri props = CHR ''/'' # u" "take 1 u \<noteq> ''/''" "registry_wf r"
  shows "registered props r'"
  using registered_lookup [OF assms] assms(2) by (simp add: registered_def)

lemma path_string_name: "path_string (name_bytes u) = u"
  by (induction u) (simp_all add: path_string_def name_bytes_def unat_of_char)

lemma registered_request:
  assumes "registered props r" "rp_uri props = CHR ''/'' # u" "coap_get_header_uri_path pkt = name_bytes u" "u \<notin> {[], ''oic/p'', ''oic/d/''}"
  shows "request_resource pkt r = Some (Some (props_resource props))"
proof -
  have "IS_OPTION pkt COAP_OPTION_URI_PATH" using assms(3,4) by (auto simp: coap_get_header_uri_path_def name_bytes_def split: if_splits)
  moreover have "find (\<lambda>res. length (res_uri res) = length u + 1 \<and> drop 1 (res_uri res) = u) core_resources = None"
    using assms(4) by (auto simp: core_resources_def find_None_iff oc_store_uri_def)
  ultimately show ?thesis
    using assms(1-3) by (auto simp: request_resource_def registered_def path_string_name Let_def split: option.splits)
qed

abbreviation credit_update :: "u32 \<Rightarrow> oc_rep" where "credit_update v \<equiv> [(''re'', OC_REP_INT (uint v))]"

lemma credit_update_flat: "flat_rep (credit_update v)" "rep_memory (credit_update v) = 3"
  using uint_bounded [of v] by (simp_all add: flat_rep_def rep_memory_def uint_ge_0)

lemma credit_update_extracted: "nexus_channel_payg_credit_evaluate_payload_extract_credit (credit_update v) = (False, v)"
proof -
  have "\<not> uint v > uint UINT32_MAX" using uint_bounded [of v] by simp
  then show ?thesis by (simp add: nexus_channel_payg_credit_evaluate_payload_extract_credit_def)
qed

lemma credit_update_remaining:
  "remaining (credit (nexus_channel_payg_credit_update_from_post_or_get e v s)) = v"
  by (simp add: nexus_channel_payg_credit_update_from_post_or_get_def on_credit_def on_plat_def Let_def)

lemma credit_post_served:
  assumes "registered pc_props (reg s)" "coap_get_header_uri_path pkt = name_bytes ''nx/pc''" "coap_get_header_uri_query pkt = []"
    "pkt_code pkt = 2" "payload_bytes pkt = object_bytes (credit_update v)" "1 \<le> free_reps (rep_pools e)" "3 \<le> avail_bytes (rep_pools e)"
  shows "\<exists>p. oc_ri_invoke_coap_entity_handler e pkt endpoint s =
    Some (ENTITY_RESPONSE 68 p, (nexus_channel_payg_credit_update_from_post_or_get (cenv e) v (s\<lparr>answer := None\<rparr>))\<lparr>answer := None\<rparr>)"
proof -
  have parse: "oc_parse_rep (rep_pools e) (object_bytes (credit_update v)) = Inr (0, credit_update v)"
    using parse_object_bytes [OF credit_update_flat(1)] credit_update_flat(2) assms(6,7) by simp
  have ne: "object_bytes (credit_update v) \<noteq> []" by (simp add: object_bytes_def)
  have res: "request_resource pkt (reg s) = Some (Some (props_resource pc_props))"
    using registered_request [OF assms(1) _ assms(2)] by (simp add: pc_props_def)
  have m: "oc_method_of_code 2 = Some OC_POST" by (simp add: oc_method_of_code_def)
  have i: "request_interface pkt = 0" using assms(3) by (simp add: request_interface_def)
  show ?thesis
    using parse ne assms(4,5) res m i credit_update_extracted
    by (simp add: oc_ri_invoke_coap_entity_handler_def serve_resource_def props_resource_def pc_props_def resource_handler_def does_interface_support_method_def
        call_request_handler_def nexus_channel_res_payg_credit_post_handler_def oc_send_response_def handler_answer_def oc_status_code_def Let_def)
qed

end
