(* ===== verification/Channel_Engine.thy ===== *)
theory Channel_Engine
  imports Channel_Transactions Channel_Dispatch
begin

text \<open>
  The CoAP engine (\<^verbatim>\<open>oc/messaging/coap/engine.c\<close>), the client interface (\<^verbatim>\<open>oc/api/oc_client_api.c\<close>) and the handling of responses
  (\<^verbatim>\<open>oc/api/oc_ri.c\<close>, \<^verbatim>\<open>src/nexus_oc_wrapper.c\<close>). A result \<open>None\<close> is an access outside an array or through a null pointer.
\<close>

section \<open>Responses to client requests\<close>

definition oc_coap_status_codes :: "u8 list" where
  "oc_coap_status_codes = [69, 65, 68, 66, 67, 128, 129, 130, 131, 132, 133, 134, 141, 143, 160, 161, 162, 163, 164, 165]"

text \<open>A code that is not in the table leaves the status 0, \<^verbatim>\<open>OC_STATUS_OK\<close>.\<close>

definition status_of_code :: "u8 \<Rightarrow> nat" where
  "status_of_code code =
     (case find (\<lambda>i. oc_coap_status_codes ! i = code) [0..<length oc_coap_status_codes] of None \<Rightarrow> 0 | Some i \<Rightarrow> i)"

abbreviation (input) SERVICE_UNAVAILABLE_INDEX :: nat where "SERVICE_UNAVAILABLE_INDEX \<equiv> 17"

definition call_response_handler :: "'p stack_env \<Rightarrow> nx_channel_response_handler \<Rightarrow> nx_id \<Rightarrow> oc_rep \<Rightarrow> nat \<Rightarrow> 'p channel \<Rightarrow> 'p channel" where
  "call_response_handler e h source rep status s =
     (case h of
        PAYG_CREDIT_GET_RESPONSE \<Rightarrow> nexus_channel_res_payg_credit_get_response_handler (cenv e) rep s
      | PAYG_CREDIT_POST_RESPONSE \<Rightarrow> nexus_channel_res_payg_credit_post_response_handler source s
      | PRODUCT_RESPONSE n \<Rightarrow> product_response e n source rep status s)"

definition nx_channel_get_response_handler_wrapper :: "'p stack_env \<Rightarrow> oc_endpoint \<Rightarrow> oc_rep \<Rightarrow> nat \<Rightarrow> 'p channel \<Rightarrow> 'p channel" where
  "nx_channel_get_response_handler_wrapper e endpoint rep status s =
     (let server_nx_id = nexus_oc_wrapper_oc_endpoint_to_nx_id endpoint;
          s = (case active_client_get_handler (wrapper s) of None \<Rightarrow> s
               | Some h \<Rightarrow> call_response_handler e h server_nx_id rep status s)
      in on_wrapper (\<lambda>w. w\<lparr>active_client_get_handler := None\<rparr>) s)"

definition nx_channel_post_response_handler_wrapper :: "'p stack_env \<Rightarrow> oc_endpoint \<Rightarrow> oc_rep \<Rightarrow> nat \<Rightarrow> 'p channel \<Rightarrow> 'p channel" where
  "nx_channel_post_response_handler_wrapper e endpoint rep status s =
     (let server_nx_id = nexus_oc_wrapper_oc_endpoint_to_nx_id endpoint;
          s = (case active_client_post_handler (wrapper s) of None \<Rightarrow> s
               | Some h \<Rightarrow> call_response_handler e h server_nx_id rep status s)
      in on_wrapper (\<lambda>w. w\<lparr>active_client_post_handler := None\<rparr>) s)"

definition invoke_response_handler :: "'p stack_env \<Rightarrow> oc_response_handler \<Rightarrow> oc_endpoint \<Rightarrow> oc_rep \<Rightarrow> nat \<Rightarrow> 'p oc_stack \<Rightarrow> 'p oc_stack" where
  "invoke_response_handler e h endpoint rep status =
     on_chan (case h of
        NX_CHANNEL_GET_RESPONSE_HANDLER_WRAPPER \<Rightarrow> nx_channel_get_response_handler_wrapper e endpoint rep status
      | NX_CHANNEL_POST_RESPONSE_HANDLER_WRAPPER \<Rightarrow> nx_channel_post_response_handler_wrapper e endpoint rep status)"

definition notify_client_cb_503 :: "'p stack_env \<Rightarrow> nat \<Rightarrow> 'p oc_stack \<Rightarrow> 'p oc_stack" where
  "notify_client_cb_503 e c s =
     (let s = oc_ri_remove_timed_event_callback c s;
          s = invoke_response_handler e (cb_handler (cb_at s c)) (cb_endpoint (cb_at s c)) [] SERVICE_UNAVAILABLE_INDEX s
      in free_client_cb c s)"

lemma stack_lists_simps [simp]:
  "client_cbs (on_rt f s) = client_cbs s" "client_cbs (on_chan g s) = client_cbs s" "client_cbs (on_cb c h s) = client_cbs s"
  "client_cbs (oc_ri_remove_timed_event_callback c s) = client_cbs s" "client_cbs (invoke_response_handler e w ep rep st s) = client_cbs s"
  by (simp_all add: on_rt_def on_chan_def on_cb_def oc_ri_remove_timed_event_callback_def invoke_response_handler_def split: option.splits)

definition cb_waits :: "u16 \<Rightarrow> 'p oc_stack \<Rightarrow> nat \<Rightarrow> bool" where
  "cb_waits m s c \<longleftrightarrow> \<not> cb_multicast (cb_at s c) \<and> \<not> cb_discovery (cb_at s c) \<and> cb_ref_count (cb_at s c) = 0 \<and> cb_mid (cb_at s c) = m"

text \<open>After each callback the walk starts over.\<close>

function oc_ri_free_client_cbs_by_mid :: "'p stack_env \<Rightarrow> u16 \<Rightarrow> 'p oc_stack \<Rightarrow> 'p oc_stack" where
  "oc_ri_free_client_cbs_by_mid e m s =
     (case find (cb_waits m s) (client_cbs s) of
        None \<Rightarrow> s
      | Some c \<Rightarrow> oc_ri_free_client_cbs_by_mid e m (notify_client_cb_503 e c (on_cb c (\<lambda>cb. cb\<lparr>cb_ref_count := 1\<rparr>) s)))"
  by pat_completeness auto
termination
proof (relation "measure (\<lambda>(e, m, s). length (client_cbs s))", goal_cases)
  case (2 e m s c)
  then have "c \<in> set (client_cbs s)" by (auto simp: find_Some_iff in_set_conv_nth)
  then show ?case by (auto simp: notify_client_cb_503_def free_client_cb_def Let_def length_remove1 dest: length_pos_if_in_set)
qed simp

declare oc_ri_free_client_cbs_by_mid.simps [simp del]

text \<open>
  The response to a request is passed to the handler of its callback, which is then released; a payload that cannot be
  decoded is not passed on.
\<close>

definition pass_response :: "'p stack_env \<Rightarrow> nat \<Rightarrow> bytes \<Rightarrow> bool \<Rightarrow> oc_endpoint \<Rightarrow> nat \<Rightarrow> 'p oc_stack \<Rightarrow> 'p oc_stack option" where
  "pass_response e c payload separate endpoint status s =
     (let h = cb_handler (cb_at s c)
      in if payload \<noteq> [] then
           (case oc_parse_rep (rep_pools e) payload of
              Inl _ \<Rightarrow> None
            | Inr (err, rep) \<Rightarrow> Some (if err = 0 then invoke_response_handler e h endpoint rep status s else s))
         else if separate then Some (on_cb c (\<lambda>cb. cb\<lparr>cb_separate := 1\<rparr>) s)
         else Some (if \<not> cb_discovery (cb_at s c) then invoke_response_handler e h endpoint [] status s else s))"

definition release_client_cb :: "'p stack_env \<Rightarrow> nat \<Rightarrow> bool \<Rightarrow> 'p oc_stack \<Rightarrow> 'p oc_stack" where
  "release_client_cb e c separate s =
     (if \<not> oc_ri_is_client_cb_valid c s then s
      else
        let s = on_cb c (\<lambda>cb. cb\<lparr>cb_ref_count := 0\<rparr>) s
        in if \<not> separate \<and> \<not> cb_discovery (cb_at s c) then
             (if cb_multicast (cb_at s c) then
                (if cb_stop_multicast_receive (cb_at s c) then oc_ri_free_client_cbs_by_mid e (cb_mid (cb_at s c)) s else s)
              else free_client_cb c (oc_ri_remove_timed_event_callback c s))
           else on_cb c (\<lambda>cb. cb\<lparr>cb_observe_seq := -1\<rparr>) s)"

definition oc_ri_invoke_client_cb :: "'p stack_env \<Rightarrow> coap_packet \<Rightarrow> nat \<Rightarrow> oc_endpoint \<Rightarrow> 'p oc_stack \<Rightarrow> 'p oc_stack option" where
  "oc_ri_invoke_client_cb e pkt c endpoint s =
     (let s = on_cb c (\<lambda>cb. cb\<lparr>cb_ref_count := 1\<rparr>) s;
          payload = payload_bytes pkt;
          separate = (payload = [] \<and> pkt_type pkt = COAP_TYPE_ACK \<and> pkt_code pkt = 0)
      in if payload \<noteq> [] \<and> cb_discovery (cb_at s c)
         then Some (oc_ri_free_client_cbs_by_mid e (cb_mid (cb_at s c)) (on_cb c (\<lambda>cb. cb\<lparr>cb_ref_count := 0\<rparr>) s))
         else map_option (release_client_cb e c separate)
                (pass_response e c payload separate endpoint (status_of_code (pkt_code pkt)) s))"

section \<open>The client interface\<close>

text \<open>
  \<open>encoded_size\<close> is the size of the payload that the application has encoded, \<open>-1\<close> after an encoding error, and \<open>area\<close> the 98 bytes it was encoded
  to. Sizes are kept in one byte.
\<close>

definition prepare_secured_coap_request :: "'p channel_env \<Rightarrow> bytes \<Rightarrow> u8 \<Rightarrow> 'p oc_stack \<Rightarrow> bool \<times> bytes \<times> u8 \<times> 'p oc_stack" where
  "prepare_secured_coap_request e area payload_size s =
     (let cb = cb_at s (the (api_client_cb s));
          nexus_id = nexus_oc_wrapper_oc_endpoint_to_nx_id (cb_endpoint cb)
      in case nexus_channel_link_manager_security_data_from_nxid e nexus_id (lm (chan s)) of
           None \<Rightarrow> (False, area, payload_size, s)
         | Some sec_data \<Rightarrow>
             let uri_size = word_of_nat (length (cb_uri cb)) :: u8;
                 secured = nexus_oc_wrapper_repack_buffer_secured NEXUS_CHANNEL_MAX_CBOR_PAYLOAD_SIZE
                   \<lparr>mp_key = sym_key sec_data, nonce_to_protect = nonce sec_data + 1,
                    mp_aad = \<lparr>coap_method = cb_method cb, coap_uri = take (unat uri_size) (cb_uri cb)\<rparr>,
                    mp_payload = take (unat payload_size) area\<rparr>;
                 payload_size = word_of_nat (length secured)
             in if payload_size = 0 then (False, area, payload_size, s)
                else (True, memcpy_at 0 secured area, payload_size,
                      s\<lparr>api_request := coap_set_header_content_format APPLICATION_COSE_MAC0 (api_request s)\<rparr>))"

definition dispatch_coap_request :: "'p channel_env \<Rightarrow> bool \<Rightarrow> int \<Rightarrow> bytes \<Rightarrow> 'p oc_stack \<Rightarrow> (bool \<times> 'p oc_stack) option" where
  "dispatch_coap_request e nx_secure_request encoded_size area s =
     (let t = the (api_transaction s);
          c = the (api_client_cb s);
          (security_ok, area, payload_size, s) =
            (if nx_secure_request then prepare_secured_coap_request e area (word_of_int encoded_size) (on_cb c (\<lambda>cb. cb\<lparr>nx_request_secured := True\<rparr>) s)
             else (True, area, word_of_int encoded_size, s));
          s = (if payload_size > 0 then
                 let request = coap_set_payload (Some (take (unat payload_size) area)) (api_request s)
                 in s\<lparr>api_request := (if content_format request \<noteq> APPLICATION_COSE_MAC0
                        then coap_set_header_content_format APPLICATION_VND_OCF_CBOR request else request)\<rparr>
               else s)
      in case coap_serialize_message (api_request s) of
           None \<Rightarrow> None
         | Some bs \<Rightarrow>
             let s = store_message (t_message (memb_at (transactions_memb s) t)) bs s;
                 success = (bs \<noteq> [] \<and> security_ok);
                 s = (if success then oc_ri_add_timed_event_callback c OC_NON_LIFETIME (coap_send_transaction t nx_secure_request s)
                      else oc_ri_remove_client_cb c (coap_clear_transaction t s))
             in Some (success, s\<lparr>api_transaction := None, api_client_cb := None\<rparr>))"

definition prepare_coap_request :: "nat \<Rightarrow> 'p oc_stack \<Rightarrow> bool \<times> 'p oc_stack" where
  "prepare_coap_request c s =
     (let cb = cb_at s c;
          type = (if cb_qos cb = HIGH_QOS then COAP_TYPE_CON else COAP_TYPE_NON);
          (t, s) = coap_new_transaction (cb_mid cb) (cb_endpoint cb) s;
          s = s\<lparr>api_transaction := t\<rparr>
      in if t = None then (False, oc_ri_remove_client_cb c s)
         else
           let request = coap_udp_init_message type (cb_method cb) (cb_mid cb);
               request = coap_set_token [cb_token cb] request;
               request = coap_set_header_uri_path (cb_uri cb) request;
               request = (if cb_query cb \<noteq> [] then coap_set_header_uri_query (cb_query cb) request else request)
           in (True, s\<lparr>api_request := request, api_client_cb := Some c\<rparr>))"

abbreviation (input) COAP_GET :: u8 where "COAP_GET \<equiv> 1"
abbreviation (input) COAP_POST :: u8 where "COAP_POST \<equiv> 2"
abbreviation (input) COAP_DELETE :: u8 where "COAP_DELETE \<equiv> 4"

text \<open>Nothing has been encoded for a GET request.\<close>

definition stack_do_get :: "'p channel_env \<Rightarrow> bytes \<Rightarrow> bool \<Rightarrow> oc_endpoint \<Rightarrow> bytes \<Rightarrow> oc_response_handler \<Rightarrow> oc_qos \<Rightarrow> bytes \<Rightarrow>
    'p oc_stack \<Rightarrow> (bool \<times> 'p oc_stack) option" where
  "stack_do_get e uri nx_secure_request endpoint query h q area s =
     (case oc_ri_alloc_client_cb e uri endpoint COAP_GET query h q s of
        (None, s) \<Rightarrow> Some (False, s)
      | (Some c, s) \<Rightarrow>
          (case prepare_coap_request c s of
             (False, s) \<Rightarrow> Some (False, s)
           | (True, s) \<Rightarrow> dispatch_coap_request e nx_secure_request 0 area s))"

definition stack_init_post :: "'p channel_env \<Rightarrow> bytes \<Rightarrow> oc_endpoint \<Rightarrow> bytes \<Rightarrow> oc_response_handler \<Rightarrow> oc_qos \<Rightarrow> 'p oc_stack \<Rightarrow> bool \<times> 'p oc_stack" where
  "stack_init_post e uri endpoint query h q s =
     (case oc_ri_alloc_client_cb e uri endpoint COAP_POST query h q s of
        (None, s) \<Rightarrow> (False, s)
      | (Some c, s) \<Rightarrow> prepare_coap_request c s)"

definition stack_do_post :: "'p channel_env \<Rightarrow> bool \<Rightarrow> int \<Rightarrow> bytes \<Rightarrow> 'p oc_stack \<Rightarrow> (bool \<times> 'p oc_stack) option" where
  "stack_do_post e nx_secure_request encoded_size area s = dispatch_coap_request e nx_secure_request encoded_size area s"

section \<open>Messages the engine sends\<close>

text \<open>
  A packet is serialised to a fresh outgoing buffer and sent. A buffer that is not sent, because nothing was written or because the
  queue is full, is released only if its count is 0.
\<close>

definition send_packet :: "nat \<Rightarrow> coap_packet \<Rightarrow> 'p oc_stack \<Rightarrow> 'p oc_stack option" where
  "send_packet i pkt s =
     (case coap_serialize_message pkt of
        None \<Rightarrow> None
      | Some bs \<Rightarrow>
          let s = (if bs \<noteq> [] then oc_send_message i (store_message i bs s) else s)
          in Some (if msg_ref_count (memb_at (outgoing_buffers s) i) = 0 then on_outgoing (oc_message_unref i) s else s))"

definition packet_token :: "coap_packet \<Rightarrow> bytes" where
  "packet_token pkt = (if pkt_token_len pkt = 0 then [] else [pkt_token pkt])"

definition coap_send_empty_response :: "coap_message_type \<Rightarrow> u16 \<Rightarrow> bytes \<Rightarrow> u8 \<Rightarrow> oc_endpoint \<Rightarrow> 'p oc_stack \<Rightarrow> 'p oc_stack option" where
  "coap_send_empty_response type m token code endpoint s =
     (let msg = coap_udp_init_message type code m
      in case oc_internal_allocate_outgoing_message s of
           (None, s) \<Rightarrow> Some s
         | (Some i, s) \<Rightarrow>
             let s = on_outgoing (memb_update i (\<lambda>g. g\<lparr>msg_endpoint := endpoint\<rparr>)) s;
                 msg = (if token \<noteq> [] then coap_set_token token msg else msg)
             in send_packet i msg s)"

text \<open>The assertion that the link exists is not compiled into a release build; the key is all zero then.\<close>

definition coap_send_nonce_sync_response :: "'p channel_env \<Rightarrow> u16 \<Rightarrow> bytes \<Rightarrow> oc_endpoint \<Rightarrow> bool \<Rightarrow> 'p oc_stack \<Rightarrow> 'p oc_stack option" where
  "coap_send_nonce_sync_response e m token endpoint is_nonce_reset s =
     (let pkt = coap_udp_init_message COAP_TYPE_NON NOT_ACCEPTABLE_4_06 m
      in case oc_internal_allocate_outgoing_message s of
           (None, s) \<Rightarrow> Some s
         | (Some i, s) \<Rightarrow>
             let s = on_outgoing (memb_update i (\<lambda>g. g\<lparr>msg_endpoint := endpoint\<rparr>)) s;
                 pkt = (if token \<noteq> [] then coap_set_token token pkt else pkt);
                 sec_data = (case nexus_channel_link_manager_security_data_from_nxid e
                     (nexus_oc_wrapper_oc_endpoint_to_nx_id endpoint) (lm (chan s)) of
                     None \<Rightarrow> \<lparr>sym_key = replicate 16 0, nonce = 0\<rparr> | Some sd \<Rightarrow> sd);
                 sync_nonce = (if is_nonce_reset then RESET_NONCE_SIGNAL_VALUE else nonce sec_data);
                 payload = nexus_oc_wrapper_repack_buffer_secured NEXUS_CHANNEL_MAX_CBOR_PAYLOAD_SIZE
                   \<lparr>mp_key = sym_key sec_data, nonce_to_protect = sync_nonce,
                    mp_aad = \<lparr>coap_method = NOT_ACCEPTABLE_4_06, coap_uri = []\<rparr>, mp_payload = []\<rparr>;
                 pkt = coap_set_header_content_format APPLICATION_COSE_MAC0 (pkt\<lparr>pkt_payload := Some payload\<rparr>)
             in send_packet i pkt s)"

definition oc_endpoint_compare :: "oc_endpoint \<Rightarrow> oc_endpoint \<Rightarrow> bool" where
  "oc_endpoint_compare ep1 ep2 \<longleftrightarrow>
     ep_flags ep1 AND NOT MULTICAST = ep_flags ep2 AND NOT MULTICAST \<and> ep_flags ep1 AND IPV6 \<noteq> 0 \<and>
     ep_address ep1 = ep_address ep2 \<and> ep_port ep1 = ep_port ep2"

text \<open>
  After a nonce sync the request kept in the transaction is signed again, with a nonce above the one just received, and sent
  again from the same buffer.
\<close>

definition coap_send_previous_request_with_repacked_security ::
    "'p stack_env \<Rightarrow> u16 \<Rightarrow> oc_endpoint \<Rightarrow> 'p oc_stack \<Rightarrow> 'p oc_stack option" where
  "coap_send_previous_request_with_repacked_security e m endpoint s =
     (case coap_get_transaction_by_mid m s of
        None \<Rightarrow> Some s
      | Some t \<Rightarrow>
          let i = t_message (memb_at (transactions_memb s) t);
              request_message = memb_at (outgoing_buffers s) i
          in if \<not> oc_endpoint_compare (msg_endpoint request_message) endpoint then Some s
             else (case coap_udp_parse_message (msg_data request_message) (msg_length request_message) of
                 None \<Rightarrow> None
               | Some (parse_result, pkt) \<Rightarrow>
                   if parse_result \<noteq> COAP_NO_ERROR then Some (coap_clear_transaction t s)
                   else (case verify_deserialize_protected_message (tag_memory e) (payload_bytes pkt) of
                       Inl _ \<Rightarrow> Some (coap_clear_transaction t s)
                     | Inr extracted_params \<Rightarrow>
                         (case nexus_channel_link_manager_security_data_from_nxid (cenv e)
                             (nexus_oc_wrapper_oc_endpoint_to_nx_id (msg_endpoint request_message)) (lm (chan s)) of
                            None \<Rightarrow> Some (coap_clear_transaction t s)
                          | Some sec_data \<Rightarrow>
                              let payload = nexus_oc_wrapper_repack_buffer_secured NEXUS_CHANNEL_MAX_CBOR_PAYLOAD_SIZE
                                    \<lparr>mp_key = sym_key sec_data, nonce_to_protect = nonce sec_data + 1,
                                     mp_aad = packet_aad pkt, mp_payload = ex_payload extracted_params\<rparr>;
                                  pkt = coap_set_header_content_format APPLICATION_COSE_MAC0 (pkt\<lparr>pkt_payload := Some payload\<rparr>)
                              in send_packet i pkt s))))"

section \<open>Received messages\<close>

text \<open>The response to a request is serialised to the buffer of its transaction; it is secured if the request or the method is.\<close>

definition secure_response :: "'p channel_env \<Rightarrow> coap_packet \<Rightarrow> bool \<Rightarrow> nat \<Rightarrow> coap_packet \<Rightarrow> 'p oc_stack \<Rightarrow> (coap_packet \<times> 'p oc_stack) option" where
  "secure_response e pkt rcvd_pkt_secured t response s =
     (let resource_secured = (case oc_method_of_code (pkt_code pkt) of None \<Rightarrow> False
            | Some m \<Rightarrow> nexus_channel_sm_resource_method_is_secured
                (oc_ri_get_app_resource_by_uri (path_string (coap_get_header_uri_path pkt)) (reg (chan s))) m (reg (chan s)));
          nexus_id = nexus_oc_wrapper_oc_endpoint_to_nx_id (msg_endpoint (memb_at (outgoing_buffers s) (t_message (memb_at (transactions_memb s) t))))
      in case nexus_channel_link_manager_security_data_from_nxid e nexus_id (lm (chan s)) of
           None \<Rightarrow> Some (response, s)
         | Some sec_data \<Rightarrow>
             if resource_secured \<or> rcvd_pkt_secured then
               let output = nexus_oc_wrapper_repack_buffer_secured NEXUS_CHANNEL_MAX_CBOR_PAYLOAD_SIZE
                     \<lparr>mp_key = sym_key sec_data, nonce_to_protect = nonce sec_data,
                      mp_aad = \<lparr>coap_method = pkt_code response, coap_uri = []\<rparr>, mp_payload = payload_bytes response\<rparr>
               in if output = [] then Some (response\<lparr>pkt_payload := map_option (\<lambda>_. []) (pkt_payload response)\<rparr>, coap_clear_transaction t s)
                  else if pkt_payload response = None then None
                  else Some (coap_set_header_content_format APPLICATION_COSE_MAC0 (response\<lparr>pkt_payload := Some output\<rparr>), s)
             else Some (response, s))"

definition send_response :: "'p channel_env \<Rightarrow> coap_packet \<Rightarrow> bool \<Rightarrow> nat \<Rightarrow> coap_packet \<Rightarrow> 'p oc_stack \<Rightarrow> 'p oc_stack option" where
  "send_response e pkt rcvd_pkt_secured t response s =
     (if coap_status_code s = CLEAR_TRANSACTION then Some (coap_clear_transaction t s)
      else if pkt_type response \<noteq> COAP_TYPE_RST \<and> pkt_token_len pkt \<noteq> 0 then
        (case secure_response e pkt rcvd_pkt_secured t (coap_set_token (packet_token pkt) response) s of
           None \<Rightarrow> None
         | Some (response, s) \<Rightarrow>
             (case coap_serialize_message response of
                None \<Rightarrow> None
              | Some bs \<Rightarrow>
                  let s = store_message (t_message (memb_at (transactions_memb s) t)) bs s
                  in Some (if bs = [] then coap_clear_transaction t s else coap_send_transaction t False s)))
      else Some s)"

definition oic_res :: bytes where "oic_res = [0x6F, 0x69, 0x63, 0x2F, 0x72, 0x65, 0x73]"

definition handle_request :: "'p stack_env \<Rightarrow> coap_packet \<Rightarrow> bool \<Rightarrow> oc_endpoint \<Rightarrow> 'p oc_stack \<Rightarrow> 'p oc_stack option" where
  "handle_request e pkt rcvd_pkt_secured endpoint s =
     (let (response, s) =
            (if pkt_type pkt = COAP_TYPE_CON then (coap_udp_init_message COAP_TYPE_ACK CONTENT_2_05 (pkt_mid pkt), s)
             else let (m, s) = coap_get_mid s
                  in (coap_udp_init_message (if coap_get_header_uri_path pkt = oic_res then COAP_TYPE_CON else COAP_TYPE_NON) CONTENT_2_05 m, s))
      in case coap_new_transaction (pkt_mid response) endpoint s of
           (None, s) \<Rightarrow> Some s
         | (Some t, s) \<Rightarrow>
             (case oc_ri_invoke_coap_entity_handler e pkt endpoint (chan s) of
                None \<Rightarrow> None
              | Some (ENTITY_IGNORE, ch) \<Rightarrow>
                  send_response (cenv e) pkt rcvd_pkt_secured t response (s\<lparr>chan := ch, coap_status_code := CLEAR_TRANSACTION\<rparr>)
              | Some (ENTITY_RESPONSE code payload, ch) \<Rightarrow>
                  let response = (if payload \<noteq> []
                        then coap_set_header_content_format APPLICATION_VND_OCF_CBOR (coap_set_payload (Some payload) response) else response)
                  in send_response (cenv e) pkt rcvd_pkt_secured t (response\<lparr>pkt_code := code\<rparr>) (s\<lparr>chan := ch\<rparr>)))"

text \<open>A reply that is not secured is dropped if the request was.\<close>

definition handle_response :: "'p stack_env \<Rightarrow> coap_packet \<Rightarrow> bool \<Rightarrow> oc_endpoint \<Rightarrow> 'p oc_stack \<Rightarrow> (u8 \<times> 'p oc_stack) option" where
  "handle_response e pkt rcvd_pkt_secured endpoint s =
     (case (if pkt_type pkt \<noteq> COAP_TYPE_RST then oc_ri_find_client_cb_by_token (pkt_token pkt) (pkt_token_len pkt) s else None) of
        None \<Rightarrow> Some (coap_status_code s, s)
      | Some c \<Rightarrow>
          if nx_request_secured (cb_at s c) \<and> \<not> rcvd_pkt_secured then Some (UNAUTHORIZED_4_01, s)
          else map_option (Pair (coap_status_code s)) (oc_ri_invoke_client_cb e pkt c endpoint s))"

definition stack_request_processing :: "'p channel_env \<Rightarrow> 'p oc_stack \<Rightarrow> 'p oc_stack" where
  "stack_request_processing e = on_chan (request_processing e)"

definition coap_receive :: "'p stack_env \<Rightarrow> oc_message \<Rightarrow> 'p oc_stack \<Rightarrow> (u8 \<times> 'p oc_stack) option" where
  "coap_receive e msg s =
     (case coap_udp_parse_message (msg_data msg) (msg_length msg) of
        None \<Rightarrow> None
      | Some (status, pkt) \<Rightarrow>
          let endpoint = msg_endpoint msg;
              (status, pkt, rcvd_pkt_secured, ch) =
                (if status = COAP_NO_ERROR then coap_unpack_possibly_secured_payload (cenv e) (tag_memory e) pkt endpoint (chan s)
                 else (status, pkt, False, chan s));
              s = s\<lparr>chan := ch, coap_status_code := status\<rparr>;
              finish = map_option (\<lambda>s. (status, stack_request_processing (cenv e) s))
          in if status = COAP_NO_ERROR then
               let s = (case coap_get_transaction_by_mid (pkt_mid pkt) s of None \<Rightarrow> s | Some t \<Rightarrow> coap_clear_transaction t s)
               in if COAP_GET \<le> pkt_code pkt \<and> pkt_code pkt \<le> COAP_DELETE
                  then map_option (\<lambda>s. (coap_status_code s, s)) (handle_request e pkt rcvd_pkt_secured endpoint s)
                  else (handle_response e pkt rcvd_pkt_secured endpoint s)
             else if status = NOT_ACCEPTABLE_4_06 then
               finish (coap_send_nonce_sync_response (cenv e) (pkt_mid pkt) (packet_token pkt) endpoint False s)
             else if status = RESEND_PREVIOUS_REQUEST then
               finish (coap_send_previous_request_with_repacked_security e (pkt_mid pkt) endpoint s)
             else if status = REQUIRE_NONCE_SYNC_RESET then
               finish (coap_send_nonce_sync_response (cenv e) (pkt_mid pkt) (packet_token pkt) endpoint True s)
             else
               finish (coap_send_empty_response (if pkt_type pkt = COAP_TYPE_CON then COAP_TYPE_ACK else COAP_TYPE_NON)
                 (pkt_mid pkt) (packet_token pkt) status endpoint s))"

section \<open>The engine process\<close>

text \<open>
  A transaction whose idle timer has run out is dropped and its client told; one whose retransmission timer is not running is sent
  again. The next item is read before the current one is cleared, and handlers of the product do not start requests.
\<close>

definition check_transaction :: "'p stack_env \<Rightarrow> nat \<Rightarrow> 'p oc_stack \<Rightarrow> 'p oc_stack" where
  "check_transaction e t s =
     (if oc_etimer_expired (IDLE_TIMEOUT_TIMER t) (rt s)
      then coap_clear_transaction t (oc_ri_free_client_cbs_by_mid e (t_mid (memb_at (transactions_memb s) t)) s)
      else if oc_etimer_expired (RETRANS_TIMER t) (rt s)
      then coap_send_transaction t False
        (s\<lparr>transactions_memb := memb_update t (\<lambda>x. x\<lparr>retrans_counter := retrans_counter x + 1\<rparr>) (transactions_memb s)\<rparr>)
      else s)"

definition coap_check_transactions :: "'p stack_env \<Rightarrow> 'p oc_stack \<Rightarrow> 'p oc_stack" where
  "coap_check_transactions e s = fold (check_transaction e) (transactions_list s) s"

definition coap_engine_thread :: "'p stack_env \<Rightarrow> oc_event \<Rightarrow> 'p oc_stack \<Rightarrow> 'p oc_stack option" where
  "coap_engine_thread e ev s =
     (case ev of
        OC_PROCESS_EVENT_INIT \<Rightarrow> Some (coap_init_connection (cenv e) s)
      | INBOUND_RI_EVENT i \<Rightarrow>
          map_option (\<lambda>(_, s). on_incoming (oc_message_unref i) s) (coap_receive e (memb_at (incoming_buffers s) i) s)
      | OC_PROCESS_EVENT_TIMER _ \<Rightarrow> Some (coap_check_transactions e s)
      | _ \<Rightarrow> Some s)"

end
