(* ===== verification/Channel_Exchange.thy ===== *)
theory Channel_Exchange
  imports Channel_Engine
begin

text \<open>
  Secured exchanges between two devices: what a device signs, serialises, queues and hands to the network is what its peer parses, verifies and
  passes on, how a client whose nonce is behind recovers, and where the engine fails.
\<close>

section \<open>Secured packets\<close>

text \<open>The secured packets of the stack: a request to the path with the segments \<open>segs\<close>, or a response if there are none.\<close>

definition secured_packet :: "bytes list \<Rightarrow> u8 \<Rightarrow> u16 \<Rightarrow> u8 \<Rightarrow> bytes \<Rightarrow> coap_packet" where
  "secured_packet segs code m token payload = zero_packet\<lparr>pkt_type := COAP_TYPE_NON, pkt_code := code, pkt_mid := m, pkt_token_len := 1,
     pkt_token := token, pkt_options := (replicate 10 0)[1 := (if segs \<noteq> [] then 8 else 0) OR 16], content_format := APPLICATION_COSE_MAC0,
     uri_path := join SLASH segs, pkt_payload := Some payload\<rparr>"

lemma secured_packet_wf:
  assumes "segs = [] \<or> segments_ok SLASH segs" "code \<noteq> 0" "payload \<noteq> []" "length payload \<le> 98"
  shows "coap_packet_wf (secured_packet segs code m token payload) segs []"
  using assms by (simp add: coap_packet_wf_def secured_packet_def zero_packet_def payload_bytes_def)

lemma secured_packet_serializes:
  assumes "segs = [] \<or> segments_ok SLASH segs" "code \<noteq> 0" "payload \<noteq> []" "length payload \<le> 98" "length (path_option segs) \<le> 13"
  shows "\<exists>b. coap_serialize_message (secured_packet segs code m token payload) = Some b \<and> b \<noteq> [] \<and> length b < 120"
proof -
  let ?pkt = "secured_packet segs code m token payload"
  have f: "length (format_option (after_path segs) 17) = 2"
    by (simp add: format_option_def coap_serialize_int_option_def coap_set_option_header_def option_extension_def int_option_bytes_def)
  have s: "coap_serialize_options (?pkt\<lparr>pkt_version := 1\<rparr>) = Some (path_option segs @ format_option (after_path segs) 17)"
    using serialize_options_wf [OF secured_packet_wf [OF assms(1-4)], of m token] by (simp add: secured_packet_def query_option_def)
  have p: "payload_bytes (?pkt\<lparr>pkt_version := 1\<rparr>) = payload" "unat (pkt_token_len (?pkt\<lparr>pkt_version := 1\<rparr>)) = 1" "pkt_code (?pkt\<lparr>pkt_version := 1\<rparr>) = code"
    by (simp_all add: secured_packet_def payload_bytes_def)
  show ?thesis using assms s f p by (simp add: coap_serialize_message_def Let_def coap_udp_set_header_fields_def)
qed

text \<open>A datagram as it is copied into a cleared buffer.\<close>

definition received :: "oc_endpoint \<Rightarrow> bytes \<Rightarrow> oc_message" where
  "received endpoint b = \<lparr>msg_endpoint = endpoint, msg_length = length b, msg_ref_count = 1, msg_data = b @ replicate (120 - length b) 0\<rparr>"

lemma parse_received:
  assumes "coap_packet_wf pkt psegs qsegs" "coap_serialize_message pkt = Some b" "b \<noteq> []" "length b < 120"
  shows "coap_udp_parse_message (msg_data (received endpoint b)) (msg_length (received endpoint b)) = Some (COAP_NO_ERROR, pkt\<lparr>pkt_version := 1\<rparr>)"
  using serialize_then_parse [OF assms(1-3), of "replicate (120 - length b) 0"] assms(4) by (simp add: received_def)

section \<open>Signing and authenticating\<close>

definition signed_payload :: "bytes \<Rightarrow> u32 \<Rightarrow> u8 \<Rightarrow> bytes \<Rightarrow> bytes \<Rightarrow> bytes" where
  "signed_payload k n code path payload = nexus_oc_wrapper_repack_buffer_secured NEXUS_CHANNEL_MAX_CBOR_PAYLOAD_SIZE
     \<lparr>mp_key = k, nonce_to_protect = n, mp_aad = \<lparr>coap_method = code, coap_uri = path\<rparr>, mp_payload = payload\<rparr>"

lemma signed_payload_facts:
  assumes "length path \<le> 11" "length payload \<le> 77" "length mem = 8"
  shows "signed_payload k n code path payload \<noteq> []" "length (signed_payload k n code path payload) \<le> 98"
    "nexus_cose_mac0_verify_message mem k \<lparr>coap_method = code, coap_uri = path\<rparr> (signed_payload k n code path payload) = Inr (n, payload)"
    "\<exists>ex. verify_deserialize_protected_message mem (signed_payload k n code path payload) = Inr ex \<and> ex_payload ex = payload"
proof -
  let ?mp = "\<lparr>mp_key = k, nonce_to_protect = n, mp_aad = \<lparr>coap_method = code, coap_uri = path\<rparr>, mp_payload = payload\<rparr>"
  obtain out where out: "nexus_cose_mac0_sign_encode_message ?mp 98 = Inr out" "length out \<le> 98"
      "nexus_cose_mac0_verify_message mem k \<lparr>coap_method = code, coap_uri = path\<rparr> out = Inr (n, payload)"
    using sign_then_verify [of ?mp 98 mem] assms by auto
  have e: "signed_payload k n code path payload = out" using out(1) by (simp add: signed_payload_def nexus_oc_wrapper_repack_buffer_secured_def)
  show "length (signed_payload k n code path payload) \<le> 98"
    "nexus_cose_mac0_verify_message mem k \<lparr>coap_method = code, coap_uri = path\<rparr> (signed_payload k n code path payload) = Inr (n, payload)"
    using out e by simp_all
  obtain ex where ex: "verify_deserialize_protected_message mem out = Inr ex" "ex_payload ex = payload"
    using out(3) by (auto simp: nexus_cose_mac0_verify_message_def split: sum.splits if_splits)
  then show "\<exists>ex. verify_deserialize_protected_message mem (signed_payload k n code path payload) = Inr ex \<and> ex_payload ex = payload"
    using e by simp
  obtain tag where "out = message_bytes n payload tag"
    using sign_encode_message_eq [of ?mp 98] out(1) assms by auto
  then show "signed_payload k n code path payload \<noteq> []" using e by (simp add: message_bytes_def)
qed

abbreviation security_data_of :: "'p channel_env \<Rightarrow> nx_id \<Rightarrow> 'p channel \<Rightarrow> security_mode0_data option" where
  "security_data_of e i ch \<equiv> nexus_channel_link_manager_security_data_from_nxid e i (lm ch)"

lemma secured_packet_aad:
  assumes "length (join SLASH segs) \<le> 11"
  shows "packet_aad (secured_packet segs code m token payload) = \<lparr>coap_method = code, coap_uri = join SLASH segs\<rparr>"
  using assms by (simp add: packet_aad_def secured_packet_def unat_word_of_nat_small)

lemma secured_packet_headers:
  "nexus_channel_sm_message_headers_secured_mode0 ((secured_packet segs code m token payload)\<lparr>pkt_version := v\<rparr>)"
  by (simp add: nexus_channel_sm_message_headers_secured_mode0_def coap_get_header_content_format_def IS_OPTION_def secured_packet_def)

text \<open>A secured packet from a linked device is judged by its nonce alone.\<close>

lemma authenticate_secured:
  assumes "security_data_of e (nexus_oc_wrapper_oc_endpoint_to_nx_id endpoint) ch = Some sd"
    "length (join SLASH segs) \<le> 11" "length payload \<le> 77" "length mem = 8"
    "pkt = (secured_packet segs code m token (signed_payload (sym_key sd) n code (join SLASH segs) payload))\<lparr>pkt_version := 1\<rparr>"
  shows "nexus_channel_authenticate_message e mem endpoint pkt ch =
    (let (result, ch') = authenticate_nonce e (nexus_oc_wrapper_oc_endpoint_to_nx_id endpoint) code n (nonce sd) ch
     in (result, pkt\<lparr>pkt_payload := Some payload\<rparr>, True, ch'))"
proof -
  note f = signed_payload_facts [OF assms(2-4), where k = "sym_key sd" and n = n and code = code]
  have a: "packet_aad pkt = \<lparr>coap_method = code, coap_uri = join SLASH segs\<rparr>"
    using secured_packet_aad [OF assms(2)] assms(5) by (simp add: packet_aad_def)
  have h: "nexus_channel_sm_message_headers_secured_mode0 pkt"
    unfolding assms(5) by (rule secured_packet_headers)
  have p: "payload_bytes pkt = signed_payload (sym_key sd) n code (join SLASH segs) payload" "pkt_code pkt = code"
    using assms(5) by (simp_all add: secured_packet_def payload_bytes_def)
  show ?thesis using assms(1) f(1-3) a h p by (simp add: nexus_channel_authenticate_message_def Let_def not_le [symmetric])
qed

lemma nonce_above:
  assumes "(n :: u32) \<le> MAX_NONCE"
  shows "n < n + 1" "m \<le> n \<Longrightarrow> \<not> n + 1 < m + 1" "n < m \<Longrightarrow> n + 1 \<le> m"
proof -
  have u: "unat (n + 1) = unat n + 1" using assms by (simp add: unat_plus_if' word_le_nat_alt)
  then show "n < n + 1" "n < m \<Longrightarrow> n + 1 \<le> m" by (simp_all add: word_less_nat_alt word_le_nat_alt)
  assume "m \<le> n"
  moreover from this assms have "m \<le> MAX_NONCE" by (rule order_trans)
  then have "unat (m + 1) = unat m + 1" by (simp add: unat_plus_if' word_le_nat_alt)
  ultimately show "\<not> n + 1 < m + 1" using u by (simp add: word_less_nat_alt word_le_nat_alt)
qed

text \<open>
  A request signed with the nonce after that of the client's link is passed on by a server whose link is not ahead; one whose link is
  ahead asks for a nonce sync.
\<close>

lemma unpack_secured_request:
  assumes "security_data_of e (nexus_oc_wrapper_oc_endpoint_to_nx_id endpoint) ch = Some sd"
    "length (join SLASH segs) \<le> 11" "length payload \<le> 77" "length mem = 8" "code \<in> {1, 2}"
    "pkt = (secured_packet segs code m token (signed_payload (sym_key sd) n code (join SLASH segs) payload))\<lparr>pkt_version := 1\<rparr>"
  shows "nonce sd < n \<Longrightarrow> n \<le> MAX_NONCE \<Longrightarrow> coap_unpack_possibly_secured_payload e mem pkt endpoint ch =
      (COAP_NO_ERROR, coap_set_header_content_format APPLICATION_VND_OCF_CBOR (pkt\<lparr>pkt_payload := Some payload\<rparr>), True,
       accept_nonce e (nexus_oc_wrapper_oc_endpoint_to_nx_id endpoint) n ch)"
    "n \<le> nonce sd \<Longrightarrow> nonce sd \<le> MAX_NONCE \<Longrightarrow> coap_unpack_possibly_secured_payload e mem pkt endpoint ch =
      (NOT_ACCEPTABLE_4_06, coap_set_header_content_format APPLICATION_VND_OCF_CBOR (pkt\<lparr>pkt_payload := Some payload\<rparr>), True, ch)"
proof -
  have c: "code < CREATED_2_01" using assms(5) by auto
  note a = authenticate_secured [OF assms(1-4,6)]
  show "coap_unpack_possibly_secured_payload e mem pkt endpoint ch =
      (COAP_NO_ERROR, coap_set_header_content_format APPLICATION_VND_OCF_CBOR (pkt\<lparr>pkt_payload := Some payload\<rparr>), True,
       accept_nonce e (nexus_oc_wrapper_oc_endpoint_to_nx_id endpoint) n ch)" if "nonce sd < n" "n \<le> MAX_NONCE"
  proof -
    have "\<not> n < nonce sd + 1" using that(1) by (metis inc_le linorder_not_le)
    moreover have "\<not> MAX_NONCE < n" using that(2) by (simp add: linorder_not_less)
    ultimately show ?thesis
      using c by (simp add: coap_unpack_possibly_secured_payload_def a authenticate_nonce_def)
  qed
  show "coap_unpack_possibly_secured_payload e mem pkt endpoint ch =
      (NOT_ACCEPTABLE_4_06, coap_set_header_content_format APPLICATION_VND_OCF_CBOR (pkt\<lparr>pkt_payload := Some payload\<rparr>), True, ch)"
    if "n \<le> nonce sd" "nonce sd \<le> MAX_NONCE"
    using c that nonce_above(1) [OF that(2)] by (simp add: coap_unpack_possibly_secured_payload_def a authenticate_nonce_def)
qed

lemma unpack_nonce_sync:
  assumes "security_data_of e (nexus_oc_wrapper_oc_endpoint_to_nx_id endpoint) ch = Some sd" "length mem = 8"
    "pkt = (secured_packet [] NOT_ACCEPTABLE_4_06 m token (signed_payload (sym_key sd) n NOT_ACCEPTABLE_4_06 [] []))\<lparr>pkt_version := 1\<rparr>"
    "nonce sd \<le> n" "n \<le> MAX_NONCE"
  shows "coap_unpack_possibly_secured_payload e mem pkt endpoint ch =
      (RESEND_PREVIOUS_REQUEST, coap_set_header_content_format APPLICATION_VND_OCF_CBOR (pkt\<lparr>pkt_payload := Some []\<rparr>), True,
       accept_nonce e (nexus_oc_wrapper_oc_endpoint_to_nx_id endpoint) n ch)"
proof -
  have "n \<noteq> RESET_NONCE_SIGNAL_VALUE" using assms(5) by (auto simp: word_le_nat_alt)
  then show ?thesis
    using authenticate_secured [OF assms(1), of "[]" "[]" mem pkt NOT_ACCEPTABLE_4_06 m token n] assms(2-5)
    by (simp add: coap_unpack_possibly_secured_payload_def authenticate_nonce_def)
qed

section \<open>Sending\<close>

named_theorems stack_updates \<open>reading the stack after an update of one part of it\<close>

lemma on_stack_simps [simp, stack_updates]:
  "chan (on_rt f s) = chan s" "outgoing_buffers (on_rt f s) = outgoing_buffers s" "transactions_memb (on_rt f s) = transactions_memb s"
  "transactions_list (on_rt f s) = transactions_list s" "api_request (on_rt f s) = api_request s"
  "chan (on_outgoing g s) = chan s" "outgoing_buffers (on_outgoing g s) = g (outgoing_buffers s)"
  "transactions_memb (on_outgoing g s) = transactions_memb s" "transactions_list (on_outgoing g s) = transactions_list s"
  "api_request (on_outgoing g s) = api_request s" "rt (on_outgoing g s) = rt s" "main_initialized (on_outgoing g s) = main_initialized s"
  "chan (on_cb c h s) = chan s" "outgoing_buffers (on_cb c h s) = outgoing_buffers s" "transactions_memb (on_cb c h s) = transactions_memb s"
  "transactions_list (on_cb c h s) = transactions_list s" "api_request (on_cb c h s) = api_request s" "rt (on_cb c h s) = rt s"
  "main_initialized (on_cb c h s) = main_initialized s" "api_client_cb (on_cb c h s) = api_client_cb s"
  by (simp_all add: on_rt_def on_outgoing_def on_cb_def)

lemma queue_simps [simp, stack_updates]:
  "queue (on_etimer et f r) = queue r" "queue (oc_etimer_set n p et iv r) = queue r"
  "rt (on_rt g s) = g (rt s)" "rt (on_chan h s) = rt s" "rt (store_message i bs s) = rt s" "outgoing_buffers (on_chan h s) = outgoing_buffers s"
  by (simp_all add: on_etimer_def oc_etimer_set_def add_timer_def oc_etimer_request_poll_def oc_process_poll_def update_time_def on_chan_def on_rt_def
      store_message_def Let_def split: list.splits)

lemma post_event_simps [simp, stack_updates]:
  "chan (snd (post_event p ev s)) = chan s" "outgoing_buffers (snd (post_event p ev s)) = outgoing_buffers s"
  "transactions_memb (snd (post_event p ev s)) = transactions_memb s" "transactions_list (snd (post_event p ev s)) = transactions_list s"
  by (simp_all add: post_event_def split: prod.splits)

lemma send_message_simps [simp, stack_updates]:
  "chan (oc_send_message i s) = chan s" "transactions_memb (oc_send_message i s) = transactions_memb s"
  "transactions_list (oc_send_message i s) = transactions_list s"
  by (cases "post_event MESSAGE_BUFFER_HANDLER (OUTBOUND_NETWORK_EVENT i) s" rule: prod.exhaust;
      use post_event_simps [of MESSAGE_BUFFER_HANDLER "OUTBOUND_NETWORK_EVENT i" s] in \<open>auto simp: oc_send_message_def split: bool.splits\<close>)+

text \<open>What is in a buffer.\<close>

definition in_buffer :: "'p oc_stack \<Rightarrow> nat \<Rightarrow> oc_endpoint \<Rightarrow> bytes \<Rightarrow> bool" where
  "in_buffer s i endpoint b \<longleftrightarrow> i < length (memb_mem (outgoing_buffers s)) \<and>
     (let m = memb_at (outgoing_buffers s) i
      in msg_endpoint m = endpoint \<and> msg_length m = length b \<and> length (msg_data m) = 120 \<and> (\<exists>rest. msg_data m = b @ rest))"

lemma in_buffer_update:
  "(\<And>m. msg_endpoint (f m) = msg_endpoint m \<and> msg_length (f m) = msg_length m \<and> msg_data (f m) = msg_data m) \<Longrightarrow>
   in_buffer (on_outgoing (memb_update j f) s) i endpoint b = in_buffer s i endpoint b"
  by (cases "i = j") (auto simp: in_buffer_def memb_update_def nth_list_update Let_def)

lemma in_buffer_cong: "outgoing_buffers s = outgoing_buffers s' \<Longrightarrow> in_buffer s i endpoint b = in_buffer s' i endpoint b"
  by (simp add: in_buffer_def)

lemma in_buffer_send: "in_buffer (oc_send_message j s) i endpoint b = in_buffer s i endpoint b"
proof -
  obtain ok s' where p: "post_event MESSAGE_BUFFER_HANDLER (OUTBOUND_NETWORK_EVENT j) s = (ok, s')" by fastforce
  have o: "in_buffer s' i endpoint b = in_buffer s i endpoint b"
    using post_event_simps(2) [of MESSAGE_BUFFER_HANDLER "OUTBOUND_NETWORK_EVENT j" s] p by (intro in_buffer_cong) simp
  show ?thesis using o by (cases ok) (simp_all add: oc_send_message_def p in_buffer_update)
qed

lemma in_buffer_store:
  assumes "i < length (memb_mem (outgoing_buffers s))" "length (msg_data (memb_at (outgoing_buffers s) i)) = 120" "length b \<le> 120"
    "msg_endpoint (memb_at (outgoing_buffers s) i) = endpoint"
  shows "in_buffer (store_message i b s) i endpoint b"
  using assms by (auto simp: in_buffer_def store_message_def memb_update_def memcpy_at_def)

lemma parse_in_buffer:
  assumes "in_buffer s i endpoint b" "coap_packet_wf pkt psegs qsegs" "coap_serialize_message pkt = Some b" "b \<noteq> []" "length b < 120"
  shows "coap_udp_parse_message (msg_data (memb_at (outgoing_buffers s) i)) (msg_length (memb_at (outgoing_buffers s) i)) =
    Some (COAP_NO_ERROR, pkt\<lparr>pkt_version := 1\<rparr>)"
proof -
  obtain rest where r: "msg_data (memb_at (outgoing_buffers s) i) = b @ rest" "length (b @ rest) = 120" "msg_length (memb_at (outgoing_buffers s) i) = length b"
    using assms(1) by (auto simp: in_buffer_def Let_def)
  then have "rest \<noteq> []" using assms(5) by auto
  then show ?thesis using serialize_then_parse [OF assms(2-4), of rest] r by simp
qed

lemma message_bytes_in_buffer: "in_buffer s i endpoint b \<Longrightarrow> message_bytes_of (memb_at (outgoing_buffers s) i) = b"
  by (auto simp: in_buffer_def message_bytes_of_def Let_def)

abbreviation endpoint_of :: "nx_id \<Rightarrow> oc_endpoint" where
  "endpoint_of \<equiv> nexus_oc_wrapper_nx_id_to_oc_endpoint"

text \<open>
  From \<open>s\<close> to \<open>s'\<close> a message is sent: the buffer \<open>i\<close> holds its bytes and is in use, its event is queued behind those that waited, and with
  this event the buffer process hands these bytes to the network, for this endpoint. There must be room in the queue.
\<close>

definition can_send :: "'p oc_stack \<Rightarrow> bool" where
  "can_send s \<longleftrightarrow> queue_wf (queue (rt s)) \<and> unat (nevents (queue (rt s))) < OC_PROCESS_NUMEVENTS"

definition sends :: "'p channel_env \<Rightarrow> 'p oc_stack \<Rightarrow> 'p oc_stack \<Rightarrow> nat \<Rightarrow> oc_endpoint \<Rightarrow> bytes \<Rightarrow> bool" where
  "sends e s s' i endpoint b \<longleftrightarrow> in_buffer s' i endpoint b \<and> 0 < msg_ref_count (memb_at (outgoing_buffers s') i) \<and> queue_wf (queue (rt s')) \<and>
     queue_items (queue (rt s')) = queue_items (queue (rt s)) @ [(MESSAGE_BUFFER_HANDLER, OUTBOUND_NETWORK_EVENT i)] \<and>
     chan (message_buffer_handler_thread e (OUTBOUND_NETWORK_EVENT i) s') = snd (oc_send_buffer e b endpoint (chan s'))"

lemma network_sends:
  assumes "in_buffer s i (endpoint_of x) b"
  shows "chan (message_buffer_handler_thread e (OUTBOUND_NETWORK_EVENT i) s) = snd (oc_send_buffer e b (endpoint_of x) (chan s))"
proof -
  have "ep_flags (endpoint_of x) AND DISCOVERY = 0" by (simp add: nexus_oc_wrapper_nx_id_to_oc_endpoint_def Let_def)
  then show ?thesis
    using assms message_bytes_in_buffer [OF assms] by (simp add: message_buffer_handler_thread_def in_buffer_def on_chan_def Let_def)
qed

lemma send_message_posts:
  assumes "can_send s"
  shows "\<exists>q. oc_send_message i s = s\<lparr>rt := (rt s)\<lparr>queue := q\<rparr>\<rparr> \<and> queue_wf q \<and>
    queue_items q = queue_items (queue (rt s)) @ [(MESSAGE_BUFFER_HANDLER, OUTBOUND_NETWORK_EVENT i)]"
proof -
  obtain q where "oc_process_post MESSAGE_BUFFER_HANDLER (OUTBOUND_NETWORK_EVENT i) (queue (rt s)) = (True, q)" "queue_wf q"
      "queue_items q = queue_items (queue (rt s)) @ [(MESSAGE_BUFFER_HANDLER, OUTBOUND_NETWORK_EVENT i)]"
    using post_event_items [of "queue (rt s)" MESSAGE_BUFFER_HANDLER "OUTBOUND_NETWORK_EVENT i"] assms by (auto simp: can_send_def)
  then show ?thesis by (intro exI [of _ q]) (simp add: oc_send_message_def post_event_def)
qed

lemma sends_cong:
  assumes "sends e s s' i (endpoint_of x) b" "outgoing_buffers t' = outgoing_buffers s'" "queue (rt t') = queue (rt s')" "queue (rt t) = queue (rt s)"
  shows "sends e' t t' i (endpoint_of x) b"
proof -
  have b: "in_buffer t' i (endpoint_of x) b" using assms(1,2) in_buffer_cong [of t' s'] by (simp add: sends_def)
  then show ?thesis using assms network_sends [OF b] by (simp add: sends_def)
qed

lemma send_packet_simps:
  assumes "send_packet i pkt s = Some s'"
  shows "chan s' = chan s" "transactions_memb s' = transactions_memb s" "transactions_list s' = transactions_list s"
  using assms by (auto simp: send_packet_def store_message_def Let_def split: option.splits)

lemma unref_buffer: "memb_mem (oc_message_unref i pool) = memb_mem (memb_update i (\<lambda>m. m\<lparr>msg_ref_count := msg_ref_count m - 1\<rparr>) pool)"
  by (simp add: oc_message_unref_def Let_def memb_free_used)

lemma in_buffer_unref: "in_buffer (on_outgoing (oc_message_unref j) s) i endpoint b = in_buffer s i endpoint b"
proof -
  have "in_buffer (on_outgoing (oc_message_unref j) s) i endpoint b =
      in_buffer (on_outgoing (memb_update j (\<lambda>m. m\<lparr>msg_ref_count := msg_ref_count m - 1\<rparr>)) s) i endpoint b"
    by (simp add: in_buffer_def unref_buffer)
  also have "\<dots> = in_buffer s i endpoint b" by (rule in_buffer_update) simp
  finally show ?thesis .
qed

lemma send_packet_sends:
  assumes "i < length (memb_mem (outgoing_buffers s))" "length (msg_data (memb_at (outgoing_buffers s) i)) = 120"
    "msg_endpoint (memb_at (outgoing_buffers s) i) = endpoint_of x" "coap_serialize_message pkt = Some b" "b \<noteq> []" "length b < 120"
    "can_send s" "0 < msg_ref_count (memb_at (outgoing_buffers s) i)"
  shows "\<exists>s'. send_packet i pkt s = Some s' \<and> sends e s s' i (endpoint_of x) b"
proof -
  let ?s = "store_message i b s"
  have b: "in_buffer ?s i (endpoint_of x) b" using in_buffer_store [OF assms(1,2) _ assms(3)] assms(6) by simp
  have r: "0 < msg_ref_count (memb_at (outgoing_buffers ?s) i)" using assms(1,8) by (simp add: store_message_def memb_update_def)
  have "can_send ?s" using assms(7) by (simp add: can_send_def)
  from send_message_posts [OF this, of i] obtain q where q: "oc_send_message i ?s = ?s\<lparr>rt := (rt s)\<lparr>queue := q\<rparr>\<rparr>" "queue_wf q"
      "queue_items q = queue_items (queue (rt s)) @ [(MESSAGE_BUFFER_HANDLER, OUTBOUND_NETWORK_EVENT i)]"
    by auto
  let ?t = "?s\<lparr>rt := (rt s)\<lparr>queue := q\<rparr>\<rparr>"
  have c: "in_buffer ?t i (endpoint_of x) b" using b by (simp add: in_buffer_def)
  have "sends e s ?t i (endpoint_of x) b" using c r q(2,3) network_sends [OF c] by (simp add: sends_def)
  moreover have "send_packet i pkt s = Some ?t" using assms(4,5) q(1) r by (auto simp: send_packet_def Let_def)
  ultimately show ?thesis by blast
qed

section \<open>Nonce synchronisation\<close>

definition pool_wf :: "oc_message oc_memb \<Rightarrow> bool" where
  "pool_wf pool \<longleftrightarrow> length (memb_mem pool) = length (memb_count pool) \<and> (\<forall>m\<in>set (memb_mem pool). length (msg_data m) = 120)"

lemma allocated_message:
  assumes "oc_internal_allocate_outgoing_message s = (Some j, s1)" "pool_wf (outgoing_buffers s)"
  shows "j < length (memb_mem (outgoing_buffers s1))" "length (msg_data (memb_at (outgoing_buffers s1) j)) = 120" "chan s1 = chan s"
    "transactions_memb s1 = transactions_memb s" "transactions_list s1 = transactions_list s"
    "msg_ref_count (memb_at (outgoing_buffers s1) j) = 1" "rt s1 = rt s" "main_initialized s1 = main_initialized s"
proof -
  obtain pool where a: "oc_memb_alloc zero_message (outgoing_buffers s) = (Some j, pool)"
      "s1 = s\<lparr>outgoing_buffers := memb_update j (\<lambda>m. m\<lparr>msg_length := 0, msg_ref_count := 1\<rparr>) pool\<rparr>"
    using assms(1) by (auto simp: oc_internal_allocate_outgoing_message_def allocate_message_def split: prod.splits option.splits)
  note p = memb_alloc_Some [OF a(1)]
  have l: "length (memb_mem (outgoing_buffers s)) = length (memb_count (outgoing_buffers s))" using assms(2) by (simp add: pool_wf_def)
  show "j < length (memb_mem (outgoing_buffers s1))" "length (msg_data (memb_at (outgoing_buffers s1) j)) = 120"
    and "msg_ref_count (memb_at (outgoing_buffers s1) j) = 1"
    using p(1,4,7) [OF l] l a(2) by (simp_all add: memb_update_def zero_message_def)
  show "chan s1 = chan s" "transactions_memb s1 = transactions_memb s" "transactions_list s1 = transactions_list s"
    "rt s1 = rt s" "main_initialized s1 = main_initialized s"
    using a(2) by simp_all
qed

lemma nonce_sync_packet:
  "coap_set_header_content_format APPLICATION_COSE_MAC0 ((coap_set_token [token] (coap_udp_init_message COAP_TYPE_NON code m))\<lparr>pkt_payload := Some payload\<rparr>) =
   secured_packet [] code m token payload"
  by (simp add: coap_set_header_content_format_def coap_set_token_def coap_udp_init_message_def secured_packet_def set_bit_option_def zero_packet_def)

lemma send_nonce_sync:
  assumes "oc_internal_allocate_outgoing_message s = (Some j, s1)" "pool_wf (outgoing_buffers s)" "can_send s"
    "security_data_of e cli (chan s) = Some sd"
  shows "\<exists>s' b. coap_send_nonce_sync_response e m [token] (endpoint_of cli) False s = Some s' \<and> chan s' = chan s \<and> sends e s s' j (endpoint_of cli) b \<and>
    coap_serialize_message (secured_packet [] NOT_ACCEPTABLE_4_06 m token (signed_payload (sym_key sd) (nonce sd) NOT_ACCEPTABLE_4_06 [] [])) = Some b \<and>
    b \<noteq> [] \<and> length b < 120"
proof -
  let ?p = "signed_payload (sym_key sd) (nonce sd) NOT_ACCEPTABLE_4_06 [] []"
  note a = allocated_message [OF assms(1,2)]
  have f: "?p \<noteq> []" "length ?p \<le> 98" using signed_payload_facts(1,2) [of "[]" "[]" "replicate 8 0"] by simp_all
  obtain b where b: "coap_serialize_message (secured_packet [] NOT_ACCEPTABLE_4_06 m token ?p) = Some b" "b \<noteq> []" "length b < 120"
    using secured_packet_serializes [of "[]" NOT_ACCEPTABLE_4_06 ?p, where m = m and token = token] f by (auto simp: path_option_def)
  let ?s = "on_outgoing (memb_update j (\<lambda>g. g\<lparr>msg_endpoint := endpoint_of cli\<rparr>)) s1"
  have q: "rt ?s = rt s" using a(7) by simp
  then obtain s' where s': "send_packet j (secured_packet [] NOT_ACCEPTABLE_4_06 m token ?p) ?s = Some s'" "sends e ?s s' j (endpoint_of cli) b"
    using send_packet_sends [of j ?s cli _ b] a(1,2,6) b assms(3) by (auto simp: memb_update_def can_send_def)
  have "coap_send_nonce_sync_response e m [token] (endpoint_of cli) False s = Some s'"
    using assms(1,4) a(3) s'(1) nonce_sync_packet [where token = token and code = NOT_ACCEPTABLE_4_06 and m = m and payload = ?p]
    by (simp add: coap_send_nonce_sync_response_def signed_payload_def [symmetric] endpoint_of_nx_id Let_def)
  moreover have "sends e s s' j (endpoint_of cli) b" using sends_cong [OF s'(2) refl refl, of s] q by simp
  ultimately show ?thesis using s' b send_packet_simps(1) [OF s'(1)] a(3) by auto
qed

text \<open>The requests an application makes: a path that fits, and a payload that can be signed.\<close>

definition request_ok :: "bytes list \<Rightarrow> u8 \<Rightarrow> bytes \<Rightarrow> bool" where
  "request_ok segs code payload \<longleftrightarrow> segments_ok SLASH segs \<and> length (join SLASH segs) \<le> 11 \<and> length (path_option segs) \<le> 13 \<and>
     code \<in> {1, 2} \<and> length payload \<le> 77"

definition request_bytes :: "bytes \<Rightarrow> u32 \<Rightarrow> bytes list \<Rightarrow> u8 \<Rightarrow> u16 \<Rightarrow> u8 \<Rightarrow> bytes \<Rightarrow> bytes" where
  "request_bytes k n segs code m token payload =
     the (coap_serialize_message (secured_packet segs code m token (signed_payload k n code (join SLASH segs) payload)))"

lemma request_bytes_facts:
  assumes "request_ok segs code payload"
  shows "coap_serialize_message (secured_packet segs code m token (signed_payload k n code (join SLASH segs) payload)) =
      Some (request_bytes k n segs code m token payload)"
    "request_bytes k n segs code m token payload \<noteq> []" "length (request_bytes k n segs code m token payload) < 120"
    "coap_packet_wf (secured_packet segs code m token (signed_payload k n code (join SLASH segs) payload)) segs []"
proof -
  let ?p = "signed_payload k n code (join SLASH segs) payload"
  have r: "segments_ok SLASH segs" "length (join SLASH segs) \<le> 11" "length (path_option segs) \<le> 13" "code \<noteq> 0" "length payload \<le> 77"
    using assms by (auto simp: request_ok_def)
  have f: "?p \<noteq> []" "length ?p \<le> 98" using signed_payload_facts(1,2) [OF r(2,5), of "replicate 8 0"] by simp_all
  then show "coap_packet_wf (secured_packet segs code m token ?p) segs []" using secured_packet_wf r(1,4) by blast
  from secured_packet_serializes [OF disjI2 [OF r(1)] r(4) f r(3), where m = m and token = token]
  show "coap_serialize_message (secured_packet segs code m token ?p) = Some (request_bytes k n segs code m token payload)"
    "request_bytes k n segs code m token payload \<noteq> []" "length (request_bytes k n segs code m token payload) < 120"
    by (auto simp: request_bytes_def)
qed

text \<open>A client that keeps a secured request to \<open>srv\<close> for the case of a nonce sync.\<close>

definition awaiting :: "'p oc_stack \<Rightarrow> nx_id \<Rightarrow> bytes \<Rightarrow> u32 \<Rightarrow> bytes list \<Rightarrow> u8 \<Rightarrow> u16 \<Rightarrow> u8 \<Rightarrow> bytes \<Rightarrow> nat \<Rightarrow> bool" where
  "awaiting s srv k n segs code m token payload i \<longleftrightarrow>
     (\<exists>t. coap_get_transaction_by_mid m s = Some t \<and> t_message (memb_at (transactions_memb s) t) = i) \<and>
     0 < msg_ref_count (memb_at (outgoing_buffers s) i) \<and>
     in_buffer s i (endpoint_of srv) (request_bytes k n segs code m token payload)"

lemma endpoint_compare_refl: "oc_endpoint_compare (nexus_oc_wrapper_nx_id_to_oc_endpoint j) (nexus_oc_wrapper_nx_id_to_oc_endpoint j)"
  by (simp add: oc_endpoint_compare_def nexus_oc_wrapper_nx_id_to_oc_endpoint_def Let_def)

lemma resend_request:
  assumes "awaiting s srv k n segs code m token payload i" "request_ok segs code payload" "length (tag_memory e) = 8"
    "security_data_of (cenv e) srv (chan s) = Some sd" "can_send s"
  shows "\<exists>s'. coap_send_previous_request_with_repacked_security e m (endpoint_of srv) s = Some s' \<and> chan s' = chan s \<and>
    sends (cenv e) s s' i (endpoint_of srv) (request_bytes (sym_key sd) (nonce sd + 1) segs code m token payload)"
proof -
  let ?ep = "nexus_oc_wrapper_nx_id_to_oc_endpoint srv"
  obtain t where t: "coap_get_transaction_by_mid m s = Some t" "t_message (memb_at (transactions_memb s) t) = i"
      "in_buffer s i ?ep (request_bytes k n segs code m token payload)" "0 < msg_ref_count (memb_at (outgoing_buffers s) i)"
    using assms(1) by (auto simp: awaiting_def)
  note f = request_bytes_facts [OF assms(2), where k = k and n = n and m = m and token = token]
  note g = request_bytes_facts [OF assms(2), where k = "sym_key sd" and n = "nonce sd + 1" and m = m and token = token]
  have r: "length (join SLASH segs) \<le> 11" "length payload \<le> 77" using assms(2) by (auto simp: request_ok_def)
  let ?pkt = "(secured_packet segs code m token (signed_payload k n code (join SLASH segs) payload))\<lparr>pkt_version := 1\<rparr>"
  have p: "coap_udp_parse_message (msg_data (memb_at (outgoing_buffers s) i)) (msg_length (memb_at (outgoing_buffers s) i)) = Some (COAP_NO_ERROR, ?pkt)"
    by (rule parse_in_buffer [OF t(3) f(4,1,2,3)])
  have pb: "payload_bytes ?pkt = signed_payload k n code (join SLASH segs) payload" by (simp add: secured_packet_def payload_bytes_def)
  obtain ex where ex: "verify_deserialize_protected_message (tag_memory e) (payload_bytes ?pkt) = Inr ex" "ex_payload ex = payload"
    using signed_payload_facts(4) [OF r assms(3)] pb by metis
  have aad: "packet_aad ?pkt = \<lparr>coap_method = code, coap_uri = join SLASH segs\<rparr>"
    using secured_packet_aad [OF r(1)] by (simp add: packet_aad_def)
  have q: "coap_set_header_content_format APPLICATION_COSE_MAC0 (?pkt\<lparr>pkt_payload := Some x\<rparr>) = (secured_packet segs code m token x)\<lparr>pkt_version := 1\<rparr>" for x
    by (simp add: coap_set_header_content_format_def set_bit_option_def secured_packet_def)
  have v: "coap_serialize_message (x\<lparr>pkt_version := 1\<rparr>) = coap_serialize_message x" for x
    by (simp add: coap_serialize_message_def)
  have ep: "msg_endpoint (memb_at (outgoing_buffers s) i) = ?ep" "i < length (memb_mem (outgoing_buffers s))" "length (msg_data (memb_at (outgoing_buffers s) i)) = 120"
    using t(3) by (simp_all add: in_buffer_def Let_def)
  obtain s' where s': "send_packet i ((secured_packet segs code m token (signed_payload (sym_key sd) (nonce sd + 1) code (join SLASH segs) payload))\<lparr>pkt_version := 1\<rparr>) s = Some s'"
      "sends (cenv e) s s' i ?ep (request_bytes (sym_key sd) (nonce sd + 1) segs code m token payload)"
    using send_packet_sends [OF ep(2,3,1), of "_\<lparr>pkt_version := 1\<rparr>"] g(1-3) assms(5) t(4) by (metis v)
  have "coap_send_previous_request_with_repacked_security e m ?ep s = Some s'"
    using t p ex assms(4) aad s'(1) q ep endpoint_compare_refl [of srv]
    by (simp add: coap_send_previous_request_with_repacked_security_def Let_def endpoint_of_nx_id signed_payload_def)
  then show ?thesis using s' send_packet_simps(1) [OF s'(1)] by auto
qed

section \<open>Secured requests\<close>

lemma add_timed_callback_simps [simp, stack_updates]:
  "chan (oc_ri_add_timed_event_callback c ticks s) = chan s" "outgoing_buffers (oc_ri_add_timed_event_callback c ticks s) = outgoing_buffers s"
  "transactions_memb (oc_ri_add_timed_event_callback c ticks s) = transactions_memb s"
  "transactions_list (oc_ri_add_timed_event_callback c ticks s) = transactions_list s"
  "queue (rt (oc_ri_add_timed_event_callback c ticks s)) = queue (rt s)"
  by (simp_all add: oc_ri_add_timed_event_callback_def Let_def split: prod.splits option.splits)

lemma send_transaction:
  assumes "main_initialized s" "can_send s" "t_message (memb_at (transactions_memb s) t) = i" "in_buffer s i (endpoint_of x) b"
    "msg_ref_count (memb_at (outgoing_buffers s) i) = 1"
  shows "sends e s (coap_send_transaction t True s) i (endpoint_of x) b"
    "chan (coap_send_transaction t True s) = chan s" "transactions_memb (coap_send_transaction t True s) = transactions_memb s"
    "transactions_list (coap_send_transaction t True s) = transactions_list s"
proof -
  let ?a = "on_outgoing (oc_message_add_ref i) s"
  have "can_send ?a" using assms(2) by (simp add: can_send_def)
  from send_message_posts [OF this, of i] obtain q where q: "oc_send_message i ?a = ?a\<lparr>rt := (rt s)\<lparr>queue := q\<rparr>\<rparr>" "queue_wf q"
      "queue_items q = queue_items (queue (rt s)) @ [(MESSAGE_BUFFER_HANDLER, OUTBOUND_NETWORK_EVENT i)]"
    by auto
  define u where "u = coap_send_transaction t True s"
  have b: "in_buffer ?a i (endpoint_of x) b" using assms(4) by (simp add: oc_message_add_ref_def in_buffer_update)
  have r: "0 < msg_ref_count (memb_at (outgoing_buffers ?a) i)" using assms(4,5) by (simp add: oc_message_add_ref_def memb_update_def in_buffer_def)
  have u: "outgoing_buffers u = outgoing_buffers ?a" "queue (rt u) = q" "chan u = chan s" "transactions_memb u = transactions_memb s"
      "transactions_list u = transactions_list s"
    using assms(1,3) q(1) by (simp_all add: u_def coap_send_transaction_def on_rt_def Let_def)
  have c: "in_buffer u i (endpoint_of x) b" using b u(1) in_buffer_cong [of u ?a] by simp
  show "sends e s (coap_send_transaction t True s) i (endpoint_of x) b"
    using c r q(2,3) u(1,2) network_sends [OF c] unfolding u_def by (simp add: sends_def)
  show "chan (coap_send_transaction t True s) = chan s" "transactions_memb (coap_send_transaction t True s) = transactions_memb s"
    "transactions_list (coap_send_transaction t True s) = transactions_list s"
    using u(3-5) unfolding u_def by simp_all
qed

text \<open>The stack between the start of a request and its dispatch.\<close>

definition prepared :: "'p oc_stack \<Rightarrow> nx_id \<Rightarrow> bytes list \<Rightarrow> u8 \<Rightarrow> u16 \<Rightarrow> u8 \<Rightarrow> nat \<Rightarrow> bool" where
  "prepared s srv segs code m token i \<longleftrightarrow> (\<exists>c t. api_client_cb s = Some c \<and> api_transaction s = Some t \<and> c < length (memb_mem (client_cbs_s s)) \<and>
     cb_uri (cb_at s c) = join SLASH segs \<and> cb_method (cb_at s c) = code \<and> cb_endpoint (cb_at s c) = endpoint_of srv \<and>
     coap_get_transaction_by_mid m s = Some t \<and> t_message (memb_at (transactions_memb s) t) = i \<and> i < length (memb_mem (outgoing_buffers s)) \<and>
     length (msg_data (memb_at (outgoing_buffers s) i)) = 120 \<and>
     msg_endpoint (memb_at (outgoing_buffers s) i) = endpoint_of srv \<and> msg_ref_count (memb_at (outgoing_buffers s) i) = 1) \<and>
     api_request s = coap_set_header_uri_path (join SLASH segs) (coap_set_token [token] (coap_udp_init_message COAP_TYPE_NON code m))"

lemma strip_slashes: "segments_ok SLASH segs \<Longrightarrow> dropWhile (\<lambda>b. b = SLASH) (join SLASH segs) = join SLASH segs"
  by (cases segs rule: list.exhaust; cases "hd segs"; cases "tl segs") (auto simp: segments_ok_def)

lemma request_packet:
  assumes "segments_ok SLASH segs" "length p \<le> 98"
  shows "coap_set_payload (Some p) (coap_set_header_content_format APPLICATION_COSE_MAC0
      (coap_set_header_uri_path (join SLASH segs) (coap_set_token [token] (coap_udp_init_message COAP_TYPE_NON code m)))) =
    secured_packet segs code m token p"
proof -
  have "segs \<noteq> []" using assms(1) by (simp add: segments_ok_def)
  then show ?thesis using strip_slashes [OF assms(1)] assms(2)
    by (simp add: coap_set_payload_def coap_set_header_content_format_def coap_set_header_uri_path_def coap_set_token_def coap_udp_init_message_def
        secured_packet_def set_bit_option_def zero_packet_def)
qed

lemma dispatch_secured:
  assumes "prepared s srv segs code m token i" "request_ok segs code payload" "payload = take (nat encoded_size) area" "0 \<le> encoded_size"
    "encoded_size \<le> 77" "length area = 98" "security_data_of e srv (chan s) = Some sd" "main_initialized s" "can_send s"
  shows "\<exists>s'. dispatch_coap_request e True encoded_size area s = Some (True, s') \<and> chan s' = chan s \<and>
    sends e s s' i (endpoint_of srv) (request_bytes (sym_key sd) (nonce sd + 1) segs code m token payload) \<and>
    awaiting s' srv (sym_key sd) (nonce sd + 1) segs code m token payload i"
proof -
  obtain c t where c: "api_client_cb s = Some c" "api_transaction s = Some t" "c < length (memb_mem (client_cbs_s s))"
     "cb_uri (cb_at s c) = join SLASH segs" "cb_method (cb_at s c) = code" "cb_endpoint (cb_at s c) = nexus_oc_wrapper_nx_id_to_oc_endpoint srv"
     "coap_get_transaction_by_mid m s = Some t" "t_message (memb_at (transactions_memb s) t) = i" "i < length (memb_mem (outgoing_buffers s))"
     "length (msg_data (memb_at (outgoing_buffers s) i)) = 120" "msg_endpoint (memb_at (outgoing_buffers s) i) = endpoint_of srv"
     "api_request s = coap_set_header_uri_path (join SLASH segs) (coap_set_token [token] (coap_udp_init_message COAP_TYPE_NON code m))"
     "msg_ref_count (memb_at (outgoing_buffers s) i) = 1"
    using assms(1) by (auto simp: prepared_def)
  let ?b = "request_bytes (sym_key sd) (nonce sd + 1) segs code m token payload"
  let ?p = "signed_payload (sym_key sd) (nonce sd + 1) code (join SLASH segs) payload"
  note f = request_bytes_facts [OF assms(2), where k = "sym_key sd" and n = "nonce sd + 1" and m = m and token = token]
  have r: "segments_ok SLASH segs" "length (join SLASH segs) \<le> 11" "length payload \<le> 77" using assms(2) by (auto simp: request_ok_def)
  have l: "?p \<noteq> []" "length ?p \<le> 98" using signed_payload_facts(1,2) [OF r(2,3), of "replicate 8 0"] by simp_all
  obtain k where k: "encoded_size = int k" "k \<le> 77" using assms(4,5) by (metis nonneg_int_cases of_nat_le_iff of_nat_numeral)
  then have z: "unat (word_of_int encoded_size :: u8) = nat encoded_size" by (simp add: unat_word_of_nat_small)
  have u: "unat (word_of_nat (length (join SLASH segs)) :: u8) = length (join SLASH segs)" "unat (word_of_nat (length ?p) :: u8) = length ?p"
    using r(2) l(2) by (simp_all add: unat_word_of_nat_small)
  have nz: "(word_of_nat (length ?p) :: u8) \<noteq> 0" using u(2) l(1) by (metis length_0_conv unat_0)
  let ?s1 = "on_cb c (\<lambda>cb. cb\<lparr>nx_request_secured := True\<rparr>) s"
  let ?s2 = "?s1\<lparr>api_request := coap_set_header_content_format APPLICATION_COSE_MAC0 (api_request s)\<rparr>"
  have cb: "cb_uri (cb_at ?s1 c) = join SLASH segs" "cb_method (cb_at ?s1 c) = code" "cb_endpoint (cb_at ?s1 c) = nexus_oc_wrapper_nx_id_to_oc_endpoint srv"
    using c(3-6) by (simp_all add: on_cb_def memb_update_def)
  have prep: "prepare_secured_coap_request e area (word_of_int encoded_size) ?s1 = (True, memcpy_at 0 ?p area, word_of_nat (length ?p), ?s2)"
    unfolding prepare_secured_coap_request_def Let_def using c(1) cb u(1) nz assms(3,7) z
    by (simp add: endpoint_of_nx_id signed_payload_def)
  have tk: "take (length ?p) (memcpy_at 0 ?p area) = ?p" by (simp add: memcpy_at_def)
  have pk: "coap_set_payload (Some ?p) (api_request ?s2) = secured_packet segs code m token ?p"
    using request_packet [OF r(1) l(2)] c(12) by simp
  let ?s3 = "?s2\<lparr>api_request := secured_packet segs code m token ?p\<rparr>"
  let ?s' = "(oc_ri_add_timed_event_callback c OC_NON_LIFETIME (coap_send_transaction t True (store_message i ?b ?s3)))\<lparr>api_transaction := None, api_client_cb := None\<rparr>"
  have pos: "0 < (word_of_nat (length ?p) :: u8)" using nz by (simp add: word_neq_0_conv)
  have d: "dispatch_coap_request e True encoded_size area s = Some (True, ?s')"
    unfolding dispatch_coap_request_def Let_def using c(1,2,8) prep u(2) tk pk pos f(1,2) by (simp add: secured_packet_def)
  let ?s4 = "store_message i ?b ?s3"
  have ib: "in_buffer ?s4 i (endpoint_of srv) ?b" using in_buffer_store [of i ?s3 ?b] c(9-11) f(3) by simp
  have s4: "main_initialized ?s4" "can_send ?s4" "t_message (memb_at (transactions_memb ?s4) t) = i" "msg_ref_count (memb_at (outgoing_buffers ?s4) i) = 1"
    using assms(8,9) c(8,9,13) by (simp_all add: can_send_def store_message_def memb_update_def)
  note v = send_transaction [OF s4(1-3) ib s4(4)]
  have sn: "sends e s ?s' i (endpoint_of srv) ?b" by (rule sends_cong [OF v(1)]) simp_all
  then have "in_buffer ?s' i (endpoint_of srv) ?b" "0 < msg_ref_count (memb_at (outgoing_buffers ?s') i)" by (simp_all add: sends_def)
  then show ?thesis using d sn c(7,8) v(2-4) by (auto simp: awaiting_def coap_get_transaction_by_mid_def store_message_def)
qed

definition stack_wf :: "'p oc_stack \<Rightarrow> bool" where
  "stack_wf s \<longleftrightarrow> pool_wf (outgoing_buffers s) \<and> length (memb_mem (transactions_memb s)) = length (memb_count (transactions_memb s)) \<and>
     length (memb_mem (client_cbs_s s)) = length (memb_count (client_cbs_s s)) \<and> set (transactions_list s) \<subseteq> memb_used (transactions_memb s)"

lemma new_transaction:
  assumes "coap_new_transaction m endpoint s = (Some t, s1)" "stack_wf s" "coap_get_transaction_by_mid m s = None"
  shows "\<exists>i. t_message (memb_at (transactions_memb s1) t) = i \<and> i < length (memb_mem (outgoing_buffers s1)) \<and>
      length (msg_data (memb_at (outgoing_buffers s1) i)) = 120 \<and> msg_endpoint (memb_at (outgoing_buffers s1) i) = endpoint \<and>
      msg_ref_count (memb_at (outgoing_buffers s1) i) = 1"
    "coap_get_transaction_by_mid m s1 = Some t" "chan s1 = chan s" "client_cbs_s s1 = client_cbs_s s"
    "queue (rt s1) = queue (rt s)" "main_initialized s1 = main_initialized s"
proof -
  obtain pool where a: "oc_memb_alloc zero_transaction (transactions_memb s) = (Some t, pool)"
    using assms(1) by (auto simp: coap_new_transaction_def Let_def split: prod.splits option.splits)
  let ?s = "on_rt (on_etimer (IDLE_TIMEOUT_TIMER t) (\<lambda>_. zero_etimer) \<circ> on_etimer (RETRANS_TIMER t) (\<lambda>_. zero_etimer)) (s\<lparr>transactions_memb := pool\<rparr>)"
  obtain i s2 where b: "oc_internal_allocate_outgoing_message ?s = (Some i, s2)"
      "s1 = (on_outgoing (memb_update i (\<lambda>g. g\<lparr>msg_endpoint := endpoint\<rparr>)) s2)\<lparr>transactions_memb :=
         memb_update t (\<lambda>x. x\<lparr>t_mid := m, retrans_counter := 0, t_message := i\<rparr>) (transactions_memb s2), transactions_list := transactions_list s2 @ [t]\<rparr>"
    using assms(1) a by (auto simp: coap_new_transaction_def Let_def split: prod.splits option.splits)
  have l: "length (memb_mem (transactions_memb s)) = length (memb_count (transactions_memb s))" using assms(2) by (simp add: stack_wf_def)
  note p = memb_alloc_Some [OF a l]
  have w: "pool_wf (outgoing_buffers ?s)" using assms(2) by (simp add: stack_wf_def)
  note q = allocated_message [OF b(1) w]
  have t: "transactions_memb s2 = pool" "transactions_list s2 = transactions_list s" "t < length (memb_mem pool)" using q(4,5) p(1,7) l by simp_all
  have m1: "memb_at (transactions_memb s1) t = (memb_at pool t)\<lparr>t_mid := m, retrans_counter := 0, t_message := i\<rparr>"
    using b(2) t by (simp add: memb_update_def)
  have m2: "memb_at (transactions_memb s1) x = memb_at (transactions_memb s) x" if "x \<noteq> t" for x
    using b(2) t(1) p(5) [OF that] that by (simp add: memb_update_def)
  have "i < length (memb_mem (outgoing_buffers s1))" "length (msg_data (memb_at (outgoing_buffers s1) i)) = 120"
      "msg_endpoint (memb_at (outgoing_buffers s1) i) = endpoint" "msg_ref_count (memb_at (outgoing_buffers s1) i) = 1"
    using b(2) q(1,2,6) by (simp_all add: memb_update_def)
  then show "\<exists>i. t_message (memb_at (transactions_memb s1) t) = i \<and> i < length (memb_mem (outgoing_buffers s1)) \<and>
      length (msg_data (memb_at (outgoing_buffers s1) i)) = 120 \<and> msg_endpoint (memb_at (outgoing_buffers s1) i) = endpoint \<and>
      msg_ref_count (memb_at (outgoing_buffers s1) i) = 1"
    using m1 by simp
  have nt: "t \<notin> set (transactions_list s)" using p(2) assms(2) by (auto simp: stack_wf_def)
  have "find (\<lambda>x. t_mid (memb_at (transactions_memb s1) x) = m) (transactions_list s) = None"
    using assms(3) nt m2 unfolding coap_get_transaction_by_mid_def find_None_iff by metis
  moreover have "find P (xs @ [y]) = Some y" if "find P xs = None" "P y" for P xs and y :: nat using that by (induction xs) (auto split: if_splits)
  ultimately show "coap_get_transaction_by_mid m s1 = Some t" using b(2) t(2) m1 by (simp add: coap_get_transaction_by_mid_def)
  show "chan s1 = chan s" using b(2) q(3) by simp
  show "queue (rt s1) = queue (rt s)" "main_initialized s1 = main_initialized s" using b(2) q(7,8) by (simp_all add: on_rt_def)
  show "client_cbs_s s1 = client_cbs_s s" using b by (auto simp: oc_internal_allocate_outgoing_message_def on_outgoing_def on_rt_def split: prod.splits)
qed

lemma init_post_prepared:
  assumes "stack_init_post e (join SLASH segs) (endpoint_of srv) [] h LOW_QOS s = (True, s1)" "stack_wf s"
    "coap_get_transaction_by_mid (current_mid s + 1) s = None"
  shows "\<exists>token i. prepared s1 srv segs COAP_POST (current_mid s + 1) token i" "lm (chan s1) = lm (chan s)"
    "queue (rt s1) = queue (rt s)" "main_initialized s1 = main_initialized s"
proof -
  let ?ep = "nexus_oc_wrapper_nx_id_to_oc_endpoint srv" and ?m = "current_mid s + 1"
  obtain c s2 where a: "oc_ri_alloc_client_cb e (join SLASH segs) ?ep COAP_POST [] h LOW_QOS s = (Some c, s2)" "prepare_coap_request c s2 = (True, s1)"
    using assms(1) by (auto simp: stack_init_post_def split: prod.splits option.splits)
  obtain pool where al: "oc_memb_alloc zero_client_cb (client_cbs_s s) = (Some c, pool)"
    using a(1) by (auto simp: oc_ri_alloc_client_cb_def split: prod.splits option.splits)
  have l: "length (memb_mem (client_cbs_s s)) = length (memb_count (client_cbs_s s))" using assms(2) by (simp add: stack_wf_def)
  note p = memb_alloc_Some [OF al l]
  obtain v pl where v: "nxp_channel_random_value e (cplat (chan s)) = (v, pl)" by fastforce
  have s2: "client_cbs_s s2 = memb_update c (\<lambda>cb. cb\<lparr>cb_mid := ?m, cb_uri := join SLASH segs, cb_method := 2, cb_qos := LOW_QOS, cb_handler := h, cb_token_len := 1,
        cb_token := ucast (v AND 0xff), cb_discovery := False, cb_timestamp := now s, cb_observe_seq := -1,
        cb_endpoint := ?ep, cb_query := [], nx_request_secured := False\<rparr>) pool"
      "outgoing_buffers s2 = outgoing_buffers s" "transactions_memb s2 = transactions_memb s" "transactions_list s2 = transactions_list s" "lm (chan s2) = lm (chan s)"
      "rt s2 = rt s" "main_initialized s2 = main_initialized s"
    using a(1) al v by (auto simp: oc_ri_alloc_client_cb_def Let_def coap_get_mid_def random_value_def on_cb_def on_chan_def split: prod.splits)
  have cl: "c < length (memb_mem pool)" using p(1,7) l by simp
  define cb where "cb = cb_at s2 c"
  have cb: "cb_mid cb = ?m" "cb_uri cb = join SLASH segs" "cb_method cb = 2" "cb_qos cb = LOW_QOS" "cb_endpoint cb = ?ep" "cb_query cb = []"
    using s2(1) cl by (simp_all add: cb_def memb_update_def)
  have w: "stack_wf s2" using assms(2) s2 p(6,7) by (simp add: stack_wf_def memb_update_def)
  have g: "coap_get_transaction_by_mid ?m s2 = None" using assms(3) s2(3,4) by (simp add: coap_get_transaction_by_mid_def)
  obtain t s3 where t: "coap_new_transaction ?m ?ep s2 = (Some t, s3)"
    using a(2) cb by (cases "coap_new_transaction ?m ?ep s2"; cases "fst (coap_new_transaction ?m ?ep s2)")
      (auto simp: prepare_coap_request_def Let_def cb_def [symmetric])
  note n = new_transaction [OF t w g]
  have s1: "s1 = s3\<lparr>api_transaction := Some t, api_request := coap_set_header_uri_path (join SLASH segs) (coap_set_token [cb_token cb]
      (coap_udp_init_message COAP_TYPE_NON 2 ?m)), api_client_cb := Some c\<rparr>"
    using a(2) cb t by (simp add: prepare_coap_request_def Let_def cb_def [symmetric])
  have "coap_get_transaction_by_mid ?m s1 = Some t" using n(2) s1 by (simp add: coap_get_transaction_by_mid_def)
  then have "prepared s1 srv segs COAP_POST ?m (cb_token cb) (t_message (memb_at (transactions_memb s3) t))"
    using s1 n(1,4) s2(1) cl cb by (auto simp: prepared_def cb_def memb_update_def)
  then show "\<exists>token i. prepared s1 srv segs COAP_POST ?m token i" by blast
  show "lm (chan s1) = lm (chan s)" "queue (rt s1) = queue (rt s)" "main_initialized s1 = main_initialized s" using s1 n(3,5,6) s2(5-7) by simp_all
qed

section \<open>From one device to the other\<close>

definition passed_on :: "coap_packet \<Rightarrow> bytes list \<Rightarrow> u8 \<Rightarrow> bytes \<Rightarrow> bool" where
  "passed_on pkt segs code payload \<longleftrightarrow> pkt_code pkt = code \<and> coap_get_header_uri_path pkt = join SLASH segs \<and> coap_get_header_uri_query pkt = [] \<and>
     payload_bytes pkt = payload"

text \<open>What a server whose link is not ahead makes of a secured request.\<close>

lemma server_accepts:
  assumes "request_ok segs code payload" "security_data_of e cli ch = Some sd" "nonce sd < n" "n \<le> MAX_NONCE" "length mem = 8"
  shows "\<exists>pkt pkt'. coap_udp_parse_message (msg_data (received (endpoint_of cli) (request_bytes (sym_key sd) n segs code m token payload)))
        (msg_length (received (endpoint_of cli) (request_bytes (sym_key sd) n segs code m token payload))) = Some (COAP_NO_ERROR, pkt) \<and>
      coap_unpack_possibly_secured_payload e mem pkt (endpoint_of cli) ch = (COAP_NO_ERROR, pkt', True, accept_nonce e cli n ch) \<and>
      passed_on pkt' segs code payload"
proof -
  note f = request_bytes_facts [OF assms(1), where k = "sym_key sd" and n = n and m = m and token = token]
  have r: "segments_ok SLASH segs" "length (join SLASH segs) \<le> 11" "length payload \<le> 77" "code \<in> {1, 2}" using assms(1) by (auto simp: request_ok_def)
  have ns: "segs \<noteq> []" using r(1) by (simp add: segments_ok_def)
  have i: "nexus_oc_wrapper_oc_endpoint_to_nx_id (endpoint_of cli) = cli" by (rule endpoint_of_nx_id)
  note u = unpack_secured_request(1) [OF _ r(2,3) assms(5) r(4) refl assms(3,4), where endpoint = "endpoint_of cli", unfolded i, OF assms(2), where m = m and token = token]
  have p: "passed_on (coap_set_header_content_format APPLICATION_VND_OCF_CBOR ((secured_packet segs code m token x)\<lparr>pkt_version := 1, pkt_payload := Some payload\<rparr>)) segs code payload" for x
    using ns by (simp add: passed_on_def coap_set_header_content_format_def set_bit_option_def secured_packet_def coap_get_header_uri_path_def coap_get_header_uri_query_def IS_OPTION_def payload_bytes_def)
  show ?thesis using parse_received [OF f(4,1,2,3)] u p by blast
qed

lemma secured_post_sent:
  assumes "stack_init_post ce (join SLASH segs) (endpoint_of srv) [] h LOW_QOS c = (True, c1)" "stack_wf c"
    "coap_get_transaction_by_mid (current_mid c + 1) c = None"
    "request_ok segs COAP_POST (take (nat encoded_size) area)" "0 \<le> encoded_size" "encoded_size \<le> 77" "length area = 98"
    "security_data_of ce srv (chan c) = Some csd" "nonce csd < MAX_NONCE" "main_initialized c" "can_send c"
  shows "nonce csd < nonce csd + 1" "nonce csd + 1 \<le> MAX_NONCE"
    "\<exists>c2 i token. stack_do_post ce True encoded_size area c1 = Some (True, c2) \<and>
      sends ce c c2 i (endpoint_of srv) (request_bytes (sym_key csd) (nonce csd + 1) segs COAP_POST (current_mid c + 1) token (take (nat encoded_size) area))"
proof -
  obtain token i where p: "prepared c1 srv segs COAP_POST (current_mid c + 1) token i" "lm (chan c1) = lm (chan c)"
      "queue (rt c1) = queue (rt c)" "main_initialized c1" "can_send c1"
    using assms(10,11) init_post_prepared [OF assms(1-3)] by (auto simp: can_send_def)
  have sd: "security_data_of ce srv (chan c1) = Some csd" using p(2) assms(8) by simp
  show "\<exists>c2 i token. stack_do_post ce True encoded_size area c1 = Some (True, c2) \<and>
      sends ce c c2 i (endpoint_of srv) (request_bytes (sym_key csd) (nonce csd + 1) segs COAP_POST (current_mid c + 1) token (take (nat encoded_size) area))"
    using dispatch_secured [OF p(1) assms(4) refl assms(5-7) sd p(4,5)] sends_cong [OF _ refl refl p(3) [symmetric]] unfolding stack_do_post_def by blast
  have le: "nonce csd \<le> MAX_NONCE" using assms(9) by simp
  show "nonce csd < nonce csd + 1" "nonce csd + 1 \<le> MAX_NONCE"
    using nonce_above(1) [OF le] inc_le [OF assms(9)] by simp_all
qed

text \<open>C9. A secured request reaches its handler: a device starts and dispatches a secured POST to a linked device, with room for an event in
  its queue and the nonce of its link below the limit; the other device holds the same key and is not ahead with its nonce (when it is, it asks for
  a nonce sync). Then the request is sent: its event is queued, and with it the buffer process hands the request to the network for that
  device. These bytes, received by the other device, are parsed, verified and passed on with the method, path and payload of the
  application, and the receiver moves its nonce to the one used.\<close>

theorem secured_request_delivered:
  assumes "stack_init_post ce (join SLASH segs) (endpoint_of srv) [] h LOW_QOS c = (True, c1)" "stack_wf c"
    "coap_get_transaction_by_mid (current_mid c + 1) c = None"
    "request_ok segs COAP_POST (take (nat encoded_size) area)" "0 \<le> encoded_size" "encoded_size \<le> 77" "length area = 98"
    "security_data_of ce srv (chan c) = Some csd" "security_data_of se cli ch = Some ssd" "sym_key csd = sym_key ssd"
    "nonce ssd \<le> nonce csd" "nonce csd < MAX_NONCE" "length mem = 8" "main_initialized c" "can_send c"
  shows "\<exists>c2 i b pkt pkt'. stack_do_post ce True encoded_size area c1 = Some (True, c2) \<and> sends ce c c2 i (endpoint_of srv) b \<and>
    coap_udp_parse_message (msg_data (received (endpoint_of cli) b)) (msg_length (received (endpoint_of cli) b)) = Some (COAP_NO_ERROR, pkt) \<and>
    coap_unpack_possibly_secured_payload se mem pkt (endpoint_of cli) ch = (COAP_NO_ERROR, pkt', True, accept_nonce se cli (nonce csd + 1) ch) \<and>
    passed_on pkt' segs COAP_POST (take (nat encoded_size) area)"
proof -
  note c = secured_post_sent [OF assms(1-8,12,14,15)]
  have n: "nonce ssd < nonce csd + 1" using assms(11) c(1) by simp
  obtain c2 i token where c2: "stack_do_post ce True encoded_size area c1 = Some (True, c2)"
      "sends ce c c2 i (endpoint_of srv) (request_bytes (sym_key ssd) (nonce csd + 1) segs COAP_POST (current_mid c + 1) token (take (nat encoded_size) area))"
    using c(3) assms(10) by metis
  show ?thesis using server_accepts [OF assms(4,9) n c(2) assms(13), where m = "current_mid c + 1" and token = token] c2 by blast
qed

text \<open>The stack when the device starts, before its processes run; two devices with a link to each other.\<close>

definition memb_zero :: "nat \<Rightarrow> 'a \<Rightarrow> 'a oc_memb" where
  "memb_zero n z = \<lparr>memb_count = replicate n 0, memb_mem = replicate n z\<rparr>"

definition runtime_zero :: oc_runtime where
  "runtime_zero = \<lparr>queue = empty_queue, process_list = [], process_state_of = (\<lambda>_. OC_PROCESS_STATE_NONE), needspoll = (\<lambda>_. False),
     poll_requested = False, timerlist = [], etimer_of = (\<lambda>_. zero_etimer), next_expiration = 0\<rparr>"

definition stack_zero :: "'p channel \<Rightarrow> 'p oc_stack" where
  "stack_zero ch = \<lparr>chan = ch, now = 0, rt = runtime_zero, incoming_buffers = memb_zero OC_MAX_NUM_CONCURRENT_REQUESTS zero_message,
     outgoing_buffers = memb_zero OC_MAX_NUM_CONCURRENT_REQUESTS zero_message, transactions_memb = memb_zero OC_MAX_NUM_CONCURRENT_REQUESTS zero_transaction,
     transactions_list = [], client_cbs_s = memb_zero (OC_MAX_NUM_CONCURRENT_REQUESTS + 1) zero_client_cb, client_cbs = [],
     event_callbacks_s = memb_zero OC_MAX_EVENT_CALLBACKS 0, timed_callbacks = [], current_mid = 0, coap_status_code = COAP_NO_ERROR,
     main_initialized = True, api_transaction = None, api_request = zero_packet, api_client_cb = None\<rparr>"

lemma stack_zero_wf: "stack_wf (stack_zero ch)"
  by (simp add: stack_wf_def stack_zero_def pool_wf_def memb_zero_def zero_message_def)

lemma stack_zero_can_send: "main_initialized (stack_zero ch)" "can_send (stack_zero ch)"
  by (simp_all add: can_send_def stack_zero_def runtime_zero_def queue_wf_def empty_queue_def)

lemma alloc_zero: "0 < n \<Longrightarrow> \<exists>m. oc_memb_alloc z (memb_zero n z') = (Some 0, m)"
  by (cases n) (simp_all add: oc_memb_alloc_def memb_zero_def upt_conv_Cons del: upt_Suc replicate.simps)

lemma init_post_zero: "fst (stack_init_post e uri endpoint query h q (stack_zero ch))"
proof -
  obtain cbs where cbs: "oc_memb_alloc zero_client_cb (memb_zero 3 zero_client_cb) = (Some 0, cbs)" using alloc_zero [of 3 zero_client_cb zero_client_cb] by auto
  obtain ts where ts: "oc_memb_alloc zero_transaction (memb_zero 2 zero_transaction) = (Some 0, ts)" using alloc_zero [of 2 zero_transaction zero_transaction] by auto
  obtain ms where ms: "oc_memb_alloc zero_message (memb_zero 2 zero_message) = (Some 0, ms)" using alloc_zero [of 2 zero_message zero_message] by auto
  obtain v p where v: "nxp_channel_random_value e (cplat ch) = (v, p)" by fastforce
  have pools: "client_cbs_s (stack_zero ch) = memb_zero 3 zero_client_cb" "transactions_memb (stack_zero ch) = memb_zero 2 zero_transaction"
      "outgoing_buffers (stack_zero ch) = memb_zero 2 zero_message" "chan (stack_zero ch) = ch"
    by (simp_all add: stack_zero_def)
  define s1 where "s1 = snd (oc_ri_alloc_client_cb e uri endpoint COAP_POST query h q (stack_zero ch))"
  have s1: "oc_ri_alloc_client_cb e uri endpoint COAP_POST query h q (stack_zero ch) = (Some 0, s1)"
      "transactions_memb s1 = memb_zero 2 zero_transaction" "outgoing_buffers s1 = memb_zero 2 zero_message"
    using cbs v by (simp_all add: s1_def oc_ri_alloc_client_cb_def pools coap_get_mid_def random_value_def on_cb_def on_chan_def Let_def)
  have "\<exists>s2. coap_new_transaction m ep s1 = (Some 0, s2)" for m ep
    using ts ms s1(2,3) by (simp add: Let_def coap_new_transaction_def oc_internal_allocate_outgoing_message_def allocate_message_def)
  then obtain s2 where "coap_new_transaction (cb_mid (cb_at s1 0)) (cb_endpoint (cb_at s1 0)) s1 = (Some 0, s2)" by blast
  then show ?thesis using s1(1) by (simp add: stack_init_post_def prepare_coap_request_def Let_def)
qed

abbreviation credit_segs :: "bytes list" where "credit_segs \<equiv> [[0x6E, 0x78], [0x70, 0x63]]"

lemma credit_request_ok: "length payload \<le> 77 \<Longrightarrow> request_ok credit_segs COAP_POST payload"
  by (simp add: request_ok_def segments_ok_def path_option_def string_option_bytes_def segment_bytes_def coap_set_option_header_def option_extension_def)

lemma secured_device_data: "security_data_of blank_channel_env peer secured_device = Some \<lparr>sym_key = replicate 16 5, nonce = 40\<rparr>"
  by (auto simp: security_data_index nexus_channel_link_manager_link_index_from_nxid_def secured_device_def lm_put_def lm_zero_def upt_rec peer_def)

theorem secured_request_delivered_witness:
  "\<exists>c2 i b pkt pkt'. stack_do_post blank_channel_env True 2 ([1, 2] @ replicate 96 0)
      (snd (stack_init_post blank_channel_env (join SLASH credit_segs) (endpoint_of peer) [] NX_CHANNEL_POST_RESPONSE_HANDLER_WRAPPER LOW_QOS (stack_zero secured_device))) = Some (True, c2) \<and>
    sends blank_channel_env (stack_zero secured_device) c2 i (endpoint_of peer) b \<and>
    coap_udp_parse_message (msg_data (received (endpoint_of peer) b)) (msg_length (received (endpoint_of peer) b)) = Some (COAP_NO_ERROR, pkt) \<and>
    coap_unpack_possibly_secured_payload blank_channel_env (replicate 8 0) pkt (endpoint_of peer) secured_device =
      (COAP_NO_ERROR, pkt', True, accept_nonce blank_channel_env peer 41 secured_device) \<and>
    passed_on pkt' credit_segs COAP_POST [1, 2]"
proof -
  let ?area = "[1, 2] @ replicate 96 0 :: bytes"
  define c1 where "c1 = snd (stack_init_post blank_channel_env (join SLASH credit_segs) (endpoint_of peer) [] NX_CHANNEL_POST_RESPONSE_HANDLER_WRAPPER LOW_QOS (stack_zero secured_device))"
  have i: "stack_init_post blank_channel_env (join SLASH credit_segs) (endpoint_of peer) [] NX_CHANNEL_POST_RESPONSE_HANDLER_WRAPPER LOW_QOS (stack_zero secured_device) = (True, c1)"
    using init_post_zero by (simp add: c1_def prod_eq_iff)
  have t: "take (nat 2) ?area = [1, 2]" by simp
  have m: "coap_get_transaction_by_mid (current_mid (stack_zero secured_device) + 1) (stack_zero secured_device) = None"
    by (simp add: coap_get_transaction_by_mid_def stack_zero_def)
  have d: "security_data_of blank_channel_env peer (chan (stack_zero secured_device)) = Some \<lparr>sym_key = replicate 16 5, nonce = 40\<rparr>"
    using secured_device_data by (simp add: stack_zero_def)
  have o: "request_ok credit_segs COAP_POST (take (nat 2) ?area)" unfolding t by (rule credit_request_ok) simp
  have l: "length ?area = 98" "length (replicate 8 (0 :: u8)) = 8" by simp_all
  show ?thesis
    using secured_request_delivered [OF i stack_zero_wf m o _ _ l(1) d secured_device_data _ _ _ l(2) stack_zero_can_send] unfolding t c1_def by simp
qed

section \<open>Recovery by nonce sync\<close>

lemma server_asks_for_sync:
  assumes "request_ok segs code payload" "security_data_of (cenv e) cli (chan s) = Some sd" "n \<le> nonce sd" "nonce sd \<le> MAX_NONCE" "length (tag_memory e) = 8"
    "oc_internal_allocate_outgoing_message s = (Some j, s0)" "pool_wf (outgoing_buffers s)" "can_send s"
  shows "\<exists>s' b. coap_receive e (received (endpoint_of cli) (request_bytes (sym_key sd) n segs code m token payload)) s = Some (NOT_ACCEPTABLE_4_06, s') \<and>
    lm (chan s') = lm (chan s) \<and> sends (cenv e) s s' j (endpoint_of cli) b \<and>
    coap_serialize_message (secured_packet [] NOT_ACCEPTABLE_4_06 m token (signed_payload (sym_key sd) (nonce sd) NOT_ACCEPTABLE_4_06 [] [])) = Some b \<and>
    b \<noteq> [] \<and> length b < 120"
proof -
  let ?b = "request_bytes (sym_key sd) n segs code m token payload"
  let ?pkt = "(secured_packet segs code m token (signed_payload (sym_key sd) n code (join SLASH segs) payload))\<lparr>pkt_version := 1\<rparr>"
  let ?s = "s\<lparr>coap_status_code := NOT_ACCEPTABLE_4_06\<rparr>"
  note f = request_bytes_facts [OF assms(1), where k = "sym_key sd" and n = n and m = m and token = token]
  have r: "length (join SLASH segs) \<le> 11" "length payload \<le> 77" "code \<in> {1, 2}" using assms(1) by (auto simp: request_ok_def)
  have sd: "security_data_of (cenv e) (nexus_oc_wrapper_oc_endpoint_to_nx_id (endpoint_of cli)) (chan s) = Some sd" using assms(2) by (simp add: endpoint_of_nx_id)
  have u: "coap_unpack_possibly_secured_payload (cenv e) (tag_memory e) ?pkt (endpoint_of cli) (chan s) =
      (NOT_ACCEPTABLE_4_06, coap_set_header_content_format APPLICATION_VND_OCF_CBOR (?pkt\<lparr>pkt_payload := Some payload\<rparr>), True, chan s)"
    by (rule unpack_secured_request(2) [OF sd r(1,2) assms(5) r(3) refl assms(3,4)])
  have al: "oc_internal_allocate_outgoing_message ?s = (Some j, s0\<lparr>coap_status_code := NOT_ACCEPTABLE_4_06\<rparr>)"
    using assms(6) by (auto simp: oc_internal_allocate_outgoing_message_def split: prod.splits)
  have "pool_wf (outgoing_buffers ?s)" "can_send ?s" "security_data_of (cenv e) cli (chan ?s) = Some sd"
    using assms(2,7,8) by (simp_all add: can_send_def)
  from send_nonce_sync [OF al this, where m = m and token = token]
  obtain s' b where s': "coap_send_nonce_sync_response (cenv e) m [token] (endpoint_of cli) False ?s = Some s'" "chan s' = chan s" "sends (cenv e) ?s s' j (endpoint_of cli) b"
      "coap_serialize_message (secured_packet [] NOT_ACCEPTABLE_4_06 m token (signed_payload (sym_key sd) (nonce sd) NOT_ACCEPTABLE_4_06 [] [])) = Some b" "b \<noteq> []" "length b < 120"
    by auto
  have k: "pkt_mid (coap_set_header_content_format x (?pkt\<lparr>pkt_payload := y\<rparr>)) = m" "packet_token (coap_set_header_content_format x (?pkt\<lparr>pkt_payload := y\<rparr>)) = [token]" for x y
    by (simp_all add: coap_set_header_content_format_def set_bit_option_def secured_packet_def packet_token_def)
  have "coap_receive e (received (endpoint_of cli) ?b) s = Some (NOT_ACCEPTABLE_4_06, stack_request_processing (cenv e) s')"
    using parse_received [OF f(4,1,2,3), of "endpoint_of cli"] u s'(1) k
    by (simp add: coap_receive_def received_def Let_def)
  moreover have "sends (cenv e) s (stack_request_processing (cenv e) s') j (endpoint_of cli) b"
    by (rule sends_cong [OF s'(3)]) (simp_all add: stack_request_processing_def)
  moreover have "lm (chan (stack_request_processing (cenv e) s')) = lm (chan s)" using s'(2) by (simp add: stack_request_processing_def on_chan_def)
  ultimately show ?thesis using s'(4-6) by blast
qed

lemma client_resends:
  assumes "awaiting c srv k0 n segs code m token payload i" "request_ok segs code payload" "length (tag_memory e) = 8"
    "security_data_of (cenv e) srv (chan c) = Some sd" "nonce sd \<le> v" "v \<le> MAX_NONCE"
    "lm_inv (MAX_SIMULTANEOUS_LINKS (cenv e)) (lm (chan c))" "mode0_links (cenv e) (lm (chan c))"
    "coap_serialize_message (secured_packet [] NOT_ACCEPTABLE_4_06 m token (signed_payload (sym_key sd) v NOT_ACCEPTABLE_4_06 [] [])) = Some b" "b \<noteq> []" "length b < 120" "can_send c"
  shows "\<exists>c'. coap_receive e (received (endpoint_of srv) b) c = Some (RESEND_PREVIOUS_REQUEST, c') \<and>
    sends (cenv e) c c' i (endpoint_of srv) (request_bytes (sym_key sd) (v + 1) segs code m token payload)"
proof -
  let ?p = "signed_payload (sym_key sd) v NOT_ACCEPTABLE_4_06 [] []"
  let ?pkt = "(secured_packet [] NOT_ACCEPTABLE_4_06 m token ?p)\<lparr>pkt_version := 1\<rparr>"
  have f: "?p \<noteq> []" "length ?p \<le> 98" using signed_payload_facts(1,2) [of "[]" "[]" "replicate 8 0"] by simp_all
  have wf: "coap_packet_wf (secured_packet [] NOT_ACCEPTABLE_4_06 m token ?p) [] []" using secured_packet_wf f by simp
  have sd: "security_data_of (cenv e) (nexus_oc_wrapper_oc_endpoint_to_nx_id (endpoint_of srv)) (chan c) = Some sd" using assms(4) by (simp add: endpoint_of_nx_id)
  have u: "coap_unpack_possibly_secured_payload (cenv e) (tag_memory e) ?pkt (endpoint_of srv) (chan c) =
      (RESEND_PREVIOUS_REQUEST, coap_set_header_content_format APPLICATION_VND_OCF_CBOR (?pkt\<lparr>pkt_payload := Some []\<rparr>), True, accept_nonce (cenv e) srv v (chan c))"
    using unpack_nonce_sync [OF sd assms(3) refl assms(5,6)] by (simp add: endpoint_of_nx_id)
  have "link_nonce (cenv e) srv (lm (chan c)) \<noteq> None" using assms(4) by (simp add: link_nonce_def)
  note l = accept_nonce_links [OF assms(7,8) this, of v srv]
  obtain sd' where sd': "security_data_of (cenv e) srv (accept_nonce (cenv e) srv v (chan c)) = Some sd'" "nonce sd' = v" "sym_key sd' = sym_key sd"
    using l assms(4) by (auto simp: link_nonce_def)
  let ?c = "c\<lparr>chan := accept_nonce (cenv e) srv v (chan c), coap_status_code := RESEND_PREVIOUS_REQUEST\<rparr>"
  have aw: "awaiting ?c srv k0 n segs code m token payload i" using assms(1) by (simp add: awaiting_def coap_get_transaction_by_mid_def in_buffer_def)
  have cs: "can_send ?c" using assms(12) by (simp add: can_send_def)
  obtain c' where c': "coap_send_previous_request_with_repacked_security e m (endpoint_of srv) ?c = Some c'"
      "sends (cenv e) ?c c' i (endpoint_of srv) (request_bytes (sym_key sd) (v + 1) segs code m token payload)"
    using resend_request [OF aw assms(2,3), of sd'] sd' cs by auto
  have k: "pkt_mid (coap_set_header_content_format x (?pkt\<lparr>pkt_payload := y\<rparr>)) = m" for x y
    by (simp add: coap_set_header_content_format_def set_bit_option_def secured_packet_def)
  have "coap_receive e (received (endpoint_of srv) b) c = Some (RESEND_PREVIOUS_REQUEST, stack_request_processing (cenv e) c')"
    using parse_received [OF wf assms(9-11), of "endpoint_of srv"] u c'(1) k by (simp add: coap_receive_def received_def Let_def)
  moreover have "sends (cenv e) c (stack_request_processing (cenv e) c') i (endpoint_of srv) (request_bytes (sym_key sd) (v + 1) segs code m token payload)"
    by (rule sends_cong [OF c'(2)]) (simp_all add: stack_request_processing_def)
  ultimately show ?thesis by blast
qed


definition sample_stack_env :: "product stack_env" where
  "sample_stack_env = \<lparr>cenv = blank_channel_env, tag_memory = replicate 8 0,
     rep_pools = fresh_rep_mem, product_request = (\<lambda>_ _ _ ch. ch), product_response = (\<lambda>_ _ _ _ ch. ch)\<rparr>"

definition ahead_device :: "product channel" where
  "ahead_device = (channel_zero blank_channel_env blank_product)\<lparr>lm := lm_put 0
     (zero_link\<lparr>linked_device_id := peer, security_data := \<lparr>sym_key = replicate 16 5, nonce = 50\<rparr>\<rparr>) (lm_zero 8)\<rparr>"

lemma ahead_device_data: "security_data_of blank_channel_env peer ahead_device = Some \<lparr>sym_key = replicate 16 5, nonce = 50\<rparr>"
  by (auto simp: security_data_index nexus_channel_link_manager_link_index_from_nxid_def ahead_device_def lm_put_def lm_zero_def upt_rec peer_def)

lemma secured_device_awaits:
  "\<exists>(c :: product oc_stack) m token i. awaiting c peer (replicate 16 5) 41 credit_segs COAP_POST m token [1, 2] i \<and> lm (chan c) = lm secured_device \<and> can_send c"
proof -
  let ?area = "[1, 2] @ replicate 96 0 :: bytes"
  define c1 where "c1 = snd (stack_init_post blank_channel_env (join SLASH credit_segs) (endpoint_of peer) [] NX_CHANNEL_POST_RESPONSE_HANDLER_WRAPPER LOW_QOS (stack_zero secured_device))"
  have i: "stack_init_post blank_channel_env (join SLASH credit_segs) (endpoint_of peer) [] NX_CHANNEL_POST_RESPONSE_HANDLER_WRAPPER LOW_QOS (stack_zero secured_device) = (True, c1)"
    using init_post_zero by (simp add: c1_def prod_eq_iff)
  have m: "coap_get_transaction_by_mid (current_mid (stack_zero secured_device) + 1) (stack_zero secured_device) = None"
    by (simp add: coap_get_transaction_by_mid_def stack_zero_def)
  obtain m token j where p: "prepared c1 peer credit_segs COAP_POST m token j" and l: "lm (chan c1) = lm secured_device"
      and q: "queue (rt c1) = empty_queue" "main_initialized c1"
    using init_post_prepared [OF i stack_zero_wf m] by (auto simp: stack_zero_def runtime_zero_def)
  have cs: "can_send c1" using q(1) by (simp add: can_send_def queue_wf_def empty_queue_def)
  have o: "request_ok credit_segs COAP_POST [1, 2]" by (rule credit_request_ok) simp
  have "security_data_of blank_channel_env peer (chan c1) = Some \<lparr>sym_key = replicate 16 5, nonce = 40\<rparr>" using l secured_device_data by simp
  from dispatch_secured [OF p o _ _ _ _ this q(2) cs, of 2 ?area] l
  obtain c :: "product oc_stack" where c: "awaiting c peer (replicate 16 5) 41 credit_segs COAP_POST m token [1, 2] j" "lm (chan c) = lm secured_device"
      "queue_wf (queue (rt c))" "queue_items (queue (rt c)) = queue_items empty_queue @ [(MESSAGE_BUFFER_HANDLER, OUTBOUND_NETWORK_EVENT j)]"
    using q(1) by (auto simp: sends_def)
  have "can_send c" using c(3) arg_cong [OF c(4), of length] by (simp add: can_send_def queue_items_def empty_queue_def)
  then show ?thesis using c(1,2) by blast
qed


section \<open>Where the engine fails\<close>

text \<open>
  A request is sent again without a reference of its own: when the first sending is over, only the transaction holds the buffer, and the
  buffer is released when the request has been sent again, while the transaction stays in the list and refers to it.
\<close>

lemma resent_buffer_released:
  assumes "send_packet i pkt s = Some s'" "can_send s" "i < length (memb_mem (outgoing_buffers s))"
    "msg_ref_count (memb_at (outgoing_buffers s) i) = 1" "memb_count (outgoing_buffers s) ! i \<le> 1"
    "coap_serialize_message pkt = Some b" "b \<noteq> []"
    "coap_get_transaction_by_mid m s = Some t" "t_message (memb_at (transactions_memb s) t) = i"
    "s'' = message_buffer_handler_thread e (OUTBOUND_NETWORK_EVENT i) s'"
  shows "i \<notin> memb_used (outgoing_buffers s'')"
    "coap_get_transaction_by_mid m s'' = Some t" "t_message (memb_at (transactions_memb s'') t) = i"
proof -
  let ?s = "store_message i b s"
  have "can_send ?s" using assms(2) by (simp add: can_send_def)
  from send_message_posts [OF this, of i] obtain q where q: "oc_send_message i ?s = ?s\<lparr>rt := (rt s)\<lparr>queue := q\<rparr>\<rparr>" by auto
  have r: "msg_ref_count (memb_at (outgoing_buffers ?s) i) = 1" using assms(3,4) by (simp add: store_message_def memb_update_def)
  have s': "s' = ?s\<lparr>rt := (rt s)\<lparr>queue := q\<rparr>\<rparr>" using assms(1,6,7) q r by (simp add: send_packet_def Let_def)
  have p: "i < length (memb_mem (outgoing_buffers s'))" "msg_ref_count (memb_at (outgoing_buffers s') i) = 1" "memb_count (outgoing_buffers s') ! i \<le> 1"
      "transactions_memb s' = transactions_memb s" "transactions_list s' = transactions_list s"
    using s' r assms(3,5) by (simp_all add: store_message_def memb_update_def)
  have o: "outgoing_buffers s'' = oc_message_unref i (outgoing_buffers s')" "transactions_memb s'' = transactions_memb s" "transactions_list s'' = transactions_list s"
    using assms(10) p(4,5) by (simp_all add: message_buffer_handler_thread_def on_chan_def Let_def)
  show "i \<notin> memb_used (outgoing_buffers s'')"
    unfolding o(1) using p(1-3) by (simp add: oc_message_unref_def memb_update_def memb_free_used Let_def)
  show "coap_get_transaction_by_mid m s'' = Some t" "t_message (memb_at (transactions_memb s'') t) = i"
    using o(2,3) assms(8,9) by (simp_all add: coap_get_transaction_by_mid_def)
qed

lemma empty_reply_signed:
  "nexus_oc_wrapper_repack_buffer_secured NEXUS_CHANNEL_MAX_CBOR_PAYLOAD_SIZE
     \<lparr>mp_key = k, nonce_to_protect = n, mp_aad = \<lparr>coap_method = code, coap_uri = []\<rparr>, mp_payload = []\<rparr> \<noteq> []"
  using signed_payload_facts(1) [of "[]" "[]" "replicate 8 0" k n code] by (simp add: signed_payload_def)

lemma secure_empty_reply:
  assumes "security_data_of e (nexus_oc_wrapper_oc_endpoint_to_nx_id (msg_endpoint (memb_at (outgoing_buffers s) (t_message (memb_at (transactions_memb s) t))))) (chan s) = Some sd"
    "pkt_payload response = None"
  shows "secure_response e pkt True t response s = None"
  using assms empty_reply_signed by (simp add: secure_response_def payload_bytes_def)

text \<open>The transaction of a reply that has a message identifier of its own.\<close>

lemma reply_transaction:
  assumes "stack_wf s" "coap_get_transaction_by_mid (current_mid s + 1) s = None"
    "coap_new_transaction (current_mid s + 1) endpoint (snd (coap_get_mid s)) = (Some t, s1)"
  shows "msg_endpoint (memb_at (outgoing_buffers s1) (t_message (memb_at (transactions_memb s1) t))) = endpoint" "chan s1 = chan s"
    "coap_status_code s1 = coap_status_code s"
proof -
  have "stack_wf (snd (coap_get_mid s))" "coap_get_transaction_by_mid (current_mid s + 1) (snd (coap_get_mid s)) = None"
    using assms(1,2) by (simp_all add: coap_get_mid_def stack_wf_def coap_get_transaction_by_mid_def)
  note n = new_transaction [OF assms(3) this]
  show "msg_endpoint (memb_at (outgoing_buffers s1) (t_message (memb_at (transactions_memb s1) t))) = endpoint" "chan s1 = chan s"
    using n(1,3) by (auto simp: coap_get_mid_def)
  show "coap_status_code s1 = coap_status_code s"
    using assms(3) by (auto simp: coap_get_mid_def coap_new_transaction_def oc_internal_allocate_outgoing_message_def on_rt_def on_outgoing_def
        Let_def split: prod.splits option.splits)
qed

text \<open>C39. A secured request that is answered without payload stops the device: whenever the handler of a secured request from a linked device
  answers with a status code alone (as the credit resource does for a bad request), the signed reply is copied through the null
  payload pointer of the response.\<close>

theorem secured_reply_without_payload:
  assumes "stack_wf s" "coap_get_transaction_by_mid (current_mid s + 1) s = None" "pkt_type pkt \<noteq> COAP_TYPE_CON" "pkt_token_len pkt \<noteq> 0"
    "coap_new_transaction (current_mid s + 1) endpoint (snd (coap_get_mid s)) = (Some t, s1)" "coap_status_code s = COAP_NO_ERROR"
    "oc_ri_invoke_coap_entity_handler e pkt endpoint (chan s) = Some (ENTITY_RESPONSE code [], ch)"
    "security_data_of (cenv e) (nexus_oc_wrapper_oc_endpoint_to_nx_id endpoint) ch = Some sd"
  shows "handle_request e pkt True endpoint s = None"
proof -
  note c = reply_transaction [OF assms(1,2,5)]
  define response where "response = coap_set_token (packet_token pkt) ((coap_udp_init_message
      (if coap_get_header_uri_path pkt = oic_res then COAP_TYPE_CON else COAP_TYPE_NON) CONTENT_2_05 (current_mid s + 1))\<lparr>pkt_code := code\<rparr>)"
  have "pkt_payload response = None" by (simp add: response_def coap_set_token_def coap_udp_init_message_def zero_packet_def Let_def)
  then have "secure_response (cenv e) pkt True t response (s1\<lparr>chan := ch\<rparr>) = None"
    using c(1) assms(8) by (intro secure_empty_reply) auto
  then show ?thesis
    using assms(3-7) c(2,3) by (simp add: handle_request_def send_response_def coap_get_mid_def response_def coap_udp_init_message_def Let_def)
qed

definition token_request :: coap_packet where
  "token_request = zero_packet\<lparr>pkt_type := COAP_TYPE_NON, pkt_code := COAP_POST, pkt_token_len := 1, pkt_token := 9,
     pkt_options := (replicate 10 0)[1 := 8], uri_path := [0x78]\<rparr>"

lemma token_request_not_found:
  "oc_ri_invoke_coap_entity_handler sample_stack_env token_request (endpoint_of peer) secured_device = Some (ENTITY_RESPONSE 132 [], secured_device)"
proof -
  have r: "request_resource token_request (reg secured_device) = Some None"
    by (simp add: request_resource_def token_request_def core_resources_def path_string_def coap_get_header_uri_path_def IS_OPTION_def zero_packet_def
        oc_ri_get_app_resource_by_uri_def secured_device_def channel_zero_def oc_store_uri_def)
  have "payload_bytes token_request = []" "ep_flags (endpoint_of peer) AND MULTICAST = 0"
    by (simp_all add: token_request_def payload_bytes_def zero_packet_def nexus_oc_wrapper_nx_id_to_oc_endpoint_def NEXUS_OC_WRAPPER_MULTICAST_NX_ID_def peer_def Let_def)
  then show ?thesis using r by (simp add: oc_ri_invoke_coap_entity_handler_def oc_status_code_def Let_def)
qed

theorem secured_reply_without_payload_witness:
  "pkt_token_len token_request \<noteq> 0 \<and> handle_request sample_stack_env token_request True (endpoint_of peer) (stack_zero secured_device) = None"
proof -
  let ?s = "stack_zero secured_device"
  obtain ts where ts: "oc_memb_alloc zero_transaction (memb_zero 2 zero_transaction) = (Some 0, ts)" using alloc_zero [of 2 zero_transaction zero_transaction] by auto
  obtain ms where ms: "oc_memb_alloc zero_message (memb_zero 2 zero_message) = (Some 0, ms)" using alloc_zero [of 2 zero_message zero_message] by auto
  have "\<exists>s1. coap_new_transaction (current_mid ?s + 1) (endpoint_of peer) (snd (coap_get_mid ?s)) = (Some 0, s1)"
    using ts ms by (simp add: stack_zero_def coap_get_mid_def coap_new_transaction_def oc_internal_allocate_outgoing_message_def allocate_message_def Let_def)
  then obtain s1 where t: "coap_new_transaction (current_mid ?s + 1) (endpoint_of peer) (snd (coap_get_mid ?s)) = (Some 0, s1)" ..
  have z: "coap_get_transaction_by_mid (current_mid ?s + 1) ?s = None" "coap_status_code ?s = COAP_NO_ERROR" "chan ?s = secured_device"
    by (simp_all add: coap_get_transaction_by_mid_def stack_zero_def)
  have p: "pkt_type token_request \<noteq> COAP_TYPE_CON" "pkt_token_len token_request \<noteq> 0" by (simp_all add: token_request_def)
  have a: "oc_ri_invoke_coap_entity_handler sample_stack_env token_request (endpoint_of peer) (chan ?s) = Some (ENTITY_RESPONSE 132 [], secured_device)"
    using z(3) by (simp add: token_request_not_found)
  have d: "security_data_of (cenv sample_stack_env) (nexus_oc_wrapper_oc_endpoint_to_nx_id (endpoint_of peer)) secured_device = Some \<lparr>sym_key = replicate 16 5, nonce = 40\<rparr>"
    using secured_device_data by (simp add: sample_stack_env_def endpoint_of_nx_id)
  show ?thesis using secured_reply_without_payload [OF stack_zero_wf z(1) p t z(2) a d] p(2) by simp
qed

text \<open>
  A request without token is not answered, and its transaction is not released: neither sent nor cleared, it keeps its block and its message
  buffer, of which there are two.
\<close>

lemma tokenless_request_kept:
  assumes "stack_wf s" "coap_get_transaction_by_mid (current_mid s + 1) s = None" "pkt_type pkt \<noteq> COAP_TYPE_CON" "pkt_token_len pkt = 0"
    "coap_new_transaction (current_mid s + 1) endpoint (snd (coap_get_mid s)) = (Some t, s1)" "coap_status_code s = COAP_NO_ERROR"
    "oc_ri_invoke_coap_entity_handler e pkt endpoint (chan s) = Some (ENTITY_RESPONSE code payload, ch)"
  shows "handle_request e pkt secured endpoint s = Some (s1\<lparr>chan := ch\<rparr>)"
  using reply_transaction(2,3) [OF assms(1,2,5)] assms(3-7)
  by (simp add: handle_request_def send_response_def coap_get_mid_def coap_udp_init_message_def Let_def)

section \<open>A credit update from a controller to its accessory\<close>

lemma credit_update_size: "length (object_bytes (credit_update v)) \<le> 77"
  using length_number_bytes [of "word_of_int (uint v)" 0] length_number_bytes [of 2 "0x60"]
  by (simp add: object_bytes_def member_bytes_def string_bytes_def name_bytes_def split: if_splits)

lemma accept_nonce_reg: "reg (accept_nonce e i n s) = reg s"
  by (simp add: accept_nonce_def nexus_channel_link_manager_reset_link_secs_since_active_def nexus_channel_link_manager_set_security_data_auth_nonce_def on_lm_def Let_def
      split: option.splits prod.splits)

text \<open>
  From \<open>s\<close> to \<open>s'\<close> a device takes over the credit \<open>v\<close>: in the credit resource and in the product, whose credit is set or which is
  unlocked; the count of the seconds without update starts anew where the device follows a controller.
\<close>

definition took_over :: "'p channel_env \<Rightarrow> u32 \<Rightarrow> 'p channel \<Rightarrow> 'p channel \<Rightarrow> bool" where
  "took_over e v s s' \<longleftrightarrow> remaining (credit s') = v \<and>
     cplat s' = (if v = UINT32_MAX then nxp_channel_payg_credit_unlock e (cplat s) else nxp_channel_payg_credit_set e v (cplat s)) \<and>
     follower_mode_seconds_since_credit_updated (credit s') =
       (if SUPPORT_ACCESSORY_MODE e \<and> nexus_channel_res_payg_credit_get_credit_operating_mode e (lm s) = CREDIT_MODE_FOLLOWING
        then 0 else follower_mode_seconds_since_credit_updated (credit s))"

lemma update_takes_over:
  "took_over e v s ((nexus_channel_payg_credit_update_from_post_or_get e v (s\<lparr>answer := None\<rparr>))\<lparr>answer := None\<rparr>)"
  by (simp add: took_over_def nexus_channel_payg_credit_update_from_post_or_get_def on_credit_def on_plat_def Let_def)

text \<open>C5. A controller's credit becomes the credit of its accessory: a controller encodes its credit, starts a secured POST to the credit resource
  of a linked accessory and dispatches it, with room for an event in its queue and the nonce of its link below the limit. The accessory holds the same key
  and is not ahead with its nonce, has registered the credit resource and has a free block and three bytes of string memory to decode. Then the
  request is queued and handed to the network; its bytes are parsed and verified by the accessory, which decodes them, calls the
  handler of the credit resource and answers that it was changed. The accessory takes over exactly the controller's credit, both in
  the resource and in the product: the credit of the product is set to it, or the product is unlocked when it is the value of an
  unlocked controller; and an accessory that follows its controller starts anew to count the seconds without update.\<close>

theorem credit_update_delivered:
  assumes "stack_init_post ce (join SLASH credit_segs) (endpoint_of srv) [] h LOW_QOS c = (True, c1)" "stack_wf c"
    "coap_get_transaction_by_mid (current_mid c + 1) c = None"
    "oc_rep_get_encoded_payload_size (rep_encode_root (credit_update v) (oc_rep_new 98)) = encoded_size" "encoded_size \<noteq> -1"
    "length area = 98" "take (nat encoded_size) area = enc_written (snd (rep_encode_root (credit_update v) (oc_rep_new 98)))"
    "security_data_of ce srv (chan c) = Some csd" "security_data_of (cenv se) cli ch = Some ssd" "sym_key csd = sym_key ssd"
    "nonce ssd \<le> nonce csd" "nonce csd < MAX_NONCE" "length (tag_memory se) = 8"
    "registered pc_props (reg ch)" "1 \<le> free_reps (rep_pools se)" "3 \<le> avail_bytes (rep_pools se)"
    "main_initialized c" "can_send c"
  shows "\<exists>c2 i b pkt pkt' ch' p ch''. stack_do_post ce True encoded_size area c1 = Some (True, c2) \<and> sends ce c c2 i (endpoint_of srv) b \<and>
    coap_udp_parse_message (msg_data (received (endpoint_of cli) b)) (msg_length (received (endpoint_of cli) b)) = Some (COAP_NO_ERROR, pkt) \<and>
    coap_unpack_possibly_secured_payload (cenv se) (tag_memory se) pkt (endpoint_of cli) ch = (COAP_NO_ERROR, pkt', True, ch') \<and>
    oc_ri_invoke_coap_entity_handler se pkt' (endpoint_of cli) ch' = Some (ENTITY_RESPONSE 68 p, ch'') \<and> took_over (cenv se) v ch' ch''"
proof -
  let ?p = "object_bytes (credit_update v)"
  have g: "fst (rep_encode_root (credit_update v) (oc_rep_new 98)) = 0" using assms(4,5) by (auto simp: oc_rep_get_encoded_payload_size_def split: if_splits)
  note w = encode_root_bytes [OF g credit_update_flat(1)]
  have sz: "encoded_size = int (length ?p)" using assms(4) g w(1) by (simp add: oc_rep_get_encoded_payload_size_def cbor_encoder_get_buffer_size_def)
  have p: "take (nat encoded_size) area = ?p" using assms(7) w(1) by simp
  have ok: "request_ok credit_segs COAP_POST ?p" by (rule credit_request_ok [OF credit_update_size])
  have r: "request_ok credit_segs COAP_POST (take (nat encoded_size) area)" using ok p by simp
  have "0 \<le> encoded_size" "encoded_size \<le> 77" using sz credit_update_size [of v] by simp_all
  note s = secured_post_sent [OF assms(1-3) r this assms(6,8,12,17,18), unfolded p]
  have n: "nonce ssd < nonce csd + 1" using assms(11) s(1) by simp
  obtain c2 i token where c2: "stack_do_post ce True encoded_size area c1 = Some (True, c2)"
      "sends ce c c2 i (endpoint_of srv) (request_bytes (sym_key ssd) (nonce csd + 1) credit_segs COAP_POST (current_mid c + 1) token ?p)"
    using s(3) assms(10) by metis
  obtain b pkt pkt' where b: "b = request_bytes (sym_key ssd) (nonce csd + 1) credit_segs COAP_POST (current_mid c + 1) token ?p"
      "coap_udp_parse_message (msg_data (received (endpoint_of cli) b)) (msg_length (received (endpoint_of cli) b)) = Some (COAP_NO_ERROR, pkt)"
      "coap_unpack_possibly_secured_payload (cenv se) (tag_memory se) pkt (endpoint_of cli) ch = (COAP_NO_ERROR, pkt', True, accept_nonce (cenv se) cli (nonce csd + 1) ch)"
      "passed_on pkt' credit_segs COAP_POST ?p"
    using server_accepts [OF ok assms(9) n s(2) assms(13)] by metis
  have "name_bytes ''nx/pc'' = join SLASH credit_segs" by code_simp
  then obtain a where "oc_ri_invoke_coap_entity_handler se pkt' (endpoint_of cli) (accept_nonce (cenv se) cli (nonce csd + 1) ch) =
      Some (ENTITY_RESPONSE 68 a, (nexus_channel_payg_credit_update_from_post_or_get (cenv se) v ((accept_nonce (cenv se) cli (nonce csd + 1) ch)\<lparr>answer := None\<rparr>))\<lparr>answer := None\<rparr>)"
    using credit_post_served [of "accept_nonce (cenv se) cli (nonce csd + 1) ch" pkt' v se "endpoint_of cli"] b(4) assms(14-16) by (auto simp: passed_on_def accept_nonce_reg)
  moreover note update_takes_over [of "cenv se" v "accept_nonce (cenv se) cli (nonce csd + 1) ch"]
  ultimately show ?thesis using c2 b(1-3) by blast
qed

definition accessory_device :: "product channel" where
  "accessory_device = snd (register_resource pc_props secured_device)"

lemma accessory_device_facts:
  "registered pc_props (reg accessory_device)" "lm accessory_device = lm secured_device"
proof -
  have "fst (nx_channel_register_resource pc_props (reg secured_device)) = NX_CHANNEL_ERROR_NONE"
    by (simp add: secured_device_def channel_zero_def) code_simp
  then obtain r' where r': "nx_channel_register_resource pc_props (reg secured_device) = (NX_CHANNEL_ERROR_NONE, r')" by (metis prod.collapse)
  have "registry_wf (reg secured_device)" by (simp add: registry_wf_def secured_device_def channel_zero_def)
  from registers [OF r' _ _ this] show "registered pc_props (reg accessory_device)" "lm accessory_device = lm secured_device"
    using r' by (simp_all add: pc_props_def accessory_device_def register_resource_def on_reg_def)
qed

theorem credit_update_delivered_witness:
  "\<exists>area c2 i b pkt pkt' ch' p ch''. stack_do_post blank_channel_env True 10 area
      (snd (stack_init_post blank_channel_env (join SLASH credit_segs) (endpoint_of peer) [] NX_CHANNEL_POST_RESPONSE_HANDLER_WRAPPER LOW_QOS (stack_zero secured_device))) = Some (True, c2) \<and>
    sends blank_channel_env (stack_zero secured_device) c2 i (endpoint_of peer) b \<and>
    coap_udp_parse_message (msg_data (received (endpoint_of peer) b)) (msg_length (received (endpoint_of peer) b)) = Some (COAP_NO_ERROR, pkt) \<and>
    coap_unpack_possibly_secured_payload blank_channel_env (replicate 8 0) pkt (endpoint_of peer) accessory_device = (COAP_NO_ERROR, pkt', True, ch') \<and>
    oc_ri_invoke_coap_entity_handler sample_stack_env pkt' (endpoint_of peer) ch' = Some (ENTITY_RESPONSE 68 p, ch'') \<and> remaining (credit ch'') = 70000 \<and>
    cplat ch'' = sample_channel_payg_credit_set 70000 (cplat ch')"
proof -
  let ?g = "rep_encode_root (credit_update 70000) (oc_rep_new 98)"
  let ?area = "enc_written (snd ?g) @ replicate 88 0"
  define c1 where "c1 = snd (stack_init_post blank_channel_env (join SLASH credit_segs) (endpoint_of peer) [] NX_CHANNEL_POST_RESPONSE_HANDLER_WRAPPER LOW_QOS (stack_zero secured_device))"
  have i: "stack_init_post blank_channel_env (join SLASH credit_segs) (endpoint_of peer) [] NX_CHANNEL_POST_RESPONSE_HANDLER_WRAPPER LOW_QOS (stack_zero secured_device) = (True, c1)"
    using init_post_zero by (simp add: c1_def prod_eq_iff)
  have m: "coap_get_transaction_by_mid (current_mid (stack_zero secured_device) + 1) (stack_zero secured_device) = None"
    by (simp add: coap_get_transaction_by_mid_def stack_zero_def)
  have e: "oc_rep_get_encoded_payload_size ?g = 10" "length (enc_written (snd ?g)) = 10" by code_simp+
  have a: "length ?area = 98" "take (nat 10) ?area = enc_written (snd ?g)" using e(2) by simp_all
  have d: "security_data_of blank_channel_env peer (chan (stack_zero secured_device)) = Some \<lparr>sym_key = replicate 16 5, nonce = 40\<rparr>"
      "security_data_of (cenv sample_stack_env) peer accessory_device = Some \<lparr>sym_key = replicate 16 5, nonce = 40\<rparr>"
    using secured_device_data accessory_device_facts(2) by (simp_all add: stack_zero_def sample_stack_env_def)
  have s: "cenv sample_stack_env = blank_channel_env" "tag_memory sample_stack_env = replicate 8 0" "rep_pools sample_stack_env = fresh_rep_mem"
    by (simp_all add: sample_stack_env_def)
  note t = credit_update_delivered [OF i stack_zero_wf m e(1) _ a d _ _ _ _ accessory_device_facts(1) _ _ stack_zero_can_send]
  show ?thesis using t unfolding c1_def s took_over_def
    by (intro exI [of _ ?area]) (simp add: fresh_rep_mem_def blank_channel_env_def sample_channel_env_def; blast)
qed

end
