(* ===== verification/Channel_Main.thy ===== *)
theory Channel_Main
  imports Channel_Exchange Channel_Origin
begin

text \<open>
  The processes of the stack and its main loop (\<^verbatim>\<open>oc/util/oc_process.c\<close>, \<^verbatim>\<open>oc/api/oc_main.c\<close>, \<^verbatim>\<open>oc/api/oc_ri.c\<close>,
  \<^verbatim>\<open>oc/api/oc_network_events.c\<close>), and the start and the periodic processing of Nexus Channel (\<^verbatim>\<open>src/nexus_channel_core.c\<close>).
  The threads of the four processes never return; broadcast events are not used. A result \<open>None\<close> is a fault of a thread or a
  loop that does not end.
\<close>

section \<open>Processes\<close>

definition process_thread :: "'p stack_env \<Rightarrow> oc_process \<Rightarrow> oc_event \<Rightarrow> 'p oc_stack \<Rightarrow> 'p oc_stack option" where
  "process_thread e p ev s =
     (case p of
        OC_ETIMER_PROCESS \<Rightarrow> Some (on_rt (oc_etimer_process_thread (now s) ev) s)
      | TIMED_CALLBACK_EVENTS \<Rightarrow> Some (timed_callback_events_thread ev s)
      | COAP_ENGINE \<Rightarrow> coap_engine_thread e ev s
      | MESSAGE_BUFFER_HANDLER \<Rightarrow> Some (message_buffer_handler_thread (cenv e) ev s))"

definition set_process_state :: "oc_process \<Rightarrow> process_state \<Rightarrow> 'p oc_stack \<Rightarrow> 'p oc_stack" where
  "set_process_state p st = on_rt (\<lambda>r. r\<lparr>process_state_of := (process_state_of r)(p := st)\<rparr>)"

definition oc_process_is_running :: "oc_process \<Rightarrow> 'p oc_stack \<Rightarrow> bool" where
  "oc_process_is_running p s \<longleftrightarrow> process_state_of (rt s) p \<noteq> OC_PROCESS_STATE_NONE"

text \<open>A call of a process that goes on afterwards; a process that is being called is not called again.\<close>

definition call_thread :: "'p stack_env \<Rightarrow> oc_process \<Rightarrow> oc_event \<Rightarrow> 'p oc_stack \<Rightarrow> 'p oc_stack option" where
  "call_thread e p ev s =
     (if process_state_of (rt s) p = OC_PROCESS_STATE_RUNNING
      then map_option (set_process_state p OC_PROCESS_STATE_RUNNING) (process_thread e p ev (set_process_state p OC_PROCESS_STATE_CALLED s))
      else Some s)"

fun call_others :: "'p stack_env \<Rightarrow> oc_process \<Rightarrow> oc_process list \<Rightarrow> 'p oc_stack \<Rightarrow> 'p oc_stack option" where
  "call_others e p [] s = Some s"
| "call_others e p (q # qs) s =
     (case (if q \<noteq> p then call_thread e q (OC_PROCESS_EVENT_EXITED p) s else Some s) of None \<Rightarrow> None | Some s \<Rightarrow> call_others e p qs s)"

definition exit_process :: "'p stack_env \<Rightarrow> oc_process \<Rightarrow> oc_process option \<Rightarrow> 'p oc_stack \<Rightarrow> 'p oc_stack option" where
  "exit_process e p fromprocess s =
     (if p \<notin> set (process_list (rt s)) then Some s
      else
        case (if oc_process_is_running p s then
                (case call_others e p (process_list (rt s)) (set_process_state p OC_PROCESS_STATE_NONE s) of
                   None \<Rightarrow> None
                 | Some s \<Rightarrow> if fromprocess \<noteq> Some p then process_thread e p OC_PROCESS_EVENT_EXIT s else Some s)
              else Some s) of
          None \<Rightarrow> None
        | Some s \<Rightarrow> Some (on_rt (\<lambda>r. r\<lparr>process_list := remove1 p (process_list r)\<rparr>) s))"

definition call_process :: "'p stack_env \<Rightarrow> oc_process \<Rightarrow> oc_event \<Rightarrow> 'p oc_stack \<Rightarrow> 'p oc_stack option" where
  "call_process e p ev s =
     (if ev = OC_PROCESS_EVENT_EXIT \<and> process_state_of (rt s) p = OC_PROCESS_STATE_RUNNING
      then (case process_thread e p ev (set_process_state p OC_PROCESS_STATE_CALLED s) of
              None \<Rightarrow> None | Some s \<Rightarrow> exit_process e p (Some p) s)
      else call_thread e p ev s)"

definition oc_process_start :: "'p stack_env \<Rightarrow> oc_process \<Rightarrow> 'p oc_stack \<Rightarrow> 'p oc_stack option" where
  "oc_process_start e p s =
     (if p \<in> set (process_list (rt s)) then Some s
      else call_process e p OC_PROCESS_EVENT_INIT
        (set_process_state p OC_PROCESS_STATE_RUNNING (on_rt (\<lambda>r. r\<lparr>process_list := p # process_list r\<rparr>) s)))"

fun poll_processes :: "'p stack_env \<Rightarrow> oc_process list \<Rightarrow> 'p oc_stack \<Rightarrow> 'p oc_stack option" where
  "poll_processes e [] s = Some s"
| "poll_processes e (p # ps) s =
     (if needspoll (rt s) p then
        (case call_process e p OC_PROCESS_EVENT_POLL
           (set_process_state p OC_PROCESS_STATE_RUNNING (on_rt (\<lambda>r. r\<lparr>needspoll := (needspoll r)(p := False)\<rparr>) s)) of
           None \<Rightarrow> None | Some s \<Rightarrow> poll_processes e ps s)
      else poll_processes e ps s)"

definition do_poll :: "'p stack_env \<Rightarrow> 'p oc_stack \<Rightarrow> 'p oc_stack option" where
  "do_poll e s = poll_processes e (process_list (rt s)) (on_rt (\<lambda>r. r\<lparr>poll_requested := False\<rparr>) s)"

definition do_event :: "'p stack_env \<Rightarrow> 'p oc_stack \<Rightarrow> 'p oc_stack option" where
  "do_event e s =
     (case next_event (queue (rt s)) of
        None \<Rightarrow> Some s
      | Some ((receiver, ev), q) \<Rightarrow>
          let s = on_rt (\<lambda>r. r\<lparr>queue := q\<rparr>) s;
              s = (if ev = OC_PROCESS_EVENT_INIT then set_process_state receiver OC_PROCESS_STATE_RUNNING s else s)
          in call_process e receiver ev s)"

definition oc_process_nevents :: "'p oc_stack \<Rightarrow> nat" where
  "oc_process_nevents s = unat (nevents (queue (rt s))) + (if poll_requested (rt s) then 1 else 0)"

definition oc_process_run :: "'p stack_env \<Rightarrow> 'p oc_stack \<Rightarrow> (nat \<times> 'p oc_stack) option" where
  "oc_process_run e s =
     (case (if poll_requested (rt s) then do_poll e s else Some s) of
        None \<Rightarrow> None
      | Some s \<Rightarrow> map_option (\<lambda>s. (oc_process_nevents s, s)) (do_event e s))"

section \<open>The main loop\<close>

definition request_poll :: "'p oc_stack \<Rightarrow> u64 \<times> 'p oc_stack" where
  "request_poll s = (let (next_second, r) = oc_etimer_request_poll (rt s) in (next_second, s\<lparr>rt := r\<rparr>))"

partial_function (option) main_poll_loop :: "'p stack_env \<Rightarrow> u64 \<Rightarrow> 'p oc_stack \<Rightarrow> (u64 \<times> 'p oc_stack) option" where
  "main_poll_loop e next_second s =
     (case oc_process_run e s of
        None \<Rightarrow> None
      | Some r \<Rightarrow>
          if fst r = 0 then Some (next_second, snd r)
          else main_poll_loop e (fst (request_poll (snd r))) (snd (request_poll (snd r))))"

definition oc_main_poll :: "'p stack_env \<Rightarrow> 'p oc_stack \<Rightarrow> (u64 \<times> 'p oc_stack) option" where
  "oc_main_poll e s = main_poll_loop e (fst (request_poll s)) (snd (request_poll s))"

text \<open>A datagram from the network is copied to an incoming buffer, which is released if the queue is full.\<close>

definition stack_network_receive :: "'p channel_env \<Rightarrow> bytes option \<Rightarrow> nx_id \<Rightarrow> 'p oc_stack \<Rightarrow> nx_channel_error \<times> 'p oc_stack" where
  "stack_network_receive e bytes_received source s =
     (case bytes_received of None \<Rightarrow> (NX_CHANNEL_ERROR_UNSPECIFIED, s)
      | Some data \<Rightarrow>
          if length data = 0 then (NX_CHANNEL_ERROR_UNSPECIFIED, s)
          else if length data > NEXUS_CHANNEL_MAX_COAP_TOTAL_MESSAGE_SIZE then (NX_CHANNEL_ERROR_MESSAGE_TOO_LARGE, s)
          else case stack_allocate_message s of
              (None, s) \<Rightarrow> (NX_CHANNEL_ERROR_UNSPECIFIED, s)
            | (Some i, s) \<Rightarrow>
                let s = on_incoming (memb_update i (\<lambda>g. g\<lparr>msg_length := length data, msg_data := memcpy_at 0 data (msg_data g),
                      msg_endpoint := nexus_oc_wrapper_nx_id_to_oc_endpoint source\<rparr>)) s
                in (NX_CHANNEL_ERROR_NONE, stack_request_processing e (oc_recv_message i s)))"

section \<open>Start and periodic processing\<close>

definition start_processes :: "'p stack_env \<Rightarrow> 'p oc_stack \<Rightarrow> 'p oc_stack option" where
  "start_processes e s =
     Option.bind (oc_process_start e OC_ETIMER_PROCESS s) (\<lambda>s.
     Option.bind (oc_process_start e TIMED_CALLBACK_EVENTS s) (\<lambda>s.
     Option.bind (oc_process_start e COAP_ENGINE s) (oc_process_start e MESSAGE_BUFFER_HANDLER)))"

definition oc_process_init :: "'p oc_stack \<Rightarrow> 'p oc_stack" where
  "oc_process_init = on_rt (\<lambda>r. r\<lparr>queue := (queue r)\<lparr>nevents := 0, fevent := 0\<rparr>, process_list := []\<rparr>)"

definition oc_ri_init :: "'p stack_env \<Rightarrow> 'p oc_stack \<Rightarrow> 'p oc_stack option" where
  "oc_ri_init e s =
     start_processes e (oc_process_init (on_chan (on_reg (\<lambda>r. r\<lparr>app_resources := []\<rparr>)) (s\<lparr>client_cbs := [], timed_callbacks := []\<rparr>)))"

text \<open>Four random numbers make an identifier, in which the bits of its version and of its variant are set.\<close>

definition oc_gen_uuid :: "'p channel_env \<Rightarrow> 'p oc_stack \<Rightarrow> bytes \<times> 'p oc_stack" where
  "oc_gen_uuid e s =
     (let (r0, s) = random_value e s;
          (r1, s) = random_value e s;
          (r2, s) = random_value e s;
          (r3, s) = random_value e s;
          uuid = u32_le r0 @ u32_le r1 @ u32_le r2 @ u32_le r3;
          uuid = uuid[8 := (uuid ! 8 AND 0x3f) OR 0x40];
          uuid = uuid[6 := (uuid ! 6 AND 0x0f) OR 0x40]
      in (uuid, s))"

text \<open>
  The platform and the device are registered once the stack runs. Their records are not part of the state; what remains are the paths of
  \<open>core_resources\<close>, and that three identifiers are drawn, for the platform and for the device and its protocol independent name.
\<close>

definition nexus_channel_core_internal_init :: "'p channel_env \<Rightarrow> 'p oc_stack \<Rightarrow> 'p oc_stack" where
  "nexus_channel_core_internal_init e s =
     (let (pi, s) = oc_gen_uuid e s; (di, s) = oc_gen_uuid e s; (piid, s) = oc_gen_uuid e s in s)"

definition oc_main_init :: "'p stack_env \<Rightarrow> 'p oc_stack \<Rightarrow> 'p oc_stack option" where
  "oc_main_init e s =
     (if main_initialized s then Some s
      else map_option (\<lambda>s. (nexus_channel_core_internal_init (cenv e) s)\<lparr>main_initialized := True\<rparr>) (oc_ri_init e s))"

definition nexus_channel_core_init :: "'p stack_env \<Rightarrow> 'p oc_stack \<Rightarrow> 'p oc_stack option" where
  "nexus_channel_core_init e s =
     map_option (on_chan (\<lambda>c.
       let c = on_reg nexus_channel_sm_init c;
           c = (if SUPPORT_CONTROLLER_MODE (cenv e) then nexus_channel_om_init (cenv e) c else c);
           c = nexus_channel_res_link_hs_init (cenv e) c;
           c = snd (nexus_channel_link_manager_init (cenv e) c)
       in nexus_channel_res_payg_credit_init (cenv e) c)) (oc_main_init e s)"

text \<open>The clock of the stack is the uptime in seconds.\<close>

definition nexus_channel_core_process :: "'p stack_env \<Rightarrow> u32 \<Rightarrow> 'p oc_stack \<Rightarrow> (u32 \<times> 'p oc_stack) option" where
  "nexus_channel_core_process e seconds_elapsed s =
     (case oc_main_poll e s of
        None \<Rightarrow> None
      | Some (next_second, s) \<Rightarrow>
          let current_uptime = ucast (now s) :: u32;
              until_next = (if next_second > 0
                then (if current_uptime < ucast next_second then ucast next_second - current_uptime else 0) else UINT32_MAX);
              min_sleep = (if until_next < UINT32_MAX then until_next else NEXUS_COMMON_IDLE_SECONDS);
              (t1, c) = nexus_channel_res_link_hs_process (cenv e) seconds_elapsed (chan s);
              (t2, c) = nexus_channel_link_manager_process (cenv e) seconds_elapsed c;
              (t3, c) = nexus_channel_res_payg_credit_process (cenv e) seconds_elapsed c
          in Some (min (min (min min_sleep t1) t2) t3, s\<lparr>chan := c\<rparr>))"

text \<open>Every identifier has 16 bytes, says that it is random (version 4), and has the bits 01 where the variant of RFC 4122 is 10.\<close>

lemma uuid_version_variant:
  shows "length (fst (oc_gen_uuid e s)) = 16" "fst (oc_gen_uuid e s) ! 6 AND 0xF0 = 0x40" "fst (oc_gen_uuid e s) ! 8 AND 0xC0 = 0x40"
proof -
  have m: "(w AND 0x3f OR 0x40) AND 0xC0 = 0x40" "(w AND 0x0f OR 0x40) AND 0xF0 = 0x40" for w :: u8
    by (simp_all add: word_bw_comms bit.conj_disj_distrib bit.conj_disj_distrib2 and.assoc)
  show "length (fst (oc_gen_uuid e s)) = 16" by (simp add: oc_gen_uuid_def Let_def split: prod.splits)
  show "fst (oc_gen_uuid e s) ! 6 AND 0xF0 = 0x40" by (simp add: oc_gen_uuid_def Let_def m split: prod.splits)
  show "fst (oc_gen_uuid e s) ! 8 AND 0xC0 = 0x40" by (simp add: oc_gen_uuid_def Let_def m split: prod.splits)
qed

section \<open>A received datagram reaches the engine\<close>

text \<open>No timer has run out, and the processes are waiting.\<close>

definition timers_quiet :: "'p oc_stack \<Rightarrow> bool" where
  "timers_quiet s \<longleftrightarrow> list_all (\<lambda>t. \<not> oc_timer_expired (now s) (etimer_of (rt s) t)) (timerlist (rt s))"

definition processes_wait :: "'p oc_stack \<Rightarrow> bool" where
  "processes_wait s \<longleftrightarrow> list_all (\<lambda>p. process_state_of (rt s) p = OC_PROCESS_STATE_RUNNING)
     [OC_ETIMER_PROCESS, TIMED_CALLBACK_EVENTS, COAP_ENGINE, MESSAGE_BUFFER_HANDLER]"

definition stack_ready :: "'p oc_stack \<Rightarrow> bool" where
  "stack_ready s \<longleftrightarrow> timers_quiet s \<and> processes_wait s \<and> queue_wf (queue (rt s)) \<and> queue_items (queue (rt s)) = []"

lemma quiet_etimer_poll: "list_all (\<lambda>t. \<not> oc_timer_expired n (etimer_of r t)) (timerlist r) \<Longrightarrow> etimer_poll n r = r"
proof -
  assume a: "list_all (\<lambda>t. \<not> oc_timer_expired n (etimer_of r t)) (timerlist r)"
  have "list_all (\<lambda>t. \<not> oc_timer_expired n (etimer_of r t)) ts \<Longrightarrow> post_first_expired n ts r = (None, r)" for ts
    by (induction ts) auto
  then show ?thesis using a by (simp add: etimer_poll.simps)
qed

lemma quiet_poll_thread: "timers_quiet s \<Longrightarrow> process_thread e p OC_PROCESS_EVENT_POLL s = Some s"
  by (cases p) (simp_all add: process_thread_def timers_quiet_def oc_etimer_process_thread_def quiet_etimer_poll on_rt_def
      timed_callback_events_thread_def coap_engine_thread_def message_buffer_handler_thread_def)

text \<open>What changes in a round of polls: the requests for them.\<close>

definition polls_cleared :: "'p oc_stack \<Rightarrow> 'p oc_stack \<Rightarrow> bool" where
  "polls_cleared s s' \<longleftrightarrow> (\<exists>np pr. s' = s\<lparr>rt := (rt s)\<lparr>needspoll := np, poll_requested := pr\<rparr>\<rparr>)"

lemma polls_cleared_refl: "polls_cleared s s"
  unfolding polls_cleared_def by (intro exI [of _ "needspoll (rt s)"] exI [of _ "poll_requested (rt s)"]) simp

lemma polls_cleared_trans: "polls_cleared s s' \<Longrightarrow> polls_cleared s' s'' \<Longrightarrow> polls_cleared s s''"
  unfolding polls_cleared_def by (elim exE) (simp, blast)

lemma polls_cleared_simps:
  assumes "polls_cleared s s'"
  shows "queue (rt s') = queue (rt s)" "process_state_of (rt s') = process_state_of (rt s)" "chan s' = chan s" "incoming_buffers s' = incoming_buffers s"
    "timers_quiet s' = timers_quiet s" "processes_wait s' = processes_wait s"
  using assms by (auto simp: polls_cleared_def timers_quiet_def processes_wait_def)

lemma state_at_rest: "process_state_of (rt s) p = st \<Longrightarrow> set_process_state p st s = s"
  by (auto simp: set_process_state_def on_rt_def)

lemma processes_waitD: "processes_wait s \<Longrightarrow> process_state_of (rt s) p = OC_PROCESS_STATE_RUNNING"
  by (cases p) (simp_all add: processes_wait_def)

lemma call_process_waiting:
  assumes "process_state_of (rt s) p = OC_PROCESS_STATE_RUNNING" "ev \<noteq> OC_PROCESS_EVENT_EXIT"
  shows "call_process e p ev s = map_option (set_process_state p OC_PROCESS_STATE_RUNNING) (process_thread e p ev (set_process_state p OC_PROCESS_STATE_CALLED s))"
  using assms by (simp add: call_process_def call_thread_def)

lemma called_back: "process_state_of (rt s) p = st \<Longrightarrow> set_process_state p st (set_process_state p st' s) = s"
  by (auto simp: set_process_state_def on_rt_def)

lemma quiet_polls:
  "timers_quiet s \<Longrightarrow> processes_wait s \<Longrightarrow> \<exists>s'. poll_processes e ps s = Some s' \<and> polls_cleared s s'"
proof (induction ps arbitrary: s)
  case Nil
  then show ?case using polls_cleared_refl by auto
next
  case (Cons p ps)
  show ?case
  proof (cases "needspoll (rt s) p")
    case True
    let ?s = "on_rt (\<lambda>r. r\<lparr>needspoll := (needspoll r)(p := False)\<rparr>) s"
    have c: "polls_cleared s ?s"
      unfolding polls_cleared_def by (intro exI [of _ "(needspoll (rt s))(p := False)"] exI [of _ "poll_requested (rt s)"]) (simp add: on_rt_def)
    have r: "process_state_of (rt ?s) p = OC_PROCESS_STATE_RUNNING" using processes_waitD [OF Cons.prems(2)] by (simp add: on_rt_def)
    have "timers_quiet (set_process_state p OC_PROCESS_STATE_CALLED ?s)" using Cons.prems(1) by (simp add: timers_quiet_def set_process_state_def on_rt_def)
    then have "call_process e p OC_PROCESS_EVENT_POLL ?s = Some ?s"
      by (subst call_process_waiting [OF r]) (simp_all add: quiet_poll_thread called_back [OF r])
    then have "poll_processes e (p # ps) s = poll_processes e ps ?s" using True state_at_rest [OF r] by simp
    then show ?thesis
      using Cons.IH [of ?s] polls_cleared_simps [OF c] Cons.prems polls_cleared_trans [OF c] by auto
  next
    case False
    then show ?thesis using Cons by simp
  qed
qed

lemma quiet_run:
  assumes "timers_quiet s" "processes_wait s"
  shows "\<exists>s'. polls_cleared s s' \<and> oc_process_run e s = map_option (\<lambda>s. (oc_process_nevents s, s)) (do_event e s')"
proof (cases "poll_requested (rt s)")
  case True
  let ?s = "on_rt (\<lambda>r. r\<lparr>poll_requested := False\<rparr>) s"
  have c: "polls_cleared s ?s"
    unfolding polls_cleared_def by (intro exI [of _ "needspoll (rt s)"] exI [of _ False]) (simp add: on_rt_def)
  obtain s' where "do_poll e s = Some s'" "polls_cleared ?s s'"
    using quiet_polls [of ?s e "process_list (rt s)"] assms polls_cleared_simps [OF c] by (auto simp: do_poll_def)
  then show ?thesis using True polls_cleared_trans [OF c] by (auto simp: oc_process_run_def)
qed (use polls_cleared_refl in \<open>auto simp: oc_process_run_def\<close>)

lemma request_poll_cleared: "polls_cleared s (snd (request_poll s))"
proof -
  let ?np = "needspoll (rt (snd (request_poll s)))" and ?pr = "poll_requested (rt (snd (request_poll s)))"
  have "snd (request_poll s) = s\<lparr>rt := (rt s)\<lparr>needspoll := ?np, poll_requested := ?pr\<rparr>\<rparr>"
    by (simp add: request_poll_def oc_etimer_request_poll_def oc_process_poll_def Let_def)
  then show ?thesis unfolding polls_cleared_def by blast
qed

text \<open>One event, delivered to a process that waits.\<close>

lemma do_event_waiting:
  assumes "processes_wait s" "queue_wf (queue (rt s))" "queue_items (queue (rt s)) = (p, ev) # rest" "ev \<noteq> OC_PROCESS_EVENT_EXIT" "ev \<noteq> OC_PROCESS_EVENT_INIT"
  shows "\<exists>q. queue_wf q \<and> queue_items q = rest \<and> do_event e s = map_option (set_process_state p OC_PROCESS_STATE_RUNNING)
    (process_thread e p ev (set_process_state p OC_PROCESS_STATE_CALLED (s\<lparr>rt := (rt s)\<lparr>queue := q\<rparr>\<rparr>)))"
proof -
  obtain q where q: "next_event (queue (rt s)) = Some ((p, ev), q)" "queue_items q = rest" "queue_wf q"
    using next_event_items [OF assms(2,3)] by blast
  have "process_state_of (rt (s\<lparr>rt := (rt s)\<lparr>queue := q\<rparr>\<rparr>)) p = OC_PROCESS_STATE_RUNNING" using processes_waitD [OF assms(1)] by simp
  from call_process_waiting [OF this assms(4)] show ?thesis
    using q assms(5) by (auto simp: do_event_def on_rt_def Let_def)
qed

text \<open>The main loop after an event has been handled.\<close>

definition loop_on :: "'p stack_env \<Rightarrow> u64 \<Rightarrow> 'p oc_stack \<Rightarrow> (u64 \<times> 'p oc_stack) option" where
  "loop_on e n s = (if oc_process_nevents s = 0 then Some (n, s) else main_poll_loop e (fst (request_poll s)) (snd (request_poll s)))"

lemma loop_step:
  assumes "timers_quiet s" "processes_wait s" "queue_wf (queue (rt s))" "queue_items (queue (rt s)) = (p, ev) # rest" "ev \<noteq> OC_PROCESS_EVENT_EXIT" "ev \<noteq> OC_PROCESS_EVENT_INIT"
  shows "\<exists>np pr q. queue_wf q \<and> queue_items q = rest \<and> main_poll_loop e n s =
    (case process_thread e p ev (set_process_state p OC_PROCESS_STATE_CALLED (s\<lparr>rt := (rt s)\<lparr>needspoll := np, poll_requested := pr, queue := q\<rparr>\<rparr>)) of
       None \<Rightarrow> None | Some s' \<Rightarrow> loop_on e n (set_process_state p OC_PROCESS_STATE_RUNNING s'))"
proof -
  obtain s2 where s2: "polls_cleared s s2" "oc_process_run e s = map_option (\<lambda>s. (oc_process_nevents s, s)) (do_event e s2)"
    using quiet_run [OF assms(1,2)] by blast
  note k = polls_cleared_simps [OF s2(1)]
  obtain q where q: "queue_wf q" "queue_items q = rest" "do_event e s2 = map_option (set_process_state p OC_PROCESS_STATE_RUNNING)
      (process_thread e p ev (set_process_state p OC_PROCESS_STATE_CALLED (s2\<lparr>rt := (rt s2)\<lparr>queue := q\<rparr>\<rparr>)))"
    using do_event_waiting [of s2 p ev rest e] assms k by auto
  obtain np pr where "s2 = s\<lparr>rt := (rt s)\<lparr>needspoll := np, poll_requested := pr\<rparr>\<rparr>" using s2(1) by (auto simp: polls_cleared_def)
  then have "s2\<lparr>rt := (rt s2)\<lparr>queue := q\<rparr>\<rparr> = s\<lparr>rt := (rt s)\<lparr>needspoll := np, poll_requested := pr, queue := q\<rparr>\<rparr>" by simp
  moreover have "main_poll_loop e n s = (case do_event e s2 of None \<Rightarrow> None | Some s' \<Rightarrow> loop_on e n s')"
    using s2(2) by (subst main_poll_loop.simps) (auto simp: loop_on_def split: option.splits)
  ultimately show ?thesis using q by (intro exI [of _ np] exI [of _ pr] exI [of _ q]) (auto split: option.splits)
qed

lemma received_in_buffer:
  assumes "stack_allocate_message s = (Some i, s0)" "length (memb_mem (incoming_buffers s)) = length (memb_count (incoming_buffers s))" "length bs \<le> 120"
  shows "memb_at (memb_update i (\<lambda>g. g\<lparr>msg_length := length bs, msg_data := memcpy_at 0 bs (msg_data g), msg_endpoint := ep\<rparr>) (incoming_buffers s0)) i = received ep bs"
    "s0 = s\<lparr>incoming_buffers := incoming_buffers s0\<rparr>"
proof -
  obtain pool where pool: "oc_memb_alloc zero_message (incoming_buffers s) = (Some i, pool)"
    using assms(1) by (auto simp: stack_allocate_message_def allocate_message_def split: prod.splits option.splits)
  have i: "i < length (memb_mem (incoming_buffers s))" "memb_mem pool = (memb_mem (incoming_buffers s))[i := zero_message]"
    using pool assms(2) by (auto simp: oc_memb_alloc_def find_Some_iff split: option.splits)
  have s0: "s0 = s\<lparr>incoming_buffers := memb_update i (\<lambda>m. m\<lparr>msg_length := 0, msg_ref_count := 1\<rparr>) pool\<rparr>"
    using assms(1) pool by (simp add: stack_allocate_message_def allocate_message_def)
  show "s0 = s\<lparr>incoming_buffers := incoming_buffers s0\<rparr>" using s0 by simp
  show "memb_at (memb_update i (\<lambda>g. g\<lparr>msg_length := length bs, msg_data := memcpy_at 0 bs (msg_data g), msg_endpoint := ep\<rparr>) (incoming_buffers s0)) i = received ep bs"
    using i assms(3) s0 by (simp add: memb_update_def received_def zero_message_def memcpy_at_def drop_replicate)
qed

text \<open>After a datagram has been received its event waits, and nothing else has changed.\<close>

lemma network_receive:
  assumes "stack_ready s" "bs \<noteq> []" "length bs \<le> 120" "stack_allocate_message s = (Some i, s0)"
    "length (memb_mem (incoming_buffers s)) = length (memb_count (incoming_buffers s))"
  shows "\<exists>pool q. stack_network_receive ce (Some bs) src s =
      (NX_CHANNEL_ERROR_NONE, s\<lparr>chan := request_processing ce (chan s), incoming_buffers := pool, rt := (rt s)\<lparr>queue := q\<rparr>\<rparr>) \<and>
    memb_at pool i = received (endpoint_of src) bs \<and> queue_wf q \<and> queue_items q = [(MESSAGE_BUFFER_HANDLER, INBOUND_NETWORK_EVENT i)]"
proof -
  obtain P where s0: "s0 = s\<lparr>incoming_buffers := P\<rparr>" using received_in_buffer(2) [OF assms(4,5,3)] by blast
  have b: "memb_at (memb_update i (\<lambda>g. g\<lparr>msg_length := length bs, msg_data := memcpy_at 0 bs (msg_data g), msg_endpoint := endpoint_of src\<rparr>) P) i = received (endpoint_of src) bs"
    using received_in_buffer(1) [OF assms(4,5,3), of "endpoint_of src"] s0 by simp
  have w: "queue_wf (queue (rt s))" "queue_items (queue (rt s)) = []" using assms(1) by (simp_all add: stack_ready_def)
  have "unat (nevents (queue (rt s))) < 10" using arg_cong [OF w(2), of length] by (simp add: queue_items_def)
  then obtain q where q: "oc_process_post MESSAGE_BUFFER_HANDLER (INBOUND_NETWORK_EVENT i) (queue (rt s)) = (True, q)"
      "queue_items q = [(MESSAGE_BUFFER_HANDLER, INBOUND_NETWORK_EVENT i)]" "queue_wf q"
    using post_event_items [OF w(1)] w(2) by fastforce
  let ?pool = "memb_update i (\<lambda>g. g\<lparr>msg_length := length bs, msg_data := memcpy_at 0 bs (msg_data g), msg_endpoint := endpoint_of src\<rparr>) P"
  have "stack_network_receive ce (Some bs) src s =
      (NX_CHANNEL_ERROR_NONE, s\<lparr>chan := request_processing ce (chan s), incoming_buffers := ?pool, rt := (rt s)\<lparr>queue := q\<rparr>\<rparr>)"
    using assms(2,3,4) q(1) s0
    by (simp add: stack_network_receive_def oc_recv_message_def post_event_def stack_request_processing_def on_chan_def on_incoming_def Let_def)
  then show ?thesis using b q(2,3) by blast
qed

text \<open>C16. A datagram from the network is handled by the next turn of the main loop, whole and with its sender: when the processes have started, no event waits and no timer
  has run out, a datagram of up to 120 bytes for which there is a buffer is accepted; the loop hands its event from the buffer
  process to the engine, which receives exactly these bytes from this device, with the stack as it was; and then its buffer is
  released and the loop goes on.\<close>

theorem received_datagram_handled:
  assumes "stack_ready s" "bs \<noteq> []" "length bs \<le> 120" "stack_allocate_message s = (Some i, s0)"
    "length (memb_mem (incoming_buffers s)) = length (memb_count (incoming_buffers s))"
  shows "\<exists>s1 s2 n. stack_network_receive (cenv e) (Some bs) src s = (NX_CHANNEL_ERROR_NONE, s1) \<and>
    s2 = s\<lparr>chan := request_processing (cenv e) (chan s), incoming_buffers := incoming_buffers s2, rt := rt s2\<rparr> \<and>
    timerlist (rt s2) = timerlist (rt s) \<and> etimer_of (rt s2) = etimer_of (rt s) \<and> queue_items (queue (rt s2)) = [] \<and>
    oc_main_poll e s1 = (case coap_receive e (received (endpoint_of src) bs) s2 of None \<Rightarrow> None
      | Some (_, s3) \<Rightarrow> loop_on e n (set_process_state COAP_ENGINE OC_PROCESS_STATE_RUNNING (on_incoming (oc_message_unref i) s3)))"
proof -
  let ?E = COAP_ENGINE and ?H = MESSAGE_BUFFER_HANDLER
  obtain pool q where r: "stack_network_receive (cenv e) (Some bs) src s =
      (NX_CHANNEL_ERROR_NONE, s\<lparr>chan := request_processing (cenv e) (chan s), incoming_buffers := pool, rt := (rt s)\<lparr>queue := q\<rparr>\<rparr>)"
      "memb_at pool i = received (endpoint_of src) bs" "queue_wf q" "queue_items q = [(?H, INBOUND_NETWORK_EVENT i)]"
    using network_receive [OF assms] by blast
  define s1 where "s1 = s\<lparr>chan := request_processing (cenv e) (chan s), incoming_buffers := pool, rt := (rt s)\<lparr>queue := q\<rparr>\<rparr>"
  define u where "u = snd (request_poll s1)"
  have cu: "polls_cleared s1 u" using request_poll_cleared by (simp add: u_def)
  note ku = polls_cleared_simps [OF cu]
  have ready: "timers_quiet s1" "processes_wait s1" using assms(1) by (simp_all add: s1_def stack_ready_def timers_quiet_def processes_wait_def)
  obtain np pr q1 where l1: "queue_wf q1" "queue_items q1 = []" "main_poll_loop e (fst (request_poll s1)) u =
      (case process_thread e ?H (INBOUND_NETWORK_EVENT i) (set_process_state ?H OC_PROCESS_STATE_CALLED (u\<lparr>rt := (rt u)\<lparr>needspoll := np, poll_requested := pr, queue := q1\<rparr>\<rparr>)) of
         None \<Rightarrow> None | Some s' \<Rightarrow> loop_on e (fst (request_poll s1)) (set_process_state ?H OC_PROCESS_STATE_RUNNING s'))"
    using loop_step [of u ?H "INBOUND_NETWORK_EVENT i" "[]" e "fst (request_poll s1)"] ku ready r(3,4) by (auto simp: s1_def)
  have "unat (nevents q1) < 10" using arg_cong [OF l1(2), of length] by (simp add: queue_items_def)
  then obtain q2 where q2: "oc_process_post ?E (INBOUND_RI_EVENT i) q1 = (True, q2)" "queue_items q2 = [(?E, INBOUND_RI_EVENT i)]" "queue_wf q2"
    using post_event_items [OF l1(1)] l1(2) by fastforce
  define v where "v = u\<lparr>rt := (rt u)\<lparr>needspoll := np, poll_requested := pr, queue := q2\<rparr>\<rparr>"
  have H: "process_state_of (rt u) ?H = OC_PROCESS_STATE_RUNNING" using processes_waitD [OF ready(2)] ku(2) by simp
  have "main_poll_loop e (fst (request_poll s1)) u = loop_on e (fst (request_poll s1)) v"
    using l1(3) q2(1) H by (simp add: process_thread_def message_buffer_handler_thread_def post_event_def set_process_state_def on_rt_def v_def fun_upd_idem)
  moreover have "oc_process_nevents v \<noteq> 0" using arg_cong [OF q2(2), of length] by (simp add: oc_process_nevents_def v_def queue_items_def)
  moreover define w where "w = snd (request_poll v)"
  ultimately have m: "oc_main_poll e s1 = main_poll_loop e (fst (request_poll v)) w" by (simp add: oc_main_poll_def loop_on_def u_def)
  have cw: "polls_cleared v w" using request_poll_cleared by (simp add: w_def)
  note kw = polls_cleared_simps [OF cw]
  have v: "timers_quiet v" "processes_wait v" "queue (rt v) = q2" using ku ready by (simp_all add: v_def timers_quiet_def processes_wait_def)
  obtain np' pr' q3 where l2: "queue_wf q3" "queue_items q3 = []" "main_poll_loop e (fst (request_poll v)) w =
      (case process_thread e ?E (INBOUND_RI_EVENT i) (set_process_state ?E OC_PROCESS_STATE_CALLED (w\<lparr>rt := (rt w)\<lparr>needspoll := np', poll_requested := pr', queue := q3\<rparr>\<rparr>)) of
         None \<Rightarrow> None | Some s' \<Rightarrow> loop_on e (fst (request_poll v)) (set_process_state ?E OC_PROCESS_STATE_RUNNING s'))"
    using loop_step [of w ?E "INBOUND_RI_EVENT i" "[]" e "fst (request_poll v)"] kw v q2(2,3) by auto
  define s2 where "s2 = set_process_state ?E OC_PROCESS_STATE_CALLED (w\<lparr>rt := (rt w)\<lparr>needspoll := np', poll_requested := pr', queue := q3\<rparr>\<rparr>)"
  obtain a b where "u = s1\<lparr>rt := (rt s1)\<lparr>needspoll := a, poll_requested := b\<rparr>\<rparr>" using cu by (auto simp: polls_cleared_def)
  moreover obtain c d where "w = v\<lparr>rt := (rt v)\<lparr>needspoll := c, poll_requested := d\<rparr>\<rparr>" using cw by (auto simp: polls_cleared_def)
  ultimately have w: "w = s1\<lparr>rt := (rt s1)\<lparr>needspoll := c, poll_requested := d, queue := q2\<rparr>\<rparr>" by (simp add: v_def)
  have s2: "s2 = s\<lparr>chan := request_processing (cenv e) (chan s), incoming_buffers := incoming_buffers s2, rt := rt s2\<rparr>" "incoming_buffers s2 = pool"
      "timerlist (rt s2) = timerlist (rt s)" "etimer_of (rt s2) = etimer_of (rt s)" "queue_items (queue (rt s2)) = []"
    using w l2(2) by (auto simp: s2_def set_process_state_def on_rt_def s1_def)
  have "oc_main_poll e s1 = (case coap_receive e (received (endpoint_of src) bs) s2 of None \<Rightarrow> None
      | Some (_, s3) \<Rightarrow> loop_on e (fst (request_poll v)) (set_process_state ?E OC_PROCESS_STATE_RUNNING (on_incoming (oc_message_unref i) s3)))"
    using m l2(3) r(2) s2(2) unfolding s2_def [symmetric] by (auto simp: process_thread_def coap_engine_thread_def split: option.splits prod.splits)
  then show ?thesis using r(1) s2 unfolding s1_def by blast
qed

definition waiting_stack :: "product oc_stack" where
  "waiting_stack = (stack_zero secured_device)\<lparr>rt := runtime_zero\<lparr>process_state_of := (\<lambda>_. OC_PROCESS_STATE_RUNNING),
     process_list := [MESSAGE_BUFFER_HANDLER, COAP_ENGINE, TIMED_CALLBACK_EVENTS, OC_ETIMER_PROCESS]\<rparr>\<rparr>"

theorem received_datagram_handled_witness:
  "\<exists>s1 s2 n. stack_network_receive blank_channel_env (Some [0x51, 1, 0, 7, 9]) peer waiting_stack = (NX_CHANNEL_ERROR_NONE, s1) \<and>
    queue_items (queue (rt s2)) = [] \<and>
    oc_main_poll sample_stack_env s1 = (case coap_receive sample_stack_env (received (endpoint_of peer) [0x51, 1, 0, 7, 9]) s2 of None \<Rightarrow> None
      | Some (_, s3) \<Rightarrow> loop_on sample_stack_env n (set_process_state COAP_ENGINE OC_PROCESS_STATE_RUNNING (on_incoming (oc_message_unref 0) s3)))"
proof -
  have r: "stack_ready waiting_stack"
    by (simp add: stack_ready_def timers_quiet_def processes_wait_def waiting_stack_def runtime_zero_def empty_queue_def queue_wf_def queue_items_def)
  obtain m where "oc_memb_alloc zero_message (memb_zero 2 zero_message) = (Some 0, m)" using alloc_zero [of 2 zero_message zero_message] by auto
  then have "\<exists>s0. stack_allocate_message waiting_stack = (Some 0, s0)"
    by (simp add: stack_allocate_message_def allocate_message_def waiting_stack_def stack_zero_def)
  then obtain s0 where a: "stack_allocate_message waiting_stack = (Some 0, s0)" ..
  have l: "length (memb_mem (incoming_buffers waiting_stack)) = length (memb_count (incoming_buffers waiting_stack))"
    by (simp add: waiting_stack_def stack_zero_def memb_zero_def)
  have e: "cenv sample_stack_env = blank_channel_env" by (simp add: sample_stack_env_def)
  show ?thesis
    using received_datagram_handled [OF r _ _ a l, of "[0x51, 1, 0, 7, 9]" sample_stack_env peer] unfolding e by (simp, blast)
qed

end
