(* ===== verification/Spec2Isabelle.thy ===== *)
theory Spec2Isabelle
  imports Nexus_Crc Nexus_Siphash Nexus_Bitstream Nexus_Digits Nexus_Bitset Keycode_Core Keycode_Once Keycode_System Channel_Link_System Channel_Origin Channel_Credit Channel_Security Channel_Oc_List Channel_Mmem Channel_Main
begin

text \<open>
  \<^bold>\<open>The Nexus embedded library.\<close> A device that is paid for in instalments runs this C library in one or two halves, both
  on a single thread with static memory. \<^emph>\<open>Keycodes\<close>: digits typed by a customer are assembled to a message, whose MAC
  (SipHash-2-4 with the device's key) and identifier are checked, and which then adds, sets or unlocks credit.
  \<^emph>\<open>Nexus Channel\<close>: devices form links with a shared key and exchange CoAP messages, unsecured or signed as COSE MAC0 with
  a nonce; a controller sends its credit to its accessories. Paths below are relative to \<^verbatim>\<open>src/nexus\<close>.

  \<^bold>\<open>Foundations.\<close>
  \<^item> \<open>Nexus_Prelude\<close>: types, byte layouts and word lemmas that all theories share.
  \<^item> \<open>Nexus_Crc\<close>, \<open>Nexus_Siphash\<close> (\<^verbatim>\<open>utils/crc_ccitt.c\<close>, \<^verbatim>\<open>utils/siphash_24.c\<close>): both routines equal their reference
    definitions.
  \<^item> \<open>Nexus_Bitstream\<close>, \<open>Nexus_Digits\<close>, \<open>Nexus_Bitset\<close> (\<^verbatim>\<open>src/nexus_util.c\<close>): bits pushed are pulled; the identifier
    window never accepts an identifier twice and marking refines insertion into a set.
  \<^item> \<open>Nexus_Check\<close>, \<open>Nexus_Nv\<close>, \<open>Nexus_State\<close> (\<^verbatim>\<open>src/nexus_security.c\<close>, \<^verbatim>\<open>src/nexus_nv.c\<close>, \<^verbatim>\<open>include/\<close>): integrity checks,
    nonvolatile blocks and the state of the keycode half. The product's functions are a record of parameters; what the library
    relies on is in the locales \<open>nv_medium\<close>, \<open>nv_checked\<close>, \<open>nv_reliable\<close> and \<open>product_port\<close>, interpreted on the desktop sample program
    (\<open>Sample_Product\<close>, \<^verbatim>\<open>examples/desktop_sample_program\<close>), whose credit survives a restart.

  \<^bold>\<open>Keycodes.\<close>
  \<^item> \<open>Keycode_Window\<close>, \<open>Keycode_Small\<close>, \<open>Keycode_Full\<close>, \<open>Keycode_Pro\<close> (\<^verbatim>\<open>src/nexus_keycode_pro.c\<close>, \<^verbatim>\<open>_extended.c\<close>): received
    identifiers, the two protocols with every message type, and parsing from keys to messages.
  \<^item> \<open>Keycode_Mas\<close>, \<open>Keycode_Core\<close> (\<^verbatim>\<open>src/nexus_keycode_mas.c\<close>, \<^verbatim>\<open>nexus_keycode_core.c\<close>, \<^verbatim>\<open>nexus_common_internal.c\<close>): assembly of
    keys, time-outs, the rate limit and the entry points of the library.
  \<^item> \<open>Keycode_Once\<close>: over any sequence of frames that does not wipe the record of identifiers, none is applied twice to add or set
    credit. \<open>Keycode_System\<close>: the transition system of all entry points; its invariant, what a restart recovers, and that every interpreted frame costs a refill period.

  \<^bold>\<open>Links and resources of Nexus Channel.\<close>
  \<^item> \<open>Channel_State\<close>, \<open>Channel_Port\<close>, \<open>Channel_Resource\<close>: the static data, the port (locale \<open>channel_port\<close>, interpreted on the
    sample program) and the registry of resources and secured methods (\<^verbatim>\<open>src/nexus_channel_core.c\<close>, \<^verbatim>\<open>nexus_channel_sm.c\<close>).
  \<^item> \<open>Channel_Link\<close>, \<open>Channel_Link_System\<close> (\<^verbatim>\<open>src/nexus_channel_res_lm.c\<close>): the link table and its nonvolatile copy. Every
    reachable state satisfies the invariant, an accepted link is established, and the nonce does not fall back over a restart while
    nonces are in step.
  \<^item> \<open>Channel_Handshake\<close>, \<open>Channel_Origin\<close>, \<open>Channel_Credit\<close>, \<open>Channel_Wrapper\<close> (\<^verbatim>\<open>src/nexus_channel_res_link_hs.c\<close>,
    \<^verbatim>\<open>nexus_channel_om.c\<close>, \<^verbatim>\<open>nexus_channel_res_payg_credit.c\<close>, \<^verbatim>\<open>nexus_oc_wrapper.c\<close>): handshake, origin commands, the credit resource
    and the wrapper of the stack. A follower that is not updated loses its credit; the credit resource of a
    controller that leads lists every accessory.

  \<^bold>\<open>Messages.\<close>
  \<^item> \<open>Channel_Cbor\<close>, \<open>Channel_Rep\<close> (\<^verbatim>\<open>oc/deps/tinycbor\<close>, \<^verbatim>\<open>oc/api/oc_rep.c\<close>, \<^verbatim>\<open>oc/include/oc_rep.h\<close>): CBOR and payloads. Parsing ends
    for every input, what is encoded is decoded, and the payloads that break the decoder are exhibited.
  \<^item> \<open>Channel_Coap\<close> (\<^verbatim>\<open>oc/messaging/coap/coap.c\<close>): packets. What is serialised with a token is parsed, accepted packets are well typed.
  \<^item> \<open>Channel_Cose\<close>, \<open>Channel_Security\<close> (\<^verbatim>\<open>src/nexus_cose_mac0_*.c\<close>, \<^verbatim>\<open>nexus_channel_sm.c\<close>): signing, verification and the decision
    on a received message. Signed messages verify, the signed bytes determine the message, secured methods are reached only
    with a valid MAC and a nonce above the stored one, and accepted nonces increase as long as they stay below the limit at which the
    code resets them. What is accepted at and beyond the limit is stated by lemmas of its own.

  \<^bold>\<open>The stack.\<close>
  \<^item> \<open>Channel_Oc_List\<close>, \<open>Channel_Oc_Runtime\<close>, \<open>Channel_Mmem\<close> (\<^verbatim>\<open>utils/oc_list.c\<close>, \<^verbatim>\<open>oc/util\<close>): linked lists refine sequences, events are
    delivered once and in order, and the compacting allocator keeps the contents of the blocks.
  \<^item> \<open>Channel_Transactions\<close>, \<open>Channel_Dispatch\<close>, \<open>Channel_Engine\<close> (\<^verbatim>\<open>oc/api/oc_buffer.c\<close>, \<^verbatim>\<open>oc_ri.c\<close>, \<^verbatim>\<open>oc_client_api.c\<close>,
    \<^verbatim>\<open>oc/messaging/coap/transactions.c\<close>, \<^verbatim>\<open>engine.c\<close>): buffers, transactions and client callbacks in their pools, the dispatch of a
    request to its handler, the client interface and the engine.
  \<^item> \<open>Channel_Exchange\<close>: two devices. What a device sends is queued and handed to the network; a secured request reaches its
    handler, a client that has fallen behind recovers by a nonce sync, a controller's credit becomes the credit of its accessory and of
    that product, and a secured request that is answered without payload stops the server.
  \<^item> \<open>Channel_Main\<close> (\<^verbatim>\<open>oc/util/oc_process.c\<close>, \<^verbatim>\<open>oc/api/oc_main.c\<close>, \<^verbatim>\<open>src/nexus_channel_core.c\<close>): processes, the main loop, the start and the
    periodic processing. On a stack at rest a received datagram is handed to the engine whole and with its sender by the next
    turn of the loop.

  \<^bold>\<open>Conventions.\<close> Machine integers are words of their width; \<^verbatim>\<open>size_t\<close> has 32 bits. A module's static data are a record that its
  operations take and return; a C pointer is an index, a position or the list of the bytes from there on. \<open>None\<close>, or \<open>Inl\<close> of a
  fault, stands for what C leaves undefined: an access outside an array, through a null or an unset pointer.
  Loops are structural where the code counts. Where it does not, they have a termination proof, are partial functions (walks over
  linked lists, \<open>None\<close> on a cycle, and the main loop), or carry a bound that a lemma shows to suffice: \<open>attempts_loop\<close> (the bucket divided by the
  refill period), \<open>nonce_interval_loop\<close> (64, the storage interval), the challenge loop (24, the handshake window), \<open>infer_fields_loop\<close>
  (40, the receive window), \<open>controlled_ids_loop\<close> (10, the link table), \<open>advance_recursive\<close> (twice the bytes) and \<open>parse_calls\<close>
  (four times the bytes and eight).

  \<^bold>\<open>Parameters.\<close> The product (storage, feedback, credit, random numbers, network), the handlers of its own resources
  (\<open>product_request\<close>, \<open>product_response\<close>), uninitialised memory (\<open>tag_memory\<close>) and the memory left for payloads (\<open>rep_pools\<close>). The channel modules
  call the client interface of the stack through parameters of \<open>channel_env\<close>; the stack's own versions are in \<open>Channel_Engine\<close>.

  \<^bold>\<open>Not modelled.\<close> Shutting down (\<^verbatim>\<open>oc_main_shutdown\<close>), device and platform records (\<^verbatim>\<open>oc_core_res.c\<close> beyond the paths and
  identifiers), floating point in CBOR, observation, block-wise transfer and retransmission (compiled out), conversion of UUIDs,
  logging, the file handling and prompts of the sample program, the Zephyr examples and the configuration tool: they are input and
  output, third-party or disabled code without a part in the behaviour above.
\<close>

end
